(* ===== verification/Prelude.thy ===== *)
theory Prelude
  imports Main "HOL-Library.List_Lexorder" "HOL-Library.Char_ord" "HOL-Library.Sublist"
begin

text \<open>
  Shared vocabulary of the development: Go strings and their standard-library
  operations, results with an early return, and generic facts on lists and maps.

  A Go \<open>string\<close> (and a \<open>[]byte\<close>) is a list of bytes, so it is a HOL \<open>string\<close>
  (a \<open>char\<close> has 8 bits). Go compares strings byte by byte; that is the \<open>linorder\<close>
  that \<open>List_Lexorder\<close> puts on \<open>char list\<close> with \<open>Char_ord\<close>.
\<close>

section \<open>Collections of facts\<close>

named_theorems go_strings \<open>equations of the Go string functions\<close>
named_theorems early_return \<open>facts that split a chain of early returns\<close>

section \<open>Results with early return\<close>

text \<open>
  A Go function that returns \<open>(value, error)\<close> is a value of \<open>'e + 'a\<close>. The idiom
  \<open>if err != nil { return ..., err }\<close> is \<open>rbind\<close>.
\<close>

fun rbind :: "'e + 'a \<Rightarrow> ('a \<Rightarrow> 'e + 'b) \<Rightarrow> 'e + 'b" where
  "rbind (Inl e) f = Inl e"
| "rbind (Inr x) f = f x"

lemma rbind_cong [fundef_cong]:
  "m = m' \<Longrightarrow> (\<And>x. m' = Inr x \<Longrightarrow> f x = g x) \<Longrightarrow> rbind m f = rbind m' g"
  by (cases m') auto

lemma rbind_Inr_iff [early_return]:
  "rbind m f = Inr y \<longleftrightarrow> (\<exists>x. m = Inr x \<and> f x = Inr y)"
  by (cases m) auto

lemma map_sum_Inr: "map_sum id f v = Inr y \<longleftrightarrow> (\<exists>x. v = Inr x \<and> y = f x)"
  by (cases v) auto

lemma rbind_Inl_iff [early_return]:
  "rbind m f = Inl e \<longleftrightarrow> m = Inl e \<or> (\<exists>x. m = Inr x \<and> f x = Inl e)"
  by (cases m) auto

lemma rbind_assoc: "rbind (rbind m f) g = rbind m (\<lambda>x. rbind (f x) g)"
  by (cases m) auto

text \<open>A guard: \<open>if bad { return err }\<close>.\<close>

definition refuse_if :: "bool \<Rightarrow> 'e \<Rightarrow> 'e + unit" where
  "refuse_if b e = (if b then Inl e else Inr ())"

lemma refuse_if_Inr [early_return]: "refuse_if b e = Inr u \<longleftrightarrow> \<not> b"
  by (simp add: refuse_if_def)

lemma refuse_if_Inl [early_return]: "refuse_if b e = Inl e' \<longleftrightarrow> b \<and> e' = e"
  by (auto simp: refuse_if_def)

lemma refuse_if_simps [simp]:
  "refuse_if False e = Inr ()" "refuse_if True e = Inl e"
  by (simp_all add: refuse_if_def)

section \<open>Go string functions\<close>

text \<open>\<open>strings.IndexByte\<close>: \<open>None\<close> stands for \<open>-1\<close>.\<close>

fun index_byte :: "char \<Rightarrow> string \<Rightarrow> nat option" where
  "index_byte c [] = None"
| "index_byte c (x # xs) = (if x = c then Some 0 else map_option Suc (index_byte c xs))"

lemma index_byte_None [go_strings]: "index_byte c s = None \<longleftrightarrow> c \<notin> set s"
  by (induction s) auto

lemma index_byte_Some:
  "index_byte c s = Some i \<Longrightarrow>
     i < length s \<and> s ! i = c \<and> c \<notin> set (take i s) \<and> s = take i s @ c # drop (Suc i) s"
proof (induction s arbitrary: i)
  case Nil
  then show ?case by simp
next
  case (Cons x xs)
  then show ?case by (fastforce split: if_splits)
qed

lemma index_byte_append [simp]:
  "c \<notin> set a \<Longrightarrow> index_byte c (a @ c # b) = Some (length a)"
  by (induction a) auto

text \<open>\<open>strings.LastIndexByte\<close>.\<close>

definition last_index_byte :: "char \<Rightarrow> string \<Rightarrow> nat option" where
  "last_index_byte c s = map_option (\<lambda>i. length s - Suc i) (index_byte c (rev s))"

lemma last_index_byte_None: "last_index_byte c s = None \<longleftrightarrow> c \<notin> set s"
  by (simp add: last_index_byte_def index_byte_None)

lemma last_index_byte_Some:
  assumes "last_index_byte c s = Some i"
  shows "i < length s \<and> s ! i = c \<and> c \<notin> set (drop (Suc i) s)"
proof -
  obtain j where j: "index_byte c (rev s) = Some j" and i: "i = length s - Suc j"
    using assms by (auto simp: last_index_byte_def)
  from index_byte_Some [OF j]
  have jl: "j < length s" and nth: "rev s ! j = c" and nin: "c \<notin> set (take j (rev s))"
    by auto
  have "drop (Suc i) s = rev (take j (rev s))"
    using jl i by (simp add: take_rev Suc_diff_Suc)
  then show ?thesis using i jl nth nin by (simp add: rev_nth)
qed

text \<open>\<open>strings.TrimPrefix\<close>, \<open>TrimSuffix\<close>, \<open>CutSuffix\<close>.\<close>

definition trim_prefix :: "string \<Rightarrow> string \<Rightarrow> string" where
  "trim_prefix p s = (if prefix p s then drop (length p) s else s)"

definition trim_suffix :: "string \<Rightarrow> string \<Rightarrow> string" where
  "trim_suffix p s = (if suffix p s then take (length s - length p) s else s)"

definition cut_suffix :: "string \<Rightarrow> string \<Rightarrow> string option" where
  "cut_suffix p s = (if suffix p s then Some (take (length s - length p) s) else None)"

lemma trim_prefix_append [simp]: "trim_prefix p (p @ s) = s"
  by (simp add: trim_prefix_def)

lemma cut_suffix_append [simp]: "cut_suffix p (s @ p) = Some s"
  by (simp add: cut_suffix_def suffix_def)

lemma cut_suffix_Some [go_strings]: "cut_suffix p s = Some t \<longleftrightarrow> s = t @ p"
  by (auto simp: cut_suffix_def suffix_def)

lemma split_at_sep: "c \<notin> set a \<Longrightarrow> c \<notin> set b \<Longrightarrow> a @ c # x = b @ c # y \<Longrightarrow> a = b \<and> x = y"
proof (induction a arbitrary: b)
  case Nil
  then show ?case by (cases b) auto
next
  case (Cons h a)
  then show ?case by (cases b) auto
qed

text \<open>\<open>strings.SplitN\<close> with a one-byte separator and a positive count.\<close>

fun split_n :: "char \<Rightarrow> nat \<Rightarrow> string \<Rightarrow> string list" where
  "split_n c 0 s = []"
| "split_n c (Suc 0) s = [s]"
| "split_n c (Suc (Suc n)) s =
     (case index_byte c s of
        None \<Rightarrow> [s]
      | Some i \<Rightarrow> take i s # split_n c (Suc n) (drop (Suc i) s))"

text \<open>\<open>strings.Join\<close>.\<close>

fun go_join :: "string \<Rightarrow> string list \<Rightarrow> string" where
  "go_join sep [] = []"
| "go_join sep [x] = x"
| "go_join sep (x # y # ys) = x @ sep @ go_join sep (y # ys)"

text \<open>
  \<open>strings.TrimSpace\<close>: strip the UTF-8 encodings of the runes of \<open>unicode.IsSpace\<close>
  (the six ASCII ones, U+0085, U+00A0, U+1680, U+2000 to U+200A, U+2028, U+2029, U+202F,
  U+205F, U+3000) from both ends.
\<close>

definition space_runes :: "string list" where
  "space_runes =
     [[CHR 0x09], [CHR 0x0A], [CHR 0x0B], [CHR 0x0C], [CHR 0x0D], [CHR '' ''],
      [CHR 0xC2, CHR 0x85], [CHR 0xC2, CHR 0xA0], [CHR 0xE1, CHR 0x9A, CHR 0x80],
      [CHR 0xE2, CHR 0x80, CHR 0x80], [CHR 0xE2, CHR 0x80, CHR 0x81],
      [CHR 0xE2, CHR 0x80, CHR 0x82], [CHR 0xE2, CHR 0x80, CHR 0x83],
      [CHR 0xE2, CHR 0x80, CHR 0x84], [CHR 0xE2, CHR 0x80, CHR 0x85],
      [CHR 0xE2, CHR 0x80, CHR 0x86], [CHR 0xE2, CHR 0x80, CHR 0x87],
      [CHR 0xE2, CHR 0x80, CHR 0x88], [CHR 0xE2, CHR 0x80, CHR 0x89],
      [CHR 0xE2, CHR 0x80, CHR 0x8A], [CHR 0xE2, CHR 0x80, CHR 0xA8],
      [CHR 0xE2, CHR 0x80, CHR 0xA9], [CHR 0xE2, CHR 0x80, CHR 0xAF],
      [CHR 0xE2, CHR 0x81, CHR 0x9F], [CHR 0xE3, CHR 0x80, CHR 0x80]]"

function strip_any :: "string list \<Rightarrow> string \<Rightarrow> string" where
  "strip_any pats s =
     (case find (\<lambda>r. r \<noteq> [] \<and> prefix r s) pats of
        None \<Rightarrow> s
      | Some r \<Rightarrow> strip_any pats (drop (length r) s))"
  by pat_completeness auto
termination
  by (relation "measure (\<lambda>(pats, s). length s)")
    (auto simp: find_Some_iff prefix_def)

declare strip_any.simps [simp del]

definition trim_space :: "string \<Rightarrow> string" where
  "trim_space s = rev (strip_any (map rev space_runes) (rev (strip_any space_runes s)))"

text \<open>A string no rune of which can be stripped from either end.\<close>

definition trimmed :: "string \<Rightarrow> bool" where
  "trimmed s \<longleftrightarrow> list_all (\<lambda>r. \<not> prefix r s \<and> \<not> suffix r s) space_runes"

lemma strip_any_stuck: "list_all (\<lambda>r. r = [] \<or> \<not> prefix r s) pats \<Longrightarrow> strip_any pats s = s"
proof -
  assume "list_all (\<lambda>r. r = [] \<or> \<not> prefix r s) pats"
  then have "find (\<lambda>r. r \<noteq> [] \<and> prefix r s) pats = None"
    by (auto simp: find_None_iff list_all_iff)
  then show "strip_any pats s = s" by (subst strip_any.simps) simp
qed

lemma strip_any_no_prefix: "r \<in> set pats \<Longrightarrow> r \<noteq> [] \<Longrightarrow> \<not> prefix r (strip_any pats s)"
proof (induction pats s rule: strip_any.induct)
  case (1 pats s)
  then show ?case
    by (subst strip_any.simps) (auto simp: find_None_iff split: option.split)
qed

lemma strip_any_suffix: "suffix (strip_any pats s) s"
proof (induction pats s rule: strip_any.induct)
  case (1 pats s)
  then show ?case
    by (subst strip_any.simps) (auto split: option.split intro: suffix_order.trans suffix_drop)
qed

lemma space_runes_nonempty: "r \<in> set space_runes \<Longrightarrow> r \<noteq> []"
  by (auto simp: space_runes_def)

lemma trim_space_id: "trimmed s \<Longrightarrow> trim_space s = s"
  unfolding trim_space_def
  by (subst (2) strip_any_stuck, simp add: trimmed_def list_all_iff)
    (subst strip_any_stuck, auto simp: trimmed_def list_all_iff suffix_to_prefix)

abbreviation newline :: char where "newline \<equiv> CHR 0x0A"
abbreviation carriage :: char where "carriage \<equiv> CHR 0x0D"

section \<open>Lists\<close>

text \<open>
  The loop \<open>if seen[x] { continue }; seen[x] = true; out = append(out, x)\<close>:
  the first occurrence of every element, in order.
\<close>

fun first_seen :: "'a set \<Rightarrow> 'a list \<Rightarrow> 'a list" where
  "first_seen seen [] = []"
| "first_seen seen (x # xs) =
     (if x \<in> seen then first_seen seen xs else x # first_seen (insert x seen) xs)"

lemma set_first_seen [simp]: "set (first_seen seen xs) = set xs - seen"
  by (induction xs arbitrary: seen) auto

lemma distinct_first_seen [simp]: "distinct (first_seen seen xs)"
  by (induction xs arbitrary: seen) auto

lemma first_seen_id: "distinct xs \<Longrightarrow> set xs \<inter> seen = {} \<Longrightarrow> first_seen seen xs = xs"
  by (induction xs arbitrary: seen) auto

lemma find_append: "find P (xs @ ys) = (case find P xs of None \<Rightarrow> find P ys | Some x \<Rightarrow> Some x)"
  by (induction xs) auto

lemma find_filter_hd: "find P xs = (case filter P xs of [] \<Rightarrow> None | y # ys \<Rightarrow> Some y)"
  by (induction xs) auto

lemma trimmed_trim_space: "trimmed (trim_space s)"
proof -
  define t where "t = strip_any space_runes s"
  have left: "\<not> prefix r t" if "r \<in> set space_runes" for r
    using that strip_any_no_prefix [OF that] space_runes_nonempty by (simp add: t_def)
  have "prefix (trim_space s) t"
    using strip_any_suffix [of "map rev space_runes" "rev t"]
    by (simp add: trim_space_def t_def suffix_to_prefix)
  then have "\<not> prefix r (trim_space s)" if "r \<in> set space_runes" for r
    using left [OF that] prefix_order.trans by blast
  moreover have "\<not> suffix r (trim_space s)" if "r \<in> set space_runes" for r
    using strip_any_no_prefix [of "rev r" "map rev space_runes" "rev t"] that space_runes_nonempty
    by (simp add: trim_space_def t_def suffix_to_prefix)
  ultimately show ?thesis by (simp add: trimmed_def list_all_iff)
qed

lemma trim_space_idem [simp]: "trim_space (trim_space s) = trim_space s"
  by (rule trim_space_id [OF trimmed_trim_space])

section \<open>Lines\<close>

text \<open>
  A byte string as its lines, each with its line break, so that they join back to it. The
  text of a line is the chunk less its newline and one carriage return before it.
\<close>

function line_chunks :: "string \<Rightarrow> string list" where
  "line_chunks s =
     (if s = [] then []
      else case index_byte newline s of
             Some i \<Rightarrow> take (i + 1) s # line_chunks (drop (i + 1) s)
           | None \<Rightarrow> [s])"
  by pat_completeness auto
termination by (relation "measure length") auto

declare line_chunks.simps [simp del]

lemma concat_line_chunks [simp]: "concat (line_chunks s) = s"
proof (induction s rule: line_chunks.induct)
  case (1 s)
  then show ?case by (subst line_chunks.simps) (auto split: option.split)
qed

definition chunk_line :: "string \<Rightarrow> string" where
  "chunk_line c = trim_suffix [carriage] (trim_suffix [newline] c)"

lemma chunk_line_break: "newline \<notin> set l \<Longrightarrow> chunk_line (l @ [newline]) = trim_suffix [carriage] l"
  by (simp add: chunk_line_def trim_suffix_def suffix_def)

lemma chunk_line_last: "newline \<notin> set l \<Longrightarrow> chunk_line l = trim_suffix [carriage] l"
  by (auto simp: chunk_line_def trim_suffix_def suffix_def)

definition complete_line :: "string \<Rightarrow> bool" where
  "complete_line c \<longleftrightarrow> c \<noteq> [] \<and> index_byte newline c = Some (length c - 1)"

lemma complete_lineI [intro]: "newline \<notin> set l \<Longrightarrow> complete_line (l @ [newline])"
  by (simp add: complete_line_def)

lemma complete_lineE:
  assumes "complete_line c"
  obtains l where "newline \<notin> set l" "c = l @ [newline]"
proof -
  have i: "index_byte newline c = Some (length c - 1)" and ne: "c \<noteq> []"
    using assms by (auto simp: complete_line_def)
  from index_byte_Some [OF i] have "newline \<notin> set (butlast c)" "c = butlast c @ [newline]"
    by (auto simp: butlast_conv_take)
  then show ?thesis by (rule that)
qed

lemma line_chunks_Cons:
  assumes "complete_line c"
  shows "line_chunks (c @ s) = c # line_chunks s"
proof -
  obtain l where l: "newline \<notin> set l" "c = l @ [newline]" using assms by (rule complete_lineE)
  then show ?thesis by (subst line_chunks.simps) simp
qed

lemma line_chunks_append: "list_all complete_line cs \<Longrightarrow> line_chunks (concat cs @ s) = cs @ line_chunks s"
  by (induction cs) (auto simp: line_chunks_Cons)

lemma line_chunks_Nil [simp]: "line_chunks [] = []"
  by (simp add: line_chunks.simps)

lemma line_chunks_cases:
  obtains (empty) "s = []" "line_chunks s = []"
    | (last) "s \<noteq> []" "newline \<notin> set s" "line_chunks s = [s]"
    | (line) l rest where "s = (l @ [newline]) @ rest" "newline \<notin> set l"
        "line_chunks s = (l @ [newline]) # line_chunks rest"
proof (cases "index_byte newline s")
  case None
  then have "newline \<notin> set s" by (simp add: index_byte_None)
  moreover have "s \<noteq> [] \<Longrightarrow> line_chunks s = [s]"
    using None by (simp add: line_chunks.simps)
  ultimately show ?thesis
    using empty last by (cases "s = []") auto
next
  case (Some i)
  from index_byte_Some [OF Some] have "newline \<notin> set (take i s)" "s = (take i s @ [newline]) @ drop (Suc i) s"
    by auto
  moreover from this have "line_chunks s = (take i s @ [newline]) # line_chunks (drop (Suc i) s)"
    using line_chunks_Cons [OF complete_lineI, of "take i s" "drop (Suc i) s"] by simp
  ultimately show ?thesis by (intro line)
qed

lemma line_chunks_parts: "c \<in> set (line_chunks s) \<Longrightarrow> complete_line c \<or> c \<noteq> [] \<and> newline \<notin> set c"
proof (induction "length s" arbitrary: s rule: less_induct)
  case less
  then show ?case
  proof (cases s rule: line_chunks_cases)
    case (line l rest)
    have "length rest < length s" by (simp add: line)
    from less(1) [OF this] less(2) show ?thesis
      unfolding line(3) set_simps by (auto intro: complete_lineI [OF line(2)])
  next
    case last
    then show ?thesis using less(2) by auto
  next
    case empty
    then show ?thesis using less(2) by auto
  qed
qed

text \<open>Every chunk but the last is a complete line.\<close>

lemma line_chunks_init: "line_chunks s = xs @ y # ys \<Longrightarrow> list_all complete_line xs"
proof (induction xs arbitrary: s)
  case (Cons x xs)
  show ?case
  proof (cases s rule: line_chunks_cases)
    case (line l rest)
    then show ?thesis using Cons.IH [of rest] Cons.prems by auto
  qed (use Cons.prems in auto)
qed simp

section \<open>String order\<close>

lemma nil_less_iff [simp]: "([] :: string) < s \<longleftrightarrow> s \<noteq> []"
  by (cases s) auto

lemma less_prepend [simp]: "p @ x < p @ (y :: string) \<longleftrightarrow> x < y"
  by (induction p) auto

lemma less_append_self [simp]: "(x :: string) < x @ y \<longleftrightarrow> y \<noteq> []"
  using less_prepend [of x "[]" y] by simp

lemma index_byte_nth: "distinct s \<Longrightarrow> i < length s \<Longrightarrow> index_byte (s ! i) s = Some i"
proof (induction s arbitrary: i)
  case (Cons x xs)
  then show ?case by (cases i) (auto simp: nth_eq_iff_index_eq)
qed simp

end
