(* ===== verification/Ids.thy ===== *)
theory Ids
  imports Prelude "HOL-Library.Word"
begin

text \<open>
  The ticket-id contract of \<open>internal/id\<close> (\<open>id.go\<close>, \<open>mintblock.go\<close>): the id
  grammar, the random mint, the deterministic collision extension, and the prefix
  rewrite of a scope rename. A random source is the list of bytes it will deliver;
  reading past its end is the reader's error.
\<close>

section \<open>Alphabets and predicates\<close>

abbreviation short_id_min :: nat where "short_id_min \<equiv> 4"
abbreviation short_id_max :: nat where "short_id_max \<equiv> 8"
abbreviation scope_name_max :: nat where "scope_name_max \<equiv> 20"

definition letter_alphabet :: string where
  "letter_alphabet = ''abcdefghjkmnpqrstuvwxyz''"

definition digit_alphabet :: string where
  "digit_alphabet = ''23456789''"

definition short_id_alphabet :: string where
  "short_id_alphabet = letter_alphabet @ digit_alphabet"

definition is_lower_alnum :: "char \<Rightarrow> bool" where
  "is_lower_alnum c \<longleftrightarrow> (CHR ''a'' \<le> c \<and> c \<le> CHR ''z'') \<or> (CHR ''0'' \<le> c \<and> c \<le> CHR ''9'')"

definition is_short_id_char :: "char \<Rightarrow> bool" where
  "is_short_id_char c \<longleftrightarrow> index_byte c short_id_alphabet \<noteq> None"

definition is_short_id_letter :: "char \<Rightarrow> bool" where
  "is_short_id_letter c \<longleftrightarrow> index_byte c letter_alphabet \<noteq> None"

definition is_scope_name :: "string \<Rightarrow> bool" where
  "is_scope_name s \<longleftrightarrow>
     \<not> (length s < 1 \<or> length s > scope_name_max) \<and> list_all is_lower_alnum s"

definition is_short_id :: "string \<Rightarrow> bool" where
  "is_short_id s \<longleftrightarrow>
     \<not> (length s < short_id_min \<or> length s > short_id_max) \<and>
     is_short_id_letter (hd s) \<and> list_all is_short_id_char s"

definition is_full_ticket_id :: "string \<Rightarrow> bool" where
  "is_full_ticket_id s =
     (case index_byte CHR ''-'' s of
        None \<Rightarrow> False
      | Some i \<Rightarrow>
          let scope = take i s; short = drop (Suc i) s in
          if index_byte CHR ''-'' short \<noteq> None then False
          else is_scope_name scope \<and> is_short_id short)"

definition scope_of_full_id :: "string \<Rightarrow> string" where
  "scope_of_full_id s = (case index_byte CHR ''-'' s of None \<Rightarrow> s | Some i \<Rightarrow> take i s)"

datatype form = FormFull | FormShort

definition parse_arg :: "string \<Rightarrow> form \<times> bool" where
  "parse_arg tok =
     (if CHR ''-'' \<in> set tok then (FormFull, is_full_ticket_id tok)
      else (FormShort, is_short_id tok))"

definition rewrite_prefix :: "string \<Rightarrow> string \<Rightarrow> string \<Rightarrow> string" where
  "rewrite_prefix full oldName newName =
     (if is_full_ticket_id full \<and> scope_of_full_id full = oldName
      then newName @ trim_prefix oldName full else full)"

section \<open>The random mint\<close>

datatype read_error = EOF

type_synonym reader = "8 word list"

text \<open>
  \<open>byteReader.uniform\<close>: draw one byte at a time and reject the ones at or above the
  largest multiple of \<open>n\<close>. The loop consumes the reader, so it is structural.
\<close>

fun uniform :: "nat \<Rightarrow> reader \<Rightarrow> read_error + (nat \<times> reader)" where
  "uniform n [] = Inl EOF"
| "uniform n (b # bs) =
     (let limit = 256 - (256 mod n) in
      if unat b < limit then Inr (unat b mod n, bs) else uniform n bs)"

text \<open>One turn of the loop over positions 2 to 4: a coin, then a letter or a digit.\<close>

definition mint_char :: "reader \<Rightarrow> read_error + (char \<times> reader)" where
  "mint_char r =
     rbind (uniform 2 r) (\<lambda>(coin, r1).
       if coin = 0
       then rbind (uniform (length letter_alphabet) r1) (\<lambda>(n, r2). Inr (letter_alphabet ! n, r2))
       else rbind (uniform (length digit_alphabet) r1) (\<lambda>(n, r2). Inr (digit_alphabet ! n, r2)))"

fun mint_rest :: "nat \<Rightarrow> reader \<Rightarrow> read_error + (string \<times> reader)" where
  "mint_rest 0 r = Inr ([], r)"
| "mint_rest (Suc k) r =
     rbind (mint_char r) (\<lambda>(c, r1). rbind (mint_rest k r1) (\<lambda>(cs, r2). Inr (c # cs, r2)))"

definition mint :: "reader \<Rightarrow> read_error + (string \<times> reader)" where
  "mint r =
     rbind (uniform (length letter_alphabet) r) (\<lambda>(first, r1).
       rbind (mint_rest (short_id_min - 1) r1) (\<lambda>(cs, r2).
         Inr (letter_alphabet ! first # cs, r2)))"

section \<open>The mint reject set\<close>

definition blocked_letter_runs :: "string list" where
  "blocked_letter_runs =
     [''anus'', ''arse'', ''ass'', ''cunt'', ''cum'', ''dyk'', ''dyke'', ''fag'', ''fuck'', ''fuk'',
      ''gash'', ''puss'', ''rape'', ''shag'', ''twat'', ''wank'']"

text \<open>The loop fills a buffer of \<open>ShortIDMax\<close> letters; one letter too many answers \<open>false\<close>.\<close>

fun strip_digits :: "string \<Rightarrow> string \<Rightarrow> string option" where
  "strip_digits [] letters = Some letters"
| "strip_digits (c # cs) letters =
     (if CHR ''0'' \<le> c \<and> c \<le> CHR ''9'' then strip_digits cs letters
      else if length letters = short_id_max then None
      else strip_digits cs (letters @ [c]))"

definition mint_blocked :: "string \<Rightarrow> bool" where
  "mint_blocked s =
     (case strip_digits s [] of
        None \<Rightarrow> False
      | Some letters \<Rightarrow> letters \<in> set blocked_letter_runs)"

section \<open>Deterministic extension\<close>

text \<open>
  \<open>incOdometer\<close> walks the digits from the right: the tail is advanced first, and only
  a tail that wrapped to zeros carries into the digit on its left.
\<close>

fun inc_odometer :: "nat list \<Rightarrow> bool \<times> nat list" where
  "inc_odometer [] = (False, [])"
| "inc_odometer (d # ds) =
     (case inc_odometer ds of
        (True, ds') \<Rightarrow> (True, d # ds')
      | (False, ds') \<Rightarrow>
          if Suc d < length short_id_alphabet then (True, Suc d # ds') else (False, 0 # ds'))"

fun odometer_gap :: "nat list \<Rightarrow> nat" where
  "odometer_gap [] = 0"
| "odometer_gap (d # ds) =
     (length short_id_alphabet - 1 - d) * length short_id_alphabet ^ length ds + odometer_gap ds"

lemma length_alphabets [simp]: "length letter_alphabet = 23" "length digit_alphabet = 8" "length short_id_alphabet = 31"
  by (simp_all add: letter_alphabet_def digit_alphabet_def short_id_alphabet_def)

lemma length_inc [simp]: "length (snd (inc_odometer ds)) = length ds"
proof (induction ds)
  case (Cons d ds)
  then show ?case by (cases "inc_odometer ds"; cases "fst (inc_odometer ds)") auto
qed simp

lemma inc_odometer_wrapped: "inc_odometer ds = (False, ds') \<Longrightarrow> ds' = replicate (length ds) 0 \<and> odometer_gap ds = 0"
  by (induction ds arbitrary: ds') (auto split: prod.splits bool.splits if_splits)

lemma odometer_gap_zero: "odometer_gap (replicate n 0) = 31 ^ n - 1"
proof (induction n)
  case (Suc n)
  have "(31::nat) ^ n \<ge> 1" by simp
  with Suc show ?case by (simp add: algebra_simps)
qed simp

lemma carry_gap: "0 < (x::nat) \<Longrightarrow> k * x + x - Suc 0 < x + k * x"
  by simp

lemma inc_odometer_advanced: "inc_odometer ds = (True, ds') \<Longrightarrow> odometer_gap ds' < odometer_gap ds"
proof (induction ds arbitrary: ds')
  case (Cons d ds)
  show ?case
  proof (cases "inc_odometer ds")
    case (Pair ok es)
    show ?thesis
    proof (cases ok)
      case True
      then show ?thesis using Cons Pair length_inc [of ds] by auto
    next
      case False
      then have "es = replicate (length ds) 0" "odometer_gap ds = 0" using inc_odometer_wrapped Pair by auto
      moreover have "ds' = Suc d # es" "Suc d < 31" using Cons.prems Pair False by (auto split: if_splits)
      moreover obtain k where "30 - d = Suc k" "29 - d = k"
        using \<open>Suc d < 31\<close> by (cases "30 - d") auto
      ultimately show ?thesis by (simp add: odometer_gap_zero carry_gap)
    qed
  qed
qed simp

text \<open>
  The inner loop of \<open>Extend\<close>: try the candidate of the odometer, then advance it. It
  stops because every advance shrinks the distance to the last odometer.
\<close>

function extend_at :: "string \<Rightarrow> string set \<Rightarrow> nat list \<Rightarrow> string option" where
  "extend_at pre occupied odometer =
     (let candidate = pre @ map ((!) short_id_alphabet) odometer in
      if candidate \<notin> occupied then Some candidate
      else (case inc_odometer odometer of
              (True, odometer') \<Rightarrow> extend_at pre occupied odometer'
            | (False, _) \<Rightarrow> None))"
  by pat_completeness auto
termination
  by (relation "measure (\<lambda>(p, occ, ds). odometer_gap ds)") (auto simp: inc_odometer_advanced[OF sym])

declare extend_at.simps [simp del]

fun digits_from :: "nat list \<Rightarrow> nat list list" where
  "digits_from [] = [[]]"
| "digits_from (d # ds) =
     map (Cons d) (digits_from ds) @
     concat (map (\<lambda>e. map (Cons e) (product_lists (replicate (length ds) [0..<31]))) [Suc d..<31])"

lemma digits_from_zero: "digits_from (replicate n 0) = product_lists (replicate n [0..<31])"
proof (induction n)
  case (Suc n)
  have "[0..<31] = 0 # [Suc 0..<31]" by (simp add: upt_conv_Cons)
  with Suc show ?case by simp
qed simp

lemma digits_from_step:
  "digits_from ds = ds # (case inc_odometer ds of (True, ds') \<Rightarrow> digits_from ds' | (False, _) \<Rightarrow> [])"
proof (induction ds)
  case (Cons d ds)
  show ?case
  proof (cases "inc_odometer ds")
    case (Pair ok es)
    show ?thesis
    proof (cases ok)
      case True
      with Cons Pair length_inc [of ds] show ?thesis by simp
    next
      case False
      then have es: "es = replicate (length ds) 0" using inc_odometer_wrapped Pair by auto
      show ?thesis
      proof (cases "Suc d < 31")
        case True
        then have "[Suc d..<31] = Suc d # [Suc (Suc d)..<31]" by (simp add: upt_conv_Cons)
        with True False Cons Pair es show ?thesis by (simp add: digits_from_zero)
      next
        case F2: False
        with False Cons Pair es show ?thesis by simp
      qed
    qed
  qed
qed simp

lemma extend_at_find:
  "extend_at p occ ds = find (\<lambda>c. c \<notin> occ) (map (\<lambda>ds. p @ map ((!) short_id_alphabet) ds) (digits_from ds))"
proof (induction p occ ds rule: extend_at.induct)
  case (1 p occ ds)
  show ?case
    by (subst extend_at.simps, subst digits_from_step) (use 1 in \<open>auto split: prod.splits bool.splits simp: Let_def\<close>)
qed

text \<open>The outer loop over target lengths.\<close>

fun extend_upto :: "string \<Rightarrow> string set \<Rightarrow> nat list \<Rightarrow> string option" where
  "extend_upto pre occupied [] = None"
| "extend_upto pre occupied (target # targets) =
     (case extend_at pre occupied (replicate (target - length pre) 0) of
        Some candidate \<Rightarrow> Some candidate
      | None \<Rightarrow> extend_upto pre occupied targets)"

datatype extend_error = NotShortID string | NoFreeID string

definition extend :: "string \<Rightarrow> string set \<Rightarrow> extend_error + string" where
  "extend pre occupied =
     (if \<not> is_short_id pre then Inl (NotShortID pre)
      else case extend_upto pre occupied [length pre + 1..<short_id_max + 1] of
             Some candidate \<Rightarrow> Inr candidate
           | None \<Rightarrow> Inl (NoFreeID pre))"

definition short_in_family :: "string \<Rightarrow> string \<Rightarrow> bool" where
  "short_in_family short base \<longleftrightarrow> is_short_id short \<and> is_short_id base \<and> prefix base short"

section \<open>Facts about the grammar\<close>

lemma is_short_id_char_iff: "is_short_id_char c \<longleftrightarrow> c \<in> set short_id_alphabet"
  by (auto simp: is_short_id_char_def index_byte_None)

lemma is_short_id_letter_iff: "is_short_id_letter c \<longleftrightarrow> c \<in> set letter_alphabet"
  by (auto simp: is_short_id_letter_def index_byte_None)

lemma alphabet_no_hyphen: "CHR ''-'' \<notin> set short_id_alphabet"
  by (simp add: short_id_alphabet_def letter_alphabet_def digit_alphabet_def)

lemma letters_in_alphabet: "set letter_alphabet \<subseteq> set short_id_alphabet"
  by (simp add: short_id_alphabet_def)

lemma lower_alnum_no_hyphen: "\<not> is_lower_alnum CHR ''-''"
  by (simp add: is_lower_alnum_def less_eq_char_def)

lemma scope_name_no_hyphen: "is_scope_name s \<Longrightarrow> CHR ''-'' \<notin> set s"
  using lower_alnum_no_hyphen by (auto simp: is_scope_name_def list_all_iff)

lemma short_id_no_hyphen: "is_short_id s \<Longrightarrow> CHR ''-'' \<notin> set s"
  using alphabet_no_hyphen by (auto simp: is_short_id_def list_all_iff is_short_id_char_iff)

text \<open>The join \<open>scope + "-" + short\<close> that mints, repairs and renames build.\<close>

definition full_id :: "string \<Rightarrow> string \<Rightarrow> string" where
  "full_id scope short = scope @ ''-'' @ short"

lemma full_ticket_id_iff:
  "is_full_ticket_id s \<longleftrightarrow>
     (\<exists>scope short. s = full_id scope short \<and> is_scope_name scope \<and> is_short_id short)"
proof
  assume "is_full_ticket_id s"
  then obtain i where "index_byte CHR ''-'' s = Some i" "is_scope_name (take i s)" "is_short_id (drop (Suc i) s)"
    by (auto simp: is_full_ticket_id_def Let_def split: option.splits if_splits)
  moreover from this(1) have "s = full_id (take i s) (drop (Suc i) s)"
    using index_byte_Some by (fastforce simp: full_id_def)
  ultimately show "\<exists>scope short. s = full_id scope short \<and> is_scope_name scope \<and> is_short_id short"
    by blast
next
  assume "\<exists>scope short. s = full_id scope short \<and> is_scope_name scope \<and> is_short_id short"
  then obtain sc sh where *: "s = sc @ CHR ''-'' # sh" "is_scope_name sc" "is_short_id sh"
    by (auto simp: full_id_def)
  then have "index_byte CHR ''-'' s = Some (length sc)" "index_byte CHR ''-'' sh = None"
    using scope_name_no_hyphen short_id_no_hyphen by (auto simp: index_byte_None)
  then show "is_full_ticket_id s" using * by (simp add: is_full_ticket_id_def Let_def)
qed

lemma scope_of_full_id [simp]: "is_scope_name scope \<Longrightarrow> scope_of_full_id (full_id scope short) = scope"
  using scope_name_no_hyphen by (auto simp: scope_of_full_id_def full_id_def)

lemma full_id_inject:
  "is_scope_name a \<Longrightarrow> is_scope_name b \<Longrightarrow> full_id a x = full_id b y \<longleftrightarrow> a = b \<and> x = y"
  by (metis append_same_eq full_id_def same_append_eq scope_of_full_id)

lemma is_full_ticket_id_full_id [simp]:
  "is_scope_name scope \<Longrightarrow> is_short_id short \<Longrightarrow> is_full_ticket_id (full_id scope short)"
  using full_ticket_id_iff by blast

lemma trim_prefix_full_id: "trim_prefix a (full_id a s) = ''-'' @ s"
  by (simp add: full_id_def)

lemma rewrite_prefix_full:
  "is_scope_name a \<Longrightarrow> is_short_id s \<Longrightarrow> rewrite_prefix (full_id a s) a b = full_id b s"
  by (simp add: rewrite_prefix_def trim_prefix_full_id) (simp add: full_id_def)

section \<open>Facts about the mint\<close>

lemma uniform_Inr:
  "uniform n r = Inr (k, r') \<Longrightarrow> 0 < n \<Longrightarrow> k < n \<and> length r' < length r"
  by (induction n r rule: uniform.induct) (auto simp: Let_def split: if_splits)

lemma mint_char_Inr:
  assumes "mint_char r = Inr (c, r')"
  shows "c \<in> set short_id_alphabet \<and> length r' < length r"
  using assms
  by (auto simp: mint_char_def rbind_Inr_iff short_id_alphabet_def split: if_splits prod.splits
      dest!: uniform_Inr)

lemma mint_rest_Inr:
  "mint_rest k r = Inr (cs, r') \<Longrightarrow> length cs = k \<and> set cs \<subseteq> set short_id_alphabet \<and> length r' \<le> length r"
proof (induction k arbitrary: r cs r')
  case (Suc k)
  then show ?case by (fastforce simp: rbind_Inr_iff split: prod.splits dest!: mint_char_Inr)
qed simp

lemma letter_nth [simp]: "k < 23 \<Longrightarrow> letter_alphabet ! k \<in> set letter_alphabet"
  by simp

lemma mint_Inr:
  assumes "mint r = Inr (s, r')"
  shows "is_short_id s \<and> length s = short_id_min \<and> length r' < length r"
proof -
  obtain k cs r1 where "s = letter_alphabet ! k # cs" "k < 23" "length r1 < length r"
      and cs: "mint_rest 3 r1 = Inr (cs, r')"
    using assms by (auto simp: mint_def rbind_Inr_iff split: prod.splits dest!: uniform_Inr)
  moreover have "letter_alphabet ! k \<in> set letter_alphabet" using \<open>k < 23\<close> by simp
  ultimately show ?thesis
    using mint_rest_Inr [OF cs] letters_in_alphabet
    by (auto simp: is_short_id_def is_short_id_letter_iff list_all_iff is_short_id_char_iff)
qed

text \<open>Every length-4 short id is drawn by some bytes, so no legal id is out of reach.\<close>

lemma uniform_word:
  "k < n \<Longrightarrow> n \<le> 256 \<Longrightarrow> uniform n (word_of_nat k # r) = Inr (k, r)"
proof -
  assume k: "k < n" "n \<le> 256"
  then have "k < 256 - 256 mod n"
  proof -
    have "256 - 256 mod n = n * (256 div n)" by (simp add: minus_mod_eq_mult_div)
    moreover have "1 \<le> 256 div n" using k by (simp add: div_greater_zero_iff Suc_le_eq)
    ultimately show ?thesis using k by (metis le_less_trans less_le_trans mult.right_neutral mult_le_mono2 order_refl)
  qed
  moreover have "unat (word_of_nat k :: 8 word) = k"
    using k by (simp add: unat_of_nat)
  ultimately show ?thesis using k by (simp add: Let_def)
qed

lemma mint_char_onto:
  assumes "c \<in> set short_id_alphabet"
  shows "\<exists>bs. \<forall>r. mint_char (bs @ r) = Inr (c, r)"
proof (cases "c \<in> set letter_alphabet")
  case True
  then obtain k where "k < 23" "letter_alphabet ! k = c" by (auto simp: in_set_conv_nth)
  moreover from this have "uniform 23 (word_of_nat k # r) = Inr (k, r)" for r
    by (intro uniform_word) auto
  moreover have "uniform 2 (word_of_nat 0 # r) = Inr (0, r)" for r
    by (rule uniform_word) auto
  ultimately have "mint_char ([word_of_nat 0, word_of_nat k] @ r) = Inr (c, r)" for r
    by (simp add: mint_char_def del: uniform.simps of_nat_0)
  then show ?thesis by blast
next
  case False
  with assms have "c \<in> set digit_alphabet" by (simp add: short_id_alphabet_def)
  then obtain k where "k < 8" "digit_alphabet ! k = c" by (auto simp: in_set_conv_nth)
  moreover from this have "uniform 8 (word_of_nat k # r) = Inr (k, r)" for r
    by (intro uniform_word) auto
  moreover have "uniform 2 (word_of_nat 1 # r) = Inr (1, r)" for r
    by (rule uniform_word) auto
  ultimately have "mint_char ([word_of_nat 1, word_of_nat k] @ r) = Inr (c, r)" for r
    by (simp add: mint_char_def del: uniform.simps of_nat_1)
  then show ?thesis by blast
qed

lemma mint_rest_onto:
  "set cs \<subseteq> set short_id_alphabet \<Longrightarrow> \<exists>bs. \<forall>r. mint_rest (length cs) (bs @ r) = Inr (cs, r)"
proof (induction cs)
  case Nil
  show ?case by (rule exI [of _ "[]"]) simp
next
  case (Cons c cs)
  then obtain b1 b2 where "\<forall>r. mint_char (b1 @ r) = Inr (c, r)"
      "\<forall>r. mint_rest (length cs) (b2 @ r) = Inr (cs, r)"
    using mint_char_onto by fastforce
  then have "mint_rest (length (c # cs)) ((b1 @ b2) @ r) = Inr (c # cs, r)" for r by simp
  then show ?case by blast
qed

lemma mint_onto:
  assumes "is_short_id s" "length s = short_id_min"
  shows "\<exists>bs. mint bs = Inr (s, [])"
proof -
  obtain c cs where s: "s = c # cs" using assms(2) by (cases s) auto
  then have c: "c \<in> set letter_alphabet" and cs: "set cs \<subseteq> set short_id_alphabet" "length cs = 3"
    using assms by (auto simp: is_short_id_def is_short_id_letter_iff list_all_iff is_short_id_char_iff)
  from c obtain k where "k < 23" "letter_alphabet ! k = c" by (auto simp: in_set_conv_nth)
  moreover obtain bs where "\<forall>r. mint_rest 3 (bs @ r) = Inr (cs, r)"
    using mint_rest_onto [OF cs(1)] cs(2) by metis
  then have "mint_rest 3 (bs @ []) = Inr (cs, [])" by blast
  ultimately have "mint (word_of_nat k # bs) = Inr (s, [])"
    by (simp del: uniform.simps add: mint_def s uniform_word)
  then show ?thesis by blast
qed

section \<open>Extension against its reference enumeration\<close>

text \<open>
  The reference: all proper extensions of \<open>pre\<close>, shortest first, and at one length in
  the order of the alphabet. The odometer finds the first free one.
\<close>

definition extensions :: "string \<Rightarrow> string list" where
  "extensions pre =
     concat (map (\<lambda>target. map ((@) pre) (product_lists (replicate (target - length pre) short_id_alphabet)))
       [length pre + 1..<short_id_max + 1])"

lemma product_lists_map:
  "product_lists (replicate n (map f xs)) = map (map f) (product_lists (replicate n xs))"
  by (induction n) (simp_all add: map_concat comp_def)

lemma alphabet_nth: "map ((!) short_id_alphabet) [0..<31] = short_id_alphabet"
  using map_nth [of short_id_alphabet] by simp

lemma extend_at_zero:
  "extend_at pre occ (replicate n 0) =
     find (\<lambda>c. c \<notin> occ) (map ((@) pre) (product_lists (replicate n short_id_alphabet)))"
  using product_lists_map [of n "(!) short_id_alphabet" "[0..<31]"]
  by (simp add: extend_at_find digits_from_zero alphabet_nth comp_def del: upt_rec_numeral)

lemma extend_upto_find:
  "extend_upto pre occ targets =
     find (\<lambda>c. c \<notin> occ)
       (concat (map (\<lambda>t. map ((@) pre) (product_lists (replicate (t - length pre) short_id_alphabet))) targets))"
  by (induction targets) (auto simp: extend_at_zero find_append split: option.splits)

lemma in_words_iff:
  "w \<in> set (product_lists (replicate n A)) \<longleftrightarrow> length w = n \<and> set w \<subseteq> set A"
proof (induction n arbitrary: w)
  case (Suc n)
  then show ?case by (cases w) auto
qed auto

lemma set_extensions_UN:
  "set (extensions pre) =
     (\<Union>t \<in> {length pre + 1..<short_id_max + 1}.
        (@) pre ` set (product_lists (replicate (t - length pre) short_id_alphabet)))"
  by (simp add: extensions_def)

lemma set_extensions:
  assumes "is_short_id pre"
  shows "set (extensions pre) = {c. is_short_id c \<and> strict_prefix pre c}"
proof (intro set_eqI iffI)
  fix c assume "c \<in> set (extensions pre)"
  then obtain t w where t: "t \<in> {length pre + 1..<short_id_max + 1}" and c: "c = pre @ w"
      and w: "w \<in> set (product_lists (replicate (t - length pre) short_id_alphabet))"
    unfolding set_extensions_UN by (elim UN_E imageE) blast
  have "length pre < t" "t \<le> 8" "length w = t - length pre" "set w \<subseteq> set short_id_alphabet"
    using t w by (simp_all add: in_words_iff)
  moreover have "strict_prefix pre c" using c calculation by (auto simp: strict_prefix_def)
  ultimately show "c \<in> {c. is_short_id c \<and> strict_prefix pre c}"
    using assms c by (cases pre) (auto simp: is_short_id_def list_all_iff is_short_id_char_iff)
next
  fix c assume "c \<in> {c. is_short_id c \<and> strict_prefix pre c}"
  then obtain w where w: "c = pre @ w" "w \<noteq> []" "is_short_id c" by (auto simp: strict_prefix_def prefix_def)
  then have ws: "set w \<subseteq> set short_id_alphabet" and wl: "length pre + length w \<le> 8"
    by (auto simp: is_short_id_def list_all_iff is_short_id_char_iff)
  from ws have "w \<in> set (product_lists (replicate (length w) short_id_alphabet))"
    by (simp add: in_words_iff)
  moreover have "length pre + length w \<in> set [length pre + 1..<8 + 1]"
    using w(2) wl by (cases w) auto
  ultimately show "c \<in> set (extensions pre)"
    using w(1) by (auto simp: extensions_def intro!: bexI [of _ "length pre + length w"])
qed


text \<open>C32. \<open>Extend\<close> answers the first free entry of the reference enumeration, or reports
  that there is none; a prefix that is no short id is refused. Two machines that repair
  the same collision therefore mint the same id.
\<close>
theorem extend_reference:
  "extend pre occupied =
     (if is_short_id pre
      then (case find (\<lambda>c. c \<notin> occupied) (extensions pre) of
              Some c \<Rightarrow> Inr c
            | None \<Rightarrow> Inl (NoFreeID pre))
      else Inl (NotShortID pre))"
  unfolding extend_def extend_upto_find extensions_def by simp

lemma extend_Inr:
  assumes "extend pre occupied = Inr c"
  shows "is_short_id pre" "is_short_id c" "strict_prefix pre c" "c \<notin> occupied"
proof -
  from assms have pre: "is_short_id pre" and "find (\<lambda>c. c \<notin> occupied) (extensions pre) = Some c"
    by (auto simp: extend_def extend_upto_find extensions_def split: if_splits option.splits)
  then have "c \<in> set (extensions pre)" "c \<notin> occupied" by (auto simp: find_Some_iff)
  with pre show "is_short_id pre" "is_short_id c" "strict_prefix pre c" "c \<notin> occupied"
    by (simp_all add: set_extensions)
qed

lemma extend_Inl:
  assumes "extend pre occupied = Inl e" "is_short_id pre"
  shows "e = NoFreeID pre \<and> {c. is_short_id c \<and> strict_prefix pre c} \<subseteq> occupied"
proof -
  from assms have e: "e = NoFreeID pre" and "find (\<lambda>c. c \<notin> occupied) (extensions pre) = None"
    by (auto simp: extend_def extend_upto_find extensions_def split: option.splits)
  then have "set (extensions pre) \<subseteq> occupied" by (auto simp: find_None_iff)
  with e assms(2) show ?thesis by (simp add: set_extensions)
qed

text \<open>The outcome of \<open>Extend\<close> on a legal short id: an unoccupied, strictly longer short
  id of the same family; or the error, and then every longer id of the family is taken.
\<close>
theorem extend_sound_complete:
  "is_short_id pre \<Longrightarrow>
     (case extend pre occupied of
        Inr c \<Rightarrow> short_in_family c pre \<and> c \<noteq> pre \<and> c \<notin> occupied
      | Inl e \<Rightarrow> e = NoFreeID pre \<and> {c. short_in_family c pre \<and> c \<noteq> pre} \<subseteq> occupied)"
  using extend_Inl [of pre occupied] extend_Inr [of pre occupied]
  by (auto simp: short_in_family_def strict_prefix_def split: sum.splits)

theorem extend_sound_complete_witness:
  "(case extend ''abcd'' {''abcda'', ''abcdb''} of
      Inr c \<Rightarrow> short_in_family c ''abcd'' \<and> c \<noteq> ''abcd'' \<and> c \<notin> {''abcda'', ''abcdb''}
    | Inl e \<Rightarrow> e = NoFreeID ''abcd'' \<and> {c. short_in_family c ''abcd'' \<and> c \<noteq> ''abcd''} \<subseteq> {''abcda'', ''abcdb''})"
proof -
  have "is_short_id ''abcd''" by code_simp
  then show ?thesis by (rule extend_sound_complete)
qed

text \<open>The ids that some random source makes \<open>Mint\<close> return are exactly the legal short
  ids of length 4.
\<close>
theorem mint_range:
  "(\<exists>r r'. mint r = Inr (s, r')) \<longleftrightarrow> is_short_id s \<and> length s = short_id_min"
  using mint_Inr mint_onto by blast

lemma card_residue_class:
  assumes "0 < n" "i < n"
  shows "card {k. k < n * q \<and> k mod n = i} = (q::nat)"
proof -
  have "{k. k < n * q \<and> k mod n = i} = (\<lambda>j. i + n * j) ` {..<q}"
  proof (intro set_eqI iffI)
    fix k assume "k \<in> {k. k < n * q \<and> k mod n = i}"
    then have "k = i + n * (k div n)" "k div n < q"
      using assms by (auto simp: less_mult_imp_div_less mult.commute)
    then show "k \<in> (\<lambda>j. i + n * j) ` {..<q}" by blast
  next
    fix k assume "k \<in> (\<lambda>j. i + n * j) ` {..<q}"
    then obtain j where j: "k = i + n * j" "j < q" by auto
    have "i + n * j < n * Suc j" using assms by simp
    also have "\<dots> \<le> n * q" using j by (intro mult_le_mono2) simp
    finally show "k \<in> {k. k < n * q \<and> k mod n = i}" using j assms by simp
  qed
  moreover have "inj_on (\<lambda>j. i + n * j) {..<q}" using assms by (auto intro: inj_onI)
  ultimately show ?thesis by (simp add: card_image)
qed

text \<open>One byte decides a draw without bias: for every index below \<open>n\<close> the same number
  of byte values, \<open>256 div n\<close>, makes \<open>uniform\<close> answer that index.
\<close>
theorem uniform_unbiased:
  assumes "0 < n" "n \<le> 256" "i < n"
  shows "card {b. uniform n [b] = Inr (i, [])} = 256 div n"
proof -
  let ?limit = "n * (256 div n)"
  have lim: "256 - 256 mod n = ?limit" by (simp add: minus_mod_eq_mult_div)
  have "{b. uniform n [b] = Inr (i, [])} = {b :: 8 word. unat b < ?limit \<and> unat b mod n = i}"
    by (auto simp: Let_def lim)
  also have "\<dots> = word_of_nat ` {k. k < ?limit \<and> k mod n = i}" (is "?L = ?f ` ?R")
  proof (intro set_eqI iffI)
    fix b assume "b \<in> ?L"
    then show "b \<in> ?f ` ?R" by (intro image_eqI [of _ _ "unat b"]) auto
  next
    fix b assume "b \<in> ?f ` ?R"
    then obtain k where k: "b = word_of_nat k" "k < ?limit" "k mod n = i" by auto
    moreover have "?limit \<le> 256" by (simp add: lim [symmetric])
    with k(2) have "k < 256" by linarith
    ultimately have "unat b = k" by (simp add: unat_of_nat)
    with k show "b \<in> ?L" by simp
  qed
  finally have "card {b. uniform n [b] = Inr (i, [])} = card (?f ` ?R)" by simp
  also have "\<dots> = card ?R"
  proof (rule card_image, rule inj_onI)
    fix a b assume ab: "a \<in> ?R" "b \<in> ?R" "?f a = (?f b :: 8 word)"
    have "?limit \<le> 256" by (simp add: lim [symmetric])
    moreover have "a < ?limit" "b < ?limit" using ab(1,2) by auto
    ultimately have "a < 256" "b < 256" by linarith+
    then show "a = b" using arg_cong [OF ab(3), of unat] by (simp add: unat_of_nat)
  qed
  finally show ?thesis using card_residue_class [OF assms(1,3)] by simp
qed

theorem uniform_unbiased_witness: "card {b. uniform 23 [b] = Inr (7, [])} = 11"
  using uniform_unbiased [of 23 7] by simp

text \<open>Renaming a scope and renaming it back is the identity on the ids of the scope, and
  a rename is the identity on every other string.
\<close>
theorem rewrite_prefix_roundtrip:
  assumes "is_scope_name old" "is_scope_name new"
  shows "(is_full_ticket_id full \<and> scope_of_full_id full = old \<longrightarrow>
            is_full_ticket_id (rewrite_prefix full old new) \<and>
            scope_of_full_id (rewrite_prefix full old new) = new \<and>
            rewrite_prefix (rewrite_prefix full old new) new old = full) \<and>
         (\<not> (is_full_ticket_id full \<and> scope_of_full_id full = old) \<longrightarrow>
            rewrite_prefix full old new = full)"
proof (cases "is_full_ticket_id full \<and> scope_of_full_id full = old")
  case True
  then obtain s where "full = full_id old s" "is_short_id s" using full_ticket_id_iff by force
  with assms show ?thesis by (simp add: rewrite_prefix_full)
next
  case False
  then show ?thesis by (auto simp: rewrite_prefix_def)
qed

theorem rewrite_prefix_roundtrip_witness:
  "rewrite_prefix (rewrite_prefix ''tk-abcd'' ''tk'' ''board'') ''board'' ''tk'' = ''tk-abcd''"
proof -
  have "is_scope_name ''tk''" "is_scope_name ''board''" "is_full_ticket_id ''tk-abcd''"
    "scope_of_full_id ''tk-abcd'' = ''tk''" by code_simp+
  then show ?thesis using rewrite_prefix_roundtrip [of "''tk''" "''board''" "''tk-abcd''"] by simp
qed

end
