(* ===== verification/OrderKeys.thy ===== *)
theory OrderKeys
  imports Prelude
begin

text \<open>
  Fractional rank keys, \<open>internal/order/order.go\<close>: strings whose byte order is the rank
  order of the board. A key is an integer part, whose head letter fixes its length, and
  a fraction without a trailing zero digit. \<open>KeyBetween\<close> invents a key between two
  bounds; the empty string is an open bound.
\<close>

section \<open>Alphabets and validity\<close>

definition digits_alphabet :: string where
  "digits_alphabet = ''0123456789ABCDEFGHIJKLMNOPQRSTUVWXYZabcdefghijklmnopqrstuvwxyz''"

definition int_digits_alphabet :: string where
  "int_digits_alphabet = ''ABCDEFGHIJKLMNOPQRSTUVWXYZabcdefghijklmnopqrstuvwxyz''"

definition integer_zero :: string where
  "integer_zero = ''a0''"

definition smallest_integer :: string where
  "smallest_integer =
     hd int_digits_alphabet # replicate (length int_digits_alphabet div 2) (hd digits_alphabet)"

datatype order_error = ErrInvalidKey | ErrEqualKeys | ErrUnorderedBounds | ErrExhausted

text \<open>The tables \<open>digitIndex\<close> and \<open>intDigitIndex\<close>: \<open>-1\<close> off the alphabet.\<close>

definition digit_index :: "char \<Rightarrow> int" where
  "digit_index c = (case index_byte c digits_alphabet of None \<Rightarrow> -1 | Some i \<Rightarrow> int i)"

definition int_digit_index :: "char \<Rightarrow> int" where
  "int_digit_index c = (case index_byte c int_digits_alphabet of None \<Rightarrow> -1 | Some i \<Rightarrow> int i)"

definition integer_length :: "char \<Rightarrow> nat option" where
  "integer_length head =
     (let i = int_digit_index head; half = int (length int_digits_alphabet div 2) in
      if i < 0 then None
      else if i < half then Some (nat (half - i + 1))
      else Some (nat (i - half + 2)))"

definition valid :: "string \<Rightarrow> bool" where
  "valid key =
     (if key = [] then False
      else if \<not> list_all (\<lambda>c. \<not> digit_index c < 0) key then False
      else case integer_length (hd key) of
             None \<Rightarrow> False
           | Some intLen \<Rightarrow>
               if intLen > length key then False
               else let frac = drop intLen key in
                    \<not> (frac \<noteq> [] \<and> last frac = hd digits_alphabet))"

definition validate_bound :: "string \<Rightarrow> order_error + unit" where
  "validate_bound key =
     (if \<not> valid key then Inl ErrInvalidKey
      else if key = smallest_integer then Inl ErrExhausted
      else Inr ())"

definition integer_part :: "string \<Rightarrow> string" where
  "integer_part key = take (case integer_length (hd key) of None \<Rightarrow> 0 | Some n \<Rightarrow> n) key"

section \<open>The midpoint of two fractions\<close>

text \<open>The scan of \<open>midpoint\<close>: how far \<open>a\<close>, padded with zeros, agrees with \<open>b\<close>.\<close>

fun common_run :: "string \<Rightarrow> string \<Rightarrow> nat" where
  "common_run a [] = 0"
| "common_run [] (y # ys) = (if hd digits_alphabet = y then Suc (common_run [] ys) else 0)"
| "common_run (x # xs) (y # ys) = (if x = y then Suc (common_run xs ys) else 0)"

text \<open>\<open>math.Round(0.5 * float64(s))\<close>: halves round away from zero.\<close>

definition round_half :: "int \<Rightarrow> int" where
  "round_half s = (if 0 \<le> s then (s + 1) div 2 else - ((1 - s) div 2))"

lemma common_run_le: "common_run a b \<le> length b"
  by (induction a b rule: common_run.induct) auto

function midpoint :: "string \<Rightarrow> string \<Rightarrow> string" where
  "midpoint a b =
     (let n = (if b \<noteq> [] then common_run a b else 0) in
      if n > 0 then take n b @ midpoint (drop n a) (drop n b)
      else
        let digitA = (if length a > 0 then digit_index (hd a) else 0);
            digitB = (if b \<noteq> [] then digit_index (hd b) else int (length digits_alphabet)) in
        if digitB - digitA > 1 then [digits_alphabet ! nat (round_half (digitA + digitB))]
        else if b \<noteq> [] \<and> length b > 1 then take 1 b
        else digits_alphabet ! nat digitA # midpoint (drop 1 a) [])"
  by pat_completeness auto
termination
proof (relation "measure (\<lambda>(a, b). length a + length b)", goal_cases)
  case (2 a b n)
  then show ?case using common_run_le [of a b] by (auto split: if_splits)
next
  case (3 a b n digitA digitB)
  then show ?case by (cases b; cases a) (auto simp: digits_alphabet_def)
qed simp

declare midpoint.simps [simp del]

section \<open>Next and previous integer part\<close>

text \<open>
  The carry loops of \<open>incrementInteger\<close> and \<open>decrementInteger\<close> over the digits right of
  the head: \<open>True\<close> when some digit absorbed the carry, otherwise the wrapped digits
  (the loop's \<open>trailing\<close>).
\<close>

fun increment_digits :: "string \<Rightarrow> bool \<times> string" where
  "increment_digits [] = (False, [])"
| "increment_digits (c # cs) =
     (case increment_digits cs of
        (True, cs') \<Rightarrow> (True, c # cs')
      | (False, trailing) \<Rightarrow>
          let d = digit_index c + 1 in
          if d = int (length digits_alphabet) then (False, hd digits_alphabet # trailing)
          else (True, digits_alphabet ! nat d # trailing))"

fun decrement_digits :: "string \<Rightarrow> bool \<times> string" where
  "decrement_digits [] = (False, [])"
| "decrement_digits (c # cs) =
     (case decrement_digits cs of
        (True, cs') \<Rightarrow> (True, c # cs')
      | (False, trailing) \<Rightarrow>
          let d = digit_index c - 1 in
          if d < 0 then (False, last digits_alphabet # trailing)
          else (True, digits_alphabet ! nat d # trailing))"

definition widen_head :: "char \<Rightarrow> char \<Rightarrow> string \<Rightarrow> char \<Rightarrow> string" where
  "widen_head newHead oldHead trailing pad =
     (let newLen = (case integer_length newHead of None \<Rightarrow> 0 | Some n \<Rightarrow> int n);
          oldLen = (case integer_length oldHead of None \<Rightarrow> 0 | Some n \<Rightarrow> int n);
          delta = newLen - oldLen in
      if delta > 0 then newHead # trailing @ [pad]
      else if delta < 0 then newHead # drop 1 trailing
      else newHead # trailing)"

definition increment_integer :: "string \<Rightarrow> string option" where
  "increment_integer x =
     (let head = hd x in
      case increment_digits (tl x) of
        (True, digits) \<Rightarrow> Some (head # digits)
      | (False, trailing) \<Rightarrow>
          let headIdx = int_digit_index head in
          if headIdx = int (length int_digits_alphabet) - 1 then None
          else Some (widen_head (int_digits_alphabet ! nat (headIdx + 1)) head trailing (hd digits_alphabet)))"

definition decrement_integer :: "string \<Rightarrow> string option" where
  "decrement_integer x =
     (let head = hd x in
      case decrement_digits (tl x) of
        (True, digits) \<Rightarrow> Some (head # digits)
      | (False, trailing) \<Rightarrow>
          let headIdx = int_digit_index head in
          if headIdx = 0 then None
          else Some (widen_head (int_digits_alphabet ! nat (headIdx - 1)) head trailing (last digits_alphabet)))"

section \<open>A key between two bounds\<close>

definition key_between :: "string \<Rightarrow> string \<Rightarrow> order_error + string" where
  "key_between left right =
     (let a = left; b = right in
      rbind (if a \<noteq> [] then validate_bound a else Inr ()) (\<lambda>_.
      rbind (if b \<noteq> [] then validate_bound b else Inr ()) (\<lambda>_.
      rbind (if a \<noteq> [] \<and> b \<noteq> [] then
               (if a = b then Inl ErrEqualKeys
                else if a > b then Inl ErrUnorderedBounds else Inr ())
             else Inr ()) (\<lambda>_.
        if a = [] \<and> b = [] then Inr integer_zero
        else if a = [] then
          (let ib = integer_part b; fb = drop (length ib) b in
           if ib = smallest_integer then Inr (ib @ midpoint [] fb)
           else if ib < b then Inr ib
           else case decrement_integer ib of None \<Rightarrow> Inl ErrExhausted | Some res \<Rightarrow> Inr res)
        else if b = [] then
          (let ia = integer_part a; fa = drop (length ia) a in
           case increment_integer ia of
             None \<Rightarrow> Inr (ia @ midpoint fa [])
           | Some inc \<Rightarrow> Inr inc)
        else
          (let ia = integer_part a; fa = drop (length ia) a;
               ib = integer_part b; fb = drop (length ib) b in
           if ia = ib then Inr (ia @ midpoint fa fb)
           else case increment_integer ia of
                  None \<Rightarrow> Inl ErrExhausted
                | Some inc \<Rightarrow> if inc < b then Inr inc else Inr (ia @ midpoint fa []))))))"

section \<open>The digit order\<close>

lemma length_digits [simp]: "length digits_alphabet = 62" "length int_digits_alphabet = 52"
  by (simp_all add: digits_alphabet_def int_digits_alphabet_def)

lemma digits_sorted: "sorted_wrt (<) digits_alphabet" "sorted_wrt (<) int_digits_alphabet"
  by code_simp+

lemma digits_ends [simp]: "hd digits_alphabet = CHR ''0''" "last digits_alphabet = CHR ''z''"
  by (simp_all add: digits_alphabet_def)

lemma strict_sorted_nth_less:
  "sorted_wrt (<) (s :: string) \<Longrightarrow> i < length s \<Longrightarrow> j < length s \<Longrightarrow> s ! i < s ! j \<longleftrightarrow> i < j"
  by (metis linorder_neqE_nat order_less_asym order_less_irrefl sorted_wrt_nth_less)

lemma digit_index_nth [simp]: "i < 62 \<Longrightarrow> digit_index (digits_alphabet ! i) = int i"
  using digits_sorted(1) by (simp add: digit_index_def index_byte_nth strict_sorted_iff)

lemma int_digit_index_nth [simp]: "i < 52 \<Longrightarrow> int_digit_index (int_digits_alphabet ! i) = int i"
  using digits_sorted(2) by (simp add: int_digit_index_def index_byte_nth strict_sorted_iff)

definition is_digit :: "char \<Rightarrow> bool" where "is_digit c \<longleftrightarrow> c \<in> set digits_alphabet"

lemma digit_cases:
  assumes "is_digit c"
  obtains i where "i < 62" "c = digits_alphabet ! i" "digit_index c = int i"
  using assms by (auto simp: is_digit_def in_set_conv_nth)

lemma is_digit_nth [simp]: "i < 62 \<Longrightarrow> is_digit (digits_alphabet ! i)"
  by (simp add: is_digit_def)

lemma is_digit_iff_index: "is_digit c \<longleftrightarrow> \<not> digit_index c < 0"
  using index_byte_None [of c digits_alphabet]
  by (auto simp: is_digit_def digit_index_def split: option.splits)

lemma digit_less_iff:
  "is_digit c \<Longrightarrow> is_digit d \<Longrightarrow> c < d \<longleftrightarrow> digit_index c < digit_index d"
  by (elim digit_cases) (simp add: strict_sorted_nth_less [OF digits_sorted(1)])

lemma digit_zero [simp]: "is_digit CHR ''0''" "digit_index CHR ''0'' = 0"
  and digit_z [simp]: "is_digit CHR ''z''" "digit_index CHR ''z'' = 61"
  by code_simp+

lemma digit_nonzero: "is_digit c \<Longrightarrow> c \<noteq> CHR ''0'' \<longleftrightarrow> 0 < digit_index c"
  using digit_cases digits_alphabet_def by (metis digit_zero(2) hd_conv_nth digits_ends(1) length_digits(1) list.size(3) of_nat_0_less_iff of_nat_0 zero_neq_numeral neq0_conv)

lemma digit_bounds: "is_digit c \<Longrightarrow> 0 \<le> digit_index c \<and> digit_index c < 62 \<and> digits_alphabet ! nat (digit_index c) = c"
  by (elim digit_cases) simp

section \<open>The midpoint lies strictly between\<close>

definition is_fraction :: "string \<Rightarrow> bool" where
  "is_fraction f \<longleftrightarrow> list_all is_digit f \<and> (f \<noteq> [] \<longrightarrow> last f \<noteq> CHR ''0'')"

lemma common_run_split:
  assumes "n = common_run a b" "a < b" "b \<noteq> []" "last b \<noteq> CHR ''0''"
  shows "drop n b \<noteq> [] \<and> drop n a < drop n b \<and> (\<forall>m. drop n a < m \<longrightarrow> a < take n b @ m) \<and>
         (n = 0 \<longrightarrow> (if a = [] then CHR ''0'' else hd a) \<noteq> hd b)"
  using assms
proof (induction a b arbitrary: n rule: common_run.induct)
  case (2 y ys)
  show ?case
  proof (cases "CHR ''0'' = y")
    case True
    then have "ys \<noteq> []" using "2.prems" by auto
    then show ?thesis using 2 True by auto
  next
    case False
    then show ?thesis using "2.prems" by simp
  qed
next
  case (3 x xs y ys)
  show ?case
  proof (cases "x = y")
    case True
    then have "ys \<noteq> []" using "3.prems" by auto
    then show ?thesis using 3 True by auto
  next
    case False
    then show ?thesis using "3.prems" by simp
  qed
qed auto


lemma round_half_between:
  assumes "0 \<le> A" "B - A > (1::int)"
  shows "A < round_half (A + B) \<and> round_half (A + B) < B"
  using assms unfolding round_half_def by (simp; presburger)

lemma midpoint_between:
  assumes "list_all is_digit a" "is_fraction b" "b = [] \<or> a < b"
  shows "midpoint a b \<noteq> [] \<and> is_fraction (midpoint a b) \<and> a < midpoint a b \<and>
         (b \<noteq> [] \<longrightarrow> midpoint a b < b)"
  using assms
proof (induction a b rule: midpoint.induct)
  case (1 a b)
  define n where "n = (if b \<noteq> [] then common_run a b else 0)"
  define A where "A = (if length a > 0 then digit_index (hd a) else 0)"
  define B where "B = (if b \<noteq> [] then digit_index (hd b) else int (length digits_alphabet))"
  have unfolded: "midpoint a b =
      (if n > 0 then take n b @ midpoint (drop n a) (drop n b)
       else if B - A > 1 then [digits_alphabet ! nat (round_half (A + B))]
       else if b \<noteq> [] \<and> length b > 1 then take 1 b
       else digits_alphabet ! nat A # midpoint (drop 1 a) [])"
    unfolding midpoint.simps [of a b] n_def A_def B_def Let_def by (rule refl)
  have bl: "b \<noteq> [] \<Longrightarrow> last b \<noteq> CHR ''0''" and bd: "list_all is_digit b"
    using "1.prems"(2) by (auto simp: is_fraction_def)
  have A: "0 \<le> A" "A < 62" "digits_alphabet ! nat A = (if a = [] then CHR ''0'' else hd a)"
    using "1.prems"(1) digit_bounds [of "hd a"] by (cases a; auto simp: A_def digits_alphabet_def)+
  have B: "B \<le> 62"
    using bd digit_bounds [of "hd b"] by (cases b) (auto simp: B_def)
  show ?case
  proof (cases "n > 0")
    case True
    then have b: "b \<noteq> []" and n: "n = common_run a b" by (auto simp: n_def split: if_splits)
    from common_run_split [OF n _ b bl [OF b]] "1.prems"(3) b
    have rest: "drop n b \<noteq> []" "drop n a < drop n b"
      and lift: "\<And>m. drop n a < m \<Longrightarrow> a < take n b @ m" by auto
    let ?m = "midpoint (drop n a) (drop n b)"
    have eq: "midpoint a b = take n b @ ?m"
      using True unfolded by simp
    have "list_all is_digit (drop n a)" using "1.prems"(1) by (simp add: list_all_iff) (meson in_set_dropD)
    moreover have "is_fraction (drop n b)"
      using bd bl [OF b] rest(1) by (auto simp: is_fraction_def list_all_iff dest: in_set_dropD)
    ultimately have IH: "?m \<noteq> []" "is_fraction ?m" "drop n a < ?m" "?m < drop n b"
      using "1.IH"(1) [OF n_def] True rest by auto
    have "take n b @ ?m < take n b @ drop n b" using IH(4) by (simp only: less_prepend)
    moreover have "is_fraction (take n b @ ?m)"
      using IH(1,2) bd by (auto simp: is_fraction_def list_all_iff dest: in_set_takeD)
    ultimately show ?thesis using IH lift [OF IH(3)] by (simp add: eq)
  next
    case False
    have AB: "b \<noteq> [] \<Longrightarrow> A < B"
    proof -
      assume b: "b \<noteq> []"
      then have "common_run a b = 0" using False by (simp add: n_def)
      then have ne: "(if a = [] then CHR ''0'' else hd a) \<noteq> hd b"
        using common_run_split [OF refl, of a b] "1.prems"(3) b bl by auto
      have hb: "is_digit (hd b)" using bd b by (cases b) auto
      show "A < B"
      proof (cases a)
        case Nil
        then show ?thesis using ne b digit_nonzero [OF hb] by (auto simp: A_def B_def)
      next
        case (Cons x xs)
        moreover have "is_digit x" "x < hd b" using Cons "1.prems"(1,3) ne b by (cases b; auto)+
        ultimately show ?thesis using b digit_less_iff [OF _ hb] by (simp add: A_def B_def)
      qed
    qed
    show ?thesis
    proof (cases "B - A > 1")
      case True
      let ?d = "round_half (A + B)"
      have r: "A < ?d" "?d < B" using round_half_between [OF A(1) True] by auto
      have eq: "midpoint a b = [digits_alphabet ! nat ?d]"
        using False True unfolded by simp
      have d: "is_digit (digits_alphabet ! nat ?d)" "digit_index (digits_alphabet ! nat ?d) = ?d"
        using A r B by auto
      then have "is_fraction (midpoint a b)" using A(1) r(1) digit_nonzero
        by (auto simp: eq is_fraction_def)
      moreover have "a < midpoint a b"
        unfolding eq using r(1) d "1.prems"(1) digit_less_iff by (cases a) (auto simp: A_def)
      moreover have "b \<noteq> [] \<longrightarrow> midpoint a b < b"
        unfolding eq using r(2) d bd digit_less_iff by (cases b) (auto simp: B_def)
      ultimately show ?thesis by (simp add: eq)
    next
      case F2: False
      show ?thesis
      proof (cases "b \<noteq> [] \<and> length b > 1")
        case True
        then have eq: "midpoint a b = [hd b]"
          using False F2 unfolded by (simp add: take_Suc)
        have "A < B" using AB True by simp
        moreover have "is_digit (hd b)" using bd True by (cases b) auto
        moreover have "a < [hd b]"
          using \<open>A < B\<close> \<open>is_digit (hd b)\<close> "1.prems"(1) True digit_less_iff
          by (cases a) (auto simp: A_def B_def)
        moreover have "[hd b] < b" using True by (cases b) auto
        ultimately show ?thesis
          using A(1) True digit_nonzero by (auto simp: eq is_fraction_def B_def)
      next
        case F3: False
        let ?m = "midpoint (drop 1 a) []"
        have eq: "midpoint a b = digits_alphabet ! nat A # ?m"
          using False F2 F3 unfolded by auto
        have "list_all is_digit (drop 1 a)" using "1.prems"(1) by (cases a) auto
        then have IH: "?m \<noteq> []" "is_fraction ?m" "drop 1 a < ?m"
          using "1.IH"(2) [OF n_def _ A_def B_def] False F2 F3 by (auto simp: is_fraction_def)
        have "is_fraction (midpoint a b)" using IH(1,2) A(1,2) by (auto simp: eq is_fraction_def)
        moreover have "a < midpoint a b" unfolding eq using IH(3) A(3) by (cases a) auto
        moreover have "midpoint a b < b" if b: "b \<noteq> []"
        proof -
          have "is_digit (hd b)" "digit_index (hd b) = B" using bd b by (cases b; auto simp: B_def)+
          moreover have "is_digit (digits_alphabet ! nat A)" "digit_index (digits_alphabet ! nat A) = A"
            using A(1,2) by auto
          ultimately have "digits_alphabet ! nat A < hd b" using AB [OF b] by (simp only: digit_less_iff)
          then show ?thesis unfolding eq using b by (cases b) auto
        qed
        ultimately show ?thesis by (simp add: eq)
      qed
    qed
  qed
qed

section \<open>Integer parts\<close>

definition is_integer :: "string \<Rightarrow> bool" where
  "is_integer x \<longleftrightarrow> x \<noteq> [] \<and> integer_length (hd x) = Some (length x) \<and> list_all is_digit (tl x)"

lemma integer_length_nth [simp]:
  "i < 52 \<Longrightarrow> integer_length (int_digits_alphabet ! i) = Some (if i < 26 then 27 - i else i - 24)"
  by (auto simp: integer_length_def Let_def)

lemma integer_length_Some:
  assumes "integer_length h = Some n"
  obtains i where "i < 52" "h = int_digits_alphabet ! i" "int_digit_index h = int i"
    "n = (if i < 26 then 27 - i else i - 24)"
proof -
  from assms have "int_digit_index h \<ge> 0" by (auto simp: integer_length_def Let_def split: if_splits)
  then have "h \<in> set int_digits_alphabet"
    using index_byte_None [of h int_digits_alphabet]
    by (auto simp: int_digit_index_def split: option.splits)
  then obtain i where "i < 52" "h = int_digits_alphabet ! i" by (auto simp: in_set_conv_nth)
  then show ?thesis using that [of i] assms by auto
qed

lemma integer_tail_length: "integer_length h = Some n \<Longrightarrow> 2 \<le> n"
  by (elim integer_length_Some) (auto split: if_splits)

lemma head_less_iff: "i < 52 \<Longrightarrow> j < 52 \<Longrightarrow> int_digits_alphabet ! i < int_digits_alphabet ! j \<longleftrightarrow> i < j"
  by (simp add: strict_sorted_nth_less [OF digits_sorted(2)])

lemma head_eq_iff: "i < 52 \<Longrightarrow> j < 52 \<Longrightarrow> int_digits_alphabet ! i = int_digits_alphabet ! j \<longleftrightarrow> i = j"
  using head_less_iff by (metis linorder_neqE_nat order_less_irrefl)

lemma digit_le_iff: "is_digit c \<Longrightarrow> is_digit d \<Longrightarrow> c \<le> d \<longleftrightarrow> digit_index c \<le> digit_index d"
  using digit_less_iff by (meson linorder_not_less)

lemma digit_range: "is_digit c \<Longrightarrow> CHR ''0'' \<le> c \<and> c \<le> CHR ''z''"
  using digit_le_iff [of "CHR ''0''" c] digit_le_iff [of c "CHR ''z''"] digit_bounds [of c] by simp

lemma digits_range:
  "list_all is_digit ds \<Longrightarrow>
     replicate (length ds) CHR ''0'' \<le> ds \<and> ds \<le> replicate (length ds) CHR ''z''"
proof (induction ds)
  case (Cons d ds)
  then show ?case using digit_range [of d] by (auto simp: order_le_less)
qed simp

lemma digits_replicate [simp]: "is_digit c \<Longrightarrow> list_all is_digit (replicate n c)"
  by (simp add: list_all_iff)

lemma increment_digits_False:
  "increment_digits ds = (False, ds') \<Longrightarrow> list_all is_digit ds \<Longrightarrow>
     ds' = replicate (length ds) CHR ''0'' \<and> ds = replicate (length ds) CHR ''z''"
proof (induction ds arbitrary: ds')
  case (Cons c cs)
  then show ?case
    by (fastforce simp: Let_def digits_alphabet_def split: prod.splits bool.splits if_splits
        elim!: digit_cases)
qed simp

lemma increment_digits_True:
  "increment_digits ds = (True, ds') \<Longrightarrow> list_all is_digit ds \<Longrightarrow>
     length ds' = length ds \<and> list_all is_digit ds' \<and> ds < ds' \<and>
     (\<forall>es. length es = length ds \<longrightarrow> list_all is_digit es \<longrightarrow> ds < es \<longrightarrow> ds' \<le> es)"
proof (induction ds arbitrary: ds')
  case (Cons c cs)
  show ?case
  proof (cases "increment_digits cs")
    case (Pair ok es)
    show ?thesis
    proof (cases ok)
      case True
      then have "ds' = c # es" using Cons.prems Pair by simp
      then show ?thesis using Cons.IH [of es] Pair True Cons.prems
        by (auto simp: length_Suc_conv)
    next
      case False
      then have es: "es = replicate (length cs) CHR ''0''" and cs: "cs = replicate (length cs) CHR ''z''"
        using increment_digits_False [of cs es] Pair Cons.prems by auto
      obtain i where i: "i < 62" "c = digits_alphabet ! i" "digit_index c = int i"
        using Cons.prems(2) by (auto elim: digit_cases)
      then have Suc: "Suc i < 62" and ds': "ds' = digits_alphabet ! Suc i # es"
        using Cons.prems Pair False by (auto simp: Let_def nat_add_distrib split: if_splits)
      have "c < digits_alphabet ! Suc i" using i Suc digit_less_iff by simp
      moreover have "ds' \<le> x # xs"
        if x: "length xs = length cs" "is_digit x" "list_all is_digit xs" "c # cs < x # xs" for x xs
      proof -
        have "xs \<le> cs" using digits_range [OF x(3)] x(1) cs by simp
        with x(4) have "c < x" by auto
        then have "digits_alphabet ! Suc i \<le> x"
          using i Suc x(2) digit_less_iff [of c x] digit_le_iff [of "digits_alphabet ! Suc i" x] by simp
        moreover have "es \<le> xs" using digits_range [OF x(3)] x(1) es by simp
        ultimately show ?thesis using ds' by (auto simp: order_le_less)
      qed
      ultimately show ?thesis
        using ds' es Suc by (auto simp: length_Suc_conv)
    qed
  qed
qed simp

lemma decrement_digits_False:
  "decrement_digits ds = (False, ds') \<Longrightarrow> list_all is_digit ds \<Longrightarrow>
     ds' = replicate (length ds) CHR ''z'' \<and> ds = replicate (length ds) CHR ''0''"
proof (induction ds arbitrary: ds')
  case (Cons c cs)
  then show ?case
    using digit_nonzero [of c] digit_bounds [of c]
    by (fastforce simp: Let_def split: prod.splits bool.splits if_splits)
qed simp

lemma decrement_digits_True:
  "decrement_digits ds = (True, ds') \<Longrightarrow> list_all is_digit ds \<Longrightarrow>
     length ds' = length ds \<and> list_all is_digit ds' \<and> ds' < ds"
proof (induction ds arbitrary: ds')
  case (Cons c cs)
  show ?case
  proof (cases "decrement_digits cs")
    case (Pair ok es)
    show ?thesis
    proof (cases ok)
      case True
      then have "ds' = c # es" using Cons.prems Pair by simp
      then show ?thesis using Cons.IH [of es] Pair True Cons.prems by auto
    next
      case False
      then have es: "es = replicate (length cs) CHR ''z''"
        using decrement_digits_False [of cs es] Pair Cons.prems by auto
      obtain i where i: "i < 62" "c = digits_alphabet ! i" "digit_index c = int i"
        using Cons.prems(2) by (auto elim: digit_cases)
      then have pos: "0 < i" and ds': "ds' = digits_alphabet ! (i - 1) # es"
        using Cons.prems Pair False by (auto simp: Let_def nat_diff_distrib split: if_splits)
      then have "digits_alphabet ! (i - 1) < c" using i digit_less_iff by simp
      then show ?thesis using ds' es i pos by auto
    qed
  qed
qed simp

lemma integer_cases:
  assumes "is_integer x"
  obtains i ds where "x = int_digits_alphabet ! i # ds" "i < 52" "list_all is_digit ds"
    "length ds = (if i < 26 then 26 - i else i - 25)"
proof -
  from assms obtain h ds where x: "x = h # ds" "integer_length h = Some (Suc (length ds))" "list_all is_digit ds"
    by (cases x) (auto simp: is_integer_def)
  from x(2) obtain i where "i < 52" "h = int_digits_alphabet ! i" "Suc (length ds) = (if i < 26 then 27 - i else i - 24)"
    by (elim integer_length_Some) auto
  then show ?thesis using that [of i ds] x by (auto split: if_splits)
qed

lemma integerI:
  assumes "i < 52" "list_all is_digit ds" "length ds = (if i < 26 then 26 - i else i - 25)"
  shows "is_integer (int_digits_alphabet ! i # ds)"
  using assms by (auto simp: is_integer_def split: if_splits)

lemma integer_less_cases:
  assumes "is_integer x" "is_integer y" "x < y"
  shows "x @ u < y @ v"
proof -
  obtain i ds where x: "x = int_digits_alphabet ! i # ds" "i < 52" "length ds = (if i < 26 then 26 - i else i - 25)"
    using assms(1) by (elim integer_cases)
  obtain j es where y: "y = int_digits_alphabet ! j # es" "j < 52" "length es = (if j < 26 then 26 - j else j - 25)"
    using assms(2) by (elim integer_cases)
  have same: "ds @ u < es @ v" if "length ds = length es" "ds < es" for ds es :: string
    using that by (induction ds es rule: list_induct2) auto
  show ?thesis
  proof (cases "i = j")
    case True
    then show ?thesis using x y assms(3) same by auto
  next
    case False
    then show ?thesis using x y assms(3) head_less_iff head_eq_iff by auto
  qed
qed

lemma increment_integer_None:
  assumes "is_integer x" "increment_integer x = None" "is_integer y"
  shows "y \<le> x"
proof -
  obtain i ds where x: "x = int_digits_alphabet ! i # ds" "i < 52" "list_all is_digit ds"
      "length ds = (if i < 26 then 26 - i else i - 25)"
    using assms(1) by (elim integer_cases)
  obtain j es where y: "y = int_digits_alphabet ! j # es" "j < 52" "list_all is_digit es"
      "length es = (if j < 26 then 26 - j else j - 25)"
    using assms(3) by (elim integer_cases)
  obtain t where t: "increment_digits ds = (False, t)" "i = 51"
    using assms(2) x by (auto simp: increment_integer_def Let_def split: prod.splits bool.splits if_splits)
  then have "ds = replicate (length ds) CHR ''z''" using increment_digits_False x(3) by blast
  then show ?thesis
    using x y t digits_range [OF y(3)] head_less_iff [OF y(2) x(2)] head_eq_iff [OF y(2) x(2)]
    by (cases "j = 51") (auto simp: order_le_less)
qed

lemma replicate_widen: "\<not> i < 26 \<Longrightarrow> replicate (i - 24) c = c # replicate (i - 25) c"
proof -
  assume "\<not> i < 26"
  then have "i - 24 = Suc (i - 25)" by arith
  then show ?thesis by simp
qed

lemma increment_integer_Some:
  assumes "is_integer x" "increment_integer x = Some x'"
  shows "is_integer x' \<and> x < x' \<and> (\<forall>y. is_integer y \<longrightarrow> x < y \<longrightarrow> x' \<le> y)"
proof -
  obtain i ds where x: "x = int_digits_alphabet ! i # ds" "i < 52" "list_all is_digit ds"
      "length ds = (if i < 26 then 26 - i else i - 25)"
    using assms(1) by (elim integer_cases)
  show ?thesis
  proof (cases "increment_digits ds")
    case (Pair ok t)
    show ?thesis
    proof (cases ok)
      case True
      then have x': "x' = int_digits_alphabet ! i # t"
        using assms(2) x Pair by (simp add: increment_integer_def Let_def)
      have t: "length t = length ds" "list_all is_digit t" "ds < t"
          "\<And>es. length es = length ds \<Longrightarrow> list_all is_digit es \<Longrightarrow> ds < es \<Longrightarrow> t \<le> es"
        using increment_digits_True [of ds t] Pair True x(3) by auto
      have "x' \<le> y" if y: "is_integer y" "x < y" for y
      proof -
        obtain j es where j: "y = int_digits_alphabet ! j # es" "j < 52" "list_all is_digit es"
            "length es = (if j < 26 then 26 - j else j - 25)"
          using y(1) by (elim integer_cases)
        show ?thesis
        proof (cases "i = j")
          case True
          then show ?thesis using x x' j y(2) t(4) [of es] by auto
        next
          case False
          then show ?thesis using x x' j y(2) head_less_iff head_eq_iff by (auto simp: order_le_less)
        qed
      qed
      then show ?thesis using integerI [OF x(2) t(2)] t x x' by auto
    next
      case False
      then have t: "t = replicate (length ds) CHR ''0''" "ds = replicate (length ds) CHR ''z''"
        using increment_digits_False [of ds t] Pair x(3) by auto
      have i51: "i < 51" using assms(2) x Pair False
        by (auto simp: increment_integer_def Let_def split: if_splits)
      then have x': "x' = int_digits_alphabet ! Suc i # replicate (if Suc i < 26 then 26 - Suc i else Suc i - 25) CHR ''0''"
        using assms(2) x Pair False t(1)
        by (auto simp: increment_integer_def Let_def widen_head_def nat_add_distrib
            replicate_append_same replicate_widen split: if_splits)
      have "x' \<le> y" if y: "is_integer y" "x < y" for y
      proof -
        obtain j es where j: "y = int_digits_alphabet ! j # es" "j < 52" "list_all is_digit es"
            "length es = (if j < 26 then 26 - j else j - 25)"
          using y(1) by (elim integer_cases)
        have "i \<noteq> j" using y(2) j(3,4) x t(2) digits_range [OF j(3)] j(1) by auto
        then have "i < j" using y(2) x(1,2) j(1,2) head_less_iff head_eq_iff by auto
        show ?thesis
        proof (cases "Suc i = j")
          case True
          then show ?thesis using x' j digits_range [OF j(3)] by auto
        next
          case False
          then show ?thesis using x' j \<open>i < j\<close> i51 head_less_iff [of "Suc i" j] by (auto simp: order_le_less)
        qed
      qed
      moreover have "x < x'" using x x' i51 head_less_iff [of i "Suc i"] by auto
      moreover have "is_integer x'" unfolding x' using i51 by (intro integerI) auto
      ultimately show ?thesis by blast
    qed
  qed
qed


lemma decrement_integer_Some:
  assumes "is_integer x" "decrement_integer x = Some x'"
  shows "is_integer x' \<and> x' < x"
proof -
  obtain i ds where x: "x = int_digits_alphabet ! i # ds" "i < 52" "list_all is_digit ds"
      "length ds = (if i < 26 then 26 - i else i - 25)"
    using assms(1) by (elim integer_cases)
  show ?thesis
  proof (cases "decrement_digits ds")
    case (Pair ok t)
    show ?thesis
    proof (cases ok)
      case True
      then have "x' = int_digits_alphabet ! i # t"
        using assms(2) x Pair by (simp add: decrement_integer_def Let_def)
      then show ?thesis using decrement_digits_True [of ds t] Pair True x integerI [of i t] by auto
    next
      case False
      then have t: "t = replicate (length ds) CHR ''z''"
        using decrement_digits_False [of ds t] Pair x(3) by auto
      have i0: "0 < i" using assms(2) x Pair False
        by (auto simp: decrement_integer_def Let_def split: if_splits)
      then have x': "x' = int_digits_alphabet ! (i - 1) # replicate (if i - 1 < 26 then 26 - (i - 1) else i - 1 - 25) CHR ''z''"
        using assms(2) x Pair False t
        by (cases i) (auto simp: decrement_integer_def Let_def widen_head_def nat_diff_distrib
            replicate_append_same Suc_diff_le simp flip: replicate_Suc split: if_splits)
      have "x' < x" using x x' i0 head_less_iff [of "i - 1" i] by auto
      moreover have "is_integer x'" unfolding x' using x(2) by (intro integerI) auto
      ultimately show ?thesis by blast
    qed
  qed
qed

lemma smallest_integer_eq: "smallest_integer = int_digits_alphabet ! 0 # replicate 26 CHR ''0''"
  by code_simp

lemma decrement_integer_None:
  assumes "is_integer x" "decrement_integer x = None"
  shows "x = smallest_integer"
proof -
  obtain i ds where x: "x = int_digits_alphabet ! i # ds" "i < 52" "list_all is_digit ds"
      "length ds = (if i < 26 then 26 - i else i - 25)"
    using assms(1) by (elim integer_cases)
  then obtain t where "decrement_digits ds = (False, t)" "i = 0"
    using assms(2) by (auto simp: decrement_integer_def Let_def split: prod.splits bool.splits if_splits)
  then show ?thesis using decrement_digits_False [of ds t] x by (simp add: smallest_integer_eq)
qed

lemma smallest_integer_least:
  assumes "is_integer x"
  shows "smallest_integer \<le> x"
proof -
  obtain i ds where x: "x = int_digits_alphabet ! i # ds" "i < 52" "list_all is_digit ds"
      "length ds = (if i < 26 then 26 - i else i - 25)"
    using assms by (elim integer_cases)
  show ?thesis
  proof (cases "i = 0")
    case True
    then show ?thesis using x digits_range [OF x(3)] by (simp add: smallest_integer_eq)
  next
    case False
    then show ?thesis using x head_less_iff [of 0 i] by (simp add: smallest_integer_eq order_le_less)
  qed
qed

lemma is_integer_smallest [simp]: "is_integer smallest_integer"
  unfolding smallest_integer_eq by (rule integerI) auto

section \<open>Keys as an integer part and a fraction\<close>

lemma int_digit_is_digit: "i < 52 \<Longrightarrow> is_digit (int_digits_alphabet ! i)"
proof -
  assume "i < 52"
  then have "int_digits_alphabet ! i \<in> set int_digits_alphabet" by simp
  then show ?thesis
    by (simp add: is_digit_def int_digits_alphabet_def digits_alphabet_def)
qed

lemma integer_digits: "is_integer x \<Longrightarrow> list_all is_digit x"
  by (elim integer_cases) (simp add: int_digit_is_digit)

text \<open>A valid key is exactly an integer part followed by a fraction.\<close>

lemma valid_iff: "valid key \<longleftrightarrow> (\<exists>ip fr. key = ip @ fr \<and> is_integer ip \<and> is_fraction fr)"
proof
  assume v: "valid key"
  then obtain n where k: "key \<noteq> []" "list_all is_digit key" "integer_length (hd key) = Some n" "n \<le> length key"
      "drop n key \<noteq> [] \<longrightarrow> last (drop n key) \<noteq> CHR ''0''"
    by (auto simp: valid_def is_digit_iff_index Let_def list_all_iff simp del: last_drop
        split: if_splits option.splits)
  have "2 \<le> n" using integer_tail_length k(3) .
  then have "is_integer (take n key)"
    using k by (cases key) (auto simp: is_integer_def list_all_iff take_Cons' dest: in_set_takeD)
  moreover have "is_fraction (drop n key)"
    using k by (auto simp: is_fraction_def list_all_iff simp del: last_drop dest: in_set_dropD)
  ultimately show "\<exists>ip fr. key = ip @ fr \<and> is_integer ip \<and> is_fraction fr"
    by (metis append_take_drop_id)
next
  assume "\<exists>ip fr. key = ip @ fr \<and> is_integer ip \<and> is_fraction fr"
  then obtain ip fr where k: "key = ip @ fr" "is_integer ip" "is_fraction fr" by blast
  then have "list_all is_digit key" "ip \<noteq> []" "integer_length (hd key) = Some (length ip)"
    using integer_digits [OF k(2)] by (auto simp: is_integer_def is_fraction_def)
  then show "valid key" using k
    by (auto simp: valid_def is_digit_iff_index Let_def list_all_iff is_fraction_def)
qed

lemma integer_part_append [simp]: "is_integer ip \<Longrightarrow> integer_part (ip @ fr) = ip"
  by (simp add: integer_part_def is_integer_def)

lemma valid_cases:
  assumes "valid key"
  obtains ip fr where "key = ip @ fr" "is_integer ip" "is_fraction fr"
    "integer_part key = ip" "drop (length (integer_part key)) key = fr"
  using assms by (auto simp: valid_iff)

lemma validI: "is_integer ip \<Longrightarrow> is_fraction fr \<Longrightarrow> valid (ip @ fr)"
  by (auto simp: valid_iff)

lemma valid_integer: "is_integer ip \<Longrightarrow> valid ip"
  using validI [of ip "[]"] by (simp add: is_fraction_def)

lemma valid_ge_smallest: "valid k \<Longrightarrow> smallest_integer \<le> k"
proof (elim valid_cases)
  fix ip fr assume "k = ip @ fr" "is_integer ip"
  then show ?thesis
    using smallest_integer_least [of ip] less_append_self [of ip fr]
    by (metis append_Nil2 order_le_less order_less_le_trans order.trans)
qed


section \<open>KeyBetween\<close>

definition usable_bound :: "string \<Rightarrow> bool" where
  "usable_bound k \<longleftrightarrow> valid k \<and> k \<noteq> smallest_integer"

lemma valid_not_nil: "valid k \<Longrightarrow> k \<noteq> []"
  by (auto simp: valid_def)

lemma validate_bound_Inr: "validate_bound k = Inr u \<longleftrightarrow> usable_bound k"
  by (auto simp: validate_bound_def usable_bound_def)

lemma key_between_none_left:
  assumes "usable_bound b"
  shows "\<exists>k. key_between [] b = Inr k \<and> valid k \<and> k < b"
proof -
  obtain ip fr where b: "b = ip @ fr" "is_integer ip" "is_fraction fr"
      and parts: "integer_part b = ip" "drop (length ip) b = fr" and ne: "b \<noteq> smallest_integer"
    using assms by (auto simp: usable_bound_def elim!: valid_cases)
  have vb: "validate_bound b = Inr ()" and bne: "b \<noteq> []"
    using assms validate_bound_Inr [of b "()"] by (auto simp: usable_bound_def dest: valid_not_nil)
  have kb: "key_between [] b =
      (if ip = smallest_integer then Inr (ip @ midpoint [] fr)
       else if ip < b then Inr ip
       else case decrement_integer ip of None \<Rightarrow> Inl ErrExhausted | Some res \<Rightarrow> Inr res)"
    using vb bne parts by (auto simp: key_between_def Let_def split: option.split)
  consider "ip = smallest_integer" | "ip \<noteq> smallest_integer" "ip < b"
    | "ip \<noteq> smallest_integer" "fr = []"
    using b by fastforce
  then show ?thesis
  proof cases
    case 1
    then have "fr \<noteq> []" using b(1) ne by auto
    then show ?thesis using 1 b kb midpoint_between [of "[]" fr] validI by auto
  next
    case 2
    then show ?thesis using b kb valid_integer by auto
  next
    case 3
    then obtain res where "decrement_integer ip = Some res"
      using decrement_integer_None [OF b(2)] by fastforce
    then show ?thesis using 3 b kb decrement_integer_Some [OF b(2)] valid_integer by auto
  qed
qed

lemma key_between_none_right:
  assumes "usable_bound a"
  shows "\<exists>k. key_between a [] = Inr k \<and> valid k \<and> a < k"
proof -
  obtain ip fr where a: "a = ip @ fr" "is_integer ip" "is_fraction fr"
      and parts: "integer_part a = ip" "drop (length ip) a = fr"
    using assms by (auto simp: usable_bound_def elim!: valid_cases)
  have va: "validate_bound a = Inr ()" and ane: "a \<noteq> []"
    using assms validate_bound_Inr [of a "()"] by (auto simp: usable_bound_def dest: valid_not_nil)
  have kb: "key_between a [] =
      (case increment_integer ip of None \<Rightarrow> Inr (ip @ midpoint fr []) | Some inc \<Rightarrow> Inr inc)"
    using va ane parts by (auto simp: key_between_def Let_def split: option.split)
  show ?thesis
  proof (cases "increment_integer ip")
    case None
    then show ?thesis
      using a kb midpoint_between [of fr "[]"] validI by (auto simp: is_fraction_def)
  next
    case (Some inc)
    then have "is_integer inc" "ip < inc" using increment_integer_Some [OF a(2)] by auto
    then show ?thesis
      using Some a kb valid_integer integer_less_cases [OF a(2), of inc fr "[]"] by auto
  qed
qed

lemma key_between_both:
  assumes "usable_bound a" "usable_bound b" "a < b"
  shows "\<exists>k. key_between a b = Inr k \<and> valid k \<and> a < k \<and> k < b"
proof -
  obtain ia fa where a: "a = ia @ fa" "is_integer ia" "is_fraction fa"
      and pa: "integer_part a = ia" "drop (length ia) a = fa"
    using assms(1) by (auto simp: usable_bound_def elim!: valid_cases)
  obtain ib fb where b: "b = ib @ fb" "is_integer ib" "is_fraction fb"
      and pb: "integer_part b = ib" "drop (length ib) b = fb"
    using assms(2) by (auto simp: usable_bound_def elim!: valid_cases)
  have v: "validate_bound a = Inr ()" "validate_bound b = Inr ()" "a \<noteq> []" "b \<noteq> []"
    using assms validate_bound_Inr [of a "()"] validate_bound_Inr [of b "()"]
    by (auto simp: usable_bound_def dest: valid_not_nil)
  have kb: "key_between a b =
      (if ia = ib then Inr (ia @ midpoint fa fb)
       else case increment_integer ia of
              None \<Rightarrow> Inl ErrExhausted
            | Some inc \<Rightarrow> if inc < b then Inr inc else Inr (ia @ midpoint fa []))"
    using v assms(3) pa pb by (auto simp: key_between_def Let_def split: option.split)
  have da: "list_all is_digit fa" using a(3) by (simp add: is_fraction_def)
  show ?thesis
  proof (cases "ia = ib")
    case True
    then have "fa < fb" using assms(3) a(1) b(1) by simp
    then show ?thesis
      using True a b kb midpoint_between [OF da b(3)] validI by auto
  next
    case False
    then have less: "ia < ib"
      using assms(3) a(1,2) b(1,2) integer_less_cases [of ib ia fb fa] by (metis linorder_neqE order_less_asym)
    then obtain inc where inc: "increment_integer ia = Some inc"
      using increment_integer_None [OF a(2) _ b(2)] by fastforce
    from increment_integer_Some [OF a(2) inc] less b(2)
    have i: "is_integer inc" "ia < inc" "inc \<le> ib" by auto
    have "a < inc" using integer_less_cases [OF a(2) i(1) i(2), of fa "[]"] a(1) by simp
    moreover have "ia @ midpoint fa [] < b"
      using integer_less_cases [OF a(2) b(2) less] b(1) by simp
    moreover have "a < ia @ midpoint fa []" "valid (ia @ midpoint fa [])"
      using midpoint_between [OF da, of "[]"] a validI by (auto simp: is_fraction_def)
    ultimately show ?thesis using False inc kb valid_integer [OF i(1)] by auto
  qed
qed

lemma integer_zero_valid: "valid integer_zero" by code_simp

lemma key_between_bounds:
  "key_between a b = Inr k \<Longrightarrow>
     (a \<noteq> [] \<longrightarrow> usable_bound a) \<and> (b \<noteq> [] \<longrightarrow> usable_bound b) \<and> (a \<noteq> [] \<and> b \<noteq> [] \<longrightarrow> a < b)"
  by (auto simp: key_between_def Let_def rbind_Inr_iff validate_bound_Inr split: if_splits)

text \<open>C35. \<open>KeyBetween\<close> answers a key exactly when every closed bound is a valid key other
  than the smallest integer and the bounds are in order: inside that domain the rank
  space is never exhausted.
\<close>
theorem key_between_total:
  "(\<exists>k. key_between left right = Inr k) \<longleftrightarrow>
     (left \<noteq> [] \<longrightarrow> usable_bound left) \<and> (right \<noteq> [] \<longrightarrow> usable_bound right) \<and>
     (left \<noteq> [] \<and> right \<noteq> [] \<longrightarrow> left < right)"
proof
  assume "\<exists>k. key_between left right = Inr k"
  then show "(left \<noteq> [] \<longrightarrow> usable_bound left) \<and> (right \<noteq> [] \<longrightarrow> usable_bound right) \<and>
     (left \<noteq> [] \<and> right \<noteq> [] \<longrightarrow> left < right)"
    using key_between_bounds by blast
next
  assume b: "(left \<noteq> [] \<longrightarrow> usable_bound left) \<and> (right \<noteq> [] \<longrightarrow> usable_bound right) \<and>
     (left \<noteq> [] \<and> right \<noteq> [] \<longrightarrow> left < right)"
  show "\<exists>k. key_between left right = Inr k"
  proof (cases "left = []"; cases "right = []")
    assume "left = []" "right = []"
    then show ?thesis by (simp add: key_between_def)
  qed (use b key_between_none_left key_between_none_right key_between_both in blast)+
qed

theorem key_between_total_witness: "\<exists>k. key_between ''a0'' ''a0V'' = Inr k"
proof -
  have "usable_bound ''a0''" "usable_bound ''a0V''" "''a0'' < ''a0V''" by code_simp+
  then show ?thesis using key_between_total [of "''a0''" "''a0V''"] by simp
qed

lemma key_between_Inr:
  assumes "key_between left right = Inr k"
  shows "valid k \<and> (left \<noteq> [] \<longrightarrow> left < k) \<and> (right \<noteq> [] \<longrightarrow> k < right)"
proof (cases "left = []"; cases "right = []")
  assume "left = []" "right = []"
  then show ?thesis using assms integer_zero_valid by (auto simp: key_between_def)
next
  assume e: "left = []" "right \<noteq> []"
  then have "usable_bound right" using key_between_bounds [OF assms] by blast
  then show ?thesis using key_between_none_left [of right] assms e by auto
next
  assume e: "left \<noteq> []" "right = []"
  then have "usable_bound left" using key_between_bounds [OF assms] by blast
  then show ?thesis using key_between_none_right [of left] assms e by auto
next
  assume e: "left \<noteq> []" "right \<noteq> []"
  then have "usable_bound left" "usable_bound right" "left < right"
    using key_between_bounds [OF assms] by blast+
  then show ?thesis using key_between_both [of left right] assms e by auto
qed

lemma key_between_usable:
  "key_between left right = Inr k \<Longrightarrow> left \<noteq> [] \<Longrightarrow> usable_bound k"
  using key_between_Inr [of left right k] key_between_bounds [of left right k] valid_ge_smallest [of left]
  by (auto simp: usable_bound_def)

text \<open>C8. The key \<open>KeyBetween\<close> answers is valid and lies strictly between its closed bounds
  in byte order, so the new ticket sorts where it was asked to.
\<close>
theorem key_between_strict:
  assumes "key_between left right = Inr k"
  shows "valid k \<and> (left \<noteq> [] \<longrightarrow> left < k) \<and> (right \<noteq> [] \<longrightarrow> k < right)"
  using assms by (rule key_between_Inr)

theorem key_between_strict_witness:
  "valid ''ZzV'' \<and> ''Zz'' < ''ZzV'' \<and> ''ZzV'' < ''a0''"
proof -
  have "key_between ''Zz'' ''a0'' = Inr ''ZzV''" by code_simp
  then show ?thesis using key_between_strict [of "''Zz''" "''a0''" "''ZzV''"] by simp
qed

end
