(* ===== verification/Slugs.thy ===== *)
theory Slugs
  imports Prelude
begin

text \<open>
  Titles and slugs: \<open>internal/slug/slug.go\<close> turns a title into the frozen file-name
  slug, \<open>internal/title/title.go\<close> finds the first ATX heading of a body. Unicode
  normalisation (\<open>norm.NFKC\<close>, a third-party package) is a parameter. The rune loop of
  \<open>Slugify\<close> is a byte loop here: every byte of a non-ASCII rune takes the \<open>default\<close>
  branch, and flushing an empty token again changes nothing.
\<close>

section \<open>Slugify\<close>

abbreviation slug_max :: nat where "slug_max \<equiv> 48"

definition slug_fallback :: string where "slug_fallback = ''x''"

fun slug_tokens :: "string \<Rightarrow> string \<Rightarrow> string list" where
  "slug_tokens [] cur = (if length cur > 0 then [cur] else [])"
| "slug_tokens (r # rs) cur =
     (if CHR ''A'' \<le> r \<and> r \<le> CHR ''Z'' then slug_tokens rs (cur @ [char_of (of_char r + (32 :: nat))])
      else if (CHR ''a'' \<le> r \<and> r \<le> CHR ''z'') \<or> (CHR ''0'' \<le> r \<and> r \<le> CHR ''9'')
      then slug_tokens rs (cur @ [r])
      else (if length cur > 0 then [cur] else []) @ slug_tokens rs [])"

definition truncate_slug :: "string \<Rightarrow> string" where
  "truncate_slug s =
     (case last_index_byte CHR ''-'' (take (slug_max + 1) s) of
        Some k \<Rightarrow> take k s
      | None \<Rightarrow> rev (dropWhile (\<lambda>c. c = CHR ''-'') (rev (take slug_max s))))"

definition slugify :: "(string \<Rightarrow> string) \<Rightarrow> string \<Rightarrow> string" where
  "slugify nfkc title =
     (let tokens = slug_tokens (nfkc title) [] in
      if length tokens = 0 then slug_fallback
      else let s = go_join ''-'' tokens;
               s' = (if length s > slug_max then truncate_slug s else s) in
           if s' = [] then slug_fallback else s')"

text \<open>\<open>Valid\<close>: the scan over the bytes with its \<open>prevHyphen\<close> flag.\<close>

fun slug_scan :: "bool \<Rightarrow> string \<Rightarrow> bool" where
  "slug_scan prevHyphen [] = (\<not> prevHyphen)"
| "slug_scan prevHyphen (c # cs) =
     (if (CHR ''a'' \<le> c \<and> c \<le> CHR ''z'') \<or> (CHR ''0'' \<le> c \<and> c \<le> CHR ''9'') then slug_scan False cs
      else if c = CHR ''-'' then (if prevHyphen then False else slug_scan True cs)
      else False)"

definition slug_valid :: "string \<Rightarrow> bool" where
  "slug_valid s = (if length s < 1 \<or> length s > slug_max then False else slug_scan True s)"

section \<open>The first heading of a body\<close>

text \<open>The regular expression \<open>^#\s+.+\<close> on one line: a hash, one white-space byte, one more byte.\<close>

definition atx_h1 :: "string \<Rightarrow> bool" where
  "atx_h1 line =
     (case line of
        h # w # x # _ \<Rightarrow>
          h = CHR ''#'' \<and> w \<in> set [CHR 0x09, CHR 0x0A, CHR 0x0C, CHR 0x0D, CHR '' ''] \<and> x \<noteq> newline
      | _ \<Rightarrow> False)"

definition heading_text :: "string \<Rightarrow> string" where
  "heading_text line = trim_space (trim_prefix ''#'' line)"

text \<open>
  The loop of \<open>SplitH1Parts\<close> over the lines; \<open>offset\<close> counts the bytes of \<open>body\<close> already
  passed. The result is the prefix, the heading text and the rest.
\<close>

function split_h1_from :: "string \<Rightarrow> string \<Rightarrow> nat \<Rightarrow> string \<times> string \<times> string" where
  "split_h1_from body remaining offset =
     (if remaining = [] then ([], [], body)
      else
        let (line, after, consumed) =
              (case index_byte newline remaining of
                 Some i \<Rightarrow> (take i remaining, drop (i + 1) remaining, i + 1)
               | None \<Rightarrow> (remaining, [], length remaining));
            line = trim_suffix [carriage] line in
        if atx_h1 line \<and> heading_text line \<noteq> [] then (take offset body, heading_text line, after)
        else split_h1_from body after (offset + consumed))"
  by pat_completeness auto
termination
  by (relation "measure (\<lambda>(body, remaining, offset). length remaining)") (auto split: option.splits)

declare split_h1_from.simps [simp del]

definition split_h1_parts :: "string \<Rightarrow> string \<times> string \<times> string" where
  "split_h1_parts body = split_h1_from body body 0"

definition split_h1 :: "string \<Rightarrow> string \<times> string" where
  "split_h1 body = (case split_h1_parts body of (_, heading, rest) \<Rightarrow> (heading, rest))"

definition extract_title :: "string \<Rightarrow> string" where
  "extract_title body = fst (split_h1 body)"


section \<open>The slug grammar\<close>

text \<open>The scan as an automaton: \<open>None\<close> once a byte is refused, else the hyphen flag.\<close>

fun slug_state :: "bool \<Rightarrow> string \<Rightarrow> bool option" where
  "slug_state p [] = Some p"
| "slug_state p (c # cs) =
     (if (CHR ''a'' \<le> c \<and> c \<le> CHR ''z'') \<or> (CHR ''0'' \<le> c \<and> c \<le> CHR ''9'') then slug_state False cs
      else if c = CHR ''-'' \<and> \<not> p then slug_state True cs
      else None)"

definition slug_letter :: "char \<Rightarrow> bool" where
  "slug_letter c \<longleftrightarrow> (CHR ''a'' \<le> c \<and> c \<le> CHR ''z'') \<or> (CHR ''0'' \<le> c \<and> c \<le> CHR ''9'')"

lemma hyphen_no_letter [simp]: "\<not> slug_letter CHR ''-''"
  by (simp add: slug_letter_def less_eq_char_def)

lemma slug_scan_state: "slug_scan p s \<longleftrightarrow> slug_state p s = Some False"
  by (induction s arbitrary: p) auto

lemma slug_state_append: "slug_state p (xs @ ys) = Option.bind (slug_state p xs) (\<lambda>q. slug_state q ys)"
  by (induction xs arbitrary: p) auto

lemma slug_state_letters: "list_all slug_letter s \<Longrightarrow> slug_state p s = Some (if s = [] then p else False)"
  by (induction s arbitrary: p) (auto simp: slug_letter_def)

lemma slug_state_hyphen: "slug_state p (CHR ''-'' # s) = (if p then None else slug_state True s)"
  by (simp add: less_eq_char_def)

lemma slug_state_set: "slug_state p s = Some q \<Longrightarrow> c \<in> set s \<Longrightarrow> slug_letter c \<or> c = CHR ''-''"
  by (induction s arbitrary: p) (auto simp: slug_letter_def split: if_splits)

lemma slug_state_prefix: "slug_state p (xs @ ys) = Some q \<Longrightarrow> \<exists>q'. slug_state p xs = Some q'"
  by (auto simp: slug_state_append bind_eq_Some_conv)

section \<open>Tokens\<close>

lemma letter_not_upper: "slug_letter c \<Longrightarrow> \<not> (CHR ''A'' \<le> c \<and> c \<le> CHR ''Z'')"
  by (auto simp: slug_letter_def less_eq_char_def)

lemma slug_tokens_upper:
  "CHR ''A'' \<le> r \<and> r \<le> CHR ''Z'' \<Longrightarrow>
     slug_tokens (r # rs) cur = slug_tokens rs (cur @ [char_of (of_char r + (32 :: nat))])"
  by simp

lemma slug_tokens_letter: "slug_letter r \<Longrightarrow> slug_tokens (r # rs) cur = slug_tokens rs (cur @ [r])"
  using letter_not_upper [of r] unfolding slug_letter_def slug_tokens.simps by (simp only: if_False if_True)

lemma slug_tokens_other:
  "\<not> (CHR ''A'' \<le> r \<and> r \<le> CHR ''Z'') \<Longrightarrow> \<not> slug_letter r \<Longrightarrow>
     slug_tokens (r # rs) cur = (if length cur > 0 then [cur] else []) @ slug_tokens rs []"
  unfolding slug_letter_def slug_tokens.simps by (simp only: if_False)

lemma lower_upper: "CHR ''A'' \<le> c \<Longrightarrow> c \<le> CHR ''Z'' \<Longrightarrow> slug_letter (char_of (of_char c + (32 :: nat)))"
  by (simp add: slug_letter_def less_eq_char_def)

lemma slug_tokens_letters:
  "list_all slug_letter cur \<Longrightarrow> t \<in> set (slug_tokens s cur) \<Longrightarrow> t \<noteq> [] \<and> list_all slug_letter t"
proof (induction s cur arbitrary: t rule: slug_tokens.induct)
  case (2 r rs cur)
  consider (upper) "CHR ''A'' \<le> r \<and> r \<le> CHR ''Z''"
    | (letter) "\<not> (CHR ''A'' \<le> r \<and> r \<le> CHR ''Z'')" "slug_letter r"
    | (other) "\<not> (CHR ''A'' \<le> r \<and> r \<le> CHR ''Z'')" "\<not> slug_letter r"
    by blast
  then show ?case
  proof cases
    case upper
    then show ?thesis using 2(1) 2(4,5) lower_upper [of r] by (simp add: slug_tokens_upper del: slug_tokens.simps)
  next
    case letter
    then show ?thesis using 2(2) [folded slug_letter_def, OF letter(1) letter(2)] 2(4,5)
      by (simp add: slug_tokens_letter del: slug_tokens.simps)
  next
    case other
    then show ?thesis using 2(3) [folded slug_letter_def, OF other] 2(4,5)
      by (auto simp: slug_tokens_other simp del: slug_tokens.simps split: if_splits)
  qed
qed (auto split: if_splits)

lemma slug_state_join:
  "ts \<noteq> [] \<Longrightarrow> \<forall>t \<in> set ts. t \<noteq> [] \<and> list_all slug_letter t \<Longrightarrow> slug_state True (go_join ''-'' ts) = Some False"
proof (induction "''-''" ts rule: go_join.induct)
  case (3 x y ys)
  then show ?case
    by (simp add: slug_state_append slug_state_letters slug_state_hyphen del: slug_state.simps)
qed (auto simp: slug_state_letters)

lemma slug_state_truncate:
  assumes ok: "slug_state True s = Some False" and long: "slug_max < length s"
  shows "slug_state True (truncate_slug s) = Some False \<and> length (truncate_slug s) \<le> slug_max"
proof (cases "last_index_byte CHR ''-'' (take (slug_max + 1) s)")
  case None
  let ?u = "take slug_max s"
  have nin: "CHR ''-'' \<notin> set (take (slug_max + 1) s)"
    using None by (simp add: last_index_byte_None)
  then have nin': "CHR ''-'' \<notin> set ?u"
    using set_take_subset_set_take [of slug_max "slug_max + 1" s] by (auto simp del: One_nat_def)
  obtain q where q: "slug_state True ?u = Some q"
    using slug_state_prefix [of True ?u "drop slug_max s"] ok by auto
  have "list_all slug_letter ?u"
    using slug_state_set [OF q] nin' by (auto simp: list_all_iff)
  moreover have "?u \<noteq> []" using long by auto
  moreover have "dropWhile (\<lambda>c. c = CHR ''-'') (rev ?u) = rev ?u"
    using nin' hd_in_set [of "rev ?u"] unfolding dropWhile_eq_self_iff set_rev by metis
  ultimately show ?thesis
    using None by (simp add: truncate_slug_def slug_state_letters)
next
  case (Some k)
  from last_index_byte_Some [OF Some]
  have k: "k < slug_max + 1" "s ! k = CHR ''-''" "k < length s" by auto
  have split: "s = take k s @ CHR ''-'' # drop (Suc k) s"
    using id_take_nth_drop [OF k(3)] k(2) by simp
  obtain q where q: "slug_state True (take k s) = Some q"
    using slug_state_prefix [of True "take k s" "drop k s"] ok by auto
  have "slug_state True s = Option.bind (slug_state True (take k s)) (\<lambda>q. slug_state q (CHR ''-'' # drop (Suc k) s))"
    by (subst split) (rule slug_state_append)
  then have "q = False"
    using ok q by (auto simp: slug_state_hyphen simp del: slug_state.simps split: if_splits)
  then show ?thesis using Some q k by (simp add: truncate_slug_def)
qed

lemma slug_fallback_valid: "slug_valid slug_fallback"
  by (simp add: slug_fallback_def slug_valid_def less_eq_char_def)

lemma slug_tokens_nil_letters:
  "list_all slug_letter x \<Longrightarrow> slug_tokens (x @ s) cur = slug_tokens s (cur @ x)"
  by (induction x arbitrary: cur) (simp_all add: slug_tokens_letter del: slug_tokens.simps)

text \<open>On a string of the grammar the tokens are the hyphen-separated parts.\<close>

lemma slug_tokens_hyphen: "slug_tokens (CHR ''-'' # s) cur = (if length cur > 0 then [cur] else []) @ slug_tokens s []"
  by (simp add: less_eq_char_def)

lemma go_join_Cons: "ts \<noteq> [] \<Longrightarrow> go_join sep (t # ts) = t @ sep @ go_join sep ts"
  by (cases ts) auto

lemma slug_tokens_join:
  "slug_state p s = Some False \<Longrightarrow> (p \<longleftrightarrow> cur = []) \<Longrightarrow> list_all slug_letter cur \<Longrightarrow>
     slug_tokens s cur \<noteq> [] \<and> go_join ''-'' (slug_tokens s cur) = cur @ s"
proof (induction s arbitrary: p cur)
  case (Cons c s)
  show ?case
  proof (cases "c = CHR ''-''")
    case True
    with Cons.prems have "slug_state True s = Some False" and "cur \<noteq> []"
      by (auto simp: slug_state_hyphen simp del: slug_state.simps split: if_splits)
    with Cons.IH [of True "[]"] show ?thesis
      by (simp add: True slug_tokens_hyphen go_join_Cons del: slug_tokens.simps)
  next
    case False
    with Cons.prems have l: "slug_letter c" and "slug_state False s = Some False"
      by (auto simp: slug_letter_def split: if_splits)
    with Cons.IH [of False "cur @ [c]"] Cons.prems(3)
    have "slug_tokens s (cur @ [c]) \<noteq> [] \<and> go_join ''-'' (slug_tokens s (cur @ [c])) = cur @ c # s"
      by simp
    with slug_tokens_nil_letters [of "[c]" s cur] l show ?thesis by simp
  qed
qed simp

lemma slugify_slug_valid: "slug_valid (slugify nfkc title)"
proof -
  let ?ts = "slug_tokens (nfkc title) []"
  let ?s = "go_join ''-'' ?ts"
  have ts: "\<forall>t \<in> set ?ts. t \<noteq> [] \<and> list_all slug_letter t"
    using slug_tokens_letters [of "[]"] by simp
  show ?thesis
  proof (cases "?ts = []")
    case True
    then show ?thesis by (simp add: slugify_def Let_def slug_fallback_valid)
  next
    case False
    from slug_state_join [OF False ts] have ok: "slug_state True ?s = Some False" .
    define s' where "s' = (if length ?s > slug_max then truncate_slug ?s else ?s)"
    have s': "slug_state True s' = Some False \<and> length s' \<le> slug_max"
      using slug_state_truncate [OF ok] ok by (auto simp: s'_def)
    then have "s' \<noteq> []" by auto
    moreover have "slugify nfkc title = (if s' = [] then slug_fallback else s')"
      using False by (simp add: slugify_def Let_def s'_def)
    ultimately show ?thesis using s' by (cases s') (auto simp: slug_valid_def slug_scan_state)
  qed
qed

section \<open>Properties\<close>

text \<open>Every title gives a legal slug, whatever the Unicode normaliser does: \<open>Slugify\<close>
  is total and its result always passes \<open>Valid\<close>, the empty title and the truncated one included.\<close>

theorem slugify_valid: "slug_valid (slugify nfkc title)"
  by (rule slugify_slug_valid)

text \<open>\<open>Slugify\<close> is the identity on legal slugs that the normaliser leaves alone (it
  leaves every ASCII string alone), so slugs are fixed points and slugifying twice changes nothing.\<close>

theorem slugify_fixed:
  assumes "slug_valid s" and "nfkc s = s"
  shows "slugify nfkc s = s"
proof -
  from assms have s: "slug_state True s = Some False" "length s \<le> slug_max" "s \<noteq> []"
    by (auto simp: slug_valid_def slug_scan_state split: if_splits)
  from slug_tokens_join [OF s(1), of "[]"]
  have "slug_tokens s [] \<noteq> []" "go_join ''-'' (slug_tokens s []) = s" by auto
  with s assms(2) show ?thesis by (simp add: slugify_def Let_def)
qed

theorem slugify_fixed_witness:
  "slug_valid ''fix-2-bugs'' \<and> slugify (\<lambda>t. t) ''fix-2-bugs'' = ''fix-2-bugs''"
proof -
  have v: "slug_valid ''fix-2-bugs''" by code_simp
  show ?thesis using v slugify_fixed [OF v, of "\<lambda>t. t"] by simp
qed

section \<open>The split at the first heading\<close>

definition heading_chunk :: "string \<Rightarrow> bool" where
  "heading_chunk c \<longleftrightarrow> atx_h1 (chunk_line c) \<and> heading_text (chunk_line c) \<noteq> []"

definition h1_of_chunks :: "string \<Rightarrow> string list \<Rightarrow> string list \<Rightarrow> string \<times> string \<times> string" where
  "h1_of_chunks body before cs =
     (case dropWhile (\<lambda>c. \<not> heading_chunk c) cs of
        [] \<Rightarrow> ([], [], body)
      | c # rest \<Rightarrow>
          (concat (before @ takeWhile (\<lambda>c. \<not> heading_chunk c) cs), heading_text (chunk_line c), concat rest))"

lemma h1_of_chunks_Cons:
  "h1_of_chunks body before (c # cs) =
     (if heading_chunk c then (concat before, heading_text (chunk_line c), concat cs)
      else h1_of_chunks body (before @ [c]) cs)"
  by (cases "dropWhile (\<lambda>c. \<not> heading_chunk c) cs") (simp_all add: h1_of_chunks_def del: dropWhile_eq_Nil_conv)

lemma split_h1_from_chunks:
  "body = concat before @ remaining \<Longrightarrow> offset = length (concat before) \<Longrightarrow>
     split_h1_from body remaining offset = h1_of_chunks body before (line_chunks remaining)"
proof (induction body remaining offset arbitrary: before rule: split_h1_from.induct)
  case (1 body remaining offset)
  show ?case
  proof (cases "remaining = []")
    case True
    then show ?thesis by (simp add: split_h1_from.simps line_chunks.simps h1_of_chunks_def)
  next
    case False
    show ?thesis
    proof (cases "index_byte newline remaining")
      case None
      then have nin: "newline \<notin> set remaining" by (simp add: index_byte_None)
      have "split_h1_from body [] (offset + length remaining) = ([], [], body)"
        by (simp add: split_h1_from.simps)
      moreover have "line_chunks remaining = [remaining]"
        using None False by (simp add: line_chunks.simps)
      ultimately show ?thesis
        using False None 1(2,3)
        by (subst split_h1_from.simps)
          (simp add: Let_def chunk_line_last [OF nin] heading_chunk_def h1_of_chunks_Cons h1_of_chunks_def)
    next
      case (Some i)
      from index_byte_Some [OF Some] have i: "i < length remaining" "remaining ! i = newline"
        "newline \<notin> set (take i remaining)" by auto
      have c: "take (Suc i) remaining = take i remaining @ [newline]"
        using i by (simp add: take_Suc_conv_app_nth)
      have line: "chunk_line (take (Suc i) remaining) = trim_suffix [carriage] (take i remaining)"
        unfolding c by (rule chunk_line_break [OF i(3)])
      have chunks: "line_chunks remaining = take (Suc i) remaining # line_chunks (drop (Suc i) remaining)"
        using Some False by (subst line_chunks.simps) simp
      have IH: "split_h1_from body (drop (Suc i) remaining) (offset + Suc i) =
          h1_of_chunks body (before @ [take (Suc i) remaining]) (line_chunks (drop (Suc i) remaining))"
        if "\<not> heading_chunk (take (Suc i) remaining)"
        by (rule "1.IH" [OF False refl])
          (use Some that line i 1(2,3) in \<open>simp_all add: heading_chunk_def\<close>)
      show ?thesis
        using False Some IH 1(2,3)
        by (subst split_h1_from.simps, subst chunks)
          (simp add: Let_def h1_of_chunks_Cons heading_chunk_def line)
    qed
  qed
qed

text \<open>\<open>SplitH1Parts\<close> cuts a body at its lines: the heading is the first line that is an ATX
  heading with a text, the prefix is every line before it, the rest every line after it, byte
  for byte; a body with no such line gives an empty prefix, an empty heading and the whole body.\<close>

theorem split_h1_parts_lines:
  "split_h1_parts body = h1_of_chunks body [] (line_chunks body)"
  by (simp add: split_h1_parts_def split_h1_from_chunks)

end
