(* ===== verification/Statuses.thy ===== *)
theory Statuses
  imports Prelude "HOL-Library.Multiset"
begin

text \<open>
  Ticket statuses, \<open>internal/status/status.go\<close>: the nine built-in names, the closed set
  of categories, and the predicates the gate, the board and the write verbs consult. A
  category is a Go string type, and a scope's custom statuses are a Go map, here an
  association list with the entries in some iteration order.
\<close>

type_synonym category = string
type_synonym 'v gomap = "(string \<times> 'v) list"

definition category_active :: category where "category_active = ''active''"
definition category_backlog :: category where "category_backlog = ''backlog''"
definition category_done :: category where "category_done = ''done''"

definition st_draft :: string where "st_draft = ''draft''"
definition st_triaged :: string where "st_triaged = ''triaged''"
definition st_backlog :: string where "st_backlog = ''backlog''"
definition st_todo :: string where "st_todo = ''todo''"
definition st_in_progress :: string where "st_in_progress = ''in-progress''"
definition st_review :: string where "st_review = ''review''"
definition st_blocked :: string where "st_blocked = ''blocked''"
definition st_done :: string where "st_done = ''done''"
definition st_cancelled :: string where "st_cancelled = ''cancelled''"

lemmas status_names =
  st_draft_def st_triaged_def st_backlog_def st_todo_def st_in_progress_def st_review_def
  st_blocked_def st_done_def st_cancelled_def category_active_def category_backlog_def
  category_done_def

record builtin =
  b_category :: category
  b_in_default_list :: bool
  b_next_eligible :: bool

definition builtins :: "builtin gomap" where
  "builtins =
     [(st_draft, \<lparr>b_category = category_active, b_in_default_list = True, b_next_eligible = False\<rparr>),
      (st_triaged, \<lparr>b_category = category_active, b_in_default_list = True, b_next_eligible = False\<rparr>),
      (st_backlog, \<lparr>b_category = category_backlog, b_in_default_list = False, b_next_eligible = False\<rparr>),
      (st_todo, \<lparr>b_category = category_active, b_in_default_list = True, b_next_eligible = True\<rparr>),
      (st_in_progress, \<lparr>b_category = category_active, b_in_default_list = True, b_next_eligible = False\<rparr>),
      (st_review, \<lparr>b_category = category_active, b_in_default_list = True, b_next_eligible = False\<rparr>),
      (st_blocked, \<lparr>b_category = category_active, b_in_default_list = True, b_next_eligible = False\<rparr>),
      (st_done, \<lparr>b_category = category_done, b_in_default_list = False, b_next_eligible = False\<rparr>),
      (st_cancelled, \<lparr>b_category = category_done, b_in_default_list = False, b_next_eligible = False\<rparr>)]"

definition builtin_order :: "string list" where
  "builtin_order =
     [st_draft, st_triaged, st_backlog, st_todo, st_in_progress, st_review, st_blocked, st_done, st_cancelled]"

definition is_builtin :: "string \<Rightarrow> bool" where
  "is_builtin name \<longleftrightarrow> map_of builtins name \<noteq> None"

definition valid_category :: "category \<Rightarrow> bool" where
  "valid_category c \<longleftrightarrow> c = category_active \<or> c = category_backlog \<or> c = category_done"

definition category_of :: "string \<Rightarrow> category gomap \<Rightarrow> category option" where
  "category_of name custom =
     (case map_of builtins name of
        Some b \<Rightarrow> Some (b_category b)
      | None \<Rightarrow> map_of custom name)"

definition is_known :: "string \<Rightarrow> category gomap \<Rightarrow> bool" where
  "is_known name custom \<longleftrightarrow> category_of name custom \<noteq> None"

definition is_terminal :: "string \<Rightarrow> category gomap \<Rightarrow> bool" where
  "is_terminal name custom = (case category_of name custom of Some c \<Rightarrow> c = category_done | None \<Rightarrow> False)"

definition all_terminal :: "string list \<Rightarrow> category gomap \<Rightarrow> bool" where
  "all_terminal names custom =
     (if length names = 0 then False else list_all (\<lambda>n. is_terminal n custom) names)"

definition is_next_eligible :: "string \<Rightarrow> bool" where
  "is_next_eligible name = (case map_of builtins name of Some b \<Rightarrow> b_next_eligible b | None \<Rightarrow> False)"

definition in_default_list :: "string \<Rightarrow> category gomap \<Rightarrow> bool" where
  "in_default_list name custom =
     (case map_of builtins name of
        Some b \<Rightarrow> b_in_default_list b
      | None \<Rightarrow> (case map_of custom name of Some c \<Rightarrow> c = category_active | None \<Rightarrow> False))"

definition names_where :: "category gomap \<Rightarrow> (category \<Rightarrow> bool) \<Rightarrow> string list" where
  "names_where custom keep =
     filter (\<lambda>name. keep (b_category (the (map_of builtins name)))) builtin_order @
     sort (map fst (filter (\<lambda>(name, cat). keep cat) custom))"

definition default_list_names :: "category gomap \<Rightarrow> string list" where
  "default_list_names custom = names_where custom (\<lambda>c. c = category_active)"

definition non_terminal_names :: "category gomap \<Rightarrow> string list" where
  "non_terminal_names custom = names_where custom (\<lambda>c. c \<noteq> category_done)"

definition terminal_names :: "category gomap \<Rightarrow> string list" where
  "terminal_names custom = names_where custom (\<lambda>c. c = category_done)"

section \<open>The lists of names\<close>

lemma builtin_order_keys: "builtin_order = map fst builtins"
  by (simp add: builtin_order_def builtins_def)

lemma builtin_order_sound: "name \<in> set builtin_order \<longleftrightarrow> is_builtin name"
  by (simp add: builtin_order_keys is_builtin_def map_of_eq_None_iff)

lemma distinct_builtin_order: "distinct builtin_order"
  by code_simp

text \<open>\<open>inDefaultList\<close> and \<open>nextEligible\<close> agree with the categories of the built-ins.\<close>

lemma map_of_all: "map_of xs n = Some b \<Longrightarrow> list_all (\<lambda>(n, b). P n b) xs \<Longrightarrow> P n b"
  by (auto simp: list_all_iff dest: map_of_SomeD)

lemma builtins_default: "map_of builtins name = Some b \<Longrightarrow> b_in_default_list b \<longleftrightarrow> b_category b = category_active"
  by (erule map_of_all [where P = "\<lambda>n b. b_in_default_list b \<longleftrightarrow> b_category b = category_active"]) code_simp

lemma builtins_next: "is_next_eligible name \<longleftrightarrow> name = st_todo"
proof
  have "list_all (\<lambda>(n, b). b_next_eligible b \<longrightarrow> n = st_todo) builtins" by code_simp
  then show "is_next_eligible name \<Longrightarrow> name = st_todo"
    by (auto simp: is_next_eligible_def list_all_iff split: option.splits dest!: map_of_SomeD)
  have "is_next_eligible st_todo" by code_simp
  then show "name = st_todo \<Longrightarrow> is_next_eligible name" by simp
qed

lemma next_eligible_open: "is_next_eligible name \<Longrightarrow> \<not> is_terminal name custom"
proof -
  assume "is_next_eligible name"
  then have n: "name = st_todo" by (simp add: builtins_next)
  have "map_option b_category (map_of builtins st_todo) = Some category_active" by code_simp
  moreover have "category_active \<noteq> category_done" by code_simp
  ultimately show ?thesis by (auto simp: n is_terminal_def category_of_def)
qed

text \<open>A scope's custom map as the schema allows it: one entry per name, no built-in redeclared.\<close>

definition custom_ok :: "category gomap \<Rightarrow> bool" where
  "custom_ok custom \<longleftrightarrow> distinct (map fst custom) \<and> list_all (\<lambda>(n, c). \<not> is_builtin n) custom"

lemma set_names_where:
  assumes "custom_ok custom"
  shows "set (names_where custom keep) = {n. \<exists>c. category_of n custom = Some c \<and> keep c}"
proof (rule set_eqI)
  fix n
  have "n \<in> set (names_where custom keep) \<longleftrightarrow>
      is_builtin n \<and> keep (b_category (the (map_of builtins n))) \<or> (\<exists>c. map_of custom n = Some c \<and> keep c)"
    using assms by (force simp: names_where_def builtin_order_sound custom_ok_def)
  also have "\<dots> \<longleftrightarrow> (\<exists>c. category_of n custom = Some c \<and> keep c)"
    using assms
    by (auto simp: category_of_def is_builtin_def custom_ok_def list_all_iff split: option.split dest: map_of_SomeD)
  finally show "n \<in> set (names_where custom keep) \<longleftrightarrow> n \<in> {n. \<exists>c. category_of n custom = Some c \<and> keep c}"
    by simp
qed

lemma distinct_names_where: "custom_ok custom \<Longrightarrow> distinct (names_where custom keep)"
  by (auto simp: names_where_def custom_ok_def list_all_iff distinct_map_filter distinct_builtin_order
      builtin_order_sound)

text \<open>The result does not depend on the order in which Go ranges over the map.\<close>

lemma names_where_order:
  "mset custom = mset custom' \<Longrightarrow> names_where custom keep = names_where custom' keep"
proof -
  assume m: "mset custom = mset custom'"
  then have "mset (map fst (filter (\<lambda>(name, cat). keep cat) custom)) =
      mset (map fst (filter (\<lambda>(name, cat). keep cat) custom'))"
    by (simp add: mset_map mset_filter)
  then have "sort (map fst (filter (\<lambda>(name, cat). keep cat) custom)) =
      sort (map fst (filter (\<lambda>(name, cat). keep cat) custom'))"
    by (intro properties_for_sort) simp_all
  then show ?thesis by (simp add: names_where_def)
qed

text \<open>The three name lists classify the statuses a scope knows: \<open>TerminalNames\<close> is the set of
  \<open>IsTerminal\<close>, \<open>NonTerminalNames\<close> the rest of \<open>IsKnown\<close>, \<open>DefaultListNames\<close> the set of
  \<open>InDefaultList\<close>, each without duplicates and whatever order Go ranges over the custom map.\<close>

theorem status_lists_classify:
  assumes "custom_ok custom" and "mset custom' = mset custom"
  shows "set (terminal_names custom') = {n. is_terminal n custom} \<and>
    set (non_terminal_names custom') = {n. is_known n custom \<and> \<not> is_terminal n custom} \<and>
    set (default_list_names custom') = {n. in_default_list n custom} \<and>
    distinct (terminal_names custom' @ non_terminal_names custom')"
proof -
  note same = names_where_order [OF assms(2)]
  have t: "set (terminal_names custom') = {n. is_terminal n custom}"
    using assms(1) by (auto simp: terminal_names_def same set_names_where is_terminal_def split: option.split)
  have n: "set (non_terminal_names custom') = {n. is_known n custom \<and> \<not> is_terminal n custom}"
    using assms(1)
    by (auto simp: non_terminal_names_def same set_names_where is_terminal_def is_known_def split: option.split)
  have "set (default_list_names custom') = {n. in_default_list n custom}"
    using assms(1) builtins_default
    by (auto simp: default_list_names_def same set_names_where in_default_list_def category_of_def
        split: option.split)
  moreover have "distinct (terminal_names custom' @ non_terminal_names custom')"
    using t n assms(1)
    by (auto simp: terminal_names_def non_terminal_names_def same distinct_names_where)
  ultimately show ?thesis using t n by simp
qed

theorem status_lists_classify_witness:
  "custom_ok [(''parked'', category_backlog), (''shipped'', category_done)] \<and>
   set (terminal_names [(''shipped'', category_done), (''parked'', category_backlog)]) =
     {n. is_terminal n [(''parked'', category_backlog), (''shipped'', category_done)]}"
proof -
  have c: "custom_ok [(''parked'', category_backlog), (''shipped'', category_done)]" by code_simp
  show ?thesis using c status_lists_classify [OF c] by (simp add: add_mset_commute)
qed

end
