(* ===== verification/Frontmatter.thy ===== *)
theory Frontmatter
  imports Prelude
begin

text \<open>
  The leading front matter of a ticket file, \<open>internal/frontmatter/frontmatter.go\<close>: the
  fence (\<open>Split\<close>, \<open>Compose\<close>) on raw bytes, and the typed model behind it (\<open>Parse\<close>,
  \<open>Serialize\<close>). The YAML codec \<open>github.com/goccy/go-yaml\<close> is a parameter, the pair
  \<open>yaml\<close> of its two entry points.
\<close>

section \<open>Values\<close>

text \<open>
  The dynamic values a YAML decode leaves in an \<open>any\<close>. \<open>VOther\<close> is any value of another
  type (a float, a nested map), kept as the text \<open>fmt.Sprint\<close> prints for it.
\<close>

datatype goval =
    VNil
  | VStr string
  | VBool bool
  | VInt int
  | VList "goval list"
  | VStrs "string list"
  | VOther string

fun show_nat :: "nat \<Rightarrow> string" where
  "show_nat n = (if n < 10 then [char_of (48 + n)] else show_nat (n div 10) @ [char_of (48 + n mod 10)])"

declare show_nat.simps [simp del]

definition show_int :: "int \<Rightarrow> string" where
  "show_int i = (if i < 0 then CHR ''-'' # show_nat (nat (- i)) else show_nat (nat i))"

text \<open>\<open>fmt.Sprint\<close> of one value.\<close>

fun sprint :: "goval \<Rightarrow> string" where
  "sprint VNil = ''<nil>''"
| "sprint (VStr s) = s"
| "sprint (VBool b) = (if b then ''true'' else ''false'')"
| "sprint (VInt i) = show_int i"
| "sprint (VList vs) = ''['' @ go_join '' '' (map sprint vs) @ '']''"
| "sprint (VStrs ss) = ''['' @ go_join '' '' ss @ '']''"
| "sprint (VOther s) = s"

definition as_scalar_string :: "goval \<Rightarrow> string" where
  "as_scalar_string v = (case v of VStr s \<Rightarrow> s | VNil \<Rightarrow> [] | _ \<Rightarrow> sprint v)"

text \<open>\<open>StringList\<close>: \<open>Inl\<close> is the error "expected a list".\<close>

definition string_list :: "goval \<Rightarrow> unit + string list" where
  "string_list v =
     (case v of
        VNil \<Rightarrow> Inr []
      | VStrs x \<Rightarrow> Inr x
      | VList x \<Rightarrow> Inr (map as_scalar_string x)
      | _ \<Rightarrow> Inl ())"

section \<open>Keys\<close>

definition key_id :: string where "key_id = ''id''"
definition key_status :: string where "key_status = ''status''"
definition key_changed :: string where "key_changed = ''changed''"
definition key_order :: string where "key_order = ''order''"
definition key_depends :: string where "key_depends = ''depends''"
definition key_related :: string where "key_related = ''related''"
definition key_tags :: string where "key_tags = ''tags''"
definition key_created :: string where "key_created = ''created''"
definition key_links :: string where "key_links = ''links''"
definition key_summary :: string where "key_summary = ''summary''"
definition key_status_conflict :: string where "key_status_conflict = ''status_conflict''"

lemmas key_names =
  key_id_def key_status_def key_changed_def key_order_def key_depends_def key_related_def
  key_tags_def key_created_def key_links_def key_summary_def key_status_conflict_def

definition builtin_keys :: "string list" where
  "builtin_keys =
     [key_id, key_status, key_changed, key_order, key_depends, key_related,
      key_tags, key_created, key_links, key_summary, key_status_conflict]"

definition is_builtin_key :: "string \<Rightarrow> bool" where
  "is_builtin_key name \<longleftrightarrow> name \<in> set builtin_keys"

definition meta_key_aliases :: "(string \<times> string) list" where
  "meta_key_aliases = [(''tag'', key_tags), (''link'', key_links)]"

definition canonical_meta_key :: "string \<Rightarrow> string" where
  "canonical_meta_key key = (case map_of meta_key_aliases key of Some wire \<Rightarrow> wire | None \<Rightarrow> key)"

definition meta_key_alias_target :: "string \<Rightarrow> string option" where
  "meta_key_alias_target name = map_of meta_key_aliases name"

section \<open>The typed model\<close>

type_synonym field = "string \<times> goval"

record fm_model =
  fm_id :: string
  fm_status :: string
  fm_changed :: string
  fm_order :: string
  fm_depends :: "string list"
  fm_related :: "string list"
  fm_tags :: "string list"
  fm_created :: string
  fm_links :: "string list"
  fm_summary :: string
  fm_status_conflict :: "string list"
  fm_custom :: "field list"

definition empty_model :: fm_model where
  "empty_model =
     \<lparr>fm_id = [], fm_status = [], fm_changed = [], fm_order = [], fm_depends = [], fm_related = [],
      fm_tags = [], fm_created = [], fm_links = [], fm_summary = [], fm_status_conflict = [],
      fm_custom = []\<rparr>"

text \<open>\<open>RemoveCustom\<close> returns whether the key was present; the model is unchanged if not.\<close>

definition remove_custom :: "fm_model \<Rightarrow> string \<Rightarrow> fm_model \<times> bool" where
  "remove_custom m key =
     (let out = filter (\<lambda>f. fst f \<noteq> key) (fm_custom m);
          found = (\<exists>f \<in> set (fm_custom m). fst f = key) in
      if \<not> found then (m, False) else (m\<lparr>fm_custom := out\<rparr>, True))"

section \<open>The fence\<close>

definition first_line :: "string \<Rightarrow> string \<times> string \<times> bool" where
  "first_line data =
     (case index_byte newline data of
        Some i \<Rightarrow> (take i data, drop (i + 1) data, True)
      | None \<Rightarrow> (data, [], False))"

definition is_fence :: "string \<Rightarrow> bool" where
  "is_fence line \<longleftrightarrow> trim_suffix [carriage] line = ''---''"

lemma first_line_less:
  "first_line s = (line, after, nl) \<Longrightarrow> s \<noteq> [] \<Longrightarrow> length after < length s"
  by (auto simp: first_line_def split: option.splits)

text \<open>The scan for the closing fence; \<open>pos\<close> is the length of the interior so far.\<close>

function split_scan :: "string \<Rightarrow> nat \<Rightarrow> string \<Rightarrow> (string \<times> string) option" where
  "split_scan rest pos remaining =
     (if remaining = [] then None
      else
        let (line, after, _) = first_line remaining in
        if is_fence line then Some (take pos rest, after)
        else split_scan rest (pos + (length remaining - length after)) after)"
  by pat_completeness auto
termination
  by (relation "measure (\<lambda>(rest, pos, remaining). length remaining)")
    (auto simp: first_line_less [OF sym])

declare split_scan.simps [simp del]

definition split_fence :: "string \<Rightarrow> string \<times> string \<times> bool" where
  "split_fence data =
     (let (first, rest, ok) = first_line data in
      if \<not> ok \<or> \<not> is_fence first then ([], data, False)
      else case split_scan rest 0 rest of
             Some (interior, body) \<Rightarrow> (interior, body, True)
           | None \<Rightarrow> ([], data, False))"

definition compose :: "string \<Rightarrow> string \<Rightarrow> string" where
  "compose interior body = ''---'' @ [newline] @ interior @ ''---'' @ [newline] @ body"

section \<open>Parse and Serialize over the YAML codec\<close>

text \<open>
  What \<open>Serialize\<close> hands to \<open>yaml.Marshal\<close>: a plain value, a forced double-quoted
  scalar (\<open>quotedString\<close>), or a flow-style list (\<open>flowStrings\<close>).
\<close>

datatype yvalue = YPlain goval | YQuoted string | YFlow "string list"

record yaml =
  y_unmarshal :: "string \<Rightarrow> string + (goval \<times> goval) list"
  y_marshal :: "(string \<times> yvalue) list \<Rightarrow> string + string"

datatype parse_error = YamlError string | NotAList string

definition assign_list :: "string \<Rightarrow> goval \<Rightarrow> (string list \<Rightarrow> fm_model) \<Rightarrow> parse_error + fm_model" where
  "assign_list key v store = (case string_list v of Inl _ \<Rightarrow> Inl (NotAList key) | Inr xs \<Rightarrow> Inr (store xs))"

definition assign_builtin :: "fm_model \<Rightarrow> string \<Rightarrow> goval \<Rightarrow> parse_error + fm_model" where
  "assign_builtin m key v =
     (if key = key_id then Inr (m\<lparr>fm_id := as_scalar_string v\<rparr>)
      else if key = key_status then Inr (m\<lparr>fm_status := as_scalar_string v\<rparr>)
      else if key = key_changed then Inr (m\<lparr>fm_changed := as_scalar_string v\<rparr>)
      else if key = key_order then Inr (m\<lparr>fm_order := as_scalar_string v\<rparr>)
      else if key = key_created then Inr (m\<lparr>fm_created := as_scalar_string v\<rparr>)
      else if key = key_summary then Inr (m\<lparr>fm_summary := as_scalar_string v\<rparr>)
      else if key = key_depends then assign_list key v (\<lambda>xs. m\<lparr>fm_depends := xs\<rparr>)
      else if key = key_related then assign_list key v (\<lambda>xs. m\<lparr>fm_related := xs\<rparr>)
      else if key = key_tags then assign_list key v (\<lambda>xs. m\<lparr>fm_tags := xs\<rparr>)
      else if key = key_links then assign_list key v (\<lambda>xs. m\<lparr>fm_links := xs\<rparr>)
      else if key = key_status_conflict then assign_list key v (\<lambda>xs. m\<lparr>fm_status_conflict := xs\<rparr>)
      else Inr m)"

fun parse_items :: "fm_model \<Rightarrow> (goval \<times> goval) list \<Rightarrow> parse_error + fm_model" where
  "parse_items m [] = Inr m"
| "parse_items m ((k, v) # items) =
     (let key = sprint k in
      if \<not> is_builtin_key key then parse_items (m\<lparr>fm_custom := fm_custom m @ [(key, v)]\<rparr>) items
      else rbind (assign_builtin m key v) (\<lambda>m'. parse_items m' items))"

definition parse_fm :: "yaml \<Rightarrow> string \<Rightarrow> parse_error + fm_model" where
  "parse_fm Y interior =
     (case y_unmarshal Y interior of
        Inl e \<Rightarrow> Inl (YamlError e)
      | Inr items \<Rightarrow> parse_items empty_model items)"

definition list_item :: "string \<Rightarrow> string list \<Rightarrow> (string \<times> yvalue) list" where
  "list_item key xs = (if length xs = 0 then [] else [(key, YFlow xs)])"

definition string_item :: "string \<Rightarrow> string \<Rightarrow> (string \<times> yvalue) list" where
  "string_item key s = (if s \<noteq> [] then [(key, YPlain (VStr s))] else [])"

definition fm_items :: "fm_model \<Rightarrow> (string \<times> yvalue) list" where
  "fm_items m =
     [(key_id, YPlain (VStr (fm_id m))), (key_status, YPlain (VStr (fm_status m)))] @
     string_item key_changed (fm_changed m) @
     [(key_order, YQuoted (fm_order m))] @
     list_item key_depends (fm_depends m) @
     list_item key_related (fm_related m) @
     list_item key_tags (fm_tags m) @
     [(key_created, YPlain (VStr (fm_created m)))] @
     list_item key_links (fm_links m) @
     string_item key_summary (fm_summary m) @
     list_item key_status_conflict (fm_status_conflict m) @
     map (\<lambda>(k, v). (k, YPlain v)) (fm_custom m)"

definition serialize :: "yaml \<Rightarrow> fm_model \<Rightarrow> string + string" where
  "serialize Y m = y_marshal Y (fm_items m)"

section \<open>The fence, line by line\<close>

definition fence_chunk :: "string \<Rightarrow> bool" where
  "fence_chunk c \<longleftrightarrow> chunk_line c = ''---''"

text \<open>An interior that a fence can hold: complete lines, none of them a fence.\<close>

definition fence_free :: "string \<Rightarrow> bool" where
  "fence_free i \<longleftrightarrow> list_all (\<lambda>c. complete_line c \<and> \<not> fence_chunk c) (line_chunks i)"

definition scan_of_chunks :: "string list \<Rightarrow> string list \<Rightarrow> (string \<times> string) option" where
  "scan_of_chunks before cs =
     (case dropWhile (\<lambda>c. \<not> fence_chunk c) cs of
        [] \<Rightarrow> None
      | c # after \<Rightarrow> Some (concat (before @ takeWhile (\<lambda>c. \<not> fence_chunk c) cs), concat after))"

lemma scan_of_chunks_Cons:
  "scan_of_chunks before (c # cs) =
     (if fence_chunk c then Some (concat before, concat cs) else scan_of_chunks (before @ [c]) cs)"
  by (cases "dropWhile (\<lambda>c. \<not> fence_chunk c) cs") (simp_all add: scan_of_chunks_def del: dropWhile_eq_Nil_conv)

lemma first_line_complete: "newline \<notin> set l \<Longrightarrow> first_line ((l @ [newline]) @ rest) = (l, rest, True)"
  by (simp add: first_line_def)

lemma first_line_last: "newline \<notin> set s \<Longrightarrow> first_line s = (s, [], False)"
  by (simp add: first_line_def index_byte_None split: option.split)

lemma split_scan_Nil [simp]: "split_scan rest pos [] = None"
  by (simp add: split_scan.simps)

lemma split_scan_step:
  "s \<noteq> [] \<Longrightarrow> first_line s = (line, after, nl) \<Longrightarrow>
     split_scan rest pos s =
       (if is_fence line then Some (take pos rest, after)
        else split_scan rest (pos + (length s - length after)) after)"
  by (subst split_scan.simps) simp

lemma split_scan_chunks:
  "rest = concat before @ s \<Longrightarrow> split_scan rest (length (concat before)) s = scan_of_chunks before (line_chunks s)"
proof (induction "length s" arbitrary: s before rule: less_induct)
  case less
  show ?case
  proof (cases s rule: line_chunks_cases)
    case empty
    then show ?thesis by (simp add: scan_of_chunks_def)
  next
    case last
    with less(2) show ?thesis
      by (simp add: split_scan_step [OF _ first_line_last] scan_of_chunks_Cons fence_chunk_def is_fence_def
          chunk_line_last scan_of_chunks_def)
  next
    case (line l tail)
    have "split_scan rest (length (concat (before @ [l @ [newline]]))) tail =
        scan_of_chunks (before @ [l @ [newline]]) (line_chunks tail)"
      by (rule less(1)) (use line less(2) in simp_all)
    moreover have "s \<noteq> []" and "first_line s = (l, tail, True)"
      using first_line_complete [OF line(2), of tail] by (simp_all add: line(1))
    ultimately show ?thesis
      using less(2) line
      by (simp add: split_scan_step scan_of_chunks_Cons fence_chunk_def is_fence_def
          chunk_line_break [OF line(2)])
  qed
qed

text \<open>\<open>Split\<close> as a function of the lines.\<close>

lemma split_fence_chunks:
  "split_fence data =
     (case line_chunks data of
        [] \<Rightarrow> ([], data, False)
      | c # cs \<Rightarrow>
          if \<not> (complete_line c \<and> fence_chunk c) then ([], data, False)
          else (case scan_of_chunks [] cs of
                  Some (interior, body) \<Rightarrow> (interior, body, True)
                | None \<Rightarrow> ([], data, False)))"
proof (cases data rule: line_chunks_cases)
  case empty
  then show ?thesis by (simp add: split_fence_def first_line_last)
next
  case last
  then have "\<not> complete_line data" by (auto elim: complete_lineE)
  with last show ?thesis by (simp add: split_fence_def first_line_last)
next
  case (line l rest)
  have "first_line data = (l, rest, True)"
    using first_line_complete [OF line(2), of rest] by (simp add: line(1))
  moreover have "split_scan rest 0 rest = scan_of_chunks [] (line_chunks rest)"
    using split_scan_chunks [of rest "[]" rest] by simp
  ultimately show ?thesis
    using line(2,3)
    by (simp add: split_fence_def is_fence_def fence_chunk_def chunk_line_break complete_lineI)
qed

lemma fence_free_chunks: "list_all (\<lambda>c. complete_line c \<and> \<not> fence_chunk c) cs \<Longrightarrow> fence_free (concat cs)"
  using line_chunks_append [of cs "[]"] by (simp add: fence_free_def list_all_iff)

lemma fence_free_append: "fence_free i \<Longrightarrow> line_chunks (i @ s) = line_chunks i @ line_chunks s"
  using line_chunks_append [of "line_chunks i" s] by (simp add: fence_free_def list_all_iff)

lemma fence_line: "complete_line (''---'' @ [newline])" "fence_chunk (''---'' @ [newline])"
  by code_simp+

lemma compose_chunks:
  "fence_free i \<Longrightarrow>
     line_chunks (compose i b) = (''---'' @ [newline]) # line_chunks i @ (''---'' @ [newline]) # line_chunks b"
  using line_chunks_Cons [OF fence_line(1), of "i @ ''---'' @ [newline] @ b"]
    fence_free_append [of i "''---'' @ [newline] @ b"] line_chunks_Cons [OF fence_line(1), of b]
  by (simp add: compose_def)

lemma split_compose:
  assumes "fence_free interior"
  shows "split_fence (compose interior body) = (interior, body, True)"
proof -
  have free: "\<forall>c \<in> set (line_chunks interior). \<not> fence_chunk c"
    using assms by (simp add: fence_free_def list_all_iff)
  have "scan_of_chunks [] (line_chunks interior @ (''---'' @ [newline]) # line_chunks body) = Some (interior, body)"
    unfolding scan_of_chunks_def
    using free fence_line(2) by (simp add: dropWhile_append2 takeWhile_append2)
  then show ?thesis
    unfolding split_fence_chunks compose_chunks [OF assms] using fence_line by simp
qed

text \<open>What \<open>Compose\<close> writes, \<open>Split\<close> reads back: for an interior of complete lines none of which
  is a fence, and any body at all (a body with its own fences included), the two are inverse.\<close>

theorem split_compose_roundtrip:
  assumes "fence_free interior"
  shows "split_fence (compose interior body) = (interior, body, True)"
  by (rule split_compose [OF assms])

theorem split_compose_roundtrip_witness:
  "fence_free (''id: a'' @ [newline]) \<and>
   split_fence (compose (''id: a'' @ [newline]) ''---'') = (''id: a'' @ [newline], ''---'', True)"
proof -
  have f: "fence_free (''id: a'' @ [newline])" by code_simp
  show ?thesis using f split_compose_roundtrip [OF f] by simp
qed

text \<open>Nothing is lost by \<open>Split\<close>: on success the file is an opening fence line, the interior, a
  closing fence line and the body, byte for byte, the interior holds no fence line, and composing
  the two parts again gives a file that splits the same way; on failure the whole input is the body.\<close>

theorem split_fence_bytes:
  "case split_fence data of
     (interior, body, ok) \<Rightarrow>
       if ok then
         fence_free interior \<and>
         (\<exists>op cl. data = op @ interior @ cl @ body \<and> complete_line op \<and> fence_chunk op \<and> fence_chunk cl) \<and>
         split_fence (compose interior body) = (interior, body, True)
       else interior = [] \<and> body = data"
proof (cases "line_chunks data")
  case Nil
  then show ?thesis by (simp add: split_fence_chunks)
next
  case (Cons op cs)
  let ?free = "takeWhile (\<lambda>c. \<not> fence_chunk c) cs"
  have data: "data = op @ concat cs"
    using concat_line_chunks [of data] by (simp add: Cons)
  show ?thesis
  proof (cases "complete_line op \<and> fence_chunk op")
    case False
    then show ?thesis by (simp add: split_fence_chunks Cons)
  next
    case op: True
    show ?thesis
    proof (cases "dropWhile (\<lambda>c. \<not> fence_chunk c) cs")
      case Nil
      then show ?thesis
        using op by (simp add: split_fence_chunks Cons scan_of_chunks_def del: dropWhile_eq_Nil_conv)
    next
      case drop: (Cons cl after)
      then have cs: "cs = ?free @ cl # after" and cl: "fence_chunk cl"
        by (metis takeWhile_dropWhile_id) (metis drop hd_dropWhile list.sel(1) list.discI)
      from line_chunks_init [of data "op # ?free" cl after] Cons cs
      have "list_all complete_line ?free" by simp
      then have free: "fence_free (concat ?free)"
        by (intro fence_free_chunks) (auto simp: list_all_iff dest: set_takeWhileD)
      have "split_fence data = (concat ?free, concat after, True)"
        using op by (simp add: split_fence_chunks Cons scan_of_chunks_def drop)
      moreover have "data = op @ concat ?free @ cl @ concat after"
        using arg_cong [OF cs, of concat] by (simp add: data)
      ultimately show ?thesis
        using free op cl split_compose [OF free] by auto
    qed
  qed
qed

section \<open>Parse after Serialize\<close>

text \<open>
  What the codec promises for one document: a value it wrote, it reads back. A quoted
  scalar is read as a string, a flow list as a list of strings, a plain value as itself.
\<close>

fun decoded :: "yvalue \<Rightarrow> goval" where
  "decoded (YPlain v) = v"
| "decoded (YQuoted s) = VStr s"
| "decoded (YFlow ss) = VList (map VStr ss)"

definition yaml_round_trips :: "yaml \<Rightarrow> (string \<times> yvalue) list \<Rightarrow> bool" where
  "yaml_round_trips Y items \<longleftrightarrow>
     (case y_marshal Y items of
        Inl e \<Rightarrow> True
      | Inr text \<Rightarrow> y_unmarshal Y text = Inr (map (\<lambda>(k, v). (VStr k, decoded v)) items))"

abbreviation decode_items :: "(string \<times> yvalue) list \<Rightarrow> (goval \<times> goval) list" where
  "decode_items \<equiv> map (\<lambda>(k, v). (VStr k, decoded v))"

lemma parse_items_append:
  "parse_items m (xs @ ys) = rbind (parse_items m xs) (\<lambda>m'. parse_items m' ys)"
proof (induction xs arbitrary: m)
  case (Cons x xs)
  then show ?case by (cases x) (simp add: Let_def rbind_assoc)
qed simp

lemma parse_items_custom:
  "list_all (\<lambda>(k, v). \<not> is_builtin_key k) cs \<Longrightarrow>
     parse_items m (decode_items (map (\<lambda>(k, v). (k, YPlain v)) cs)) = Inr (m\<lparr>fm_custom := fm_custom m @ cs\<rparr>)"
  by (induction cs arbitrary: m) auto

lemma parse_items_builtin:
  "is_builtin_key k \<Longrightarrow> assign_builtin m k (decoded v) = Inr m' \<Longrightarrow>
     parse_items m (decode_items [(k, v)]) = Inr m'"
  by simp

lemma builtin_key_intros [simp]:
  "is_builtin_key key_id" "is_builtin_key key_status" "is_builtin_key key_changed"
  "is_builtin_key key_order" "is_builtin_key key_depends" "is_builtin_key key_related"
  "is_builtin_key key_tags" "is_builtin_key key_created" "is_builtin_key key_links"
  "is_builtin_key key_summary" "is_builtin_key key_status_conflict"
  by (simp_all add: is_builtin_key_def builtin_keys_def)

lemma strings_of_flow [simp]: "string_list (VList (map VStr xs)) = Inr xs"
  by (simp add: string_list_def as_scalar_string_def comp_def)

text \<open>The effect of reading one written entry on the model.\<close>

lemma parse_scalar_items:
  "parse_items m (decode_items [(key_id, YPlain (VStr s))]) = Inr (m\<lparr>fm_id := s\<rparr>)"
  "parse_items m (decode_items [(key_status, YPlain (VStr s))]) = Inr (m\<lparr>fm_status := s\<rparr>)"
  "parse_items m (decode_items [(key_order, YQuoted s)]) = Inr (m\<lparr>fm_order := s\<rparr>)"
  "parse_items m (decode_items [(key_created, YPlain (VStr s))]) = Inr (m\<lparr>fm_created := s\<rparr>)"
  "fm_changed m = [] \<Longrightarrow>
     parse_items m (decode_items (string_item key_changed s)) = Inr (m\<lparr>fm_changed := s\<rparr>)"
  "fm_summary m = [] \<Longrightarrow>
     parse_items m (decode_items (string_item key_summary s)) = Inr (m\<lparr>fm_summary := s\<rparr>)"
  by (simp_all add: assign_builtin_def as_scalar_string_def string_item_def key_names
      is_builtin_key_def builtin_keys_def)

lemma parse_list_items:
  "fm_depends m = [] \<Longrightarrow> parse_items m (decode_items (list_item key_depends xs)) = Inr (m\<lparr>fm_depends := xs\<rparr>)"
  "fm_related m = [] \<Longrightarrow> parse_items m (decode_items (list_item key_related xs)) = Inr (m\<lparr>fm_related := xs\<rparr>)"
  "fm_tags m = [] \<Longrightarrow> parse_items m (decode_items (list_item key_tags xs)) = Inr (m\<lparr>fm_tags := xs\<rparr>)"
  "fm_links m = [] \<Longrightarrow> parse_items m (decode_items (list_item key_links xs)) = Inr (m\<lparr>fm_links := xs\<rparr>)"
  "fm_status_conflict m = [] \<Longrightarrow>
     parse_items m (decode_items (list_item key_status_conflict xs)) = Inr (m\<lparr>fm_status_conflict := xs\<rparr>)"
  by (simp_all add: assign_builtin_def assign_list_def list_item_def key_names
      is_builtin_key_def builtin_keys_def)

lemma parse_head:
  "parse_items m (decode_items xs) = Inr m' \<Longrightarrow>
     parse_items m (decode_items (xs @ ys)) = parse_items m' (decode_items ys)"
  by (simp add: parse_items_append)

lemmas parse_heads = parse_scalar_items [THEN parse_head] parse_list_items [THEN parse_head]

lemma parse_written_items:
  assumes "list_all (\<lambda>(k, v). \<not> is_builtin_key k) (fm_custom m)"
  shows "parse_items empty_model (decode_items (fm_items m)) = Inr m"
proof -
  have items: "fm_items m =
     [(key_id, YPlain (VStr (fm_id m)))] @ [(key_status, YPlain (VStr (fm_status m)))] @
     string_item key_changed (fm_changed m) @ [(key_order, YQuoted (fm_order m))] @
     list_item key_depends (fm_depends m) @ list_item key_related (fm_related m) @
     list_item key_tags (fm_tags m) @ [(key_created, YPlain (VStr (fm_created m)))] @
     list_item key_links (fm_links m) @ string_item key_summary (fm_summary m) @
     list_item key_status_conflict (fm_status_conflict m) @
     map (\<lambda>(k, v). (k, YPlain v)) (fm_custom m)"
    by (simp add: fm_items_def)
  show ?thesis
    unfolding items empty_model_def
    by (simp only: parse_heads parse_items_custom [OF assms] fm_model.simps) simp
qed

text \<open>C36. \<open>Parse\<close> reads back what \<open>Serialize\<close> wrote: wherever the YAML codec returns the entries it was
  given, every field of the model survives, empty lists and absent optional strings included,
  and the custom fields keep their order.\<close>

theorem parse_serialize_roundtrip:
  assumes "yaml_round_trips Y (fm_items m)"
    and "list_all (\<lambda>(k, v). \<not> is_builtin_key k) (fm_custom m)"
    and "serialize Y m = Inr text"
  shows "parse_fm Y text = Inr m"
  using assms parse_written_items [OF assms(2)]
  by (simp add: yaml_round_trips_def serialize_def parse_fm_def)

definition sample_model :: fm_model where
  "sample_model = empty_model\<lparr>fm_id := ''app-ab'', fm_status := ''todo'', fm_tags := [''x'', ''y''],
     fm_custom := [(''effort'', VInt 3)]\<rparr>"

definition sample_codec :: yaml where
  "sample_codec =
     \<lparr>y_unmarshal = (\<lambda>text. if text = ''doc'' then Inr (decode_items (fm_items sample_model)) else Inl ''bad''),
      y_marshal = (\<lambda>items. if items = fm_items sample_model then Inr ''doc'' else Inl ''bad'')\<rparr>"

theorem parse_serialize_roundtrip_witness:
  "serialize sample_codec sample_model = Inr ''doc'' \<and> parse_fm sample_codec ''doc'' = Inr sample_model"
proof -
  have y: "yaml_round_trips sample_codec (fm_items sample_model)"
    by (simp add: yaml_round_trips_def sample_codec_def)
  have c: "list_all (\<lambda>(k, v). \<not> is_builtin_key k) (fm_custom sample_model)" by code_simp
  have s: "serialize sample_codec sample_model = Inr ''doc''"
    by (simp add: serialize_def sample_codec_def)
  show ?thesis using s parse_serialize_roundtrip [OF y c s] by simp
qed

end
