(* ===== verification/ScopeConfig.thy ===== *)
theory ScopeConfig
  imports Ids Statuses Frontmatter
begin

text \<open>
  A scope's \<open>tk.cue\<close>, \<open>internal/scopeconfig\<close>: the validated schema (\<open>scopeconfig.go\<close>),
  the hold and its reason (\<open>hold.go\<close>, with the hold lines of \<open>internal/token/token.go\<close>),
  and the edits of the declarations of the file (\<open>hold.go\<close>, \<open>fields.go\<close>, \<open>rename.go\<close>,
  \<open>autocommit.go\<close>). The CUE evaluator is not modelled: a \<open>cue_value\<close> holds what its lookups
  answer for one configuration. Parsing and formatting of the file are left out, an edit
  works on the list of top-level declarations.
\<close>

section \<open>The schema\<close>

definition field_string :: string where "field_string = ''string''"
definition field_int :: string where "field_int = ''int''"
definition field_bool :: string where "field_bool = ''bool''"
definition field_strings :: string where "field_strings = ''strings''"

lemmas field_types = field_string_def field_int_def field_bool_def field_strings_def

text \<open>\<open>Field\<close>: a nil \<open>Values\<close> slice (no enum) is \<open>None\<close>.\<close>

record field_decl =
  fd_type :: string
  fd_required :: bool
  fd_values :: "string list option"

record hold =
  hold_type :: string
  hold_reason :: string

record schema =
  sc_name :: string
  sc_auto_commit :: bool
  sc_hold :: "hold option"
  sc_statuses :: "category gomap"
  sc_fields :: "field_decl gomap"

text \<open>The methods that accept a nil \<open>*Schema\<close> take an option.\<close>

definition custom_statuses :: "schema option \<Rightarrow> category gomap" where
  "custom_statuses s = (case s of None \<Rightarrow> [] | Some sc \<Rightarrow> sc_statuses sc)"

definition schema_auto_commit :: "schema option \<Rightarrow> bool" where
  "schema_auto_commit s = (case s of None \<Rightarrow> False | Some sc \<Rightarrow> sc_auto_commit sc)"

definition status_known :: "schema option \<Rightarrow> string \<Rightarrow> bool" where
  "status_known s name = is_known name (custom_statuses s)"

definition status_terminal :: "schema option \<Rightarrow> string \<Rightarrow> bool" where
  "status_terminal s name = is_terminal name (custom_statuses s)"

definition schema_category :: "schema option \<Rightarrow> string \<Rightarrow> category option" where
  "schema_category s name = category_of name (custom_statuses s)"

definition schema_field :: "schema \<Rightarrow> string \<Rightarrow> field_decl option" where
  "schema_field s name = map_of (sc_fields s) name"

definition field_equal :: "field_decl \<Rightarrow> field_decl \<Rightarrow> bool" where
  "field_equal a b =
     (if fd_type a \<noteq> fd_type b \<or> fd_required a \<noteq> fd_required b then False
      else (case fd_values a of None \<Rightarrow> [] | Some v \<Rightarrow> v) = (case fd_values b of None \<Rightarrow> [] | Some v \<Rightarrow> v))"

section \<open>The required-field check\<close>

definition string_value_non_empty :: "goval \<Rightarrow> bool" where
  "string_value_non_empty v =
     (case v of
        VNil \<Rightarrow> False
      | VStr s \<Rightarrow> s \<noteq> []
      | _ \<Rightarrow> sprint v \<noteq> [] \<and> sprint v \<noteq> ''<nil>'')"

definition field_populated :: "field_decl \<Rightarrow> goval option \<Rightarrow> bool" where
  "field_populated f v =
     (case v of
        None \<Rightarrow> False
      | Some x \<Rightarrow>
          if fd_type f = field_string then string_value_non_empty x
          else if fd_type f = field_strings then (case string_list x of Inl _ \<Rightarrow> False | Inr xs \<Rightarrow> length xs > 0)
          else True)"

text \<open>\<open>byKey\<close> keeps the last of several custom fields with one key.\<close>

definition by_key :: "fm_model \<Rightarrow> string \<Rightarrow> goval option" where
  "by_key m = map_of (rev (fm_custom m))"

definition missing_required :: "schema option \<Rightarrow> fm_model option \<Rightarrow> string list" where
  "missing_required s m =
     (case (s, m) of
        (Some sc, Some fm) \<Rightarrow>
          sort (map fst (filter (\<lambda>(name, f). fd_required f \<and> \<not> field_populated f (by_key fm name)) (sc_fields sc)))
      | _ \<Rightarrow> [])"

section \<open>Holds\<close>

definition hold_off :: string where "hold_off = ''off''"
definition hold_soft :: string where "hold_soft = ''soft''"
definition hold_hard :: string where "hold_hard = ''hard''"

definition hold_of :: "schema option \<Rightarrow> hold option" where
  "hold_of s = (case s of None \<Rightarrow> None | Some sc \<Rightarrow> sc_hold sc)"

definition hold_label :: "schema option \<Rightarrow> string" where
  "hold_label s = (case hold_of s of Some h \<Rightarrow> hold_type h | None \<Rightarrow> hold_off)"

datatype hold_error = HoldError string hold

definition refuse_hard :: "string \<Rightarrow> schema option \<Rightarrow> hold_error option" where
  "refuse_hard scope s =
     (case hold_of s of
        Some h \<Rightarrow> if hold_type h = hold_hard then Some (HoldError scope h) else None
      | None \<Rightarrow> None)"

definition refuse_start :: "string \<Rightarrow> schema option \<Rightarrow> hold_error option" where
  "refuse_start scope s = (case hold_of s of Some h \<Rightarrow> Some (HoldError scope h) | None \<Rightarrow> None)"

section \<open>The hold reason\<close>

text \<open>
  The runes of a valid UTF-8 string, as \<open>utf8.ValidString\<close> and \<open>range\<close> see them: the
  lead byte fixes the number of bytes and the range of the second one, so surrogates,
  overlong forms and values above U+10FFFF are refused.
\<close>

abbreviation byte_at :: "char \<Rightarrow> int" where "byte_at c \<equiv> of_char c"

definition cont_byte :: "char \<Rightarrow> bool" where
  "cont_byte c \<longleftrightarrow> 128 \<le> byte_at c \<and> byte_at c < 192"

definition second_ok :: "int \<Rightarrow> char \<Rightarrow> bool" where
  "second_ok lead c =
     (cont_byte c \<and>
      (if lead = 224 then 160 \<le> byte_at c
       else if lead = 237 then byte_at c < 160
       else if lead = 240 then 144 \<le> byte_at c
       else if lead = 244 then byte_at c < 144
       else True))"

text \<open>\<open>utf8.DecodeRuneInString\<close> on a valid prefix: the rune and its width.\<close>

definition decode_rune :: "string \<Rightarrow> (int \<times> nat) option" where
  "decode_rune s =
     (case s of
        [] \<Rightarrow> None
      | a # t \<Rightarrow>
          let b0 = byte_at a in
          if b0 < 128 then Some (b0, 1)
          else if 194 \<le> b0 \<and> b0 < 224 \<and> length t \<ge> 1 \<and> second_ok b0 (t ! 0)
          then Some ((b0 - 192) * 64 + (byte_at (t ! 0) - 128), 2)
          else if 224 \<le> b0 \<and> b0 < 240 \<and> length t \<ge> 2 \<and> second_ok b0 (t ! 0) \<and> cont_byte (t ! 1)
          then Some ((b0 - 224) * 4096 + (byte_at (t ! 0) - 128) * 64 + (byte_at (t ! 1) - 128), 3)
          else if 240 \<le> b0 \<and> b0 < 245 \<and> length t \<ge> 3 \<and> second_ok b0 (t ! 0) \<and>
                  cont_byte (t ! 1) \<and> cont_byte (t ! 2)
          then Some ((b0 - 240) * 262144 + (byte_at (t ! 0) - 128) * 4096 +
                     (byte_at (t ! 1) - 128) * 64 + (byte_at (t ! 2) - 128), 4)
          else None)"

lemma decode_rune_width: "decode_rune s = Some (r, w) \<Longrightarrow> 0 < w \<and> w \<le> length s"
  by (cases s) (auto simp: decode_rune_def Let_def split: if_splits)

function utf8_runes :: "string \<Rightarrow> int list option" where
  "utf8_runes s =
     (if s = [] then Some []
      else case decode_rune s of
             None \<Rightarrow> None
           | Some (r, w) \<Rightarrow> map_option ((#) r) (utf8_runes (drop w s)))"
  by pat_completeness auto
termination
  by (relation "measure length") (auto dest!: decode_rune_width)

declare utf8_runes.simps [simp del]

abbreviation hold_reason_max_runes :: nat where "hold_reason_max_runes \<equiv> 200"

text \<open>\<open>unicode.IsControl\<close> (category Cc), and \<open>unicode.Bidi_Control\<close> with the line separators.\<close>

definition is_control :: "int \<Rightarrow> bool" where
  "is_control r \<longleftrightarrow> r < 32 \<or> 127 \<le> r \<and> r < 160"

definition is_line_or_bidi_control :: "int \<Rightarrow> bool" where
  "is_line_or_bidi_control r \<longleftrightarrow>
     r = 0x2028 \<or> r = 0x2029 \<or> r = 0x061C \<or> r = 0x200E \<or> r = 0x200F \<or>
     0x202A \<le> r \<and> r \<le> 0x202E \<or> 0x2066 \<le> r \<and> r \<le> 0x2069"

datatype reason_error = ReasonEmpty | ReasonNotUtf8 | ReasonTooLong nat | ReasonControl int

definition normalize_hold_reason :: "string \<Rightarrow> reason_error + string" where
  "normalize_hold_reason reason =
     (let trimmed = trim_space reason in
      if trimmed = [] then Inl ReasonEmpty
      else case utf8_runes trimmed of
        None \<Rightarrow> Inl ReasonNotUtf8
      | Some runes \<Rightarrow>
          if length runes > hold_reason_max_runes then Inl (ReasonTooLong (length runes))
          else case find (\<lambda>r. is_control r \<or> is_line_or_bidi_control r) runes of
                 Some r \<Rightarrow> Inl (ReasonControl r)
               | None \<Rightarrow> Inr trimmed)"

text \<open>The hold lines of \<open>token.go\<close>.\<close>

definition token_line :: "string \<Rightarrow> string \<Rightarrow> string" where
  "token_line tok msg = tok @ '' '' @ msg"

definition scope_hold_token :: string where "scope_hold_token = ''scope_hold:''"

definition scope_hold_sentence :: "string \<Rightarrow> string \<Rightarrow> string" where
  "scope_hold_sentence holdType reason =
     (let sentence = (if holdType = hold_hard then ''Hard hold: all work is stopped.''
                      else ''Soft hold: do not start new implementation.'') in
      if reason = [] then sentence else sentence @ '' Reason: '' @ reason)"

definition format_scope_hold :: "string \<Rightarrow> string \<Rightarrow> string" where
  "format_scope_hold holdType reason = token_line scope_hold_token (scope_hold_sentence holdType reason)"

record hold_row =
  hr_scope :: string
  hr_type :: string
  hr_reason :: string

definition hold_row_line :: "hold_row \<Rightarrow> string" where
  "hold_row_line r =
     (let reason = (if hr_reason r = [] then ''no reason given'' else hr_reason r) in
      ''  '' @ hr_scope r @ '': '' @ hr_type r @ '': '' @ reason)"

definition format_scope_holds :: "hold_row list \<Rightarrow> string" where
  "format_scope_holds rows =
     (if length rows = 0 then []
      else go_join [newline]
             (token_line scope_hold_token ''Holds on the following scopes:'' #
              map hold_row_line (sort_key hr_scope rows)))"

section \<open>Validation of an evaluated configuration\<close>

record raw_field =
  rf_type :: string
  rf_required :: "bool option"
  rf_values :: "string list"

record raw_config =
  rc_name :: string
  rc_auto_commit :: "bool option"
  rc_statuses :: "string gomap"
  rc_fields :: "raw_field gomap"

text \<open>
  What the lookups on the CUE value answer. A string lookup is absent, not concrete, a
  string, or of another kind; \<open>hold\<close> is absent, only an optional field, not concrete, a
  bool, a struct with its selectors in order, or of another kind.
\<close>

datatype cue_string = CueAbsent | CueAbstract | CueText string | CueNotText

datatype cue_selector = Label string | NoLabel string

datatype cue_hold =
    CueNoHold
  | CueOptionalHold
  | CueAbstractHold
  | CueBoolHold "string + bool"
  | CueStructHold "string + cue_selector list" cue_string cue_string
  | CueOtherHold

record cue_value =
  cv_err :: "string option"
  cv_decode :: "string + raw_config"
  cv_has_enum :: "string \<Rightarrow> bool"
  cv_hold :: cue_hold

datatype field_error =
    FieldName string
  | FieldShadows string
  | FieldReserved string string
  | FieldType string string
  | FieldEnumType string string
  | FieldEnumDuplicate string string

datatype config_reason =
    CueFault string
  | BadScopeName string
  | AutoCommitRequired
  | StatusName string
  | StatusBuiltin string
  | StatusCategory string string
  | BadField field_error
  | HoldNotRegular
  | HoldNotConcrete
  | HoldFault string
  | HoldNotStruct
  | HoldUnsupportedKey string
  | HoldUnknownKey string
  | HoldTypeMissing
  | HoldTypeWrong
  | HoldReasonAbstract
  | HoldReasonNotString
  | HoldReasonBad reason_error

text \<open>The regular expressions \<open>statusNameRe\<close> and \<open>fieldNameRe\<close>.\<close>

definition is_lower :: "char \<Rightarrow> bool" where
  "is_lower c \<longleftrightarrow> CHR ''a'' \<le> c \<and> c \<le> CHR ''z''"

definition is_dec_digit :: "char \<Rightarrow> bool" where
  "is_dec_digit c \<longleftrightarrow> CHR ''0'' \<le> c \<and> c \<le> CHR ''9''"

definition name_matches :: "char \<Rightarrow> string \<Rightarrow> bool" where
  "name_matches joint s =
     (case s of
        [] \<Rightarrow> False
      | c # cs \<Rightarrow> is_lower c \<and> length cs \<le> 31 \<and> list_all (\<lambda>x. is_lower x \<or> is_dec_digit x \<or> x = joint) cs)"

definition status_name_re :: "string \<Rightarrow> bool" where "status_name_re = name_matches CHR ''-''"
definition field_name_re :: "string \<Rightarrow> bool" where "field_name_re = name_matches CHR ''_''"

text \<open>The first name that occurs twice in the enum.\<close>

fun first_dup :: "string set \<Rightarrow> string list \<Rightarrow> string option" where
  "first_dup seen [] = None"
| "first_dup seen (v # vs) = (if v \<in> seen then Some v else first_dup (insert v seen) vs)"

definition field_from_raw :: "string \<Rightarrow> raw_field \<Rightarrow> bool \<Rightarrow> field_error + field_decl" where
  "field_from_raw name f hasEnum =
     (if \<not> field_name_re name then Inl (FieldName name)
      else if is_builtin_key name then Inl (FieldShadows name)
      else case meta_key_alias_target name of
        Some wire \<Rightarrow> Inl (FieldReserved name wire)
      | None \<Rightarrow>
          if rf_type f \<notin> {field_string, field_int, field_bool, field_strings} then Inl (FieldType name (rf_type f))
          else if hasEnum \<and> rf_type f \<noteq> field_string \<and> rf_type f \<noteq> field_strings
          then Inl (FieldEnumType name (rf_type f))
          else case (if hasEnum then first_dup {} (rf_values f) else None) of
            Some v \<Rightarrow> Inl (FieldEnumDuplicate name v)
          | None \<Rightarrow>
              Inr \<lparr>fd_type = rf_type f,
                   fd_required = (case rf_required f of Some r \<Rightarrow> r | None \<Rightarrow> False),
                   fd_values = (if hasEnum then Some (rf_values f) else None)\<rparr>)"

definition validate_field_decl :: "string \<Rightarrow> field_decl \<Rightarrow> field_error + unit" where
  "validate_field_decl name f =
     (let hasEnum = (fd_values f \<noteq> None);
          raw = \<lparr>rf_type = fd_type f, rf_required = (if fd_required f then Some True else None),
                 rf_values = (case fd_values f of Some vs \<Rightarrow> vs | None \<Rightarrow> [])\<rparr> in
      rbind (field_from_raw name raw hasEnum) (\<lambda>_. Inr ()))"

fun validate_statuses :: "string gomap \<Rightarrow> config_reason + category gomap" where
  "validate_statuses [] = Inr []"
| "validate_statuses ((name, cat) # raw) =
     (if \<not> status_name_re name then Inl (StatusName name)
      else if is_builtin name then Inl (StatusBuiltin name)
      else if \<not> valid_category cat then Inl (StatusCategory name cat)
      else rbind (validate_statuses raw) (\<lambda>out. Inr ((name, cat) # out)))"

fun validate_fields :: "(string \<Rightarrow> bool) \<Rightarrow> raw_field gomap \<Rightarrow> config_reason + field_decl gomap" where
  "validate_fields hasEnum [] = Inr []"
| "validate_fields hasEnum ((name, f) # raw) =
     (case field_from_raw name f (hasEnum name) of
        Inl e \<Rightarrow> Inl (BadField e)
      | Inr field \<Rightarrow> rbind (validate_fields hasEnum raw) (\<lambda>out. Inr ((name, field) # out)))"

fun check_hold_keys :: "cue_selector list \<Rightarrow> config_reason + unit" where
  "check_hold_keys [] = Inr ()"
| "check_hold_keys (NoLabel sel # sels) = Inl (HoldUnsupportedKey sel)"
| "check_hold_keys (Label name # sels) =
     (if name \<noteq> ''type'' \<and> name \<noteq> ''reason'' then Inl (HoldUnknownKey name) else check_hold_keys sels)"

definition decode_hold_struct ::
    "string + cue_selector list \<Rightarrow> cue_string \<Rightarrow> cue_string \<Rightarrow> config_reason + hold option" where
  "decode_hold_struct flds typeValue reasonValue =
     (case flds of
        Inl err \<Rightarrow> Inl (HoldFault err)
      | Inr sels \<Rightarrow>
          rbind (check_hold_keys sels) (\<lambda>_.
          rbind (case typeValue of
                   CueAbsent \<Rightarrow> Inl HoldTypeMissing
                 | CueAbstract \<Rightarrow> Inl HoldTypeMissing
                 | CueNotText \<Rightarrow> Inl HoldTypeWrong
                 | CueText t \<Rightarrow> if t \<noteq> hold_soft \<and> t \<noteq> hold_hard then Inl HoldTypeWrong else Inr t) (\<lambda>holdType.
            case reasonValue of
              CueAbsent \<Rightarrow> Inr (Some \<lparr>hold_type = holdType, hold_reason = []\<rparr>)
            | CueAbstract \<Rightarrow> Inl HoldReasonAbstract
            | CueNotText \<Rightarrow> Inl HoldReasonNotString
            | CueText reason \<Rightarrow>
                (case normalize_hold_reason reason of
                   Inl e \<Rightarrow> Inl (HoldReasonBad e)
                 | Inr r \<Rightarrow> Inr (Some \<lparr>hold_type = holdType, hold_reason = r\<rparr>)))))"

definition decode_hold :: "cue_hold \<Rightarrow> config_reason + hold option" where
  "decode_hold f =
     (case f of
        CueNoHold \<Rightarrow> Inr None
      | CueOptionalHold \<Rightarrow> Inl HoldNotRegular
      | CueAbstractHold \<Rightarrow> Inl HoldNotConcrete
      | CueBoolHold (Inl err) \<Rightarrow> Inl (HoldFault err)
      | CueBoolHold (Inr on) \<Rightarrow> Inr (if on then Some \<lparr>hold_type = hold_soft, hold_reason = []\<rparr> else None)
      | CueStructHold flds typeValue reasonValue \<Rightarrow> decode_hold_struct flds typeValue reasonValue
      | CueOtherHold \<Rightarrow> Inl HoldNotStruct)"

definition validate_config :: "cue_value \<Rightarrow> raw_config \<Rightarrow> config_reason + schema" where
  "validate_config v raw =
     (if \<not> is_scope_name (rc_name raw) then Inl (BadScopeName (rc_name raw))
      else case rc_auto_commit raw of
        None \<Rightarrow> Inl AutoCommitRequired
      | Some autoCommit \<Rightarrow>
          rbind (validate_statuses (rc_statuses raw)) (\<lambda>statuses.
          rbind (validate_fields (cv_has_enum v) (rc_fields raw)) (\<lambda>flds.
          rbind (decode_hold (cv_hold v)) (\<lambda>h.
            Inr \<lparr>sc_name = rc_name raw, sc_auto_commit = autoCommit, sc_hold = h,
                 sc_statuses = statuses, sc_fields = flds\<rparr>))))"

definition evaluate_config :: "cue_value \<Rightarrow> config_reason + schema" where
  "evaluate_config v =
     (case cv_err v of
        Some err \<Rightarrow> Inl (CueFault err)
      | None \<Rightarrow>
          (case cv_decode v of
             Inl err \<Rightarrow> Inl (CueFault err)
           | Inr raw \<Rightarrow> validate_config v raw))"

section \<open>Edits of the declarations\<close>

text \<open>
  A top-level declaration is a field with the name its label denotes, or another node. A
  value is a struct of declarations, a scalar or list literal, or another expression, kept
  as its text.
\<close>

datatype cue_decl = CField string cue_expr | COther string
     and cue_expr = EStruct "cue_decl list" | EString string | EBool bool | EList "cue_expr list" | EOther string

fun decl_name :: "cue_decl \<Rightarrow> string" where
  "decl_name (CField name v) = name"
| "decl_name (COther t) = []"

fun is_field :: "cue_decl \<Rightarrow> bool" where
  "is_field (CField name v) = True"
| "is_field (COther t) = False"

text \<open>\<open>RewriteName\<close> and \<open>RewriteAutoCommit\<close>: the first field of that name.\<close>

fun set_first :: "string \<Rightarrow> cue_expr \<Rightarrow> cue_decl list \<Rightarrow> cue_decl list option" where
  "set_first name v [] = None"
| "set_first name v (d # ds) =
     (if is_field d \<and> decl_name d = name then Some (CField name v # ds)
      else map_option ((#) d) (set_first name v ds))"

datatype edit_error =
    IllegalName string
  | NoNameField
  | NoAutoCommitField
  | BadDecl field_error
  | FieldsNotStruct
  | EmptyFieldName
  | FieldNotDeclared string

definition rewrite_name :: "string \<Rightarrow> cue_decl list \<Rightarrow> edit_error + cue_decl list" where
  "rewrite_name newName decls =
     (if \<not> is_scope_name newName then Inl (IllegalName newName)
      else case set_first ''name'' (EString newName) decls of
             None \<Rightarrow> Inl NoNameField
           | Some ds \<Rightarrow> Inr ds)"

definition rewrite_auto_commit :: "bool \<Rightarrow> cue_decl list \<Rightarrow> edit_error + cue_decl list" where
  "rewrite_auto_commit autoCommit decls =
     (case set_first ''autoCommit'' (EBool autoCommit) decls of
        None \<Rightarrow> Inl NoAutoCommitField
      | Some ds \<Rightarrow> Inr ds)"

definition hold_literal :: "hold \<Rightarrow> cue_expr" where
  "hold_literal h =
     EStruct ([CField ''type'' (EString (hold_type h))] @
              (if hold_reason h \<noteq> [] then [CField ''reason'' (EString (hold_reason h))] else []))"

text \<open>The loop of \<open>RewriteHold\<close>: the declarations kept so far, whether the hold is placed, \<open>insertAt\<close>.\<close>

fun rewrite_hold_loop ::
    "hold option \<Rightarrow> cue_decl list \<Rightarrow> cue_decl list \<Rightarrow> bool \<Rightarrow> nat option \<Rightarrow> cue_decl list \<times> bool \<times> nat option" where
  "rewrite_hold_loop h [] decls placed insertAt = (decls, placed, insertAt)"
| "rewrite_hold_loop h (d # ds) decls placed insertAt =
     (let name = decl_name d in
      if name = ''hold'' \<and> (h = None \<or> placed) then rewrite_hold_loop h ds decls placed insertAt
      else
        let d' = (if name = ''hold'' then CField ''hold'' (hold_literal (the h)) else d);
            decls' = decls @ [d'];
            insertAt' = (if name = ''autoCommit'' then Some (length decls') else insertAt) in
        rewrite_hold_loop h ds decls' (placed \<or> name = ''hold'') insertAt')"

definition rewrite_hold :: "hold option \<Rightarrow> cue_decl list \<Rightarrow> cue_decl list" where
  "rewrite_hold h file =
     (case rewrite_hold_loop h file [] False None of
        (decls, placed, insertAt) \<Rightarrow>
          (case h of
             None \<Rightarrow> decls
           | Some hh \<Rightarrow>
               if placed then decls
               else let added = CField ''hold'' (hold_literal hh) in
                    (case insertAt of
                       Some i \<Rightarrow> take i decls @ [added] @ drop i decls
                     | None \<Rightarrow> decls @ [added])))"

definition field_decl_ast :: "field_decl \<Rightarrow> cue_expr" where
  "field_decl_ast f =
     EStruct ([CField ''type'' (EString (fd_type f))] @
              (if fd_required f then [CField ''required'' (EBool True)] else []) @
              (case fd_values f of
                 None \<Rightarrow> []
               | Some vs \<Rightarrow> [CField ''values'' (EList (map EString vs))]))"

text \<open>\<open>findFieldsStruct\<close> answers the index of the field too, so that an edit can write it back.\<close>

fun find_fields_struct :: "cue_decl list \<Rightarrow> edit_error + (nat \<times> cue_decl list) option" where
  "find_fields_struct [] = Inr None"
| "find_fields_struct (d # ds) =
     (case d of
        CField name v \<Rightarrow>
          if name \<noteq> ''fields'' then rbind (find_fields_struct ds) (\<lambda>r. Inr (map_option (\<lambda>(i, es). (Suc i, es)) r))
          else (case v of EStruct elts \<Rightarrow> Inr (Some (0, elts)) | _ \<Rightarrow> Inl FieldsNotStruct)
      | COther t \<Rightarrow> rbind (find_fields_struct ds) (\<lambda>r. Inr (map_option (\<lambda>(i, es). (Suc i, es)) r)))"

fun replace_or_append_field :: "string \<Rightarrow> cue_expr \<Rightarrow> cue_decl list \<Rightarrow> cue_decl list" where
  "replace_or_append_field name v [] = [CField name v]"
| "replace_or_append_field name v (e # es) =
     (if is_field e \<and> decl_name e = name then CField name v # es
      else e # replace_or_append_field name v es)"

definition set_field :: "string \<Rightarrow> field_decl \<Rightarrow> cue_decl list \<Rightarrow> edit_error + cue_decl list" where
  "set_field name f file =
     (case validate_field_decl name f of
        Inl e \<Rightarrow> Inl (BadDecl e)
      | Inr _ \<Rightarrow>
          rbind (find_fields_struct file) (\<lambda>found.
            case found of
              None \<Rightarrow> Inr (file @ [CField ''fields'' (EStruct [CField name (field_decl_ast f)])])
            | Some (i, elts) \<Rightarrow>
                Inr (file[i := CField ''fields'' (EStruct (replace_or_append_field name (field_decl_ast f) elts))])))"

definition remove_top_level_field :: "string \<Rightarrow> cue_decl list \<Rightarrow> cue_decl list" where
  "remove_top_level_field name decls = filter (\<lambda>d. \<not> (is_field d \<and> decl_name d = name)) decls"

definition unset_field :: "string \<Rightarrow> cue_decl list \<Rightarrow> edit_error + cue_decl list" where
  "unset_field name file =
     (if name = [] then Inl EmptyFieldName
      else rbind (find_fields_struct file) (\<lambda>found.
        case found of
          None \<Rightarrow> Inl (FieldNotDeclared name)
        | Some (i, elts) \<Rightarrow>
            (let out = remove_top_level_field name elts in
             if \<not> (\<exists>e \<in> set elts. is_field e \<and> decl_name e = name) then Inl (FieldNotDeclared name)
             else if length (filter is_field out) = 0 then Inr (remove_top_level_field ''fields'' file)
             else Inr (file[i := CField ''fields'' (EStruct out)]))))"

section \<open>A validated schema\<close>

definition field_ok :: "string \<Rightarrow> field_decl \<Rightarrow> bool" where
  "field_ok name f \<longleftrightarrow>
     field_name_re name \<and> \<not> is_builtin_key name \<and> meta_key_alias_target name = None \<and>
     fd_type f \<in> {field_string, field_int, field_bool, field_strings} \<and>
     (case fd_values f of
        None \<Rightarrow> True
      | Some vs \<Rightarrow> distinct vs \<and> (fd_type f = field_string \<or> fd_type f = field_strings))"

definition hold_ok :: "hold \<Rightarrow> bool" where
  "hold_ok h \<longleftrightarrow>
     (hold_type h = hold_soft \<or> hold_type h = hold_hard) \<and>
     (hold_reason h = [] \<or> normalize_hold_reason (hold_reason h) = Inr (hold_reason h))"

definition schema_ok :: "schema \<Rightarrow> bool" where
  "schema_ok s \<longleftrightarrow>
     is_scope_name (sc_name s) \<and>
     custom_ok (sc_statuses s) \<and>
     list_all (\<lambda>(name, cat). status_name_re name \<and> valid_category cat) (sc_statuses s) \<and>
     distinct (map fst (sc_fields s)) \<and>
     list_all (\<lambda>(name, f). field_ok name f) (sc_fields s) \<and>
     (case sc_hold s of None \<Rightarrow> True | Some h \<Rightarrow> hold_ok h)"

lemma first_dup_None: "first_dup seen vs = None \<longleftrightarrow> distinct vs \<and> set vs \<inter> seen = {}"
  by (induction vs arbitrary: seen) auto

lemma first_dup_SomeD: "first_dup {} vs = Some v \<Longrightarrow> \<not> distinct vs"
  using first_dup_None [of "{}" vs] by auto

lemma find_SomeD: "find P xs = Some x \<Longrightarrow> P x \<and> x \<in> set xs"
  by (auto simp: find_Some_iff)

lemma field_from_raw_ok:
  assumes "field_from_raw name f e = Inr d"
  shows "field_ok name d"
  using assms
  by (auto simp: field_from_raw_def field_ok_def first_dup_None split: if_splits option.splits)

text \<open>A declaration is accepted exactly when it obeys the rules of the schema.\<close>

lemma validate_field_decl_iff: "validate_field_decl name f = Inr () \<longleftrightarrow> field_ok name f"
proof
  assume "validate_field_decl name f = Inr ()"
  then obtain d where d: "field_from_raw name
      \<lparr>rf_type = fd_type f, rf_required = (if fd_required f then Some True else None),
        rf_values = (case fd_values f of Some vs \<Rightarrow> vs | None \<Rightarrow> [])\<rparr> (fd_values f \<noteq> None) = Inr d"
    by (auto simp: validate_field_decl_def rbind_Inr_iff Let_def)
  have "fd_type d = fd_type f \<and> fd_values d = fd_values f"
    using d by (cases "fd_values f") (auto simp: field_from_raw_def split: if_splits option.splits)
  with field_from_raw_ok [OF d] show "field_ok name f" unfolding field_ok_def by (cases "fd_values f") simp_all
next
  assume "field_ok name f"
  then show "validate_field_decl name f = Inr ()"
    by (cases "fd_values f")
      (auto simp: field_ok_def validate_field_decl_def field_from_raw_def Let_def first_dup_None
        split: option.split dest: first_dup_SomeD)
qed

lemma normalize_hold_reason_Inr:
  "normalize_hold_reason reason = Inr t \<longleftrightarrow>
     t = trim_space reason \<and> t \<noteq> [] \<and>
     (\<exists>runes. utf8_runes t = Some runes \<and> length runes \<le> hold_reason_max_runes \<and>
        list_all (\<lambda>r. \<not> is_control r \<and> \<not> is_line_or_bidi_control r) runes)"
  by (auto simp: normalize_hold_reason_def Let_def find_None_iff list_all_iff split: option.splits if_splits dest!: find_SomeD)

lemma normalize_hold_reason_idem: "normalize_hold_reason reason = Inr t \<Longrightarrow> normalize_hold_reason t = Inr t"
  by (auto simp: normalize_hold_reason_Inr)

lemma decode_hold_struct_ok:
  assumes "decode_hold_struct flds tv rv = Inr (Some h)"
  shows "hold_ok h"
  using assms
  by (cases flds; cases tv; cases rv)
    (auto simp: decode_hold_struct_def hold_ok_def rbind_Inr_iff normalize_hold_reason_idem
      split: if_splits sum.splits)

lemma decode_hold_ok:
  assumes "decode_hold f = Inr (Some h)"
  shows "hold_ok h"
proof (cases f)
  case (CueBoolHold b)
  with assms show ?thesis by (cases b) (auto simp: decode_hold_def hold_ok_def split: if_splits)
qed (use assms in \<open>auto simp: decode_hold_def decode_hold_struct_ok\<close>)

lemma validate_statuses_Inr:
  "validate_statuses raw = Inr out \<longleftrightarrow>
     out = raw \<and> list_all (\<lambda>(name, cat). status_name_re name \<and> \<not> is_builtin name \<and> valid_category cat) raw"
proof (induction raw arbitrary: out)
  case (Cons x raw)
  then show ?case by (cases x) (auto simp: rbind_Inr_iff)
qed auto

lemma validate_fields_Inr:
  "validate_fields e raw = Inr out \<Longrightarrow> map fst out = map fst raw \<and> list_all (\<lambda>(name, f). field_ok name f) out"
proof (induction raw arbitrary: out)
  case (Cons x raw)
  obtain n f where x: "x = (n, f)" by (cases x)
  with Cons.prems show ?case
    by (auto simp: rbind_Inr_iff field_from_raw_ok Cons.IH split: sum.splits dest: Cons.IH)
qed simp

text \<open>C37. A \<open>tk.cue\<close> that \<open>Evaluate\<close> accepts gives a well-formed schema: a legal scope name, custom
  statuses of legal names outside the built-ins and with a known category, fields outside the
  front-matter keys and their aliases, enums without duplicates and only on string types, a hold
  of a known type whose reason is already in normal form.\<close>

theorem evaluate_config_ok:
  assumes "evaluate_config v = Inr sc"
    and "cv_decode v = Inr raw" and "distinct (map fst (rc_statuses raw))" and "distinct (map fst (rc_fields raw))"
  shows "schema_ok sc"
proof -
  obtain ac h out flds where steps: "is_scope_name (rc_name raw)" "rc_auto_commit raw = Some ac"
      "validate_statuses (rc_statuses raw) = Inr out"
      "validate_fields (cv_has_enum v) (rc_fields raw) = Inr flds" "decode_hold (cv_hold v) = Inr h"
    and sc: "sc = \<lparr>sc_name = rc_name raw, sc_auto_commit = ac, sc_hold = h, sc_statuses = out, sc_fields = flds\<rparr>"
    using assms(1,2)
    by (auto simp: evaluate_config_def validate_config_def rbind_Inr_iff split: option.splits if_splits)
  from steps(3) have out: "out = rc_statuses raw"
      "list_all (\<lambda>(name, cat). status_name_re name \<and> \<not> is_builtin name \<and> valid_category cat) out"
    by (simp_all add: validate_statuses_Inr)
  have hold: "case h of None \<Rightarrow> True | Some x \<Rightarrow> hold_ok x"
    using steps(5) decode_hold_ok by (cases h) auto
  have "custom_ok out" using out assms(3) by (auto simp: custom_ok_def list_all_iff)
  moreover have "list_all (\<lambda>(name, cat). status_name_re name \<and> valid_category cat) out"
    using out by (auto simp: list_all_iff)
  ultimately show ?thesis
    using steps(1) validate_fields_Inr [OF steps(4)] assms(4) hold by (simp add: sc schema_ok_def)
qed

definition sample_config :: cue_value where
  "sample_config =
     \<lparr>cv_err = None,
      cv_decode = Inr \<lparr>rc_name = ''app'', rc_auto_commit = Some True, rc_statuses = [(''parked'', ''backlog'')],
                       rc_fields = [(''size'', \<lparr>rf_type = ''string'', rf_required = Some True, rf_values = [''s'', ''m'']\<rparr>)]\<rparr>,
      cv_has_enum = (\<lambda>n. n = ''size''),
      cv_hold = CueStructHold (Inr [Label ''type'', Label ''reason'']) (CueText ''hard'') (CueText '' freeze '')\<rparr>"

definition sample_schema :: schema where
  "sample_schema =
     \<lparr>sc_name = ''app'', sc_auto_commit = True, sc_hold = Some \<lparr>hold_type = ''hard'', hold_reason = ''freeze''\<rparr>,
      sc_statuses = [(''parked'', ''backlog'')],
      sc_fields = [(''size'', \<lparr>fd_type = ''string'', fd_required = True, fd_values = Some [''s'', ''m'']\<rparr>)]\<rparr>"

theorem evaluate_config_ok_witness: "evaluate_config sample_config = Inr sample_schema \<and> schema_ok sample_schema"
proof -
  have e: "evaluate_config sample_config = Inr sample_schema" by code_simp
  have d: "cv_decode sample_config = Inr (projr (cv_decode sample_config))"
    by (simp add: sample_config_def)
  have s: "distinct (map fst (rc_statuses (projr (cv_decode sample_config))))"
    and f: "distinct (map fst (rc_fields (projr (cv_decode sample_config))))" by code_simp+
  show ?thesis by (rule conjI [OF e evaluate_config_ok [OF e d s f]])
qed

section \<open>Hold reasons cannot forge a line\<close>

lemma cont_bytes: "second_ok b c \<Longrightarrow> 128 \<le> byte_at c" "cont_byte c \<Longrightarrow> 128 \<le> byte_at c"
  by (auto simp: second_ok_def cont_byte_def)

lemma take_nths:
  "1 \<le> length t \<Longrightarrow> take 2 (a # t) = [a, t ! 0]"
  "2 \<le> length t \<Longrightarrow> take 3 (a # t) = [a, t ! 0, t ! 1]"
  "3 \<le> length t \<Longrightarrow> take 4 (a # t) = [a, t ! 0, t ! 1, t ! 2]"
  by (cases t; cases "tl t"; cases "tl (tl t)"; simp)+

text \<open>A rune below 128 is one byte, and no other rune contains such a byte.\<close>

lemma decode_rune_ascii:
  assumes "decode_rune s = Some (r, w)" and "c \<in> set (take w s)" and "byte_at c < 128"
  shows "byte_at c = r"
proof (cases s)
  case (Cons a t)
  let ?b = "byte_at a"
  note d = assms(1) [unfolded Cons decode_rune_def list.case Let_def]
  consider (one) "r = ?b" "w = 1"
    | (two) "194 \<le> ?b" "1 \<le> length t" "second_ok ?b (t ! 0)" "w = 2"
    | (three) "194 \<le> ?b" "2 \<le> length t" "second_ok ?b (t ! 0)" "cont_byte (t ! 1)" "w = 3"
    | (four) "194 \<le> ?b" "3 \<le> length t" "second_ok ?b (t ! 0)" "cont_byte (t ! 1)" "cont_byte (t ! 2)" "w = 4"
    using d by (simp split: if_splits)
  then show ?thesis
  proof cases
    case one
    then show ?thesis using assms(2) Cons by simp
  next
    case two
    then show ?thesis
      using assms(2) [unfolded Cons two(4) take_nths(1) [OF two(2)]] assms(3) two(1)
        cont_bytes(1) [OF two(3)] by auto
  next
    case three
    then show ?thesis
      using assms(2) [unfolded Cons three(5) take_nths(2) [OF three(2)]] assms(3) three(1)
        cont_bytes(1) [OF three(3)] cont_bytes(2) [OF three(4)] by auto
  next
    case four
    then show ?thesis
      using assms(2) [unfolded Cons four(6) take_nths(3) [OF four(2)]] assms(3) four(1)
        cont_bytes(1) [OF four(3)] cont_bytes(2) [OF four(4)] cont_bytes(2) [OF four(5)] by auto
  qed
qed (use assms in simp)

lemma utf8_runes_ascii:
  "utf8_runes s = Some runes \<Longrightarrow> c \<in> set s \<Longrightarrow> byte_at c < 128 \<Longrightarrow> byte_at c \<in> set runes"
proof (induction s arbitrary: runes rule: utf8_runes.induct)
  case (1 s)
  from 1(3) have ne: "s \<noteq> []" by auto
  with 1(2) obtain r w rest where d: "decode_rune s = Some (r, w)" "utf8_runes (drop w s) = Some rest"
      "runes = r # rest"
    by (subst (asm) utf8_runes.simps) (auto split: option.splits)
  have "c \<in> set (take w s) \<or> c \<in> set (drop w s)"
    using 1(3) by (metis Un_iff append_take_drop_id set_append)
  then show ?case
    using decode_rune_ascii [OF d(1) _ 1(4)] 1(1) [OF ne d(1) refl d(2) _ 1(4)] d(3) by auto
qed

text \<open>A line of output: no newline, no carriage return.\<close>

definition one_line :: "string \<Rightarrow> bool" where
  "one_line s \<longleftrightarrow> newline \<notin> set s \<and> carriage \<notin> set s"

lemma normalized_printable:
  assumes "normalize_hold_reason reason = Inr t" and "c \<in> set t"
  shows "32 \<le> byte_at c \<and> byte_at c \<noteq> 127"
proof (cases "byte_at c < 128")
  case True
  from assms(1) obtain runes where r: "utf8_runes t = Some runes" "list_all (\<lambda>r. \<not> is_control r) runes"
    by (auto simp: normalize_hold_reason_Inr list_all_iff)
  from utf8_runes_ascii [OF r(1) assms(2) True] r(2) have "\<not> is_control (byte_at c)"
    by (auto simp: list_all_iff)
  then show ?thesis by (auto simp: is_control_def)
qed auto

lemma normalized_one_line:
  assumes "normalize_hold_reason reason = Inr t"
  shows "one_line t"
  using normalized_printable [OF assms, of newline] normalized_printable [OF assms, of carriage]
  by (auto simp: one_line_def)

text \<open>\<open>NormalizeHoldReason\<close> answers a normal form: normalising it again changes nothing, it is
  trimmed, not empty, valid UTF-8 of at most 200 runes, and no byte of it is a control
  character, so a reason cannot start a new line of output.\<close>

theorem hold_reason_normal:
  assumes "normalize_hold_reason reason = Inr t"
  shows "normalize_hold_reason t = Inr t \<and> trimmed t \<and> t \<noteq> [] \<and>
    (\<exists>runes. utf8_runes t = Some runes \<and> length runes \<le> hold_reason_max_runes) \<and>
    list_all (\<lambda>c. 32 \<le> byte_at c \<and> byte_at c \<noteq> 127) t"
  using assms normalized_printable [OF assms] trimmed_trim_space [of reason]
    normalize_hold_reason_idem [OF assms]
  by (auto simp: normalize_hold_reason_Inr list_all_iff)

theorem hold_reason_normal_witness:
  "normalize_hold_reason '' release freeze '' = Inr ''release freeze'' \<and> trimmed ''release freeze''"
proof -
  have n: "normalize_hold_reason '' release freeze '' = Inr ''release freeze''" by code_simp
  show ?thesis using n hold_reason_normal [OF n] by simp
qed

text \<open>The lines of a text without its last line break.\<close>

function text_lines :: "string \<Rightarrow> string list" where
  "text_lines s =
     (case index_byte newline s of
        Some i \<Rightarrow> take i s # text_lines (drop (Suc i) s)
      | None \<Rightarrow> [s])"
  by pat_completeness auto
termination
  by (relation "measure length") (auto dest: index_byte_Some)

declare text_lines.simps [simp del]

lemma text_lines_last: "newline \<notin> set s \<Longrightarrow> text_lines s = [s]"
  by (subst text_lines.simps) (simp add: index_byte_None [THEN iffD2])

lemma text_lines_Cons: "newline \<notin> set l \<Longrightarrow> text_lines (l @ newline # s) = l # text_lines s"
  by (subst text_lines.simps) simp

lemma text_lines_join:
  "ls \<noteq> [] \<Longrightarrow> list_all (\<lambda>l. newline \<notin> set l) ls \<Longrightarrow> text_lines (go_join [newline] ls) = ls"
  by (induction "[newline]" ls rule: go_join.induct) (simp_all add: text_lines_last text_lines_Cons)

text \<open>A row as the commands build it from a schema that was accepted.\<close>

definition row_of_schema :: "schema \<Rightarrow> hold \<Rightarrow> hold_row" where
  "row_of_schema sc h = \<lparr>hr_scope = sc_name sc, hr_type = hold_type h, hr_reason = hold_reason h\<rparr>"

lemma scope_name_one_line: "is_scope_name s \<Longrightarrow> one_line s"
  by (auto simp: is_scope_name_def is_lower_alnum_def one_line_def list_all_iff less_eq_char_def)

lemma hold_row_one_line:
  assumes "schema_ok sc" and "sc_hold sc = Some h"
  shows "newline \<notin> set (hold_row_line (row_of_schema sc h))"
proof -
  have name: "one_line (sc_name sc)" and ok: "hold_ok h"
    using assms by (auto simp: schema_ok_def scope_name_one_line)
  have reason: "newline \<notin> set (hold_reason h)"
    using ok normalized_one_line [of "hold_reason h" "hold_reason h"] by (auto simp: hold_ok_def one_line_def)
  have type: "newline \<notin> set (hold_type h)"
    using ok by (auto simp: hold_ok_def hold_soft_def hold_hard_def)
  show ?thesis
    using name reason type by (auto simp: hold_row_line_def row_of_schema_def Let_def one_line_def)
qed

text \<open>The \<open>scope_hold:\<close> block of accepted schemas has one header line and exactly one line per held
  scope, ordered by scope: no name, type or reason can add a line to it or break one in two.\<close>

theorem hold_block_lines:
  assumes "helds \<noteq> []"
    and "list_all (\<lambda>(sc, h). schema_ok sc \<and> sc_hold sc = Some h) helds"
  shows "text_lines (format_scope_holds (map (\<lambda>(sc, h). row_of_schema sc h) helds)) =
    token_line scope_hold_token ''Holds on the following scopes:'' #
    map hold_row_line (sort_key hr_scope (map (\<lambda>(sc, h). row_of_schema sc h) helds))"
proof -
  let ?rows = "map (\<lambda>(sc, h). row_of_schema sc h) helds"
  have "newline \<notin> set (hold_row_line r)" if "r \<in> set ?rows" for r
    using that assms(2) hold_row_one_line by (auto simp: list_all_iff)
  then have "list_all (\<lambda>l. newline \<notin> set l) (map hold_row_line (sort_key hr_scope ?rows))"
    by (auto simp: list_all_iff)
  moreover have "newline \<notin> set (token_line scope_hold_token ''Holds on the following scopes:'')"
    by (simp add: token_line_def scope_hold_token_def)
  ultimately show ?thesis
    unfolding format_scope_holds_def using assms(1) by (simp add: text_lines_join)
qed

theorem hold_block_lines_witness:
  "length (text_lines (format_scope_holds [row_of_schema sample_schema \<lparr>hold_type = ''hard'', hold_reason = ''freeze''\<rparr>])) = 2"
proof -
  have s: "schema_ok sample_schema" by code_simp
  show ?thesis
    using hold_block_lines [of "[(sample_schema, \<lparr>hold_type = ''hard'', hold_reason = ''freeze''\<rparr>)]"] s
    by (simp add: sample_schema_def)
qed

section \<open>Required fields\<close>

text \<open>\<open>MissingRequired\<close> answers, sorted, exactly the declared required fields that the ticket
  leaves absent or empty (the last of several entries with one key counts), and the order in which
  Go ranges over the field map does not show in the answer.\<close>

theorem missing_required_exact:
  assumes "distinct (map fst (sc_fields sc))" and "mset flds = mset (sc_fields sc)"
  shows "missing_required (Some (sc\<lparr>sc_fields := flds\<rparr>)) (Some m) = missing_required (Some sc) (Some m) \<and>
    sorted (missing_required (Some sc) (Some m)) \<and>
    set (missing_required (Some sc) (Some m)) =
      {name. \<exists>f. schema_field sc name = Some f \<and> fd_required f \<and> \<not> field_populated f (by_key m name)}"
proof -
  let ?keep = "\<lambda>(name, f). fd_required f \<and> \<not> field_populated f (by_key m name)"
  have "mset (map fst (filter ?keep flds)) = mset (map fst (filter ?keep (sc_fields sc)))"
    using assms(2) by (simp add: mset_map mset_filter)
  then have "sort (map fst (filter ?keep flds)) = sort (map fst (filter ?keep (sc_fields sc)))"
    by (intro properties_for_sort) simp_all
  moreover have "set (missing_required (Some sc) (Some m)) =
      {name. \<exists>f. schema_field sc name = Some f \<and> fd_required f \<and> \<not> field_populated f (by_key m name)}"
    using assms(1) by (force simp: missing_required_def schema_field_def)
  ultimately show ?thesis by (simp add: missing_required_def)
qed

theorem missing_required_exact_witness:
  "missing_required (Some sample_schema) (Some empty_model) = [''size'']"
proof -
  have d: "distinct (map fst (sc_fields sample_schema))" by code_simp
  have "set (missing_required (Some sample_schema) (Some empty_model)) = {''size''}"
    using missing_required_exact [OF d refl, of empty_model]
    by (auto simp: schema_field_def sample_schema_def field_populated_def by_key_def empty_model_def)
  moreover have "length (missing_required (Some sample_schema) (Some empty_model)) = 1" by code_simp
  ultimately show ?thesis by (cases "missing_required (Some sample_schema) (Some empty_model)") auto
qed

section \<open>Edits keep the other declarations\<close>

definition other_decls :: "string \<Rightarrow> cue_decl list \<Rightarrow> cue_decl list" where
  "other_decls name ds = filter (\<lambda>d. decl_name d \<noteq> name) ds"

lemma set_first_other: "set_first name v ds = Some ds' \<Longrightarrow> name \<noteq> [] \<Longrightarrow> other_decls name ds' = other_decls name ds"
proof (induction ds arbitrary: ds')
  case (Cons d ds)
  then show ?case by (cases d) (auto simp: other_decls_def split: if_splits)
qed simp

definition hold_decls :: "cue_decl list \<Rightarrow> cue_decl list" where
  "hold_decls ds = filter (\<lambda>d. decl_name d = ''hold'') ds"

lemma rewrite_hold_loop_spec:
  assumes "rewrite_hold_loop h ds decls placed at = (out, placed', at')"
  shows "other_decls ''hold'' out = other_decls ''hold'' decls @ other_decls ''hold'' ds \<and>
    hold_decls out = hold_decls decls @
      (if h \<noteq> None \<and> \<not> placed \<and> hold_decls ds \<noteq> [] then [CField ''hold'' (hold_literal (the h))] else []) \<and>
    (placed' \<longleftrightarrow> placed \<or> h \<noteq> None \<and> hold_decls ds \<noteq> [])"
  using assms
proof (induction ds arbitrary: decls placed at)
  case (Cons d ds)
  show ?case
  proof (cases "decl_name d = ''hold''")
    case True
    then show ?thesis
      using Cons.prems Cons.IH [of decls placed at]
        Cons.IH [of "decls @ [CField ''hold'' (hold_literal (the h))]" True at]
      by (cases "h = None \<or> placed") (auto simp: Let_def other_decls_def hold_decls_def)
  next
    case False
    let ?at = "if decl_name d = ''autoCommit'' then Some (length (decls @ [d])) else at"
    have "rewrite_hold_loop h ds (decls @ [d]) placed ?at = (out, placed', at')"
      using Cons.prems False by (simp add: Let_def)
    from Cons.IH [OF this] False show ?thesis by (simp add: other_decls_def hold_decls_def)
  qed
qed (simp add: other_decls_def hold_decls_def)

lemma filter_take_drop: "filter P (take i xs) @ filter P (drop i xs) = filter P xs"
  by (simp flip: filter_append)

text \<open>\<open>RewriteHold\<close> leaves the file with exactly the requested hold (one declaration, or none
  when it is cleared, however many the file had), and every other declaration unchanged and in order.\<close>

theorem rewrite_hold_exact:
  "hold_decls (rewrite_hold h file) = (case h of None \<Rightarrow> [] | Some x \<Rightarrow> [CField ''hold'' (hold_literal x)]) \<and>
   other_decls ''hold'' (rewrite_hold h file) = other_decls ''hold'' file"
proof -
  obtain decls placed at where run: "rewrite_hold_loop h file [] False None = (decls, placed, at)"
    by (metis prod_cases3)
  note spec = rewrite_hold_loop_spec [OF run]
  have insert: "other_decls ''hold'' (take i decls @ [CField ''hold'' v] @ drop i decls) = other_decls ''hold'' decls"
      "hold_decls decls = [] \<Longrightarrow> hold_decls (take i decls @ [CField ''hold'' v] @ drop i decls) = [CField ''hold'' v]" for i v
    using filter_take_drop [of "\<lambda>d. decl_name d \<noteq> ''hold''" i decls]
      filter_take_drop [of "\<lambda>d. decl_name d = ''hold''" i decls]
    by (simp_all add: other_decls_def hold_decls_def del: filter_take_drop)
  show ?thesis
  proof (cases h)
    case None
    with spec run show ?thesis by (simp add: rewrite_hold_def hold_decls_def other_decls_def)
  next
    case (Some x)
    show ?thesis
    proof (cases placed)
      case True
      with spec run Some show ?thesis by (auto simp: rewrite_hold_def hold_decls_def other_decls_def)
    next
      case False
      with spec Some have "hold_decls decls = []" by (auto simp: hold_decls_def)
      with spec run Some False insert show ?thesis
        by (cases at) (auto simp: rewrite_hold_def Let_def, auto simp: hold_decls_def other_decls_def)
    qed
  qed
qed

text \<open>The declaration of a custom field that a reader of the file finds.\<close>

definition declared_field :: "string \<Rightarrow> cue_decl list \<Rightarrow> cue_decl option" where
  "declared_field name tree =
     (case find_fields_struct tree of
        Inr (Some (i, elts)) \<Rightarrow> find (\<lambda>e. is_field e \<and> decl_name e = name) elts
      | _ \<Rightarrow> None)"

lemma find_fields_update:
  "find_fields_struct tree = Inr (Some (i, elts)) \<Longrightarrow>
     find_fields_struct (tree[i := CField ''fields'' (EStruct es)]) = Inr (Some (i, es)) \<and>
     other_decls ''fields'' (tree[i := CField ''fields'' (EStruct es)]) = other_decls ''fields'' tree"
proof (induction tree arbitrary: i)
  case (Cons d ds)
  show ?case
  proof (cases d)
    case (CField n v)
    then show ?thesis
      using Cons by (cases v) (auto simp: rbind_Inr_iff other_decls_def split: if_splits)
  next
    case (COther t)
    then show ?thesis using Cons by (auto simp: rbind_Inr_iff other_decls_def)
  qed
qed simp

lemma find_fields_append:
  "find_fields_struct tree = Inr None \<Longrightarrow>
     find_fields_struct (tree @ [CField ''fields'' (EStruct es)]) = Inr (Some (length tree, es))"
proof (induction tree)
  case (Cons d ds)
  then show ?case by (cases d) (auto simp: rbind_Inr_iff split: if_splits cue_expr.splits)
qed simp

lemma find_fields_removed: "find_fields_struct (remove_top_level_field ''fields'' tree) = Inr None"
proof (induction tree)
  case (Cons d ds)
  then show ?case by (cases d) (auto simp: remove_top_level_field_def)
qed (simp add: remove_top_level_field_def)

lemma find_replace_field:
  "find (\<lambda>e. is_field e \<and> decl_name e = n) (replace_or_append_field name v es) =
     (if n = name then Some (CField name v) else find (\<lambda>e. is_field e \<and> decl_name e = n) es)"
proof (induction es)
  case (Cons e es)
  then show ?case by (cases e) auto
qed auto

lemma find_removed_field:
  "find (\<lambda>e. is_field e \<and> decl_name e = n) (remove_top_level_field name es) =
     (if n = name then None else find (\<lambda>e. is_field e \<and> decl_name e = n) es)"
  by (induction es) (auto simp: remove_top_level_field_def)

lemma set_field_declares:
  assumes "set_field name f tree = Inr tree'"
  shows "declared_field n tree' =
      (if n = name then Some (CField name (field_decl_ast f)) else declared_field n tree) \<and>
    other_decls ''fields'' tree' = other_decls ''fields'' tree"
proof -
  obtain found where found: "find_fields_struct tree = Inr found"
    and tree': "tree' = (case found of
        None \<Rightarrow> tree @ [CField ''fields'' (EStruct [CField name (field_decl_ast f)])]
      | Some (i, elts) \<Rightarrow>
          tree[i := CField ''fields'' (EStruct (replace_or_append_field name (field_decl_ast f) elts))])"
    using assms by (auto simp: set_field_def rbind_Inr_iff split: sum.splits option.splits)
  show ?thesis
  proof (cases found)
    case None
    then show ?thesis
      using found find_fields_append by (simp add: tree' declared_field_def other_decls_def)
  next
    case (Some x)
    obtain i elts where x: "x = (i, elts)" by (cases x)
    with Some found have "find_fields_struct tree = Inr (Some (i, elts))" by simp
    with find_fields_update [OF this] show ?thesis
      by (simp add: tree' Some x declared_field_def find_replace_field)
  qed
qed

lemma unset_field_removes:
  assumes "unset_field name tree = Inr tree'"
  shows "declared_field n tree' = (if n = name then None else declared_field n tree) \<and>
    other_decls ''fields'' tree' = other_decls ''fields'' tree"
proof -
  obtain i elts where found: "find_fields_struct tree = Inr (Some (i, elts))"
    and tree': "tree' =
        (if length (filter is_field (remove_top_level_field name elts)) = 0
         then remove_top_level_field ''fields'' tree
         else tree[i := CField ''fields'' (EStruct (remove_top_level_field name elts))])"
  proof (cases "find_fields_struct tree")
    case (Inr found)
    show thesis
    proof (cases found)
      case (Some x)
      then show thesis
        using assms Inr by (cases x) (auto simp: unset_field_def Let_def intro: that split: if_splits)
    qed (use assms Inr in \<open>simp add: unset_field_def split: if_splits\<close>)
  qed (use assms in \<open>simp add: unset_field_def split: if_splits\<close>)
  show ?thesis
  proof (cases "filter is_field (remove_top_level_field name elts) = []")
    case True
    then have "find (\<lambda>e. is_field e \<and> decl_name e = n) (remove_top_level_field name elts) = None"
      by (auto simp: find_None_iff filter_empty_conv)
    moreover have "other_decls ''fields'' (remove_top_level_field ''fields'' tree) = other_decls ''fields'' tree"
      by (induction tree) (auto simp: other_decls_def remove_top_level_field_def)
    ultimately show ?thesis
      using True found
      by (simp add: tree' declared_field_def find_fields_removed find_removed_field split: if_splits)
  next
    case False
    then show ?thesis
      using found find_fields_update [OF found]
      by (simp add: tree' declared_field_def find_removed_field)
  qed
qed

text \<open>\<open>SetField\<close> and \<open>UnsetField\<close> change one declaration: afterwards the named field reads as
  the new declaration (or as undeclared), every other field reads as before, and the declarations
  outside \<open>fields\<close> keep their place; an accepted \<open>SetField\<close> obeyed the rules of the schema.\<close>

theorem field_edits:
  assumes "set_field name f tree = Inr file1" and "unset_field name file1 = Inr file2"
  shows "field_ok name f \<and>
    declared_field name file1 = Some (CField name (field_decl_ast f)) \<and>
    declared_field name file2 = None \<and>
    (n \<noteq> name \<longrightarrow> declared_field n file1 = declared_field n tree \<and> declared_field n file2 = declared_field n tree) \<and>
    other_decls ''fields'' file1 = other_decls ''fields'' tree \<and>
    other_decls ''fields'' file2 = other_decls ''fields'' tree"
proof -
  have "validate_field_decl name f = Inr ()"
    using assms(1) by (auto simp: set_field_def split: sum.splits)
  then show ?thesis
    using set_field_declares [OF assms(1)] unset_field_removes [OF assms(2)]
    by (simp add: validate_field_decl_iff)
qed

definition sample_file :: "cue_decl list" where
  "sample_file =
     [CField ''name'' (EString ''app''), CField ''fields'' (EStruct [CField ''owner'' (EStruct [])]),
      CField ''autoCommit'' (EBool True)]"

definition sample_field :: field_decl where
  "sample_field = \<lparr>fd_type = ''string'', fd_required = False, fd_values = None\<rparr>"

theorem field_edits_witness:
  "declared_field ''size'' (projr (set_field ''size'' sample_field sample_file)) =
     Some (CField ''size'' (field_decl_ast sample_field))"
proof -
  have s: "set_field ''size'' sample_field sample_file =
      Inr (projr (set_field ''size'' sample_field sample_file))"
    and u: "unset_field ''size'' (projr (set_field ''size'' sample_field sample_file)) = Inr sample_file"
    by code_simp+
  show ?thesis using field_edits [OF s u] by simp
qed

end
