(* ===== verification/Collision.thy ===== *)
theory Collision
  imports Frontmatter "HOL-Library.Multiset" "HOL-Library.Product_Lexorder"
begin

text \<open>
  The order that picks the keeper of a same-id collision, \<open>internal/collision/collision.go\<close>,
  and the stable sort by a Go \<open>less\<close> function. The order is an interface: the locale
  \<open>keeper_order\<close> holds the laws a \<open>less\<close> needs, proves what sorting by it gives, and is
  interpreted on \<open>KeepBefore\<close>. SHA-256 and the RFC 3339 parser are parameters of the
  model, fields of \<open>externals\<close> with the YAML codec.
\<close>

record externals =
  x_yaml :: yaml
  x_sha :: "string \<Rightarrow> string"
  x_rfc3339 :: "string \<Rightarrow> int option"

section \<open>Sorting with a less function\<close>

text \<open>\<open>sort.SliceStable\<close>: an element goes before another only when it is less.\<close>

fun insert_stable :: "('a \<Rightarrow> 'a \<Rightarrow> bool) \<Rightarrow> 'a \<Rightarrow> 'a list \<Rightarrow> 'a list" where
  "insert_stable bef x [] = [x]"
| "insert_stable bef x (y # ys) = (if bef y x then y # insert_stable bef x ys else x # y # ys)"

definition sort_stable :: "('a \<Rightarrow> 'a \<Rightarrow> bool) \<Rightarrow> 'a list \<Rightarrow> 'a list" where
  "sort_stable bef xs = foldr (insert_stable bef) xs []"

lemma mset_insert_stable [simp]: "mset (insert_stable bef x ys) = add_mset x (mset ys)"
  by (induction ys) auto

lemma mset_sort_stable [simp]: "mset (sort_stable bef xs) = mset xs"
  by (induction xs) (auto simp: sort_stable_def)

lemma set_sort_stable [simp]: "set (sort_stable bef xs) = set xs"
  using mset_sort_stable [of bef xs] by (metis set_mset_mset)

lemma length_sort_stable [simp]: "length (sort_stable bef xs) = length xs"
  using mset_sort_stable [of bef xs] by (metis size_mset)

lemma sort_stable_map:
  assumes "\<And>x y. bef x y \<longleftrightarrow> bef' (f x) (f y)"
  shows "map f (sort_stable bef xs) = sort_stable bef' (map f xs)"
proof (induction xs)
  case (Cons x xs)
  have "map f (insert_stable bef x ys) = insert_stable bef' (f x) (map f ys)" for ys
    by (induction ys) (auto simp: assms)
  with Cons show ?case by (simp add: sort_stable_def)
qed (simp add: sort_stable_def)

locale keeper_order =
  fixes before :: "'a \<Rightarrow> 'a \<Rightarrow> bool"
  assumes asym: "before x y \<Longrightarrow> \<not> before y x"
    and neg_trans: "\<not> before x y \<Longrightarrow> \<not> before y z \<Longrightarrow> \<not> before x z"
begin

abbreviation in_order :: "'a list \<Rightarrow> bool" where
  "in_order \<equiv> sorted_wrt (\<lambda>x y. \<not> before y x)"

lemma insert_in_order: "in_order ys \<Longrightarrow> in_order (insert_stable before x ys)"
proof (induction ys)
  case (Cons y ys)
  have set: "set (insert_stable before x ys) = insert x (set ys)"
    by (metis mset_insert_stable set_mset_add_mset_insert set_mset_mset)
  show ?case
  proof (cases "before y x")
    case True
    with Cons set asym show ?thesis by auto
  next
    case False
    with Cons.prems neg_trans [of _ y x] show ?thesis by auto
  qed
qed simp

lemma sort_in_order: "in_order (sort_stable before xs)"
  by (induction xs) (auto simp: sort_stable_def insert_in_order)

text \<open>The kept member: no other member comes before the first one.\<close>

lemma keeper_first: "sort_stable before xs = k # losers \<Longrightarrow> x \<in> set xs \<Longrightarrow> \<not> before x k"
  using sort_in_order [of xs] asym [of x x] set_sort_stable [of before xs] by (metis list.set_cases set_ConsD sorted_wrt.simps(2))

lemma in_order_unique:
  assumes "in_order xs" "in_order ys" "mset xs = mset ys"
    and total: "\<And>x y. x \<in> set xs \<Longrightarrow> y \<in> set xs \<Longrightarrow> x \<noteq> y \<Longrightarrow> before x y \<or> before y x"
  shows "xs = ys"
  using assms
proof (induction xs arbitrary: ys)
  case (Cons x xs)
  obtain y ys' where ys: "ys = y # ys'" using Cons.prems(3) by (cases ys) auto
  have sets: "set (x # xs) = set (y # ys')"
    using Cons.prems(3) unfolding ys by (metis set_mset_mset)
  have "x = y"
  proof (rule ccontr)
    assume ne: "x \<noteq> y"
    then have m: "y \<in> set xs" "x \<in> set ys'" using sets by auto
    then have "\<not> before y x" "\<not> before x y" using Cons.prems(1,2) by (auto simp: ys)
    with Cons.prems(4) [of x y] ne m(1) show False by simp
  qed
  moreover have "xs = ys'"
    using Cons.IH [of ys'] Cons.prems \<open>x = y\<close> by (auto simp: ys)
  ultimately show ?case by (simp add: ys)
qed simp

text \<open>Where ties are impossible, the order in which the members were read does not matter.\<close>

lemma sort_order_free:
  assumes "mset xs = mset ys"
    and "\<And>x y. x \<in> set xs \<Longrightarrow> y \<in> set xs \<Longrightarrow> x \<noteq> y \<Longrightarrow> before x y \<or> before y x"
  shows "sort_stable before xs = sort_stable before ys"
  by (rule in_order_unique) (use assms sort_in_order in simp_all)

end

section \<open>KeepBefore\<close>

record member =
  m_created :: string
  m_basename :: string
  m_raw :: string
  m_path :: string

definition parse_instant :: "externals \<Rightarrow> string \<Rightarrow> int option" where
  "parse_instant X s = (if s = [] then None else x_rfc3339 X s)"

definition keep_before :: "externals \<Rightarrow> member \<Rightarrow> member \<Rightarrow> bool" where
  "keep_before X a b =
     (let ta = parse_instant X (m_created a); tb = parse_instant X (m_created b) in
      if (ta \<noteq> None) \<noteq> (tb \<noteq> None) then ta = None
      else if ta \<noteq> None \<and> the ta \<noteq> the tb then the ta < the tb
      else if m_basename a \<noteq> m_basename b then m_basename a < m_basename b
      else if x_sha X (m_raw a) \<noteq> x_sha X (m_raw b) then x_sha X (m_raw a) < x_sha X (m_raw b)
      else m_path a < m_path b)"

text \<open>The order is the lexicographic one of a key; a degraded \<open>created\<close> is the least instant.\<close>

definition instant_key :: "int option \<Rightarrow> nat \<times> int" where
  "instant_key t = (case t of None \<Rightarrow> (0, 0) | Some i \<Rightarrow> (1, i))"

definition keep_key :: "externals \<Rightarrow> member \<Rightarrow> (nat \<times> int) \<times> string \<times> string \<times> string" where
  "keep_key X m =
     (instant_key (parse_instant X (m_created m)), m_basename m, x_sha X (m_raw m), m_path m)"

lemma keep_before_key: "keep_before X a b \<longleftrightarrow> keep_key X a < keep_key X b"
  by (auto simp: keep_before_def keep_key_def Let_def instant_key_def less_prod_def split: option.splits)

interpretation keeper: keeper_order "keep_before X" for X
  by unfold_locales (auto simp: keep_before_key)

lemma keep_before_total: "m_path a \<noteq> m_path b \<Longrightarrow> keep_before X a b \<or> keep_before X b a"
  unfolding keep_before_key by (rule neq_iff [THEN iffD1]) (simp add: keep_key_def)

text \<open>The keeper of a collision does not depend on how the files were listed: members at distinct
  paths sort the same way from every listing, and no member comes before the one that is kept.\<close>

theorem keeper_deterministic:
  assumes "distinct (map m_path members)" and "mset listing = mset members"
  shows "sort_stable (keep_before X) listing = sort_stable (keep_before X) members \<and>
    (\<forall>k losers. sort_stable (keep_before X) members = k # losers \<longrightarrow>
       (\<forall>m \<in> set members. \<not> keep_before X m k))"
proof -
  have "keep_before X x y \<or> keep_before X y x"
    if "x \<in> set listing" "y \<in> set listing" "x \<noteq> y" for x y
    using that assms keep_before_total by (metis distinct_map inj_onD set_mset_mset)
  then show ?thesis
    using keeper.sort_order_free [OF assms(2), of X] keeper.keeper_first [of X members] by auto
qed

definition sample_externals :: externals where
  "sample_externals =
     \<lparr>x_yaml = sample_codec, x_sha = (\<lambda>s. take 32 (rev s)),
      x_rfc3339 = (\<lambda>s. if s = ''2024-01-01T00:00:00Z'' then Some 1704067200 else None)\<rparr>"

definition sample_member :: "string \<Rightarrow> string \<Rightarrow> member" where
  "sample_member created path = \<lparr>m_created = created, m_basename = path, m_raw = path, m_path = path\<rparr>"

theorem keeper_deterministic_witness:
  "map m_path (sort_stable (keep_before sample_externals)
     [sample_member ''2024-01-01T00:00:00Z'' ''a'', sample_member '''' ''b'']) = [''b'', ''a'']"
proof -
  let ?a = "sample_member ''2024-01-01T00:00:00Z'' ''a''" and ?b = "sample_member '''' ''b''"
  have d: "distinct (map m_path [?b, ?a])" by code_simp
  have m: "mset [?a, ?b] = mset [?b, ?a]" by simp
  have s: "map m_path (sort_stable (keep_before sample_externals) [?b, ?a]) = [''b'', ''a'']" by code_simp
  show ?thesis using keeper_deterministic [OF d m, of sample_externals] s by simp
qed

end
