(* ===== verification/FmMerge.thy ===== *)
theory FmMerge
  imports Collision ScopeConfig
begin

text \<open>
  The three-way merge of ticket front matter, \<open>internal/fmmerge/fmmerge.go\<close>. The stages
  are the blobs git hands to a merge driver: \<open>None\<close> is an absent stage, \<open>Some []\<close> a present
  but empty one. An outcome is one constructor per \<open>Outcome\<close> constant, with the fields of
  \<open>Result\<close> that Go populates for it.
\<close>

section \<open>Stages, outcomes, errors\<close>

type_synonym stage = "string option"

datatype side = SideOurs | SideTheirs

record merge_meta =
  mm_ours_date :: int
  mm_theirs_date :: int
  mm_scope :: string
  mm_occupied :: "string set"

record rename_directive =
  rd_loser :: side
  rd_collided :: string
  rd_new_short :: string

datatype merge_warning = RewroteImmutable string string

datatype outcome =
    OutcomeMerged fm_model "merge_warning list"
  | OutcomeStatusConflict fm_model "string list" "merge_warning list"
  | OutcomeRename rename_directive
  | OutcomeDeleteEdit side string

datatype merge_error =
    NoSchema
  | EmptyStage
  | NoFence
  | Unparseable parse_error
  | NoSharedId
  | IllegalId string
  | ExtendFailed extend_error
  | MalformedShape
  | ImmutableChanged string string string
  | ImmutableDisagree string string string
  | StatusUnknown string string
  | ConflictPairs

section \<open>Field merges\<close>

definition pick_ours :: "externals \<Rightarrow> merge_meta \<Rightarrow> string \<Rightarrow> string \<Rightarrow> bool" where
  "pick_ours X mm oursRaw theirsRaw =
     (if mm_ours_date mm > mm_theirs_date mm then True
      else if mm_theirs_date mm > mm_ours_date mm then False
      else x_sha X oursRaw \<ge> x_sha X theirsRaw)"

definition merge_immutable :: "string \<Rightarrow> string \<Rightarrow> string \<Rightarrow> string \<Rightarrow> merge_error + (string \<times> bool)" where
  "merge_immutable bs ours theirs key =
     (if bs \<noteq> [] then
        (if ours \<noteq> bs \<and> theirs \<noteq> bs then
           (if ours = theirs then Inr (bs, True) else Inl (ImmutableChanged key ours theirs))
         else Inr (bs, False))
      else if ours = theirs then Inr (ours, False)
      else Inl (ImmutableDisagree key ours theirs))"

definition merge_list :: "string list \<Rightarrow> string list \<Rightarrow> string list \<Rightarrow> string list" where
  "merge_list bs ours theirs =
     first_seen {}
       (filter (\<lambda>e. e \<in> set ours \<and> e \<in> set theirs) bs @
        filter (\<lambda>e. e \<notin> set bs) ours @
        filter (\<lambda>e. e \<notin> set bs) theirs)"

text \<open>\<open>pick\<close> is the answer of \<open>pickOurs\<close> for the stages at hand.\<close>

definition merge_scalar :: "bool \<Rightarrow> string \<Rightarrow> string \<Rightarrow> string \<Rightarrow> string" where
  "merge_scalar pick bs ours theirs =
     (if ours = theirs then ours
      else if ours = bs then theirs
      else if theirs = bs then ours
      else if pick then ours else theirs)"

definition sorted_pair :: "string \<Rightarrow> string \<Rightarrow> string list" where
  "sorted_pair a b = (if a \<le> b then [a, b] else [b, a])"

definition merge_inherited :: "string list \<Rightarrow> string list \<Rightarrow> string list \<Rightarrow> merge_error + string list" where
  "merge_inherited bs ours theirs =
     (let oursChanged = ours \<noteq> bs; theirsChanged = theirs \<noteq> bs in
      if \<not> oursChanged \<and> \<not> theirsChanged then Inr bs
      else if oursChanged \<and> \<not> theirsChanged then Inr ours
      else if \<not> oursChanged \<and> theirsChanged then Inr theirs
      else if ours = theirs then Inr ours
      else Inl ConflictPairs)"

record status_merge =
  sm_status :: string
  sm_conflict :: "string list"
  sm_dispute :: bool

definition merge_status ::
    "bool \<Rightarrow> schema option \<Rightarrow> fm_model \<Rightarrow> fm_model \<Rightarrow> fm_model \<Rightarrow> merge_error + status_merge" where
  "merge_status pick sc bs ours theirs =
     (let b = fm_status bs; os = fm_status ours; ts = fm_status theirs;
          lww = rbind (merge_inherited (fm_status_conflict bs) (fm_status_conflict ours) (fm_status_conflict theirs))
                  (\<lambda>pair. Inr \<lparr>sm_status = merge_scalar pick b os ts, sm_conflict = pair, sm_dispute = False\<rparr>) in
      if os \<noteq> b \<and> ts \<noteq> b \<and> os \<noteq> ts then
        (if \<not> status_known sc os \<or> \<not> status_known sc ts then Inl (StatusUnknown os ts)
         else if status_terminal sc os \<or> status_terminal sc ts
         then Inr \<lparr>sm_status = b, sm_conflict = sorted_pair os ts, sm_dispute = True\<rparr>
         else lww)
      else lww)"

definition merge_changed :: "bool \<Rightarrow> status_merge \<Rightarrow> fm_model \<Rightarrow> fm_model \<Rightarrow> fm_model \<Rightarrow> string" where
  "merge_changed pick st bs ours theirs =
     (let b = fm_status bs; os = fm_status ours; ts = fm_status theirs;
          oursMoved = os \<noteq> b; theirsMoved = ts \<noteq> b in
      if sm_dispute st then fm_changed bs
      else if \<not> oursMoved \<and> \<not> theirsMoved then fm_changed bs
      else if oursMoved \<and> \<not> theirsMoved then fm_changed ours
      else if \<not> oursMoved \<and> theirsMoved then fm_changed theirs
      else if os = ts then
        (if fm_changed ours = fm_changed theirs then fm_changed ours
         else if pick then fm_changed ours else fm_changed theirs)
      else if sm_status st = os then fm_changed ours
      else if sm_status st = ts then fm_changed theirs
      else fm_changed bs)"

text \<open>Custom keys: \<open>optAny\<close> is an option, \<open>customMap\<close> keeps the last entry of a key.\<close>

definition custom_map :: "fm_model \<Rightarrow> string \<Rightarrow> goval option" where
  "custom_map m = map_of (rev (fm_custom m))"

definition ordered_custom_keys :: "fm_model \<Rightarrow> fm_model \<Rightarrow> fm_model \<Rightarrow> string list" where
  "ordered_custom_keys bs ours theirs = first_seen {} (map fst (fm_custom bs @ fm_custom ours @ fm_custom theirs))"

definition to_strings :: "goval option \<Rightarrow> string list" where
  "to_strings v =
     (case v of
        Some (VList xs) \<Rightarrow> map sprint xs
      | Some (VStrs xs) \<Rightarrow> xs
      | _ \<Rightarrow> [])"

definition to_any_list :: "string list \<Rightarrow> goval" where
  "to_any_list xs = VList (map VStr xs)"

definition state_key :: "goval option \<Rightarrow> string" where
  "state_key v = (case v of None \<Rightarrow> [CHR 0x00] | Some x \<Rightarrow> CHR 0x01 # sprint x)"

definition merge_scalar_opt :: "bool \<Rightarrow> goval option \<Rightarrow> goval option \<Rightarrow> goval option \<Rightarrow> goval option" where
  "merge_scalar_opt pick bs ours theirs =
     (let sb = state_key bs; so = state_key ours; st = state_key theirs in
      if so = st then ours
      else if so = sb then theirs
      else if st = sb then ours
      else if pick then ours else theirs)"

definition merge_custom_key ::
    "bool \<Rightarrow> schema \<Rightarrow> fm_model \<Rightarrow> fm_model \<Rightarrow> fm_model \<Rightarrow> string \<Rightarrow> goval option" where
  "merge_custom_key pick sc bs ours theirs k =
     (let b = custom_map bs k; os = custom_map ours k; ts = custom_map theirs k in
      case schema_field sc k of
        Some fd \<Rightarrow>
          if fd_type fd = field_strings then
            (let merged = merge_list (to_strings b) (to_strings os) (to_strings ts) in
             if length merged > 0 then Some (to_any_list merged) else None)
          else merge_scalar_opt pick b os ts
      | None \<Rightarrow> merge_scalar_opt pick b os ts)"

definition merge_custom :: "bool \<Rightarrow> schema \<Rightarrow> fm_model \<Rightarrow> fm_model \<Rightarrow> fm_model \<Rightarrow> field list" where
  "merge_custom pick sc bs ours theirs =
     concat (map (\<lambda>k. case merge_custom_key pick sc bs ours theirs k of Some v \<Rightarrow> [(k, v)] | None \<Rightarrow> [])
       (ordered_custom_keys bs ours theirs))"

section \<open>The merge\<close>

text \<open>The fields of the merged model; \<open>threeWay\<close> fills them in one by one.\<close>

definition merged_model ::
    "bool \<Rightarrow> schema \<Rightarrow> fm_model \<Rightarrow> fm_model \<Rightarrow> fm_model \<Rightarrow> string \<Rightarrow> string \<Rightarrow> status_merge \<Rightarrow> fm_model" where
  "merged_model pick sc bs ours theirs idVal createdVal st =
     \<lparr>fm_id = idVal,
      fm_status = sm_status st,
      fm_changed = merge_changed pick st bs ours theirs,
      fm_order = merge_scalar pick (fm_order bs) (fm_order ours) (fm_order theirs),
      fm_depends = merge_list (fm_depends bs) (fm_depends ours) (fm_depends theirs),
      fm_related = merge_list (fm_related bs) (fm_related ours) (fm_related theirs),
      fm_tags = merge_list (fm_tags bs) (fm_tags ours) (fm_tags theirs),
      fm_created = createdVal,
      fm_links = merge_list (fm_links bs) (fm_links ours) (fm_links theirs),
      fm_summary = merge_scalar pick (fm_summary bs) (fm_summary ours) (fm_summary theirs),
      fm_status_conflict = sm_conflict st,
      fm_custom = merge_custom pick sc bs ours theirs\<rparr>"

definition immutable_warnings :: "fm_model \<Rightarrow> bool \<Rightarrow> bool \<Rightarrow> merge_warning list" where
  "immutable_warnings bs idWarn createdWarn =
     (if idWarn then [RewroteImmutable key_id (fm_id bs)] else []) @
     (if createdWarn then [RewroteImmutable key_created (fm_created bs)] else [])"

definition three_way ::
    "bool \<Rightarrow> schema \<Rightarrow> fm_model \<Rightarrow> fm_model \<Rightarrow> fm_model \<Rightarrow> merge_error + outcome" where
  "three_way pick sc bs ours theirs =
     rbind (merge_immutable (fm_id bs) (fm_id ours) (fm_id theirs) key_id) (\<lambda>(idVal, idWarn).
     rbind (merge_immutable (fm_created bs) (fm_created ours) (fm_created theirs) key_created) (\<lambda>(createdVal, createdWarn).
     rbind (merge_status pick (Some sc) bs ours theirs) (\<lambda>st.
       let warnings = immutable_warnings bs idWarn createdWarn;
           res = merged_model pick sc bs ours theirs idVal createdVal st in
       if sm_dispute st then Inr (OutcomeStatusConflict res (sm_conflict st) warnings)
       else Inr (OutcomeMerged res warnings))))"

definition load_stage :: "externals \<Rightarrow> stage \<Rightarrow> merge_error + fm_model option" where
  "load_stage X s =
     (case s of
        None \<Rightarrow> Inr None
      | Some bytes \<Rightarrow>
          if length bytes = 0 then Inl EmptyStage
          else (case split_fence bytes of
                  (interior, body, present) \<Rightarrow>
                    if \<not> present then Inl NoFence
                    else (case parse_fm (x_yaml X) interior of
                            Inl e \<Rightarrow> Inl (Unparseable e)
                          | Inr m \<Rightarrow> Inr (Some m))))"

definition short_of_full :: "string \<Rightarrow> string" where
  "short_of_full full = (case index_byte CHR ''-'' full of Some i \<Rightarrow> drop (Suc i) full | None \<Rightarrow> full)"

definition add_add ::
    "externals \<Rightarrow> fm_model \<Rightarrow> fm_model \<Rightarrow> string \<Rightarrow> string \<Rightarrow> merge_meta \<Rightarrow> merge_error + outcome" where
  "add_add X oursM theirsM oursRaw theirsRaw mm =
     (if fm_id oursM = [] \<or> fm_id theirsM = [] \<or> fm_id oursM \<noteq> fm_id theirsM then Inl NoSharedId
      else
        let loser =
              (if \<not> keep_before X \<lparr>m_created = fm_created oursM, m_basename = [], m_raw = oursRaw, m_path = []\<rparr>
                                 \<lparr>m_created = fm_created theirsM, m_basename = [], m_raw = theirsRaw, m_path = []\<rparr>
               then SideOurs else SideTheirs);
            full = fm_id oursM in
        if \<not> is_full_ticket_id full then Inl (IllegalId full)
        else case Ids.extend (short_of_full full) (mm_occupied mm) of
               Inl e \<Rightarrow> Inl (ExtendFailed e)
             | Inr newShort \<Rightarrow>
                 Inr (OutcomeRename \<lparr>rd_loser = loser, rd_collided = full, rd_new_short = newShort\<rparr>))"

definition merge_frontmatter ::
    "externals \<Rightarrow> stage \<Rightarrow> stage \<Rightarrow> stage \<Rightarrow> schema option \<Rightarrow> merge_meta \<Rightarrow> merge_error + outcome" where
  "merge_frontmatter X bs ours theirs sc mm =
     (case sc of
        None \<Rightarrow> Inl NoSchema
      | Some s \<Rightarrow>
          rbind (load_stage X bs) (\<lambda>baseM.
          rbind (load_stage X ours) (\<lambda>oursM.
          rbind (load_stage X theirs) (\<lambda>theirsM.
            case (baseM, oursM, theirsM) of
              (None, Some om, Some tm) \<Rightarrow> add_add X om tm (the ours) (the theirs) mm
            | (Some bm, Some om, Some tm) \<Rightarrow>
                three_way (pick_ours X mm (the ours) (the theirs)) s bm om tm
            | (Some bm, Some om, None) \<Rightarrow> Inr (OutcomeDeleteEdit SideTheirs (fm_status om))
            | (Some bm, None, Some tm) \<Rightarrow> Inr (OutcomeDeleteEdit SideOurs (fm_status tm))
            | _ \<Rightarrow> Inl MalformedShape))))"

section \<open>Lists\<close>

lemma set_merge_list:
  "set (merge_list bs ours theirs) =
     {e \<in> set bs. e \<in> set ours \<and> e \<in> set theirs} \<union> (set ours - set bs) \<union> (set theirs - set bs)"
  by (auto simp: merge_list_def)

lemma merge_list_swap: "set (merge_list bs ours theirs) = set (merge_list bs theirs ours)"
  by (auto simp: set_merge_list)

text \<open>\<open>mergeList\<close> is the three-way set merge: an entry of the base survives exactly when neither
  side removed it, another entry exactly when some side added it, nothing occurs twice, the
  survivors of the base come first in base order, and swapping the sides gives the same set.\<close>

theorem merge_list_three_way:
  "(e \<in> set (merge_list bs ours theirs) \<longleftrightarrow>
      (if e \<in> set bs then e \<in> set ours \<and> e \<in> set theirs else e \<in> set ours \<or> e \<in> set theirs)) \<and>
   distinct (merge_list bs ours theirs) \<and>
   (\<exists>added. merge_list bs ours theirs =
      first_seen {} (filter (\<lambda>x. x \<in> set ours \<and> x \<in> set theirs) bs) @ added) \<and>
   set (merge_list bs theirs ours) = set (merge_list bs ours theirs)"
proof -
  have "\<exists>added. first_seen seen (xs @ ys) = first_seen seen xs @ added" for seen and xs ys :: "string list"
    by (induction xs arbitrary: seen) auto
  then show ?thesis
    using merge_list_swap [of bs theirs ours]
    by (auto simp: set_merge_list) (simp_all add: merge_list_def)
qed

section \<open>Status\<close>

lemma merge_scalar_cases: "merge_scalar pick b x y \<in> {b, x, y}"
  by (auto simp: merge_scalar_def)

lemma merge_scalar_swap: "merge_scalar (\<not> pick) b y x = merge_scalar pick b x y"
  by (auto simp: merge_scalar_def)

lemma merge_scalar_one_side: "merge_scalar pick b x b = x" "merge_scalar pick b b y = y"
  by (auto simp: merge_scalar_def)

lemma merge_inherited_swap: "merge_inherited b y x = merge_inherited b x y"
  by (auto simp: merge_inherited_def Let_def)

lemma sorted_pair_swap: "sorted_pair b a = sorted_pair a b"
  by (auto simp: sorted_pair_def)

lemma merge_status_swap:
  "(case merge_status pick sc b x y of
      Inl e \<Rightarrow> \<exists>e'. merge_status (\<not> pick) sc b y x = Inl e'
    | Inr st \<Rightarrow> merge_status (\<not> pick) sc b y x = Inr st)"
  using merge_scalar_swap [of pick] sorted_pair_swap
    merge_inherited_swap [of "fm_status_conflict b" "fm_status_conflict y" "fm_status_conflict x"]
  by (cases "merge_inherited (fm_status_conflict b) (fm_status_conflict x) (fm_status_conflict y)")
    (auto simp: merge_status_def Let_def)

text \<open>A three-way merge that answered, taken apart.\<close>

lemma three_way_Inr:
  "three_way pick sc b x y = Inr r \<Longrightarrow>
     \<exists>idVal w1 createdVal w2 st.
       merge_immutable (fm_id b) (fm_id x) (fm_id y) key_id = Inr (idVal, w1) \<and>
       merge_immutable (fm_created b) (fm_created x) (fm_created y) key_created = Inr (createdVal, w2) \<and>
       merge_status pick (Some sc) b x y = Inr st \<and>
       r = (if sm_dispute st
            then OutcomeStatusConflict (merged_model pick sc b x y idVal createdVal st) (sm_conflict st)
                   (immutable_warnings b w1 w2)
            else OutcomeMerged (merged_model pick sc b x y idVal createdVal st) (immutable_warnings b w1 w2))"
  by (auto simp: three_way_def Let_def rbind_Inr_iff split: prod.splits if_splits)

text \<open>What a merged status may be.\<close>

definition both_moved :: "fm_model \<Rightarrow> fm_model \<Rightarrow> fm_model \<Rightarrow> bool" where
  "both_moved b x y \<longleftrightarrow> fm_status x \<noteq> fm_status b \<and> fm_status y \<noteq> fm_status b \<and> fm_status x \<noteq> fm_status y"

lemma merge_status_dispute:
  assumes "merge_status pick sc b x y = Inr st"
  shows "sm_dispute st \<longleftrightarrow>
      both_moved b x y \<and> (status_terminal sc (fm_status x) \<or> status_terminal sc (fm_status y))"
    and "sm_dispute st \<Longrightarrow> sm_status st = fm_status b \<and> sm_conflict st = sorted_pair (fm_status x) (fm_status y) \<and>
      status_known sc (fm_status x) \<and> status_known sc (fm_status y)"
    and "\<not> sm_dispute st \<Longrightarrow> sm_status st = merge_scalar pick (fm_status b) (fm_status x) (fm_status y)"
  using assms by (auto simp: merge_status_def both_moved_def Let_def rbind_Inr_iff split: if_splits)

lemma merge_changed_follows:
  assumes "merge_status pick sc b x y = Inr st"
  shows "(sm_status st, merge_changed pick st b x y) \<in>
    {(fm_status b, fm_changed b), (fm_status x, fm_changed x), (fm_status y, fm_changed y)}"
  using merge_status_dispute [OF assms]
  by (cases "sm_dispute st") (auto simp: merge_changed_def Let_def merge_scalar_def)

text \<open>A three-way merge never decides a terminal dispute and never separates a status from its
  time stamp. When both sides moved the status to different names and one is terminal, the outcome
  is the dispute: the base status and stamp stay, and the pair is recorded. Otherwise the merged
  status is the three-way scalar, and its \<open>changed\<close> value comes from a side (or the base) that carries that status.\<close>

theorem three_way_status:
  assumes "three_way pick sc b x y = Inr r"
  shows "(case r of
      OutcomeStatusConflict m pair warns \<Rightarrow>
        both_moved b x y \<and>
        (status_terminal (Some sc) (fm_status x) \<or> status_terminal (Some sc) (fm_status y)) \<and>
        status_known (Some sc) (fm_status x) \<and> status_known (Some sc) (fm_status y) \<and>
        fm_status m = fm_status b \<and> fm_changed m = fm_changed b \<and>
        pair = sorted_pair (fm_status x) (fm_status y) \<and> fm_status_conflict m = pair
    | OutcomeMerged m warns \<Rightarrow>
        \<not> (both_moved b x y \<and>
           (status_terminal (Some sc) (fm_status x) \<or> status_terminal (Some sc) (fm_status y))) \<and>
        fm_status m = merge_scalar pick (fm_status b) (fm_status x) (fm_status y) \<and>
        (fm_status m, fm_changed m) \<in>
          {(fm_status b, fm_changed b), (fm_status x, fm_changed x), (fm_status y, fm_changed y)}
    | _ \<Rightarrow> False)"
proof -
  obtain idVal w1 createdVal w2 st where st: "merge_status pick (Some sc) b x y = Inr st"
    and r: "r = (if sm_dispute st
            then OutcomeStatusConflict (merged_model pick sc b x y idVal createdVal st) (sm_conflict st)
                   (immutable_warnings b w1 w2)
            else OutcomeMerged (merged_model pick sc b x y idVal createdVal st) (immutable_warnings b w1 w2))"
    using three_way_Inr [OF assms] by blast
  have changed: "sm_dispute st \<Longrightarrow> merge_changed pick st b x y = fm_changed b"
    by (simp add: merge_changed_def Let_def)
  show ?thesis
    using merge_status_dispute [OF st] merge_changed_follows [OF st] changed
    by (cases "sm_dispute st") (simp_all add: r merged_model_def)
qed

definition sample_ticket :: "string \<Rightarrow> string \<Rightarrow> fm_model" where
  "sample_ticket status changed =
     empty_model\<lparr>fm_id := ''app-ab23'', fm_status := status, fm_changed := changed, fm_created := ''c''\<rparr>"

theorem three_way_status_witness:
  "\<exists>m warns. three_way True sample_schema (sample_ticket ''todo'' ''t0'') (sample_ticket ''done'' ''t1'')
      (sample_ticket ''review'' ''t2'') = Inr (OutcomeStatusConflict m [''done'', ''review''] warns) \<and>
    fm_status m = ''todo'' \<and> fm_changed m = ''t0''"
proof -
  let ?r = "three_way True sample_schema (sample_ticket ''todo'' ''t0'') (sample_ticket ''done'' ''t1'')
      (sample_ticket ''review'' ''t2'')"
  have r: "?r = Inr (projr ?r)" by code_simp
  have d: "case projr ?r of OutcomeStatusConflict m pair w \<Rightarrow> pair = [''done'', ''review''] | _ \<Rightarrow> False" by code_simp
  show ?thesis
    using three_way_status [OF r] d r
    by (cases "projr ?r") (auto simp: sample_ticket_def)
qed

section \<open>Both machines agree\<close>

definition swap_meta :: "merge_meta \<Rightarrow> merge_meta" where
  "swap_meta mm = mm\<lparr>mm_ours_date := mm_theirs_date mm, mm_theirs_date := mm_ours_date mm\<rparr>"

fun other_side :: "side \<Rightarrow> side" where
  "other_side SideOurs = SideTheirs"
| "other_side SideTheirs = SideOurs"

definition same_value :: "schema \<Rightarrow> string \<Rightarrow> goval \<Rightarrow> goval \<Rightarrow> bool" where
  "same_value sc k v v' \<longleftrightarrow>
     (if \<exists>fd. schema_field sc k = Some fd \<and> fd_type fd = field_strings
      then set (to_strings (Some v)) = set (to_strings (Some v')) else sprint v = sprint v')"

definition same_model :: "schema \<Rightarrow> fm_model \<Rightarrow> fm_model \<Rightarrow> bool" where
  "same_model sc m m' \<longleftrightarrow>
     fm_id m = fm_id m' \<and> fm_status m = fm_status m' \<and> fm_changed m = fm_changed m' \<and>
     fm_order m = fm_order m' \<and> fm_created m = fm_created m' \<and> fm_summary m = fm_summary m' \<and>
     fm_status_conflict m = fm_status_conflict m' \<and>
     set (fm_depends m) = set (fm_depends m') \<and> set (fm_related m) = set (fm_related m') \<and>
     set (fm_tags m) = set (fm_tags m') \<and> set (fm_links m) = set (fm_links m') \<and>
     (\<forall>k. rel_option (same_value sc k) (custom_map m k) (custom_map m' k))"

fun mirrored :: "schema \<Rightarrow> merge_error + outcome \<Rightarrow> merge_error + outcome \<Rightarrow> bool" where
  "mirrored sc (Inl e) (Inl e') = True"
| "mirrored sc (Inr (OutcomeMerged m w)) (Inr (OutcomeMerged m' w')) = (same_model sc m m' \<and> w = w')"
| "mirrored sc (Inr (OutcomeStatusConflict m p w)) (Inr (OutcomeStatusConflict m' p' w')) =
     (same_model sc m m' \<and> p = p' \<and> w = w')"
| "mirrored sc (Inr (OutcomeRename d)) (Inr (OutcomeRename d')) =
     (rd_loser d' = other_side (rd_loser d) \<and> rd_collided d' = rd_collided d \<and> rd_new_short d' = rd_new_short d)"
| "mirrored sc (Inr (OutcomeDeleteEdit s st)) (Inr (OutcomeDeleteEdit s' st')) = (s' = other_side s \<and> st' = st)"
| "mirrored sc _ _ = False"

lemma custom_of_keys:
  "distinct ks \<Longrightarrow>
     map_of (rev (concat (map (\<lambda>k. case f k of Some v \<Rightarrow> [(k, v)] | None \<Rightarrow> []) ks))) k =
       (if k \<in> set ks then f k else None)"
proof (induction ks)
  case (Cons j ks)
  then show ?case by (cases "f j") (auto simp: map_add_def split: option.split)
qed simp

lemma merge_custom_key_absent:
  assumes "k \<notin> set (ordered_custom_keys b x y)"
  shows "merge_custom_key pick sc b x y k = None"
proof -
  have "custom_map b k = None" "custom_map x k = None" "custom_map y k = None"
    using assms by (auto simp: ordered_custom_keys_def custom_map_def map_of_eq_None_iff)
  then show ?thesis
    by (auto simp: merge_custom_key_def merge_list_def to_strings_def merge_scalar_opt_def split: option.split)
qed

lemma merge_custom_lookup: "map_of (rev (merge_custom pick sc b x y)) k = merge_custom_key pick sc b x y k"
  using merge_custom_key_absent [of k b x y pick sc]
  by (simp add: merge_custom_def custom_of_keys ordered_custom_keys_def)

lemma to_strings_any_list [simp]: "to_strings (Some (to_any_list xs)) = xs"
  by (simp add: to_strings_def to_any_list_def comp_def)

lemma state_key_eq: "state_key v = state_key w \<longleftrightarrow> rel_option (\<lambda>a b. sprint a = sprint b) v w"
  by (cases v; cases w) (auto simp: state_key_def)

lemma merge_scalar_opt_swap:
  "rel_option (\<lambda>a b. sprint a = sprint b) (merge_scalar_opt pick b x y) (merge_scalar_opt (\<not> pick) b y x)"
  by (auto simp: merge_scalar_opt_def Let_def simp flip: state_key_eq)

lemma merge_custom_key_swap:
  "rel_option (same_value sc k) (merge_custom_key pick sc b x y k) (merge_custom_key (\<not> pick) sc b y x k)"
proof (cases "\<exists>fd. schema_field sc k = Some fd \<and> fd_type fd = field_strings")
  case True
  let ?m = "\<lambda>x y. merge_list (to_strings (custom_map b k)) (to_strings (custom_map x k)) (to_strings (custom_map y k))"
  have same: "set (?m x y) = set (?m y x)" by (rule merge_list_swap)
  then have "?m x y = [] \<longleftrightarrow> ?m y x = []" by (metis set_empty)
  with True same show ?thesis
    by (auto simp: merge_custom_key_def Let_def same_value_def)
next
  case False
  have "rel_option (same_value sc k) v w" if "rel_option (\<lambda>a b. sprint a = sprint b) v w" for v w
    using that False by (auto simp: option_rel_Some1 option_rel_Some2 same_value_def elim!: option.rel_mono_strong)
  with False merge_scalar_opt_swap show ?thesis
    by (auto simp: merge_custom_key_def Let_def split: option.split)
qed

lemma merge_immutable_swap:
  "case merge_immutable b x y k of
     Inr v \<Rightarrow> merge_immutable b y x k = Inr v
   | Inl e \<Rightarrow> \<exists>e'. merge_immutable b y x k = Inl e'"
  by (auto simp: merge_immutable_def)

lemma merge_changed_swap: "merge_changed (\<not> pick) st b y x = merge_changed pick st b x y"
  by (auto simp: merge_changed_def Let_def)

lemma merged_model_swap:
  "same_model sc (merged_model pick sc b x y i c st) (merged_model (\<not> pick) sc b y x i c st)"
  using merge_list_swap merge_custom_key_swap
  by (simp add: same_model_def merged_model_def merge_changed_swap merge_scalar_swap custom_map_def merge_custom_lookup)

lemma three_way_swap: "mirrored sc (three_way pick sc b x y) (three_way (\<not> pick) sc b y x)"
proof -
  note i = merge_immutable_swap [where b = "fm_id b" and x = "fm_id x" and y = "fm_id y" and k = key_id]
  note c = merge_immutable_swap [where b = "fm_created b" and x = "fm_created x" and y = "fm_created y" and k = key_created]
  note s = merge_status_swap [where pick = pick and sc = "Some sc" and b = b and x = x and y = y]
  show ?thesis
    using i c s merged_model_swap [of sc pick b x y]
    by (auto simp: three_way_def Let_def split: sum.splits prod.splits)
qed

lemma pick_ours_swap: "x_sha X rx \<noteq> x_sha X ry \<Longrightarrow> pick_ours X (swap_meta mm) ry rx \<longleftrightarrow> \<not> pick_ours X mm rx ry"
  by (auto simp: pick_ours_def swap_meta_def)

lemma add_add_swap:
  assumes "x_sha X rx \<noteq> x_sha X ry"
  shows "mirrored sc (add_add X mx my rx ry mm) (add_add X my mx ry rx (swap_meta mm))"
proof -
  let ?a = "\<lparr>m_created = fm_created mx, m_basename = [], m_raw = rx, m_path = []\<rparr>"
  let ?b = "\<lparr>m_created = fm_created my, m_basename = [], m_raw = ry, m_path = []\<rparr>"
  have "keep_key X ?a \<noteq> keep_key X ?b" using assms by (simp add: keep_key_def)
  then have flip: "keep_before X ?b ?a \<longleftrightarrow> \<not> keep_before X ?a ?b"
    unfolding keep_before_key by auto
  show ?thesis
    by (cases "keep_before X ?a ?b") (auto simp: add_add_def Let_def flip swap_meta_def split: sum.split)
qed

lemma load_stage_Some: "load_stage X s = Inr (Some m) \<Longrightarrow> \<exists>raw. s = Some raw"
  by (auto simp: load_stage_def split: option.splits)

text \<open>C30. Both machines resolve a conflict the same way: swapping which stage is called ours and which
  theirs (with their dates) mirrors the answer. It refuses exactly when the other refuses; a merged
  or disputed ticket has the same scalars and the same entries in every list and custom field; a
  rename or a deletion names the other side, with the same new id.\<close>

theorem merge_mirrored:
  assumes "\<And>rx ry. ours = Some rx \<Longrightarrow> theirs = Some ry \<Longrightarrow> x_sha X rx \<noteq> x_sha X ry"
  shows "mirrored sc (merge_frontmatter X b ours theirs (Some sc) mm)
    (merge_frontmatter X b theirs ours (Some sc) (swap_meta mm))"
proof (cases "load_stage X b")
  case (Inr bm)
  show ?thesis
  proof (cases "load_stage X ours")
    case om: (Inr om)
    show ?thesis
    proof (cases "load_stage X theirs")
      case tm: (Inr tm)
      show ?thesis
      proof (cases "om \<noteq> None \<and> tm \<noteq> None")
        case True
        then obtain mx my where m: "om = Some mx" "tm = Some my" by auto
        obtain rx ry where raw: "ours = Some rx" "theirs = Some ry"
          using load_stage_Some om tm m by metis
        have sha: "x_sha X rx \<noteq> x_sha X ry" by (rule assms [OF raw])
        show ?thesis
          using Inr om tm m raw add_add_swap [OF sha] three_way_swap pick_ours_swap [OF sha]
          by (cases bm) (simp_all add: merge_frontmatter_def)
      next
        case False
        then show ?thesis
          using Inr om tm by (cases bm; cases om; cases tm) (simp_all add: merge_frontmatter_def)
      qed
    qed (use Inr om in \<open>simp add: merge_frontmatter_def\<close>)
  next
    case (Inl e)
    then show ?thesis using Inr by (cases "load_stage X theirs") (simp_all add: merge_frontmatter_def)
  qed
qed (simp add: merge_frontmatter_def)

text \<open>A codec for two fixed documents, and the stages that hold them.\<close>

definition two_ticket_codec :: yaml where
  "two_ticket_codec =
     \<lparr>y_unmarshal = (\<lambda>t.
        if t = ''mine'' @ [newline] then Inr (decode_items (fm_items (sample_ticket ''todo'' ''t1'')))
        else if t = ''yours'' @ [newline] then Inr (decode_items (fm_items (sample_ticket ''review'' ''t2'')))
        else Inl ''bad''),
      y_marshal = (\<lambda>items. Inl ''unused'')\<rparr>"

definition two_tickets :: externals where
  "two_tickets = \<lparr>x_yaml = two_ticket_codec, x_sha = (\<lambda>s. take 32 (drop 4 s)), x_rfc3339 = (\<lambda>s. None)\<rparr>"

definition sample_meta :: merge_meta where
  "sample_meta = \<lparr>mm_ours_date = 10, mm_theirs_date = 20, mm_scope = ''app'', mm_occupied = {''ab23''}\<rparr>"

abbreviation mine :: stage where "mine \<equiv> Some (compose (''mine'' @ [newline]) ''x'')"
abbreviation yours :: stage where "yours \<equiv> Some (compose (''yours'' @ [newline]) ''y'')"

theorem merge_mirrored_witness:
  "\<exists>d. merge_frontmatter two_tickets None yours mine (Some sample_schema) (swap_meta sample_meta) =
         Inr (OutcomeRename d) \<and> rd_loser d = SideOurs \<and> rd_new_short d = ''ab23a''"
proof -
  let ?d = "\<lparr>rd_loser = SideTheirs, rd_collided = ''app-ab23'', rd_new_short = ''ab23a''\<rparr>"
  have run: "merge_frontmatter two_tickets None mine yours (Some sample_schema) sample_meta = Inr (OutcomeRename ?d)"
    by code_simp
  have sha: "x_sha two_tickets (the mine) \<noteq> x_sha two_tickets (the yours)" by code_simp
  have "mirrored sample_schema
      (merge_frontmatter two_tickets None mine yours (Some sample_schema) sample_meta)
      (merge_frontmatter two_tickets None yours mine (Some sample_schema) (swap_meta sample_meta))"
    by (rule merge_mirrored) (use sha in simp)
  then show ?thesis
    unfolding run
    by (cases "merge_frontmatter two_tickets None yours mine (Some sample_schema) (swap_meta sample_meta)" rule: sum.exhaust)
      (auto elim: mirrored.elims)
qed

end
