(* ===== verification/IndexDb.thy ===== *)
theory IndexDb
  imports Prelude Frontmatter
begin

text \<open>
  The SQLite index, \<open>internal/index\<close>: the rows of \<open>model.go\<close>, the tables and triggers of
  \<open>schema.go\<close>, and the write transactions of \<open>write.go\<close>. A table is the list of its rows in
  rowid order. The \<open>tickets\<close> and \<open>designs\<close> tables keep their rowids, because the two
  full-text tables mirror them. A stored row has no tags and no body: tags live in
  \<open>ticket_tags\<close>, the body only feeds the full-text table.
\<close>

section \<open>Rows and tables\<close>

record ticket =
  tk_path :: string
  tk_scope :: string
  tk_id :: string
  tk_short_id :: string
  tk_status :: string
  tk_order_key :: string
  tk_title :: string
  tk_summary :: string
  tk_created :: string
  tk_changed :: string
  tk_tags :: "string list"
  tk_custom :: "field list"
  tk_status_conflict :: "string list"
  tk_archived :: bool
  tk_parse_error :: bool
  tk_parse_msg :: string
  tk_schema_error :: bool
  tk_body :: string
  tk_mtime :: int
  tk_size :: int

record design =
  ds_path :: string
  ds_scope :: string
  ds_id :: string
  ds_short_id :: string
  ds_status :: string
  ds_title :: string
  ds_summary :: string
  ds_created :: string
  ds_changed :: string
  ds_parse_error :: bool
  ds_parse_msg :: string
  ds_body :: string
  ds_mtime :: int
  ds_size :: int

record edge =
  e_from_path :: string
  e_from_id :: string
  e_from_scope :: string
  e_to_id :: string
  e_to_scope :: string
  e_kind :: string

definition edge_depends :: string where "edge_depends = ''depends''"
definition edge_related :: string where "edge_related = ''related''"
definition edge_produces :: string where "edge_produces = ''produces''"

lemmas edge_kinds = edge_depends_def edge_related_def edge_produces_def

type_synonym rowid = nat

record db =
  db_tickets :: "(rowid \<times> ticket) list"
  db_tags :: "(string \<times> string) list"
  db_designs :: "(rowid \<times> design) list"
  db_edges :: "edge list"
  db_fts :: "(rowid \<times> string \<times> string) list"
  db_design_fts :: "(rowid \<times> string \<times> string) list"
  db_meta :: "(string \<times> int) list"

definition empty_db :: db where
  "empty_db = \<lparr>db_tickets = [], db_tags = [], db_designs = [], db_edges = [], db_fts = [],
     db_design_fts = [], db_meta = []\<rparr>"

text \<open>A constraint of the schema that an \<open>INSERT\<close> violates.\<close>

datatype db_error = UniqueViolation edge | CheckViolation edge

section \<open>Generic statements\<close>

text \<open>
  \<open>INSERT ... ON CONFLICT(path) DO UPDATE\<close>: an existing row keeps its rowid, a new row
  gets the largest rowid plus one.
\<close>

definition next_rowid :: "(rowid \<times> 'r) list \<Rightarrow> rowid" where
  "next_rowid rows = Suc (foldr max (map fst rows) 0)"

definition row_at :: "('r \<Rightarrow> string) \<Rightarrow> string \<Rightarrow> (rowid \<times> 'r) list \<Rightarrow> (rowid \<times> 'r) option" where
  "row_at pathOf path rows = find (\<lambda>(i, r). pathOf r = path) rows"

definition upsert_row :: "('r \<Rightarrow> string) \<Rightarrow> 'r \<Rightarrow> (rowid \<times> 'r) list \<Rightarrow> (rowid \<times> 'r) list" where
  "upsert_row pathOf row rows =
     (case row_at pathOf (pathOf row) rows of
        None \<Rightarrow> rows @ [(next_rowid rows, row)]
      | Some _ \<Rightarrow> map (\<lambda>(i, r). if pathOf r = pathOf row then (i, row) else (i, r)) rows)"

text \<open>The clobber guard \<open>storedMtimeNewer\<close> on either table.\<close>

definition stored_mtime_newer ::
    "('r \<Rightarrow> string) \<Rightarrow> ('r \<Rightarrow> int) \<Rightarrow> string \<Rightarrow> int \<Rightarrow> (rowid \<times> 'r) list \<Rightarrow> bool" where
  "stored_mtime_newer pathOf mtimeOf path incoming rows =
     (case row_at pathOf path rows of None \<Rightarrow> False | Some (i, r) \<Rightarrow> mtimeOf r > incoming)"

definition fts_put :: "rowid \<Rightarrow> string \<Rightarrow> string \<Rightarrow> (rowid \<times> string \<times> string) list \<Rightarrow> (rowid \<times> string \<times> string) list" where
  "fts_put i title body fts = filter (\<lambda>(j, _). j \<noteq> i) fts @ [(i, title, body)]"

definition unique_tags :: "string list \<Rightarrow> string list" where
  "unique_tags tags = first_seen {} (filter (\<lambda>t. t \<noteq> []) tags)"

text \<open>\<open>uniqueEdges\<close> keys an edge by the concatenation of its primary key with NUL separators.\<close>

definition edge_key :: "edge \<Rightarrow> string" where
  "edge_key e = e_from_path e @ [CHR 0x00] @ e_kind e @ [CHR 0x00] @ e_to_id e"

fun first_by :: "('a \<Rightarrow> 'k) \<Rightarrow> 'k set \<Rightarrow> 'a list \<Rightarrow> 'a list" where
  "first_by key seen [] = []"
| "first_by key seen (x # xs) =
     (if key x \<in> seen then first_by key seen xs else x # first_by key (insert (key x) seen) xs)"

definition unique_edges :: "edge list \<Rightarrow> edge list" where
  "unique_edges es = (if length es < 2 then es else first_by edge_key {} es)"

text \<open>The primary key and the \<open>CHECK\<close> of the \<open>edges\<close> table.\<close>

definition same_edge :: "edge \<Rightarrow> edge \<Rightarrow> bool" where
  "same_edge e f \<longleftrightarrow> e_from_path e = e_from_path f \<and> e_kind e = e_kind f \<and> e_to_id e = e_to_id f"

fun insert_edges :: "edge list \<Rightarrow> edge list \<Rightarrow> db_error + edge list" where
  "insert_edges [] rows = Inr rows"
| "insert_edges (e # es) rows =
     (if e_kind e \<notin> {edge_depends, edge_related, edge_produces} then Inl (CheckViolation e)
      else if \<exists>f \<in> set rows. same_edge e f then Inl (UniqueViolation e)
      else insert_edges es (rows @ [e]))"

section \<open>Tickets\<close>

definition stored_ticket :: "ticket \<Rightarrow> ticket" where
  "stored_ticket p = p\<lparr>tk_tags := [], tk_body := []\<rparr>"

definition owned_by_ticket :: "string \<Rightarrow> edge \<Rightarrow> bool" where
  "owned_by_ticket path e \<longleftrightarrow> e_from_path e = path \<and> e_kind e \<in> {edge_depends, edge_related}"

definition owned_by_design :: "string \<Rightarrow> edge \<Rightarrow> bool" where
  "owned_by_design path e \<longleftrightarrow> e_from_path e = path \<and> e_kind e = edge_produces"

definition upsert_ticket_tx :: "ticket \<Rightarrow> db \<Rightarrow> db" where
  "upsert_ticket_tx p d =
     (let rows = upsert_row tk_path (stored_ticket p) (db_tickets d);
          i = (case row_at tk_path (tk_path p) rows of Some (i, _) \<Rightarrow> i | None \<Rightarrow> 0) in
      d\<lparr>db_tickets := rows,
        db_fts := fts_put i (tk_title p) (tk_body p) (db_fts d),
        db_tags := filter (\<lambda>(path, _). path \<noteq> tk_path p) (db_tags d) @ map (Pair (tk_path p)) (unique_tags (tk_tags p)),
        db_edges := filter (\<lambda>e. \<not> owned_by_ticket (tk_path p) e) (db_edges d)\<rparr>)"

definition upsert_ticket_with_edges_tx :: "ticket \<Rightarrow> edge list \<Rightarrow> db \<Rightarrow> db_error + db" where
  "upsert_ticket_with_edges_tx p edges d =
     (if stored_mtime_newer tk_path tk_mtime (tk_path p) (tk_mtime p) (db_tickets d) then Inr d
      else let d' = upsert_ticket_tx p d in
           rbind (insert_edges (unique_edges edges) (db_edges d')) (\<lambda>es. Inr (d'\<lparr>db_edges := es\<rparr>)))"

text \<open>Deleting a ticket row fires the trigger \<open>tickets_delete_edges\<close> and the cascade on \<open>ticket_tags\<close>.\<close>

definition delete_by_path_tx :: "string \<Rightarrow> db \<Rightarrow> db" where
  "delete_by_path_tx path d =
     (case row_at tk_path path (db_tickets d) of
        None \<Rightarrow> d
      | Some (i, _) \<Rightarrow>
          d\<lparr>db_fts := filter (\<lambda>(j, _). j \<noteq> i) (db_fts d),
            db_tickets := filter (\<lambda>(_, t). tk_path t \<noteq> path) (db_tickets d),
            db_tags := filter (\<lambda>(p, _). p \<noteq> path) (db_tags d),
            db_edges := filter (\<lambda>e. \<not> owned_by_ticket path e) (db_edges d)\<rparr>)"

section \<open>Designs\<close>

definition stored_design :: "design \<Rightarrow> design" where
  "stored_design p = p\<lparr>ds_body := []\<rparr>"

definition upsert_design_tx :: "design \<Rightarrow> db \<Rightarrow> db" where
  "upsert_design_tx p d =
     (let rows = upsert_row ds_path (stored_design p) (db_designs d);
          i = (case row_at ds_path (ds_path p) rows of Some (i, _) \<Rightarrow> i | None \<Rightarrow> 0) in
      d\<lparr>db_designs := rows,
        db_design_fts := fts_put i (ds_title p) (ds_body p) (db_design_fts d),
        db_edges := filter (\<lambda>e. \<not> owned_by_design (ds_path p) e) (db_edges d)\<rparr>)"

definition upsert_design_with_edges_tx :: "design \<Rightarrow> edge list \<Rightarrow> db \<Rightarrow> db_error + db" where
  "upsert_design_with_edges_tx p edges d =
     (if stored_mtime_newer ds_path ds_mtime (ds_path p) (ds_mtime p) (db_designs d) then Inr d
      else let d' = upsert_design_tx p d in
           rbind (insert_edges (unique_edges edges) (db_edges d')) (\<lambda>es. Inr (d'\<lparr>db_edges := es\<rparr>)))"

definition delete_design_by_path_tx :: "string \<Rightarrow> db \<Rightarrow> db" where
  "delete_design_by_path_tx path d =
     (case row_at ds_path path (db_designs d) of
        None \<Rightarrow> d
      | Some (i, _) \<Rightarrow>
          d\<lparr>db_design_fts := filter (\<lambda>(j, _). j \<noteq> i) (db_design_fts d),
            db_designs := filter (\<lambda>(_, t). ds_path t \<noteq> path) (db_designs d),
            db_edges := filter (\<lambda>e. \<not> owned_by_design path e) (db_edges d)\<rparr>)"

section \<open>Scopes\<close>

definition set_last_index :: "string \<Rightarrow> int \<Rightarrow> db \<Rightarrow> db" where
  "set_last_index scope ns d =
     d\<lparr>db_meta :=
         (if scope \<in> fst ` set (db_meta d)
          then map (\<lambda>(s, n). if s = scope then (s, ns) else (s, n)) (db_meta d)
          else db_meta d @ [(scope, ns)])\<rparr>"

definition last_index :: "string \<Rightarrow> db \<Rightarrow> int" where
  "last_index scope d = (case map_of (db_meta d) scope of None \<Rightarrow> 0 | Some ns \<Rightarrow> ns)"

definition delete_scope :: "string \<Rightarrow> db \<Rightarrow> db" where
  "delete_scope scope d =
     (let tick = map snd (filter (\<lambda>(_, t). tk_scope t = scope) (db_tickets d));
          dsgn = map snd (filter (\<lambda>(_, t). ds_scope t = scope) (db_designs d));
          trows = map fst (filter (\<lambda>(_, t). tk_scope t = scope) (db_tickets d));
          drows = map fst (filter (\<lambda>(_, t). ds_scope t = scope) (db_designs d)) in
      d\<lparr>db_fts := filter (\<lambda>(j, _). j \<notin> set trows) (db_fts d),
        db_design_fts := filter (\<lambda>(j, _). j \<notin> set drows) (db_design_fts d),
        db_edges := filter (\<lambda>e. \<not> (e_from_scope e = scope \<and> e_kind e = edge_produces) \<and>
             \<not> (\<exists>t \<in> set tick. owned_by_ticket (tk_path t) e) \<and>
             \<not> (\<exists>t \<in> set dsgn. owned_by_design (ds_path t) e)) (db_edges d),
        db_tags := filter (\<lambda>(p, _). p \<notin> tk_path ` set tick) (db_tags d),
        db_tickets := filter (\<lambda>(_, t). tk_scope t \<noteq> scope) (db_tickets d),
        db_designs := filter (\<lambda>(_, t). ds_scope t \<noteq> scope) (db_designs d),
        db_meta := filter (\<lambda>(s, _). s \<noteq> scope) (db_meta d)\<rparr>)"

definition indexed_scopes :: "db \<Rightarrow> string set" where
  "indexed_scopes d =
     (tk_scope \<circ> snd) ` set (db_tickets d) \<union> (ds_scope \<circ> snd) ` set (db_designs d) \<union> fst ` set (db_meta d)"

section \<open>Transactions\<close>

text \<open>\<open>RunScopeWrite\<close>: the calls of one reconcile pass on the write surface, all or nothing.\<close>

datatype write_op =
    WUpsertTicket ticket "edge list"
  | WDeleteByPath string
  | WUpsertDesign design "edge list"
  | WDeleteDesign string
  | WSetLastIndex string int

fun run_op :: "write_op \<Rightarrow> db \<Rightarrow> db_error + db" where
  "run_op (WUpsertTicket p es) d = upsert_ticket_with_edges_tx p es d"
| "run_op (WDeleteByPath path) d = Inr (delete_by_path_tx path d)"
| "run_op (WUpsertDesign p es) d = upsert_design_with_edges_tx p es d"
| "run_op (WDeleteDesign path) d = Inr (delete_design_by_path_tx path d)"
| "run_op (WSetLastIndex scope ns) d = Inr (set_last_index scope ns d)"

fun run_ops :: "write_op list \<Rightarrow> db \<Rightarrow> db_error + db" where
  "run_ops [] d = Inr d"
| "run_ops (w # ws) d = rbind (run_op w d) (run_ops ws)"

definition run_scope_write :: "write_op list \<Rightarrow> db \<Rightarrow> db_error option \<times> db" where
  "run_scope_write ws d = (case run_ops ws d of Inl e \<Rightarrow> (Some e, d) | Inr d' \<Rightarrow> (None, d'))"

section \<open>A table and its full-text mirror\<close>

text \<open>Rowids and paths are unique, and the full-text table has the title of every row under its rowid.\<close>

definition in_step :: "('r \<Rightarrow> string) \<Rightarrow> ('r \<Rightarrow> string) \<Rightarrow> (rowid \<times> 'r) list \<Rightarrow> (rowid \<times> string \<times> string) list \<Rightarrow> bool" where
  "in_step pathOf titleOf rows fts \<longleftrightarrow>
     distinct (map fst rows) \<and> distinct (map (pathOf \<circ> snd) rows) \<and> distinct (map fst fts) \<and>
     (\<lambda>(i, t, b). (i, t)) ` set fts = (\<lambda>(i, r). (i, titleOf r)) ` set rows"

lemma distinct_map_eqD: "distinct (map f xs) \<Longrightarrow> x \<in> set xs \<Longrightarrow> y \<in> set xs \<Longrightarrow> f x = f y \<Longrightarrow> x = y"
  by (auto simp: distinct_map dest: inj_onD)

lemma next_rowid_fresh: "(i, r) \<in> set rows \<Longrightarrow> i < next_rowid rows"
proof -
  have "j \<in> set js \<Longrightarrow> j \<le> foldr max js 0" for j :: nat and js
    by (induction js) auto
  then show "(i, r) \<in> set rows \<Longrightarrow> i < next_rowid rows"
    by (force simp: next_rowid_def less_Suc_eq_le)
qed

lemma row_at_Some: "row_at pathOf path rows = Some (i, r) \<Longrightarrow> (i, r) \<in> set rows \<and> pathOf r = path"
  by (auto simp: row_at_def find_Some_iff in_set_conv_nth)

lemma row_at_None: "row_at pathOf path rows = None \<longleftrightarrow> (\<forall>x \<in> set rows. pathOf (snd x) \<noteq> path)"
  by (fastforce simp: row_at_def find_None_iff)

lemma row_at_unique:
  assumes "distinct (map (pathOf \<circ> snd) rows)" and "(i, r) \<in> set rows"
  shows "row_at pathOf (pathOf r) rows = Some (i, r)"
proof (cases "row_at pathOf (pathOf r) rows")
  case None
  with assms(2) show ?thesis by (force simp: row_at_None)
next
  case (Some x)
  then have "x \<in> set rows" "pathOf (snd x) = pathOf r"
    using row_at_Some [of pathOf "pathOf r" rows "fst x" "snd x"] by auto
  with distinct_map_eqD [OF assms(1) _ assms(2), of x] Some show ?thesis by simp
qed

text \<open>The two cases of \<open>upsert_row\<close>: a new row at the end, or every row of the path replaced.\<close>

definition replace_row :: "('r \<Rightarrow> string) \<Rightarrow> 'r \<Rightarrow> (rowid \<times> 'r) list \<Rightarrow> (rowid \<times> 'r) list" where
  "replace_row pathOf row rows = map (\<lambda>(i, r). if pathOf r = pathOf row then (i, row) else (i, r)) rows"

lemma replace_row_maps [simp]:
  "map fst (replace_row pathOf row rows) = map fst rows"
  "map (pathOf \<circ> snd) (replace_row pathOf row rows) = map (pathOf \<circ> snd) rows"
  by (auto simp: replace_row_def)

lemma upsert_row_cases:
  "upsert_row pathOf row rows =
     (if row_at pathOf (pathOf row) rows = None then rows @ [(next_rowid rows, row)] else replace_row pathOf row rows)"
  by (auto simp: upsert_row_def replace_row_def split: option.split)

lemma upsert_row_paths:
  "(pathOf \<circ> snd) ` set (upsert_row pathOf row rows) = insert (pathOf row) ((pathOf \<circ> snd) ` set rows)"
proof (cases "row_at pathOf (pathOf row) rows = None")
  case True
  then show ?thesis by (simp add: upsert_row_cases)
next
  case False
  then obtain x where x: "x \<in> set rows" "pathOf (snd x) = pathOf row"
    unfolding row_at_None by blast
  have "pathOf row \<in> (pathOf \<circ> snd) ` set rows"
    by (rule image_eqI [OF _ x(1)]) (simp add: x(2))
  moreover have "(pathOf \<circ> snd) ` set (replace_row pathOf row rows) = (pathOf \<circ> snd) ` set rows"
    using replace_row_maps(2) [of pathOf row rows] by (metis set_map)
  ultimately show ?thesis using False by (simp add: upsert_row_cases insert_absorb)
qed

lemma upsert_row_distinct:
  assumes "distinct (map fst rows)" "distinct (map (pathOf \<circ> snd) rows)"
  shows "distinct (map fst (upsert_row pathOf row rows))"
    and "distinct (map (pathOf \<circ> snd) (upsert_row pathOf row rows))"
proof -
  have "next_rowid rows \<notin> set (map fst rows)"
    using next_rowid_fresh [of _ _ rows] by force
  then show "distinct (map fst (upsert_row pathOf row rows))"
    using assms by (simp add: upsert_row_cases)
  show "distinct (map (pathOf \<circ> snd) (upsert_row pathOf row rows))"
    using assms row_at_None [of pathOf "pathOf row" rows] by (auto simp: upsert_row_cases)
qed

lemma upsert_row_at:
  assumes "distinct (map (pathOf \<circ> snd) rows)"
  obtains i where "row_at pathOf (pathOf row) (upsert_row pathOf row rows) = Some (i, row)"
    "set (upsert_row pathOf row rows) = insert (i, row) {x \<in> set rows. pathOf (snd x) \<noteq> pathOf row}"
    "\<And>x. x \<in> set rows \<Longrightarrow> pathOf (snd x) \<noteq> pathOf row \<Longrightarrow> distinct (map fst rows) \<Longrightarrow> fst x \<noteq> i"
    "\<And>x. x \<in> set rows \<Longrightarrow> pathOf (snd x) = pathOf row \<Longrightarrow> fst x = i"
proof (cases "row_at pathOf (pathOf row) rows")
  case None
  then have no: "\<forall>x \<in> set rows. pathOf (snd x) \<noteq> pathOf row" by (simp add: row_at_None)
  then have "find (\<lambda>(i, r). pathOf r = pathOf row) rows = None"
    by (auto simp: find_None_iff)
  then have at: "row_at pathOf (pathOf row) (upsert_row pathOf row rows) = Some (next_rowid rows, row)"
    using None by (simp add: upsert_row_cases row_at_def find_append)
  have set: "set (upsert_row pathOf row rows) =
      insert (next_rowid rows, row) {x \<in> set rows. pathOf (snd x) \<noteq> pathOf row}"
    using None no by (auto simp: upsert_row_cases)
  have fresh: "fst x \<noteq> next_rowid rows" if "x \<in> set rows" for x
    using next_rowid_fresh [of "fst x" "snd x" rows] that by simp
  show ?thesis by (rule that [OF at set]) (use fresh no in auto)
next
  case (Some x)
  obtain i r where x: "x = (i, r)" by (cases x)
  with Some have ir: "(i, r) \<in> set rows" "pathOf r = pathOf row" using row_at_Some by fastforce+
  have uniq: "y = (i, r)" if "y \<in> set rows" "pathOf (snd y) = pathOf row" for y
    using distinct_map_eqD [OF assms that(1) ir(1)] that(2) ir(2) by simp
  have rep: "upsert_row pathOf row rows = replace_row pathOf row rows"
    using Some by (simp add: upsert_row_cases)
  have set: "set (upsert_row pathOf row rows) = insert (i, row) {x \<in> set rows. pathOf (snd x) \<noteq> pathOf row}"
  proof -
    have "set (replace_row pathOf row rows) =
        (\<lambda>x. if pathOf (snd x) = pathOf row then (i, row) else x) ` set rows"
      unfolding replace_row_def set_map
      by (rule image_cong [OF refl]) (use uniq in \<open>auto split: prod.splits\<close>)
    then show ?thesis using ir by (auto simp: rep)
  qed
  have "distinct (map (pathOf \<circ> snd) (upsert_row pathOf row rows))"
    using assms by (simp add: rep del: map_map)
  then have at: "row_at pathOf (pathOf row) (upsert_row pathOf row rows) = Some (i, row)"
    by (rule row_at_unique) (simp add: set)
  have "fst y \<noteq> i" if "y \<in> set rows" "pathOf (snd y) \<noteq> pathOf row" "distinct (map fst rows)" for y
    using distinct_map_eqD [OF that(3,1) ir(1)] that(2) ir(2) by (cases y) auto
  moreover have "fst y = i" if "y \<in> set rows" "pathOf (snd y) = pathOf row" for y
    using uniq [OF that] by simp
  ultimately show ?thesis by (intro that [of i] at set)
qed

lemma fts_put_in_step:
  assumes "in_step pathOf titleOf rows fts"
    and "row_at pathOf (pathOf row) (upsert_row pathOf row rows) = Some (i, row)"
  shows "in_step pathOf titleOf (upsert_row pathOf row rows) (fts_put i (titleOf row) body fts)"
proof -
  note d = assms(1) [unfolded in_step_def]
  have dp: "distinct (map (pathOf \<circ> snd) rows)" using d by blast
  obtain j where at: "row_at pathOf (pathOf row) (upsert_row pathOf row rows) = Some (j, row)"
    and j: "set (upsert_row pathOf row rows) = insert (j, row) {x \<in> set rows. pathOf (snd x) \<noteq> pathOf row}"
    and fresh: "\<And>x. x \<in> set rows \<Longrightarrow> pathOf (snd x) \<noteq> pathOf row \<Longrightarrow> distinct (map fst rows) \<Longrightarrow> fst x \<noteq> j"
    and old: "\<And>x. x \<in> set rows \<Longrightarrow> pathOf (snd x) = pathOf row \<Longrightarrow> fst x = j"
    by (rule upsert_row_at [OF dp, of row], rule that)
  have i: "j = i" using at assms(2) by simp
  have "(\<lambda>(i, t, b). (i, t)) ` set (filter (\<lambda>(j, _). j \<noteq> i) fts) =
      {y \<in> (\<lambda>(i, t, b). (i, t)) ` set fts. fst y \<noteq> i}" by force
  also have "\<dots> = {y \<in> (\<lambda>(i, r). (i, titleOf r)) ` set rows. fst y \<noteq> i}" using d by simp
  also have "\<dots> = (\<lambda>(i, r). (i, titleOf r)) ` {x \<in> set rows. fst x \<noteq> i}" by force
  also have "{x \<in> set rows. fst x \<noteq> i} = {x \<in> set rows. pathOf (snd x) \<noteq> pathOf row}"
    using fresh old d unfolding i by blast
  finally show ?thesis
    using d upsert_row_distinct [of rows pathOf row]
    by (auto simp: in_step_def fts_put_def j i distinct_map_filter)
qed

lemma in_step_filter:
  assumes "in_step pathOf titleOf rows fts"
    and "\<And>i r. (i, r) \<in> set rows \<Longrightarrow> keep r \<longleftrightarrow> i \<notin> gone"
  shows "in_step pathOf titleOf (filter (\<lambda>(i, r). keep r) rows) (filter (\<lambda>(j, _). j \<notin> gone) fts)"
proof -
  note d = assms(1) [unfolded in_step_def]
  have "(\<lambda>(i, t, b). (i, t)) ` set (filter (\<lambda>(j, _). j \<notin> gone) fts) =
      {y \<in> (\<lambda>(i, t, b). (i, t)) ` set fts. fst y \<notin> gone}" by force
  also have "\<dots> = {y \<in> (\<lambda>(i, r). (i, titleOf r)) ` set rows. fst y \<notin> gone}" using d by simp
  also have "\<dots> = (\<lambda>(i, r). (i, titleOf r)) ` set (filter (\<lambda>(i, r). keep r) rows)"
    using assms(2) by force
  finally show ?thesis using d by (simp add: in_step_def distinct_map_filter)
qed

section \<open>Edges\<close>

definition edge_pk :: "edge \<Rightarrow> string \<times> string \<times> string" where
  "edge_pk e = (e_from_path e, e_kind e, e_to_id e)"

lemma same_edge_pk: "same_edge e f \<longleftrightarrow> edge_pk e = edge_pk f"
  by (auto simp: same_edge_def edge_pk_def)

lemma insert_edges_distinct:
  "distinct (map edge_pk (rows @ es)) \<Longrightarrow>
   \<forall>e \<in> set es. e_kind e \<in> {edge_depends, edge_related, edge_produces} \<Longrightarrow> insert_edges es rows = Inr (rows @ es)"
proof (induction es arbitrary: rows)
  case (Cons e es)
  then have "\<not> (\<exists>f \<in> set rows. same_edge e f)" by (force simp: same_edge_pk)
  with Cons show ?case by auto
qed simp

lemma first_by_seen: "x \<in> set (first_by key seen xs) \<Longrightarrow> x \<in> set xs \<and> key x \<notin> seen"
  by (induction xs arbitrary: seen) (auto split: if_splits)

lemma distinct_first_by: "distinct (map key (first_by key seen xs))"
proof (induction xs arbitrary: seen)
  case (Cons x xs)
  have "key x \<notin> key ` set (first_by key (insert (key x) seen) xs)"
    by (auto dest: first_by_seen [of _ key])
  with Cons show ?case by simp
qed simp

lemma first_by_keys: "key ` set (first_by key seen xs) = key ` set xs - seen"
  by (induction xs arbitrary: seen) auto

lemma kinds_no_nul: "k \<in> {edge_depends, edge_related, edge_produces} \<Longrightarrow> CHR 0x00 \<notin> set k"
  by (auto simp: edge_kinds)

text \<open>For the edges of one file the concatenated key is as fine as the primary key.\<close>

definition from_file :: "string \<Rightarrow> string set \<Rightarrow> edge list \<Rightarrow> bool" where
  "from_file path kinds es \<longleftrightarrow>
     kinds \<subseteq> {edge_depends, edge_related, edge_produces} \<and>
     (\<forall>e \<in> set es. e_from_path e = path \<and> e_kind e \<in> kinds)"

lemma edge_key_pk:
  assumes "from_file path kinds es" and "e \<in> set es" and "f \<in> set es" and "edge_key e = edge_key f"
  shows "edge_pk e = edge_pk f"
proof -
  have k: "CHR 0x00 \<notin> set (e_kind e)" "CHR 0x00 \<notin> set (e_kind f)"
    using assms(1-3) kinds_no_nul by (auto simp: from_file_def)
  have p: "e_from_path e = e_from_path f" using assms(1-3) by (simp add: from_file_def)
  with assms(4) have "e_kind e @ CHR 0x00 # e_to_id e = e_kind f @ CHR 0x00 # e_to_id f"
    by (simp add: edge_key_def)
  from split_at_sep [OF k this] p show ?thesis by (simp add: edge_pk_def)
qed

lemma unique_edges_distinct:
  assumes "from_file path kinds es"
  shows "distinct (map edge_pk (unique_edges es))" and "set (unique_edges es) \<subseteq> set es"
    and "edge_pk ` set (unique_edges es) = edge_pk ` set es"
proof -
  have sub: "set (unique_edges es) \<subseteq> set es"
    by (auto simp: unique_edges_def dest: first_by_seen)
  show "set (unique_edges es) \<subseteq> set es" by (rule sub)
  have keys: "distinct (map edge_key (unique_edges es))"
  proof (cases "length es < 2")
    case True
    then show ?thesis by (cases es) (auto simp: unique_edges_def)
  qed (simp add: unique_edges_def distinct_first_by)
  have pk: "edge_key e = edge_key f" if "edge_pk e = edge_pk f" for e f
    using that by (simp add: edge_pk_def edge_key_def)
  have "inj_on edge_pk (set (unique_edges es))"
    by (rule inj_onI, rule distinct_map_eqD [OF keys], assumption, assumption, rule pk)
  then show "distinct (map edge_pk (unique_edges es))"
    using keys unfolding distinct_map by blast
  have "edge_key ` set (unique_edges es) = edge_key ` set es"
    by (simp add: unique_edges_def first_by_keys)
  then have rep: "\<exists>f \<in> set (unique_edges es). edge_key f = edge_key e" if "e \<in> set es" for e
    using that by (metis imageE imageI)
  have "edge_pk e \<in> edge_pk ` set (unique_edges es)" if e: "e \<in> set es" for e
  proof -
    obtain f where f: "f \<in> set (unique_edges es)" "edge_key f = edge_key e" using rep [OF e] by auto
    have "edge_pk f = edge_pk e" using edge_key_pk [OF assms _ e f(2)] f(1) sub by auto
    with f(1) show ?thesis by (metis imageI)
  qed
  then show "edge_pk ` set (unique_edges es) = edge_pk ` set es"
    using sub by auto
qed

section \<open>The invariant of the index\<close>

definition ticket_paths :: "db \<Rightarrow> string set" where
  "ticket_paths d = (tk_path \<circ> snd) ` set (db_tickets d)"

definition design_paths :: "db \<Rightarrow> string set" where
  "design_paths d = (ds_path \<circ> snd) ` set (db_designs d)"

definition edge_owned :: "db \<Rightarrow> edge \<Rightarrow> bool" where
  "edge_owned d e \<longleftrightarrow>
     e_kind e \<in> {edge_depends, edge_related} \<and> e_from_path e \<in> ticket_paths d \<or>
     e_kind e = edge_produces \<and> e_from_path e \<in> design_paths d"

definition db_ok :: "db \<Rightarrow> bool" where
  "db_ok d \<longleftrightarrow>
     in_step tk_path tk_title (db_tickets d) (db_fts d) \<and>
     in_step ds_path ds_title (db_designs d) (db_design_fts d) \<and>
     distinct (db_tags d) \<and> (\<forall>(p, t) \<in> set (db_tags d). t \<noteq> [] \<and> p \<in> ticket_paths d) \<and>
     distinct (map edge_pk (db_edges d)) \<and> (\<forall>e \<in> set (db_edges d). edge_owned d e) \<and>
     distinct (map fst (db_meta d))"

text \<open>The edges a caller hands over belong to the file it upserts.\<close>

fun op_ok :: "write_op \<Rightarrow> bool" where
  "op_ok (WUpsertTicket p es) = from_file (tk_path p) {edge_depends, edge_related} es"
| "op_ok (WUpsertDesign p es) = from_file (ds_path p) {edge_produces} es"
| "op_ok _ = True"

lemma kinds_differ [simp]:
  "edge_produces \<noteq> edge_depends" "edge_produces \<noteq> edge_related" "edge_depends \<noteq> edge_related"
  "edge_depends \<noteq> edge_produces" "edge_related \<noteq> edge_produces" "edge_related \<noteq> edge_depends"
  by (simp_all add: edge_kinds)

lemma stored_ticket_simps [simp]: "tk_path (stored_ticket p) = tk_path p" "tk_title (stored_ticket p) = tk_title p"
  "tk_scope (stored_ticket p) = tk_scope p"
  by (simp_all add: stored_ticket_def)

lemma stored_design_simps [simp]: "ds_path (stored_design p) = ds_path p" "ds_title (stored_design p) = ds_title p"
  "ds_scope (stored_design p) = ds_scope p"
  by (simp_all add: stored_design_def)

lemma distinct_map_append_filter:
  "distinct (map f xs) \<Longrightarrow> distinct (map f ys) \<Longrightarrow> (\<And>x y. x \<in> set xs \<Longrightarrow> P x \<Longrightarrow> y \<in> set ys \<Longrightarrow> f x \<noteq> f y) \<Longrightarrow>
     distinct (map f (filter P xs @ ys))"
  by (force simp: distinct_map_filter)

text \<open>Replacing the edges a file owns.\<close>

lemma replace_edges:
  assumes "distinct (map edge_pk rows)" and "from_file path kinds es"
    and "\<And>e. e \<in> set rows \<Longrightarrow> e_from_path e = path \<Longrightarrow> e_kind e \<in> kinds \<Longrightarrow> own e"
  shows "insert_edges (unique_edges es) (filter (\<lambda>e. \<not> own e) rows) = Inr (filter (\<lambda>e. \<not> own e) rows @ unique_edges es)"
    and "distinct (map edge_pk (filter (\<lambda>e. \<not> own e) rows @ unique_edges es))"
proof -
  note u = unique_edges_distinct [OF assms(2)]
  show d: "distinct (map edge_pk (filter (\<lambda>e. \<not> own e) rows @ unique_edges es))"
    by (rule distinct_map_append_filter [OF assms(1) u(1)])
      (use assms(2,3) u(2) in \<open>force simp: edge_pk_def from_file_def\<close>)
  show "insert_edges (unique_edges es) (filter (\<lambda>e. \<not> own e) rows) = Inr (filter (\<lambda>e. \<not> own e) rows @ unique_edges es)"
    by (rule insert_edges_distinct [OF d]) (use assms(2) u(2) in \<open>auto simp: from_file_def\<close>)
qed

lemma upsert_ticket_run:
  assumes ok: "db_ok d" and es: "from_file (tk_path p) {edge_depends, edge_related} es"
    and fresh: "\<not> stored_mtime_newer tk_path tk_mtime (tk_path p) (tk_mtime p) (db_tickets d)"
  obtains i where
    "upsert_ticket_with_edges_tx p es d =
       Inr (d\<lparr>db_tickets := upsert_row tk_path (stored_ticket p) (db_tickets d),
              db_fts := fts_put i (tk_title p) (tk_body p) (db_fts d),
              db_tags := filter (\<lambda>(path, _). path \<noteq> tk_path p) (db_tags d) @
                map (Pair (tk_path p)) (unique_tags (tk_tags p)),
              db_edges := filter (\<lambda>e. \<not> owned_by_ticket (tk_path p) e) (db_edges d) @ unique_edges es\<rparr>)"
    "row_at tk_path (tk_path p) (upsert_row tk_path (stored_ticket p) (db_tickets d)) = Some (i, stored_ticket p)"
proof -
  have dp: "distinct (map (tk_path \<circ> snd) (db_tickets d))" using ok by (simp add: db_ok_def in_step_def)
  obtain i where at: "row_at tk_path (tk_path (stored_ticket p)) (upsert_row tk_path (stored_ticket p) (db_tickets d)) =
      Some (i, stored_ticket p)"
    by (rule upsert_row_at [OF dp, of "stored_ticket p"], rule that)
  have "insert_edges (unique_edges es) (filter (\<lambda>e. \<not> owned_by_ticket (tk_path p) e) (db_edges d)) =
      Inr (filter (\<lambda>e. \<not> owned_by_ticket (tk_path p) e) (db_edges d) @ unique_edges es)"
    by (rule replace_edges(1) [OF _ es]) (use ok in \<open>auto simp: db_ok_def owned_by_ticket_def\<close>)
  then show thesis
    using at fresh that [of i] by (simp add: upsert_ticket_with_edges_tx_def upsert_ticket_tx_def Let_def)
qed

lemma upsert_design_run:
  assumes ok: "db_ok d" and es: "from_file (ds_path p) {edge_produces} es"
    and fresh: "\<not> stored_mtime_newer ds_path ds_mtime (ds_path p) (ds_mtime p) (db_designs d)"
  obtains i where
    "upsert_design_with_edges_tx p es d =
       Inr (d\<lparr>db_designs := upsert_row ds_path (stored_design p) (db_designs d),
              db_design_fts := fts_put i (ds_title p) (ds_body p) (db_design_fts d),
              db_edges := filter (\<lambda>e. \<not> owned_by_design (ds_path p) e) (db_edges d) @ unique_edges es\<rparr>)"
    "row_at ds_path (ds_path p) (upsert_row ds_path (stored_design p) (db_designs d)) = Some (i, stored_design p)"
proof -
  have dp: "distinct (map (ds_path \<circ> snd) (db_designs d))" using ok by (simp add: db_ok_def in_step_def)
  obtain i where at: "row_at ds_path (ds_path (stored_design p)) (upsert_row ds_path (stored_design p) (db_designs d)) =
      Some (i, stored_design p)"
    by (rule upsert_row_at [OF dp, of "stored_design p"], rule that)
  have "insert_edges (unique_edges es) (filter (\<lambda>e. \<not> owned_by_design (ds_path p) e) (db_edges d)) =
      Inr (filter (\<lambda>e. \<not> owned_by_design (ds_path p) e) (db_edges d) @ unique_edges es)"
    by (rule replace_edges(1) [OF _ es]) (use ok in \<open>auto simp: db_ok_def owned_by_design_def\<close>)
  then show thesis
    using at fresh that [of i] by (simp add: upsert_design_with_edges_tx_def upsert_design_tx_def Let_def)
qed

section \<open>Every write keeps the invariant\<close>

lemma upsert_ticket_ok:
  assumes ok: "db_ok d" and es: "from_file (tk_path p) {edge_depends, edge_related} es"
  shows "\<exists>d'. upsert_ticket_with_edges_tx p es d = Inr d' \<and> db_ok d'"
proof (cases "stored_mtime_newer tk_path tk_mtime (tk_path p) (tk_mtime p) (db_tickets d)")
  case True
  then show ?thesis using ok by (simp add: upsert_ticket_with_edges_tx_def)
next
  case False
  obtain i where run: "upsert_ticket_with_edges_tx p es d =
       Inr (d\<lparr>db_tickets := upsert_row tk_path (stored_ticket p) (db_tickets d),
              db_fts := fts_put i (tk_title p) (tk_body p) (db_fts d),
              db_tags := filter (\<lambda>(path, _). path \<noteq> tk_path p) (db_tags d) @
                map (Pair (tk_path p)) (unique_tags (tk_tags p)),
              db_edges := filter (\<lambda>e. \<not> owned_by_ticket (tk_path p) e) (db_edges d) @ unique_edges es\<rparr>)"
      (is "_ = Inr ?d")
    and at: "row_at tk_path (tk_path p) (upsert_row tk_path (stored_ticket p) (db_tickets d)) = Some (i, stored_ticket p)"
    by (rule upsert_ticket_run [OF ok es False])
  have paths: "ticket_paths ?d = insert (tk_path p) (ticket_paths d)"
    using upsert_row_paths [of tk_path "stored_ticket p" "db_tickets d"] by (simp add: ticket_paths_def)
  have dpaths: "design_paths ?d = design_paths d" by (simp add: design_paths_def)
  have "in_step tk_path tk_title (db_tickets ?d) (db_fts ?d)"
    using fts_put_in_step [of tk_path tk_title "db_tickets d" "db_fts d" "stored_ticket p" i "tk_body p"] ok at
    by (simp add: db_ok_def)
  moreover have "distinct (map edge_pk (db_edges ?d))"
    using replace_edges(2) [OF _ es, of "db_edges d" "owned_by_ticket (tk_path p)"] ok
    by (simp add: db_ok_def owned_by_ticket_def)
  moreover have "\<forall>e \<in> set (db_edges ?d). edge_owned ?d e"
    using ok es unique_edges_distinct(2) [OF es]
    by (auto simp: db_ok_def edge_owned_def paths dpaths from_file_def)
  moreover have "distinct (db_tags ?d)"
    using ok by (auto simp: db_ok_def unique_tags_def distinct_map inj_on_def)
  moreover have "\<forall>(q, t) \<in> set (db_tags ?d). t \<noteq> [] \<and> q \<in> ticket_paths ?d"
    unfolding paths using ok by (auto simp: db_ok_def unique_tags_def)
  moreover have "in_step ds_path ds_title (db_designs ?d) (db_design_fts ?d)" "distinct (map fst (db_meta ?d))"
    using ok by (simp_all add: db_ok_def)
  ultimately have "db_ok ?d" unfolding db_ok_def by blast
  with run show ?thesis by blast
qed

lemma upsert_design_ok:
  assumes ok: "db_ok d" and es: "from_file (ds_path p) {edge_produces} es"
  shows "\<exists>d'. upsert_design_with_edges_tx p es d = Inr d' \<and> db_ok d'"
proof (cases "stored_mtime_newer ds_path ds_mtime (ds_path p) (ds_mtime p) (db_designs d)")
  case True
  then show ?thesis using ok by (simp add: upsert_design_with_edges_tx_def)
next
  case False
  obtain i where run: "upsert_design_with_edges_tx p es d =
       Inr (d\<lparr>db_designs := upsert_row ds_path (stored_design p) (db_designs d),
              db_design_fts := fts_put i (ds_title p) (ds_body p) (db_design_fts d),
              db_edges := filter (\<lambda>e. \<not> owned_by_design (ds_path p) e) (db_edges d) @ unique_edges es\<rparr>)"
      (is "_ = Inr ?d")
    and at: "row_at ds_path (ds_path p) (upsert_row ds_path (stored_design p) (db_designs d)) = Some (i, stored_design p)"
    by (rule upsert_design_run [OF ok es False])
  have paths: "design_paths ?d = insert (ds_path p) (design_paths d)"
    using upsert_row_paths [of ds_path "stored_design p" "db_designs d"] by (simp add: design_paths_def)
  have tpaths: "ticket_paths ?d = ticket_paths d" by (simp add: ticket_paths_def)
  have "in_step ds_path ds_title (db_designs ?d) (db_design_fts ?d)"
    using fts_put_in_step [of ds_path ds_title "db_designs d" "db_design_fts d" "stored_design p" i "ds_body p"] ok at
    by (simp add: db_ok_def)
  moreover have "distinct (map edge_pk (db_edges ?d))"
    using replace_edges(2) [OF _ es, of "db_edges d" "owned_by_design (ds_path p)"] ok
    by (simp add: db_ok_def owned_by_design_def)
  moreover have "\<forall>e \<in> set (db_edges ?d). edge_owned ?d e"
    using ok es unique_edges_distinct(2) [OF es]
    by (auto simp: db_ok_def edge_owned_def paths tpaths from_file_def)
  moreover have "in_step tk_path tk_title (db_tickets ?d) (db_fts ?d)" "distinct (map fst (db_meta ?d))"
      "distinct (db_tags ?d)" "\<forall>(q, t) \<in> set (db_tags ?d). t \<noteq> [] \<and> q \<in> ticket_paths ?d"
    using ok unfolding tpaths by (simp_all add: db_ok_def)
  ultimately have "db_ok ?d" unfolding db_ok_def by blast
  with run show ?thesis by blast
qed

lemma distinct_map_filter_rows: "distinct (map f xs) \<Longrightarrow> distinct (map f (filter P xs))"
  by (rule distinct_map_filter)

lemma delete_by_path_ok:
  assumes ok: "db_ok d"
  shows "db_ok (delete_by_path_tx path d) \<and> path \<notin> ticket_paths (delete_by_path_tx path d) \<and>
    (\<forall>e \<in> set (db_edges (delete_by_path_tx path d)). \<not> owned_by_ticket path e)"
proof (cases "row_at tk_path path (db_tickets d)")
  case None
  then have "path \<notin> ticket_paths d" by (auto simp: row_at_None ticket_paths_def)
  with None ok show ?thesis
    by (auto simp: delete_by_path_tx_def db_ok_def edge_owned_def owned_by_ticket_def)
next
  case (Some x)
  obtain i t where x: "x = (i, t)" by (cases x)
  from Some x have it: "(i, t) \<in> set (db_tickets d)" "tk_path t = path" using row_at_Some by fastforce+
  let ?d = "delete_by_path_tx path d"
  have d: "?d = d\<lparr>db_fts := filter (\<lambda>(j, _). j \<notin> {i}) (db_fts d),
            db_tickets := filter (\<lambda>(_, t). tk_path t \<noteq> path) (db_tickets d),
            db_tags := filter (\<lambda>(p, _). p \<noteq> path) (db_tags d),
            db_edges := filter (\<lambda>e. \<not> owned_by_ticket path e) (db_edges d)\<rparr>"
    using Some x by (simp add: delete_by_path_tx_def)
  have dist: "distinct (map fst (db_tickets d))" "distinct (map (tk_path \<circ> snd) (db_tickets d))"
    using ok by (simp_all add: db_ok_def in_step_def)
  have keep: "tk_path r \<noteq> path \<longleftrightarrow> j \<notin> {i}" if "(j, r) \<in> set (db_tickets d)" for j r
    using distinct_map_eqD [OF dist(1) that it(1)] distinct_map_eqD [OF dist(2) that it(1)] it(2) by auto
  have paths: "ticket_paths ?d = ticket_paths d - {path}" by (auto simp: d ticket_paths_def)
  have dpaths: "design_paths ?d = design_paths d" by (simp add: d design_paths_def)
  have "in_step tk_path tk_title (db_tickets ?d) (db_fts ?d)"
    using in_step_filter [of tk_path tk_title "db_tickets d" "db_fts d" "\<lambda>r. tk_path r \<noteq> path" "{i}"] keep ok
    by (simp add: d db_ok_def)
  moreover have "\<forall>e \<in> set (db_edges ?d). edge_owned ?d e"
    using ok unfolding edge_owned_def paths dpaths by (auto simp: d db_ok_def edge_owned_def owned_by_ticket_def)
  moreover have "\<forall>(q, t) \<in> set (db_tags ?d). t \<noteq> [] \<and> q \<in> ticket_paths ?d"
    unfolding paths using ok by (auto simp: d db_ok_def)
  moreover have "in_step ds_path ds_title (db_designs ?d) (db_design_fts ?d)" "distinct (map fst (db_meta ?d))"
      "distinct (map edge_pk (db_edges ?d))" "distinct (db_tags ?d)"
    using ok by (simp_all add: d db_ok_def distinct_map_filter)
  ultimately have "db_ok ?d" unfolding db_ok_def by blast
  then show ?thesis using paths by (auto simp: d)
qed

lemma delete_design_ok:
  assumes ok: "db_ok d"
  shows "db_ok (delete_design_by_path_tx path d)"
proof (cases "row_at ds_path path (db_designs d)")
  case None
  with ok show ?thesis by (simp add: delete_design_by_path_tx_def)
next
  case (Some x)
  obtain i t where x: "x = (i, t)" by (cases x)
  from Some x have it: "(i, t) \<in> set (db_designs d)" "ds_path t = path" using row_at_Some by fastforce+
  let ?d = "delete_design_by_path_tx path d"
  have d: "?d = d\<lparr>db_design_fts := filter (\<lambda>(j, _). j \<notin> {i}) (db_design_fts d),
            db_designs := filter (\<lambda>(_, t). ds_path t \<noteq> path) (db_designs d),
            db_edges := filter (\<lambda>e. \<not> owned_by_design path e) (db_edges d)\<rparr>"
    using Some x by (simp add: delete_design_by_path_tx_def)
  have dist: "distinct (map fst (db_designs d))" "distinct (map (ds_path \<circ> snd) (db_designs d))"
    using ok by (simp_all add: db_ok_def in_step_def)
  have keep: "ds_path r \<noteq> path \<longleftrightarrow> j \<notin> {i}" if "(j, r) \<in> set (db_designs d)" for j r
    using distinct_map_eqD [OF dist(1) that it(1)] distinct_map_eqD [OF dist(2) that it(1)] it(2) by auto
  have paths: "design_paths ?d = design_paths d - {path}" by (auto simp: d design_paths_def)
  have tpaths: "ticket_paths ?d = ticket_paths d" by (simp add: d ticket_paths_def)
  have "in_step ds_path ds_title (db_designs ?d) (db_design_fts ?d)"
    using in_step_filter [of ds_path ds_title "db_designs d" "db_design_fts d" "\<lambda>r. ds_path r \<noteq> path" "{i}"] keep ok
    by (simp add: d db_ok_def)
  moreover have "\<forall>e \<in> set (db_edges ?d). edge_owned ?d e"
    using ok unfolding edge_owned_def paths tpaths by (auto simp: d db_ok_def edge_owned_def owned_by_design_def)
  moreover have "in_step tk_path tk_title (db_tickets ?d) (db_fts ?d)" "distinct (map fst (db_meta ?d))"
      "distinct (map edge_pk (db_edges ?d))" "distinct (db_tags ?d)"
      "\<forall>(q, t) \<in> set (db_tags ?d). t \<noteq> [] \<and> q \<in> ticket_paths ?d"
    unfolding tpaths using ok by (simp_all add: d db_ok_def distinct_map_filter)
  ultimately show ?thesis unfolding db_ok_def by blast
qed

lemma set_last_index_ok:
  assumes ok: "db_ok d"
  shows "db_ok (set_last_index scope ns d)"
proof -
  have "map fst (map (\<lambda>(s, n). if s = scope then (s, ns) else (s, n)) xs) = map fst xs" for xs
    by (induction xs) auto
  then have "distinct (map fst (db_meta (set_last_index scope ns d)))"
    using ok by (auto simp: set_last_index_def db_ok_def simp del: map_map)
  then show ?thesis
    using ok by (simp add: db_ok_def set_last_index_def edge_owned_def ticket_paths_def design_paths_def)
qed

lemma run_op_ok:
  assumes "db_ok d" and "op_ok w"
  shows "\<exists>d'. run_op w d = Inr d' \<and> db_ok d'"
  using assms upsert_ticket_ok upsert_design_ok delete_by_path_ok delete_design_ok set_last_index_ok
  by (cases w) auto

lemma in_filter_fst: "j \<in> set (map fst (filter (\<lambda>(_, t). P t) xs)) \<longleftrightarrow> (\<exists>t. (j, t) \<in> set xs \<and> P t)"
  by force

lemma delete_scope_ok:
  assumes ok: "db_ok d"
  shows "db_ok (delete_scope scope d)"
proof -
  let ?d = "delete_scope scope d"
  let ?T = "{t. t \<in> snd ` set (db_tickets d) \<and> tk_scope t = scope}"
  let ?D = "{t. t \<in> snd ` set (db_designs d) \<and> ds_scope t = scope}"
  let ?tr = "set (map fst (filter (\<lambda>(_, t). tk_scope t = scope) (db_tickets d)))"
  let ?dr = "set (map fst (filter (\<lambda>(_, t). ds_scope t = scope) (db_designs d)))"
  have sets: "set (map snd (filter (\<lambda>(_, t). tk_scope t = scope) (db_tickets d))) = ?T"
    "set (map snd (filter (\<lambda>(_, t). ds_scope t = scope) (db_designs d))) = ?D" by force+
  have d: "?d = d\<lparr>db_fts := filter (\<lambda>(j, _). j \<notin> ?tr) (db_fts d),
        db_design_fts := filter (\<lambda>(j, _). j \<notin> ?dr) (db_design_fts d),
        db_edges := filter (\<lambda>e. \<not> (e_from_scope e = scope \<and> e_kind e = edge_produces) \<and>
             \<not> (\<exists>t \<in> ?T. owned_by_ticket (tk_path t) e) \<and> \<not> (\<exists>t \<in> ?D. owned_by_design (ds_path t) e)) (db_edges d),
        db_tags := filter (\<lambda>(p, _). p \<notin> tk_path ` ?T) (db_tags d),
        db_tickets := filter (\<lambda>(_, t). tk_scope t \<noteq> scope) (db_tickets d),
        db_designs := filter (\<lambda>(_, t). ds_scope t \<noteq> scope) (db_designs d),
        db_meta := filter (\<lambda>(s, _). s \<noteq> scope) (db_meta d)\<rparr>"
    unfolding delete_scope_def Let_def sets ..
  have dist: "distinct (map fst (db_tickets d))" "distinct (map fst (db_designs d))"
    using ok by (simp_all add: db_ok_def in_step_def)
  have keepT: "tk_scope r \<noteq> scope \<longleftrightarrow> j \<notin> ?tr" if jr: "(j, r) \<in> set (db_tickets d)" for j r
  proof -
    have "r' = r" if "(j, r') \<in> set (db_tickets d)" for r'
      using distinct_map_eqD [OF dist(1) that jr] by simp
    with jr show ?thesis unfolding in_filter_fst by blast
  qed
  have keepD: "ds_scope r \<noteq> scope \<longleftrightarrow> j \<notin> ?dr" if jr: "(j, r) \<in> set (db_designs d)" for j r
  proof -
    have "r' = r" if "(j, r') \<in> set (db_designs d)" for r'
      using distinct_map_eqD [OF dist(2) that jr] by simp
    with jr show ?thesis unfolding in_filter_fst by blast
  qed
  have tpaths: "q \<in> ticket_paths ?d" if "q \<in> ticket_paths d" "q \<notin> tk_path ` ?T" for q
    using that by (force simp: d ticket_paths_def)
  have dpaths: "q \<in> design_paths ?d" if "q \<in> design_paths d" "q \<notin> ds_path ` ?D" for q
    using that by (force simp: d design_paths_def)
  have "in_step tk_path tk_title (db_tickets ?d) (db_fts ?d)"
    unfolding d using in_step_filter [of tk_path tk_title "db_tickets d" "db_fts d" "\<lambda>r. tk_scope r \<noteq> scope" ?tr] keepT ok
    by (simp add: db_ok_def)
  moreover have "in_step ds_path ds_title (db_designs ?d) (db_design_fts ?d)"
    unfolding d using in_step_filter [of ds_path ds_title "db_designs d" "db_design_fts d" "\<lambda>r. ds_scope r \<noteq> scope" ?dr] keepD ok
    by (simp add: db_ok_def)
  moreover have "edge_owned ?d e" if e: "e \<in> set (db_edges ?d)" for e
  proof -
    from e have old: "e \<in> set (db_edges d)" and keep: "\<not> (\<exists>t \<in> ?T. owned_by_ticket (tk_path t) e)"
        "\<not> (\<exists>t \<in> ?D. owned_by_design (ds_path t) e)"
      by (simp_all add: d)
    from old ok have "edge_owned d e" by (simp add: db_ok_def)
    then show ?thesis
      unfolding edge_owned_def using keep tpaths dpaths by (auto simp: owned_by_ticket_def owned_by_design_def)
  qed
  moreover have "\<forall>(q, t) \<in> set (db_tags ?d). t \<noteq> [] \<and> q \<in> ticket_paths ?d"
  proof clarify
    fix q t
    assume qt: "(q, t) \<in> set (db_tags ?d)"
    then have "(q, t) \<in> set (db_tags d)" "q \<notin> tk_path ` ?T" by (simp_all add: d)
    then show "t \<noteq> [] \<and> q \<in> ticket_paths ?d" using ok tpaths [of q] by (auto simp: db_ok_def)
  qed
  moreover have "distinct (map fst (db_meta ?d))" "distinct (map edge_pk (db_edges ?d))" "distinct (db_tags ?d)"
    using ok by (simp_all add: d db_ok_def distinct_map_filter)
  ultimately show ?thesis unfolding db_ok_def by blast
qed

lemma run_ops_ok:
  assumes "db_ok d" and "list_all op_ok ws"
  shows "\<exists>d'. run_ops ws d = Inr d' \<and> db_ok d'"
  using assms
proof (induction ws arbitrary: d)
  case (Cons w ws)
  then obtain d1 where "run_op w d = Inr d1" "db_ok d1" using run_op_ok [of d w] by auto
  with Cons show ?case by simp
qed simp

lemma run_scope_write_ok: "db_ok d \<Longrightarrow> list_all op_ok ws \<Longrightarrow> db_ok (snd (run_scope_write ws d))"
  using run_ops_ok [of d ws] by (auto simp: run_scope_write_def)

section \<open>Properties\<close>


definition sample_row :: "string \<Rightarrow> string list \<Rightarrow> int \<Rightarrow> ticket" where
  "sample_row path tags mtime =
     \<lparr>tk_path = path, tk_scope = ''app'', tk_id = ''app-ab23'', tk_short_id = ''ab23'', tk_status = ''todo'',
      tk_order_key = ''a0'', tk_title = ''T'', tk_summary = [], tk_created = [], tk_changed = [], tk_tags = tags,
      tk_custom = [], tk_status_conflict = [], tk_archived = False, tk_parse_error = False, tk_parse_msg = [],
      tk_schema_error = False, tk_body = ''B'', tk_mtime = mtime, tk_size = 1\<rparr>"

definition sample_edge :: "string \<Rightarrow> string \<Rightarrow> edge" where
  "sample_edge path target =
     \<lparr>e_from_path = path, e_from_id = ''app-ab23'', e_from_scope = ''app'', e_to_id = target, e_to_scope = ''app'',
      e_kind = edge_depends\<rparr>"

lemma empty_db_ok: "db_ok empty_db"
  by (simp add: db_ok_def empty_db_def in_step_def)


text \<open>A ticket upsert is read back exactly and touches nothing else. A row written earlier with a
  newer modification time wins and the upsert is a no-op; otherwise the row, its non-empty tags
  without duplicates in their order, and its edges (one per target and kind) replace the old ones,
  while every other ticket, its tags and edges, and the designs stay as they were.\<close>

theorem ticket_upsert_exact:
  assumes ok: "db_ok d" and es: "from_file (tk_path p) {edge_depends, edge_related} es"
    and run: "upsert_ticket_with_edges_tx p es d = Inr d'"
  shows "if stored_mtime_newer tk_path tk_mtime (tk_path p) (tk_mtime p) (db_tickets d) then d' = d
    else map_option snd (row_at tk_path (tk_path p) (db_tickets d')) = Some (stored_ticket p) \<and>
      map snd (filter (\<lambda>(q, _). q = tk_path p) (db_tags d')) = unique_tags (tk_tags p) \<and>
      edge_pk ` {e \<in> set (db_edges d'). owned_by_ticket (tk_path p) e} = edge_pk ` set es \<and>
      {x \<in> set (db_tickets d'). tk_path (snd x) \<noteq> tk_path p} = {x \<in> set (db_tickets d). tk_path (snd x) \<noteq> tk_path p} \<and>
      filter (\<lambda>(q, _). q \<noteq> tk_path p) (db_tags d') = filter (\<lambda>(q, _). q \<noteq> tk_path p) (db_tags d) \<and>
      filter (\<lambda>e. \<not> owned_by_ticket (tk_path p) e) (db_edges d') = filter (\<lambda>e. \<not> owned_by_ticket (tk_path p) e) (db_edges d) \<and>
      db_designs d' = db_designs d \<and> db_design_fts d' = db_design_fts d \<and> db_meta d' = db_meta d"
proof (cases "stored_mtime_newer tk_path tk_mtime (tk_path p) (tk_mtime p) (db_tickets d)")
  case True
  then show ?thesis using run by (simp add: upsert_ticket_with_edges_tx_def)
next
  case False
  obtain i where d': "upsert_ticket_with_edges_tx p es d =
       Inr (d\<lparr>db_tickets := upsert_row tk_path (stored_ticket p) (db_tickets d),
              db_fts := fts_put i (tk_title p) (tk_body p) (db_fts d),
              db_tags := filter (\<lambda>(path, _). path \<noteq> tk_path p) (db_tags d) @
                map (Pair (tk_path p)) (unique_tags (tk_tags p)),
              db_edges := filter (\<lambda>e. \<not> owned_by_ticket (tk_path p) e) (db_edges d) @ unique_edges es\<rparr>)"
    and at: "row_at tk_path (tk_path p) (upsert_row tk_path (stored_ticket p) (db_tickets d)) = Some (i, stored_ticket p)"
    by (rule upsert_ticket_run [OF ok es False])
  have dp: "distinct (map (tk_path \<circ> snd) (db_tickets d))" using ok by (simp add: db_ok_def in_step_def)
  obtain j where rows: "set (upsert_row tk_path (stored_ticket p) (db_tickets d)) =
      insert (j, stored_ticket p) {x \<in> set (db_tickets d). tk_path (snd x) \<noteq> tk_path (stored_ticket p)}"
    by (rule upsert_row_at [OF dp, of "stored_ticket p"], rule that)
  note u = unique_edges_distinct [OF es]
  have own: "owned_by_ticket (tk_path p) e" if "e \<in> set (unique_edges es)" for e
    using that es u(2) by (auto simp: from_file_def owned_by_ticket_def)
  have e1: "filter (\<lambda>e. \<not> owned_by_ticket (tk_path p) e) (unique_edges es) = []"
    using own by (auto simp: filter_empty_conv)
  have e2: "{e \<in> set (filter (\<lambda>e. \<not> owned_by_ticket (tk_path p) e) (db_edges d) @ unique_edges es).
      owned_by_ticket (tk_path p) e} = set (unique_edges es)" using own by auto
  have t1: "filter (\<lambda>(q, _). q = tk_path p) (filter (\<lambda>(q, _). q \<noteq> tk_path p) xs) = []" for xs :: "(string \<times> string) list"
    by (auto simp: filter_empty_conv)
  have t2: "filter (\<lambda>(q, _). q = tk_path p) (map (Pair (tk_path p)) ts) = map (Pair (tk_path p)) ts"
    "filter (\<lambda>(q, _). q \<noteq> tk_path p) (map (Pair (tk_path p)) ts) = []" for ts :: "string list"
    by (simp_all add: filter_empty_conv)
  have r: "{x \<in> set (upsert_row tk_path (stored_ticket p) (db_tickets d)). tk_path (snd x) \<noteq> tk_path p} =
      {x \<in> set (db_tickets d). tk_path (snd x) \<noteq> tk_path p}"
    unfolding rows by auto
  have d'_eq: "d' = d\<lparr>db_tickets := upsert_row tk_path (stored_ticket p) (db_tickets d),
              db_fts := fts_put i (tk_title p) (tk_body p) (db_fts d),
              db_tags := filter (\<lambda>(path, _). path \<noteq> tk_path p) (db_tags d) @
                map (Pair (tk_path p)) (unique_tags (tk_tags p)),
              db_edges := filter (\<lambda>e. \<not> owned_by_ticket (tk_path p) e) (db_edges d) @ unique_edges es\<rparr>"
    using run d' by simp
  have edges: "db_edges d' = filter (\<lambda>e. \<not> owned_by_ticket (tk_path p) e) (db_edges d) @ unique_edges es"
    by (simp add: d'_eq)
  have "edge_pk ` {e \<in> set (db_edges d'). owned_by_ticket (tk_path p) e} = edge_pk ` set es"
    unfolding edges e2 by (rule u(3))
  moreover have "filter (\<lambda>e. \<not> owned_by_ticket (tk_path p) e) (db_edges d') =
      filter (\<lambda>e. \<not> owned_by_ticket (tk_path p) e) (db_edges d)"
    by (simp add: d'_eq e1)
  moreover have "{x \<in> set (db_tickets d'). tk_path (snd x) \<noteq> tk_path p} =
      {x \<in> set (db_tickets d). tk_path (snd x) \<noteq> tk_path p}"
    using r by (simp add: d'_eq)
  moreover have "map snd (filter (\<lambda>(q, _). q = tk_path p) (db_tags d')) = unique_tags (tk_tags p)"
      "filter (\<lambda>(q, _). q \<noteq> tk_path p) (db_tags d') = filter (\<lambda>(q, _). q \<noteq> tk_path p) (db_tags d)"
    by (simp_all add: d'_eq t1 t2 comp_def del: filter_filter)
  moreover have "map_option snd (row_at tk_path (tk_path p) (db_tickets d')) = Some (stored_ticket p)"
    using at by (simp add: d'_eq)
  ultimately show ?thesis using False by (simp add: d'_eq)
qed

theorem ticket_upsert_exact_witness:
  "\<exists>d'. upsert_ticket_with_edges_tx (sample_row ''p'' [''x'', [], ''y'', ''x''] 2) [sample_edge ''p'' ''app-cd45''] empty_db = Inr d' \<and>
     map snd (filter (\<lambda>(q, _). q = ''p'') (db_tags d')) = [''x'', ''y'']"
proof -
  let ?p = "sample_row ''p'' [''x'', [], ''y'', ''x''] 2" and ?es = "[sample_edge ''p'' ''app-cd45'']"
  have es: "from_file (tk_path ?p) {edge_depends, edge_related} ?es" by code_simp
  obtain d' where run: "upsert_ticket_with_edges_tx ?p ?es empty_db = Inr d'"
    using upsert_ticket_ok [OF empty_db_ok es] by blast
  have t: "unique_tags (tk_tags ?p) = [''x'', ''y'']" by code_simp
  have n: "\<not> stored_mtime_newer tk_path tk_mtime (tk_path ?p) (tk_mtime ?p) (db_tickets empty_db)" by code_simp
  have "tk_path ?p = ''p''" by code_simp
  with ticket_upsert_exact [OF empty_db_ok es run] t n run show ?thesis by auto
qed

text \<open>\<open>DeleteScope\<close> drops every trace of a scope and nothing of another: the index stays consistent, the
  scope is no longer indexed, no edge that its tickets own and no produces edge of it is left, and
  the other scopes keep exactly their rows.\<close>

theorem delete_scope_forgets:
  assumes "db_ok d"
  shows "db_ok (delete_scope scope d) \<and>
    indexed_scopes (delete_scope scope d) = indexed_scopes d - {scope} \<and>
    (\<forall>e \<in> set (db_edges (delete_scope scope d)).
       \<not> (e_kind e = edge_produces \<and> e_from_scope e = scope) \<and>
       (\<forall>(i, t) \<in> set (db_tickets d). tk_scope t = scope \<longrightarrow> \<not> owned_by_ticket (tk_path t) e)) \<and>
    db_tickets (delete_scope scope d) = filter (\<lambda>(_, t). tk_scope t \<noteq> scope) (db_tickets d) \<and>
    db_designs (delete_scope scope d) = filter (\<lambda>(_, t). ds_scope t \<noteq> scope) (db_designs d)"
proof -
  have rows: "(f \<circ> snd) ` set (filter (\<lambda>(_, t). f t \<noteq> scope) xs) = (f \<circ> snd) ` set xs - {scope}"
    for f :: "'r \<Rightarrow> string" and xs :: "(rowid \<times> 'r) list" by force
  have meta: "fst ` set (filter (\<lambda>(s, _). s \<noteq> scope) m) = fst ` set m - {scope}" for m :: "(string \<times> int) list"
    by force
  have "indexed_scopes (delete_scope scope d) = indexed_scopes d - {scope}"
    using rows [of tk_scope "db_tickets d"] rows [of ds_scope "db_designs d"] meta [of "db_meta d"]
    by (simp add: indexed_scopes_def delete_scope_def Let_def Un_Diff)
  then show ?thesis
    using delete_scope_ok [OF assms] by (force simp: delete_scope_def Let_def)
qed

theorem delete_scope_forgets_witness:
  "\<exists>d'. run_scope_write [WUpsertTicket (sample_row ''p'' [''x''] 1) []] empty_db = (None, d') \<and>
     indexed_scopes (delete_scope ''app'' d') = {}"
proof -
  have ops: "list_all op_ok [WUpsertTicket (sample_row ''p'' [''x''] 1) []]" by code_simp
  let ?d = "snd (run_scope_write [WUpsertTicket (sample_row ''p'' [''x''] 1) []] empty_db)"
  have run: "fst (run_scope_write [WUpsertTicket (sample_row ''p'' [''x''] 1) []] empty_db) = None" by code_simp
  have ok: "db_ok ?d" by code_simp
  have "indexed_scopes ?d = {''app''}" by code_simp
  with delete_scope_forgets [OF ok, of "''app''"] run show ?thesis
    by (intro exI [of _ ?d]) (simp add: prod_eq_iff)
qed

end
