(* ===== verification/Boards.thy ===== *)
theory Boards
  imports IndexDb Statuses Collision
begin

text \<open>
  Reading the index: the queries of \<open>read.go\<close>, the boards and the pulse of \<open>board.go\<close>, the
  integrity aggregates of \<open>integrity.go\<close> and the tag sets of \<open>tags.go\<close>. A query is the
  selection on the table rows its \<open>WHERE\<close> clause states, sorted as its \<open>ORDER BY\<close> says; the
  tags of the selected tickets are attached from \<open>ticket_tags\<close>. The full-text ranking is
  the parameter \<open>bm25\<close>: from the indexed text and a match expression, a score per matching
  rowid, or none at all for a malformed expression.
\<close>

section \<open>Ticket, design and edge queries\<close>

definition attach_tags :: "db \<Rightarrow> ticket list \<Rightarrow> ticket list" where
  "attach_tags d ts =
     map (\<lambda>p. p\<lparr>tk_tags := map snd (filter (\<lambda>(path, _). path = tk_path p) (db_tags d))\<rparr>) ts"

definition query_tickets :: "(ticket \<Rightarrow> bool) \<Rightarrow> db \<Rightarrow> ticket list" where
  "query_tickets P d = attach_tags d (filter P (map snd (db_tickets d)))"

definition all_tickets :: "db \<Rightarrow> ticket list" where
  "all_tickets = query_tickets (\<lambda>p. True)"

definition scope_tickets :: "string \<Rightarrow> db \<Rightarrow> ticket list" where
  "scope_tickets scope = query_tickets (\<lambda>p. tk_scope p = scope)"

definition tickets_by_id :: "string \<Rightarrow> string \<Rightarrow> db \<Rightarrow> ticket list" where
  "tickets_by_id scope i = query_tickets (\<lambda>p. tk_scope p = scope \<and> tk_id p = i)"

definition tickets_by_short_id :: "string \<Rightarrow> string \<Rightarrow> db \<Rightarrow> ticket list" where
  "tickets_by_short_id scope short = query_tickets (\<lambda>p. tk_scope p = scope \<and> tk_short_id p = short)"

definition tickets_by_full_id :: "string \<Rightarrow> db \<Rightarrow> ticket list" where
  "tickets_by_full_id i = query_tickets (\<lambda>p. tk_id p = i)"

definition tickets_by_full_ids :: "string list \<Rightarrow> db \<Rightarrow> ticket list" where
  "tickets_by_full_ids ids d = (if length ids = 0 then [] else query_tickets (\<lambda>p. tk_id p \<in> set ids) d)"

definition tickets_in_scopes :: "string list \<Rightarrow> db \<Rightarrow> ticket list" where
  "tickets_in_scopes scopes d = (if length scopes = 0 then [] else query_tickets (\<lambda>p. tk_scope p \<in> set scopes) d)"

definition query_designs :: "(design \<Rightarrow> bool) \<Rightarrow> db \<Rightarrow> design list" where
  "query_designs P d = filter P (map snd (db_designs d))"

definition scope_designs :: "string \<Rightarrow> db \<Rightarrow> design list" where
  "scope_designs scope d = sort_key (\<lambda>p. (ds_id p, ds_path p)) (query_designs (\<lambda>p. ds_scope p = scope) d)"

definition designs_by_id :: "string \<Rightarrow> string \<Rightarrow> db \<Rightarrow> design list" where
  "designs_by_id scope i = query_designs (\<lambda>p. ds_scope p = scope \<and> ds_id p = i)"

definition designs_by_short_id :: "string \<Rightarrow> string \<Rightarrow> db \<Rightarrow> design list" where
  "designs_by_short_id scope short = query_designs (\<lambda>p. ds_scope p = scope \<and> ds_short_id p = short)"

definition designs_by_full_ids :: "string list \<Rightarrow> db \<Rightarrow> design list" where
  "designs_by_full_ids ids d = (if length ids = 0 then [] else query_designs (\<lambda>p. ds_id p \<in> set ids) d)"

definition all_edges :: "db \<Rightarrow> edge list" where
  "all_edges d = db_edges d"

definition edges_by_target :: "string \<Rightarrow> db \<Rightarrow> edge list" where
  "edges_by_target toId d =
     sort_key (\<lambda>e. (e_from_id e, e_kind e)) (filter (\<lambda>e. e_to_id e = toId) (db_edges d))"

definition edges_from_path :: "string \<Rightarrow> db \<Rightarrow> edge list" where
  "edges_from_path path d =
     sort_key (\<lambda>e. (e_kind e, e_to_id e)) (filter (\<lambda>e. e_from_path e = path) (db_edges d))"

definition edges_from_id :: "string \<Rightarrow> db \<Rightarrow> edge list" where
  "edges_from_id fromId d =
     sort_key (\<lambda>e. (e_from_path e, e_kind e, e_to_id e)) (filter (\<lambda>e. e_from_id e = fromId) (db_edges d))"

definition edges_to_scope :: "string \<Rightarrow> db \<Rightarrow> edge list" where
  "edges_to_scope scope d =
     sort_key (\<lambda>e. (e_from_scope e, e_from_id e, e_kind e)) (filter (\<lambda>e. e_to_scope e = scope) (db_edges d))"

definition depends_from_scopes :: "string list \<Rightarrow> db \<Rightarrow> edge list" where
  "depends_from_scopes scopes d =
     (if length scopes = 0 then []
      else filter (\<lambda>e. e_kind e = edge_depends \<and> e_from_scope e \<in> set scopes) (db_edges d))"

definition depends_target_scopes :: "string list \<Rightarrow> db \<Rightarrow> string list" where
  "depends_target_scopes scopes d =
     (if length scopes = 0 then []
      else first_seen {} (map e_to_scope
             (filter (\<lambda>e. e_kind e = edge_depends \<and> e_from_scope e \<in> set scopes) (db_edges d))))"

definition same_scope_dangling_depends_count :: "string \<Rightarrow> db \<Rightarrow> nat" where
  "same_scope_dangling_depends_count scope d =
     length (filter (\<lambda>e. e_kind e = edge_depends \<and> e_from_scope e = scope \<and> e_to_scope e = scope \<and>
                         \<not> list_ex (\<lambda>(_, t). tk_scope t = scope \<and> tk_id t = e_to_id e) (db_tickets d))
                    (db_edges d))"

section \<open>Full-text search\<close>

type_synonym bm25 = "(rowid \<times> string \<times> string) list \<Rightarrow> string \<Rightarrow> (rowid \<Rightarrow> int option) option"

datatype search_error = ErrSearchQuery

text \<open>\<open>Search\<close> joins the full-text rows that match with the row of the same rowid.\<close>

definition fts_join ::
    "(rowid \<Rightarrow> int option) \<Rightarrow> ('r \<Rightarrow> bool) \<Rightarrow> (rowid \<times> string \<times> string) list \<Rightarrow> (rowid \<times> 'r) list \<Rightarrow> ('r \<times> int) list" where
  "fts_join score P fts rows =
     concat (map (\<lambda>(i, title, body). map (\<lambda>(j, p). (p, the (score i))) (filter (\<lambda>(j, p). j = i \<and> P p) rows))
                 (filter (\<lambda>(i, title, body). score i \<noteq> None) fts))"

definition search_tickets :: "bm25 \<Rightarrow> string \<Rightarrow> string \<Rightarrow> db \<Rightarrow> search_error + (ticket \<times> int) list" where
  "search_tickets bm scope expr d =
     (case bm (db_fts d) expr of
        None \<Rightarrow> Inl ErrSearchQuery
      | Some score \<Rightarrow>
          let hits = fts_join score (\<lambda>p. scope = [] \<or> tk_scope p = scope) (db_fts d) (db_tickets d);
              ranked = sort_key (\<lambda>(p, s). (s, tk_id p)) hits in
          Inr (zip (attach_tags d (map fst ranked)) (map snd ranked)))"

definition search_designs :: "bm25 \<Rightarrow> string \<Rightarrow> string \<Rightarrow> db \<Rightarrow> search_error + (design \<times> int) list" where
  "search_designs bm scope expr d =
     (case bm (db_design_fts d) expr of
        None \<Rightarrow> Inl ErrSearchQuery
      | Some score \<Rightarrow>
          Inr (sort_key (\<lambda>(p, s). (s, ds_id p))
                 (fts_join score (\<lambda>p. scope = [] \<or> ds_scope p = scope) (db_design_fts d) (db_designs d))))"

section \<open>Boards\<close>

record board_filter =
  bf_scope :: string
  bf_statuses :: "string list"
  bf_all :: bool
  bf_default_statuses :: "string list"
  bf_tags :: "string list"
  bf_lens :: "string list"

text \<open>The \<open>EXISTS\<close> subqueries on \<open>ticket_tags\<close>; \<open>lensSQL\<close> with no lens adds no predicate.\<close>

definition has_tag_in :: "db \<Rightarrow> string list \<Rightarrow> string \<Rightarrow> bool" where
  "has_tag_in d tags path = list_ex (\<lambda>(q, t). q = path \<and> t \<in> set tags) (db_tags d)"

definition lens_sql :: "db \<Rightarrow> string list \<Rightarrow> string \<Rightarrow> bool" where
  "lens_sql d lens path =
     (if length lens = 0 then True
      else \<not> list_ex (\<lambda>(q, t). q = path) (db_tags d) \<or> has_tag_in d lens path)"

definition order_by_key :: "ticket list \<Rightarrow> ticket list" where
  "order_by_key = sort_key (\<lambda>p. (tk_order_key p, tk_id p))"

definition board_where :: "board_filter \<Rightarrow> db \<Rightarrow> ticket \<Rightarrow> bool" where
  "board_where f d p \<longleftrightarrow>
     tk_scope p = bf_scope f \<and> \<not> tk_parse_error p \<and>
     (if length (bf_statuses f) > 0 then tk_status p \<in> set (bf_statuses f)
      else if bf_all f then True
      else (let def = (if length (bf_default_statuses f) = 0 then default_list_names [] else bf_default_statuses f) in
            \<not> tk_archived p \<and> tk_status p \<in> set def)) \<and>
     (if length (bf_tags f) > 0 then has_tag_in d (bf_tags f) (tk_path p)
      else if length (bf_lens f) > 0 then lens_sql d (bf_lens f) (tk_path p)
      else True)"

definition board_tickets :: "board_filter \<Rightarrow> db \<Rightarrow> ticket list" where
  "board_tickets f d = order_by_key (query_tickets (board_where f d) d)"

text \<open>\<open>sortTickets\<close>: \<open>sort.Slice\<close> with this less function, with its arguments swapped for a reversed listing.\<close>

definition ticket_less :: "bool \<Rightarrow> ticket \<Rightarrow> ticket \<Rightarrow> bool" where
  "ticket_less backward x y =
     (let a = (if backward then y else x); b = (if backward then x else y) in
      if tk_order_key a \<noteq> tk_order_key b then tk_order_key a < tk_order_key b else tk_id a < tk_id b)"

definition sort_tickets :: "bool \<Rightarrow> ticket list \<Rightarrow> ticket list" where
  "sort_tickets backward rows = sort_stable (ticket_less backward) rows"

definition sort_listing :: "string list \<Rightarrow> category gomap \<Rightarrow> ticket list \<Rightarrow> ticket list \<times> bool" where
  "sort_listing statuses custom rows =
     (let backward = all_terminal statuses custom in (sort_tickets backward rows, backward))"

definition next_candidates :: "string \<Rightarrow> db \<Rightarrow> ticket list" where
  "next_candidates scope d =
     order_by_key (query_tickets (\<lambda>p. tk_scope p = scope \<and> tk_status p = st_todo \<and> \<not> tk_archived p \<and> \<not> tk_parse_error p) d)"

section \<open>The pulse of a scope\<close>

record scope_pulse =
  sp_total :: nat
  sp_todo :: nat
  sp_review :: nat
  sp_in_progress :: nat
  sp_blocked :: nat
  sp_draft :: nat
  sp_triaged :: nat
  sp_backlog :: nat
  sp_done :: nat
  sp_cancelled :: nat
  sp_claimed :: "ticket list"
  sp_blocked_ids :: "ticket list"

definition working_by_status :: "string \<Rightarrow> string \<Rightarrow> string list \<Rightarrow> db \<Rightarrow> ticket list" where
  "working_by_status scope st lens d =
     order_by_key (query_tickets (\<lambda>p. tk_scope p = scope \<and> \<not> tk_parse_error p \<and> \<not> tk_archived p \<and> tk_status p = st \<and>
       lens_sql d lens (tk_path p)) d)"

text \<open>\<open>GROUP BY status\<close>: one row per status that occurs, with its count.\<close>

definition group_by_status :: "ticket list \<Rightarrow> (string \<times> nat) list" where
  "group_by_status rows =
     map (\<lambda>st. (st, length (filter (\<lambda>p. tk_status p = st) rows))) (first_seen {} (map tk_status rows))"

definition load_pulse :: "string \<Rightarrow> string list \<Rightarrow> db \<Rightarrow> scope_pulse" where
  "load_pulse scope lens d =
     (let parsed = filter (\<lambda>p. tk_scope p = scope \<and> \<not> tk_parse_error p) (map snd (db_tickets d));
          working = filter (\<lambda>p. \<not> tk_archived p \<and> lens_sql d lens (tk_path p)) parsed;
          groups = group_by_status working;
          n = (\<lambda>st. case map_of groups st of Some k \<Rightarrow> k | None \<Rightarrow> 0) in
      \<lparr>sp_total = length parsed, sp_todo = n st_todo, sp_review = n st_review, sp_in_progress = n st_in_progress,
       sp_blocked = n st_blocked, sp_draft = n st_draft, sp_triaged = n st_triaged, sp_backlog = n st_backlog,
       sp_done = length (filter (\<lambda>p. tk_status p = st_done) parsed),
       sp_cancelled = length (filter (\<lambda>p. tk_status p = st_cancelled) parsed),
       sp_claimed = working_by_status scope st_in_progress lens d,
       sp_blocked_ids = working_by_status scope st_blocked lens d\<rparr>)"

section \<open>Integrity aggregates\<close>

record collision_group =
  cg_scope :: string
  cg_key :: string
  cg_members :: "string list"

text \<open>
  \<open>collisions\<close>: the rows that join with a group of more than one row, in the order of the
  query, then grouped in first-seen order with their paths sorted.
\<close>

definition collisions :: "string list \<Rightarrow> (ticket \<Rightarrow> string) \<Rightarrow> (ticket \<Rightarrow> bool) \<Rightarrow> db \<Rightarrow> collision_group list" where
  "collisions scopes keyCol extra d =
     (if length scopes = 0 then []
      else
        let rows = filter (\<lambda>p. tk_scope p \<in> set scopes \<and> extra p) (map snd (db_tickets d));
            group = (\<lambda>p. (tk_scope p, keyCol p));
            big = (\<lambda>g. length (filter (\<lambda>p. group p = g) rows) > 1);
            joined = sort_key (\<lambda>p. (tk_scope p, keyCol p, tk_path p)) (filter (\<lambda>p. big (group p)) rows) in
        map (\<lambda>(s, k). \<lparr>cg_scope = s, cg_key = k,
                       cg_members = sort (map tk_path (filter (\<lambda>p. group p = (s, k)) joined))\<rparr>)
            (first_seen {} (map group joined)))"

definition duplicate_ids :: "string list \<Rightarrow> db \<Rightarrow> collision_group list" where
  "duplicate_ids scopes = collisions scopes tk_id (\<lambda>p. True)"

definition equal_orders :: "string list \<Rightarrow> db \<Rightarrow> collision_group list" where
  "equal_orders scopes = collisions scopes tk_order_key (\<lambda>p. tk_order_key p \<noteq> [])"

definition archive_drift_where :: "string list \<Rightarrow> ticket \<Rightarrow> bool" where
  "archive_drift_where terminal p \<longleftrightarrow>
     \<not> tk_parse_error p \<and> (tk_archived p \<and> \<not> tk_status p \<in> set terminal \<or> \<not> tk_archived p \<and> tk_status p \<in> set terminal)"

definition archive_drift :: "string \<Rightarrow> string list \<Rightarrow> db \<Rightarrow> ticket list" where
  "archive_drift scope terminal = query_tickets (\<lambda>p. tk_scope p = scope \<and> archive_drift_where terminal p)"

definition has_archive_drift :: "string \<Rightarrow> string list \<Rightarrow> db \<Rightarrow> bool" where
  "has_archive_drift scope terminal d =
     list_ex (\<lambda>(_, p). tk_scope p = scope \<and> archive_drift_where terminal p) (db_tickets d)"

definition parse_error_count :: "string list \<Rightarrow> db \<Rightarrow> nat" where
  "parse_error_count scopes d =
     (if length scopes = 0 then 0
      else length (filter (\<lambda>(_, p). tk_parse_error p \<and> tk_scope p \<in> set scopes) (db_tickets d)))"

text \<open>The skip set of \<open>next\<close> has the scope and the id with a NUL between them.\<close>

definition scoped_key :: "string \<Rightarrow> string \<Rightarrow> string" where
  "scoped_key scope i = scope @ [CHR 0x00] @ i"

definition duplicate_id_set :: "string list \<Rightarrow> db \<Rightarrow> string set" where
  "duplicate_id_set scopes d = set (map (\<lambda>c. scoped_key (cg_scope c) (cg_key c)) (duplicate_ids scopes d))"

section \<open>Tags\<close>

definition scope_tag_membership :: "string \<Rightarrow> db \<Rightarrow> string set" where
  "scope_tag_membership scope d =
     set (map snd (filter (\<lambda>(path, tag). list_ex (\<lambda>(_, t). tk_path t = path \<and> tk_scope t = scope) (db_tickets d))
                          (db_tags d)))"

definition sorted_tags :: "string set \<Rightarrow> string list" where
  "sorted_tags seen = sorted_list_of_set seen"

definition scope_distinct_tags :: "string \<Rightarrow> db \<Rightarrow> string list" where
  "scope_distinct_tags scope d = sorted_tags (scope_tag_membership scope d)"

definition tag_membership :: "ticket list \<Rightarrow> string set" where
  "tag_membership tickets = set (filter (\<lambda>t. t \<noteq> []) (concat (map tk_tags tickets)))"

definition distinct_tags :: "ticket list \<Rightarrow> string list" where
  "distinct_tags tickets = sorted_tags (tag_membership tickets)"

fun absent_from :: "string set \<Rightarrow> string set \<Rightarrow> string list \<Rightarrow> string list" where
  "absent_from inUse seen [] = []"
| "absent_from inUse seen (tag # tags) =
     (if tag = [] then absent_from inUse seen tags
      else if tag \<in> seen then absent_from inUse seen tags
      else if tag \<in> inUse then absent_from inUse (insert tag seen) tags
      else tag # absent_from inUse (insert tag seen) tags)"

definition absent_tags :: "string list \<Rightarrow> string set \<Rightarrow> string list" where
  "absent_tags requested inUse = (if length requested = 0 then [] else absent_from inUse {} requested)"

section \<open>Rows with their tags\<close>

definition with_tags :: "db \<Rightarrow> ticket \<Rightarrow> ticket" where
  "with_tags d p = p\<lparr>tk_tags := map snd (filter (\<lambda>(path, _). path = tk_path p) (db_tags d))\<rparr>"

lemma attach_tags_map: "attach_tags d = map (with_tags d)"
  by (simp add: attach_tags_def with_tags_def fun_eq_iff)

lemma with_tags_fields [simp]:
  "tk_path (with_tags d p) = tk_path p" "tk_scope (with_tags d p) = tk_scope p" "tk_id (with_tags d p) = tk_id p"
  "tk_status (with_tags d p) = tk_status p" "tk_order_key (with_tags d p) = tk_order_key p"
  "tk_archived (with_tags d p) = tk_archived p" "tk_parse_error (with_tags d p) = tk_parse_error p"
  "tk_schema_error (with_tags d p) = tk_schema_error p" "tk_short_id (with_tags d p) = tk_short_id p"
  "tk_title (with_tags d p) = tk_title p"
  by (simp_all add: with_tags_def)

lemma set_with_tags: "set (tk_tags (with_tags d p)) = {t. (tk_path p, t) \<in> set (db_tags d)}"
  by (force simp: with_tags_def)

lemma has_tag_in_iff: "has_tag_in d tags (tk_path p) \<longleftrightarrow> set (tk_tags (with_tags d p)) \<inter> set tags \<noteq> {}"
  by (auto simp: has_tag_in_def list_ex_iff set_with_tags)

lemma lens_sql_iff:
  "lens_sql d lens (tk_path p) \<longleftrightarrow>
     lens = [] \<or> tk_tags (with_tags d p) = [] \<or> set (tk_tags (with_tags d p)) \<inter> set lens \<noteq> {}"
proof -
  have "\<not> list_ex (\<lambda>(q, t). q = tk_path p) (db_tags d) \<longleftrightarrow> set (tk_tags (with_tags d p)) = {}"
    by (auto simp: list_ex_iff set_with_tags)
  then show ?thesis by (simp add: lens_sql_def has_tag_in_iff)
qed

lemma query_tickets_map: "query_tickets P d = map (with_tags d) (filter P (map snd (db_tickets d)))"
  by (simp add: query_tickets_def attach_tags_map)

lemma mem_query: "p \<in> set (query_tickets P d) \<longleftrightarrow> (\<exists>x \<in> set (db_tickets d). P (snd x) \<and> p = with_tags d (snd x))"
  by (auto simp: query_tickets_map)

lemma length_query: "length (query_tickets P d) = length (filter P (map snd (db_tickets d)))"
  by (simp add: query_tickets_map)

lemma distinct_paths_rows: "db_ok d \<Longrightarrow> distinct (map tk_path (map snd (db_tickets d)))"
  by (simp add: db_ok_def in_step_def comp_def)

lemma query_paths:
  "db_ok d \<Longrightarrow> distinct (map tk_path (query_tickets P d))"
  using distinct_map_filter [OF distinct_paths_rows, of d P] by (simp add: query_tickets_map comp_def)

lemma filter_query:
  assumes "\<And>p. Q (with_tags d p) \<longleftrightarrow> Q' p"
  shows "filter Q (query_tickets P d) = query_tickets (\<lambda>p. P p \<and> Q' p) d"
  by (simp add: query_tickets_map filter_map comp_def assms conj_commute)

section \<open>The order of a listing\<close>

lemma sort_stable_key: "sort_stable (\<lambda>x y. k x < k y) xs = sort_key (k :: 'a \<Rightarrow> 'b :: linorder) xs"
proof -
  have "insert_stable (\<lambda>x y. k x < k y) x ys = insort_key k x ys" for x ys
    by (induction ys) (auto simp: not_less)
  then have "insert_stable (\<lambda>x y. k x < k y) = insort_key k" by (intro ext)
  then show ?thesis by (simp add: sort_stable_def sort_key_def)
qed

definition listing_key :: "ticket \<Rightarrow> string \<times> string" where
  "listing_key p = (tk_order_key p, tk_id p)"

lemma order_by_key_alt: "order_by_key = sort_key listing_key"
  by (simp add: order_by_key_def listing_key_def [abs_def])

lemma ticket_less_key:
  "ticket_less False a b \<longleftrightarrow> listing_key a < listing_key b"
  "ticket_less True a b \<longleftrightarrow> listing_key b < listing_key a"
  by (auto simp: ticket_less_def listing_key_def less_prod_def)

interpretation listing: keeper_order "ticket_less backward" for backward
proof unfold_locales
  fix x y z
  show "ticket_less backward x y \<Longrightarrow> \<not> ticket_less backward y x"
    by (cases backward) (simp_all add: ticket_less_key)
  show "\<not> ticket_less backward x y \<Longrightarrow> \<not> ticket_less backward y z \<Longrightarrow> \<not> ticket_less backward x z"
    by (cases backward) (simp_all add: ticket_less_key)
qed

lemma sort_tickets_order_by: "sort_tickets False = order_by_key"
proof
  fix xs
  have "ticket_less False = (\<lambda>x y. listing_key x < listing_key y)" by (simp add: fun_eq_iff ticket_less_key)
  then show "sort_tickets False xs = order_by_key xs"
    by (simp add: sort_tickets_def order_by_key_alt sort_stable_key)
qed

lemma order_by_key_simps [simp]:
  "set (order_by_key xs) = set xs" "length (order_by_key xs) = length xs" "mset (order_by_key xs) = mset xs"
  by (simp_all add: order_by_key_def)

lemma order_by_key_idem: "order_by_key (order_by_key xs) = order_by_key xs"
  by (simp add: order_by_key_alt sort_key_id_if_sorted)

lemma distinct_order_by: "distinct (map f (order_by_key xs)) \<longleftrightarrow> distinct (map f xs)"
  by (metis order_by_key_simps(3) mset_map mset_eq_imp_distinct_iff)

lemma filter_order_by: "filter P (order_by_key xs) = order_by_key (filter P xs)"
  by (simp add: order_by_key_def filter_sort)

section \<open>Boards and the pulse\<close>

definition tag_filter_ok :: "string list \<Rightarrow> string list \<Rightarrow> ticket \<Rightarrow> bool" where
  "tag_filter_ok tags lens p \<longleftrightarrow>
     (if tags \<noteq> [] then set (tk_tags p) \<inter> set tags \<noteq> {}
      else lens = [] \<or> tk_tags p = [] \<or> set (tk_tags p) \<inter> set lens \<noteq> {})"

lemma tag_filter_sql:
  "tag_filter_ok tags lens (with_tags d p) \<longleftrightarrow>
     (if length tags > 0 then has_tag_in d tags (tk_path p)
      else if length lens > 0 then lens_sql d lens (tk_path p) else True)"
  by (simp add: tag_filter_ok_def has_tag_in_iff lens_sql_iff)

definition status_filter_ok :: "board_filter \<Rightarrow> ticket \<Rightarrow> bool" where
  "status_filter_ok f p \<longleftrightarrow>
     (if bf_statuses f \<noteq> [] then tk_status p \<in> set (bf_statuses f)
      else bf_all f \<or> \<not> tk_archived p \<and>
        tk_status p \<in> set (if bf_default_statuses f = [] then default_list_names [] else bf_default_statuses f))"

lemma board_where_iff:
  "board_where f d p \<longleftrightarrow>
     tk_scope p = bf_scope f \<and> \<not> tk_parse_error p \<and> status_filter_ok f p \<and>
     tag_filter_ok (bf_tags f) (bf_lens f) (with_tags d p)"
  unfolding board_where_def tag_filter_sql status_filter_ok_def Let_def
  by (cases "bf_statuses f = []"; cases "bf_all f"; cases "bf_default_statuses f = []") simp_all

lemma status_filter_with_tags [simp]: "status_filter_ok f (with_tags d p) = status_filter_ok f p"
  by (simp add: status_filter_ok_def)

lemma mem_board:
  "p \<in> set (board_tickets f d) \<longleftrightarrow>
     p \<in> set (scope_tickets (bf_scope f) d) \<and> \<not> tk_parse_error p \<and> status_filter_ok f p \<and>
     tag_filter_ok (bf_tags f) (bf_lens f) p"
  unfolding board_tickets_def order_by_key_simps scope_tickets_def mem_query board_where_iff
  by fastforce

text \<open>C33. The board of a scope lists exactly the parseable tickets the filter names: with statuses given,
  those statuses, archived or not; with \<open>All\<close>, every ticket; otherwise the unarchived tickets in
  a default status. A tag filter keeps the tickets with one of the tags, a lens also keeps the
  untagged ones. No file is listed twice, and re-sorting the board with \<open>SortTickets\<close> changes nothing.\<close>

theorem board_listing_exact:
  assumes "db_ok d"
  shows "distinct (map tk_path (board_tickets f d)) \<and>
    sort_tickets False (board_tickets f d) = board_tickets f d \<and>
    (\<forall>p. p \<in> set (board_tickets f d) \<longleftrightarrow>
       p \<in> set (scope_tickets (bf_scope f) d) \<and> \<not> tk_parse_error p \<and>
       (if bf_statuses f \<noteq> [] then tk_status p \<in> set (bf_statuses f)
        else bf_all f \<or> \<not> tk_archived p \<and>
          tk_status p \<in> set (if bf_default_statuses f = [] then default_list_names [] else bf_default_statuses f)) \<and>
       (if bf_tags f \<noteq> [] then set (tk_tags p) \<inter> set (bf_tags f) \<noteq> {}
        else bf_lens f = [] \<or> tk_tags p = [] \<or> set (tk_tags p) \<inter> set (bf_lens f) \<noteq> {}))"
proof (intro conjI allI)
  show "distinct (map tk_path (board_tickets f d))"
    using query_paths [OF assms, of "board_where f d"] by (simp add: board_tickets_def distinct_order_by)
  show "sort_tickets False (board_tickets f d) = board_tickets f d"
    by (simp only: board_tickets_def sort_tickets_order_by order_by_key_idem)
qed (simp only: mem_board tag_filter_ok_def status_filter_ok_def)

lemma group_count: "(case map_of (group_by_status rows) st of Some k \<Rightarrow> k | None \<Rightarrow> 0) = length (filter (\<lambda>p. tk_status p = st) rows)"
proof -
  have m: "map_of (map (\<lambda>x. (x, f x)) xs) y = (if y \<in> set xs then Some (f y) else None)" for f :: "string \<Rightarrow> nat" and xs y
    by (induction xs) auto
  show ?thesis
    unfolding group_by_status_def m by (auto simp: filter_empty_conv)
qed

definition status_board :: "string \<Rightarrow> string \<Rightarrow> string list \<Rightarrow> db \<Rightarrow> ticket list" where
  "status_board scope st lens =
     board_tickets \<lparr>bf_scope = scope, bf_statuses = [], bf_all = False, bf_default_statuses = [st], bf_tags = [], bf_lens = lens\<rparr>"

lemma status_board_working: "status_board scope st lens d = working_by_status scope st lens d"
proof -
  have "board_where \<lparr>bf_scope = scope, bf_statuses = [], bf_all = False, bf_default_statuses = [st], bf_tags = [], bf_lens = lens\<rparr> d =
      (\<lambda>p. tk_scope p = scope \<and> \<not> tk_parse_error p \<and> \<not> tk_archived p \<and> tk_status p = st \<and> lens_sql d lens (tk_path p))"
    by (auto simp: board_where_def lens_sql_def fun_eq_iff)
  then show ?thesis by (simp add: status_board_def board_tickets_def working_by_status_def)
qed

lemma length_working:
  "length (working_by_status scope st lens d) =
     length (filter (\<lambda>p. tk_status p = st) (filter (\<lambda>p. \<not> tk_archived p \<and> lens_sql d lens (tk_path p))
       (filter (\<lambda>p. tk_scope p = scope \<and> \<not> tk_parse_error p) (map snd (db_tickets d)))))"
  by (simp add: working_by_status_def length_query) (rule arg_cong [where f = length], rule filter_cong, auto)

definition archive_board :: "string \<Rightarrow> string list \<Rightarrow> db \<Rightarrow> ticket list" where
  "archive_board scope sts =
     board_tickets \<lparr>bf_scope = scope, bf_statuses = sts, bf_all = True, bf_default_statuses = [], bf_tags = [], bf_lens = []\<rparr>"

lemma length_archive_board:
  "length (archive_board scope sts d) =
     length (filter (\<lambda>p. sts = [] \<or> tk_status p \<in> set sts)
       (filter (\<lambda>p. tk_scope p = scope \<and> \<not> tk_parse_error p) (map snd (db_tickets d))))"
  by (simp add: archive_board_def board_tickets_def length_query) (rule arg_cong [where f = length], rule filter_cong, auto simp: board_where_def)

text \<open>The pulse of a scope and its boards agree. Every working count is the length of the default board
  of that status under the same lens, the claimed and blocked tickets are those boards, the totals
  are the lengths of the boards that include the archive, and the todo count is the number of next
  candidates that pass the lens.\<close>

theorem pulse_agrees:
  "let s = load_pulse scope lens d in
   [sp_todo s, sp_review s, sp_in_progress s, sp_blocked s, sp_draft s, sp_triaged s, sp_backlog s] =
     map (\<lambda>st. length (status_board scope st lens d))
       [st_todo, st_review, st_in_progress, st_blocked, st_draft, st_triaged, st_backlog] \<and>
   sp_claimed s = status_board scope st_in_progress lens d \<and> sp_blocked_ids s = status_board scope st_blocked lens d \<and>
   [sp_total s, sp_done s, sp_cancelled s] =
     map (\<lambda>sts. length (archive_board scope sts d)) [[], [st_done], [st_cancelled]] \<and>
   status_board scope st_todo lens d = filter (tag_filter_ok [] lens) (next_candidates scope d)"
proof -
  have todo: "status_board scope st_todo lens d = filter (tag_filter_ok [] lens) (next_candidates scope d)"
    unfolding status_board_working working_by_status_def next_candidates_def filter_order_by
    by (rule arg_cong [where f = order_by_key], subst filter_query [where Q' = "\<lambda>p. lens_sql d lens (tk_path p)"])
      (auto simp: tag_filter_sql lens_sql_def query_tickets_map intro!: arg_cong [where f = "map (with_tags d)"] filter_cong)
  show ?thesis
    unfolding Let_def
    by (simp only: load_pulse_def Let_def scope_pulse.simps group_count status_board_working length_working
        length_archive_board todo [unfolded status_board_working]) simp
qed

definition sample_db :: db where
  "sample_db = snd (run_scope_write
     [WUpsertTicket ((sample_row ''p1'' [] 1)\<lparr>tk_order_key := ''a1''\<rparr>) [],
      WUpsertTicket ((sample_row ''p2'' [''ui''] 1)\<lparr>tk_order_key := ''a0''\<rparr>) []] empty_db)"

lemma sample_db_ok: "db_ok sample_db"
  unfolding sample_db_def by (rule run_scope_write_ok [OF empty_db_ok]) code_simp

definition sample_board :: board_filter where
  "sample_board = \<lparr>bf_scope = ''app'', bf_statuses = [], bf_all = False, bf_default_statuses = [],
     bf_tags = [], bf_lens = [''ui'', ''x'']\<rparr>"

theorem board_listing_exact_witness:
  "map tk_path (board_tickets sample_board sample_db) = [''p2'', ''p1''] \<and>
   distinct (map tk_path (board_tickets sample_board sample_db))"
proof -
  have "map tk_path (board_tickets sample_board sample_db) = [''p2'', ''p1'']" by code_simp
  then show ?thesis using board_listing_exact [OF sample_db_ok, of sample_board] by simp
qed

section \<open>Collisions\<close>

definition paths_where :: "(ticket \<Rightarrow> bool) \<Rightarrow> db \<Rightarrow> string set" where
  "paths_where P d = tk_path ` {p \<in> snd ` set (db_tickets d). P p}"

lemma sort_paths_where:
  assumes "db_ok d" and "mset ts = mset (filter P (map snd (db_tickets d)))"
  shows "sort (map tk_path ts) = sorted_list_of_set (paths_where P d)" and "length ts = card (paths_where P d)"
proof -
  let ?ps = "map tk_path (filter P (map snd (db_tickets d)))"
  have d: "distinct ?ps" by (rule distinct_map_filter [OF distinct_paths_rows [OF assms(1)]])
  have s: "set ?ps = paths_where P d" by (auto simp: paths_where_def)
  have "mset (map tk_path ts) = mset ?ps" using assms(2) by (metis mset_map)
  then have "sort (map tk_path ts) = sort ?ps" by (metis sorted_list_of_multiset_mset)
  then show "sort (map tk_path ts) = sorted_list_of_set (paths_where P d)"
    using d s by (metis sorted_list_of_set_sort_remdups distinct_remdups_id)
  have "length ts = length ?ps" using assms(2) by (metis length_map size_mset)
  then show "length ts = card (paths_where P d)" using distinct_card [OF d] s by simp
qed

lemma mset_filter_sort: "mset (filter P (sort_key k xs)) = mset (filter P xs)"
  by simp

lemma collisions_exact:
  fixes d scopes keyCol extra
  defines "paths \<equiv> \<lambda>s k. paths_where (\<lambda>p. tk_scope p \<in> set scopes \<and> extra p \<and> tk_scope p = s \<and> keyCol p = k) d"
  assumes ok: "db_ok d"
  shows "distinct (map (\<lambda>c. (cg_scope c, cg_key c)) (collisions scopes keyCol extra d))"
    and "c \<in> set (collisions scopes keyCol extra d) \<longleftrightarrow>
      card (paths (cg_scope c) (cg_key c)) > 1 \<and> cg_members c = sorted_list_of_set (paths (cg_scope c) (cg_key c))"
proof -
  let ?rows = "filter (\<lambda>p. tk_scope p \<in> set scopes \<and> extra p) (map snd (db_tickets d))"
  let ?group = "\<lambda>p. (tk_scope p, keyCol p)"
  let ?big = "\<lambda>g. length (filter (\<lambda>p. ?group p = g) ?rows) > 1"
  let ?joined = "sort_key (\<lambda>p. (tk_scope p, keyCol p, tk_path p)) (filter (\<lambda>p. ?big (?group p)) ?rows)"
  let ?mk = "\<lambda>(s, k). \<lparr>cg_scope = s, cg_key = k, cg_members = sort (map tk_path (filter (\<lambda>p. ?group p = (s, k)) ?joined))\<rparr>"
  let ?out = "map ?mk (first_seen {} (map ?group ?joined))"
  have cnt: "length (filter (\<lambda>p. ?group p = (s, k)) ?rows) = card (paths s k)" for s k
    unfolding paths_def by (rule sort_paths_where(2) [OF ok]) (simp add: conj_commute conj_left_commute cong: conj_cong)
  have mem: "sort (map tk_path (filter (\<lambda>p. ?group p = (s, k)) ?joined)) = sorted_list_of_set (paths s k)" if "?big (s, k)" for s k
  proof -
    have "filter (\<lambda>p. ?group p = (s, k)) (filter (\<lambda>p. ?big (?group p)) ?rows) = filter (\<lambda>p. ?group p = (s, k)) ?rows"
      unfolding filter_filter by (rule filter_cong [OF refl]) (use that in auto)
    then have "mset (filter (\<lambda>p. ?group p = (s, k)) ?joined) = mset (filter (\<lambda>p. ?group p = (s, k)) ?rows)"
      by (simp only: mset_filter_sort)
    then show ?thesis unfolding paths_def
      by (intro sort_paths_where(1) [OF ok]) (simp add: conj_commute conj_left_commute cong: conj_cong)
  qed
  have dom: "g \<in> set (map ?group ?joined) \<longleftrightarrow> ?big g" for g
  proof
    assume "?big g"
    then have "set (filter (\<lambda>p. ?group p = g) ?rows) \<noteq> {}" unfolding set_empty by (rule contrapos_pn) simp
    then obtain p where "p \<in> set (filter (\<lambda>p. ?group p = g) ?rows)"
      unfolding ex_in_conv [symmetric] by (rule exE)
    with \<open>?big g\<close> show "g \<in> set (map ?group ?joined)" by (auto intro!: image_eqI [of _ _ p])
  qed auto
  have out: "collisions scopes keyCol extra d = ?out"
    by (cases "scopes = []") (simp_all add: collisions_def Let_def)
  show "distinct (map (\<lambda>c. (cg_scope c, cg_key c)) (collisions scopes keyCol extra d))"
    unfolding out map_map by (simp add: comp_def case_prod_unfold)
  have "c \<in> set ?out \<longleftrightarrow> (\<exists>g. ?big g \<and> c = ?mk g)" using dom by auto
  also have "\<dots> \<longleftrightarrow> ?big (cg_scope c, cg_key c) \<and> c = ?mk (cg_scope c, cg_key c)" by auto
  also have "\<dots> \<longleftrightarrow> card (paths (cg_scope c) (cg_key c)) > 1 \<and> cg_members c = sorted_list_of_set (paths (cg_scope c) (cg_key c))"
    unfolding cnt using mem [of "cg_scope c" "cg_key c"] cnt by (cases c) auto
  finally show "c \<in> set (collisions scopes keyCol extra d) \<longleftrightarrow>
      card (paths (cg_scope c) (cg_key c)) > 1 \<and> cg_members c = sorted_list_of_set (paths (cg_scope c) (cg_key c))"
    unfolding out .
qed

text \<open>A duplicate id is reported exactly when two or more files of one of the scopes claim it, once, with
  all their paths in sorted order; the same holds for a shared order key, where an empty key never
  counts. The skip set of \<open>next\<close> has exactly the ids that another file of a scope claims as well.\<close>

theorem duplicate_reports_exact:
  assumes "db_ok d"
  shows "distinct (map (\<lambda>c. (cg_scope c, cg_key c)) (duplicate_ids scopes d)) \<and>
    distinct (map (\<lambda>c. (cg_scope c, cg_key c)) (equal_orders scopes d)) \<and>
    (\<forall>c. c \<in> set (duplicate_ids scopes d) \<longleftrightarrow>
       card (paths_where (\<lambda>p. tk_scope p \<in> set scopes \<and> True \<and> tk_scope p = cg_scope c \<and> tk_id p = cg_key c) d) > 1 \<and>
       cg_members c = sorted_list_of_set (paths_where (\<lambda>p. tk_scope p \<in> set scopes \<and> True \<and> tk_scope p = cg_scope c \<and> tk_id p = cg_key c) d)) \<and>
    (\<forall>c. c \<in> set (equal_orders scopes d) \<longleftrightarrow>
       card (paths_where (\<lambda>p. tk_scope p \<in> set scopes \<and> tk_order_key p \<noteq> [] \<and> tk_scope p = cg_scope c \<and> tk_order_key p = cg_key c) d) > 1 \<and>
       cg_members c = sorted_list_of_set (paths_where (\<lambda>p. tk_scope p \<in> set scopes \<and> tk_order_key p \<noteq> [] \<and> tk_scope p = cg_scope c \<and> tk_order_key p = cg_key c) d))"
  unfolding duplicate_ids_def equal_orders_def
  by (intro conjI allI collisions_exact [OF assms])

theorem duplicate_reports_exact_witness:
  "duplicate_ids [''app''] sample_db =
     [\<lparr>cg_scope = ''app'', cg_key = ''app-ab23'', cg_members = [''p1'', ''p2'']\<rparr>] \<and>
   distinct (map (\<lambda>c. (cg_scope c, cg_key c)) (duplicate_ids [''app''] sample_db))"
proof -
  have "duplicate_ids [''app''] sample_db =
     [\<lparr>cg_scope = ''app'', cg_key = ''app-ab23'', cg_members = [''p1'', ''p2'']\<rparr>]" by code_simp
  then show ?thesis using duplicate_reports_exact [OF sample_db_ok, of "[''app'']"] by simp
qed

text \<open>Where no scope name has a NUL, the skip set tells scopes and ids apart.\<close>

definition scopes_plain :: "db \<Rightarrow> bool" where
  "scopes_plain d \<longleftrightarrow> (\<forall>x \<in> set (db_tickets d). CHR 0x00 \<notin> set (tk_scope (snd x)))"

lemma scoped_key_eq:
  "CHR 0x00 \<notin> set s \<Longrightarrow> CHR 0x00 \<notin> set s' \<Longrightarrow> scoped_key s i = scoped_key s' i' \<longleftrightarrow> s = s' \<and> i = i'"
  by (metis append_Cons append_Nil append_eq_append_conv index_byte_append option.inject scoped_key_def list.inject)

lemma card_paths_two:
  assumes ok: "db_ok d" and p: "p \<in> snd ` set (db_tickets d)" "P p"
  shows "card (paths_where P d) > 1 \<longleftrightarrow> (\<exists>q \<in> snd ` set (db_tickets d). P q \<and> tk_path q \<noteq> tk_path p)"
proof -
  have fin: "finite (paths_where P d)" by (simp add: paths_where_def)
  have m: "tk_path p \<in> paths_where P d" using p by (auto simp: paths_where_def)
  have "card (paths_where P d) > 1 \<longleftrightarrow> card (paths_where P d - {tk_path p}) > 0"
    using m fin by (simp add: card_Diff_singleton)
  also have "\<dots> \<longleftrightarrow> paths_where P d - {tk_path p} \<noteq> {}" using fin by (simp add: card_gt_0_iff)
  finally show ?thesis by (auto simp: paths_where_def)
qed

lemma mem_duplicate_id_set:
  assumes ok: "db_ok d" and pl: "scopes_plain d" and p: "p \<in> snd ` set (db_tickets d)"
  shows "scoped_key (tk_scope p) (tk_id p) \<in> duplicate_id_set scopes d \<longleftrightarrow>
    tk_scope p \<in> set scopes \<and>
    (\<exists>q \<in> snd ` set (db_tickets d). tk_scope q = tk_scope p \<and> tk_id q = tk_id p \<and> tk_path q \<noteq> tk_path p)"
proof -
  let ?P = "\<lambda>s k p. tk_scope p \<in> set scopes \<and> True \<and> tk_scope p = s \<and> tk_id p = k"
  have plain: "CHR 0x00 \<notin> set s" if "card (paths_where (?P s k) d) > 1" for s k
  proof -
    have "paths_where (?P s k) d \<noteq> {}" using that by (metis card.empty not_less_zero)
    with pl show ?thesis by (auto simp: paths_where_def scopes_plain_def)
  qed
  have pp: "CHR 0x00 \<notin> set (tk_scope p)" using pl p by (auto simp: scopes_plain_def)
  have "scoped_key (tk_scope p) (tk_id p) \<in> duplicate_id_set scopes d \<longleftrightarrow>
      (\<exists>s k. card (paths_where (?P s k) d) > 1 \<and> scoped_key (tk_scope p) (tk_id p) = scoped_key s k)" (is "?L \<longleftrightarrow> ?R")
  proof
    assume ?L
    then obtain c where "c \<in> set (duplicate_ids scopes d)"
        "scoped_key (tk_scope p) (tk_id p) = scoped_key (cg_scope c) (cg_key c)" by (auto simp: duplicate_id_set_def)
    then show ?R using collisions_exact(2) [OF ok, of c scopes tk_id "\<lambda>p. True"] by (auto simp: duplicate_ids_def)
  next
    assume ?R
    then obtain s k where *: "card (paths_where (?P s k) d) > 1" "scoped_key (tk_scope p) (tk_id p) = scoped_key s k" by blast
    let ?c = "\<lparr>cg_scope = s, cg_key = k, cg_members = sorted_list_of_set (paths_where (?P s k) d)\<rparr>"
    have "?c \<in> set (duplicate_ids scopes d)"
      unfolding duplicate_ids_def collisions_exact(2) [OF ok] using *(1) by simp
    then show ?L unfolding duplicate_id_set_def set_map using *(2) by (intro image_eqI [of _ _ ?c]) simp_all
  qed
  also have "\<dots> \<longleftrightarrow> card (paths_where (?P (tk_scope p) (tk_id p)) d) > 1"
  proof
    assume "\<exists>s k. card (paths_where (?P s k) d) > 1 \<and> scoped_key (tk_scope p) (tk_id p) = scoped_key s k"
    then obtain s k where *: "card (paths_where (?P s k) d) > 1" "scoped_key (tk_scope p) (tk_id p) = scoped_key s k" by blast
    from scoped_key_eq [OF pp plain [OF *(1)]] *(2) have "tk_scope p = s" "tk_id p = k" by blast+
    with *(1) show "card (paths_where (?P (tk_scope p) (tk_id p)) d) > 1" by simp
  next
    assume "card (paths_where (?P (tk_scope p) (tk_id p)) d) > 1"
    then show "\<exists>s k. card (paths_where (?P s k) d) > 1 \<and> scoped_key (tk_scope p) (tk_id p) = scoped_key s k"
      by (intro exI conjI) (assumption, rule refl)
  qed
  also have "\<dots> \<longleftrightarrow> tk_scope p \<in> set scopes \<and>
      (\<exists>q \<in> snd ` set (db_tickets d). tk_scope q = tk_scope p \<and> tk_id q = tk_id p \<and> tk_path q \<noteq> tk_path p)"
  proof (cases "tk_scope p \<in> set scopes")
    case True
    have "?P (tk_scope p) (tk_id p) p" using True by simp
    note two = card_paths_two [OF ok p, of "?P (tk_scope p) (tk_id p)", OF this]
    have "(\<exists>q \<in> snd ` set (db_tickets d). ?P (tk_scope p) (tk_id p) q \<and> tk_path q \<noteq> tk_path p) \<longleftrightarrow>
        (\<exists>q \<in> snd ` set (db_tickets d). tk_scope q = tk_scope p \<and> tk_id q = tk_id p \<and> tk_path q \<noteq> tk_path p)"
      by (rule bex_cong [OF refl]) (use True in auto)
    with two True show ?thesis by simp
  next
    case False
    then have "paths_where (?P (tk_scope p) (tk_id p)) d = {}" by (auto simp: paths_where_def)
    with False show ?thesis by simp
  qed
  finally show ?thesis .
qed

section \<open>Tag sets\<close>

lemma scope_tag_membership_iff:
  assumes "db_ok d"
  shows "scope_tag_membership scope d = tag_membership (scope_tickets scope d)"
proof (rule set_eqI)
  fix t
  have ne: "(q, t) \<in> set (db_tags d) \<Longrightarrow> t \<noteq> []" for q using assms by (auto simp: db_ok_def)
  have "t \<in> scope_tag_membership scope d \<longleftrightarrow>
      (\<exists>x \<in> set (db_tickets d). tk_scope (snd x) = scope \<and> (tk_path (snd x), t) \<in> set (db_tags d))"
    unfolding scope_tag_membership_def by (force simp: list_ex_iff)
  also have "\<dots> \<longleftrightarrow> (\<exists>x \<in> set (db_tickets d). tk_scope (snd x) = scope \<and> t \<in> set (tk_tags (with_tags d (snd x))))"
    by (simp only: set_with_tags mem_Collect_eq)
  also have "\<dots> \<longleftrightarrow> (\<exists>p \<in> set (scope_tickets scope d). t \<in> set (tk_tags p))"
    unfolding scope_tickets_def Bex_def mem_query by blast
  also have "\<dots> \<longleftrightarrow> t \<in> tag_membership (scope_tickets scope d)"
  proof -
    have "t \<noteq> []" if "p \<in> set (scope_tickets scope d)" "t \<in> set (tk_tags p)" for p
      using that ne by (auto simp: scope_tickets_def mem_query set_with_tags)
    then show ?thesis by (auto simp: tag_membership_def)
  qed
  finally show "t \<in> scope_tag_membership scope d \<longleftrightarrow> t \<in> tag_membership (scope_tickets scope d)" .
qed

lemma absent_from_set: "set (absent_from inUse seen tags) = {t \<in> set tags. t \<noteq> [] \<and> t \<notin> seen \<and> t \<notin> inUse}"
  by (induction tags arbitrary: seen) auto

lemma absent_from_distinct: "distinct (absent_from inUse seen tags)"
  by (induction tags arbitrary: seen) (auto simp: absent_from_set)

text \<open>The tags of a scope are the same set from the SQL join and from the loaded tickets, so the sorted
  tag lists of the two agree; and the tags reported as absent are exactly the requested non-empty
  ones that no ticket of the scope has, each once.\<close>

theorem scope_tags_agree:
  assumes "db_ok d"
  shows "scope_distinct_tags scope d = distinct_tags (scope_tickets scope d) \<and>
    distinct (absent_tags requested (scope_tag_membership scope d)) \<and>
    set (absent_tags requested (scope_tag_membership scope d)) =
      {t \<in> set requested. t \<noteq> [] \<and> (\<forall>p \<in> set (scope_tickets scope d). t \<notin> set (tk_tags p))}"
proof -
  have "t \<notin> tag_membership ts \<longleftrightarrow> (\<forall>p \<in> set ts. t \<notin> set (tk_tags p))" if "t \<noteq> []" for t ts
    using that by (auto simp: tag_membership_def)
  then have "set (absent_tags requested (scope_tag_membership scope d)) =
      {t \<in> set requested. t \<noteq> [] \<and> (\<forall>p \<in> set (scope_tickets scope d). t \<notin> set (tk_tags p))}"
    unfolding scope_tag_membership_iff [OF assms] by (cases "requested = []") (auto simp: absent_tags_def absent_from_set)
  moreover have "distinct (absent_tags requested (scope_tag_membership scope d))"
    by (simp add: absent_tags_def absent_from_distinct)
  ultimately show ?thesis
    by (simp add: scope_distinct_tags_def distinct_tags_def scope_tag_membership_iff [OF assms])
qed

theorem scope_tags_agree_witness:
  "absent_tags [''ui'', [], ''db'', ''db''] (scope_tag_membership ''app'' sample_db) = [''db''] \<and>
   scope_distinct_tags ''app'' sample_db = distinct_tags (scope_tickets ''app'' sample_db)"
proof -
  have "absent_tags [''ui'', [], ''db'', ''db''] (scope_tag_membership ''app'' sample_db) = [''db'']" by code_simp
  then show ?thesis using scope_tags_agree [OF sample_db_ok, of "''app''"] by simp
qed

section \<open>Search\<close>

lemma fts_rowids:
  assumes "in_step pathOf titleOf rows fts"
  shows "(\<exists>title body. (i, title, body) \<in> set fts) \<longleftrightarrow> (\<exists>r. (i, r) \<in> set rows)"
proof -
  have "fst ` (\<lambda>(i, t, b). (i, t)) ` set fts = fst ` (\<lambda>(i, r). (i, titleOf r)) ` set rows"
    using assms unfolding in_step_def by simp
  then have "fst ` set fts = fst ` set rows" by (simp add: image_image case_prod_unfold)
  then show ?thesis by (metis (no_types, lifting) fst_conv image_iff prod.collapse)
qed

lemma mem_fts_join:
  "(p, s) \<in> set (fts_join score P fts rows) \<longleftrightarrow>
     (\<exists>i title body. (i, title, body) \<in> set fts \<and> score i = Some s \<and> (i, p) \<in> set rows \<and> P p)"
  by (force simp: fts_join_def)

lemma set_fts_join:
  assumes "in_step pathOf titleOf rows fts"
  shows "set (fts_join score P fts rows) = {(p, s). \<exists>i. (i, p) \<in> set rows \<and> score i = Some s \<and> P p}"
proof (rule set_eqI)
  fix x :: "'a \<times> int"
  obtain p s where x: "x = (p, s)" by (cases x)
  show "x \<in> set (fts_join score P fts rows) \<longleftrightarrow> x \<in> {(p, s). \<exists>i. (i, p) \<in> set rows \<and> score i = Some s \<and> P p}"
    unfolding x mem_fts_join using fts_rowids [OF assms] by blast
qed

lemma set_zip_map: "set (zip (map f (map fst xs)) (map snd xs)) = (\<lambda>(p, s). (f p, s)) ` set xs"
  by (induction xs) auto

text \<open>A search answers each matching row once, with its tags, best score first: the hits are exactly
  the tickets (of the scope, if one is given) whose own indexed row matches, and they come in the
  order of score, then id.\<close>

theorem search_exact:
  assumes ok: "db_ok d" and bm: "bm (db_fts d) expr = Some score"
    and run: "search_tickets bm scope expr d = Inr hits"
  shows "sorted (map (\<lambda>(p, s). (s, tk_id p)) hits) \<and>
    set hits = {(with_tags d p, s) | i p s. (i, p) \<in> set (db_tickets d) \<and> score i = Some s \<and>
                  (scope = [] \<or> tk_scope p = scope)}"
proof -
  let ?hits = "fts_join score (\<lambda>p. scope = [] \<or> tk_scope p = scope) (db_fts d) (db_tickets d)"
  let ?ranked = "sort_key (\<lambda>(p, s). (s, tk_id p)) ?hits"
  have hits: "hits = zip (map (with_tags d) (map fst ?ranked)) (map snd ?ranked)"
    using run by (simp add: search_tickets_def bm Let_def attach_tags_map)
  have "map (\<lambda>(p, s). (s, tk_id p)) (zip (map (with_tags d) (map fst xs)) (map snd xs)) =
      map (\<lambda>(p, s). (s, tk_id p)) xs" for xs :: "(ticket \<times> int) list"
    by (induction xs) auto
  then have sorted: "sorted (map (\<lambda>(p, s). (s, tk_id p)) hits)"
    unfolding hits by (simp only: sorted_sort_key)
  have step: "in_step tk_path tk_title (db_tickets d) (db_fts d)" using ok by (simp add: db_ok_def)
  have "set hits = (\<lambda>(p, s). (with_tags d p, s)) ` set ?hits"
    unfolding hits set_zip_map by simp
  also have "\<dots> = {(with_tags d p, s) | i p s. (i, p) \<in> set (db_tickets d) \<and> score i = Some s \<and>
                  (scope = [] \<or> tk_scope p = scope)}"
    unfolding set_fts_join [OF step] by auto
  finally have "set hits = {(with_tags d p, s) | i p s. (i, p) \<in> set (db_tickets d) \<and> score i = Some s \<and>
                  (scope = [] \<or> tk_scope p = scope)}" .
  with sorted show ?thesis by simp
qed

definition sample_bm25 :: bm25 where
  "sample_bm25 fts expr =
     (if expr = [] then None
      else Some (\<lambda>i. if list_ex (\<lambda>(j, title, body). j = i \<and> title = expr) fts then Some (- int i) else None))"

theorem search_exact_witness:
  "\<exists>hits. search_tickets sample_bm25 ''app'' ''T'' sample_db = Inr hits \<and>
     map (tk_path \<circ> fst) hits = [''p2'', ''p1''] \<and> sorted (map (\<lambda>(p, s). (s, tk_id p)) hits)"
proof -
  let ?r = "search_tickets sample_bm25 ''app'' ''T'' sample_db"
  have v: "case ?r of Inr hits \<Rightarrow> map (tk_path \<circ> fst) hits = [''p2'', ''p1''] | Inl e \<Rightarrow> False" by code_simp
  then obtain hits where h: "?r = Inr hits" by (cases ?r) simp_all
  obtain score where "sample_bm25 (db_fts sample_db) ''T'' = Some score" by (simp add: sample_bm25_def)
  from search_exact [OF sample_db_ok this h] v h show ?thesis by simp
qed

end
