(* ===== verification/DepGate.thy ===== *)
theory DepGate
  imports Boards ScopeConfig Ids
begin

text \<open>
  The depends gate and the picker of the next ticket, \<open>internal/depgate/depgate.go\<close>. A gate
  keeps the tickets by id, the depends targets by path, the schemas of the reconciled scopes
  and the ids that are claimed twice. The schema of a scope outside the reconcile result comes
  from the registry and the reconciler; that lookup is the field \<open>g_resolve\<close> of the gate. The
  Go code caches its answers, which changes no result.
\<close>

section \<open>Loading a gate\<close>

record gate =
  g_resolve :: "string \<Rightarrow> schema option"
  g_by_id :: "string \<Rightarrow> ticket list option"
  g_depends :: "string \<Rightarrow> string list option"
  g_schemas :: "string \<Rightarrow> schema option option"
  g_dup_set :: "string set"

text \<open>\<open>m[k] = append(m[k], v)\<close>, and reading a missing key as the nil slice.\<close>

definition append_at :: "'k \<Rightarrow> 'v \<Rightarrow> ('k \<Rightarrow> 'v list option) \<Rightarrow> 'k \<Rightarrow> 'v list option" where
  "append_at k v m = m(k \<mapsto> (case m k of Some vs \<Rightarrow> vs @ [v] | None \<Rightarrow> [v]))"

definition slice_at :: "('k \<Rightarrow> 'v list option) \<Rightarrow> 'k \<Rightarrow> 'v list" where
  "slice_at m k = (case m k of Some vs \<Rightarrow> vs | None \<Rightarrow> [])"

definition missing_targets :: "ticket list \<Rightarrow> edge list \<Rightarrow> string list" where
  "missing_targets tickets edges = first_seen (set (map tk_id tickets)) (map e_to_id edges)"

definition load_gate :: "(string \<Rightarrow> schema option) \<Rightarrow> (string \<times> schema option) list \<Rightarrow> string list \<Rightarrow> db \<Rightarrow> gate" where
  "load_gate resolve schemas homeScopes d =
     (let tickets = tickets_in_scopes homeScopes d;
          edges = depends_from_scopes homeScopes d;
          extra = tickets_by_full_ids (missing_targets tickets edges) d in
      \<lparr>g_resolve = resolve,
       g_by_id = fold (\<lambda>p. append_at (tk_id p) p) extra (fold (\<lambda>p. append_at (tk_id p) p) tickets (\<lambda>i. None)),
       g_depends = fold (\<lambda>e. append_at (e_from_path e) (e_to_id e)) edges (\<lambda>path. None),
       g_schemas = map_of schemas,
       g_dup_set = duplicate_id_set homeScopes d\<rparr>)"

definition gate_schema :: "gate \<Rightarrow> string \<Rightarrow> schema option" where
  "gate_schema g scope = (case g_schemas g scope of Some s \<Rightarrow> s | None \<Rightarrow> g_resolve g scope)"

section \<open>Waiting on\<close>

record eval =
  ev_waiting_on :: "string list"
  ev_tokens :: "string list"
  ev_schema_error :: bool

definition held :: "eval \<Rightarrow> bool" where
  "held e \<longleftrightarrow> length (ev_waiting_on e) > 0 \<or> ev_schema_error e"

definition gate_all_terminal :: "gate \<Rightarrow> ticket list \<Rightarrow> bool" where
  "gate_all_terminal g rows \<longleftrightarrow>
     list_all (\<lambda>r. is_terminal (tk_status r) (custom_statuses (gate_schema g (tk_scope r)))) rows \<and> length rows > 0"

definition schema_error_token :: string where "schema_error_token = ''schema_error:''"
definition depends_dangling_token :: string where "depends_dangling_token = ''depends_dangling:''"
definition depends_unresolvable_token :: string where "depends_unresolvable_token = ''depends_unresolvable:''"

text \<open>One target of \<open>EvalDepends\<close>, after the \<open>seen\<close> test.\<close>

definition eval_target :: "gate \<Rightarrow> ticket \<Rightarrow> string \<Rightarrow> eval \<Rightarrow> eval" where
  "eval_target g p target ds =
     (let rows = slice_at (g_by_id g) target in
      if length rows = 0 then
        let line = (if scope_of_full_id target = tk_scope p
                    then token_line depends_dangling_token
                           (tk_id p @ '' depends on '' @ target @ '' which has no ticket in this scope'')
                    else token_line depends_unresolvable_token
                           (tk_id p @ '' depends on '' @ target @ '' which cannot be resolved here'')) in
        ds\<lparr>ev_tokens := ev_tokens ds @ [line], ev_waiting_on := ev_waiting_on ds @ [target]\<rparr>
      else if \<not> gate_all_terminal g rows then ds\<lparr>ev_waiting_on := ev_waiting_on ds @ [target]\<rparr>
      else ds)"

definition eval_depends :: "gate \<Rightarrow> ticket \<Rightarrow> eval" where
  "eval_depends g p =
     (let start = \<lparr>ev_waiting_on = [],
                   ev_tokens = (if tk_schema_error p
                                then [token_line schema_error_token
                                        (tk_id p @ '': a depends/related entry is not a legal full ticket id'')]
                                else []),
                   ev_schema_error = tk_schema_error p\<rparr>;
          ds = fold (eval_target g p) (first_seen {} (slice_at (g_depends g) (tk_path p))) start in
      ds\<lparr>ev_waiting_on := sort (ev_waiting_on ds)\<rparr>)"

section \<open>Selecting the next ticket\<close>

definition is_duplicate :: "gate \<Rightarrow> ticket \<Rightarrow> bool" where
  "is_duplicate g p \<longleftrightarrow> scoped_key (tk_scope p) (tk_id p) \<in> g_dup_set g"

definition next_eligible :: "gate \<Rightarrow> ticket \<Rightarrow> eval \<Rightarrow> bool" where
  "next_eligible g p ds \<longleftrightarrow>
     (if \<not> is_next_eligible (tk_status p) \<or> tk_archived p \<or> tk_parse_error p then False
      else if is_duplicate g p \<or> held ds then False
      else True)"

definition passes_lens :: "ticket \<Rightarrow> string list \<Rightarrow> bool" where
  "passes_lens p lens \<longleftrightarrow>
     (if length lens = 0 \<or> length (tk_tags p) = 0 then True
      else list_ex (\<lambda>t. t \<in> set lens) (tk_tags p))"

text \<open>\<open>TokenSet.Add\<close>: the lines not seen yet, in first-seen order.\<close>

definition add_tokens :: "string list \<Rightarrow> string list \<Rightarrow> string list" where
  "add_tokens ls ts = fold (\<lambda>l ts. if l \<in> set ts then ts else ts @ [l]) ls ts"

record selection =
  sel_chosen :: "ticket option"
  sel_tokens :: "string list"
  sel_blocked :: nat
  sel_outside :: nat
  sel_apply_lens :: bool
  sel_lens :: "string list"

definition select_step :: "gate \<Rightarrow> ticket \<Rightarrow> selection \<Rightarrow> selection" where
  "select_step g p s =
     (let ds = eval_depends g p;
          s' = s\<lparr>sel_tokens := add_tokens (ev_tokens ds) (sel_tokens s)\<rparr> in
      if \<not> next_eligible g p ds then
        (if held ds then s'\<lparr>sel_blocked := Suc (sel_blocked s')\<rparr> else s')
      else if sel_apply_lens s' \<and> \<not> passes_lens p (sel_lens s') then s'\<lparr>sel_outside := Suc (sel_outside s')\<rparr>
      else if sel_chosen s' = None then s'\<lparr>sel_chosen := Some p\<rparr>
      else s')"

definition select_start :: "string list \<Rightarrow> bool \<Rightarrow> selection" where
  "select_start lens noLens =
     \<lparr>sel_chosen = None, sel_tokens = [], sel_blocked = 0, sel_outside = 0,
      sel_apply_lens = (\<not> noLens \<and> length lens > 0), sel_lens = lens\<rparr>"

definition select_walk :: "gate \<Rightarrow> ticket list \<Rightarrow> string list \<Rightarrow> bool \<Rightarrow> selection" where
  "select_walk g candidates lens noLens = fold (select_step g) candidates (select_start lens noLens)"

definition select_next :: "gate \<Rightarrow> ticket list \<Rightarrow> string list \<Rightarrow> bool \<Rightarrow> selection" where
  "select_next g candidates lens noLens = select_walk g (sort_tickets False candidates) lens noLens"

definition empty_queue_text :: "selection \<Rightarrow> string" where
  "empty_queue_text s =
     (if sel_apply_lens s \<and> sel_outside s > 0 then
        ''nothing ready under lens '' @ ''['' @ go_join '', '' (sel_lens s) @ ''];'' @ '' '' @
        show_nat (sel_outside s) @ '' ready outside it''
      else if sel_blocked s > 0 then
        ''nothing ready; '' @ show_nat (sel_blocked s) @ '' todo(s) waiting on unmet deps''
      else ''nothing ready'')"

section \<open>What a loaded gate knows\<close>

lemma slice_append_at [simp]: "slice_at (append_at k v m) j = slice_at m j @ (if j = k then [v] else [])"
  by (auto simp: slice_at_def append_at_def split: option.splits)

lemma slice_fold_append:
  "slice_at (fold (\<lambda>x. append_at (key x) (val x)) xs m) k = slice_at m k @ map val (filter (\<lambda>x. key x = k) xs)"
  by (induction xs arbitrary: m) auto

lemma slice_empty [simp]: "slice_at (\<lambda>k. None) j = []"
  by (simp add: slice_at_def)

lemma load_by_id:
  "slice_at (g_by_id (load_gate resolve schemas hs d)) i =
     filter (\<lambda>p. tk_id p = i) (tickets_in_scopes hs d) @
     filter (\<lambda>p. tk_id p = i) (tickets_by_full_ids (missing_targets (tickets_in_scopes hs d) (depends_from_scopes hs d)) d)"
  by (simp add: load_gate_def Let_def slice_fold_append [where val = "\<lambda>p. p", simplified])

lemma load_depends:
  "slice_at (g_depends (load_gate resolve schemas hs d)) path =
     map e_to_id (filter (\<lambda>e. e_from_path e = path) (depends_from_scopes hs d))"
  by (simp add: load_gate_def Let_def slice_fold_append)

text \<open>Every id of a row starts with the scope it is filed in.\<close>

definition ids_filed :: "db \<Rightarrow> bool" where
  "ids_filed d \<longleftrightarrow> (\<forall>x \<in> set (db_tickets d). scope_of_full_id (tk_id (snd x)) = tk_scope (snd x))"

lemma mem_query_all:
  assumes "\<And>q. Q (with_tags d q) \<longleftrightarrow> P q"
  shows "p \<in> set (query_tickets P d) \<longleftrightarrow> p \<in> set (all_tickets d) \<and> Q p"
proof -
  have "query_tickets P d = filter Q (all_tickets d)"
    unfolding all_tickets_def by (subst filter_query [where Q' = P, OF assms]) simp
  then show ?thesis by auto
qed

lemma mem_tickets_in_scopes:
  "p \<in> set (tickets_in_scopes hs d) \<longleftrightarrow> p \<in> set (all_tickets d) \<and> tk_scope p \<in> set hs"
  by (cases "hs = []") (simp_all add: tickets_in_scopes_def mem_query_all [where Q = "\<lambda>p. tk_scope p \<in> set hs"])

lemma mem_tickets_by_full_ids:
  "p \<in> set (tickets_by_full_ids ids d) \<longleftrightarrow> p \<in> set (all_tickets d) \<and> tk_id p \<in> set ids"
  by (cases "ids = []") (simp_all add: tickets_by_full_ids_def mem_query_all [where Q = "\<lambda>p. tk_id p \<in> set ids"])

text \<open>For a depends target of a home scope, the gate holds every row of the index with that id.\<close>

lemma load_target_rows:
  assumes filed: "ids_filed d" and e: "e \<in> set (depends_from_scopes hs d)"
  shows "set (slice_at (g_by_id (load_gate resolve schemas hs d)) (e_to_id e)) = {p \<in> set (all_tickets d). tk_id p = e_to_id e}"
proof -
  let ?home = "tickets_in_scopes hs d" and ?m = "missing_targets (tickets_in_scopes hs d) (depends_from_scopes hs d)"
  have m: "e_to_id e \<in> set ?m \<longleftrightarrow> e_to_id e \<notin> tk_id ` set ?home"
    using e by (auto simp: missing_targets_def)
  have same: "tk_scope p = scope_of_full_id (tk_id p)" if "p \<in> set (all_tickets d)" for p
    using that filed by (auto simp: all_tickets_def mem_query ids_filed_def)
  have home: "p \<in> set ?home \<longleftrightarrow> p \<in> set (all_tickets d) \<and> scope_of_full_id (tk_id p) \<in> set hs" for p
    using same by (auto simp: mem_tickets_in_scopes)
  show ?thesis
    unfolding load_by_id set_append set_filter using m by (auto simp: home mem_tickets_by_full_ids)
qed

section \<open>Waiting on, exactly\<close>

definition unmet :: "gate \<Rightarrow> string \<Rightarrow> bool" where
  "unmet g t \<longleftrightarrow> \<not> gate_all_terminal g (slice_at (g_by_id g) t)"

definition unresolved_line :: "ticket \<Rightarrow> string \<Rightarrow> string" where
  "unresolved_line p t =
     (if scope_of_full_id t = tk_scope p
      then token_line depends_dangling_token (tk_id p @ '' depends on '' @ t @ '' which has no ticket in this scope'')
      else token_line depends_unresolvable_token (tk_id p @ '' depends on '' @ t @ '' which cannot be resolved here''))"

lemma eval_target_split:
  "ev_waiting_on (eval_target g p t ds) = ev_waiting_on ds @ (if unmet g t then [t] else [])"
  "ev_tokens (eval_target g p t ds) =
     ev_tokens ds @ (if slice_at (g_by_id g) t = [] then [unresolved_line p t] else [])"
  "ev_schema_error (eval_target g p t ds) = ev_schema_error ds"
  by (simp_all add: eval_target_def unmet_def unresolved_line_def gate_all_terminal_def Let_def)

lemma eval_fold:
  "ev_waiting_on (fold (eval_target g p) ts ds) = ev_waiting_on ds @ filter (unmet g) ts"
  "ev_tokens (fold (eval_target g p) ts ds) =
     ev_tokens ds @ map (unresolved_line p) (filter (\<lambda>t. slice_at (g_by_id g) t = []) ts)"
  "ev_schema_error (fold (eval_target g p) ts ds) = ev_schema_error ds"
  by (induction ts arbitrary: ds) (auto simp: eval_target_split)

lemma sort_filter_first_seen: "sort (filter P (first_seen {} xs)) = sorted_list_of_set {x \<in> set xs. P x}"
proof -
  have "sort (filter P (first_seen {} xs)) = sorted_list_of_set (set (filter P (first_seen {} xs)))"
    by (subst sorted_list_of_set_sort_remdups) (simp add: distinct_remdups_id)
  also have "set (filter P (first_seen {} xs)) = {x \<in> set xs. P x}" by auto
  finally show ?thesis .
qed

lemma eval_depends_parts:
  "ev_waiting_on (eval_depends g p) = sorted_list_of_set {t \<in> set (slice_at (g_depends g) (tk_path p)). unmet g t}"
  "ev_tokens (eval_depends g p) =
     (if tk_schema_error p
      then [token_line schema_error_token (tk_id p @ '': a depends/related entry is not a legal full ticket id'')] else []) @
     map (unresolved_line p)
       (filter (\<lambda>t. slice_at (g_by_id g) t = []) (first_seen {} (slice_at (g_depends g) (tk_path p))))"
  "ev_schema_error (eval_depends g p) = tk_schema_error p"
  by (simp_all add: eval_depends_def Let_def eval_fold sort_filter_first_seen)

text \<open>A target is met when it has a ticket and every ticket with its id is terminal in its own scope.\<close>

definition target_met :: "(string \<Rightarrow> schema option) \<Rightarrow> db \<Rightarrow> string \<Rightarrow> bool" where
  "target_met schemaOf d t \<longleftrightarrow>
     list_ex (\<lambda>q. tk_id q = t) (all_tickets d) \<and>
     list_all (\<lambda>q. tk_id q = t \<longrightarrow> is_terminal (tk_status q) (custom_statuses (schemaOf (tk_scope q)))) (all_tickets d)"

definition depends_of :: "string list \<Rightarrow> db \<Rightarrow> ticket \<Rightarrow> string list" where
  "depends_of hs d p = map e_to_id (filter (\<lambda>e. e_from_path e = tk_path p) (depends_from_scopes hs d))"

lemma unmet_loaded:
  assumes "ids_filed d" and t: "t \<in> set (depends_of hs d p)"
  shows "unmet (load_gate resolve schemas hs d) t \<longleftrightarrow>
      \<not> target_met (gate_schema (load_gate resolve schemas hs d)) d t"
    and "slice_at (g_by_id (load_gate resolve schemas hs d)) t = [] \<longleftrightarrow> \<not> list_ex (\<lambda>q. tk_id q = t) (all_tickets d)"
proof -
  from t obtain e where e: "e \<in> set (depends_from_scopes hs d)" "t = e_to_id e" by (auto simp: depends_of_def)
  let ?g = "load_gate resolve schemas hs d"
  have rows: "set (slice_at (g_by_id ?g) t) = {q \<in> set (all_tickets d). tk_id q = t}"
    unfolding e(2) by (rule load_target_rows [OF assms(1) e(1)])
  have "slice_at (g_by_id ?g) t = [] \<longleftrightarrow> set (slice_at (g_by_id ?g) t) = {}" by (simp only: set_empty)
  then show none: "slice_at (g_by_id ?g) t = [] \<longleftrightarrow> \<not> list_ex (\<lambda>q. tk_id q = t) (all_tickets d)"
    unfolding rows by (auto simp: list_ex_iff)
  show "unmet ?g t \<longleftrightarrow> \<not> target_met (gate_schema ?g) d t"
    using none rows by (auto simp: unmet_def gate_all_terminal_def target_met_def list_all_iff list_ex_iff)
qed

text \<open>C31. Loading only the home scopes and the targets they name loses nothing: the waiting-on list of a
  ticket is the sorted list of its depends targets that are not met in the whole index (no ticket
  has the id, or some ticket with the id is not terminal under its own scope's statuses). A
  diagnostic line is issued for a schema error and for each target without any ticket, in the
  order of the depends list and each once.\<close>

theorem waiting_on_exact:
  fixes resolve schemas hs d
  defines "g \<equiv> load_gate resolve schemas hs d"
  assumes "ids_filed d"
  shows "ev_waiting_on (eval_depends g p) =
      sorted_list_of_set {t \<in> set (depends_of hs d p). \<not> target_met (gate_schema g) d t} \<and>
    ev_tokens (eval_depends g p) =
      (if tk_schema_error p
       then [token_line schema_error_token (tk_id p @ '': a depends/related entry is not a legal full ticket id'')] else []) @
      map (unresolved_line p)
        (filter (\<lambda>t. \<not> list_ex (\<lambda>q. tk_id q = t) (all_tickets d)) (first_seen {} (depends_of hs d p)))"
proof -
  have deps: "slice_at (g_depends g) (tk_path p) = depends_of hs d p"
    by (simp add: g_def load_depends depends_of_def)
  have "{t \<in> set (depends_of hs d p). unmet g t} =
      {t \<in> set (depends_of hs d p). \<not> target_met (gate_schema g) d t}"
    using unmet_loaded(1) [OF assms(2), of _ hs p resolve schemas] by (auto simp: g_def)
  moreover have "filter (\<lambda>t. slice_at (g_by_id g) t = []) (first_seen {} (depends_of hs d p)) =
      filter (\<lambda>t. \<not> list_ex (\<lambda>q. tk_id q = t) (all_tickets d)) (first_seen {} (depends_of hs d p))"
    by (rule filter_cong [OF refl]) (use unmet_loaded(2) [OF assms(2), of _ hs p resolve schemas] in \<open>auto simp: g_def\<close>)
  ultimately show ?thesis by (simp add: eval_depends_parts deps)
qed

section \<open>The walk over the candidates\<close>

definition walk_ready :: "gate \<Rightarrow> ticket \<Rightarrow> bool" where
  "walk_ready g p \<longleftrightarrow> next_eligible g p (eval_depends g p)"

definition lens_hides :: "string list \<Rightarrow> bool \<Rightarrow> ticket \<Rightarrow> bool" where
  "lens_hides lens noLens p \<longleftrightarrow> \<not> noLens \<and> \<not> passes_lens p lens"

lemma passes_lens_iff: "passes_lens p lens \<longleftrightarrow> tag_filter_ok [] lens p"
  by (auto simp: passes_lens_def tag_filter_ok_def list_ex_iff)

lemma select_fold:
  fixes g lens noLens xs
  defines "hides \<equiv> \<lambda>s p. sel_apply_lens s \<and> \<not> passes_lens p (sel_lens s)"
  shows "sel_apply_lens (fold (select_step g) xs s) = sel_apply_lens s"
    and "sel_lens (fold (select_step g) xs s) = sel_lens s"
    and "sel_chosen (fold (select_step g) xs s) =
      (case sel_chosen s of Some c \<Rightarrow> Some c | None \<Rightarrow> find (\<lambda>p. walk_ready g p \<and> \<not> hides s p) xs)"
    and "sel_blocked (fold (select_step g) xs s) =
      sel_blocked s + length (filter (\<lambda>p. \<not> walk_ready g p \<and> held (eval_depends g p)) xs)"
    and "sel_outside (fold (select_step g) xs s) =
      sel_outside s + length (filter (\<lambda>p. walk_ready g p \<and> hides s p) xs)"
proof -
  have step: "sel_apply_lens (select_step g p s) = sel_apply_lens s" "sel_lens (select_step g p s) = sel_lens s"
    "sel_chosen (select_step g p s) =
       (if walk_ready g p \<and> \<not> hides s p \<and> sel_chosen s = None then Some p else sel_chosen s)"
    "sel_blocked (select_step g p s) = sel_blocked s + (if \<not> walk_ready g p \<and> held (eval_depends g p) then 1 else 0)"
    "sel_outside (select_step g p s) = sel_outside s + (if walk_ready g p \<and> hides s p then 1 else 0)" for p s
    by (simp_all add: select_step_def Let_def walk_ready_def hides_def)
  have hides: "hides (select_step g p s) = hides s" for p s by (simp add: hides_def step fun_eq_iff)
  show "sel_apply_lens (fold (select_step g) xs s) = sel_apply_lens s"
    "sel_lens (fold (select_step g) xs s) = sel_lens s"
    by (induction xs arbitrary: s) (simp_all add: step)
  show "sel_chosen (fold (select_step g) xs s) =
      (case sel_chosen s of Some c \<Rightarrow> Some c | None \<Rightarrow> find (\<lambda>p. walk_ready g p \<and> \<not> hides s p) xs)"
    by (induction xs arbitrary: s) (auto simp: step hides split: option.splits)
  show "sel_blocked (fold (select_step g) xs s) =
      sel_blocked s + length (filter (\<lambda>p. \<not> walk_ready g p \<and> held (eval_depends g p)) xs)"
    by (induction xs arbitrary: s) (simp_all add: step)
  show "sel_outside (fold (select_step g) xs s) =
      sel_outside s + length (filter (\<lambda>p. walk_ready g p \<and> hides s p) xs)"
    by (induction xs arbitrary: s) (simp_all add: step hides)
qed

lemma hides_start: "sel_apply_lens (select_start lens noLens) \<and> \<not> passes_lens p (sel_lens (select_start lens noLens)) \<longleftrightarrow>
    lens_hides lens noLens p"
  by (auto simp: select_start_def lens_hides_def passes_lens_def)

lemma select_walk_parts:
  "sel_chosen (select_walk g xs lens noLens) = find (\<lambda>p. walk_ready g p \<and> \<not> lens_hides lens noLens p) xs"
  "sel_blocked (select_walk g xs lens noLens) = length (filter (\<lambda>p. \<not> walk_ready g p \<and> held (eval_depends g p)) xs)"
  "sel_outside (select_walk g xs lens noLens) = length (filter (\<lambda>p. walk_ready g p \<and> lens_hides lens noLens p) xs)"
  unfolding select_walk_def select_fold hides_start by (simp_all add: select_start_def)

text \<open>The first element of a sorted list that satisfies a predicate has the least key among them.\<close>

lemma find_sorted:
  assumes "sorted (map k xs)"
  shows "find P xs = Some p \<Longrightarrow> q \<in> set xs \<Longrightarrow> P q \<Longrightarrow> k p \<le> k q"
  using assms by (induction xs) (auto split: if_splits)

section \<open>Next, from the index\<close>

definition other_claims :: "db \<Rightarrow> ticket \<Rightarrow> bool" where
  "other_claims d p \<longleftrightarrow>
     list_ex (\<lambda>q. tk_scope q = tk_scope p \<and> tk_id q = tk_id p \<and> tk_path q \<noteq> tk_path p) (all_tickets d)"

definition waits :: "(string \<Rightarrow> schema option) \<Rightarrow> string list \<Rightarrow> db \<Rightarrow> ticket \<Rightarrow> bool" where
  "waits schemaOf hs d p \<longleftrightarrow> tk_schema_error p \<or> list_ex (\<lambda>t. \<not> target_met schemaOf d t) (depends_of hs d p)"

lemma held_iff:
  assumes "ids_filed d"
  shows "held (eval_depends (load_gate resolve schemas hs d) p) \<longleftrightarrow>
    waits (gate_schema (load_gate resolve schemas hs d)) hs d p"
proof -
  let ?g = "load_gate resolve schemas hs d"
  have deps: "slice_at (g_depends ?g) (tk_path p) = depends_of hs d p" by (simp add: load_depends depends_of_def)
  have "finite {t \<in> set (depends_of hs d p). unmet ?g t}" by simp
  then show ?thesis
    using unmet_loaded(1) [OF assms, of _ hs p resolve schemas]
    by (auto simp: held_def waits_def eval_depends_parts deps list_ex_iff card_gt_0_iff)
qed

lemma set_all_tickets: "set (all_tickets d) = with_tags d ` snd ` set (db_tickets d)"
  by (simp add: all_tickets_def query_tickets_map image_image)

lemma is_duplicate_iff:
  assumes "db_ok d" "scopes_plain d" and p: "p \<in> set (all_tickets d)"
  shows "is_duplicate (load_gate resolve schemas hs d) p \<longleftrightarrow> tk_scope p \<in> set hs \<and> other_claims d p"
proof -
  obtain r where r: "r \<in> snd ` set (db_tickets d)" "p = with_tags d r" using p unfolding set_all_tickets by blast
  have "(\<exists>q \<in> snd ` set (db_tickets d). tk_scope q = tk_scope r \<and> tk_id q = tk_id r \<and> tk_path q \<noteq> tk_path r) \<longleftrightarrow>
      other_claims d p"
    by (simp add: other_claims_def list_ex_iff set_all_tickets r(2))
  then show ?thesis
    using mem_duplicate_id_set [OF assms(1,2) r(1), of hs]
    by (simp add: is_duplicate_def load_gate_def Let_def r(2))
qed

lemma mem_next_candidates:
  "p \<in> set (next_candidates scope d) \<longleftrightarrow>
     p \<in> set (all_tickets d) \<and> tk_scope p = scope \<and> tk_status p = st_todo \<and> \<not> tk_archived p \<and> \<not> tk_parse_error p"
  unfolding next_candidates_def order_by_key_simps
  by (subst mem_query_all [where Q = "\<lambda>p. tk_scope p = scope \<and> tk_status p = st_todo \<and> \<not> tk_archived p \<and> \<not> tk_parse_error p"]) simp_all

lemma walk_ready_iff:
  assumes "db_ok d" "ids_filed d" "scopes_plain d" "scope \<in> set hs" and p: "p \<in> set (next_candidates scope d)"
  shows "walk_ready (load_gate resolve schemas hs d) p \<longleftrightarrow>
    \<not> other_claims d p \<and> \<not> waits (gate_schema (load_gate resolve schemas hs d)) hs d p"
proof -
  have "p \<in> set (all_tickets d)" "tk_scope p \<in> set hs" "is_next_eligible (tk_status p)" "\<not> tk_archived p" "\<not> tk_parse_error p"
    using p assms(4) by (auto simp: mem_next_candidates builtins_next)
  then show ?thesis
    using is_duplicate_iff [OF assms(1,3)] held_iff [OF assms(2), of resolve schemas hs p]
    by (simp add: walk_ready_def next_eligible_def)
qed

text \<open>C18. \<open>tk next\<close> picks the first ticket that is really ready. Whatever order \<open>sort.Slice\<close> leaves equal
  rows in, the chosen ticket is the one with the least order key and id among the unarchived,
  parseable todo tickets of the scope that no other file duplicates, that have no schema error,
  whose depends targets are all met in the whole index and that the lens shows; without such a
  ticket nothing is chosen. The refusal counts exactly the candidates that wait, and the ready ones
  the lens hides.\<close>

theorem next_is_first_ready:
  fixes resolve schemas hs d lens noLens rows
  defines "g \<equiv> load_gate resolve schemas hs d"
  defines "ready \<equiv> \<lambda>p. \<not> other_claims d p \<and> \<not> waits (gate_schema g) hs d p"
  defines "s \<equiv> select_walk g rows lens noLens"
  assumes ok: "db_ok d" and filed: "ids_filed d" and plain: "scopes_plain d" and home: "scope \<in> set hs"
    and rows: "mset rows = mset (next_candidates scope d)" and sorted: "sorted (map listing_key rows)"
  shows "select_next g rows lens noLens = s \<and>
    (sel_chosen s = None \<longleftrightarrow> (\<forall>p \<in> set (next_candidates scope d). \<not> ready p \<or> lens_hides lens noLens p)) \<and>
    (\<forall>p. sel_chosen s = Some p \<longrightarrow>
       p \<in> set (next_candidates scope d) \<and> ready p \<and> \<not> lens_hides lens noLens p \<and>
       (\<forall>q \<in> set (next_candidates scope d). q \<noteq> p \<and> ready q \<and> \<not> lens_hides lens noLens q \<longrightarrow>
          listing_key p < listing_key q)) \<and>
    sel_blocked s = length (filter (waits (gate_schema g) hs d) (next_candidates scope d)) \<and>
    sel_outside s = length (filter (\<lambda>p. ready p \<and> lens_hides lens noLens p) (next_candidates scope d))"
proof -
  have set: "set rows = set (next_candidates scope d)" using rows by (metis set_mset_mset)
  have rdy: "walk_ready g p \<longleftrightarrow> ready p" if "p \<in> set rows" for p
    using walk_ready_iff [OF ok filed plain home] that by (simp add: g_def ready_def set)
  have hld: "held (eval_depends g p) \<longleftrightarrow> waits (gate_schema g) hs d p" for p
    unfolding g_def by (rule held_iff [OF filed])
  have cnt: "length (filter P rows) = length (filter P (next_candidates scope d))" for P
    using rows by (metis mset_filter size_mset)
  have again: "sort_tickets False rows = rows"
    by (simp add: sort_tickets_order_by order_by_key_alt sort_key_id_if_sorted sorted)
  have chosen: "sel_chosen s = find (\<lambda>p. ready p \<and> \<not> lens_hides lens noLens p) rows"
    unfolding s_def select_walk_parts by (rule find_cong [OF refl]) (simp add: rdy)
  have key: "listing_key p < listing_key q"
    if "sel_chosen s = Some p" "q \<in> set (next_candidates scope d)" "q \<noteq> p" "ready q" "\<not> lens_hides lens noLens q" for p q
  proof -
    have le: "listing_key p \<le> listing_key q"
      by (rule find_sorted [OF sorted, of "\<lambda>p. ready p \<and> \<not> lens_hides lens noLens p"]) (use that chosen set in simp_all)
    have p: "p \<in> set (next_candidates scope d)" using that(1) chosen set by (auto simp: find_Some_iff)
    have "distinct (map tk_path (next_candidates scope d))"
      unfolding next_candidates_def distinct_order_by by (rule query_paths [OF ok])
    then have "tk_path p \<noteq> tk_path q" using distinct_map_eqD p that(2,3) by metis
    moreover have "p \<in> set (all_tickets d)" "tk_scope p = tk_scope q"
      using p that(2) unfolding mem_next_candidates by simp_all
    ultimately have "tk_id p = tk_id q \<Longrightarrow> other_claims d q"
      unfolding other_claims_def list_ex_iff by (intro bexI [of _ p]) simp_all
    then have "tk_id p \<noteq> tk_id q" using that(4) unfolding ready_def by blast
    with le show ?thesis by (auto simp: listing_key_def less_eq_prod_def less_prod_def)
  qed
  have blocked: "sel_blocked s = length (filter (waits (gate_schema g) hs d) rows)"
    unfolding s_def select_walk_parts hld
    by (rule arg_cong [where f = length], rule filter_cong [OF refl]) (auto simp: rdy ready_def)
  have outside: "sel_outside s = length (filter (\<lambda>p. ready p \<and> lens_hides lens noLens p) rows)"
    unfolding s_def select_walk_parts
    by (rule arg_cong [where f = length], rule filter_cong [OF refl]) (auto simp: rdy)
  show ?thesis
  proof (intro conjI)
    show "select_next g rows lens noLens = s" by (simp add: select_next_def again s_def)
    show "sel_chosen s = None \<longleftrightarrow> (\<forall>p \<in> set (next_candidates scope d). \<not> ready p \<or> lens_hides lens noLens p)"
      by (auto simp: chosen find_None_iff set)
    show "\<forall>p. sel_chosen s = Some p \<longrightarrow>
       p \<in> set (next_candidates scope d) \<and> ready p \<and> \<not> lens_hides lens noLens p \<and>
       (\<forall>q \<in> set (next_candidates scope d). q \<noteq> p \<and> ready q \<and> \<not> lens_hides lens noLens q \<longrightarrow>
          listing_key p < listing_key q)"
      using key chosen set by (auto simp: find_Some_iff)
  qed (simp_all only: blocked outside cnt)
qed

text \<open>Two tickets in one scope: the first in order depends on the second, which is open.\<close>

definition gate_db :: db where
  "gate_db = snd (run_scope_write
     [WUpsertTicket ((sample_row ''p1'' [] 1)\<lparr>tk_order_key := ''a0''\<rparr>) [sample_edge ''p1'' ''app-cd45''],
      WUpsertTicket ((sample_row ''p2'' [''ui''] 1)\<lparr>tk_id := ''app-cd45'', tk_short_id := ''cd45'', tk_order_key := ''a1''\<rparr>) []]
     empty_db)"

lemma gate_db_ok: "db_ok gate_db"
  unfolding gate_db_def by (rule run_scope_write_ok [OF empty_db_ok]) code_simp

lemma gate_db_filed: "ids_filed gate_db" "scopes_plain gate_db"
  by (code_simp)+

abbreviation sample_gate :: gate where
  "sample_gate \<equiv> load_gate (\<lambda>scope. None) [(''app'', Some sample_schema)] [''app''] gate_db"

theorem waiting_on_exact_witness:
  "map (\<lambda>p. ev_waiting_on (eval_depends sample_gate p)) (scope_tickets ''app'' gate_db) = [[''app-cd45''], []] \<and>
   (\<forall>p. ev_waiting_on (eval_depends sample_gate p) =
      sorted_list_of_set {t \<in> set (depends_of [''app''] gate_db p). \<not> target_met (gate_schema sample_gate) gate_db t})"
proof -
  have "map (\<lambda>p. ev_waiting_on (eval_depends sample_gate p)) (scope_tickets ''app'' gate_db) = [[''app-cd45''], []]" by code_simp
  then show ?thesis
    using waiting_on_exact [OF gate_db_filed(1), of "\<lambda>scope. None" "[(''app'', Some sample_schema)]" "[''app'']"] by simp
qed

theorem next_is_first_ready_witness:
  "map_option tk_id (sel_chosen (select_walk sample_gate (next_candidates ''app'' gate_db) [''ui''] False)) = Some ''app-cd45'' \<and>
   sel_blocked (select_walk sample_gate (next_candidates ''app'' gate_db) [''ui''] False) =
     length (filter (waits (gate_schema sample_gate) [''app''] gate_db) (next_candidates ''app'' gate_db))"
proof -
  have "map_option tk_id (sel_chosen (select_walk sample_gate (next_candidates ''app'' gate_db) [''ui''] False)) = Some ''app-cd45''"
    by code_simp
  moreover have "sorted (map listing_key (next_candidates ''app'' gate_db))" by code_simp
  moreover have "''app'' \<in> set [''app'']" by simp
  ultimately show ?thesis
    using next_is_first_ready [OF gate_db_ok gate_db_filed, of "''app''" "[''app'']" "next_candidates ''app'' gate_db"
        "\<lambda>scope. None" "[(''app'', Some sample_schema)]" "[''ui'']" False] by simp
qed

end
