(* ===== verification/Rewrites.thy ===== *)
theory Rewrites
  imports Prelude "HOL-Library.AList"
begin

text \<open>
  The multi-file rewrite of \<open>internal/rewrite/rewrite.go\<close> on an explicit file store. A store
  is the list of its paths with their contents; writing a path replaces its content as one
  step, which is what \<open>atomicfile.Write\<close> gives. \<open>Apply\<close> is defined twice: as the function
  that runs to the end, and as a step relation whose states are all the points where the
  process can die or a system call can fail.
\<close>

section \<open>The file store\<close>

type_synonym fs = "(string \<times> string) list"

definition fs_read :: "fs \<Rightarrow> string \<Rightarrow> string option" where
  "fs_read fs p = map_of fs p"

definition fs_write :: "string \<Rightarrow> string \<Rightarrow> fs \<Rightarrow> fs" where
  "fs_write p c fs = AList.update p c fs"

definition fs_remove :: "string \<Rightarrow> fs \<Rightarrow> fs" where
  "fs_remove p fs = AList.delete p fs"

lemma fs_read_write [simp]: "fs_read (fs_write p c fs) q = (if q = p then Some c else fs_read fs q)"
  by (simp add: fs_read_def fs_write_def update_conv')

lemma fs_read_remove [simp]: "fs_read (fs_remove p fs) q = (if q = p then None else fs_read fs q)"
  by (simp add: fs_read_def fs_remove_def delete_conv')

section \<open>Apply\<close>

record rw_op =
  op_old :: string
  op_new :: string
  op_content :: string

definition moved :: "rw_op \<Rightarrow> bool" where
  "moved x \<longleftrightarrow> op_old x \<noteq> [] \<and> op_old x \<noteq> op_new x"

definition already_done :: "rw_op \<Rightarrow> fs \<Rightarrow> bool" where
  "already_done x fs \<longleftrightarrow> (if fs_read fs (op_old x) \<noteq> None then False else fs_read fs (op_new x) \<noteq> None)"

datatype rewrite_error = RefuseWrite string | RefuseMove string string

definition check_free_destination :: "rw_op \<Rightarrow> fs \<Rightarrow> rewrite_error option" where
  "check_free_destination x fs =
     (case fs_read fs (op_new x) of
        None \<Rightarrow> None
      | Some existing \<Rightarrow>
          if existing = op_content x then None
          else if op_old x = [] then Some (RefuseWrite (op_new x))
          else Some (RefuseMove (op_old x) (op_new x)))"

fun apply_ops :: "rw_op list \<Rightarrow> fs \<Rightarrow> rewrite_error option \<times> string list \<times> fs" where
  "apply_ops [] fs = (None, [], fs)"
| "apply_ops (x # xs) fs =
     (if moved x \<and> already_done x fs then
        (case apply_ops xs fs of (e, touched, fs') \<Rightarrow> (e, op_new x # op_old x # touched, fs'))
      else
        case (if op_old x \<noteq> op_new x then check_free_destination x fs else None) of
          Some e \<Rightarrow> (Some e, [], fs)
        | None \<Rightarrow>
            let fs1 = fs_write (op_new x) (op_content x) fs in
            if moved x then
              (case apply_ops xs (fs_remove (op_old x) fs1) of
                 (e, touched, fs') \<Rightarrow> (e, op_new x # op_old x # touched, fs'))
            else
              (case apply_ops xs fs1 of (e, touched, fs') \<Rightarrow> (e, op_new x # touched, fs')))"

text \<open>
  The same loop step by step. \<open>Run xs\<close> is the head of the loop with the ops still to do,
  \<open>Unlink x xs\<close> the point between the write and the remove of a move.
\<close>

datatype phase = Run "rw_op list" | Unlink rw_op "rw_op list" | Refused rewrite_error

inductive apply_step :: "phase \<times> fs \<Rightarrow> phase \<times> fs \<Rightarrow> bool" where
  skip: "moved x \<Longrightarrow> already_done x fs \<Longrightarrow> apply_step (Run (x # xs), fs) (Run xs, fs)"
| refuse: "\<not> (moved x \<and> already_done x fs) \<Longrightarrow> op_old x \<noteq> op_new x \<Longrightarrow> check_free_destination x fs = Some e \<Longrightarrow>
     apply_step (Run (x # xs), fs) (Refused e, fs)"
| put: "\<not> (moved x \<and> already_done x fs) \<Longrightarrow> op_old x = op_new x \<or> check_free_destination x fs = None \<Longrightarrow>
     apply_step (Run (x # xs), fs) (if moved x then Unlink x xs else Run xs, fs_write (op_new x) (op_content x) fs)"
| unlink: "apply_step (Unlink x xs, fs) (Run xs, fs_remove (op_old x) fs)"

inductive_cases run_stepE: "apply_step (Run xs, fs) s"
inductive_cases unlink_stepE: "apply_step (Unlink x xs, fs) s"
inductive_cases refused_stepE [elim!]: "apply_step (Refused e, fs) s"

inductive_simps run_done_step [simp]: "apply_step (Run [], fs) s"

text \<open>The function is the relation run to its end.\<close>

lemma apply_ops_steps:
  "case apply_ops xs fs of
     (None, touched, fs') \<Rightarrow> apply_step\<^sup>*\<^sup>* (Run xs, fs) (Run [], fs')
   | (Some e, touched, fs') \<Rightarrow> apply_step\<^sup>*\<^sup>* (Run xs, fs) (Refused e, fs')"
proof (induction xs fs rule: apply_ops.induct)
  case (2 x xs fs)
  consider (skip) "moved x" "already_done x fs"
    | (refuse) e where "\<not> (moved x \<and> already_done x fs)" "op_old x \<noteq> op_new x" "check_free_destination x fs = Some e"
    | (put) "\<not> (moved x \<and> already_done x fs)" "op_old x = op_new x \<or> check_free_destination x fs = None"
    by (cases "check_free_destination x fs") auto
  then show ?case
  proof cases
    case skip
    with 2(1) apply_step.skip [OF skip, of xs] show ?thesis
      by (auto split: option.splits prod.splits intro: converse_rtranclp_into_rtranclp)
  next
    case (refuse e)
    have "apply_step (Run (x # xs), fs) (Refused e, fs)" by (rule apply_step.refuse) (use refuse in auto)
    with refuse show ?thesis by auto
  next
    case put
    let ?fs1 = "fs_write (op_new x) (op_content x) fs"
    have st: "apply_step (Run (x # xs), fs) (if moved x then Unlink x xs else Run xs, ?fs1)"
      by (rule apply_step.put) (use put in auto)
    have free: "(if op_old x \<noteq> op_new x then check_free_destination x fs else None) = None" using put by auto
    show ?thesis
    proof (cases "moved x")
      case True
      have "apply_step\<^sup>*\<^sup>* (Run (x # xs), fs) (Run xs, fs_remove (op_old x) ?fs1)"
      proof (rule converse_rtranclp_into_rtranclp)
      show "apply_step (Run (x # xs), fs) (Unlink x xs, ?fs1)" using st True by simp
      show "apply_step\<^sup>*\<^sup>* (Unlink x xs, ?fs1) (Run xs, fs_remove (op_old x) ?fs1)"
        by (rule r_into_rtranclp) (rule apply_step.unlink)
    qed
      with 2(2) [OF _ free refl True] put True free show ?thesis
        by (auto simp: Let_def split: option.splits prod.splits intro: rtranclp_trans)
    next
      case False
      with 2(3) [OF _ free refl False] put free st show ?thesis
        by (auto simp: Let_def split: option.splits prod.splits intro: converse_rtranclp_into_rtranclp)
    qed
  qed
qed simp

section \<open>Re-entry\<close>

text \<open>Results that differ only in the representation of the store.\<close>

type_synonym apply_result = "rewrite_error option \<times> string list \<times> fs"

definition same_result :: "apply_result \<Rightarrow> apply_result \<Rightarrow> bool" where
  "same_result r r' \<longleftrightarrow>
     fst r = fst r' \<and> fst (snd r) = fst (snd r') \<and> fs_read (snd (snd r)) = fs_read (snd (snd r'))"

lemma same_result_refl [simp]: "same_result r r"
  by (simp add: same_result_def)

lemma same_result_sym: "same_result r r' \<Longrightarrow> same_result r' r"
  by (auto simp: same_result_def)

lemma same_result_trans [trans]: "same_result r r' \<Longrightarrow> same_result r' r'' \<Longrightarrow> same_result r r''"
  by (auto simp: same_result_def)

definition op_paths :: "rw_op \<Rightarrow> string list" where
  "op_paths x = (if moved x then [op_new x, op_old x] else [op_new x])"

definition touching :: "string list \<Rightarrow> apply_result \<Rightarrow> apply_result" where
  "touching ps r = (fst r, ps @ fst (snd r), snd (snd r))"

lemma touching_simps [simp]:
  "touching [] r = r" "touching ps (touching qs r) = touching (ps @ qs) r"
  by (simp_all add: touching_def)

lemma same_touching: "same_result r r' \<Longrightarrow> same_result (touching ps r) (touching ps r')"
  by (auto simp: same_result_def touching_def)

lemma same_touching_iff [simp]: "same_result (touching ps r) (touching ps r') \<longleftrightarrow> same_result r r'"
  by (auto simp: same_result_def touching_def)

text \<open>One round of the loop.\<close>

lemma apply_skip: "moved x \<Longrightarrow> already_done x fs \<Longrightarrow> apply_ops (x # xs) fs = touching (op_paths x) (apply_ops xs fs)"
  by (simp add: touching_def op_paths_def split: prod.splits)

lemma apply_refuse:
  "\<not> (moved x \<and> already_done x fs) \<Longrightarrow> op_old x \<noteq> op_new x \<Longrightarrow> check_free_destination x fs = Some e \<Longrightarrow>
     apply_ops (x # xs) fs = (Some e, [], fs)"
  by (simp del: de_Morgan_conj)

lemma apply_put:
  assumes "\<not> (moved x \<and> already_done x fs)" "op_old x = op_new x \<or> check_free_destination x fs = None"
  shows "apply_ops (x # xs) fs = touching (op_paths x) (apply_ops xs
    (let fs1 = fs_write (op_new x) (op_content x) fs in if moved x then fs_remove (op_old x) fs1 else fs1))"
proof -
  have "(if op_old x \<noteq> op_new x then check_free_destination x fs else None) = None" using assms(2) by auto
  with assms(1) show ?thesis by (auto simp: touching_def op_paths_def Let_def split: prod.splits)
qed

declare apply_ops.simps(2) [simp del]

lemma apply_round:
  obtains (skip) "moved x" "already_done x fs"
  | (refuse) e where "\<not> (moved x \<and> already_done x fs)" "op_old x \<noteq> op_new x" "check_free_destination x fs = Some e"
  | (put) "\<not> (moved x \<and> already_done x fs)" "op_old x = op_new x \<or> check_free_destination x fs = None"
  by (cases "check_free_destination x fs") auto

lemma same_store:
  assumes "fs_read fs = fs_read fs'"
  shows "already_done x fs = already_done x fs'" "check_free_destination x fs = check_free_destination x fs'"
    "fs_read (fs_write p c fs) = fs_read (fs_write p c fs')" "fs_read (fs_remove p fs) = fs_read (fs_remove p fs')"
  using assms by (simp_all add: already_done_def check_free_destination_def fun_eq_iff)

lemma apply_cong: "fs_read fs = fs_read fs' \<Longrightarrow> same_result (apply_ops xs fs) (apply_ops xs fs')"
proof (induction xs arbitrary: fs fs')
  case Nil
  then show ?case by (simp add: same_result_def)
next
  case (Cons x xs)
  note same = same_store [OF Cons.prems]
  show ?case
  proof (cases x fs rule: apply_round)
    case skip
    with Cons same(1) [of x] show ?thesis by (simp add: apply_skip)
  next
    case (refuse e)
    have "\<not> (moved x \<and> already_done x fs')" "check_free_destination x fs' = Some e" using refuse same by auto
    with refuse Cons.prems show ?thesis by (simp add: apply_refuse same_result_def)
  next
    case put
    have "\<not> (moved x \<and> already_done x fs')" "op_old x = op_new x \<or> check_free_destination x fs' = None"
      using put same by auto
    then show ?thesis
      using Cons.IH same(3,4) same_store(4) [OF same(3)] by (simp add: apply_put [OF put] apply_put Let_def)
  qed
qed

text \<open>An op whose effect is in the store already is a no-op.\<close>

definition settled :: "rw_op \<Rightarrow> fs \<Rightarrow> bool" where
  "settled x fs \<longleftrightarrow>
     (if moved x then fs_read fs (op_old x) = None \<and> fs_read fs (op_new x) \<noteq> None
      else fs_read fs (op_new x) = Some (op_content x))"

lemma apply_settled_one:
  assumes "settled x fs"
  shows "same_result (apply_ops (x # xs) fs) (touching (op_paths x) (apply_ops xs fs))"
proof (cases "moved x")
  case True
  with assms have "already_done x fs" by (simp add: settled_def already_done_def)
  with True show ?thesis by (simp add: apply_skip)
next
  case False
  with assms have c: "fs_read fs (op_new x) = Some (op_content x)" by (simp add: settled_def)
  then have "check_free_destination x fs = None" by (simp add: check_free_destination_def)
  with False have "apply_ops (x # xs) fs = touching (op_paths x) (apply_ops xs (fs_write (op_new x) (op_content x) fs))"
    by (subst apply_put) simp_all
  moreover have "fs_read (fs_write (op_new x) (op_content x) fs) = fs_read fs" using c by auto
  ultimately show ?thesis by (auto intro: apply_cong)
qed

lemma apply_settled:
  "list_all (\<lambda>x. settled x fs) ys \<Longrightarrow>
     same_result (apply_ops (ys @ xs) fs) (touching (concat (map op_paths ys)) (apply_ops xs fs))"
proof (induction ys)
  case (Cons y ys)
  then have "same_result (apply_ops ((y # ys) @ xs) fs) (touching (op_paths y) (apply_ops (ys @ xs) fs))"
    using apply_settled_one [of y fs "ys @ xs"] by simp
  also have "same_result \<dots> (touching (op_paths y) (touching (concat (map op_paths ys)) (apply_ops xs fs)))"
    using Cons by (intro same_touching) simp
  finally show ?case by simp
qed simp

text \<open>
  What a caller's plan has to satisfy: two ops that write one path write the same bytes, and
  nothing is written to a path that a move vacates.
\<close>

definition plan_ok :: "rw_op list \<Rightarrow> bool" where
  "plan_ok xs \<longleftrightarrow>
     list_all (\<lambda>x. list_all (\<lambda>y. (op_new x = op_new y \<longrightarrow> op_content x = op_content y) \<and>
                                  (moved x \<longrightarrow> op_new y \<noteq> op_old x)) xs) xs"

lemma plan_okD:
  "plan_ok xs \<Longrightarrow> x \<in> set xs \<Longrightarrow> y \<in> set xs \<Longrightarrow> op_new x = op_new y \<Longrightarrow> op_content x = op_content y"
  "plan_ok xs \<Longrightarrow> x \<in> set xs \<Longrightarrow> y \<in> set xs \<Longrightarrow> moved x \<Longrightarrow> op_new y \<noteq> op_old x"
  unfolding plan_ok_def list_all_iff by blast+

lemma settled_write:
  "plan_ok xs \<Longrightarrow> x \<in> set xs \<Longrightarrow> y \<in> set xs \<Longrightarrow> settled x fs \<Longrightarrow> settled x (fs_write (op_new y) (op_content y) fs)"
  using plan_okD [of xs x y] by (auto simp: settled_def)

lemma settled_remove:
  "plan_ok xs \<Longrightarrow> x \<in> set xs \<Longrightarrow> y \<in> set xs \<Longrightarrow> moved y \<Longrightarrow> settled x fs \<Longrightarrow> settled x (fs_remove (op_old y) fs)"
  using plan_okD(2) [of xs y x] by (auto simp: settled_def)

text \<open>The state of an interrupted run, from where the plan started.\<close>

fun run_inv :: "rw_op list \<Rightarrow> fs \<Rightarrow> phase \<times> fs \<Rightarrow> bool" where
  "run_inv plan fs (Run rest, fs') \<longleftrightarrow>
     (\<exists>pre. plan = pre @ rest \<and> list_all (\<lambda>x. settled x fs') pre \<and>
        same_result (apply_ops plan fs) (touching (concat (map op_paths pre)) (apply_ops rest fs')))"
| "run_inv plan fs (Unlink x rest, fs') \<longleftrightarrow>
     (\<exists>pre. plan = pre @ x # rest \<and> list_all (\<lambda>x. settled x fs') pre \<and> moved x \<and>
        fs_read fs' (op_new x) = Some (op_content x) \<and>
        same_result (apply_ops plan fs)
          (touching (concat (map op_paths (pre @ [x]))) (apply_ops rest (fs_remove (op_old x) fs'))))"
| "run_inv plan fs (Refused e, fs') \<longleftrightarrow>
     (\<exists>pre rest. plan = pre @ rest \<and> list_all (\<lambda>x. settled x fs') pre \<and> apply_ops rest fs' = (Some e, [], fs') \<and>
        same_result (apply_ops plan fs) (touching (concat (map op_paths pre)) (Some e, [], fs')))"

lemma run_inv_step:
  assumes ok: "plan_ok plan" and inv: "run_inv plan fs s" and step: "apply_step s s'"
  shows "run_inv plan fs s'"
  using step inv
proof cases
  case (skip x fs' xs)
  then obtain pre where pre: "plan = pre @ x # xs" "list_all (\<lambda>x. settled x fs') pre"
      "same_result (apply_ops plan fs) (touching (concat (map op_paths pre)) (apply_ops (x # xs) fs'))"
    using inv by auto
  moreover have "settled x fs'" using skip by (auto simp: settled_def already_done_def split: if_splits)
  ultimately show ?thesis using skip by (auto simp: apply_skip intro!: exI [of _ "pre @ [x]"])
next
  case (refuse x fs' e xs)
  then obtain pre where pre: "plan = pre @ x # xs" "list_all (\<lambda>x. settled x fs') pre"
      "same_result (apply_ops plan fs) (touching (concat (map op_paths pre)) (apply_ops (x # xs) fs'))"
    using inv by auto
  have "apply_ops (x # xs) fs' = (Some e, [], fs')" by (rule apply_refuse) (use refuse in auto)
  then have "run_inv plan fs (Refused e, fs')" 
    using pre unfolding run_inv.simps by (intro exI [of _ pre] exI [of _ "x # xs"] conjI) simp_all
  then show ?thesis using refuse by simp
next
  case (put x fs' xs)
  let ?fs1 = "fs_write (op_new x) (op_content x) fs'"
  from put obtain pre where pre: "plan = pre @ x # xs" "list_all (\<lambda>x. settled x fs') pre"
      "same_result (apply_ops plan fs) (touching (concat (map op_paths pre)) (apply_ops (x # xs) fs'))"
    using inv by auto
  have st: "list_all (\<lambda>x. settled x ?fs1) pre"
    using pre(1,2) settled_write [OF ok] by (auto simp: list_all_iff)
  have run: "apply_ops (x # xs) fs' = touching (op_paths x) (apply_ops xs
      (let fs1 = ?fs1 in if moved x then fs_remove (op_old x) fs1 else fs1))"
    by (rule apply_put) (use put in auto)
  show ?thesis
  proof (cases "moved x")
    case True
    then have "run_inv plan fs (Unlink x xs, ?fs1)"
      using pre st run by (auto intro!: exI [of _ pre])
    then show ?thesis using put True by simp
  next
    case False
    then have "settled x ?fs1" by (simp add: settled_def)
    then have "run_inv plan fs (Run xs, ?fs1)"
      using pre st run False by (auto intro!: exI [of _ "pre @ [x]"])
    then show ?thesis using put False by simp
  qed
next
  case (unlink x xs fs')
  then obtain pre where pre: "plan = pre @ x # xs" "list_all (\<lambda>x. settled x fs') pre" "moved x"
      "fs_read fs' (op_new x) = Some (op_content x)"
      "same_result (apply_ops plan fs)
         (touching (concat (map op_paths (pre @ [x]))) (apply_ops xs (fs_remove (op_old x) fs')))"
    using inv by auto
  let ?fs1 = "fs_remove (op_old x) fs'"
  have "list_all (\<lambda>y. settled y ?fs1) pre"
    using pre(1,2,3) settled_remove [OF ok, of _ x] by (auto simp: list_all_iff)
  moreover have "settled x ?fs1"
    using pre(3,4) plan_okD(2) [OF ok, of x x] by (auto simp: settled_def pre(1))
  ultimately have "run_inv plan fs (Run xs, ?fs1)"
    using pre(1,5) by (auto intro!: exI [of _ "pre @ [x]"])
  then show ?thesis using unlink by simp
qed

lemma run_inv_reach:
  assumes "plan_ok plan" "apply_step\<^sup>*\<^sup>* (Run plan, fs) s"
  shows "run_inv plan fs s"
  using assms(2)
proof (induction rule: rtranclp_induct)
  case base
  then show ?case by (auto intro!: exI [of _ "[]"])
next
  case (step s s')
  then show ?case using run_inv_step [OF assms(1)] by blast
qed

lemma run_inv_again:
  assumes ok: "plan_ok plan" and inv: "run_inv plan fs (ph, fs')"
  shows "same_result (apply_ops plan fs) (apply_ops plan fs')"
proof (cases ph)
  case (Run rest)
  then obtain pre where pre: "plan = pre @ rest" "list_all (\<lambda>x. settled x fs') pre"
    "same_result (apply_ops plan fs) (touching (concat (map op_paths pre)) (apply_ops rest fs'))"
    using inv by auto
  show ?thesis
    by (rule same_result_trans [OF pre(3) same_result_sym]) (simp add: pre(1) apply_settled [OF pre(2)])
next
  case (Unlink x rest)
  then obtain pre where pre: "plan = pre @ x # rest" "list_all (\<lambda>x. settled x fs') pre" "moved x"
      "fs_read fs' (op_new x) = Some (op_content x)"
      "same_result (apply_ops plan fs)
         (touching (concat (map op_paths (pre @ [x]))) (apply_ops rest (fs_remove (op_old x) fs')))"
    using inv by auto
  have "same_result (apply_ops (x # rest) fs') (touching (op_paths x) (apply_ops rest (fs_remove (op_old x) fs')))"
  proof (cases "already_done x fs'")
    case True
    then have "fs_read (fs_remove (op_old x) fs') = fs_read fs'" by (auto simp: already_done_def split: if_splits)
    then show ?thesis using apply_cong pre(3) True by (simp add: apply_skip same_touching)
  next
    case False
    have "check_free_destination x fs' = None" using pre(4) by (simp add: check_free_destination_def)
    then have "apply_ops (x # rest) fs' = touching (op_paths x)
        (apply_ops rest (fs_remove (op_old x) (fs_write (op_new x) (op_content x) fs')))"
      using False pre(3) by (subst apply_put) (simp_all add: Let_def)
    moreover have "fs_read (fs_remove (op_old x) (fs_write (op_new x) (op_content x) fs')) = fs_read (fs_remove (op_old x) fs')"
      using pre(4) by auto
    ultimately show ?thesis by (simp add: apply_cong same_touching)
  qed
  then have "same_result (apply_ops plan fs') (touching (concat (map op_paths pre))
      (touching (op_paths x) (apply_ops rest (fs_remove (op_old x) fs'))))"
    unfolding pre(1) by (rule same_result_trans [OF apply_settled [OF pre(2)] same_touching])
  then show ?thesis by (intro same_result_trans [OF pre(5) same_result_sym]) simp
next
  case (Refused e)
  then obtain pre rest where pre: "plan = pre @ rest" "list_all (\<lambda>x. settled x fs') pre"
    "apply_ops rest fs' = (Some e, [], fs')"
    "same_result (apply_ops plan fs) (touching (concat (map op_paths pre)) (Some e, [], fs'))"
    using inv by auto
  show ?thesis
    using apply_settled [OF pre(2), of rest] by (intro same_result_trans [OF pre(4) same_result_sym]) (simp add: pre(1,3))
qed

text \<open>C1. Re-entry after a crash is idempotent. Wherever \<open>Apply\<close> dies (before or after any write, between
  a write and its remove, or at a refusal), running the same plan again from what is on disk gives
  the same outcome, the same touched paths and the same store as the uninterrupted run, provided
  the plan never writes two contents to one path and never writes to a path it vacates.\<close>

theorem apply_reentry:
  assumes "plan_ok plan" and "apply_step\<^sup>*\<^sup>* (Run plan, fs) (ph, crashed)"
  shows "fst (apply_ops plan crashed) = fst (apply_ops plan fs) \<and>
    fst (snd (apply_ops plan crashed)) = fst (snd (apply_ops plan fs)) \<and>
    fs_read (snd (snd (apply_ops plan crashed))) = fs_read (snd (snd (apply_ops plan fs)))"
  using run_inv_again [OF assms(1) run_inv_reach [OF assms]] by (simp add: same_result_def)

definition sample_move :: rw_op where
  "sample_move = \<lparr>op_old = ''d/a.md'', op_new = ''d/b.md'', op_content = ''1''\<rparr>"

definition sample_edit :: rw_op where
  "sample_edit = \<lparr>op_old = ''d/c.md'', op_new = ''d/c.md'', op_content = ''2''\<rparr>"

definition sample_fs :: fs where
  "sample_fs = [(''d/a.md'', ''0''), (''d/c.md'', ''3'')]"

theorem apply_reentry_witness:
  "fs_read (snd (snd (apply_ops [sample_move, sample_edit] (fs_write ''d/b.md'' ''1'' sample_fs)))) =
     fs_read (snd (snd (apply_ops [sample_move, sample_edit] sample_fs))) \<and>
   fs_read (snd (snd (apply_ops [sample_move, sample_edit] sample_fs))) ''d/a.md'' = None"
proof -
  have ok: "plan_ok [sample_move, sample_edit]" by code_simp
  have *: "\<not> (moved sample_move \<and> already_done sample_move sample_fs)"
    "check_free_destination sample_move sample_fs = None" by code_simp+
  have c: "op_new sample_move = ''d/b.md''" "op_content sample_move = ''1''" by (simp_all add: sample_move_def)
  have "apply_step (Run [sample_move, sample_edit], sample_fs)
      (if moved sample_move then Unlink sample_move [sample_edit] else Run [sample_edit], fs_write ''d/b.md'' ''1'' sample_fs)"
    using put [of sample_move sample_fs "[sample_edit]"] * by (simp only: c) blast
  note reach = r_into_rtranclp [of apply_step, OF this]
  moreover have "fs_read (snd (snd (apply_ops [sample_move, sample_edit] sample_fs))) ''d/a.md'' = None" by code_simp
  ultimately show ?thesis using apply_reentry [OF ok reach] by blast
qed

section \<open>Nothing is lost\<close>

text \<open>What a state of the run may have done to one path of the store it started from.\<close>

definition accounted :: "rw_op list \<Rightarrow> fs \<Rightarrow> fs \<Rightarrow> string \<Rightarrow> bool" where
  "accounted plan fs fs' p \<longleftrightarrow>
     fs_read fs' p = fs_read fs p \<or>
     (\<exists>x \<in> set plan. p = op_new x \<and> fs_read fs' p = Some (op_content x) \<and> (fs_read fs p = None \<or> op_old x = p)) \<or>
     (\<exists>x \<in> set plan. moved x \<and> p = op_old x \<and> fs_read fs' p = None \<and> fs_read fs' (op_new x) = Some (op_content x))"

fun phase_ops :: "phase \<Rightarrow> rw_op list" where
  "phase_ops (Run xs) = xs"
| "phase_ops (Unlink x xs) = x # xs"
| "phase_ops (Refused e) = []"

definition safe_inv :: "rw_op list \<Rightarrow> fs \<Rightarrow> phase \<times> fs \<Rightarrow> bool" where
  "safe_inv plan fs s \<longleftrightarrow>
     set (phase_ops (fst s)) \<subseteq> set plan \<and> (\<forall>p. accounted plan fs (snd s) p) \<and>
     (\<forall>x xs. fst s = Unlink x xs \<longrightarrow> moved x \<and> fs_read (snd s) (op_new x) = Some (op_content x))"

lemma check_free_None: "check_free_destination x fs = None \<longleftrightarrow> fs_read fs (op_new x) \<in> {None, Some (op_content x)}"
  by (auto simp: check_free_destination_def split: option.splits)

lemma accounted_cases:
  assumes "accounted plan fs fs' p"
  obtains (same) "fs_read fs' p = fs_read fs p"
  | (written) x where "x \<in> set plan" "p = op_new x" "fs_read fs' p = Some (op_content x)" "fs_read fs p = None \<or> op_old x = p"
  | (vacated) x where "x \<in> set plan" "moved x" "p = op_old x" "fs_read fs' p = None" "fs_read fs' (op_new x) = Some (op_content x)"
  using assms unfolding accounted_def by blast

lemma accounted_write:
  assumes ok: "plan_ok plan" and x: "x \<in> set plan" and acc: "accounted plan fs fs' p"
    and free: "op_old x = op_new x \<or> check_free_destination x fs' = None"
  shows "accounted plan fs (fs_write (op_new x) (op_content x) fs') p"
proof (cases "p = op_new x")
  case False
  then have p: "fs_read (fs_write (op_new x) (op_content x) fs') p = fs_read fs' p" by simp
  from acc show ?thesis
  proof (cases rule: accounted_cases)
    case same
    with p show ?thesis by (simp add: accounted_def)
  next
    case (written y)
    with p show ?thesis unfolding accounted_def by metis
  next
    case (vacated y)
    then have "fs_read (fs_write (op_new x) (op_content x) fs') (op_new y) = Some (op_content y)"
      using plan_okD(1) [OF ok x, of y] by simp
    with p vacated show ?thesis unfolding accounted_def by metis
  qed
next
  case True
  then have now: "fs_read (fs_write (op_new x) (op_content x) fs') p = Some (op_content x)" by simp
  from acc show ?thesis
  proof (cases rule: accounted_cases)
    case same
    then show ?thesis
      using free now True x unfolding accounted_def check_free_None by (metis insertE singletonD)
  next
    case (written y)
    then have "op_content y = op_content x" using plan_okD(1) [OF ok _ x, of y] True by simp
    with now written show ?thesis unfolding accounted_def by metis
  next
    case (vacated y)
    then show ?thesis using plan_okD(2) [OF ok _ x, of y] True by simp
  qed
qed

lemma accounted_remove:
  assumes ok: "plan_ok plan" and x: "x \<in> set plan" "moved x" and acc: "accounted plan fs fs' p"
    and new: "fs_read fs' (op_new x) = Some (op_content x)"
  shows "accounted plan fs (fs_remove (op_old x) fs') p"
proof (cases "p = op_old x")
  case True
  have "op_new x \<noteq> op_old x" by (rule plan_okD(2) [OF ok x(1) x(1) x(2)])
  then have "fs_read (fs_remove (op_old x) fs') (op_new x) = Some (op_content x)" using new by simp
  moreover have "fs_read (fs_remove (op_old x) fs') p = None" using True by simp
  ultimately show ?thesis using x True unfolding accounted_def by metis
next
  case False
  then have p: "fs_read (fs_remove (op_old x) fs') p = fs_read fs' p" by simp
  from acc show ?thesis
  proof (cases rule: accounted_cases)
    case same
    with p show ?thesis by (simp add: accounted_def)
  next
    case (written y)
    with p show ?thesis unfolding accounted_def by metis
  next
    case (vacated y)
    then have "fs_read (fs_remove (op_old x) fs') (op_new y) = Some (op_content y)"
      using plan_okD(2) [OF ok x(1) _ x(2), of y] by simp
    with p vacated show ?thesis unfolding accounted_def by metis
  qed
qed

lemma safe_inv_step:
  assumes ok: "plan_ok plan" and inv: "safe_inv plan fs s" and step: "apply_step s s'"
  shows "safe_inv plan fs s'"
  using step
proof cases
  case (skip x fs' xs)
  with inv show ?thesis by (simp add: safe_inv_def)
next
  case (refuse x fs' e xs)
  with inv show ?thesis by (simp add: safe_inv_def)
next
  case (put x fs' xs)
  have "x \<in> set plan" using inv put by (simp add: safe_inv_def)
  then have "accounted plan fs (fs_write (op_new x) (op_content x) fs') p" for p
    using accounted_write [OF ok, of x] inv put by (simp add: safe_inv_def)
  with inv put show ?thesis by (cases "moved x") (simp_all add: safe_inv_def)
next
  case (unlink x xs fs')
  have "x \<in> set plan" "moved x" "fs_read fs' (op_new x) = Some (op_content x)" using inv unlink by (simp_all add: safe_inv_def)
  then have "accounted plan fs (fs_remove (op_old x) fs') p" for p
    using accounted_remove [OF ok, of x] inv unlink by (simp add: safe_inv_def)
  with inv unlink show ?thesis by (simp add: safe_inv_def)
qed

lemma safe_inv_reach:
  assumes "plan_ok plan" "apply_step\<^sup>*\<^sup>* (Run plan, fs) s"
  shows "safe_inv plan fs s"
  using assms(2)
proof (induction rule: rtranclp_induct)
  case base
  then show ?case by (simp add: safe_inv_def accounted_def)
next
  case (step s s')
  then show ?case using safe_inv_step [OF assms(1)] by blast
qed



end
