(* ===== verification/ScopeFiles.thy ===== *)
theory ScopeFiles
  imports Ids Slugs Frontmatter "HOL-Library.AList"
begin

text \<open>
  The files of a scope directory, \<open>internal/scopefile\<close>: which names are tickets, designs and
  notes, which paths the snapshot allowlist takes, which short ids are occupied, and which
  files carry the id prefix of another scope. A disk holds the regular files with their
  modification times, the directories that can be listed, and those that exist but cannot be.
  Paths are absolute and clean, as the callers pass them.
\<close>

section \<open>Paths and directories\<close>

definition slash :: char where "slash = CHR ''/''"

definition path_join :: "string \<Rightarrow> string \<Rightarrow> string" where
  "path_join dir name = dir @ [slash] @ name"

definition path_base :: "string \<Rightarrow> string" where
  "path_base p = (case last_index_byte slash p of None \<Rightarrow> p | Some i \<Rightarrow> drop (Suc i) p)"

definition path_dir :: "string \<Rightarrow> string" where
  "path_dir p = (case last_index_byte slash p of None \<Rightarrow> ''.'' | Some i \<Rightarrow> take i p)"

text \<open>\<open>filepath.Rel\<close> with the test that follows it everywhere: \<open>None\<close> for the directory itself and outside it.\<close>

definition rel_path :: "string \<Rightarrow> string \<Rightarrow> string option" where
  "rel_path dir p =
     (if prefix (dir @ [slash]) p then
        let rel = drop (length dir + 1) p in
        if rel = ''.'' \<or> prefix ''..'' rel then None else Some rel
      else None)"

record regfile =
  f_data :: string
  f_mtime :: int

record disk =
  dk_files :: "(string \<times> regfile) list"
  dk_dirs :: "string list"
  dk_locked :: "string list"

definition disk_file :: "disk \<Rightarrow> string \<Rightarrow> regfile option" where
  "disk_file k p = map_of (dk_files k) p"

text \<open>\<open>os.ReadDir\<close>: the names of the regular files of a directory in order, or an error.\<close>

definition read_dir :: "disk \<Rightarrow> string \<Rightarrow> string list option" where
  "read_dir k root =
     (if root \<in> set (dk_dirs k)
      then Some (sort (map path_base (filter (\<lambda>p. path_dir p = root) (map fst (dk_files k)))))
      else None)"

definition optional_dir_miss :: "disk \<Rightarrow> string \<Rightarrow> bool" where
  "optional_dir_miss k root \<longleftrightarrow> root \<notin> set (dk_dirs k) \<and> root \<notin> set (dk_locked k)"

section \<open>Names\<close>

definition archive_dir :: string where "archive_dir = ''archive''"
definition design_dir :: string where "design_dir = ''design''"
definition note_dir :: string where "note_dir = ''notes''"
definition note_default_slug :: string where "note_default_slug = ''default''"
definition md_ext :: string where "md_ext = ''.md''"

definition is_reserved_note_name :: "string \<Rightarrow> bool" where
  "is_reserved_note_name name \<longleftrightarrow>
     name \<in> {''list'', ''ls'', ''add'', ''set'', ''edit'', ''remove'', ''rm'', ''help'', ''use''}"

definition is_addressable_note_slug :: "string \<Rightarrow> bool" where
  "is_addressable_note_slug name \<longleftrightarrow> slug_valid name \<and> \<not> is_reserved_note_name name"

definition note_file :: "string \<Rightarrow> string \<Rightarrow> string" where
  "note_file dir name = path_join (path_join dir note_dir) (name @ md_ext)"

definition note_slug :: "string \<Rightarrow> string \<Rightarrow> string option" where
  "note_slug p dir =
     (case rel_path dir p of
        None \<Rightarrow> None
      | Some rel \<Rightarrow>
          if path_dir rel \<noteq> note_dir then None
          else case cut_suffix md_ext (path_base rel) of
                 None \<Rightarrow> None
               | Some stem \<Rightarrow> if is_addressable_note_slug stem then Some stem else None)"

definition ticket_id_from_base :: "string \<Rightarrow> string option" where
  "ticket_id_from_base base =
     (case cut_suffix md_ext base of
        None \<Rightarrow> None
      | Some stem \<Rightarrow>
          (let parts = split_n CHR ''-'' 3 stem in
           if length parts < 2 then None
           else
             let full = parts ! 0 @ ''-'' @ parts ! 1 in
             if \<not> is_full_ticket_id full then None
             else if length parts = 3 \<and> \<not> slug_valid (parts ! 2) then None
             else Some full))"

definition looks_like_ticket :: "string \<Rightarrow> bool" where
  "looks_like_ticket base \<longleftrightarrow> ticket_id_from_base base \<noteq> None"

definition is_allowlisted :: "string \<Rightarrow> string \<Rightarrow> bool" where
  "is_allowlisted p dir =
     (case rel_path dir p of
        None \<Rightarrow> False
      | Some rel \<Rightarrow>
          let base = path_base rel; d = path_dir rel in
          if d = ''.'' then base = ''tk.cue'' \<or> base = ''.gitignore'' \<or> looks_like_ticket base
          else if d = archive_dir then looks_like_ticket base
          else if d = note_dir then
            (case cut_suffix md_ext base of None \<Rightarrow> False | Some stem \<Rightarrow> is_addressable_note_slug stem)
          else if d = design_dir then looks_like_ticket base
          else False)"

definition design_full_id :: "string \<Rightarrow> string \<Rightarrow> string option" where
  "design_full_id p dir =
     (case rel_path dir p of
        None \<Rightarrow> None
      | Some rel \<Rightarrow> if path_dir rel \<noteq> design_dir then None else ticket_id_from_base (path_base rel))"

definition full_id_of_basename :: "string \<Rightarrow> string \<Rightarrow> string option" where
  "full_id_of_basename base scope =
     (case cut_suffix md_ext base of
        None \<Rightarrow> None
      | Some stem \<Rightarrow>
          let pre = scope @ ''-'' in
          if \<not> prefix pre stem then None
          else
            let rest = trim_prefix pre stem;
                short = (case index_byte CHR ''-'' rest of Some i \<Rightarrow> take i rest | None \<Rightarrow> rest) in
            if \<not> is_short_id short then None else Some (full_id scope short))"

definition short_id_of_basename :: "string \<Rightarrow> string \<Rightarrow> string option" where
  "short_id_of_basename base scope =
     map_option (trim_prefix (scope @ ''-'')) (full_id_of_basename base scope)"

section \<open>Listings\<close>

definition collect_tickets :: "disk \<Rightarrow> string \<Rightarrow> string \<Rightarrow> string list option" where
  "collect_tickets k scopeDir root =
     (case read_dir k root of
        None \<Rightarrow> None
      | Some names \<Rightarrow>
          Some (filter (\<lambda>p. is_allowlisted p scopeDir \<and> looks_like_ticket (path_base p)) (map (path_join root) names)))"

definition list_tickets :: "disk \<Rightarrow> string \<Rightarrow> string list option" where
  "list_tickets k dir =
     (case collect_tickets k dir dir of
        None \<Rightarrow> None
      | Some out \<Rightarrow>
          let arch = path_join dir archive_dir in
          (case collect_tickets k dir arch of
             Some arch_out \<Rightarrow> Some (sort (out @ arch_out))
           | None \<Rightarrow> if optional_dir_miss k arch then Some (sort out) else None))"

record prefix_mismatch =
  pm_path :: string
  pm_id :: string

definition mismatches_in :: "string \<Rightarrow> string \<Rightarrow> string list \<Rightarrow> prefix_mismatch list" where
  "mismatches_in scope root names =
     List.map_filter (\<lambda>name. case ticket_id_from_base name of
         None \<Rightarrow> None
       | Some full \<Rightarrow>
           if scope_of_full_id full = scope then None
           else Some \<lparr>pm_path = path_join root name, pm_id = full\<rparr>) names"

fun mismatch_scan :: "disk \<Rightarrow> string \<Rightarrow> nat \<Rightarrow> string list \<Rightarrow> prefix_mismatch list option" where
  "mismatch_scan k scope i [] = Some []"
| "mismatch_scan k scope i (root # roots) =
     (case read_dir k root of
        None \<Rightarrow> if i > 0 \<and> optional_dir_miss k root then mismatch_scan k scope (Suc i) roots else None
      | Some names \<Rightarrow> map_option ((@) (mismatches_in scope root names)) (mismatch_scan k scope (Suc i) roots))"

definition prefix_mismatches :: "disk \<Rightarrow> string \<Rightarrow> string \<Rightarrow> prefix_mismatch list option" where
  "prefix_mismatches k dir scope =
     map_option (sort_key pm_path)
       (mismatch_scan k scope 0 [dir, path_join dir archive_dir, path_join dir design_dir])"

section \<open>Occupied short ids\<close>

text \<open>\<open>hold\<close> keeps the smallest holding path; a Go map is an association list without duplicate keys.\<close>

definition hold_short :: "string \<Rightarrow> string \<Rightarrow> (string \<times> string) list \<Rightarrow> (string \<times> string) list" where
  "hold_short short path out =
     (case map_of out short of
        Some prev \<Rightarrow> if path < prev then AList.update short path out else out
      | None \<Rightarrow> AList.update short path out)"

definition occupy_file :: "yaml \<Rightarrow> disk \<Rightarrow> string \<Rightarrow> string \<Rightarrow> string \<Rightarrow> (string \<times> string) list \<Rightarrow> (string \<times> string) list option" where
  "occupy_file Y k scope path base out =
     (let out1 = (case short_id_of_basename base scope of Some short \<Rightarrow> hold_short short path out | None \<Rightarrow> out) in
      case disk_file k path of
        None \<Rightarrow> None
      | Some f \<Rightarrow>
          (case split_fence (f_data f) of
             (interior, body, present) \<Rightarrow>
               if \<not> present then Some out1
               else case parse_fm Y interior of
                      Inl e \<Rightarrow> Some out1
                    | Inr m \<Rightarrow>
                        Some (if is_full_ticket_id (fm_id m) \<and> scope_of_full_id (fm_id m) = scope
                              then hold_short (trim_prefix (scope @ ''-'') (fm_id m)) path out1 else out1)))"

fun occupy_names :: "yaml \<Rightarrow> disk \<Rightarrow> string \<Rightarrow> string \<Rightarrow> bool \<Rightarrow> string list \<Rightarrow> (string \<times> string) list \<Rightarrow> (string \<times> string) list option" where
  "occupy_names Y k scope root isDesign [] out = Some out"
| "occupy_names Y k scope root isDesign (name # names) out =
     (if isDesign \<and> \<not> looks_like_ticket name \<or> short_id_of_basename name scope = None
      then occupy_names Y k scope root isDesign names out
      else case occupy_file Y k scope (path_join root name) name out of
             None \<Rightarrow> None
           | Some out' \<Rightarrow> occupy_names Y k scope root isDesign names out')"

text \<open>A directory that does not exist is empty; so is \<open>archive\<close> or \<open>design\<close> when a file is parked there.\<close>

definition dir_missing :: "disk \<Rightarrow> string \<Rightarrow> bool" where
  "dir_missing k root \<longleftrightarrow> optional_dir_miss k root \<and> disk_file k root = None"

definition occupy_dir ::
    "yaml \<Rightarrow> disk \<Rightarrow> string \<Rightarrow> string \<Rightarrow> bool \<Rightarrow> bool \<Rightarrow> (string \<times> string) list \<Rightarrow> (string \<times> string) list option" where
  "occupy_dir Y k scope root isDesign optional out =
     (case read_dir k root of
        None \<Rightarrow> if dir_missing k root \<or> optional \<and> optional_dir_miss k root then Some out else None
      | Some names \<Rightarrow> occupy_names Y k scope root isDesign names out)"

definition occupied_short_paths :: "yaml \<Rightarrow> disk \<Rightarrow> string \<Rightarrow> string \<Rightarrow> (string \<times> string) list option" where
  "occupied_short_paths Y k dir scope =
     Option.bind (occupy_dir Y k scope dir False False []) (\<lambda>a.
     Option.bind (occupy_dir Y k scope (path_join dir archive_dir) False True a) (\<lambda>b.
       occupy_dir Y k scope (path_join dir design_dir) True True b))"

definition occupied_short_ids :: "yaml \<Rightarrow> disk \<Rightarrow> string \<Rightarrow> string \<Rightarrow> string set option" where
  "occupied_short_ids Y k dir scope = map_option (set \<circ> map fst) (occupied_short_paths Y k dir scope)"

section \<open>The ticket name grammar\<close>

lemma three_parts:
  "split_n CHR ''-'' 3 stem =
     (case index_byte CHR ''-'' stem of
        None \<Rightarrow> [stem]
      | Some i \<Rightarrow>
          (case index_byte CHR ''-'' (drop (Suc i) stem) of
             None \<Rightarrow> [take i stem, drop (Suc i) stem]
           | Some j \<Rightarrow> [take i stem, take j (drop (Suc i) stem), drop (Suc j) (drop (Suc i) stem)]))"
  by (simp add: numeral_3_eq_3 split: option.split)

lemma two_hyphens:
  assumes "CHR ''-'' \<notin> set a" "CHR ''-'' \<notin> set b"
  shows "split_n CHR ''-'' 3 (a @ CHR ''-'' # b) = [a, b]"
    and "split_n CHR ''-'' 3 (a @ CHR ''-'' # b @ CHR ''-'' # c) = [a, b, c]"
  using assms index_byte_None [of "CHR ''-''" b] by (simp_all add: three_parts)

lemma full_id_hyphens:
  "is_full_ticket_id full \<Longrightarrow>
     \<exists>a b. full = a @ CHR ''-'' # b \<and> CHR ''-'' \<notin> set a \<and> CHR ''-'' \<notin> set b \<and> is_scope_name a \<and> is_short_id b"
  using full_ticket_id_iff [of full] scope_name_no_hyphen short_id_no_hyphen by (auto simp: full_id_def)

lemma ticket_id_from_base_md:
  "split_n CHR ''-'' 3 stem = [a, b] \<Longrightarrow> is_full_ticket_id (a @ ''-'' @ b) \<Longrightarrow>
     ticket_id_from_base (stem @ md_ext) = Some (a @ ''-'' @ b)"
  "split_n CHR ''-'' 3 stem = [a, b, c] \<Longrightarrow> is_full_ticket_id (a @ ''-'' @ b) \<Longrightarrow> slug_valid c \<Longrightarrow>
     ticket_id_from_base (stem @ md_ext) = Some (a @ ''-'' @ b)"
  by (simp_all add: ticket_id_from_base_def)

lemma ticket_id_from_base_iff:
  "ticket_id_from_base base = Some full \<longleftrightarrow>
     is_full_ticket_id full \<and>
     (base = full @ md_ext \<or> (\<exists>slug. slug_valid slug \<and> base = full @ ''-'' @ slug @ md_ext))" (is "?L \<longleftrightarrow> ?R")
proof
  assume ?L
  then obtain stem where stem: "base = stem @ md_ext"
    and parts: "length (split_n CHR ''-'' 3 stem) \<ge> 2"
      "full = split_n CHR ''-'' 3 stem ! 0 @ ''-'' @ split_n CHR ''-'' 3 stem ! 1" "is_full_ticket_id full"
      "length (split_n CHR ''-'' 3 stem) = 3 \<Longrightarrow> slug_valid (split_n CHR ''-'' 3 stem ! 2)"
    by (auto simp: ticket_id_from_base_def Let_def cut_suffix_Some split: option.splits if_splits)
  show ?R
  proof (cases "index_byte CHR ''-'' stem")
    case None
    then show ?thesis using parts(1) by (simp add: three_parts)
  next
    case (Some i)
    note s1 = index_byte_Some [OF Some]
    let ?rest = "drop (Suc i) stem"
    show ?thesis
    proof (cases "index_byte CHR ''-'' ?rest")
      case None
      then have "full = stem" using parts(2) Some s1 by (simp add: three_parts)
      with parts(3) stem show ?thesis by simp
    next
      case (Some j)
      have ps: "split_n CHR ''-'' 3 stem = [take i stem, take j ?rest, drop (Suc j) ?rest]"
        using \<open>index_byte CHR ''-'' stem = Some i\<close> Some by (simp add: three_parts)
      have "stem = full @ ''-'' @ drop (Suc j) ?rest"
        using parts(2) s1 index_byte_Some [OF Some] by (simp add: ps)
      with parts(3,4) stem show ?thesis by (auto simp: ps)
    qed
  qed
next
  assume r: ?R
  then obtain a b where full: "full = a @ CHR ''-'' # b" "CHR ''-'' \<notin> set a" "CHR ''-'' \<notin> set b"
    using full_id_hyphens by blast
  from r consider "base = full @ md_ext" | slug where "slug_valid slug" "base = full @ ''-'' @ slug @ md_ext" by blast
  then show ?L
  proof cases
    case 1
    then show ?thesis
      using r ticket_id_from_base_md(1) [OF two_hyphens(1) [OF full(2,3)]] by (simp add: full(1))
  next
    case 2
    have "base = (a @ CHR ''-'' # b @ CHR ''-'' # slug) @ md_ext" using 2(2) by (simp add: full(1))
    then show ?thesis
      using r ticket_id_from_base_md(2) [OF two_hyphens(2) [OF full(2,3), of slug] _ 2(1)] by (simp add: full(1))
  qed
qed

text \<open>For a legal scope name, a ticket-shaped name of the scope has the same id under both readings.\<close>

lemma full_id_of_basename_Some:
  assumes "is_scope_name scope"
  shows "full_id_of_basename base scope = Some full \<longleftrightarrow>
    (\<exists>short. is_short_id short \<and> full = full_id scope short \<and>
       (base = full @ md_ext \<or> (\<exists>tail. base = full @ ''-'' @ tail @ md_ext)))" (is "?L \<longleftrightarrow> ?R")
proof
  assume ?L
  then obtain stem rest where s: "base = stem @ md_ext" "stem = (scope @ ''-'') @ rest"
    and f: "is_short_id (case index_byte CHR ''-'' rest of Some i \<Rightarrow> take i rest | None \<Rightarrow> rest)"
      "full = full_id scope (case index_byte CHR ''-'' rest of Some i \<Rightarrow> take i rest | None \<Rightarrow> rest)"
    by (auto simp: full_id_of_basename_def Let_def cut_suffix_Some prefix_def trim_prefix_def split: option.splits if_splits)
  show ?R
  proof (cases "index_byte CHR ''-'' rest")
    case None
    with f s show ?thesis by (auto simp: full_id_def)
  next
    case (Some i)
    note r = index_byte_Some [OF Some]
    have "base = full @ ''-'' @ drop (Suc i) rest @ md_ext"
      using f(2) s r Some by (simp add: full_id_def)
    with f Some show ?thesis by auto
  qed
next
  assume ?R
  then obtain short where sh: "is_short_id short" "full = full_id scope short"
      and b: "base = full @ md_ext \<or> (\<exists>tail. base = full @ ''-'' @ tail @ md_ext)" by blast
  have nh: "index_byte CHR ''-'' short = None" using short_id_no_hyphen [OF sh(1)] by (simp add: index_byte_None)
  from b consider "base = (scope @ ''-'' @ short) @ md_ext"
    | tail where "base = (scope @ ''-'' @ (short @ CHR ''-'' # tail)) @ md_ext" using sh(2) by (auto simp: full_id_def)
  then show ?L
  proof cases
    case 1
    then show ?thesis
      using sh nh by (simp add: full_id_of_basename_def Let_def prefix_def trim_prefix_def del: append_assoc) simp
  next
    case 2
    then show ?thesis
      using sh short_id_no_hyphen [OF sh(1)]
      by (simp add: full_id_of_basename_def Let_def prefix_def trim_prefix_def del: append_assoc) simp
  qed
qed

lemma ticket_name_in_scope:
  assumes "is_scope_name scope" "ticket_id_from_base base = Some full" "scope_of_full_id full = scope"
  shows "full_id_of_basename base scope = Some full"
proof -
  obtain a b where f: "full = full_id a b" "is_scope_name a" "is_short_id b"
    using assms(2) full_ticket_id_iff by (auto simp: ticket_id_from_base_iff)
  with assms(3) have "a = scope" by simp
  then show ?thesis
    using assms(2) f unfolding full_id_of_basename_Some [OF assms(1)] ticket_id_from_base_iff by blast
qed

lemma short_of_basename:
  "full_id_of_basename base scope = Some (full_id scope short) \<Longrightarrow> short_id_of_basename base scope = Some short"
  using trim_prefix_append [of "scope @ ''-''" short] by (simp add: short_id_of_basename_def full_id_def)

lemma short_id_of_basename_None: "short_id_of_basename base scope = None \<longleftrightarrow> full_id_of_basename base scope = None"
  by (simp add: short_id_of_basename_def)

section \<open>Occupied ids, exactly\<close>

definition fence_short :: "yaml \<Rightarrow> string \<Rightarrow> string \<Rightarrow> string option" where
  "fence_short Y scope data =
     (case split_fence data of
        (interior, body, present) \<Rightarrow>
          if \<not> present then None
          else case parse_fm Y interior of
                 Inl e \<Rightarrow> None
               | Inr m \<Rightarrow>
                   if is_full_ticket_id (fm_id m) \<and> scope_of_full_id (fm_id m) = scope
                   then Some (trim_prefix (scope @ ''-'') (fm_id m)) else None)"

definition opt_list :: "'a option \<Rightarrow> 'a list" where
  "opt_list x = (case x of None \<Rightarrow> [] | Some a \<Rightarrow> [a])"

lemma set_opt_list [simp]: "set (opt_list x) = set_option x"
  by (cases x) (simp_all add: opt_list_def)

text \<open>The short ids one file holds: the one in its name, and the one in its fence.\<close>

definition file_shorts :: "yaml \<Rightarrow> disk \<Rightarrow> string \<Rightarrow> string \<Rightarrow> string \<Rightarrow> string list" where
  "file_shorts Y k scope path base =
     opt_list (short_id_of_basename base scope) @
     (case disk_file k path of None \<Rightarrow> [] | Some f \<Rightarrow> opt_list (fence_short Y scope (f_data f)))"

definition hold_all :: "(string \<times> string) list \<Rightarrow> (string \<times> string) list \<Rightarrow> (string \<times> string) list" where
  "hold_all ps out = fold (\<lambda>(short, path). hold_short short path) ps out"

lemma hold_all_simps [simp]:
  "hold_all [] out = out" "hold_all (p # ps) out = hold_all ps (hold_short (fst p) (snd p) out)"
  "hold_all (ps @ qs) out = hold_all qs (hold_all ps out)"
  by (simp_all add: hold_all_def case_prod_unfold)

lemma occupy_file_holds:
  assumes run: "occupy_file Y k scope path base out = Some out'"
  shows "disk_file k path \<noteq> None \<and> out' = hold_all (map (\<lambda>s. (s, path)) (file_shorts Y k scope path base)) out"
proof -
  from run obtain f where f: "disk_file k path = Some f" by (auto simp: occupy_file_def Let_def split: option.splits)
  obtain interior body present where sp: "split_fence (f_data f) = (interior, body, present)" by (cases "split_fence (f_data f)")
  let ?out1 = "case short_id_of_basename base scope of Some short \<Rightarrow> hold_short short path out | None \<Rightarrow> out"
  have o1: "?out1 = hold_all (map (\<lambda>s. (s, path)) (opt_list (short_id_of_basename base scope))) out"
    by (simp add: opt_list_def split: option.split)
  have "out' = hold_all (map (\<lambda>s. (s, path)) (opt_list (fence_short Y scope (f_data f)))) ?out1"
    using run by (cases "present"; cases "parse_fm Y interior")
      (auto simp: occupy_file_def Let_def f sp fence_short_def opt_list_def split: if_splits)
  then show ?thesis unfolding o1 by (simp add: f file_shorts_def)
qed

definition occupies :: "bool \<Rightarrow> string \<Rightarrow> string \<Rightarrow> bool" where
  "occupies isDesign scope name \<longleftrightarrow> \<not> (isDesign \<and> \<not> looks_like_ticket name \<or> short_id_of_basename name scope = None)"

definition dir_holds :: "yaml \<Rightarrow> disk \<Rightarrow> string \<Rightarrow> string \<Rightarrow> bool \<Rightarrow> string list \<Rightarrow> (string \<times> string) list" where
  "dir_holds Y k scope root isDesign names =
     concat (map (\<lambda>name. map (\<lambda>s. (s, path_join root name)) (file_shorts Y k scope (path_join root name) name))
                 (filter (occupies isDesign scope) names))"

lemma occupy_names_holds:
  "occupy_names Y k scope root isDesign names out = Some out' \<Longrightarrow> out' = hold_all (dir_holds Y k scope root isDesign names) out"
proof (induction names arbitrary: out)
  case (Cons name names)
  then show ?case
    by (auto simp: dir_holds_def occupies_def dest!: occupy_file_holds split: if_splits option.splits)
qed (simp add: dir_holds_def)

lemma map_of_hold_short:
  "map_of (hold_short s p out) t =
     (if t = s then Some (case map_of out s of Some q \<Rightarrow> min q p | None \<Rightarrow> p) else map_of out t)"
  by (auto simp: hold_short_def update_conv' min_def not_less split: option.splits)

lemma map_of_hold_all:
  "map_of (hold_all ps out) t =
     (let P = {p. (t, p) \<in> set ps} in
      case map_of out t of
        Some q \<Rightarrow> Some (Min (insert q P))
      | None \<Rightarrow> if P = {} then None else Some (Min P))"
proof (induction ps arbitrary: out)
  case Nil
  then show ?case by (simp split: option.split)
next
  case (Cons x ps)
  obtain s p where x: "x = (s, p)" by (cases x)
  let ?P = "{p. (t, p) \<in> set ps}"
  have fin: "finite ?P" by (rule finite_subset [of _ "snd ` set ps"]) force+
  show ?case
  proof (cases "t = s")
    case False
    then have "{q. (t, q) \<in> set (x # ps)} = ?P" by (simp add: x)
    with False show ?thesis by (simp add: x Cons.IH map_of_hold_short)
  next
    case True
    then have P: "{q. (t, q) \<in> set (x # ps)} = insert p ?P" by (auto simp: x)
    have assoc: "Min (insert (min q p) ?P) = Min (insert q (insert p ?P))" for q
      using fin by (cases "?P = {}") (simp_all add: min.assoc)
    have "map_of (hold_all (x # ps) out) t =
        Some (Min (insert (case map_of out s of Some q \<Rightarrow> min q p | None \<Rightarrow> p) ?P))"
      using Cons.IH [of "hold_short s p out"] True by (simp add: x map_of_hold_short Let_def)
    then show ?thesis
      unfolding P Let_def using True assoc by (cases "map_of out s") simp_all
  qed
qed

text \<open>The files that hold a short id of the scope, in the three directories that are read.\<close>

definition id_roots :: "string \<Rightarrow> (string \<times> bool) list" where
  "id_roots dir = [(dir, False), (path_join dir archive_dir, False), (path_join dir design_dir, True)]"

definition holders :: "yaml \<Rightarrow> disk \<Rightarrow> string \<Rightarrow> string \<Rightarrow> string \<Rightarrow> string set" where
  "holders Y k dir scope short =
     {path_join root name | root isDesign names name.
        (root, isDesign) \<in> set (id_roots dir) \<and> read_dir k root = Some names \<and> name \<in> set names \<and>
        occupies isDesign scope name \<and> short \<in> set (file_shorts Y k scope (path_join root name) name)}"

lemma occupy_dir_holds:
  assumes "occupy_dir Y k scope root isDesign optional out = Some out'"
  shows "out' = hold_all (case read_dir k root of None \<Rightarrow> [] | Some names \<Rightarrow> dir_holds Y k scope root isDesign names) out"
  using assms occupy_names_holds by (auto simp: occupy_dir_def split: option.splits if_splits)

lemma mem_dir_holds:
  "(short, p) \<in> set (dir_holds Y k scope root isDesign names) \<longleftrightarrow>
     (\<exists>name \<in> set names. occupies isDesign scope name \<and> p = path_join root name \<and>
        short \<in> set (file_shorts Y k scope (path_join root name) name))"
  unfolding dir_holds_def by auto

lemma occupied_map:
  assumes "occupied_short_paths Y k dir scope = Some out"
  shows "map_of out short =
    (if holders Y k dir scope short = {} then None else Some (Min (holders Y k dir scope short)))"
proof -
  let ?h = "\<lambda>root isDesign. case read_dir k root of None \<Rightarrow> [] | Some names \<Rightarrow> dir_holds Y k scope root isDesign names"
  let ?ps = "concat (map (\<lambda>(root, isDesign). ?h root isDesign) (id_roots dir))"
  have "out = hold_all ?ps []"
    using assms by (auto simp: occupied_short_paths_def id_roots_def bind_eq_Some_conv dest!: occupy_dir_holds)
  then have "map_of out short = (if {p. (short, p) \<in> set ?ps} = {} then None else Some (Min {p. (short, p) \<in> set ?ps}))"
    by (simp only: map_of_hold_all Let_def map_of.simps option.case)
  moreover have "(short, p) \<in> set (?h root isDesign) \<longleftrightarrow>
      (\<exists>names. read_dir k root = Some names \<and> (short, p) \<in> set (dir_holds Y k scope root isDesign names))" for p root isDesign
    by (cases "read_dir k root") simp_all
  then have "{p. (short, p) \<in> set ?ps} = holders Y k dir scope short"
    unfolding holders_def mem_dir_holds by fastforce
  ultimately show ?thesis by (simp only:)
qed

text \<open>The occupied map is exact: a short id is taken exactly when some ticket file at the scope root or
  under \<open>archive/\<close>, or some design file, bears it in its name or in a parseable fence of the same
  scope, and the path kept for it is the smallest of those files, whatever order they are read in.\<close>

theorem occupied_exact:
  assumes "occupied_short_paths Y k dir scope = Some out"
  shows "map_of out short =
    (if holders Y k dir scope short = {} then None else Some (Min (holders Y k dir scope short)))"
  by (rule occupied_map [OF assms])

definition sample_disk :: disk where
  "sample_disk =
     \<lparr>dk_files = [(''/s/app-abcd-x.md'', \<lparr>f_data = ''b'', f_mtime = 1\<rparr>),
                  (''/s/archive/app-abcd.md'', \<lparr>f_data = ''a'', f_mtime = 1\<rparr>),
                  (''/s/archive/lib-efgh.md'', \<lparr>f_data = ''c'', f_mtime = 1\<rparr>)],
      dk_dirs = [''/s'', ''/s/archive''], dk_locked = []\<rparr>"

theorem occupied_exact_witness:
  "map_option (\<lambda>out. map_of out ''abcd'') (occupied_short_paths sample_codec sample_disk ''/s'' ''app'') =
     Some (Some ''/s/app-abcd-x.md'') \<and>
   Min (holders sample_codec sample_disk ''/s'' ''app'' ''abcd'') = ''/s/app-abcd-x.md''"
proof -
  have v: "occupied_short_paths sample_codec sample_disk ''/s'' ''app'' = Some [(''abcd'', ''/s/app-abcd-x.md'')]" by code_simp
  from occupied_exact [OF v, of "''abcd''"] v show ?thesis by (simp split: if_splits)
qed

text \<open>The name grammar of the two scanners agree: a name is ticket-shaped with id \<open>full\<close> exactly when it is
  that full id, optionally a hyphen and a valid slug, and \<open>.md\<close>; and then the occupancy scan and the
  indexer of that scope read the same id from it.\<close>

theorem ticket_names_agree:
  assumes "is_scope_name scope"
  shows "(ticket_id_from_base base = Some full \<longleftrightarrow>
      is_full_ticket_id full \<and>
      (base = full @ md_ext \<or> (\<exists>slug. slug_valid slug \<and> base = full @ ''-'' @ slug @ md_ext))) \<and>
    (ticket_id_from_base base = Some full \<and> scope_of_full_id full = scope \<longrightarrow>
       full_id_of_basename base scope = Some full)"
  using ticket_id_from_base_iff ticket_name_in_scope [OF assms] by blast

theorem ticket_names_agree_witness:
  "ticket_id_from_base ''app-abcd-fix-it.md'' = Some ''app-abcd'' \<and>
   full_id_of_basename ''app-abcd-fix-it.md'' ''app'' = Some ''app-abcd''"
proof -
  have "is_scope_name ''app''" "ticket_id_from_base ''app-abcd-fix-it.md'' = Some ''app-abcd''"
    "scope_of_full_id ''app-abcd'' = ''app''" by code_simp+
  then show ?thesis using ticket_names_agree [of "''app''" "''app-abcd-fix-it.md''" "''app-abcd''"] by simp
qed

end
