(* ===== verification/Reconciles.thy ===== *)
theory Reconciles
  imports ScopeFiles Boards ScopeConfig
begin

text \<open>
  The read-through of \<open>internal/reconcile\<close>: ticket and design files become index rows
  (\<open>parse.go\<close>), a pass over one scope writes the changed, new and vanished ones in one
  transaction (\<open>stat.go\<close>, \<open>reconcile.go\<close>), \<open>SyncPaths\<close> writes named paths through
  (\<open>writethrough.go\<close>), and the closure walk reconciles the scopes depends edges lead to
  (\<open>closure.go\<close>). The directory listing, the reads and the stats inside the transaction see
  the disk at different moments, so they are three arguments. Parameters are the YAML codec,
  the wording of a parse error and the evaluation of the \<open>tk.cue\<close> of a directory.
\<close>

record rec_env =
  re_yaml :: yaml
  re_msg :: "parse_error \<Rightarrow> string"
  re_config :: "string \<Rightarrow> string + schema"

section \<open>From a file to a row\<close>

definition short_of :: "string \<Rightarrow> string" where
  "short_of full =
     (if \<not> is_full_ticket_id full then []
      else case index_byte CHR ''-'' full of Some i \<Rightarrow> drop (Suc i) full | None \<Rightarrow> full)"

definition scope_of :: "string \<Rightarrow> string" where
  "scope_of full = (case index_byte CHR ''-'' full of Some i \<Rightarrow> take i full | None \<Rightarrow> [])"

definition conflict_markers :: "string list" where
  "conflict_markers = [''<<<<<<<'', ''======='', ''>>>>>>>'']"

definition contains_conflict_marker :: "string \<Rightarrow> bool" where
  "contains_conflict_marker interior =
     list_ex (\<lambda>line. list_ex (\<lambda>marker. prefix marker line) conflict_markers)
       (map (trim_suffix [newline]) (line_chunks interior))"

definition broken_fence_msg :: string where
  "broken_fence_msg = ''frontmatter fence missing, broken, or carries conflict markers''"

definition quarantine :: "ticket \<Rightarrow> string \<Rightarrow> string \<Rightarrow> ticket" where
  "quarantine base raw msg =
     base\<lparr>tk_parse_error := True, tk_parse_msg := msg, tk_status := [], tk_body := raw\<rparr>"

definition edges_of_list :: "ticket \<Rightarrow> string list \<Rightarrow> string \<Rightarrow> edge list" where
  "edges_of_list base targets kind =
     map (\<lambda>t. \<lparr>e_from_path = tk_path base, e_from_id = tk_id base, e_from_scope = tk_scope base,
               e_to_id = t, e_to_scope = scope_of t, e_kind = kind\<rparr>)
         (filter is_full_ticket_id targets)"

definition edges_from :: "ticket \<Rightarrow> fm_model \<Rightarrow> edge list \<times> bool" where
  "edges_from base m =
     (edges_of_list base (fm_depends m) edge_depends @ edges_of_list base (fm_related m) edge_related,
      list_ex (\<lambda>t. \<not> is_full_ticket_id t) (fm_depends m @ fm_related m))"

text \<open>The frontmatter id is authoritative only in its own scope.\<close>

definition model_row :: "ticket \<Rightarrow> fm_model \<Rightarrow> ticket" where
  "model_row base m =
     (let b1 = base\<lparr>tk_status := fm_status m, tk_order_key := fm_order m, tk_summary := fm_summary m,
                  tk_created := fm_created m, tk_changed := fm_changed m, tk_tags := fm_tags m,
                  tk_status_conflict := fm_status_conflict m, tk_title := extract_title (tk_body base),
                  tk_custom := fold (\<lambda>(k, v). AList.update k v) (fm_custom m) []\<rparr> in
      if is_full_ticket_id (fm_id m) \<and> scope_of (fm_id m) = tk_scope b1
      then b1\<lparr>tk_id := fm_id m, tk_short_id := short_of (fm_id m)\<rparr> else b1)"

definition index_from_model :: "ticket \<Rightarrow> fm_model \<Rightarrow> ticket \<times> edge list" where
  "index_from_model base m =
     (let b = model_row base m; (edges, schemaErr) = edges_from b m in (b\<lparr>tk_schema_error := schemaErr\<rparr>, edges))"

definition blank_ticket :: "string \<Rightarrow> string \<Rightarrow> string \<Rightarrow> bool \<Rightarrow> int \<Rightarrow> int \<Rightarrow> string \<Rightarrow> ticket" where
  "blank_ticket path scope fullID archived mtime sz body =
     \<lparr>tk_path = path, tk_scope = scope, tk_id = fullID, tk_short_id = short_of fullID, tk_status = [],
      tk_order_key = [], tk_title = [], tk_summary = [], tk_created = [], tk_changed = [], tk_tags = [],
      tk_custom = [], tk_status_conflict = [], tk_archived = archived, tk_parse_error = False, tk_parse_msg = [],
      tk_schema_error = False, tk_body = body, tk_mtime = mtime, tk_size = sz\<rparr>"

definition parse_file ::
    "rec_env \<Rightarrow> string \<Rightarrow> string \<Rightarrow> string \<Rightarrow> bool \<Rightarrow> int \<Rightarrow> int \<Rightarrow> string \<Rightarrow> ticket \<times> edge list" where
  "parse_file E path scope fullID archived mtime sz data =
     (case split_fence data of
        (interior, body, present) \<Rightarrow>
          let base = blank_ticket path scope fullID archived mtime sz body in
          if \<not> present \<or> contains_conflict_marker interior then (quarantine base data broken_fence_msg, [])
          else case parse_fm (re_yaml E) interior of
                 Inl e \<Rightarrow> (quarantine base data (re_msg E e), [])
               | Inr m \<Rightarrow> index_from_model base m)"

definition produces_edges :: "design \<Rightarrow> fm_model \<Rightarrow> edge list" where
  "produces_edges base m =
     concat (map (\<lambda>(k, v).
       if k \<noteq> edge_produces then []
       else case string_list v of
              Inl e \<Rightarrow> []
            | Inr ids \<Rightarrow>
                map (\<lambda>t. \<lparr>e_from_path = ds_path base, e_from_id = ds_id base, e_from_scope = ds_scope base,
                          e_to_id = t, e_to_scope = scope_of t, e_kind = edge_produces\<rparr>)
                    (filter is_full_ticket_id ids)) (fm_custom m))"

definition parse_design :: "rec_env \<Rightarrow> string \<Rightarrow> string \<Rightarrow> string \<Rightarrow> int \<Rightarrow> int \<Rightarrow> string \<Rightarrow> design \<times> edge list" where
  "parse_design E path scope fullID mtime sz data =
     (let base = \<lparr>ds_path = path, ds_scope = scope, ds_id = fullID, ds_short_id = short_of fullID, ds_status = [],
                  ds_title = [], ds_summary = [], ds_created = [], ds_changed = [], ds_parse_error = False,
                  ds_parse_msg = [], ds_body = [], ds_mtime = mtime, ds_size = sz\<rparr> in
      case split_fence data of
        (interior, body, present) \<Rightarrow>
          if \<not> present \<or> contains_conflict_marker interior
          then (base\<lparr>ds_parse_error := True, ds_parse_msg := broken_fence_msg, ds_body := data\<rparr>, [])
          else case parse_fm (re_yaml E) interior of
                 Inl e \<Rightarrow> (base\<lparr>ds_parse_error := True, ds_parse_msg := re_msg E e, ds_body := data\<rparr>, [])
               | Inr m \<Rightarrow>
                   let b1 = base\<lparr>ds_status := fm_status m, ds_summary := fm_summary m, ds_created := fm_created m,
                               ds_changed := fm_changed m, ds_body := body, ds_title := extract_title body\<rparr>;
                       b2 = (if is_full_ticket_id (fm_id m) \<and> scope_of (fm_id m) = ds_scope b1
                             then b1\<lparr>ds_id := fm_id m, ds_short_id := short_of (fm_id m)\<rparr> else b1) in
                   (b2, produces_edges b2 m))"

section \<open>What is on disk\<close>

record stat_entry =
  se_full_id :: string
  se_archived :: bool
  se_mtime :: int
  se_size :: int

definition ticket_id :: "string \<Rightarrow> string \<Rightarrow> string option" where
  "ticket_id scope name =
     (case cut_suffix md_ext name of
        None \<Rightarrow> None
      | Some rest \<Rightarrow>
          let pre = scope @ ''-'' in
          if \<not> prefix pre rest then None
          else
            let tail = drop (length pre) rest;
                short = (case index_byte CHR ''-'' tail of Some i \<Rightarrow> take i tail | None \<Rightarrow> tail) in
            if \<not> is_short_id short then None else Some (scope @ ''-'' @ short))"

text \<open>The entry of one name; a Go map of entries is a list of its pairs.\<close>

definition stat_name :: "disk \<Rightarrow> string \<Rightarrow> string \<Rightarrow> bool \<Rightarrow> string \<Rightarrow> (string \<times> stat_entry) option" where
  "stat_name k scope root archived name =
     (case ticket_id scope name of
        None \<Rightarrow> None
      | Some full \<Rightarrow>
          (case disk_file k (path_join root name) of
             None \<Rightarrow> None
           | Some f \<Rightarrow>
               Some (path_join root name,
                 \<lparr>se_full_id = full, se_archived = archived, se_mtime = f_mtime f, se_size = int (length (f_data f))\<rparr>)))"

definition collect_dir :: "disk \<Rightarrow> string \<Rightarrow> string \<Rightarrow> bool \<Rightarrow> (string \<times> stat_entry) list option" where
  "collect_dir k scope root archived =
     map_option (List.map_filter (stat_name k scope root archived)) (read_dir k root)"

definition stat_scope :: "disk \<Rightarrow> string \<Rightarrow> string \<Rightarrow> (string \<times> stat_entry) list option" where
  "stat_scope k scope dir =
     (case collect_dir k scope dir False of
        None \<Rightarrow> None
      | Some files \<Rightarrow>
          Some (files @ (case collect_dir k scope (path_join dir archive_dir) True of None \<Rightarrow> [] | Some fs \<Rightarrow> fs)))"

datatype rec_error = DesignDirUnreadable string | DbFault db_error

definition stat_designs :: "disk \<Rightarrow> string \<Rightarrow> string \<Rightarrow> rec_error + (string \<times> stat_entry) list" where
  "stat_designs k scope dir =
     (let root = path_join dir design_dir in
      if optional_dir_miss k root then Inr []
      else case read_dir k root of
             None \<Rightarrow> Inl (DesignDirUnreadable root)
           | Some names \<Rightarrow>
               Inr (List.map_filter (\<lambda>name. if looks_like_ticket name then stat_name k scope root False name else None) names))"

record row_stat =
  rs_id :: string
  rs_mtime :: int
  rs_size :: int

definition scope_rows :: "string \<Rightarrow> db \<Rightarrow> (string \<times> row_stat) list" where
  "scope_rows scope d =
     map (\<lambda>(_, p). (tk_path p, \<lparr>rs_id = tk_id p, rs_mtime = tk_mtime p, rs_size = tk_size p\<rparr>))
         (filter (\<lambda>(_, p). tk_scope p = scope) (db_tickets d))"

definition scope_design_rows :: "string \<Rightarrow> db \<Rightarrow> (string \<times> row_stat) list" where
  "scope_design_rows scope d =
     map (\<lambda>(_, p). (ds_path p, \<lparr>rs_id = ds_id p, rs_mtime = ds_mtime p, rs_size = ds_size p\<rparr>))
         (filter (\<lambda>(_, p). ds_scope p = scope) (db_designs d))"

section \<open>One pass over a scope\<close>

text \<open>The racy-index rule: a file is skipped only when its row is older than the last pass.\<close>

definition unchanged :: "row_stat option \<Rightarrow> stat_entry \<Rightarrow> int \<Rightarrow> bool" where
  "unchanged prev st lastIndex =
     (case prev of
        None \<Rightarrow> False
      | Some r \<Rightarrow> rs_mtime r = se_mtime st \<and> rs_size r = se_size st \<and> se_mtime st < lastIndex)"

definition pending_upserts ::
    "disk \<Rightarrow> (string \<Rightarrow> stat_entry \<Rightarrow> string \<Rightarrow> 'r) \<Rightarrow> (string \<times> row_stat) list \<Rightarrow> int \<Rightarrow> (string \<times> stat_entry) list \<Rightarrow> (string \<times> 'r) list" where
  "pending_upserts k parse existing lastIndex files =
     List.map_filter (\<lambda>(path, st).
       if unchanged (map_of existing path) st lastIndex then None
       else case disk_file k path of
              None \<Rightarrow> None
            | Some f \<Rightarrow> Some (path, parse path st (f_data f))) files"

datatype stat_result = StatOk | StatMissing | StatFault

definition scope_write_ops ::
    "(string \<Rightarrow> 'r \<Rightarrow> write_op) \<Rightarrow> (string \<Rightarrow> write_op) \<Rightarrow> (string \<Rightarrow> stat_result) \<Rightarrow>
     (string \<times> stat_entry) list \<Rightarrow> (string \<times> row_stat) list \<Rightarrow> (string \<times> 'r) list \<Rightarrow> write_op list" where
  "scope_write_ops upsert delete stat listed existing upserts =
     concat (map (\<lambda>(path, item).
        case stat path of
          StatMissing \<Rightarrow> [delete path]
        | StatFault \<Rightarrow> []
        | StatOk \<Rightarrow> [upsert path item]) (sort_key fst upserts)) @
     concat (map (\<lambda>(path, _).
        if map_of listed path \<noteq> None then []
        else if stat path = StatMissing then [delete path] else []) existing)"

definition apply_design_write ::
    "(string \<Rightarrow> stat_result) \<Rightarrow> (string \<times> stat_entry) list \<Rightarrow> (string \<times> row_stat) list \<Rightarrow>
     (string \<times> design \<times> edge list) list \<Rightarrow> write_op list" where
  "apply_design_write = scope_write_ops (\<lambda>path (p, es). WUpsertDesign p es) WDeleteDesign"

definition apply_scope_write ::
    "string \<Rightarrow> int \<Rightarrow> (string \<Rightarrow> stat_result) \<Rightarrow> (string \<times> stat_entry) list \<Rightarrow> (string \<times> row_stat) list \<Rightarrow>
     (string \<times> ticket \<times> edge list) list \<Rightarrow> write_op list" where
  "apply_scope_write name now stat listed existing upserts =
     scope_write_ops (\<lambda>path (p, es). WUpsertTicket p es) WDeleteByPath stat listed existing upserts @ [WSetLastIndex name now]"

text \<open>\<open>Inr (False, d)\<close>: the directory cannot be listed and the rows stay.\<close>

definition reconcile_scope ::
    "rec_env \<Rightarrow> string \<Rightarrow> string \<Rightarrow> int \<Rightarrow> disk \<Rightarrow> disk \<Rightarrow> (string \<Rightarrow> stat_result) \<Rightarrow> db \<Rightarrow> rec_error + (bool \<times> db)" where
  "reconcile_scope E name dir now kList kRead stat d =
     (case stat_scope kList name dir of
        None \<Rightarrow> Inr (False, d)
      | Some files \<Rightarrow>
          rbind (stat_designs kList name dir) (\<lambda>designFiles.
            let lastIndex = last_index name d;
                existing = scope_rows name d;
                existingDesigns = scope_design_rows name d;
                upserts = pending_upserts kRead
                  (\<lambda>path st. parse_file E path name (se_full_id st) (se_archived st) (se_mtime st) (se_size st))
                  existing lastIndex files;
                designUpserts = pending_upserts kRead
                  (\<lambda>path st. parse_design E path name (se_full_id st) (se_mtime st) (se_size st))
                  existingDesigns lastIndex designFiles in
            case run_scope_write (apply_design_write stat designFiles existingDesigns designUpserts @
                                  apply_scope_write name now stat files existing upserts) d of
              (Some e, d') \<Rightarrow> Inl (DbFault e)
            | (None, d') \<Rightarrow> Inr (True, d')))"

section \<open>Write-through\<close>

datatype file_info = InfoOf int int | InfoMissing | InfoFault

datatype sync_error = SyncStat string | SyncRead string | SyncDb db_error

text \<open>
  One path of \<open>SyncPaths\<close>: no modification-time skip, and each write in a transaction of its own,
  so that the paths before a failing one stay synced.
\<close>

definition sync_write :: "write_op \<Rightarrow> db \<Rightarrow> sync_error option \<times> db" where
  "sync_write w d = (case run_scope_write [w] d of (e, d') \<Rightarrow> (map_option SyncDb e, d'))"

definition sync_path :: "rec_env \<Rightarrow> string \<Rightarrow> (string \<Rightarrow> file_info) \<Rightarrow> disk \<Rightarrow> string \<Rightarrow> db \<Rightarrow> sync_error option \<times> db" where
  "sync_path E scope info kRead path d =
     (case info path of
        InfoMissing \<Rightarrow> (None, delete_design_by_path_tx path (delete_by_path_tx path d))
      | InfoFault \<Rightarrow> (Some (SyncStat path), d)
      | InfoOf mtime sz \<Rightarrow>
          (case ticket_id scope (path_base path) of
             None \<Rightarrow> (None, d)
           | Some full \<Rightarrow>
               (case disk_file kRead path of
                  None \<Rightarrow> (Some (SyncRead path), d)
                | Some f \<Rightarrow>
                    if path_base (path_dir path) = design_dir
                    then (case parse_design E path scope full mtime sz (f_data f) of (p, es) \<Rightarrow> sync_write (WUpsertDesign p es) d)
                    else (case parse_file E path scope full (path_base (path_dir path) = archive_dir) mtime sz (f_data f) of
                            (p, es) \<Rightarrow> sync_write (WUpsertTicket p es) d))))"

fun sync_paths :: "rec_env \<Rightarrow> string \<Rightarrow> (string \<Rightarrow> file_info) \<Rightarrow> disk \<Rightarrow> string list \<Rightarrow> db \<Rightarrow> sync_error option \<times> db" where
  "sync_paths E scope info kRead [] d = (None, d)"
| "sync_paths E scope info kRead (path # paths) d =
     (case sync_path E scope info kRead path d of
        (Some e, d') \<Rightarrow> (Some e, d')
      | (None, d') \<Rightarrow> sync_paths E scope info kRead paths d')"

section \<open>Parsed rows\<close>

lemma edges_of_list_from: "e \<in> set (edges_of_list b ts kind) \<Longrightarrow> e_from_path e = tk_path b \<and> e_kind e = kind"
  by (auto simp: edges_of_list_def)

lemma index_from_model_row:
  assumes "index_from_model b m = (p, es)"
  shows "tk_path p = tk_path b \<and> tk_scope p = tk_scope b \<and> tk_mtime p = tk_mtime b \<and> tk_size p = tk_size b"
    and "from_file (tk_path b) {edge_depends, edge_related} es"
proof -
  have b2: "tk_path (model_row b m) = tk_path b" "tk_scope (model_row b m) = tk_scope b"
      "tk_mtime (model_row b m) = tk_mtime b" "tk_size (model_row b m) = tk_size b"
    by (simp_all add: model_row_def Let_def)
  have es: "es = fst (edges_from (model_row b m) m)"
    and p: "p = (model_row b m)\<lparr>tk_schema_error := snd (edges_from (model_row b m) m)\<rparr>"
    using assms by (auto simp: index_from_model_def Let_def case_prod_unfold)
  show "tk_path p = tk_path b \<and> tk_scope p = tk_scope b \<and> tk_mtime p = tk_mtime b \<and> tk_size p = tk_size b"
    using p b2 by simp
  show "from_file (tk_path b) {edge_depends, edge_related} es"
    using b2(1) unfolding es from_file_def edges_from_def by (auto dest: edges_of_list_from)
qed

lemma from_file_Nil: "kinds \<subseteq> {edge_depends, edge_related, edge_produces} \<Longrightarrow> from_file path kinds []"
  by (simp add: from_file_def)

lemma parse_file_row:
  assumes "parse_file E path scope full archived mtime sz data = (p, es)"
  shows "tk_path p = path \<and> tk_scope p = scope \<and> tk_mtime p = mtime \<and> tk_size p = sz"
    and "from_file path {edge_depends, edge_related} es"
proof -
  obtain interior body present where sp: "split_fence data = (interior, body, present)" by (cases "split_fence data")
  let ?b = "blank_ticket path scope full archived mtime sz body"
  have b: "tk_path ?b = path" "tk_scope ?b = scope" "tk_mtime ?b = mtime" "tk_size ?b = sz" by (simp_all add: blank_ticket_def)
  consider (quar) msg where "p = quarantine ?b data msg" "es = []" | (model) m where "index_from_model ?b m = (p, es)"
    using assms by (auto simp: parse_file_def sp Let_def split: if_splits sum.splits)
  then have "(tk_path p = path \<and> tk_scope p = scope \<and> tk_mtime p = mtime \<and> tk_size p = sz) \<and>
      from_file path {edge_depends, edge_related} es"
  proof cases
    case quar
    then show ?thesis by (simp add: quarantine_def b from_file_Nil)
  next
    case model
    from index_from_model_row [OF this] show ?thesis by (simp add: b)
  qed
  then show "tk_path p = path \<and> tk_scope p = scope \<and> tk_mtime p = mtime \<and> tk_size p = sz"
    and "from_file path {edge_depends, edge_related} es" by simp_all
qed

lemma produces_edges_from: "e \<in> set (produces_edges b m) \<Longrightarrow> e_from_path e = ds_path b \<and> e_kind e = edge_produces"
  by (auto simp: produces_edges_def split: if_splits sum.splits)

lemma parse_design_row:
  assumes "parse_design E path scope full mtime sz data = (p, es)"
  shows "ds_path p = path" and "from_file path {edge_produces} es"
proof -
  obtain interior body present where sp: "split_fence data = (interior, body, present)" by (cases "split_fence data")
  have "ds_path p = path \<and> from_file path {edge_produces} es"
  proof (cases "\<not> present \<or> contains_conflict_marker interior")
    case True
    then show ?thesis using assms by (auto simp: parse_design_def sp Let_def from_file_Nil)
  next
    case False
    show ?thesis
    proof (cases "parse_fm (re_yaml E) interior")
      case (Inl e)
      then show ?thesis using assms False by (auto simp: parse_design_def sp Let_def from_file_Nil)
    next
      case (Inr m)
      then have "ds_path p = path" "es = produces_edges p m"
        using assms False by (auto simp: parse_design_def sp Let_def split: if_splits)
      then show ?thesis by (auto simp: from_file_def dest: produces_edges_from)
    qed
  qed
  then show "ds_path p = path" and "from_file path {edge_produces} es" by simp_all
qed

section \<open>The index as a map from paths\<close>

text \<open>What the index holds for a ticket path: its row, its tags, and the keys of its edges.\<close>

type_synonym tview = "ticket \<times> string list \<times> (string \<times> string \<times> string) set"

definition row_view :: "db \<Rightarrow> string \<Rightarrow> tview option" where
  "row_view d path =
     map_option (\<lambda>(i, r). (r, map snd (filter (\<lambda>(q, _). q = path) (db_tags d)),
         edge_pk ` {e \<in> set (db_edges d). owned_by_ticket path e})) (row_at tk_path path (db_tickets d))"

definition file_view :: "ticket \<Rightarrow> edge list \<Rightarrow> tview" where
  "file_view p es = (stored_ticket p, unique_tags (tk_tags p), edge_pk ` set es)"

text \<open>The effect of one write on that map, the clobber guard included.\<close>

fun op_view :: "write_op \<Rightarrow> (string \<Rightarrow> tview option) \<Rightarrow> string \<Rightarrow> tview option" where
  "op_view (WUpsertTicket p es) V =
     (if case V (tk_path p) of None \<Rightarrow> False | Some (r, _) \<Rightarrow> tk_mtime r > tk_mtime p then V
      else V(tk_path p \<mapsto> file_view p es))"
| "op_view (WDeleteByPath path) V = V(path := None)"
| "op_view _ V = V"

lemma row_at_upsert:
  "row_at pathOf q (upsert_row pathOf row rows) = row_at pathOf q rows" if "q \<noteq> pathOf row"
proof -
  have "row_at pathOf q (replace_row pathOf row rows) = row_at pathOf q rows"
    using that by (induction rows) (auto simp: row_at_def replace_row_def split: if_splits)
  moreover have "row_at pathOf q (rows @ [(n, row)]) = row_at pathOf q rows" for n
    using that by (simp add: row_at_def find_append split: option.split)
  ultimately show ?thesis by (simp add: upsert_row_cases)
qed

lemma row_at_filter: "row_at pathOf q (filter (\<lambda>(_, t). pathOf t \<noteq> path) rows) = (if q = path then None else row_at pathOf q rows)"
  by (induction rows) (auto simp: row_at_def)

lemma tags_of_other:
  "q \<noteq> path \<Longrightarrow> filter (\<lambda>(p, _). p = q) (filter (\<lambda>(p, _). p \<noteq> path) ts @ map (Pair path) us) = filter (\<lambda>(p, _). p = q) ts"
  by (induction ts) (auto simp: filter_empty_conv)

lemma tags_of_self:
  "filter (\<lambda>(p, _). p = path) (filter (\<lambda>(p, _). p \<noteq> path) ts @ map (Pair path) us) = map (Pair path) us"
  by (induction ts) (auto simp: filter_id_conv)

lemma view_upsert:
  assumes ok: "db_ok d" and es: "from_file (tk_path p) {edge_depends, edge_related} es"
    and run: "upsert_ticket_with_edges_tx p es d = Inr d'"
  shows "row_view d' = op_view (WUpsertTicket p es) (row_view d)"
proof (cases "stored_mtime_newer tk_path tk_mtime (tk_path p) (tk_mtime p) (db_tickets d)")
  case True
  then have "d' = d" using run by (simp add: upsert_ticket_with_edges_tx_def)
  with True show ?thesis
    by (auto simp: stored_mtime_newer_def row_view_def split: option.splits prod.splits)
next
  case False
  obtain i where run': "upsert_ticket_with_edges_tx p es d =
       Inr (d\<lparr>db_tickets := upsert_row tk_path (stored_ticket p) (db_tickets d),
              db_fts := fts_put i (tk_title p) (tk_body p) (db_fts d),
              db_tags := filter (\<lambda>(path, _). path \<noteq> tk_path p) (db_tags d) @
                map (Pair (tk_path p)) (unique_tags (tk_tags p)),
              db_edges := filter (\<lambda>e. \<not> owned_by_ticket (tk_path p) e) (db_edges d) @ unique_edges es\<rparr>)"
    and at: "row_at tk_path (tk_path p) (upsert_row tk_path (stored_ticket p) (db_tickets d)) = Some (i, stored_ticket p)"
    by (rule upsert_ticket_run [OF ok es False])
  have d': "d' = d\<lparr>db_tickets := upsert_row tk_path (stored_ticket p) (db_tickets d),
              db_fts := fts_put i (tk_title p) (tk_body p) (db_fts d),
              db_tags := filter (\<lambda>(path, _). path \<noteq> tk_path p) (db_tags d) @
                map (Pair (tk_path p)) (unique_tags (tk_tags p)),
              db_edges := filter (\<lambda>e. \<not> owned_by_ticket (tk_path p) e) (db_edges d) @ unique_edges es\<rparr>"
    using run run' by simp
  note u = unique_edges_distinct [OF es]
  have own: "owned_by_ticket q e \<longleftrightarrow> q = tk_path p" if "e \<in> set (unique_edges es)" for q e
    using that es u(2) by (auto simp: from_file_def owned_by_ticket_def)
  have e1: "{e. (e \<in> set (db_edges d) \<and> \<not> owned_by_ticket (tk_path p) e \<or> e \<in> set (unique_edges es)) \<and> owned_by_ticket (tk_path p) e} =
      set (unique_edges es)" using own by blast
  have e2: "{e. (e \<in> set (db_edges d) \<and> \<not> owned_by_ticket (tk_path p) e \<or> e \<in> set (unique_edges es)) \<and> owned_by_ticket q e} =
      {e \<in> set (db_edges d). owned_by_ticket q e}" if "q \<noteq> tk_path p" for q
    using own that by (auto simp: owned_by_ticket_def)
  have new: "row_view d' (tk_path p) = Some (file_view p es)"
    using at e1 u(3) by (simp add: d' row_view_def file_view_def tags_of_self comp_def del: filter_append)
  have other: "row_view d' q = row_view d q" if "q \<noteq> tk_path p" for q
    using e2 [OF that] that
    by (simp add: d' row_view_def row_at_upsert tags_of_other [OF that] del: filter_append)
  have "\<not> (case row_view d (tk_path p) of None \<Rightarrow> False | Some (r, _) \<Rightarrow> tk_mtime r > tk_mtime p)"
    using False by (auto simp: stored_mtime_newer_def row_view_def split: option.splits prod.splits)
  then show ?thesis using new other by (simp add: fun_eq_iff)
qed

lemma view_delete: "row_view (delete_by_path_tx path d) = (row_view d)(path := None)"
proof (cases "row_at tk_path path (db_tickets d)")
  case None
  then show ?thesis by (auto simp: delete_by_path_tx_def row_view_def fun_eq_iff)
next
  case (Some x)
  obtain i r where x: "x = (i, r)" by (cases x)
  have e: "{e \<in> set (db_edges d). \<not> owned_by_ticket path e \<and> owned_by_ticket q e} =
      {e \<in> set (db_edges d). owned_by_ticket q e}" if "q \<noteq> path" for q
    using that by (auto simp: owned_by_ticket_def)
  have t: "filter (\<lambda>(p, _). p = q) (filter (\<lambda>(p, _). p \<noteq> path) ts) = filter (\<lambda>(p, _). p = q) ts" if "q \<noteq> path" for q and ts :: "(string \<times> string) list"
    using that by (induction ts) auto
  have "row_view (delete_by_path_tx path d) q = ((row_view d)(path := None)) q" for q
    using Some e [of q] t [of q] by (simp add: x delete_by_path_tx_def row_view_def row_at_filter del: filter_filter)
  then show ?thesis by blast
qed

lemma view_design:
  assumes ok: "db_ok d" and es: "from_file (ds_path p) {edge_produces} es"
    and run: "upsert_design_with_edges_tx p es d = Inr d'"
  shows "row_view d' = row_view d"
proof (cases "stored_mtime_newer ds_path ds_mtime (ds_path p) (ds_mtime p) (db_designs d)")
  case True
  then show ?thesis using run by (simp add: upsert_design_with_edges_tx_def)
next
  case False
  obtain i where run': "upsert_design_with_edges_tx p es d =
       Inr (d\<lparr>db_designs := upsert_row ds_path (stored_design p) (db_designs d),
              db_design_fts := fts_put i (ds_title p) (ds_body p) (db_design_fts d),
              db_edges := filter (\<lambda>e. \<not> owned_by_design (ds_path p) e) (db_edges d) @ unique_edges es\<rparr>)"
    by (rule upsert_design_run [OF ok es False])
  have d': "d' = d\<lparr>db_designs := upsert_row ds_path (stored_design p) (db_designs d),
              db_design_fts := fts_put i (ds_title p) (ds_body p) (db_design_fts d),
              db_edges := filter (\<lambda>e. \<not> owned_by_design (ds_path p) e) (db_edges d) @ unique_edges es\<rparr>"
    using run run' by simp
  have "{e. (e \<in> set (db_edges d) \<and> \<not> owned_by_design (ds_path p) e \<or> e \<in> set (unique_edges es)) \<and> owned_by_ticket q e} =
      {e \<in> set (db_edges d). owned_by_ticket q e}" for q
    using es unique_edges_distinct(2) [OF es] by (auto simp: owned_by_ticket_def owned_by_design_def from_file_def)
  then show ?thesis by (simp add: d' row_view_def fun_eq_iff)
qed

lemma view_delete_design: "row_view (delete_design_by_path_tx path d) = row_view d"
proof (cases "row_at ds_path path (db_designs d)")
  case (Some x)
  have "{e \<in> set (db_edges d). \<not> owned_by_design path e \<and> owned_by_ticket q e} = {e \<in> set (db_edges d). owned_by_ticket q e}" for q
    by (auto simp: owned_by_ticket_def owned_by_design_def)
  with Some show ?thesis by (cases x) (simp add: delete_design_by_path_tx_def row_view_def fun_eq_iff)
qed (simp add: delete_design_by_path_tx_def)

lemma view_run_op:
  assumes "db_ok d" "op_ok w" "run_op w d = Inr d'"
  shows "row_view d' = op_view w (row_view d)"
  using assms
proof (cases w)
  case (WUpsertTicket p es)
  with assms show ?thesis by (simp add: view_upsert del: op_view.simps)
next
  case (WUpsertDesign p es)
  with assms show ?thesis by (simp add: view_design)
next
  case (WSetLastIndex s ns)
  with assms show ?thesis by (auto simp: set_last_index_def row_view_def)
qed (auto simp: view_delete view_delete_design)

lemma view_run_ops:
  assumes "db_ok d" "list_all op_ok ws" "run_ops ws d = Inr d'"
  shows "row_view d' = fold op_view ws (row_view d)"
  using assms
proof (induction ws arbitrary: d)
  case (Cons w ws)
  then obtain d1 where d1: "run_op w d = Inr d1" "db_ok d1" using run_op_ok [of d w] by auto
  with Cons have "row_view d1 = op_view w (row_view d)" by (simp add: view_run_op del: op_view.simps)
  with Cons d1 show ?case by simp
qed simp

section \<open>The listing\<close>

definition slashless :: "string \<Rightarrow> bool" where
  "slashless n \<longleftrightarrow> slash \<notin> set n"

lemma last_slash: "slashless n \<Longrightarrow> last_index_byte slash (a @ slash # n) = Some (length a)"
  by (simp add: slashless_def last_index_byte_def rev_append)

lemma path_join_parts [simp]:
  "slashless n \<Longrightarrow> path_dir (path_join a n) = a" "slashless n \<Longrightarrow> path_base (path_join a n) = n"
  by (simp_all add: path_join_def path_dir_def path_base_def last_slash)

lemma slashless_base [simp]: "slashless (path_base p)"
  unfolding path_base_def slashless_def
  using last_index_byte_None [of slash p] last_index_byte_Some [of slash p] by (auto split: option.split)

lemma path_join_dir_base: "prefix [slash] p \<Longrightarrow> path_join (path_dir p) (path_base p) = p"
proof -
  assume "prefix [slash] p"
  then have "slash \<in> set p" by (auto simp: prefix_def)
  then obtain i where i: "last_index_byte slash p = Some i" using last_index_byte_None [of slash p] by fastforce
  from last_index_byte_Some [OF this] have "i < length p" "p ! i = slash" by auto
  then show ?thesis using id_take_nth_drop [of i p] i by (simp add: path_join_def path_dir_def path_base_def)
qed

definition disk_ok :: "disk \<Rightarrow> bool" where
  "disk_ok k \<longleftrightarrow> distinct (map fst (dk_files k)) \<and> (\<forall>p \<in> fst ` set (dk_files k). prefix [slash] p)"

lemma read_dir_mem:
  assumes "disk_ok k" "read_dir k root = Some names"
  shows "distinct names" and "n \<in> set names \<longleftrightarrow> slashless n \<and> disk_file k (path_join root n) \<noteq> None"
proof -
  let ?ps = "filter (\<lambda>p. path_dir p = root) (map fst (dk_files k))"
  have names: "names = sort (map path_base ?ps)" using assms(2) by (auto simp: read_dir_def split: if_splits)
  have abs: "path_join root (path_base p) = p" if "p \<in> set ?ps" for p
    using that assms(1) path_join_dir_base [of p] by (auto simp: disk_ok_def)
  then have "inj_on path_base (set ?ps)" by (rule inj_on_inverseI)
  then show "distinct names" using assms(1) by (simp add: names disk_ok_def distinct_map)
  have onDisk: "disk_file k q \<noteq> None \<longleftrightarrow> q \<in> fst ` set (dk_files k)" for q
    by (simp add: disk_file_def map_of_eq_None_iff)
  show "n \<in> set names \<longleftrightarrow> slashless n \<and> disk_file k (path_join root n) \<noteq> None"
  proof
    assume "n \<in> set names"
    then obtain p where p: "p \<in> set ?ps" "n = path_base p" by (auto simp: names)
    from p(1) have "disk_file k p \<noteq> None" unfolding onDisk by auto
    with abs [OF p(1)] p(2) show "slashless n \<and> disk_file k (path_join root n) \<noteq> None" by simp
  next
    assume n: "slashless n \<and> disk_file k (path_join root n) \<noteq> None"
    then have "path_join root n \<in> set ?ps" unfolding onDisk by auto
    then have "path_base (path_join root n) \<in> set names" unfolding names set_sort set_map by (rule imageI)
    then show "n \<in> set names" using n by simp
  qed
qed

definition file_entry :: "string \<Rightarrow> bool \<Rightarrow> regfile \<Rightarrow> stat_entry" where
  "file_entry full archived f =
     \<lparr>se_full_id = full, se_archived = archived, se_mtime = f_mtime f, se_size = int (length (f_data f))\<rparr>"

lemma stat_name_Some:
  "stat_name k scope root archived n = Some (p, st) \<longleftrightarrow>
     p = path_join root n \<and>
     (\<exists>full f. ticket_id scope n = Some full \<and> disk_file k p = Some f \<and> st = file_entry full archived f)"
  by (auto simp: stat_name_def file_entry_def split: option.splits)

lemma distinct_map_filter_keys:
  "distinct xs \<Longrightarrow> (\<And>x y. x \<in> set xs \<Longrightarrow> f x = Some y \<Longrightarrow> g (fst y) = x) \<Longrightarrow>
     distinct (map fst (List.map_filter f xs))"
proof (induction xs)
  case (Cons x xs)
  have keys: "g (fst y) \<in> set xs" if "y \<in> set (List.map_filter f xs)" for y
    using that Cons.prems(2) by (fastforce simp: map_filter_def)
  show ?case
  proof (cases "f x")
    case (Some y)
    then have "g (fst y) = x" using Cons.prems(2) [of x y] by simp
    then have "g (fst y) \<notin> set xs" using Cons.prems(1) by simp
    then have "fst y \<notin> fst ` set (List.map_filter f xs)" using keys by auto
    moreover have "distinct (map fst (List.map_filter f xs))" using Cons by simp
    ultimately show ?thesis using Some by (simp only: map_filter_simps option.case list.map distinct.simps set_map) simp
  qed (use Cons in \<open>simp add: map_filter_simps\<close>)
qed (simp add: map_filter_simps)

lemma collect_dir_mem:
  assumes "disk_ok k" "collect_dir k scope root archived = Some files"
  shows "distinct (map fst files)"
    and "(p, st) \<in> set files \<longleftrightarrow> path_dir p = root \<and> prefix [slash] p \<and>
      (\<exists>full f. ticket_id scope (path_base p) = Some full \<and> disk_file k p = Some f \<and> st = file_entry full archived f)"
proof -
  obtain names where names: "read_dir k root = Some names" and files: "files = List.map_filter (stat_name k scope root archived) names"
    using assms(2) by (auto simp: collect_dir_def)
  note mem = read_dir_mem [OF assms(1) names]
  show "distinct (map fst files)"
    unfolding files
  proof (rule distinct_map_filter_keys [OF mem(1), of _ path_base])
    fix x y
    assume "x \<in> set names" "stat_name k scope root archived x = Some y"
    then show "path_base (fst y) = x" using mem(2) [of x] by (cases y) (auto simp: stat_name_Some)
  qed
  have "prefix [slash] p" if "disk_file k p = Some f" for f
    using that assms(1) by (auto simp: disk_file_def disk_ok_def dest: map_of_SomeD)
  then show "(p, st) \<in> set files \<longleftrightarrow> path_dir p = root \<and> prefix [slash] p \<and>
      (\<exists>full f. ticket_id scope (path_base p) = Some full \<and> disk_file k p = Some f \<and> st = file_entry full archived f)"
    (is "?L \<longleftrightarrow> ?R")
  proof -
    have "?L \<longleftrightarrow> (\<exists>n \<in> set names. stat_name k scope root archived n = Some (p, st))"
      by (force simp: files map_filter_def)
    also have "\<dots> \<longleftrightarrow> ?R"
    proof
      assume "\<exists>n \<in> set names. stat_name k scope root archived n = Some (p, st)"
      then obtain n where n: "n \<in> set names" "stat_name k scope root archived n = Some (p, st)" by blast
      then have "slashless n" using mem(2) by blast
      with n(2) \<open>\<And>f. disk_file k p = Some f \<Longrightarrow> prefix [slash] p\<close> show ?R by (auto simp: stat_name_Some)
    next
      assume r: ?R
      then have j: "path_join root (path_base p) = p" using path_join_dir_base [of p] by auto
      with r mem(2) [of "path_base p"] have "path_base p \<in> set names" by auto
      moreover have "stat_name k scope root archived (path_base p) = Some (p, st)" using r j by (auto simp: stat_name_Some)
      ultimately show "\<exists>n \<in> set names. stat_name k scope root archived n = Some (p, st)" by blast
    qed
    finally show ?thesis .
  qed
qed

text \<open>The place of a path in the scope: its id and whether it is under \<open>archive/\<close>.\<close>

definition slot :: "string \<Rightarrow> string \<Rightarrow> string \<Rightarrow> (string \<times> bool) option" where
  "slot scope dir p =
     (if path_dir p = dir then map_option (\<lambda>full. (full, False)) (ticket_id scope (path_base p))
      else if path_dir p = path_join dir archive_dir then map_option (\<lambda>full. (full, True)) (ticket_id scope (path_base p))
      else None)"

lemma archive_differs [simp]: "path_join dir archive_dir \<noteq> dir" "dir \<noteq> path_join dir archive_dir"
  by (simp_all add: path_join_def)

text \<open>The archive can be listed when it holds files.\<close>

definition archive_listed :: "string \<Rightarrow> disk \<Rightarrow> bool" where
  "archive_listed dir k \<longleftrightarrow>
     (\<forall>p \<in> fst ` set (dk_files k). path_dir p = path_join dir archive_dir \<longrightarrow> path_join dir archive_dir \<in> set (dk_dirs k))"

lemma stat_scope_map:
  assumes k: "disk_ok k" "archive_listed dir k" and run: "stat_scope k scope dir = Some files"
  shows "distinct (map fst files)"
    and "map_of files p = (case slot scope dir p of None \<Rightarrow> None
      | Some (full, archived) \<Rightarrow> map_option (file_entry full archived) (disk_file k p))"
proof -
  let ?arch = "path_join dir archive_dir"
  obtain fs where fs: "collect_dir k scope dir False = Some fs"
    and files: "files = fs @ (case collect_dir k scope ?arch True of None \<Rightarrow> [] | Some gs \<Rightarrow> gs)"
    using run by (auto simp: stat_scope_def split: option.splits)
  define gs where "gs = (case collect_dir k scope ?arch True of None \<Rightarrow> [] | Some gs \<Rightarrow> gs)"
  have abs: "prefix [slash] q" "q \<in> fst ` set (dk_files k)" if "disk_file k q = Some f" for q f
    using that k(1) by (force simp: disk_file_def disk_ok_def dest: map_of_SomeD)+
  have fmem: "(q, st) \<in> set fs \<longleftrightarrow> path_dir q = dir \<and> prefix [slash] q \<and>
      (\<exists>full f. ticket_id scope (path_base q) = Some full \<and> disk_file k q = Some f \<and> st = file_entry full False f)" for q st
    by (rule collect_dir_mem(2) [OF k(1) fs])
  have gmem: "distinct (map fst gs) \<and> ((q, st) \<in> set gs \<longleftrightarrow> path_dir q = ?arch \<and> prefix [slash] q \<and>
      (\<exists>full f. ticket_id scope (path_base q) = Some full \<and> disk_file k q = Some f \<and> st = file_entry full True f))" for q st
  proof (cases "collect_dir k scope ?arch True")
    case None
    then have "?arch \<notin> set (dk_dirs k)" by (auto simp: collect_dir_def read_dir_def split: if_splits)
    then have "path_dir q \<noteq> ?arch" if "disk_file k q = Some f" for f
      using abs(2) [OF that] k(2) by (auto simp: archive_listed_def)
    then show ?thesis using None by (auto simp: gs_def)
  next
    case (Some hs)
    with collect_dir_mem [OF k(1) Some] show ?thesis by (simp add: gs_def)
  qed
  have "fst ` set fs \<inter> fst ` set gs = {}"
  proof (rule ccontr)
    assume "fst ` set fs \<inter> fst ` set gs \<noteq> {}"
    then obtain q st st' where "(q, st) \<in> set fs" "(q, st') \<in> set gs" by fastforce
    then have "path_dir q = dir" "path_dir q = ?arch" using fmem gmem by blast+
    then show False by simp
  qed
  then show dist: "distinct (map fst files)"
    using collect_dir_mem(1) [OF k(1) fs] gmem by (simp add: files gs_def [symmetric])
  have all: "(p, st) \<in> set files \<longleftrightarrow>
      (\<exists>full archived f. slot scope dir p = Some (full, archived) \<and> disk_file k p = Some f \<and> st = file_entry full archived f)" for st
    using fmem [of p st] gmem [of p st] abs(1) by (auto simp: files gs_def [symmetric] slot_def)
  show "map_of files p = (case slot scope dir p of None \<Rightarrow> None
      | Some (full, archived) \<Rightarrow> map_option (file_entry full archived) (disk_file k p))" (is "_ = ?r")
  proof (cases ?r)
    case None
    then have "(p, st) \<notin> set files" for st using all by (auto split: option.splits prod.splits)
    with None show ?thesis by (auto simp: map_of_eq_None_iff)
  next
    case (Some st)
    then have "(p, st) \<in> set files" using all by (auto split: option.splits prod.splits)
    with Some dist show ?thesis by (simp add: map_of_eq_Some_iff)
  qed
qed

section \<open>What one pass does to a row\<close>

fun op_target :: "write_op \<Rightarrow> string option" where
  "op_target (WUpsertTicket p es) = Some (tk_path p)"
| "op_target (WDeleteByPath path) = Some path"
| "op_target _ = None"

fun op_at :: "write_op \<Rightarrow> tview option \<Rightarrow> tview option" where
  "op_at (WUpsertTicket p es) v =
     (if case v of None \<Rightarrow> False | Some (r, _) \<Rightarrow> tk_mtime r > tk_mtime p then v else Some (file_view p es))"
| "op_at (WDeleteByPath path) v = None"
| "op_at _ v = v"

lemma op_view_at: "op_view w V q = (if op_target w = Some q then op_at w (V q) else V q)"
  by (cases w) auto

lemma fold_op_view_other: "(\<And>w. w \<in> set ws \<Longrightarrow> op_target w \<noteq> Some q) \<Longrightarrow> fold op_view ws V q = V q"
  by (induction ws arbitrary: V) (auto simp: op_view_at)

lemma fold_op_view_self: "(\<And>w. w \<in> set ws \<Longrightarrow> op_target w = Some q) \<Longrightarrow> fold op_view ws V q = fold op_at ws (V q)"
  by (induction ws arbitrary: V) (auto simp: op_view_at)

lemma fold_keyed:
  assumes "distinct (map fst xs)" and "\<And>x w. x \<in> set xs \<Longrightarrow> w \<in> set (f x) \<Longrightarrow> op_target w = Some (fst x)"
  shows "fold op_view (concat (map f xs)) V q = (case map_of xs q of None \<Rightarrow> V q | Some y \<Rightarrow> fold op_at (f (q, y)) (V q))"
  using assms
proof (induction xs arbitrary: V)
  case (Cons x xs)
  obtain a y where x: "x = (a, y)" by (cases x)
  have IH: "fold op_view (concat (map f xs)) V' q = (case map_of xs q of None \<Rightarrow> V' q | Some y \<Rightarrow> fold op_at (f (q, y)) (V' q))" for V'
    using Cons by (intro Cons.IH) auto
  show ?case
  proof (cases "a = q")
    case True
    have "map_of xs q = None" using Cons.prems(1) True by (simp add: x map_of_eq_None_iff)
    moreover have "fold op_view (f x) V q = fold op_at (f x) (V q)"
      using Cons.prems(2) [of x] True by (intro fold_op_view_self) (auto simp: x)
    ultimately show ?thesis using True by (simp add: x IH)
  next
    case False
    have "fold op_view (f x) V q = V q"
      using Cons.prems(2) [of x] False by (intro fold_op_view_other) (auto simp: x)
    with False show ?thesis by (simp add: x IH split: option.split)
  qed
qed simp

lemma map_of_sort_key:
  assumes "distinct (map fst xs)"
  shows "distinct (map fst (sort_key fst xs))" "map_of (sort_key fst xs) = map_of xs"
proof -
  have "mset (map fst (sort_key fst xs)) = mset (map fst xs)" by simp
  with assms show d: "distinct (map fst (sort_key fst xs))" by (metis mset_eq_imp_distinct_iff)
  show "map_of (sort_key fst xs) = map_of xs"
    using map_of_inject_set [OF d assms] by simp
qed

lemma mem_map_filter: "y \<in> set (List.map_filter f xs) \<longleftrightarrow> (\<exists>x \<in> set xs. f x = Some y)"
  by (induction xs) (auto simp: map_filter_simps split: option.split)

lemma keys_map_filter:
  "(\<And>x y. f x = Some y \<Longrightarrow> fst y = fst x) \<Longrightarrow>
     map fst (List.map_filter f xs) = map fst (filter (\<lambda>x. f x \<noteq> None) xs)"
  by (induction xs) (auto simp: map_filter_simps split: option.split)

lemma map_of_map_filter:
  assumes "distinct (map fst xs)" and "\<And>x y. f x = Some y \<Longrightarrow> fst y = fst x"
  shows "map_of (List.map_filter f xs) q = (case map_of xs q of None \<Rightarrow> None | Some y \<Rightarrow> map_option snd (f (q, y)))"
  using assms(1)
proof (induction xs)
  case (Cons x xs)
  obtain a y where x: "x = (a, y)" by (cases x)
  have "fst ` set (List.map_filter f xs) \<subseteq> fst ` set xs"
    using arg_cong [OF keys_map_filter [where f = f and xs = xs, OF assms(2)], of set] by auto
  then have none: "map_of (List.map_filter f xs) a = None"
    using Cons.prems by (auto simp: x map_of_eq_None_iff)
  show ?case
  proof (cases "f x")
    case None
    with Cons none show ?thesis by (auto simp: x map_filter_simps)
  next
    case (Some z)
    with assms(2) [OF Some] Cons none show ?thesis by (cases z) (auto simp: x map_filter_simps)
  qed
qed (simp add: map_filter_simps)

lemma map_of_pending:
  assumes "distinct (map fst files)"
  shows "map_of (pending_upserts k parse existing lastIndex files) q =
    (case map_of files q of None \<Rightarrow> None
     | Some st \<Rightarrow> if unchanged (map_of existing q) st lastIndex then None
                 else map_option (\<lambda>f. parse q st (f_data f)) (disk_file k q))"
  unfolding pending_upserts_def
  by (subst map_of_map_filter [OF assms]) (auto split: option.splits if_splits)

lemma distinct_pending:
  assumes "distinct (map fst files)"
  shows "distinct (map fst (pending_upserts k parse existing lastIndex files))"
  unfolding pending_upserts_def
  by (subst keys_map_filter) (use assms in \<open>auto simp: distinct_map_filter split: if_splits option.splits\<close>)

lemma scope_rows_map:
  assumes "db_ok d"
  shows "distinct (map fst (scope_rows scope d))"
    and "map_of (scope_rows scope d) q =
      (case row_view d q of None \<Rightarrow> None
       | Some (r, _) \<Rightarrow> if tk_scope r = scope then Some \<lparr>rs_id = tk_id r, rs_mtime = tk_mtime r, rs_size = tk_size r\<rparr> else None)"
proof -
  have gen: "distinct (map fst (map (\<lambda>(_, p). (tk_path p, g p)) (filter (\<lambda>(_, p). P p) rows))) \<and>
      map_of (map (\<lambda>(_, p). (tk_path p, g p)) (filter (\<lambda>(_, p). P p) rows)) q =
      (case row_at tk_path q rows of None \<Rightarrow> None | Some (i, r) \<Rightarrow> if P r then Some (g r) else None)"
    if "distinct (map (tk_path \<circ> snd) rows)" for rows :: "(rowid \<times> ticket) list" and g :: "ticket \<Rightarrow> row_stat" and P
    using that
  proof (induction rows)
    case (Cons x rows)
    obtain i p where x: "x = (i, p)" by (cases x)
    have notin: "tk_path p \<notin> fst ` set (map (\<lambda>(_, p). (tk_path p, g p)) (filter (\<lambda>(_, p). P p) rows))"
      using Cons.prems by (force simp: x)
    have none: "row_at tk_path (tk_path p) rows = None" using Cons.prems by (force simp: x row_at_None)
    show ?case
      using Cons notin none
      by (cases "tk_path p = q"; cases "P p") (auto simp: x row_at_def map_of_eq_None_iff)
  qed (simp add: row_at_def)
  have dp: "distinct (map (tk_path \<circ> snd) (db_tickets d))" using assms by (simp add: db_ok_def in_step_def)
  show "distinct (map fst (scope_rows scope d))"
    using gen [OF dp] by (simp add: scope_rows_def)
  show "map_of (scope_rows scope d) q =
      (case row_view d q of None \<Rightarrow> None
       | Some (r, _) \<Rightarrow> if tk_scope r = scope then Some \<lparr>rs_id = tk_id r, rs_mtime = tk_mtime r, rs_size = tk_size r\<rparr> else None)"
    using gen [OF dp, where g = "\<lambda>p. \<lparr>rs_id = tk_id p, rs_mtime = tk_mtime p, rs_size = tk_size p\<rparr>" and P = "\<lambda>p. tk_scope p = scope"]
    by (auto simp: scope_rows_def row_view_def split: option.split)
qed

lemma case_stat_if:
  "(case r of StatOk \<Rightarrow> a | StatMissing \<Rightarrow> b | StatFault \<Rightarrow> c) = (if r = StatOk then a else if r = StatMissing then b else c)"
  by (cases r) simp_all

lemma mem_scope_write_ops:
  "w \<in> set (scope_write_ops upsert del stat listed existing upserts) \<longleftrightarrow>
     (\<exists>path item. (path, item) \<in> set upserts \<and>
        (stat path = StatOk \<and> w = upsert path item \<or> stat path = StatMissing \<and> w = del path)) \<or>
     (\<exists>path r. (path, r) \<in> set existing \<and> map_of listed path = None \<and> stat path = StatMissing \<and> w = del path)"
proof -
  have put: "w \<in> set (case stat path of StatOk \<Rightarrow> [upsert path item] | StatMissing \<Rightarrow> [del path] | StatFault \<Rightarrow> []) \<longleftrightarrow>
      stat path = StatOk \<and> w = upsert path item \<or> stat path = StatMissing \<and> w = del path" for path item
    by (cases "stat path") simp_all
  have gone: "w \<in> set (if map_of listed path \<noteq> None then [] else if stat path = StatMissing then [del path] else []) \<longleftrightarrow>
      map_of listed path = None \<and> stat path = StatMissing \<and> w = del path" for path
    by auto
  show ?thesis
    unfolding scope_write_ops_def set_append Un_iff set_concat set_map UN_iff image_iff set_sort
    by (simp only: bex_simps split_paired_Bex_Sigma case_prod_unfold put gone) (simp add: Bex_def split_paired_Ex)
qed

lemma scope_write_view:
  assumes ex: "distinct (map fst existing)" and up: "distinct (map fst upserts)"
    and paths: "\<And>path p es. (path, p, es) \<in> set upserts \<Longrightarrow> tk_path p = path"
  shows "fold op_view (apply_scope_write name now stat listed existing upserts) V q =
    (if map_of existing q \<noteq> None \<and> map_of listed q = None \<and> stat q = StatMissing then None
     else case map_of upserts q of None \<Rightarrow> V q
          | Some (p, es) \<Rightarrow>
              (case stat q of StatMissing \<Rightarrow> None | StatFault \<Rightarrow> V q | StatOk \<Rightarrow> op_at (WUpsertTicket p es) (V q)))"
proof -
  let ?put = "\<lambda>(path, item). case stat path of StatMissing \<Rightarrow> [WDeleteByPath path] | StatFault \<Rightarrow> []
      | StatOk \<Rightarrow> [case item of (p, es) \<Rightarrow> WUpsertTicket p es]"
  let ?drop = "\<lambda>(path, _ :: row_stat). if map_of listed path \<noteq> None then [] else if stat path = StatMissing then [WDeleteByPath path] else []"
  have ops: "apply_scope_write name now stat listed existing upserts =
      concat (map ?put (sort_key fst upserts)) @ concat (map ?drop existing) @ [WSetLastIndex name now]"
    unfolding apply_scope_write_def scope_write_ops_def by (simp add: case_prod_unfold)
  have puts: "fold op_view (concat (map ?put (sort_key fst upserts))) V q =
      (case map_of upserts q of None \<Rightarrow> V q | Some y \<Rightarrow> fold op_at (?put (q, y)) (V q))"
    by (subst fold_keyed [OF map_of_sort_key(1) [OF up]])
      (auto simp: map_of_sort_key(2) [OF up] paths case_stat_if split: if_splits)
  have drops: "fold op_view (concat (map ?drop existing)) W q =
      (case map_of existing q of None \<Rightarrow> W q | Some y \<Rightarrow> fold op_at (?drop (q, y)) (W q))" for W
    by (subst fold_keyed [OF ex]) (auto split: if_splits)
  show ?thesis
    unfolding ops fold_append comp_apply fold.simps id_apply op_view.simps drops puts
    by (cases "map_of upserts q"; cases "stat q"; cases "map_of existing q") (auto split: option.split)
qed

lemma design_write_view:
  "fold op_view (apply_design_write stat listed existing upserts) V = V"
proof -
  have "op_target w = None" if "w \<in> set (apply_design_write stat listed existing upserts)" for w
    using that unfolding apply_design_write_def mem_scope_write_ops by auto
  then show ?thesis by (intro ext) (rule fold_op_view_other, simp)
qed

lemma last_index_set: "last_index scope (set_last_index scope ns d) = ns"
proof -
  have "map_of (map (\<lambda>(s, n). if s = scope then (s, ns) else (s, n)) xs) scope = Some ns" if "scope \<in> fst ` set xs" for xs
    using that by (induction xs) auto
  moreover have "map_of (xs @ [(scope, ns)]) scope = Some ns" if "scope \<notin> fst ` set xs" for xs :: "(string \<times> int) list"
    using that by (simp add: map_add_Some_iff map_of_eq_None_iff)
  ultimately show ?thesis by (simp add: last_index_def set_last_index_def)
qed

lemma scope_ops_ok:
  "(\<And>path p es. (path, p, es) \<in> set upserts \<Longrightarrow> from_file (tk_path p) {edge_depends, edge_related} es) \<Longrightarrow>
     list_all op_ok (apply_scope_write name now stat listed existing upserts)"
  unfolding apply_scope_write_def list_all_iff by (auto simp: mem_scope_write_ops)

lemma design_ops_ok:
  "(\<And>path p es. (path, p, es) \<in> set upserts \<Longrightarrow> from_file (ds_path p) {edge_produces} es) \<Longrightarrow>
     list_all op_ok (apply_design_write stat listed existing upserts)"
  unfolding apply_design_write_def list_all_iff by (auto simp: mem_scope_write_ops)

lemma pending_mem:
  "(path, r) \<in> set (pending_upserts k parse existing lastIndex files) \<Longrightarrow>
     \<exists>st f. (path, st) \<in> set files \<and> disk_file k path = Some f \<and> r = parse path st (f_data f)"
proof -
  assume "(path, r) \<in> set (pending_upserts k parse existing lastIndex files)"
  then obtain x where x: "x \<in> set files" and
      "(case x of (path, st) \<Rightarrow> if unchanged (map_of existing path) st lastIndex then None
        else case disk_file k path of None \<Rightarrow> None | Some f \<Rightarrow> Some (path, parse path st (f_data f))) = Some (path, r)"
    unfolding pending_upserts_def mem_map_filter by blast
  moreover obtain a st where "x = (a, st)" by (cases x) simp
  ultimately have "x = (a, st)" "a = path \<and> (\<exists>f. disk_file k path = Some f \<and> r = parse path st (f_data f))"
    by (cases "disk_file k a"; simp split: if_splits)+
  with x show ?thesis by auto
qed

lemma run_ops_snoc: "run_ops (ws @ [w]) d = rbind (run_ops ws d) (run_op w)"
proof (induction ws arbitrary: d)
  case (Cons v ws)
  then show ?case by (cases "run_op v d") auto
next
  case Nil
  then show ?case by (cases "run_op w d") simp_all
qed

abbreviation ticket_pending ::
    "rec_env \<Rightarrow> string \<Rightarrow> disk \<Rightarrow> db \<Rightarrow> (string \<times> stat_entry) list \<Rightarrow> (string \<times> ticket \<times> edge list) list" where
  "ticket_pending E name kRead d files \<equiv>
     pending_upserts kRead (\<lambda>path st. parse_file E path name (se_full_id st) (se_archived st) (se_mtime st) (se_size st))
       (scope_rows name d) (last_index name d) files"

abbreviation design_pending ::
    "rec_env \<Rightarrow> string \<Rightarrow> disk \<Rightarrow> db \<Rightarrow> (string \<times> stat_entry) list \<Rightarrow> (string \<times> design \<times> edge list) list" where
  "design_pending E name kRead d files \<equiv>
     pending_upserts kRead (\<lambda>path st. parse_design E path name (se_full_id st) (se_mtime st) (se_size st))
       (scope_design_rows name d) (last_index name d) files"

lemma ticket_pending_mem:
  assumes "(path, p, es) \<in> set (ticket_pending E name kRead d files)"
  shows "tk_path p = path" "from_file (tk_path p) {edge_depends, edge_related} es"
proof -
  obtain st :: stat_entry and f :: regfile where "(p, es) = parse_file E path name (se_full_id st) (se_archived st) (se_mtime st) (se_size st) (f_data f)"
    using pending_mem [OF assms] by (elim exE conjE) (rule that)
  from parse_file_row [OF this [symmetric]] show "tk_path p = path" "from_file (tk_path p) {edge_depends, edge_related} es"
    by simp_all
qed

lemma design_pending_mem:
  assumes "(path, p, es) \<in> set (design_pending E name kRead d files)"
  shows "from_file (ds_path p) {edge_produces} es"
proof -
  obtain st :: stat_entry and f :: regfile where "(p, es) = parse_design E path name (se_full_id st) (se_mtime st) (se_size st) (f_data f)"
    using pending_mem [OF assms] by (elim exE conjE) (rule that)
  from parse_design_row [OF this [symmetric]] show "from_file (ds_path p) {edge_produces} es" by simp
qed

text \<open>One pass: it either leaves the index alone, or runs to the end and moves the watermark.\<close>

lemma reconcile_scope_runs:
  assumes ok: "db_ok d" and list: "stat_scope kList name dir = Some files" and des: "stat_designs kList name dir = Inr dfiles"
  shows "\<exists>d'. reconcile_scope E name dir now kList kRead stat d = Inr (True, d') \<and> db_ok d' \<and> last_index name d' = now \<and>
    row_view d' = fold op_view (apply_scope_write name now stat files (scope_rows name d) (ticket_pending E name kRead d files)) (row_view d)"
proof -
  let ?T = "apply_scope_write name now stat files (scope_rows name d) (ticket_pending E name kRead d files)"
  let ?D = "apply_design_write stat dfiles (scope_design_rows name d) (design_pending E name kRead d dfiles)"
  have t: "list_all op_ok ?T"
    by (rule scope_ops_ok, rule ticket_pending_mem(2))
  have ds: "list_all op_ok ?D"
    by (rule design_ops_ok, rule design_pending_mem)
  have ops: "list_all op_ok (?D @ ?T)" using t ds by simp
  obtain d' where run: "run_ops (?D @ ?T) d = Inr d'" and ok': "db_ok d'" using run_ops_ok [OF ok ops] by blast
  have "row_view d' = fold op_view ?T (row_view d)"
    using view_run_ops [OF ok ops run] by (simp add: design_write_view)
  moreover have "last_index name d' = now"
  proof -
    obtain ws where "?D @ ?T = ws @ [WSetLastIndex name now]"
      by (simp add: apply_scope_write_def)
    with run show ?thesis by (auto simp: run_ops_snoc early_return last_index_set)
  qed
  moreover have "reconcile_scope E name dir now kList kRead stat d = Inr (True, d')"
    using run by (simp add: reconcile_scope_def list des run_scope_write_def Let_def)
  ultimately show ?thesis using ok' by blast
qed

section \<open>Edits, passes and write-throughs in any order\<close>

text \<open>
  Between the moments at which a pass looks at the disk anybody may edit it. An edit writes a file with
  the time of the clock, removes one, or changes the directories; the archive stays listable
  while it holds files.
\<close>

inductive edit :: "string \<Rightarrow> disk \<times> int \<Rightarrow> disk \<times> int \<Rightarrow> bool" for dir where
  edit_tick: "t \<le> t' \<Longrightarrow> edit dir (k, t) (k, t')"
| edit_write: "prefix [slash] p \<Longrightarrow>
     k' = k\<lparr>dk_files := AList.update p \<lparr>f_data = data, f_mtime = t\<rparr> (dk_files k)\<rparr> \<Longrightarrow>
     archive_listed dir k' \<Longrightarrow> edit dir (k, t) (k', t)"
| edit_remove: "k' = k\<lparr>dk_files := AList.delete p (dk_files k)\<rparr> \<Longrightarrow> edit dir (k, t) (k', t)"
| edit_dirs: "dk_files k' = dk_files k \<Longrightarrow> archive_listed dir k' \<Longrightarrow> edit dir (k, t) (k', t)"

abbreviation edits :: "string \<Rightarrow> disk \<times> int \<Rightarrow> disk \<times> int \<Rightarrow> bool" where
  "edits dir \<equiv> (edit dir)\<^sup>*\<^sup>*"

record world =
  w_disk :: disk
  w_clock :: int
  w_db :: db

definition stat_of :: "disk \<Rightarrow> string \<Rightarrow> stat_result" where
  "stat_of k p = (case disk_file k p of None \<Rightarrow> StatMissing | Some f \<Rightarrow> StatOk)"

definition info_of :: "disk \<Rightarrow> string \<Rightarrow> file_info" where
  "info_of k p = (case disk_file k p of None \<Rightarrow> InfoMissing | Some f \<Rightarrow> InfoOf (f_mtime f) (int (length (f_data f))))"

inductive world_step :: "rec_env \<Rightarrow> string \<Rightarrow> string \<Rightarrow> world \<Rightarrow> world \<Rightarrow> bool" for E name dir where
  step_edit: "edit dir (w_disk w, w_clock w) (k, t) \<Longrightarrow>
     world_step E name dir w (w\<lparr>w_disk := k, w_clock := t\<rparr>)"
| step_pass: "edits dir (w_disk w, w_clock w) (kList, t1) \<Longrightarrow> edits dir (kList, t1) (kRead, t2) \<Longrightarrow>
     edits dir (kRead, t2) (kStat, t3) \<Longrightarrow>
     reconcile_scope E name dir (w_clock w) kList kRead (stat_of kStat) (w_db w) = Inr (reached, d) \<Longrightarrow>
     world_step E name dir w (w\<lparr>w_disk := kStat, w_clock := t3, w_db := d\<rparr>)"
| step_sync: "edits dir (w_disk w, w_clock w) (kRead, t) \<Longrightarrow>
     sync_path E name (info_of (w_disk w)) kRead p (w_db w) = (err, d) \<Longrightarrow>
     world_step E name dir w (w\<lparr>w_disk := kRead, w_clock := t, w_db := d\<rparr>)"

definition quiet :: "string \<Rightarrow> disk \<times> int \<Rightarrow> bool" where
  "quiet dir = (\<lambda>(k, t). disk_ok k \<and> archive_listed dir k \<and> (\<forall>p f. disk_file k p = Some f \<longrightarrow> f_mtime f \<le> t))"

text \<open>Every file that differs was written at or after \<open>t\<close>.\<close>

definition edited_since :: "int \<Rightarrow> disk \<Rightarrow> disk \<Rightarrow> bool" where
  "edited_since t k k' \<longleftrightarrow>
     (\<forall>p f. disk_file k' p = Some f \<longrightarrow> disk_file k p = Some f \<or> t \<le> f_mtime f)"

lemma disk_file_update: "disk_file (k\<lparr>dk_files := AList.update p v (dk_files k)\<rparr>) q = (if q = p then Some v else disk_file k q)"
  by (simp add: disk_file_def update_conv')

lemma disk_file_delete: "disk_file (k\<lparr>dk_files := AList.delete p (dk_files k)\<rparr>) q = (if q = p then None else disk_file k q)"
  by (simp add: disk_file_def AList.delete_conv')

lemma edit_quiet:
  assumes "edit dir s s'" and "quiet dir s"
  shows "quiet dir s' \<and> snd s \<le> snd s' \<and> edited_since (snd s) (fst s) (fst s')"
  using assms
proof cases
  case (edit_tick t t' k)
  then show ?thesis using assms(2) by (force simp: quiet_def edited_since_def)
next
  case (edit_write p k' k data t)
  have "disk_ok k'"
    using assms(2) edit_write by (auto simp: quiet_def disk_ok_def distinct_update dom_update)
  with edit_write assms(2) show ?thesis by (auto simp: quiet_def edited_since_def disk_file_update)
next
  case (edit_remove k' k p t)
  have "disk_ok k'"
    using assms(2) edit_remove by (auto simp: quiet_def disk_ok_def AList.delete_eq distinct_map_filter)
  moreover have "archive_listed dir k'"
    using assms(2) edit_remove by (force simp: quiet_def archive_listed_def AList.delete_eq)
  ultimately show ?thesis using edit_remove assms(2) by (auto simp: quiet_def edited_since_def disk_file_delete)
next
  case (edit_dirs k' k t)
  then have "disk_file k' = disk_file k" by (simp add: disk_file_def fun_eq_iff)
  then show ?thesis using edit_dirs assms(2) by (auto simp: quiet_def edited_since_def disk_ok_def)
qed

lemma edits_quiet:
  assumes "edits dir s s'" and "quiet dir s"
  shows "quiet dir s' \<and> snd s \<le> snd s' \<and> edited_since (snd s) (fst s) (fst s')"
  using assms
proof (induction rule: rtranclp_induct)
  case base
  then show ?case by (simp add: edited_since_def)
next
  case (step s1 s2)
  then have "quiet dir s1" "snd s \<le> snd s1" "edited_since (snd s) (fst s) (fst s1)" by auto
  moreover from edit_quiet [OF step(2) this(1)]
  have "quiet dir s2" "snd s1 \<le> snd s2" "edited_since (snd s1) (fst s1) (fst s2)" by auto
  ultimately show ?case unfolding edited_since_def by (meson order_trans)
qed

definition scan_view :: "rec_env \<Rightarrow> string \<Rightarrow> string \<Rightarrow> string \<Rightarrow> bool \<Rightarrow> regfile \<Rightarrow> tview" where
  "scan_view E name p full archived f =
     (case parse_file E p name full archived (f_mtime f) (int (length (f_data f))) (f_data f) of (t, es) \<Rightarrow> file_view t es)"

text \<open>
  A row fits the disk: it is of the scope, it is not newer than the file, and if the next pass
  would skip the file then the row shows it.
\<close>

definition row_fits :: "rec_env \<Rightarrow> string \<Rightarrow> int \<Rightarrow> disk \<times> int \<Rightarrow> string \<Rightarrow> string \<Rightarrow> bool \<Rightarrow> tview \<Rightarrow> bool" where
  "row_fits E name lastIndex = (\<lambda>(k, t) p full archived v.
     tk_scope (fst v) = name \<and> tk_mtime (fst v) \<le> t \<and>
     (\<forall>f. disk_file k p = Some f \<longrightarrow>
        tk_mtime (fst v) \<le> f_mtime f \<and>
        (tk_mtime (fst v) = f_mtime f \<and> tk_size (fst v) = int (length (f_data f)) \<and> f_mtime f < lastIndex \<longrightarrow>
           v = scan_view E name p full archived f)))"

definition world_ok :: "rec_env \<Rightarrow> string \<Rightarrow> string \<Rightarrow> world \<Rightarrow> bool" where
  "world_ok E name dir w \<longleftrightarrow>
     quiet dir (w_disk w, w_clock w) \<and> db_ok (w_db w) \<and> last_index name (w_db w) \<le> w_clock w \<and>
     (\<forall>p full archived v. slot name dir p = Some (full, archived) \<longrightarrow> row_view (w_db w) p = Some v \<longrightarrow>
        row_fits E name (last_index name (w_db w)) (w_disk w, w_clock w) p full archived v)"

lemma world_rows:
  "world_ok E name dir w \<Longrightarrow> slot name dir p = Some (full, archived) \<Longrightarrow> row_view (w_db w) p = Some v \<Longrightarrow>
     row_fits E name (last_index name (w_db w)) (w_disk w, w_clock w) p full archived v"
  unfolding world_ok_def by blast

lemma row_fits_edits:
  assumes "row_fits E name lastIndex (k, t) p full archived v" "quiet dir (k, t)" "edits dir (k, t) (k', t')" "lastIndex \<le> t"
  shows "row_fits E name lastIndex (k', t') p full archived v"
proof -
  have e: "t \<le> t'" "edited_since t k k'" using edits_quiet [OF assms(3,2)] by simp_all
  have "tk_mtime (fst v) \<le> f_mtime f \<and> (tk_mtime (fst v) = f_mtime f \<and> tk_size (fst v) = int (length (f_data f)) \<and>
      f_mtime f < lastIndex \<longrightarrow> v = scan_view E name p full archived f)" if "disk_file k' p = Some f" for f
  proof -
    from e(2) that consider "disk_file k p = Some f" | "t \<le> f_mtime f" by (auto simp: edited_since_def)
    then show ?thesis
      by cases (use assms(1,4) in \<open>simp_all add: row_fits_def\<close>)
  qed
  then show ?thesis using assms(1) e(1) by (auto simp: row_fits_def)
qed

text \<open>What a pass leaves at one path, by cases on the listing.\<close>

lemma pass_at:
  assumes ok: "db_ok d" and k: "disk_ok kList" "archive_listed dir kList"
    and list: "stat_scope kList name dir = Some files"
    and s: "slot name dir p = Some (full, archived)"
    and scope: "\<And>v. row_view d p = Some v \<Longrightarrow> tk_scope (fst v) = name"
  shows "fold op_view (apply_scope_write name now (stat_of kStat) files (scope_rows name d) (ticket_pending E name kRead d files)) (row_view d) p =
    (case disk_file kList p of
       None \<Rightarrow> if disk_file kStat p = None then None else row_view d p
     | Some f \<Rightarrow>
         if unchanged (map_option (\<lambda>v. \<lparr>rs_id = tk_id (fst v), rs_mtime = tk_mtime (fst v), rs_size = tk_size (fst v)\<rparr>) (row_view d p))
              (file_entry full archived f) (last_index name d)
         then row_view d p
         else case disk_file kRead p of
                None \<Rightarrow> row_view d p
              | Some g \<Rightarrow>
                  if disk_file kStat p = None then None
                  else op_at (case parse_file E p name full archived (f_mtime f) (int (length (f_data f))) (f_data g) of
                                (t, es) \<Rightarrow> WUpsertTicket t es) (row_view d p))"
proof -
  note rows = scope_rows_map [OF ok, of name]
  have files: "distinct (map fst files)" "map_of files p = map_option (file_entry full archived) (disk_file kList p)"
    using stat_scope_map(1) [OF k list] stat_scope_map(2) [OF k list, of p] s by simp_all
  have ex: "map_of (scope_rows name d) p =
      map_option (\<lambda>v. \<lparr>rs_id = tk_id (fst v), rs_mtime = tk_mtime (fst v), rs_size = tk_size (fst v)\<rparr>) (row_view d p)"
    using rows(2) scope by (auto split: option.split)
  have pend: "map_of (ticket_pending E name kRead d files) p = (case disk_file kList p of None \<Rightarrow> None
       | Some f \<Rightarrow> if unchanged (map_of (scope_rows name d) p) (file_entry full archived f) (last_index name d) then None
           else map_option (\<lambda>g. parse_file E p name full archived (f_mtime f) (int (length (f_data f))) (f_data g)) (disk_file kRead p))"
    by (subst map_of_pending [OF files(1)]) (simp add: files(2) file_entry_def split: option.split)
  have stat: "stat_of kStat p = (if disk_file kStat p = None then StatMissing else StatOk)"
    by (simp add: stat_of_def split: option.split)
  show ?thesis
    by (subst scope_write_view [OF rows(1) distinct_pending [OF files(1)] ticket_pending_mem(1)], assumption)
      (cases "disk_file kList p"; cases "disk_file kRead p"; cases "row_view d p";
        simp add: pend files(2) stat ex case_prod_unfold)
qed

lemma scan_view_row: "tk_mtime (fst (scan_view E name p full archived f)) = f_mtime f"
  "tk_scope (fst (scan_view E name p full archived f)) = name"
  using parse_file_row(1) [of E p name full archived "f_mtime f" "int (length (f_data f))" "f_data f"]
  by (cases "parse_file E p name full archived (f_mtime f) (int (length (f_data f))) (f_data f)";
      simp add: scan_view_def file_view_def stored_ticket_def)+

lemma put_view:
  assumes "parse_file E p name full archived mtime sz data = (t, es)"
    and "\<And>v. old = Some v \<Longrightarrow> tk_mtime (fst v) \<le> mtime"
  shows "op_at (WUpsertTicket t es) old = Some (file_view t es)"
    and "tk_scope (fst (file_view t es)) = name \<and> tk_mtime (fst (file_view t es)) = mtime \<and> tk_size (fst (file_view t es)) = sz"
  using parse_file_row(1) [OF assms(1)] assms(2)
  by (auto simp: file_view_def stored_ticket_def not_less split: option.split)

lemma pass_row_fits:
  assumes w: "world_ok E name dir \<lparr>w_disk = k, w_clock = now, w_db = d\<rparr>"
    and e1: "edits dir (k, now) (kList, t1)" and e2: "edits dir (kList, t1) (kRead, t2)" and e3: "edits dir (kRead, t2) (kStat, t3)"
    and list: "stat_scope kList name dir = Some files"
    and s: "slot name dir p = Some (full, archived)"
    and v: "fold op_view (apply_scope_write name now (stat_of kStat) files (scope_rows name d) (ticket_pending E name kRead d files)) (row_view d) p = Some v"
  shows "row_fits E name now (kStat, t3) p full archived v"
proof -
  from w have q: "quiet dir (k, now)" and ok: "db_ok d" and li: "last_index name d \<le> now"
    and fits: "\<And>v. row_view d p = Some v \<Longrightarrow> row_fits E name (last_index name d) (k, now) p full archived v"
    using s by (auto simp: world_ok_def)
  from edits_quiet [OF e1 q] have q1: "quiet dir (kList, t1)" "now \<le> t1" "edited_since now k kList" by auto
  from edits_quiet [OF e2 q1(1)] have q2: "quiet dir (kRead, t2)" "t1 \<le> t2" "edited_since t1 kList kRead" by auto
  from edits_quiet [OF e3 q2(1)] have q3: "quiet dir (kStat, t3)" "t2 \<le> t3" "edited_since t2 kRead kStat" by auto
  have k1: "disk_ok kList" "archive_listed dir kList" using q1(1) by (simp_all add: quiet_def)
  have old: "tk_scope (fst u) = name" "tk_mtime (fst u) \<le> now" if "row_view d p = Some u" for u
    using fits [OF that] by (simp_all add: row_fits_def)
  have mono: "tk_mtime (fst u) \<le> f_mtime f" if "row_view d p = Some u" "disk_file kList p = Some f" for u f
    using row_fits_edits [OF fits [OF that(1)] q e1 li] that(2) by (simp add: row_fits_def)
  have same: "disk_file kRead p = Some f \<and> disk_file kList p = Some f \<and> disk_file k p = Some f"
    if "disk_file kStat p = Some f" "f_mtime f < now" for f
    using that q1 q2 q3 unfolding edited_since_def by (meson leD order_trans)
  have at: "disk_file kList p = None \<and> disk_file kStat p \<noteq> None \<and> row_view d p = Some v \<or>
     (\<exists>f. disk_file kList p = Some f \<and>
        (row_view d p = Some v \<and> (disk_file kRead p = None \<or>
             rs_mtime \<lparr>rs_id = tk_id (fst v), rs_mtime = tk_mtime (fst v), rs_size = tk_size (fst v)\<rparr> = f_mtime f \<and>
             tk_size (fst v) = int (length (f_data f)) \<and> f_mtime f < last_index name d) \<or>
         (\<exists>g t es. disk_file kRead p = Some g \<and>
            parse_file E p name full archived (f_mtime f) (int (length (f_data f))) (f_data g) = (t, es) \<and>
            op_at (WUpsertTicket t es) (row_view d p) = Some v)))"
    using trans [OF pass_at [where E = E and kStat = kStat and kRead = kRead and now = now, OF ok k1 list s old(1), symmetric] v]
    by (cases "disk_file kList p"; cases "disk_file kRead p"; cases "row_view d p")
      (auto simp: unchanged_def file_entry_def split: if_splits prod.splits)
  then consider (kept) "row_view d p = Some v" "\<And>f. disk_file kStat p = Some f \<Longrightarrow> f_mtime f < now \<Longrightarrow>
        tk_mtime (fst v) = f_mtime f \<Longrightarrow> tk_size (fst v) = int (length (f_data f)) \<Longrightarrow> f_mtime f < last_index name d"
    | (put) f g t es where "disk_file kList p = Some f" "disk_file kRead p = Some g"
        "parse_file E p name full archived (f_mtime f) (int (length (f_data f))) (f_data g) = (t, es)"
        "op_at (WUpsertTicket t es) (row_view d p) = Some v"
    using same by fastforce
  then show ?thesis
  proof cases
    case kept
    have "row_fits E name (last_index name d) (kStat, t3) p full archived v"
      by (rule row_fits_edits [OF fits [OF kept(1)] q _ li])
        (use e1 e2 e3 in \<open>auto intro: rtranclp_trans\<close>)
    with kept(2) show ?thesis by (cases "disk_file kStat p"; simp add: row_fits_def)
  next
    case put
    note new = put_view [where old = "row_view d p", OF put(3) mono [OF _ put(1)]]
    have v_eq: "v = file_view t es" using put(4) new(1) by simp
    have "f_mtime f \<le> t3" using q1(1) put(1) q2(2) q3(2) by (fastforce simp: quiet_def)
    moreover have "f_mtime f \<le> f_mtime h \<and> (f_mtime h < now \<longrightarrow> v = scan_view E name p full archived h)"
      if h: "disk_file kStat p = Some h" for h
    proof (cases "f_mtime h < now")
      case True
      from same [OF h True] put have "h = f" "g = f" by simp_all
      then show ?thesis using put(3) by (simp add: v_eq scan_view_def)
    next
      case False
      have "f = h \<or> f_mtime f \<le> f_mtime h"
        using h put q1 q2 q3 unfolding edited_since_def quiet_def by (fastforce dest: order_trans)
      with False show ?thesis by auto
    qed
    ultimately show ?thesis using new(2) by (auto simp: row_fits_def v_eq)
  qed
qed

text \<open>
  Write-through tells the place of a file by the last component of its directory, the listing by
  where it listed; they agree unless the scope directory itself is called \<open>archive\<close> or \<open>design\<close>.
\<close>

definition plain_dir :: "string \<Rightarrow> bool" where
  "plain_dir dir \<longleftrightarrow> path_base dir \<noteq> archive_dir \<and> path_base dir \<noteq> design_dir"

lemma slot_sync:
  assumes "plain_dir dir" "slot name dir p = Some (full, archived)"
  shows "ticket_id name (path_base p) = Some full" "path_base (path_dir p) \<noteq> design_dir"
    "archived \<longleftrightarrow> path_base (path_dir p) = archive_dir"
proof -
  have b: "path_base (path_join dir archive_dir) = archive_dir"
    by (rule path_join_parts(2)) (simp add: slashless_def archive_dir_def slash_def)
  have ad: "archive_dir \<noteq> design_dir" by (simp add: archive_dir_def design_dir_def)
  from assms(2) consider "path_dir p = dir" "ticket_id name (path_base p) = Some full" "\<not> archived"
    | "path_dir p = path_join dir archive_dir" "ticket_id name (path_base p) = Some full" "archived"
    by (auto simp: slot_def split: if_splits)
  then have "ticket_id name (path_base p) = Some full \<and> path_base (path_dir p) \<noteq> design_dir \<and>
      (archived \<longleftrightarrow> path_base (path_dir p) = archive_dir)"
    by cases (use assms(1) b ad in \<open>simp_all add: plain_dir_def\<close>)
  then show "ticket_id name (path_base p) = Some full" "path_base (path_dir p) \<noteq> design_dir"
    "archived \<longleftrightarrow> path_base (path_dir p) = archive_dir" by auto
qed

lemma meta_upsert:
  "upsert_ticket_with_edges_tx p es d = Inr d' \<Longrightarrow> db_meta d' = db_meta d"
  "upsert_design_with_edges_tx q es d = Inr d' \<Longrightarrow> db_meta d' = db_meta d"
  by (auto simp: upsert_ticket_with_edges_tx_def upsert_ticket_tx_def upsert_design_with_edges_tx_def
      upsert_design_tx_def Let_def early_return split: if_splits)

lemma meta_delete: "db_meta (delete_by_path_tx path d) = db_meta d" "db_meta (delete_design_by_path_tx path d) = db_meta d"
  by (auto simp: delete_by_path_tx_def delete_design_by_path_tx_def split: option.split)

text \<open>A write-through changes one path at most, never the watermark.\<close>

definition sync_effect :: "rec_env \<Rightarrow> string \<Rightarrow> (string \<Rightarrow> file_info) \<Rightarrow> disk \<Rightarrow> string \<Rightarrow> tview option \<Rightarrow> tview option" where
  "sync_effect E name info kRead p old =
     (case info p of
        InfoMissing \<Rightarrow> None
      | InfoFault \<Rightarrow> old
      | InfoOf mtime sz \<Rightarrow>
          (case (ticket_id name (path_base p), disk_file kRead p) of
             (Some full, Some g) \<Rightarrow>
               if path_base (path_dir p) = design_dir then old
               else op_at (case parse_file E p name full (path_base (path_dir p) = archive_dir) mtime sz (f_data g) of
                             (t, es) \<Rightarrow> WUpsertTicket t es) old
           | _ \<Rightarrow> old))"

lemma sync_write_runs:
  assumes "db_ok d" "op_ok w" "\<And>s ns. w \<noteq> WSetLastIndex s ns"
  shows "\<exists>d'. sync_write w d = (None, d') \<and> db_ok d' \<and> db_meta d' = db_meta d \<and> row_view d' = op_view w (row_view d)"
proof -
  obtain d' where d': "run_op w d = Inr d'" "db_ok d'" using run_op_ok [OF assms(1,2)] by blast
  moreover have "db_meta d' = db_meta d"
    using d'(1) assms(3) by (cases w) (auto simp: meta_upsert meta_delete)
  ultimately show ?thesis
    using view_run_op [OF assms(1,2) d'(1)] by (simp add: sync_write_def run_scope_write_def del: op_view.simps)
qed

lemma sync_path_runs:
  assumes ok: "db_ok d" and run: "sync_path E name info kRead p d = (err, d')"
  shows "db_ok d' \<and> db_meta d' = db_meta d \<and> row_view d' = (row_view d)(p := sync_effect E name info kRead p (row_view d p))"
proof (cases "info p")
  case (InfoOf mtime sz)
  show ?thesis
  proof (cases "ticket_id name (path_base p)")
    case None
    then show ?thesis using run ok InfoOf by (simp add: sync_path_def sync_effect_def)
  next
    case (Some full)
    show ?thesis
    proof (cases "disk_file kRead p")
      case None
      then show ?thesis using run ok InfoOf Some by (simp add: sync_path_def sync_effect_def)
    next
      case file_g: (Some g)
      show ?thesis
      proof (cases "path_base (path_dir p) = design_dir")
        case True
        obtain t es where pd: "parse_design E p name full mtime sz (f_data g) = (t, es)" by fastforce
        have "op_ok (WUpsertDesign t es)" using parse_design_row [OF pd] by simp
        from sync_write_runs [OF ok this] run show ?thesis
          using InfoOf Some file_g True pd by (auto simp: sync_path_def sync_effect_def)
      next
        case False
        obtain t es where pf: "parse_file E p name full (path_base (path_dir p) = archive_dir) mtime sz (f_data g) = (t, es)" by fastforce
        have path: "tk_path t = p" and "op_ok (WUpsertTicket t es)" using parse_file_row [OF pf] by simp_all
        from sync_write_runs [OF ok this(2)] run show ?thesis
          using InfoOf Some file_g False pf path
          by (auto simp: sync_path_def sync_effect_def op_view_at fun_eq_iff simp del: op_view.simps op_at.simps)
      qed
    qed
  qed
next
  case InfoMissing
  then have d': "d' = delete_design_by_path_tx p (delete_by_path_tx p d)" using run by (simp add: sync_path_def)
  have "db_ok d'" using delete_design_ok delete_by_path_ok [OF ok] by (auto simp: d')
  then show ?thesis using InfoMissing by (simp add: d' meta_delete view_delete view_delete_design sync_effect_def)
next
  case InfoFault
  then show ?thesis using run ok by (simp add: sync_path_def sync_effect_def)
qed

lemma sync_row_fits:
  assumes w: "world_ok E name dir \<lparr>w_disk = k, w_clock = now, w_db = d\<rparr>" and plain: "plain_dir dir"
    and e: "edits dir (k, now) (kRead, t)" and s: "slot name dir p = Some (full, archived)"
    and v: "sync_effect E name (info_of k) kRead p (row_view d p) = Some v"
  shows "row_fits E name (last_index name d) (kRead, t) p full archived v"
proof -
  from w have q: "quiet dir (k, now)" and li: "last_index name d \<le> now"
    and fits: "\<And>v. row_view d p = Some v \<Longrightarrow> row_fits E name (last_index name d) (k, now) p full archived v"
    using s by (auto simp: world_ok_def)
  from edits_quiet [OF e q] have q1: "quiet dir (kRead, t)" "now \<le> t" "edited_since now k kRead" by auto
  note sl = slot_sync [OF plain s]
  show ?thesis
  proof (cases "row_view d p = Some v \<and> disk_file k p \<noteq> None \<and> disk_file kRead p = None")
    case True
    then show ?thesis using row_fits_edits [OF fits q e li] by simp
  next
    case False
    then obtain f g r es where f: "disk_file k p = Some f" and g: "disk_file kRead p = Some g"
      and pf: "parse_file E p name full archived (f_mtime f) (int (length (f_data f))) (f_data g) = (r, es)"
      and put: "op_at (WUpsertTicket r es) (row_view d p) = Some v"
      using v sl
      by (cases "disk_file k p"; cases "disk_file kRead p")
        (auto simp: sync_effect_def info_of_def simp del: op_at.simps split: prod.splits)
    have "tk_mtime (fst u) \<le> f_mtime f" if "row_view d p = Some u" for u
      using fits [OF that] f by (simp add: row_fits_def)
    note new = put_view [where old = "row_view d p", OF pf this]
    have v_eq: "v = file_view r es" using put new(1) by simp
    have g_cases: "f = g \<or> now \<le> f_mtime g" using q1(3) f g by (force simp: edited_since_def)
    have "f_mtime f \<le> now" using q f by (simp add: quiet_def)
    then show ?thesis
      using g_cases new(2) g q1(2) li pf by (auto simp: row_fits_def v_eq scan_view_def)
  qed
qed

lemma world_step_ok:
  assumes plain: "plain_dir dir" and step: "world_step E name dir w w'" and w: "world_ok E name dir w"
  shows "world_ok E name dir w'"
  using step
proof cases
  case (step_edit k t)
  note e = r_into_rtranclp [of "edit dir", OF step_edit(2)]
  have q: "quiet dir (w_disk w, w_clock w)" "last_index name (w_db w) \<le> w_clock w" using w by (simp_all add: world_ok_def)
  from edits_quiet [OF e q(1)] have "quiet dir (k, t)" "w_clock w \<le> t" by auto
  moreover have "row_fits E name (last_index name (w_db w)) (k, t) p full archived v"
    if "slot name dir p = Some (full, archived)" "row_view (w_db w) p = Some v" for p full archived v
    using row_fits_edits [OF world_rows [OF w that] q(1) e q(2)] .
  ultimately show ?thesis using w step_edit(1) by (auto simp: world_ok_def)
next
  case (step_sync kRead t p err d)
  let ?w = "\<lparr>w_disk = w_disk w, w_clock = w_clock w, w_db = w_db w\<rparr>"
  have w0: "world_ok E name dir ?w" using w by (cases w) simp
  have q: "quiet dir (w_disk w, w_clock w)" "last_index name (w_db w) \<le> w_clock w" "db_ok (w_db w)"
    using w by (simp_all add: world_ok_def)
  from sync_path_runs [OF q(3) step_sync(3)]
  have d: "db_ok d" "db_meta d = db_meta (w_db w)"
    "row_view d = (row_view (w_db w))(p := sync_effect E name (info_of (w_disk w)) kRead p (row_view (w_db w) p))" by auto
  have li: "last_index name d = last_index name (w_db w)" using d(2) by (simp add: last_index_def)
  from edits_quiet [OF step_sync(2) q(1)] have e: "quiet dir (kRead, t)" "w_clock w \<le> t" by auto
  have "row_fits E name (last_index name d) (kRead, t) q full archived v"
    if s: "slot name dir q = Some (full, archived)" and v: "row_view d q = Some v" for q full archived v
  proof (cases "q = p")
    case True
    with v d(3) have "sync_effect E name (info_of (w_disk w)) kRead p (row_view (w_db w) p) = Some v" by simp
    from sync_row_fits [OF w0 plain step_sync(2) s [unfolded True] this] show ?thesis by (simp add: True li)
  next
    case False
    with v d(3) have "row_view (w_db w) q = Some v" by simp
    from row_fits_edits [OF world_rows [OF w s this] q(1) step_sync(2) q(2)] show ?thesis by (simp add: li)
  qed
  with d(1) e li q(2) show ?thesis by (auto simp: world_ok_def step_sync(1))
next
  case (step_pass kList t1 kRead t2 kStat t3 reached d)
  have w0: "world_ok E name dir \<lparr>w_disk = w_disk w, w_clock = w_clock w, w_db = w_db w\<rparr>" using w by (cases w) simp
  have q: "quiet dir (w_disk w, w_clock w)" "last_index name (w_db w) \<le> w_clock w" "db_ok (w_db w)"
    using w by (simp_all add: world_ok_def)
  have e: "edits dir (w_disk w, w_clock w) (kStat, t3)" using step_pass(2-4) by (meson rtranclp_trans)
  from edits_quiet [OF e q(1)] have qs: "quiet dir (kStat, t3)" "w_clock w \<le> t3" by auto
  show ?thesis
  proof (cases "stat_scope kList name dir")
    case None
    then have "d = w_db w" using step_pass(5) by (simp add: reconcile_scope_def)
    moreover have "row_fits E name (last_index name (w_db w)) (kStat, t3) p full archived v"
      if "slot name dir p = Some (full, archived)" "row_view (w_db w) p = Some v" for p full archived v
      using row_fits_edits [OF world_rows [OF w that] q(1) e q(2)] .
    ultimately show ?thesis using qs q by (auto simp: world_ok_def step_pass(1))
  next
    case (Some files)
    then obtain ds where ds: "stat_designs kList name dir = Inr ds"
      using step_pass(5) by (auto simp: reconcile_scope_def early_return)
    from reconcile_scope_runs [OF q(3) Some ds, of E "w_clock w" kRead "stat_of kStat"] step_pass(5)
    have d: "db_ok d" "last_index name d = w_clock w"
      "row_view d = fold op_view (apply_scope_write name (w_clock w) (stat_of kStat) files (scope_rows name (w_db w))
         (ticket_pending E name kRead (w_db w) files)) (row_view (w_db w))" by auto
    have "row_fits E name (w_clock w) (kStat, t3) p full archived v"
      if "slot name dir p = Some (full, archived)" "row_view d p = Some v" for p full archived v
      using pass_row_fits [OF w0 step_pass(2-4) Some that(1)] that(2) by (simp add: d(3))
    then show ?thesis using d qs by (auto simp: world_ok_def step_pass(1))
  qed
qed

lemma reachable_ok:
  assumes "plain_dir dir" "(world_step E name dir)\<^sup>*\<^sup>* w0 w" "world_ok E name dir w0"
  shows "world_ok E name dir w"
  using assms(2,3) by (induction rule: rtranclp_induct) (auto intro: world_step_ok [OF assms(1)])

lemma start_ok:
  assumes "w_db w = empty_db" "quiet dir (w_disk w, w_clock w)" "0 \<le> w_clock w"
  shows "world_ok E name dir w"
  using assms empty_db_ok by (simp add: world_ok_def last_index_def empty_db_def row_view_def row_at_def)

section \<open>Properties\<close>

text \<open>The racy-index rule is sound: start from an empty index and interleave, in any order, edits by
  anybody, passes of the scope (the disk changing between their listing, their reads and their
  stats) and write-throughs. Then a file that the next pass would skip, because its row has its
  modification time and size and is older than the last pass, is shown by its row exactly: the
  parsed row, its tags and its edges.\<close>

theorem skipped_rows_current:
  assumes plain: "plain_dir dir" and start: "w_db w0 = empty_db" "quiet dir (w_disk w0, w_clock w0)" "0 \<le> w_clock w0"
    and reach: "(world_step E name dir)\<^sup>*\<^sup>* w0 w"
    and p: "slot name dir p = Some (full, archived)" and f: "disk_file (w_disk w) p = Some f"
    and row: "row_view (w_db w) p = Some v"
    and skipped: "unchanged (Some \<lparr>rs_id = tk_id (fst v), rs_mtime = tk_mtime (fst v), rs_size = tk_size (fst v)\<rparr>)
        (file_entry full archived f) (last_index name (w_db w))"
  shows "v = scan_view E name p full archived f"
  using world_rows [OF reachable_ok [OF plain reach start_ok [OF start]] p row] f skipped
  by (simp add: row_fits_def unchanged_def file_entry_def)

lemma pass_exact:
  assumes w: "world_ok E name dir w"
    and list: "dir \<in> set (dk_dirs (w_disk w))" "stat_designs (w_disk w) name dir = Inr ds"
  shows "\<exists>d. reconcile_scope E name dir (w_clock w) (w_disk w) (w_disk w) (stat_of (w_disk w)) (w_db w) = Inr (True, d) \<and>
    db_ok d \<and>
    (\<forall>p full archived. slot name dir p = Some (full, archived) \<longrightarrow>
       row_view d p = map_option (scan_view E name p full archived) (disk_file (w_disk w) p))"
proof -
  let ?k = "w_disk w" and ?d = "w_db w"
  from w have ok: "db_ok ?d" and k: "disk_ok ?k" "archive_listed dir ?k" by (simp_all add: world_ok_def quiet_def)
  obtain files where files: "stat_scope ?k name dir = Some files"
    using list(1) by (simp add: stat_scope_def collect_dir_def read_dir_def)
  from reconcile_scope_runs [OF ok files list(2), of E "w_clock w" ?k "stat_of ?k"]
  obtain d where d: "reconcile_scope E name dir (w_clock w) ?k ?k (stat_of ?k) ?d = Inr (True, d)" "db_ok d"
    "row_view d = fold op_view (apply_scope_write name (w_clock w) (stat_of ?k) files (scope_rows name ?d)
       (ticket_pending E name ?k ?d files)) (row_view ?d)" by auto
  have "row_view d p = map_option (scan_view E name p full archived) (disk_file ?k p)"
    if s: "slot name dir p = Some (full, archived)" for p full archived
  proof -
    have fits: "row_fits E name (last_index name ?d) (?k, w_clock w) p full archived v" if "row_view ?d p = Some v" for v
      by (rule world_rows [OF w s that])
    have scope: "tk_scope (fst v) = name" if "row_view ?d p = Some v" for v
      using fits [OF that] by (simp add: row_fits_def)
    note at = pass_at [where E = E and kRead = "?k" and kStat = "?k" and now = "w_clock w", OF ok k files s scope]
    show ?thesis
    proof (cases "disk_file ?k p")
      case None
      then show ?thesis using trans [OF fun_cong [OF d(3)] at] by simp
    next
      case (Some f)
      obtain t es where pf: "parse_file E p name full archived (f_mtime f) (int (length (f_data f))) (f_data f) = (t, es)" by fastforce
      have "tk_mtime (fst v) \<le> f_mtime f" if "row_view ?d p = Some v" for v
        using fits [OF that] Some by (simp add: row_fits_def)
      note new = put_view(1) [where old = "row_view ?d p", OF pf this]
      have "v = scan_view E name p full archived f"
        if "row_view ?d p = Some v" "tk_mtime (fst v) = f_mtime f" "tk_size (fst v) = int (length (f_data f))"
          "f_mtime f < last_index name ?d" for v
        using fits [OF that(1)] that Some by (simp add: row_fits_def)
      then show ?thesis
        using trans [OF fun_cong [OF d(3)] at] Some new pf
        by (cases "row_view ?d p") (auto simp: unchanged_def file_entry_def scan_view_def simp del: op_at.simps split: if_splits)
    qed
  qed
  with d(1,2) show ?thesis by blast
qed


definition sample_env :: rec_env where
  "sample_env = \<lparr>re_yaml = sample_codec, re_msg = (\<lambda>_. ''bad''), re_config = (\<lambda>_. Inl ''none'')\<rparr>"

definition start_world :: world where
  "start_world = \<lparr>w_disk = \<lparr>dk_files = [(''/s/app-abcd.md'', \<lparr>f_data = ''a'', f_mtime = 5\<rparr>)], dk_dirs = [''/s''], dk_locked = []\<rparr>,
     w_clock = 5, w_db = empty_db\<rparr>"

lemma start_world_quiet:
  "plain_dir ''/s''" "w_db start_world = empty_db" "quiet ''/s'' (w_disk start_world, w_clock start_world)" "0 \<le> w_clock start_world"
  "slot ''app'' ''/s'' ''/s/app-abcd.md'' = Some (''app-abcd'', False)" "''/s'' \<in> set (dk_dirs (w_disk start_world))"
  "stat_designs (w_disk start_world) ''app'' ''/s'' = Inr []"
proof -
  have "disk_ok (w_disk start_world)" "archive_listed ''/s'' (w_disk start_world)"
    "list_all (\<lambda>(p, f). f_mtime f \<le> w_clock start_world) (dk_files (w_disk start_world))" by code_simp+
  then show "quiet ''/s'' (w_disk start_world, w_clock start_world)"
    by (auto simp: quiet_def disk_file_def list_all_iff dest!: map_of_SomeD)
qed code_simp+


definition indexed_db :: db where
  "indexed_db = (case reconcile_scope sample_env ''app'' ''/s'' 9 (w_disk start_world) (w_disk start_world)
     (stat_of (w_disk start_world)) empty_db of Inr (b, d) \<Rightarrow> d | Inl e \<Rightarrow> empty_db)"

lemma indexed_db_run:
  "reconcile_scope sample_env ''app'' ''/s'' 9 (w_disk start_world) (w_disk start_world)
     (stat_of (w_disk start_world)) empty_db = Inr (True, indexed_db)"
proof -
  have "case reconcile_scope sample_env ''app'' ''/s'' 9 (w_disk start_world) (w_disk start_world)
     (stat_of (w_disk start_world)) empty_db of Inr (b, d) \<Rightarrow> b | Inl e \<Rightarrow> False" by code_simp
  then show ?thesis by (auto simp: indexed_db_def split: sum.splits)
qed

definition indexed_world :: world where
  "indexed_world = \<lparr>w_disk = w_disk start_world, w_clock = 9, w_db = indexed_db\<rparr>"

lemma indexed_world_reached: "(world_step sample_env ''app'' ''/s'')\<^sup>*\<^sup>* start_world indexed_world"
proof -
  let ?w = "\<lparr>w_disk = w_disk start_world, w_clock = 9, w_db = empty_db\<rparr>"
  have "world_step sample_env ''app'' ''/s'' start_world (start_world\<lparr>w_disk := w_disk start_world, w_clock := 9\<rparr>)"
    by (rule step_edit, rule edit_tick) (simp add: start_world_def)
  moreover have "world_step sample_env ''app'' ''/s'' ?w (?w\<lparr>w_disk := w_disk start_world, w_clock := 9, w_db := indexed_db\<rparr>)"
    by (rule step_pass [where reached = True and kList = "w_disk start_world" and kRead = "w_disk start_world" and ?t1.0 = 9 and ?t2.0 = 9])
      (simp_all add: indexed_db_run)
  ultimately show ?thesis
    by (simp add: start_world_def indexed_world_def)
qed

theorem skipped_rows_current_witness:
  "\<exists>v. row_view indexed_db ''/s/app-abcd.md'' = Some v \<and>
     v = scan_view sample_env ''app'' ''/s/app-abcd.md'' ''app-abcd'' False \<lparr>f_data = ''a'', f_mtime = 5\<rparr>"
proof -
  let ?p = "''/s/app-abcd.md''"
  obtain i r where r: "row_at tk_path ?p (db_tickets indexed_db) = Some (i, r)" and m: "tk_mtime r = 5" "tk_size r = 1"
  proof -
    have "case row_at tk_path ?p (db_tickets indexed_db) of None \<Rightarrow> False | Some (i, r) \<Rightarrow> tk_mtime r = 5 \<and> tk_size r = 1" by code_simp
    with that show ?thesis by (auto split: option.splits)
  qed
  then obtain v where v: "row_view indexed_db ?p = Some v" "fst v = r" by (simp add: row_view_def)
  have f: "disk_file (w_disk indexed_world) ?p = Some \<lparr>f_data = ''a'', f_mtime = 5\<rparr>" "last_index ''app'' indexed_db = 9"
    by code_simp+
  have "v = scan_view sample_env ''app'' ?p ''app-abcd'' False \<lparr>f_data = ''a'', f_mtime = 5\<rparr>"
    by (rule skipped_rows_current [OF start_world_quiet(1-4) indexed_world_reached start_world_quiet(5) f(1)])
      (use v m f(2) in \<open>simp_all add: indexed_world_def unchanged_def file_entry_def\<close>)
  with v(1) show ?thesis by blast
qed

section \<open>Limits of the rule\<close>

text \<open>
  The watermark moves on even for a file that a pass listed and could not read. A same-size edit in the
  tick of its row (mtime 5, last pass 5) is dirty until then; after one failing read it is skipped for good.
\<close>

definition tick_disk :: "string \<Rightarrow> disk" where
  "tick_disk data = \<lparr>dk_files = [(''/s/app-abcd.md'', \<lparr>f_data = data, f_mtime = 5\<rparr>)], dk_dirs = [''/s''], dk_locked = []\<rparr>"

definition pass_db :: "int \<Rightarrow> disk \<Rightarrow> disk \<Rightarrow> db \<Rightarrow> db" where
  "pass_db now kList kRead d =
     (case reconcile_scope sample_env ''app'' ''/s'' now kList kRead (stat_of kList) d of Inr (_, d') \<Rightarrow> d' | Inl _ \<Rightarrow> d)"

definition bodies :: "db \<Rightarrow> string list" where
  "bodies d = map (\<lambda>(_, _, body). body) (db_fts d)"

lemma unread_file_stays_stale:
  "bodies (pass_db 7 (tick_disk ''b'') (tick_disk ''b'')
     (pass_db 6 (tick_disk ''b'') ((tick_disk ''b'')\<lparr>dk_files := []\<rparr>)
       (pass_db 5 (tick_disk ''a'') (tick_disk ''a'') empty_db))) = [''a''] \<and>
   bodies (pass_db 7 (tick_disk ''b'') (tick_disk ''b'')
     (pass_db 5 (tick_disk ''a'') (tick_disk ''a'') empty_db)) = [''b'']"
  by code_simp

text \<open>A file put in place with an older modification time, by a rename say, does not replace its row.\<close>

definition old_disk :: disk where
  "old_disk = \<lparr>dk_files = [(''/s/app-abcd.md'', \<lparr>f_data = ''old'', f_mtime = 3\<rparr>)], dk_dirs = [''/s''], dk_locked = []\<rparr>"

lemma older_file_not_indexed:
  "bodies (pass_db 9 old_disk old_disk (pass_db 8 (tick_disk ''a'') (tick_disk ''a'') empty_db)) = [''a'']"
  by code_simp

text \<open>In a scope directory called \<open>archive\<close>, write-through files a root ticket as archived and a pass does not.\<close>

definition arch_disk :: disk where
  "arch_disk = \<lparr>dk_files = [(''/archive/app-abcd.md'', \<lparr>f_data = ''a'', f_mtime = 5\<rparr>)], dk_dirs = [''/archive''], dk_locked = []\<rparr>"

lemma archive_named_scope_differs:
  "map (\<lambda>(_, r). tk_archived r)
     (db_tickets (snd (sync_path sample_env ''app'' (info_of arch_disk) arch_disk ''/archive/app-abcd.md'' empty_db))) = [True] \<and>
   (case reconcile_scope sample_env ''app'' ''/archive'' 6 arch_disk arch_disk (stat_of arch_disk) empty_db of
      Inr (_, d) \<Rightarrow> map (\<lambda>(_, r). tk_archived r) (db_tickets d) = [False] | Inl _ \<Rightarrow> False)"
  by code_simp

end
