(* ===== verification/Closures.thy ===== *)
theory Closures
  imports Reconciles Statuses
begin

text \<open>
  The read-through over several scopes: \<open>pruneForgotten\<close>, \<open>ReconcileRows\<close>, the warnings of
  \<open>AppendAggregates\<close> (\<open>reconcile.go\<close>) and the walk of \<open>ReconcileClosure\<close> over the scopes that depends
  edges lead to (\<open>closure.go\<close>). A Go map is a list of pairs with distinct keys; ranging over one goes
  in key order here, and a warning is kept as data instead of its line of text. The scopes are
  passed one after the other, each seeing the disk of its own moment.
\<close>

section \<open>Results\<close>

datatype rec_warning =
    WarnUnreachable string string
  | WarnConfig string string
  | WarnParseErrors nat
  | WarnDuplicate string "string list"
  | WarnEqualOrder string string "string list"
  | WarnArchiveNonTerminal ticket
  | WarnArchiveTerminalAtRoot ticket

record rec_result =
  rr_schemas :: "string \<Rightarrow> schema option option"
  rr_config_errs :: "string \<Rightarrow> string option"
  rr_unreachable :: "string set"
  rr_warnings :: "rec_warning list"

definition new_result :: rec_result where
  "new_result = \<lparr>rr_schemas = Map.empty, rr_config_errs = Map.empty, rr_unreachable = {}, rr_warnings = []\<rparr>"

definition result_schema :: "rec_result \<Rightarrow> string \<Rightarrow> schema option" where
  "result_schema res scope = (case rr_schemas res scope of Some s \<Rightarrow> s | None \<Rightarrow> None)"

definition merge_result :: "rec_result \<Rightarrow> rec_result \<Rightarrow> rec_result" where
  "merge_result res other =
     \<lparr>rr_schemas = rr_schemas res ++ rr_schemas other,
      rr_config_errs = rr_config_errs res ++ rr_config_errs other,
      rr_unreachable = rr_unreachable res \<union> rr_unreachable other,
      rr_warnings = rr_warnings res @ rr_warnings other\<rparr>"

section \<open>Several scopes\<close>

definition prune_forgotten :: "string set \<Rightarrow> db \<Rightarrow> db" where
  "prune_forgotten registered d =
     fold (\<lambda>scope d. if scope \<in> registered then d else delete_scope scope d) (sorted_list_of_set (indexed_scopes d)) d"

text \<open>The disk a pass over a scope sees: at its listing, its reads, and its stats.\<close>

type_synonym look = "string \<Rightarrow> disk \<times> disk \<times> (string \<Rightarrow> stat_result)"

definition schema_or_error :: "rec_env \<Rightarrow> string \<Rightarrow> schema option \<times> string option" where
  "schema_or_error E dir = (case re_config E dir of Inr s \<Rightarrow> (Some s, None) | Inl reason \<Rightarrow> (None, Some reason))"

fun reconcile_names ::
    "rec_env \<Rightarrow> look \<Rightarrow> int \<Rightarrow> (string \<times> string) list \<Rightarrow> rec_result \<Rightarrow> string list \<Rightarrow> db \<Rightarrow>
     (rec_error + rec_result \<times> string list) \<times> db" where
  "reconcile_names E look now [] res done d = (Inr (res, done), d)"
| "reconcile_names E look now ((name, dir) # targets) res done d =
     (case look name of (kList, kRead, stat) \<Rightarrow>
      case reconcile_scope E name dir now kList kRead stat d of
        Inl e \<Rightarrow> (Inl e, d)
      | Inr (False, d') \<Rightarrow>
          reconcile_names E look now targets
            (res\<lparr>rr_unreachable := insert name (rr_unreachable res),
                 rr_warnings := rr_warnings res @ [WarnUnreachable name dir]\<rparr>) done d'
      | Inr (True, d') \<Rightarrow>
          (case schema_or_error E dir of (schema, cfgErr) \<Rightarrow>
             reconcile_names E look now targets
               (case cfgErr of
                  None \<Rightarrow> res\<lparr>rr_schemas := (rr_schemas res)(name \<mapsto> schema)\<rparr>
                | Some reason \<Rightarrow>
                    res\<lparr>rr_schemas := (rr_schemas res)(name \<mapsto> schema),
                        rr_config_errs := (rr_config_errs res)(name \<mapsto> reason),
                        rr_warnings := rr_warnings res @ [WarnConfig name reason]\<rparr>)
               (done @ [name]) d'))"

definition reconcile_rows ::
    "rec_env \<Rightarrow> look \<Rightarrow> int \<Rightarrow> (string \<times> string) list \<Rightarrow> string set \<Rightarrow> db \<Rightarrow> (rec_error + rec_result \<times> string list) \<times> db" where
  "reconcile_rows E look now targets registered d =
     reconcile_names E look now (sort_key fst targets) new_result [] (prune_forgotten registered d)"

section \<open>Warnings\<close>

definition parse_error_warnings :: "string list \<Rightarrow> db \<Rightarrow> rec_warning list" where
  "parse_error_warnings scopes d =
     (if length scopes = 0 then []
      else let n = parse_error_count scopes d in if n > 0 then [WarnParseErrors n] else [])"

definition archive_drift_warnings :: "rec_result \<Rightarrow> string list \<Rightarrow> db \<Rightarrow> rec_warning list" where
  "archive_drift_warnings res scopes d =
     concat (map (\<lambda>scope.
       map (\<lambda>p. if tk_archived p then WarnArchiveNonTerminal p else WarnArchiveTerminalAtRoot p)
         (archive_drift scope (terminal_names (custom_statuses (result_schema res scope))) d)) scopes)"

definition integrity_warnings :: "rec_result \<Rightarrow> string list \<Rightarrow> db \<Rightarrow> rec_warning list" where
  "integrity_warnings res scopes d =
     (if length scopes = 0 then []
      else map (\<lambda>c. WarnDuplicate (cg_key c) (cg_members c)) (duplicate_ids scopes d) @
           map (\<lambda>c. WarnEqualOrder (cg_scope c) (cg_key c) (cg_members c)) (equal_orders scopes d) @
           archive_drift_warnings res scopes d)"

definition append_aggregates :: "string list \<Rightarrow> db \<Rightarrow> rec_result \<Rightarrow> rec_result" where
  "append_aggregates scopes d res =
     res\<lparr>rr_warnings := rr_warnings res @ parse_error_warnings scopes d @ integrity_warnings res scopes d\<rparr>"

definition reconcile :: "rec_env \<Rightarrow> look \<Rightarrow> int \<Rightarrow> (string \<times> string) list \<Rightarrow> string set \<Rightarrow> db \<Rightarrow> (rec_error + rec_result) \<times> db" where
  "reconcile E look now targets registered d =
     (case reconcile_rows E look now targets registered d of
        (Inl e, d') \<Rightarrow> (Inl e, d')
      | (Inr (res, reconciled), d') \<Rightarrow> (Inr (append_aggregates reconciled d' res), d'))"

section \<open>The closure walk\<close>

definition add_targets :: "(string \<times> string) list \<Rightarrow> string set \<Rightarrow> string list \<Rightarrow> (string \<times> string) list \<Rightarrow> (string \<times> string) list" where
  "add_targets reg done toScopes targets =
     fold (\<lambda>to ts. case map_of reg to of
                     Some dir \<Rightarrow> if to \<in> done then ts else AList.update to dir ts
                   | None \<Rightarrow> ts) toScopes targets"

lemma add_targets_keys:
  "fst ` set targets \<subseteq> fst ` set (add_targets reg done toScopes targets)"
  "fst ` set (add_targets reg done toScopes targets) \<subseteq> fst ` set targets \<union> (set toScopes \<inter> fst ` set reg - done)"
proof -
  have "fst ` set targets \<subseteq> fst ` set (add_targets reg done toScopes targets) \<and>
      fst ` set (add_targets reg done toScopes targets) \<subseteq> fst ` set targets \<union> (set toScopes \<inter> fst ` set reg - done)"
    unfolding add_targets_def
  proof (induction toScopes arbitrary: targets)
    case (Cons to toScopes)
    have "fst ` set (case map_of reg to of Some dir \<Rightarrow> if to \<in> done then targets else AList.update to dir targets | None \<Rightarrow> targets) =
        (if map_of reg to \<noteq> None \<and> to \<notin> done then insert to (fst ` set targets) else fst ` set targets)"
      by (auto simp: dom_update split: option.split)
    moreover have "map_of reg to \<noteq> None \<Longrightarrow> to \<in> fst ` set reg" by (simp add: map_of_eq_None_iff)
    ultimately show ?case
      using Cons.IH [of "case map_of reg to of Some dir \<Rightarrow> if to \<in> done then targets else AList.update to dir targets | None \<Rightarrow> targets"]
      by (auto split: if_splits)
  qed simp
  then show "fst ` set targets \<subseteq> fst ` set (add_targets reg done toScopes targets)"
    "fst ` set (add_targets reg done toScopes targets) \<subseteq> fst ` set targets \<union> (set toScopes \<inter> fst ` set reg - done)"
    by blast+
qed

lemma walk_shrinks:
  assumes "filter (\<lambda>(name, dir). name \<notin> done) targets \<noteq> []"
    and "done' = done \<union> fst ` set (filter (\<lambda>(name, dir). name \<notin> done) targets)"
  shows "card (fst ` set (add_targets reg done' toScopes targets) \<union> fst ` set reg - done') <
    card (fst ` set targets \<union> fst ` set reg - done)"
proof (rule psubset_card_mono [OF _ psubsetI])
  obtain name dir where p: "(name, dir) \<in> set targets" "name \<notin> done"
    using assms(1) by (auto simp: filter_empty_conv)
  show "fst ` set (add_targets reg done' toScopes targets) \<union> fst ` set reg - done' \<subseteq> fst ` set targets \<union> fst ` set reg - done"
    using add_targets_keys(2) [of reg done' toScopes targets] assms(2) by blast
  have "name \<in> done'" using p assms(2) by force
  moreover have "name \<in> fst ` set targets \<union> fst ` set reg - done" using p by force
  ultimately show "fst ` set (add_targets reg done' toScopes targets) \<union> fst ` set reg - done' \<noteq> fst ` set targets \<union> fst ` set reg - done"
    by blast
qed simp

function closure_walk ::
    "rec_env \<Rightarrow> look \<Rightarrow> int \<Rightarrow> (string \<times> string) list \<Rightarrow> (string \<times> string) list \<Rightarrow> string set \<Rightarrow> rec_result \<Rightarrow> string list \<Rightarrow> db \<Rightarrow>
     (rec_error + rec_result \<times> string list \<times> (string \<times> string) list) \<times> db" where
  "closure_walk E look now reg targets done merged reconciled d =
     (let pending = filter (\<lambda>(name, dir). name \<notin> done) targets in
      if pending = [] then (Inr (merged, reconciled, targets), d)
      else case reconcile_rows E look now pending (fst ` set reg) d of
             (Inl e, d') \<Rightarrow> (Inl e, d')
           | (Inr (res, batch), d') \<Rightarrow>
               let done' = done \<union> fst ` set pending in
               closure_walk E look now reg (add_targets reg done' (depends_target_scopes batch d') targets) done'
                 (merge_result merged res) (reconciled @ batch) d')"
  by pat_completeness auto

termination
proof (relation "measure (\<lambda>(E, look, now, reg, targets, done, merged, reconciled, d).
    card (fst ` set targets \<union> fst ` set reg - done))", goal_cases)
  case 2
  then show ?case using walk_shrinks by auto
qed simp

declare closure_walk.simps [simp del]

definition reconcile_closure ::
    "rec_env \<Rightarrow> look \<Rightarrow> (string \<times> string) list \<Rightarrow> string \<Rightarrow> string \<Rightarrow> int \<Rightarrow> db \<Rightarrow> (rec_error + rec_result \<times> string list) \<times> db" where
  "reconcile_closure E look reg ambient dir now d =
     (case closure_walk E look now reg [(ambient, dir)] {} new_result [] d of
        (Inl e, d') \<Rightarrow> (Inl e, d')
      | (Inr (merged, reconciled, targets), d') \<Rightarrow>
          (Inr (append_aggregates reconciled d' merged, map fst targets), d'))"

section \<open>A pass touches its own scope only\<close>

text \<open>A row or an edge is filed in the scope whose prefix its file name bears.\<close>

definition filed :: "string \<Rightarrow> string \<Rightarrow> bool" where
  "filed scope path \<longleftrightarrow> CHR ''-'' \<notin> set scope \<and> ticket_id scope (path_base path) \<noteq> None"

lemma filed_shape: "filed s p \<Longrightarrow> CHR ''-'' \<notin> set s \<and> (\<exists>x. path_base p = s @ CHR ''-'' # x)"
  by (auto simp: filed_def ticket_id_def Let_def prefix_def cut_suffix_Some split: option.splits if_splits)

lemma filed_unique:
  assumes "filed s p" "filed s' p"
  shows "s = s'"
proof -
  from filed_shape [OF assms(1)] obtain x where x: "CHR ''-'' \<notin> set s" "path_base p = s @ CHR ''-'' # x" by blast
  from filed_shape [OF assms(2)] obtain y where y: "CHR ''-'' \<notin> set s'" "path_base p = s' @ CHR ''-'' # y" by blast
  from split_at_sep [OF x(1) y(1), of x y] x(2) y(2) show ?thesis by simp
qed

definition homed :: "db \<Rightarrow> bool" where
  "homed d \<longleftrightarrow>
     (\<forall>x \<in> set (db_tickets d). filed (tk_scope (snd x)) (tk_path (snd x))) \<and>
     (\<forall>e \<in> set (db_edges d). e_kind e \<in> {edge_depends, edge_related} \<longrightarrow> filed (e_from_scope e) (e_from_path e))"

text \<open>The scopes that the depends edges of a scope point to.\<close>

definition depends_to :: "db \<Rightarrow> string \<Rightarrow> string set" where
  "depends_to d scope = e_to_scope ` {e \<in> set (db_edges d). e_kind e = edge_depends \<and> e_from_scope e = scope}"

lemma depends_target_scopes_set: "set (depends_target_scopes scopes d) = (\<Union>s \<in> set scopes. depends_to d s)"
  by (auto simp: depends_target_scopes_def depends_to_def)

fun op_filed :: "string \<Rightarrow> write_op \<Rightarrow> bool" where
  "op_filed name (WUpsertTicket p es) \<longleftrightarrow>
     tk_scope p = name \<and> filed name (tk_path p) \<and> (\<forall>e \<in> set es. e_from_scope e = name)"
| "op_filed name (WDeleteByPath path) \<longleftrightarrow> filed name path"
| "op_filed name _ \<longleftrightarrow> True"

text \<open>What two indexes agree on outside one scope.\<close>

definition same_beyond :: "string \<Rightarrow> db \<Rightarrow> db \<Rightarrow> bool" where
  "same_beyond name d d' \<longleftrightarrow> homed d' \<and> db_ok d' \<and> (\<forall>s. s \<noteq> name \<longrightarrow> depends_to d' s = depends_to d s)"

lemma same_beyond_trans: "same_beyond name d d1 \<Longrightarrow> same_beyond name d1 d2 \<Longrightarrow> same_beyond name d d2"
  by (simp add: same_beyond_def)

lemma depends_to_eqI:
  assumes "\<And>e. e_kind e = edge_depends \<Longrightarrow> e_from_scope e = s \<Longrightarrow> e \<in> set (db_edges d') \<longleftrightarrow> e \<in> set (db_edges d)"
  shows "depends_to d' s = depends_to d s"
  using assms by (auto simp: depends_to_def)

lemma op_same_beyond:
  assumes ok: "db_ok d" and h: "homed d" and w: "op_ok w" "op_filed name w" and run: "run_op w d = Inr d'"
  shows "same_beyond name d d'"
proof -
  have ok': "db_ok d'" using run_op_ok [OF ok w(1)] run by simp
  have own: "\<not> owned_by_ticket p e" if "filed name p" "e \<in> set (db_edges d)" "e_from_scope e \<noteq> name" for p e
    using that h filed_unique [of name p "e_from_scope e"] by (auto simp: homed_def owned_by_ticket_def)
  consider (same) "d' = d" | (ticket) p es where "w = WUpsertTicket p es"
      "set (db_tickets d') \<subseteq> set (db_tickets d) \<union> {x. snd x = stored_ticket p}"
      "db_edges d' = filter (\<lambda>e. \<not> owned_by_ticket (tk_path p) e) (db_edges d) @ unique_edges es"
    | (drop) path where "w = WDeleteByPath path" "set (db_tickets d') \<subseteq> set (db_tickets d)"
      "db_edges d' = filter (\<lambda>e. \<not> owned_by_ticket path e) (db_edges d)"
    | (design) "db_tickets d' = db_tickets d"
      "\<And>e. e_kind e \<noteq> edge_produces \<Longrightarrow> e \<in> set (db_edges d') \<longleftrightarrow> e \<in> set (db_edges d)"
  proof (cases w)
    case (WUpsertTicket p es)
    show ?thesis
    proof (cases "stored_mtime_newer tk_path tk_mtime (tk_path p) (tk_mtime p) (db_tickets d)")
      case True
      then show ?thesis using run same by (simp add: WUpsertTicket upsert_ticket_with_edges_tx_def)
    next
      case False
      have "from_file (tk_path p) {edge_depends, edge_related} es" using w WUpsertTicket by simp
      from upsert_ticket_run [OF ok this False] obtain i where r: "upsert_ticket_with_edges_tx p es d =
       Inr (d\<lparr>db_tickets := upsert_row tk_path (stored_ticket p) (db_tickets d),
              db_fts := fts_put i (tk_title p) (tk_body p) (db_fts d),
              db_tags := filter (\<lambda>(path, _). path \<noteq> tk_path p) (db_tags d) @
                map (Pair (tk_path p)) (unique_tags (tk_tags p)),
              db_edges := filter (\<lambda>e. \<not> owned_by_ticket (tk_path p) e) (db_edges d) @ unique_edges es\<rparr>)" by blast
      have "set (upsert_row tk_path (stored_ticket p) rows) \<subseteq> set rows \<union> {x. snd x = stored_ticket p}" for rows
        by (auto simp: upsert_row_cases replace_row_def)
      with r run show ?thesis using ticket WUpsertTicket by auto
    qed
  next
    case (WDeleteByPath path)
    show ?thesis
    proof (cases "row_at tk_path path (db_tickets d)")
      case None
      then show ?thesis using run same by (simp add: WDeleteByPath delete_by_path_tx_def)
    next
      case (Some x)
      then show ?thesis using run drop WDeleteByPath by (cases x) (auto simp: delete_by_path_tx_def)
    qed
  next
    case (WUpsertDesign p es)
    show ?thesis
    proof (cases "stored_mtime_newer ds_path ds_mtime (ds_path p) (ds_mtime p) (db_designs d)")
      case True
      then show ?thesis using run same by (simp add: WUpsertDesign upsert_design_with_edges_tx_def)
    next
      case False
      have es: "from_file (ds_path p) {edge_produces} es" using w WUpsertDesign by simp
      from upsert_design_run [OF ok es False] obtain i where "upsert_design_with_edges_tx p es d =
         Inr (d\<lparr>db_designs := upsert_row ds_path (stored_design p) (db_designs d),
              db_design_fts := fts_put i (ds_title p) (ds_body p) (db_design_fts d),
              db_edges := filter (\<lambda>e. \<not> owned_by_design (ds_path p) e) (db_edges d) @ unique_edges es\<rparr>)" by blast
      then have d': "d' = d\<lparr>db_designs := upsert_row ds_path (stored_design p) (db_designs d),
              db_design_fts := fts_put i (ds_title p) (ds_body p) (db_design_fts d),
              db_edges := filter (\<lambda>e. \<not> owned_by_design (ds_path p) e) (db_edges d) @ unique_edges es\<rparr>"
        using run WUpsertDesign by simp
      show ?thesis
        by (rule design) (use es unique_edges_distinct(2) [OF es] in \<open>auto simp: d' from_file_def owned_by_design_def\<close>)
    qed
  next
    case (WDeleteDesign path)
    show ?thesis
      by (rule design) (use run WDeleteDesign in \<open>auto simp: delete_design_by_path_tx_def owned_by_design_def split: option.splits\<close>)
  next
    case (WSetLastIndex s ns)
    show ?thesis by (rule design) (use run WSetLastIndex in \<open>auto simp: set_last_index_def\<close>)
  qed
  then show ?thesis
  proof cases
    case same
    then show ?thesis using ok h by (simp add: same_beyond_def)
  next
    case (ticket p es)
    have p: "tk_scope p = name" "filed name (tk_path p)" and es: "from_file (tk_path p) {edge_depends, edge_related} es"
        "\<And>e. e \<in> set es \<Longrightarrow> e_from_scope e = name"
      using w ticket(1) by simp_all
    note u = unique_edges_distinct(2) [OF es(1)]
    have "homed d'"
      using h ticket(2) p u es by (fastforce simp: homed_def ticket(3) stored_ticket_def from_file_def)
    moreover have "depends_to d' s = depends_to d s" if "s \<noteq> name" for s
      by (rule depends_to_eqI) (use that own p(2) u es(2) in \<open>auto simp: ticket(3)\<close>)
    ultimately show ?thesis using ok' by (simp add: same_beyond_def)
  next
    case (drop path)
    have p: "filed name path" using w drop(1) by simp
    have "homed d'" using h drop(2) by (auto simp: homed_def drop(3))
    moreover have "depends_to d' s = depends_to d s" if "s \<noteq> name" for s
      by (rule depends_to_eqI) (use that own p in \<open>auto simp: drop(3)\<close>)
    ultimately show ?thesis using ok' by (simp add: same_beyond_def)
  next
    case design
    have "homed d'" using h design by (auto simp: homed_def)
    moreover have "depends_to d' s = depends_to d s" for s
      by (rule depends_to_eqI) (use design(2) in auto)
    ultimately show ?thesis using ok' by (simp add: same_beyond_def)
  qed
qed

lemma ops_same_beyond:
  "db_ok d \<Longrightarrow> homed d \<Longrightarrow> list_all op_ok ws \<Longrightarrow> list_all (op_filed name) ws \<Longrightarrow> run_ops ws d = Inr d' \<Longrightarrow>
     same_beyond name d d'"
proof (induction ws arbitrary: d)
  case Nil
  then show ?case by (simp add: same_beyond_def)
next
  case (Cons w ws)
  then obtain d1 where d1: "run_op w d = Inr d1" "run_ops ws d1 = Inr d'" by (auto simp: early_return)
  have s: "same_beyond name d d1" using op_same_beyond [of d w name d1] Cons d1 by simp
  moreover have "same_beyond name d1 d'"
    by (rule Cons.IH) (use s Cons.prems d1(2) in \<open>simp_all add: same_beyond_def\<close>)
  ultimately show ?case by (rule same_beyond_trans)
qed

lemma collect_dir_filed:
  assumes "collect_dir k scope root archived = Some files" "(p, st) \<in> set files" "CHR ''-'' \<notin> set scope"
  shows "filed scope p"
proof -
  obtain names n where "read_dir k root = Some names" "n \<in> set names" and n: "stat_name k scope root archived n = Some (p, st)"
    using assms(1,2) by (auto simp: collect_dir_def mem_map_filter)
  then have "slashless n" by (auto simp: read_dir_def split: if_splits)
  with n assms(3) show ?thesis by (auto simp: stat_name_Some filed_def)
qed

lemma stat_scope_filed:
  "stat_scope k scope dir = Some files \<Longrightarrow> (p, st) \<in> set files \<Longrightarrow> CHR ''-'' \<notin> set scope \<Longrightarrow> filed scope p"
  by (auto simp: stat_scope_def split: option.splits intro: collect_dir_filed)

lemma edges_of_list_scope: "e \<in> set (edges_of_list b ts kind) \<Longrightarrow> e_from_scope e = tk_scope b"
  by (auto simp: edges_of_list_def)

lemma parse_file_edges_scope:
  assumes "parse_file E path scope full archived mtime sz data = (p, es)" "e \<in> set es"
  shows "e_from_scope e = scope"
proof -
  obtain interior body present where sp: "split_fence data = (interior, body, present)" by (cases "split_fence data")
  let ?b = "blank_ticket path scope full archived mtime sz body"
  from assms obtain m where "index_from_model ?b m = (p, es)"
    by (auto simp: parse_file_def sp Let_def split: if_splits sum.splits)
  then have "es = fst (edges_from (model_row ?b m) m)" by (auto simp: index_from_model_def Let_def case_prod_unfold)
  with assms(2) have "e_from_scope e = tk_scope (model_row ?b m)" by (auto simp: edges_from_def dest: edges_of_list_scope)
  then show ?thesis by (simp add: model_row_def Let_def blank_ticket_def)
qed

lemma scope_ops_filed:
  assumes h: "homed d" and files: "stat_scope kList name dir = Some files" and nh: "CHR ''-'' \<notin> set name"
  shows "list_all (op_filed name) (apply_scope_write name now stat files (scope_rows name d) (ticket_pending E name kRead d files))"
proof -
  have up: "filed name path \<and> op_filed name (WUpsertTicket p es)"
    if m: "(path, p, es) \<in> set (ticket_pending E name kRead d files)" for path p es
  proof -
    obtain st :: stat_entry and f :: regfile where st: "(path, st) \<in> set files"
      and pf: "(p, es) = parse_file E path name (se_full_id st) (se_archived st) (se_mtime st) (se_size st) (f_data f)"
      using pending_mem [OF m] by (elim exE conjE) (rule that)
    have "filed name path" by (rule stat_scope_filed [OF files st nh])
    then show ?thesis using parse_file_row(1) [OF pf [symmetric]] parse_file_edges_scope [OF pf [symmetric]] by simp
  qed
  have ex: "filed name path" if "(path, r) \<in> set (scope_rows name d)" for path r
    using that h by (auto simp: scope_rows_def homed_def)
  show ?thesis
    unfolding apply_scope_write_def list_all_iff
    using up ex by (auto simp: mem_scope_write_ops simp del: op_filed.simps(1))
qed

lemma design_ops_filed: "list_all (op_filed name) (apply_design_write stat files existing upserts)"
  unfolding apply_design_write_def list_all_iff by (auto simp: mem_scope_write_ops)

lemma reconcile_scope_beyond:
  assumes ok: "db_ok d" and h: "homed d" and nh: "CHR ''-'' \<notin> set name"
    and run: "reconcile_scope E name dir now kList kRead stat d = Inr (reached, d')"
  shows "same_beyond name d d'"
proof (cases "stat_scope kList name dir")
  case None
  then show ?thesis using run ok h by (simp add: reconcile_scope_def same_beyond_def)
next
  case (Some files)
  then obtain ds where ds: "stat_designs kList name dir = Inr ds"
    using run by (auto simp: reconcile_scope_def early_return)
  let ?T = "apply_scope_write name now stat files (scope_rows name d) (ticket_pending E name kRead d files)"
  let ?D = "apply_design_write stat ds (scope_design_rows name d) (design_pending E name kRead d ds)"
  have "list_all op_ok ?T" by (rule scope_ops_ok, rule ticket_pending_mem(2))
  moreover have "list_all op_ok ?D" by (rule design_ops_ok, rule design_pending_mem)
  ultimately have ops: "list_all op_ok (?D @ ?T)" by simp
  obtain d2 where r: "run_ops (?D @ ?T) d = Inr d2" using run_ops_ok [OF ok ops] by blast
  then have "d2 = d'" using run by (simp add: reconcile_scope_def Some ds run_scope_write_def Let_def)
  with ops_same_beyond [OF ok h ops _ r, of name] scope_ops_filed [OF h Some nh] design_ops_filed [of name]
  show ?thesis by simp
qed

lemma delete_scope_beyond:
  assumes ok: "db_ok d" and h: "homed d"
  shows "same_beyond scope d (delete_scope scope d)"
proof -
  have sub: "set (db_tickets (delete_scope scope d)) \<subseteq> set (db_tickets d)" "set (db_edges (delete_scope scope d)) \<subseteq> set (db_edges d)"
    by (auto simp: delete_scope_def Let_def)
  then have "homed (delete_scope scope d)" using h unfolding homed_def by blast
  moreover have "depends_to (delete_scope scope d) s = depends_to d s" if s: "s \<noteq> scope" for s
  proof (rule depends_to_eqI)
    fix e :: edge
    assume e: "e_kind e = edge_depends" "e_from_scope e = s"
    have "\<not> owned_by_ticket (tk_path (snd x)) e"
      if "x \<in> set (db_tickets d)" "tk_scope (snd x) = scope" "e \<in> set (db_edges d)" for x
      using that h e s filed_unique [of scope "tk_path (snd x)" s] by (auto simp: homed_def owned_by_ticket_def)
    then show "e \<in> set (db_edges (delete_scope scope d)) \<longleftrightarrow> e \<in> set (db_edges d)"
      using e s by (force simp: delete_scope_def Let_def owned_by_design_def)
  qed
  ultimately show ?thesis using delete_scope_ok [OF ok] by (simp add: same_beyond_def)
qed

text \<open>The same for a set of scopes.\<close>

definition same_outside :: "string set \<Rightarrow> db \<Rightarrow> db \<Rightarrow> bool" where
  "same_outside S d d' \<longleftrightarrow> homed d' \<and> db_ok d' \<and> (\<forall>s. s \<notin> S \<longrightarrow> depends_to d' s = depends_to d s)"

lemma same_outside_step: "same_outside S d d1 \<Longrightarrow> same_beyond name d1 d2 \<Longrightarrow> same_outside (insert name S) d d2"
  by (simp add: same_outside_def same_beyond_def)

lemma prune_outside:
  assumes "db_ok d" "homed d"
  shows "same_outside (- registered) d (prune_forgotten registered d)"
proof -
  have "same_outside (- registered) d (fold (\<lambda>scope d. if scope \<in> registered then d else delete_scope scope d) xs d')"
    if "same_outside (- registered) d d'" for xs d'
    using that
  proof (induction xs arbitrary: d')
    case (Cons x xs)
    have "same_outside (- registered) d (if x \<in> registered then d' else delete_scope x d')"
      using Cons.prems delete_scope_beyond [of d' x] by (auto simp: same_outside_def same_beyond_def)
    then show ?case using Cons.IH by simp
  qed simp
  then show ?thesis using assms by (simp add: prune_forgotten_def same_outside_def)
qed

lemma reconcile_names_outside:
  assumes "reconcile_names E look now targets res done d = (Inr (res', done'), d')" "db_ok d" "homed d"
    and "\<forall>name \<in> fst ` set targets. CHR ''-'' \<notin> set name"
  shows "same_outside (fst ` set targets) d d' \<and>
    (\<exists>batch. done' = done @ batch \<and> set batch \<union> rr_unreachable res' = fst ` set targets \<union> rr_unreachable res \<and>
       dom (rr_schemas res') = dom (rr_schemas res) \<union> set batch)"
  using assms
proof (induction targets arbitrary: res "done" d)
  case Nil
  then show ?case by (simp add: same_outside_def)
next
  case (Cons x targets)
  obtain name dir where x: "x = (name, dir)" by (cases x)
  obtain kList kRead stat where lk: "look name = (kList, kRead, stat)" by (cases "look name")
  obtain reached d1 where run: "reconcile_scope E name dir now kList kRead stat d = Inr (reached, d1)"
    using Cons.prems(1) by (auto simp: x lk split: sum.splits)
  have s1: "same_beyond name d d1" using reconcile_scope_beyond [OF Cons.prems(2,3) _ run] Cons.prems(4) by (simp add: x)
  then have d1: "db_ok d1" "homed d1" by (simp_all add: same_beyond_def)
  have tail: "\<forall>name \<in> fst ` set targets. CHR ''-'' \<notin> set name" using Cons.prems(4) by (simp add: x)
  have lift: "same_outside (fst ` set targets) d1 d' \<Longrightarrow> same_outside (fst ` set (x # targets)) d d'"
    using s1 by (simp add: same_outside_def same_beyond_def x)
  show ?case
  proof (cases reached)
    case False
    with Cons.prems(1) run have r: "reconcile_names E look now targets
            (res\<lparr>rr_unreachable := insert name (rr_unreachable res),
                 rr_warnings := rr_warnings res @ [WarnUnreachable name dir]\<rparr>) done d1 = (Inr (res', done'), d')"
      by (simp add: x lk)
    from Cons.IH [OF this d1 tail] lift show ?thesis by (auto simp: x)
  next
    case True
    obtain schema cfgErr where sc: "schema_or_error E dir = (schema, cfgErr)" by fastforce
    define res1 where "res1 = (case cfgErr of None \<Rightarrow> res\<lparr>rr_schemas := (rr_schemas res)(name \<mapsto> schema)\<rparr>
        | Some reason \<Rightarrow> res\<lparr>rr_schemas := (rr_schemas res)(name \<mapsto> schema),
            rr_config_errs := (rr_config_errs res)(name \<mapsto> reason),
            rr_warnings := rr_warnings res @ [WarnConfig name reason]\<rparr>)"
    have u: "rr_unreachable res1 = rr_unreachable res" "dom (rr_schemas res1) = insert name (dom (rr_schemas res))" by (cases cfgErr; simp add: res1_def)+
    have r: "reconcile_names E look now targets res1 (done @ [name]) d1 = (Inr (res', done'), d')"
      using Cons.prems(1) run True by (simp add: x lk sc res1_def)
    from Cons.IH [OF r d1 tail] lift u show ?thesis by (auto simp: x)
  qed
qed

lemma reconcile_rows_outside:
  assumes "reconcile_rows E look now targets registered d = (Inr (res, batch), d')" "db_ok d" "homed d"
    and "\<forall>name \<in> fst ` set targets. CHR ''-'' \<notin> set name"
  shows "same_outside (fst ` set targets \<union> - registered) d d'" and "set batch \<union> rr_unreachable res = fst ` set targets"
    and "dom (rr_schemas res) = set batch"
proof -
  note p = prune_outside [OF assms(2,3), of registered]
  have "same_outside (fst ` set (sort_key fst targets)) (prune_forgotten registered d) d' \<and>
    (\<exists>b. batch = [] @ b \<and> set b \<union> rr_unreachable res = fst ` set (sort_key fst targets) \<union> rr_unreachable new_result \<and>
       dom (rr_schemas res) = dom (rr_schemas new_result) \<union> set b)"
    by (rule reconcile_names_outside [OF assms(1) [unfolded reconcile_rows_def]])
      (use p assms(4) in \<open>auto simp: same_outside_def\<close>)
  then show "same_outside (fst ` set targets \<union> - registered) d d'" "set batch \<union> rr_unreachable res = fst ` set targets"
      "dom (rr_schemas res) = set batch"
    using p by (auto simp: same_outside_def new_result_def)
qed

section \<open>The scopes a closure reads\<close>

text \<open>The depends edges from scopes that were read into registered ones.\<close>

definition scope_edges :: "(string \<times> string) list \<Rightarrow> string set \<Rightarrow> db \<Rightarrow> (string \<times> string) set" where
  "scope_edges reg readScopes d = {(s, t). s \<in> readScopes \<and> t \<in> depends_to d s \<and> t \<in> fst ` set reg}"

definition walk_inv ::
    "(string \<times> string) list \<Rightarrow> string \<Rightarrow> (string \<times> string) list \<Rightarrow> string set \<Rightarrow> rec_result \<Rightarrow> string list \<Rightarrow> db \<Rightarrow> bool" where
  "walk_inv reg ambient targets done merged reconciled d \<longleftrightarrow>
     db_ok d \<and> homed d \<and> ambient \<in> fst ` set targets \<and> fst ` set targets \<subseteq> fst ` set reg \<and> done \<subseteq> fst ` set targets \<and>
     set reconciled \<union> rr_unreachable merged = done \<and> dom (rr_schemas merged) = set reconciled \<and>
     (\<forall>(s, t) \<in> scope_edges reg (set reconciled) d. t \<in> fst ` set targets) \<and>
     (\<forall>t \<in> fst ` set targets. (ambient, t) \<in> (scope_edges reg (set reconciled) d)\<^sup>*)"

lemma add_targets_found: "t \<in> set toScopes \<Longrightarrow> t \<in> fst ` set reg \<Longrightarrow> t \<notin> done \<Longrightarrow>
    t \<in> fst ` set (add_targets reg done toScopes targets)"
proof (induction toScopes arbitrary: targets)
  case (Cons x xs)
  let ?ts = "case map_of reg x of Some dir \<Rightarrow> if x \<in> done then targets else AList.update x dir targets | None \<Rightarrow> targets"
  have eq: "add_targets reg done (x # xs) targets = add_targets reg done xs ?ts" by (simp add: add_targets_def)
  show ?case
  proof (cases "t = x")
    case True
    then obtain dir where "map_of reg x = Some dir" using Cons.prems(2) by (metis domD dom_map_of_conv_image_fst)
    with True Cons.prems(3) have "t \<in> fst ` set ?ts" by (simp add: dom_update)
    then show ?thesis unfolding eq using add_targets_keys(1) [of ?ts reg "done" xs] by blast
  next
    case False
    with Cons show ?thesis unfolding eq by simp
  qed
qed simp

lemma walk_step:
  assumes inv: "walk_inv reg ambient targets done merged reconciled d"
    and nh: "\<forall>name \<in> fst ` set reg. CHR ''-'' \<notin> set name"
    and pending: "pending = filter (\<lambda>(name, dir). name \<notin> done) targets"
    and run: "reconcile_rows E look now pending (fst ` set reg) d = (Inr (res, batch), d')"
    and done': "done' = done \<union> fst ` set pending"
  shows "walk_inv reg ambient (add_targets reg done' (depends_target_scopes batch d') targets) done'
    (merge_result merged res) (reconciled @ batch) d'"
proof -
  let ?new = "add_targets reg done' (depends_target_scopes batch d') targets"
  have pend: "fst ` set pending = fst ` set targets - done" by (force simp: pending)
  have "fst ` set targets \<subseteq> fst ` set reg" using inv by (simp add: walk_inv_def)
  then have "fst ` set pending \<subseteq> fst ` set reg" unfolding pend by (rule order_trans [OF Diff_subset])
  with nh have "\<forall>name \<in> fst ` set pending. CHR ''-'' \<notin> set name" by (meson subsetD)
  note rows = reconcile_rows_outside [OF run _ _ this]
  have ok: "db_ok d" "homed d" using inv by (simp_all add: walk_inv_def)
  note out = rows(1) [OF ok] and batch = rows(2) [OF ok] and schemas = rows(3) [OF ok]
  have keep: "depends_to d' s = depends_to d s" if "s \<in> set reconciled" for s
  proof -
    have "s \<in> done" "done \<subseteq> fst ` set targets" "fst ` set targets \<subseteq> fst ` set reg"
      using inv that unfolding walk_inv_def by blast+
    then have "s \<notin> fst ` set pending \<union> - fst ` set reg" unfolding pend by blast
    with out show ?thesis unfolding same_outside_def by blast
  qed
  have mono: "scope_edges reg (set reconciled) d \<subseteq> scope_edges reg (set (reconciled @ batch)) d'"
    using keep by (auto simp: scope_edges_def)
  have keys: "fst ` set targets \<subseteq> fst ` set ?new"
    "fst ` set ?new \<subseteq> fst ` set targets \<union> (set (depends_target_scopes batch d') \<inter> fst ` set reg - done')"
    by (rule add_targets_keys)+
  have closed: "t \<in> fst ` set ?new" if "(s, t) \<in> scope_edges reg (set (reconciled @ batch)) d'" for s t
  proof (cases "s \<in> set reconciled")
    case True
    with that keep have "(s, t) \<in> scope_edges reg (set reconciled) d" by (auto simp: scope_edges_def)
    then show ?thesis using inv keys(1) by (auto simp: walk_inv_def)
  next
    case False
    with that have t: "t \<in> set (depends_target_scopes batch d')" "t \<in> fst ` set reg"
      by (auto simp: scope_edges_def depends_target_scopes_set)
    show ?thesis
    proof (cases "t \<in> done'")
      case True
      then show ?thesis using done' pend inv keys(1) by (auto simp: walk_inv_def)
    next
      case False
      then show ?thesis using add_targets_found [OF t] by blast
    qed
  qed
  have reach: "(ambient, t) \<in> (scope_edges reg (set (reconciled @ batch)) d')\<^sup>*" if "t \<in> fst ` set ?new" for t
  proof -
    have old: "(ambient, u) \<in> (scope_edges reg (set (reconciled @ batch)) d')\<^sup>*" if "u \<in> fst ` set targets" for u
      using inv that rtrancl_mono [OF mono] by (auto simp: walk_inv_def)
    from that keys(2) consider "t \<in> fst ` set targets" | "t \<in> set (depends_target_scopes batch d')" "t \<in> fst ` set reg" by blast
    then show ?thesis
    proof cases
      case 2
      then obtain s where s: "s \<in> set batch" "t \<in> depends_to d' s" by (auto simp: depends_target_scopes_set)
      have "s \<in> fst ` set targets" using s(1) batch unfolding pend by blast
      from rtrancl_into_rtrancl [OF old [OF this]] have
        "(s, t) \<in> scope_edges reg (set (reconciled @ batch)) d' \<Longrightarrow> ?thesis" .
      moreover have "(s, t) \<in> scope_edges reg (set (reconciled @ batch)) d'" using s 2(2) by (simp add: scope_edges_def)
      ultimately show ?thesis by blast
    qed (rule old)
  qed
  have "done' \<subseteq> fst ` set ?new" using inv keys(1) done' pend by (auto simp: walk_inv_def)
  moreover have "fst ` set ?new \<subseteq> fst ` set reg"
    using keys(2) inv [unfolded walk_inv_def, THEN conjunct2, THEN conjunct2, THEN conjunct2, THEN conjunct1] by blast
  moreover have "ambient \<in> fst ` set ?new"
    using keys(1) inv [unfolded walk_inv_def, THEN conjunct2, THEN conjunct2, THEN conjunct1] by blast
  moreover have "set (reconciled @ batch) \<union> rr_unreachable (merge_result merged res) = done'"
    using inv batch done' by (auto simp: walk_inv_def merge_result_def)
  moreover have "dom (rr_schemas (merge_result merged res)) = set (reconciled @ batch)"
    using inv schemas by (auto simp: walk_inv_def merge_result_def)
  moreover have "db_ok d'" "homed d'" using out by (simp_all add: same_outside_def)
  moreover have "\<forall>(s, t) \<in> scope_edges reg (set (reconciled @ batch)) d'. t \<in> fst ` set ?new"
    by (intro ballI, clarify, rule closed)
  ultimately show ?thesis
    using reach unfolding walk_inv_def by (intro conjI ballI) simp_all
qed

lemma closure_walk_inv:
  assumes "closure_walk E look now reg targets done merged reconciled d = (Inr (m, rs, ts), d')"
    and "walk_inv reg ambient targets done merged reconciled d" and "\<forall>name \<in> fst ` set reg. CHR ''-'' \<notin> set name"
  shows "walk_inv reg ambient ts (fst ` set ts) m rs d'"
  using assms
proof (induction E look now reg targets "done" merged reconciled d rule: closure_walk.induct)
  case (1 E look now reg targets "done" merged reconciled d)
  let ?p = "filter (\<lambda>(name, dir). name \<notin> done) targets"
  note walk = 1(2) [unfolded closure_walk.simps [of E look now reg targets "done" merged reconciled d]]
  show ?case
  proof (cases "?p = []")
    case True
    with walk have eq: "m = merged" "rs = reconciled" "ts = targets" "d' = d" by simp_all
    have "fst ` set targets \<subseteq> done" using True by (force simp: filter_empty_conv)
    then have "done = fst ` set targets" using 1(3) by (auto simp: walk_inv_def)
    with 1(3) eq show ?thesis by simp
  next
    case False
    obtain r d1 where run: "reconcile_rows E look now ?p (fst ` set reg) d = (r, d1)" by fastforce
    obtain res batch where r: "r = Inr (res, batch)"
      using walk False run by (auto simp: Let_def split: sum.splits)
    have step: "walk_inv reg ambient (add_targets reg (done \<union> fst ` set ?p) (depends_target_scopes batch d1) targets)
        (done \<union> fst ` set ?p) (merge_result merged res) (reconciled @ batch) d1"
      by (rule walk_step [OF 1(3,4) refl run [unfolded r] refl])
    have "closure_walk E look now reg (add_targets reg (done \<union> fst ` set ?p) (depends_target_scopes batch d1) targets)
        (done \<union> fst ` set ?p) (merge_result merged res) (reconciled @ batch) d1 = (Inr (m, rs, ts), d')"
      using walk False run r by (simp add: Let_def)
    from 1(1) [OF refl False _ _ _ refl this step 1(4)] run r show ?thesis by auto
  qed
qed

text \<open>C19. The closure walk returns, and it reads exactly the scopes the ambient scope depends on: it ends for
  every registry and every index, cycles between scopes included, and the scopes it names are
  the ambient one and those that depends edges reach from it through scopes that could be read,
  as the final index has the edges, as far as they are registered.\<close>

theorem closure_exact:
  assumes ok: "db_ok d" "homed d" and nh: "\<forall>name \<in> fst ` set reg. CHR ''-'' \<notin> set name"
    and ambient: "ambient \<in> fst ` set reg"
    and run: "reconcile_closure E look reg ambient dir now d = (Inr (res, names), d')"
  shows "set names = {t. (ambient, t) \<in> (scope_edges reg (dom (rr_schemas res)) d')\<^sup>*} \<and>
    dom (rr_schemas res) \<union> rr_unreachable res = set names \<and> db_ok d'"
proof -
  obtain m rs ts where w: "closure_walk E look now reg [(ambient, dir)] {} new_result [] d = (Inr (m, rs, ts), d')"
    and res: "res = append_aggregates rs d' m" and names: "names = map fst ts"
    using run by (auto simp: reconcile_closure_def split: prod.splits sum.splits)
  have "walk_inv reg ambient [(ambient, dir)] {} new_result [] d"
    using ok ambient by (auto simp: walk_inv_def new_result_def scope_edges_def)
  from closure_walk_inv [OF w this nh] have inv: "walk_inv reg ambient ts (fst ` set ts) m rs d'" .
  have same: "rr_schemas res = rr_schemas m" "rr_unreachable res = rr_unreachable m" by (simp_all add: res append_aggregates_def)
  have "t \<in> fst ` set ts" if "(ambient, t) \<in> (scope_edges reg (set rs) d')\<^sup>*" for t
    using that by (induction rule: rtrancl_induct) (use inv in \<open>auto simp: walk_inv_def\<close>)
  then have "set names = {t. (ambient, t) \<in> (scope_edges reg (set rs) d')\<^sup>*}"
    using inv by (auto simp: names walk_inv_def)
  then show ?thesis using inv by (simp add: names same walk_inv_def)
qed

definition walk_reg :: "(string \<times> string) list" where
  "walk_reg = [(''app'', ''/s''), (''lib'', ''/gone'')]"

definition walk_db :: db where
  "walk_db = empty_db\<lparr>db_edges := [\<lparr>e_from_path = ''/s/app-abcd.md'', e_from_id = ''app-abcd'', e_from_scope = ''app'',
     e_to_id = ''lib-efgh'', e_to_scope = ''lib'', e_kind = edge_depends\<rparr>],
     db_tickets := [(1, fst (parse_file sample_env ''/s/app-abcd.md'' ''app'' ''app-abcd'' False 5 1 ''a''))],
     db_fts := [(1, [], ''a'')], db_meta := [(''app'', 7)]\<rparr>"

theorem closure_exact_witness:
  "\<exists>res names d'. reconcile_closure sample_env (\<lambda>_. (w_disk start_world, w_disk start_world, stat_of (w_disk start_world)))
      walk_reg ''app'' ''/s'' 9 walk_db = (Inr (res, names), d') \<and> set names = {''app'', ''lib''} \<and> db_ok d'"
proof -
  let ?run = "reconcile_closure sample_env (\<lambda>_. (w_disk start_world, w_disk start_world, stat_of (w_disk start_world)))
      walk_reg ''app'' ''/s'' 9 walk_db"
  have ok: "db_ok walk_db" "homed walk_db" "\<forall>name \<in> fst ` set walk_reg. CHR ''-'' \<notin> set name" "''app'' \<in> fst ` set walk_reg" by code_simp+
  have names: "case ?run of (Inr (res, names), d) \<Rightarrow> set names = {''app'', ''lib''} | _ \<Rightarrow> False" by code_simp
  then obtain res names d' where run: "?run = (Inr (res, names), d')" "set names = {''app'', ''lib''}"
    by (auto split: prod.splits sum.splits)
  from closure_exact [OF ok run(1)] run show ?thesis by blast
qed

end
