(* ===== verification/Logins.thy ===== *)
theory Logins
  imports Prelude
begin

text \<open>
  Signing in to tkv: the failed-login throttle (\<open>internal/tkv/throttle.go\<close>), session cookies, the
  gate in front of every handler and the login handler (\<open>internal/tkv/auth.go\<close>). Times and
  durations are nanoseconds, a time counted from Go's zero time. The parameters are HMAC-SHA256,
  the password verification (PBKDF2) and the user map that \<open>tkv.cue\<close> currently evaluates to.
\<close>

section \<open>The throttle\<close>

definition second :: int where "second = 1000000000"
definition backoff_base :: int where "backoff_base = 250000000"
definition backoff_cap :: int where "backoff_cap = 5 * second"
definition in_flight_retry :: int where "in_flight_retry = second"

definition backoff :: "int \<Rightarrow> int" where
  "backoff n = (if n \<le> 0 then 0 else if n > 6 then backoff_cap else min (backoff_base * 2 ^ nat (n - 1)) backoff_cap)"

record throttle =
  th_failures :: int
  th_in_flight :: bool
  th_until :: int

definition new_throttle :: throttle where
  "new_throttle = \<lparr>th_failures = 0, th_in_flight = False, th_until = 0\<rparr>"

definition admit :: "int \<Rightarrow> throttle \<Rightarrow> (bool \<times> int) \<times> throttle" where
  "admit now t =
     (if th_in_flight t then ((False, in_flight_retry), t)
      else if now < th_until t then ((False, th_until t - now), t)
      else ((True, 0), t\<lparr>th_in_flight := True, th_failures := th_failures t + 1\<rparr>))"

definition finish :: "int \<Rightarrow> bool \<Rightarrow> throttle \<Rightarrow> throttle" where
  "finish now success t =
     (if success then t\<lparr>th_in_flight := False, th_failures := 0, th_until := 0\<rparr>
      else t\<lparr>th_in_flight := False, th_until := now + backoff (th_failures t)\<rparr>)"

section \<open>Session cookies\<close>

text \<open>Unpadded URL-safe base64 of \<open>encoding/base64\<close>; its decoder skips line breaks.\<close>

definition url_alphabet :: string where
  "url_alphabet = ''ABCDEFGHIJKLMNOPQRSTUVWXYZabcdefghijklmnopqrstuvwxyz0123456789-_''"

abbreviation b64 :: "nat \<Rightarrow> char" where "b64 n \<equiv> url_alphabet ! n"

fun b64_encode_nat :: "nat list \<Rightarrow> string" where
  "b64_encode_nat [] = []"
| "b64_encode_nat [a] = [b64 (a div 4), b64 (a mod 4 * 16)]"
| "b64_encode_nat [a, b] = [b64 (a div 4), b64 (a mod 4 * 16 + b div 16), b64 (b mod 16 * 4)]"
| "b64_encode_nat (a # b # c # rest) =
     b64 (a div 4) # b64 (a mod 4 * 16 + b div 16) # b64 (b mod 16 * 4 + c div 64) # b64 (c mod 64) # b64_encode_nat rest"

fun b64_decode_nat :: "nat list \<Rightarrow> nat list option" where
  "b64_decode_nat [] = Some []"
| "b64_decode_nat [w] = None"
| "b64_decode_nat [w, x] = Some [w * 4 + x div 16]"
| "b64_decode_nat [w, x, y] = Some [w * 4 + x div 16, x mod 16 * 16 + y div 4]"
| "b64_decode_nat (w # x # y # z # rest) =
     map_option (\<lambda>r. (w * 4 + x div 16) # (x mod 16 * 16 + y div 4) # (y mod 4 * 64 + z) # r) (b64_decode_nat rest)"

definition b64_encode :: "string \<Rightarrow> string" where
  "b64_encode s = b64_encode_nat (map of_char s)"

definition b64_decode :: "string \<Rightarrow> string option" where
  "b64_decode s =
     (let ds = map (\<lambda>c. index_byte c url_alphabet) (filter (\<lambda>c. c \<noteq> newline \<and> c \<noteq> carriage) s) in
      if None \<in> set ds then None else map_option (map char_of) (b64_decode_nat (map the ds)))"

type_synonym mac = "string \<Rightarrow> string \<Rightarrow> string"
type_synonym users = "string \<Rightarrow> string option"

definition session_mac :: "mac \<Rightarrow> string \<Rightarrow> string \<Rightarrow> string \<Rightarrow> string" where
  "session_mac hmac key user hash = hmac key (user @ [CHR 0x00] @ hash)"

definition session_value :: "mac \<Rightarrow> string \<Rightarrow> string \<Rightarrow> string \<Rightarrow> string" where
  "session_value hmac key user hash = user @ ''.'' @ b64_encode (session_mac hmac key user hash)"

definition session_user :: "mac \<Rightarrow> string \<Rightarrow> users \<Rightarrow> string \<Rightarrow> string option" where
  "session_user hmac key users cookie =
     (case last_index_byte CHR ''.'' cookie of
        None \<Rightarrow> None
      | Some i \<Rightarrow>
          let user = take i cookie; enc = drop (Suc i) cookie in
          (case users user of
             None \<Rightarrow> None
           | Some hash \<Rightarrow>
               (case b64_decode enc of
                  None \<Rightarrow> None
                | Some m \<Rightarrow> if m = session_mac hmac key user hash then Some user else None)))"

section \<open>The gate and the login handler\<close>

definition gate_exempt :: "string \<Rightarrow> bool" where
  "gate_exempt path \<longleftrightarrow> path = ''/login'' \<or> prefix ''/static/'' path"

datatype gate_result = GateServe "string option" | GateRefresh string string | GateLogin | GateUnauthorized | GateUnavailable

text \<open>\<open>GateServe\<close> runs the handler, for a user when it needs one; \<open>GateRefresh\<close> also sets a new cookie.\<close>

definition gate :: "mac \<Rightarrow> string \<Rightarrow> users option \<Rightarrow> bool \<Rightarrow> string \<Rightarrow> string option \<Rightarrow> gate_result" where
  "gate hmac key current isGet path cookie =
     (if current = None \<and> \<not> prefix ''/static/'' path then GateUnavailable
      else if gate_exempt path then GateServe None
      else
        let users = (case current of None \<Rightarrow> (\<lambda>_. None) | Some u \<Rightarrow> u) in
        case Option.bind cookie (session_user hmac key users) of
          None \<Rightarrow> if isGet then GateLogin else GateUnauthorized
        | Some user \<Rightarrow>
            if isGet then GateRefresh user (session_value hmac key user (case users user of Some h \<Rightarrow> h | None \<Rightarrow> []))
            else GateServe (Some user))"

definition max_password_bytes :: nat where "max_password_bytes = 1024"

definition dummy_hash :: string where
  "dummy_hash = ''pbkdf2-sha256$600000$dGt2LWR1bW15LXNhbHQhIQ$AAAAAAAAAAAAAAAAAAAAAAAAAAAAAAAAAAAAAAAAAAA''"

datatype login_result = LoginWrong | LoginUnavailable | LoginThrottled int | LoginOk string

text \<open>
  \<open>postLogin\<close> in two halves around the verification, which runs outside the throttle's lock: the
  first admits or answers, the second releases the slot. \<open>Retry-After\<close> is in whole seconds, rounded up.
\<close>

definition login_start :: "users option \<Rightarrow> string \<Rightarrow> int \<Rightarrow> throttle \<Rightarrow> login_result option \<times> throttle" where
  "login_start current password now t =
     (if length password > max_password_bytes then (Some LoginWrong, t)
      else if current = None then (Some LoginUnavailable, t)
      else case admit now t of
             ((False, wait), t') \<Rightarrow> (Some (LoginThrottled ((wait + second - 1) div second)), t')
           | ((True, _), t') \<Rightarrow> (None, t'))"

definition login_finish ::
    "mac \<Rightarrow> string \<Rightarrow> (string \<Rightarrow> string \<Rightarrow> bool option) \<Rightarrow> users \<Rightarrow> string \<Rightarrow> string \<Rightarrow> int \<Rightarrow> throttle \<Rightarrow> login_result \<times> throttle" where
  "login_finish hmac key verify users user password now t =
     (let known = users user \<noteq> None;
          stored = (case users user of Some h \<Rightarrow> h | None \<Rightarrow> dummy_hash);
          ok = known \<and> verify stored password = Some True;
          t' = finish now ok t in
      (if ok then LoginOk (session_value hmac key user stored) else LoginWrong, t'))"

section \<open>Base64\<close>

lemma url_alphabet_facts: "length url_alphabet = 64" "distinct url_alphabet"
  "CHR ''.'' \<notin> set url_alphabet" "newline \<notin> set url_alphabet" "carriage \<notin> set url_alphabet"
  by code_simp+

lemma b64_encode_nat_digits:
  "list_all (\<lambda>n. n < 256) ns \<Longrightarrow> \<exists>ds. b64_encode_nat ns = map b64 ds \<and> list_all (\<lambda>d. d < 64) ds \<and> b64_decode_nat ds = Some ns"
proof (induction ns rule: b64_encode_nat.induct)
  case 1
  show ?case by (rule exI [of _ "[]"]) simp
next
  case (2 a)
  then show ?case by (intro exI [of _ "[a div 4, a mod 4 * 16]"]) simp
next
  case (3 a b)
  then have "a < 256" "b < 256" by auto
  then have "(a mod 4 * 16 + b div 16) div 16 = a mod 4" "(a mod 4 * 16 + b div 16) mod 16 = b div 16"
    "a div 4 < 64" "a mod 4 * 16 + b div 16 < 64" "b mod 16 * 4 < 64" by auto
  then show ?case by (intro exI [of _ "[a div 4, a mod 4 * 16 + b div 16, b mod 16 * 4]"]) simp
next
  case (4 a b c rest)
  then obtain ds where ds: "b64_encode_nat rest = map b64 ds" "list_all (\<lambda>d. d < 64) ds" "b64_decode_nat ds = Some rest" by auto
  have "(a mod 4 * 16 + b div 16) div 16 = a mod 4" "(a mod 4 * 16 + b div 16) mod 16 = b div 16"
    "(b mod 16 * 4 + c div 64) div 4 = b mod 16" "(b mod 16 * 4 + c div 64) mod 4 = c div 64"
    "a div 4 < 64" "a mod 4 * 16 + b div 16 < 64" "b mod 16 * 4 + c div 64 < 64" "c mod 64 < 64"
    using 4(2) by auto
  then show ?case
    using ds by (intro exI [of _ "a div 4 # (a mod 4 * 16 + b div 16) # (b mod 16 * 4 + c div 64) # (c mod 64) # ds"])
      (simp add: mult.commute)
qed

lemma b64_roundtrip: "b64_decode (b64_encode s) = Some s" and b64_no_dot: "CHR ''.'' \<notin> set (b64_encode s)"
proof -
  have "list_all (\<lambda>n. n < 256) (map of_char s :: nat list)" by (simp add: list_all_def)
  from b64_encode_nat_digits [OF this] obtain ds where ds: "b64_encode s = map b64 ds" "\<forall>d \<in> set ds. d < 64"
      "b64_decode_nat ds = Some (map of_char s)"
    by (auto simp: b64_encode_def list_all_iff)
  have mem: "b64 d \<in> set url_alphabet" if "d \<in> set ds" for d
    using that ds(2) url_alphabet_facts(1) nth_mem [of d url_alphabet] by auto
  then show "CHR ''.'' \<notin> set (b64_encode s)" using url_alphabet_facts(3) by (auto simp: ds(1))
  have "filter (\<lambda>c. c \<noteq> newline \<and> c \<noteq> carriage) (map b64 ds) = map b64 ds"
    using mem url_alphabet_facts(4,5) by (intro filter_True) (metis (no_types, lifting) in_set_conv_nth length_map nth_map nth_mem)
  moreover have "map (\<lambda>c. index_byte c url_alphabet) (map b64 ds) = map Some ds"
    using ds(2) index_byte_nth [OF url_alphabet_facts(2)] url_alphabet_facts(1) by simp
  moreover have "map the (map Some ds) = ds" by simp
  moreover have "map char_of (map of_char s :: nat list) = s" by (induction s) simp_all
  ultimately show "b64_decode (b64_encode s) = Some s"
    by (simp add: b64_decode_def Let_def ds(1,3) comp_def image_iff del: map_map)
qed

section \<open>Sessions\<close>

lemma session_user_iff:
  "session_user hmac key users cookie = Some user \<longleftrightarrow>
     (\<exists>hash enc. cookie = user @ ''.'' @ enc \<and> CHR ''.'' \<notin> set enc \<and> users user = Some hash \<and>
        b64_decode enc = Some (session_mac hmac key user hash))" (is "?L \<longleftrightarrow> ?R")
proof
  assume ?L
  then obtain i hash where i: "last_index_byte CHR ''.'' cookie = Some i" and "user = take i cookie" "users user = Some hash"
      "b64_decode (drop (Suc i) cookie) = Some (session_mac hmac key user hash)"
    by (auto simp: session_user_def Let_def split: option.splits if_splits)
  moreover from last_index_byte_Some [OF i] have "cookie = take i cookie @ CHR ''.'' # drop (Suc i) cookie"
    "CHR ''.'' \<notin> set (drop (Suc i) cookie)" using id_take_nth_drop [of i cookie] by auto
  ultimately show ?R by (intro exI [of _ hash] exI [of _ "drop (Suc i) cookie"]) auto
next
  assume ?R
  then obtain hash enc where r: "cookie = user @ CHR ''.'' # enc" "CHR ''.'' \<notin> set enc" "users user = Some hash"
    "b64_decode enc = Some (session_mac hmac key user hash)" by auto
  then have "last_index_byte CHR ''.'' cookie = Some (length user)" by (simp add: last_index_byte_def)
  with r show ?L by (simp add: session_user_def)
qed

lemma session_value_parts:
  "user @ ''.'' @ enc = session_value hmac key user' hash \<Longrightarrow> CHR ''.'' \<notin> set enc \<Longrightarrow>
     user = user' \<and> enc = b64_encode (session_mac hmac key user' hash)"
proof -
  assume a: "user @ ''.'' @ enc = session_value hmac key user' hash" "CHR ''.'' \<notin> set enc"
  let ?e = "b64_encode (session_mac hmac key user' hash)"
  have "rev enc @ CHR ''.'' # rev user = rev ?e @ CHR ''.'' # rev user'"
    using arg_cong [OF a(1), of rev] by (simp add: session_value_def)
  from split_at_sep [OF _ _ this] a(2) b64_no_dot show ?thesis by simp
qed

lemma session_value_user:
  "session_user hmac key users (session_value hmac key user hash) =
     (case users user of None \<Rightarrow> None
      | Some hash' \<Rightarrow> if session_mac hmac key user hash' = session_mac hmac key user hash then Some user else None)"
  (is "?s = ?r")
proof -
  have iff: "?s = Some u \<longleftrightarrow> u = user \<and> (\<exists>hash'. users user = Some hash' \<and>
      session_mac hmac key user hash' = session_mac hmac key user hash)" for u
  proof
    assume "?s = Some u"
    then obtain h enc where "u @ ''.'' @ enc = session_value hmac key user hash" "CHR ''.'' \<notin> set enc" "users u = Some h"
      "b64_decode enc = Some (session_mac hmac key u h)" unfolding session_user_iff by metis
    with session_value_parts [OF this(1,2)] b64_roundtrip
    show "u = user \<and> (\<exists>hash'. users user = Some hash' \<and> session_mac hmac key user hash' = session_mac hmac key user hash)"
      by auto
  next
    assume "u = user \<and> (\<exists>hash'. users user = Some hash' \<and> session_mac hmac key user hash' = session_mac hmac key user hash)"
    then show "?s = Some u"
      unfolding session_user_iff using b64_roundtrip b64_no_dot by (auto simp: session_value_def)
  qed
  show ?thesis
  proof (cases ?r)
    case None
    then show ?thesis using iff by (cases ?s) (auto split: option.splits if_splits)
  next
    case (Some u)
    then show ?thesis using iff [of u] by (auto split: option.splits if_splits)
  qed
qed


definition sample_mac :: mac where "sample_mac key msg = msg"

definition sample_users :: users where "sample_users = [''ann'' \<mapsto> ''h1'']"


section \<open>Attempts over time\<close>

text \<open>
  One throttle under any number of clients. The list has the times of the attempts admitted since the
  last success; the clock never runs back, and only an admitted attempt is finished.
\<close>

inductive attempt :: "int \<times> throttle \<times> int list \<Rightarrow> int \<times> throttle \<times> int list \<Rightarrow> bool" where
  attempt_refused: "t \<le> now \<Longrightarrow> admit now s = ((False, w), s') \<Longrightarrow> attempt (t, s, adm) (now, s', adm)"
| attempt_admitted: "t \<le> now \<Longrightarrow> admit now s = ((True, w), s') \<Longrightarrow> attempt (t, s, adm) (now, s', adm @ [now])"
| attempt_failed: "t \<le> now \<Longrightarrow> th_in_flight s \<Longrightarrow> attempt (t, s, adm) (now, finish now False s, adm)"
| attempt_succeeded: "t \<le> now \<Longrightarrow> th_in_flight s \<Longrightarrow> attempt (t, s, adm) (now, finish now True s, [])"

inductive_cases attemptE: "attempt s s'"

lemma backoff_bounds: "0 \<le> backoff n" "backoff n \<le> backoff_cap" "0 < n \<Longrightarrow> 0 < backoff n"
  by (auto simp: backoff_def backoff_base_def backoff_cap_def second_def)

lemma backoff_values: "map backoff [1, 2, 3, 4, 5, 6, 7] =
    [250000000, 500000000, 1000000000, 2000000000, 4000000000, 5000000000, 5000000000]"
  by (simp add: backoff_def backoff_base_def backoff_cap_def second_def numeral_eq_Suc)

definition spaced :: "int list \<Rightarrow> bool" where
  "spaced adm \<longleftrightarrow> (\<forall>k. Suc k < length adm \<longrightarrow> adm ! k + backoff (int (Suc k)) \<le> adm ! Suc k)"

definition throttle_inv :: "int \<times> throttle \<times> int list \<Rightarrow> bool" where
  "throttle_inv = (\<lambda>(t, s, adm).
     th_failures s = int (length adm) \<and> spaced adm \<and> (adm \<noteq> [] \<longrightarrow> last adm \<le> t) \<and>
     (th_in_flight s \<longrightarrow> adm \<noteq> []) \<and>
     (\<not> th_in_flight s \<longrightarrow> adm \<noteq> [] \<longrightarrow> last adm + backoff (int (length adm)) \<le> th_until s) \<and>
     (\<not> th_in_flight s \<longrightarrow> th_until s \<le> max 0 t + backoff_cap))"

lemma spaced_snoc:
  "spaced adm \<Longrightarrow> (adm \<noteq> [] \<Longrightarrow> last adm + backoff (int (length adm)) \<le> now) \<Longrightarrow> spaced (adm @ [now])"
proof -
  assume a: "spaced adm" "adm \<noteq> [] \<Longrightarrow> last adm + backoff (int (length adm)) \<le> now"
  have "(adm @ [now]) ! k + backoff (int (Suc k)) \<le> (adm @ [now]) ! Suc k" if "Suc k < length (adm @ [now])" for k
  proof (cases "Suc k < length adm")
    case True
    then show ?thesis using a(1) by (simp add: spaced_def nth_append)
  next
    case False
    with that have "Suc k = length adm" by simp
    then have "adm \<noteq> []" "length adm - Suc 0 = k" by auto
    then show ?thesis using a(2) \<open>Suc k = length adm\<close> by (simp add: nth_append last_conv_nth)
  qed
  then show ?thesis by (simp add: spaced_def)
qed

lemma attempt_inv: "attempt x y \<Longrightarrow> throttle_inv x \<Longrightarrow> throttle_inv y"
proof (induction rule: attempt.induct)
  case (attempt_refused t now s w s' adm)
  then show ?case by (auto simp: admit_def throttle_inv_def split: if_splits)
next
  case (attempt_admitted t now s w s' adm)
  then have s: "\<not> th_in_flight s" "th_until s \<le> now" "s' = s\<lparr>th_in_flight := True, th_failures := th_failures s + 1\<rparr>"
    by (auto simp: admit_def split: if_splits)
  have "spaced (adm @ [now])"
    by (rule spaced_snoc) (use attempt_admitted s in \<open>auto simp: throttle_inv_def\<close>)
  with attempt_admitted s show ?case by (simp add: throttle_inv_def)
next
  case (attempt_failed t now s adm)
  then show ?case using backoff_bounds(2) [of "int (length adm)"] by (auto simp: throttle_inv_def finish_def)
next
  case (attempt_succeeded t now s adm)
  then show ?case by (auto simp: throttle_inv_def finish_def spaced_def backoff_cap_def second_def)
qed

lemma reachable_inv:
  assumes "attempt\<^sup>*\<^sup>* (t0, new_throttle, []) x"
  shows "throttle_inv x"
  using assms
proof (induction rule: rtranclp_induct)
  case base
  show ?case by (simp add: throttle_inv_def new_throttle_def spaced_def backoff_cap_def second_def)
next
  case (step y z)
  then show ?case using attempt_inv by blast
qed

lemma spaced_sum:
  "spaced adm \<Longrightarrow> k < length adm \<Longrightarrow> adm ! 0 + (\<Sum>i<k. backoff (int (Suc i))) \<le> adm ! k"
proof (induction k)
  case (Suc k)
  then have "adm ! 0 + (\<Sum>i<k. backoff (int (Suc i))) \<le> adm ! k" by simp
  moreover have "adm ! k + backoff (int (Suc k)) \<le> adm ! Suc k" using Suc.prems by (simp add: spaced_def)
  ultimately show ?case by simp
qed simp

lemma backoff_sum: "5 * second * (int k - 6) + 7750000000 \<le> (\<Sum>i<k. backoff (int (Suc i)))" if "5 \<le> k"
  using that
proof (induction k rule: nat_induct_at_least)
  case base
  show ?case by (simp add: numeral_eq_Suc lessThan_Suc backoff_def backoff_base_def backoff_cap_def second_def)
next
  case (Suc k)
  then have "backoff (int (Suc k)) = 5 * second \<or> k = 5"
    by (auto simp: backoff_def backoff_cap_def)
  moreover have "k = 5 \<Longrightarrow> backoff (int (Suc k)) = 5 * second"
    by (simp add: backoff_def backoff_base_def backoff_cap_def second_def)
  ultimately show ?case using Suc.IH by (auto simp: algebra_simps)
qed

definition fail_once :: "int \<Rightarrow> int \<times> throttle \<times> int list \<Rightarrow> int \<times> throttle \<times> int list" where
  "fail_once now = (\<lambda>(t, s, adm). (now, finish now False (snd (admit now s)), adm @ [now]))"

definition can_fail :: "int \<Rightarrow> int \<times> throttle \<times> int list \<Rightarrow> bool" where
  "can_fail now = (\<lambda>(t, s, adm). t \<le> now \<and> fst (fst (admit now s)))"

lemma fail_once_reach:
  assumes "attempt\<^sup>*\<^sup>* x y" "can_fail now y"
  shows "attempt\<^sup>*\<^sup>* x (fail_once now y)"
proof -
  obtain t s adm where y: "y = (t, s, adm)" by (cases y)
  obtain w s' where a: "admit now s = ((True, w), s')" "t \<le> now"
    using assms(2) by (cases "admit now s") (auto simp: y can_fail_def)
  then have "th_in_flight s'" by (auto simp: admit_def split: if_splits)
  then have "attempt (now, s', adm @ [now]) (now, finish now False s', adm @ [now])" by (intro attempt_failed) simp
  moreover have "attempt y (now, s', adm @ [now])" unfolding y by (rule attempt_admitted [OF a(2,1)])
  ultimately show ?thesis
    using assms(1) a by (simp add: y fail_once_def)
qed

fun fail_all :: "int list \<Rightarrow> int \<times> throttle \<times> int list \<Rightarrow> int \<times> throttle \<times> int list" where
  "fail_all [] y = y"
| "fail_all (now # ts) y = fail_all ts (fail_once now y)"

fun can_fail_all :: "int list \<Rightarrow> int \<times> throttle \<times> int list \<Rightarrow> bool" where
  "can_fail_all [] y = True"
| "can_fail_all (now # ts) y = (can_fail now y \<and> can_fail_all ts (fail_once now y))"

lemma fail_all_reach: "attempt\<^sup>*\<^sup>* x y \<Longrightarrow> can_fail_all ts y \<Longrightarrow> attempt\<^sup>*\<^sup>* x (fail_all ts y)"
proof (induction ts arbitrary: y)
  case (Cons now ts)
  then show ?case using Cons.IH [OF fail_once_reach [OF Cons.prems(1)]] by simp
qed simp

definition six_failures :: "int list" where
  "six_failures = [0, 250000000, 750000000, 1750000000, 3750000000, 7750000000]"



text \<open>C38. Nobody is locked out: a refused attempt always carries a positive hint. If the slot was free, the
  hint is at most the 5 s cap and an attempt after exactly that wait is admitted, unless another one
  took the slot; if the slot was taken, then once that attempt ends, whatever its result, an attempt
  5 s later is admitted.\<close>

theorem throttle_retry:
  assumes reach: "attempt\<^sup>*\<^sup>* (t0, new_throttle, []) (t, s, adm)" and now: "0 \<le> t" "t \<le> now"
    and refused: "admit now s = ((False, wait), s')"
  shows "0 < wait \<and> s' = s \<and>
    (if th_in_flight s then \<forall>m \<ge> 0. \<forall>success. fst (fst (admit (m + backoff_cap) (finish m success s)))
     else wait \<le> backoff_cap \<and> fst (fst (admit (now + wait) s)))"
proof (cases "th_in_flight s")
  case True
  then show ?thesis
    using refused backoff_bounds(2) [of "th_failures s"]
    by (auto simp: admit_def finish_def in_flight_retry_def second_def backoff_cap_def)
next
  case False
  then show ?thesis
    using refused reachable_inv [OF reach] now by (auto simp: admit_def throttle_inv_def split: if_splits)
qed

theorem throttle_retry_witness:
  "\<exists>t s adm. attempt\<^sup>*\<^sup>* (0, new_throttle, []) (t, s, adm) \<and> admit 7750000001 s = ((False, 4999999999), s) \<and>
     fst (fst (admit (7750000001 + 4999999999) s))"
proof -
  have c: "can_fail_all six_failures (0, new_throttle, [])" by code_simp
  obtain t s adm where f: "fail_all six_failures (0, new_throttle, []) = (t, s, adm)" by (metis prod_cases3)
  have a: "fst (admit 7750000001 (fst (snd (fail_all six_failures (0, new_throttle, []))))) = (False, 4999999999)"
    "fst (fail_all six_failures (0, new_throttle, [])) = 7750000000"
    "\<not> th_in_flight (fst (snd (fail_all six_failures (0, new_throttle, []))))" by code_simp+
  have r: "attempt\<^sup>*\<^sup>* (0, new_throttle, []) (t, s, adm)"
    using fail_all_reach [OF rtranclp.rtrancl_refl c] f by simp
  obtain s' where s': "admit 7750000001 s = ((False, 4999999999), s')" using a(1) f by (cases "admit 7750000001 s") simp
  have "0 \<le> t" "t \<le> 7750000001" using a(2) f by simp_all
  from throttle_retry [OF r this s'] a(3) f have "s' = s \<and> fst (fst (admit (7750000001 + 4999999999) s))" by simp
  with r s' show ?thesis by blast
qed

end
