(* ===== verification/Sessions.thy ===== *)
theory Sessions
  imports Closures DepGate OrderKeys
begin

text \<open>
  The held write session of \<open>internal/writeengine\<close> (\<open>engine.go\<close>, \<open>session.go\<close>, \<open>errors.go\<close>)
  with the self-commit of \<open>internal/selfcommit\<close> and the git-root checks of
  \<open>internal/gitstate\<close>. A machine is the disk, its clock, the index and the git calls made so
  far. Git is a parameter: its answers are functions of the machine. A session holds the lock
  of its scope from its begin to its end, so nothing else moves meanwhile. Paths are absolute
  and clean, so that the path printed for a ticket is the path of its file. The partly filled
  result that goes with an error is left out.
\<close>

section \<open>The machine\<close>

datatype git_call =
    GitAdd string "string list"
  | GitCommit string string "string list"
  | GitUnstage string "string list"
  | GitRun string "string list"

record machine =
  mc_disk :: disk
  mc_clock :: int
  mc_db :: db
  mc_calls :: "git_call list"

record git_view =
  gv_merging :: "machine \<Rightarrow> string \<Rightarrow> bool"
  gv_rebasing :: "machine \<Rightarrow> string \<Rightarrow> bool"
  gv_unmerged :: "machine \<Rightarrow> string \<Rightarrow> string list"
  gv_upstream :: "machine \<Rightarrow> string \<Rightarrow> bool"
  gv_push_error :: "machine \<Rightarrow> string \<Rightarrow> bool"
  gv_dirty :: "machine \<Rightarrow> string \<Rightarrow> string \<Rightarrow> nat"
  gv_unpushed :: "machine \<Rightarrow> string \<Rightarrow> nat option"
  gv_tracked :: "machine \<Rightarrow> string \<Rightarrow> string \<Rightarrow> bool"
  gv_add :: "machine \<Rightarrow> string \<Rightarrow> string list \<Rightarrow> string option"
  gv_staged :: "machine \<Rightarrow> string \<Rightarrow> string list \<Rightarrow> string + bool"
  gv_commit :: "machine \<Rightarrow> string \<Rightarrow> string \<Rightarrow> string list \<Rightarrow> string option"
  gv_unstage :: "machine \<Rightarrow> string \<Rightarrow> string list \<Rightarrow> string option"

text \<open>File operations fail where \<open>we_fault\<close> says so.\<close>

datatype io_op = IoRead string | IoWrite string | IoMkdir string | IoRename string string | IoRemove string

record wenv =
  we_rec :: rec_env
  we_git :: git_view
  we_reg :: "(string \<times> string) list"
  we_resolve :: "string \<Rightarrow> schema option"
  we_lens :: "string \<Rightarrow> string list"
  we_stamp :: string
  we_root :: "string \<Rightarrow> string option"
  we_fault :: "io_op \<Rightarrow> bool"

section \<open>Errors\<close>

datatype commit_error =
    CommitAdd string
  | CommitStaged string
  | CommitFault string string
  | CommitUnstage commit_error string

datatype usage =
    TitleEmpty | TitleLines | NoClobberKey | TagEmpty | NoIds | NoDestination | OwnNeighbour string
  | ValueNewline | MultiValueKey string | ScalarKey string | UnknownKey string "string list" | ImmutableKey string
  | BadTicketId string | OutsideValues string | NotStringList string | BadInteger string | BadBool string | BadType string

datatype write_error =
    Usage usage
  | UnknownStatus string string
  | ScopeUnreachable string string
  | ConfigUnusable string string
  | Duplicated string "string list"
  | Quarantined string string
  | UnknownTicket string string
  | NoLongerTodo string string
  | Clobbered string
  | DependsSelf string
  | DependsDangling string string
  | DependsUnresolvable string string
  | NeighbourOrder string
  | NeighbourLost string
  | NoLegalOrder string order_error
  | Held hold_error
  | MidRebase string string string bool
  | ReadFailed string
  | NoFence string
  | ParseFailed string parse_error
  | SerializeFailed string
  | WriteFailed string
  | MkdirFailed string
  | MoveFailed string string
  | SyncFailed sync_error
  | ReconcileFailed rec_error
  | CommitFailed string commit_error
  | UnsupportedField string string
  | CustomNotList string
  | OccupiedUnreadable
  | MintFailed
  | EmptyQueue string
  | RefreshFailed string
  | ClaimFailed write_error string

section \<open>Actions\<close>

text \<open>
  A function on the machine, with its early returns; \<open>Inl\<close> keeps what was done before the error. The
  functions of the engine fail with a \<open>write_error\<close>, those of another package with errors of its own. The
  combinators do not look at the machine, so they also serve states that hold more than one.
\<close>

type_synonym ('e, 'a) run = "machine \<Rightarrow> ('e + 'a) \<times> machine"

type_synonym 'a act = "(write_error, 'a) run"

definition act_return :: "'a \<Rightarrow> 's \<Rightarrow> ('e + 'a) \<times> 's" where
  "act_return x m = (Inr x, m)"

definition act_fail :: "'e \<Rightarrow> 's \<Rightarrow> ('e + 'a) \<times> 's" where
  "act_fail e m = (Inl e, m)"

definition act_bind ::
    "('s \<Rightarrow> ('e + 'a) \<times> 's) \<Rightarrow> ('a \<Rightarrow> 's \<Rightarrow> ('e + 'b) \<times> 's) \<Rightarrow> 's \<Rightarrow> ('e + 'b) \<times> 's" where
  "act_bind f g m = (case f m of (Inl e, m') \<Rightarrow> (Inl e, m') | (Inr x, m') \<Rightarrow> g x m')"

definition act_read :: "('s \<Rightarrow> 'e + 'a) \<Rightarrow> 's \<Rightarrow> ('e + 'a) \<times> 's" where
  "act_read f m = (f m, m)"

definition act_refuse :: "'e option \<Rightarrow> 's \<Rightarrow> ('e + unit) \<times> 's" where
  "act_refuse e m = ((case e of None \<Rightarrow> Inr () | Some err \<Rightarrow> Inl err), m)"

text \<open>An error of a callee, wrapped.\<close>

definition act_lift :: "('e \<Rightarrow> 'f) \<Rightarrow> ('s \<Rightarrow> ('e + 'a) \<times> 's) \<Rightarrow> 's \<Rightarrow> ('f + 'a) \<times> 's" where
  "act_lift w f m = (case f m of (Inl e, m') \<Rightarrow> (Inl (w e), m') | (Inr x, m') \<Rightarrow> (Inr x, m'))"

lemma act_bind_simps [simp]:
  "act_bind (act_return x) g = g x" "act_bind (act_fail e) g = act_fail e"
  by (simp_all add: act_bind_def act_return_def act_fail_def fun_eq_iff)

lemma act_bind_Inr: "act_bind f g m = (Inr y, m') \<longleftrightarrow> (\<exists>x m1. f m = (Inr x, m1) \<and> g x m1 = (Inr y, m'))"
  by (auto simp: act_bind_def split: prod.splits sum.splits)

lemma act_bind_Inl:
  "act_bind f g m = (Inl e, m') \<longleftrightarrow> f m = (Inl e, m') \<or> (\<exists>x m1. f m = (Inr x, m1) \<and> g x m1 = (Inl e, m'))"
  by (auto simp: act_bind_def split: prod.splits sum.splits)

lemma act_read_iff: "act_read f m = (r, m') \<longleftrightarrow> f m = r \<and> m' = m"
  by (auto simp: act_read_def)

lemma act_return_iff: "act_return x m = (r, m') \<longleftrightarrow> r = Inr x \<and> m' = m"
  by (auto simp: act_return_def)

lemma act_fail_iff: "act_fail e m = (r, m') \<longleftrightarrow> r = Inl e \<and> m' = m"
  by (auto simp: act_fail_def)

lemma act_refuse_Inr: "act_refuse e m = (Inr u, m') \<longleftrightarrow> e = None \<and> m' = m"
  by (auto simp: act_refuse_def split: option.splits)

lemma act_refuse_Inl: "act_refuse e m = (Inl err, m') \<longleftrightarrow> e = Some err \<and> m' = m"
  by (auto simp: act_refuse_def split: option.splits)

lemma act_lift_Inr: "act_lift w f m = (Inr x, m') \<longleftrightarrow> f m = (Inr x, m')"
  by (auto simp: act_lift_def split: prod.splits sum.splits)

lemma act_lift_Inl: "act_lift w f m = (Inl e, m') \<longleftrightarrow> (\<exists>d. f m = (Inl d, m') \<and> e = w d)"
  by (auto simp: act_lift_def split: prod.splits sum.splits)

lemma bind_read_Inr: "act_bind (act_read g) k m = (Inr y, m') \<longleftrightarrow> (\<exists>x. g m = Inr x \<and> k x m = (Inr y, m'))"
  by (auto simp: act_bind_def act_read_def split: sum.splits)

lemma bind_refuse_Inr: "act_bind (act_refuse c) k m = (Inr y, m') \<longleftrightarrow> c = None \<and> k () m = (Inr y, m')"
  by (auto simp: act_bind_def act_refuse_def split: option.splits)

lemmas act_runs = act_bind_Inr act_read_iff act_return_iff act_fail_iff act_refuse_Inr

section \<open>Files\<close>

definition make_dir :: "string \<Rightarrow> machine \<Rightarrow> machine" where
  "make_dir d m =
     (if d \<in> set (dk_dirs (mc_disk m)) then m
      else m\<lparr>mc_disk := (mc_disk m)\<lparr>dk_dirs := dk_dirs (mc_disk m) @ [d]\<rparr>\<rparr>)"

definition put_file :: "string \<Rightarrow> regfile \<Rightarrow> machine \<Rightarrow> machine" where
  "put_file path f m = m\<lparr>mc_disk := (mc_disk m)\<lparr>dk_files := AList.update path f (dk_files (mc_disk m))\<rparr>\<rparr>"

definition drop_file :: "string \<Rightarrow> machine \<Rightarrow> machine" where
  "drop_file path m = m\<lparr>mc_disk := (mc_disk m)\<lparr>dk_files := AList.delete path (dk_files (mc_disk m))\<rparr>\<rparr>"

text \<open>\<open>atomicfile.Write\<close>: the directory is made, and the file is replaced as a whole or not at all.\<close>

definition atomic_write :: "wenv \<Rightarrow> string \<Rightarrow> string \<Rightarrow> unit act" where
  "atomic_write E path data m =
     (if we_fault E (IoWrite path) \<or> path_dir path \<in> set (dk_locked (mc_disk m)) then (Inl (WriteFailed path), m)
      else (Inr (), put_file path \<lparr>f_data = data, f_mtime = mc_clock m\<rparr> (make_dir (path_dir path) m)))"

definition mkdir_all :: "wenv \<Rightarrow> string \<Rightarrow> unit act" where
  "mkdir_all E d m =
     (if we_fault E (IoMkdir d) \<or> disk_file (mc_disk m) d \<noteq> None then (Inl (MkdirFailed d), m)
      else (Inr (), if d \<in> set (dk_locked (mc_disk m)) then m else make_dir d m))"

text \<open>\<open>os.Rename\<close> replaces a file at the destination.\<close>

definition rename_file :: "wenv \<Rightarrow> string \<Rightarrow> string \<Rightarrow> unit act" where
  "rename_file E old new m =
     (case disk_file (mc_disk m) old of
        None \<Rightarrow> (Inl (MoveFailed old new), m)
      | Some f \<Rightarrow>
          if we_fault E (IoRename old new) \<or> path_dir new \<notin> set (dk_dirs (mc_disk m)) then (Inl (MoveFailed old new), m)
          else (Inr (), put_file new f (drop_file old m)))"

definition read_ticket_file :: "wenv \<Rightarrow> string \<Rightarrow> machine \<Rightarrow> write_error + (fm_model \<times> string)" where
  "read_ticket_file E path m =
     (case disk_file (mc_disk m) path of
        None \<Rightarrow> Inl (ReadFailed path)
      | Some f \<Rightarrow>
          if we_fault E (IoRead path) then Inl (ReadFailed path)
          else case split_fence (f_data f) of
                 (interior, body, present) \<Rightarrow>
                   if \<not> present then Inl (NoFence path)
                   else case parse_fm (re_yaml (we_rec E)) interior of
                          Inl e \<Rightarrow> Inl (ParseFailed path e)
                        | Inr fm \<Rightarrow> Inr (fm, body))"

definition write_ticket_file :: "wenv \<Rightarrow> string \<Rightarrow> fm_model \<Rightarrow> string \<Rightarrow> unit act" where
  "write_ticket_file E path fm body =
     (case serialize (re_yaml (we_rec E)) fm of
        Inl e \<Rightarrow> act_fail (SerializeFailed e)
      | Inr interior \<Rightarrow> atomic_write E path (compose interior body))"

definition terminal_location :: "wenv \<Rightarrow> string \<Rightarrow> string \<Rightarrow> bool \<Rightarrow> string act" where
  "terminal_location E dir base terminal =
     (if \<not> terminal then act_return (path_join dir base)
      else act_bind (mkdir_all E (path_join dir archive_dir))
             (\<lambda>_. act_return (path_join (path_join dir archive_dir) base)))"

text \<open>The removed old path is listed, so that \<open>SyncPaths\<close> deletes its row. No old path is the empty string.\<close>

definition written_paths :: "string \<Rightarrow> string \<Rightarrow> string list" where
  "written_paths newPath oldPath = (if oldPath = [] \<or> oldPath = newPath then [newPath] else [newPath, oldPath])"

definition sync_now :: "wenv \<Rightarrow> string \<Rightarrow> string list \<Rightarrow> unit act" where
  "sync_now E scope paths m =
     (case sync_paths (we_rec E) scope (info_of (mc_disk m)) (mc_disk m) paths (mc_db m) of
        (err, d) \<Rightarrow> ((case err of None \<Rightarrow> Inr () | Some e \<Rightarrow> Inl (SyncFailed e)), m\<lparr>mc_db := d\<rparr>))"

section \<open>Self-commit\<close>

definition log_call :: "git_call \<Rightarrow> machine \<Rightarrow> machine" where
  "log_call c m = m\<lparr>mc_calls := mc_calls m @ [c]\<rparr>"

definition matchable :: "git_view \<Rightarrow> string \<Rightarrow> string \<Rightarrow> machine \<Rightarrow> bool" where
  "matchable G root path m \<longleftrightarrow> disk_file (mc_disk m) path \<noteq> None \<or> gv_tracked G m root path"

definition unstage_after :: "git_view \<Rightarrow> string \<Rightarrow> string list \<Rightarrow> commit_error \<Rightarrow> machine \<Rightarrow> commit_error option \<times> machine" where
  "unstage_after G root paths err m =
     (Some (case gv_unstage G m root paths of None \<Rightarrow> err | Some u \<Rightarrow> CommitUnstage err u), log_call (GitUnstage root paths) m)"

definition commit_staged :: "git_view \<Rightarrow> string \<Rightarrow> string \<Rightarrow> string list \<Rightarrow> machine \<Rightarrow> commit_error option \<times> machine" where
  "commit_staged G root message paths m =
     (case gv_staged G m root paths of
        Inl e \<Rightarrow> unstage_after G root paths (CommitStaged e) m
      | Inr False \<Rightarrow> (None, m)
      | Inr True \<Rightarrow>
          (case gv_commit G m root message paths of
             None \<Rightarrow> (None, log_call (GitCommit root message paths) m)
           | Some e \<Rightarrow> unstage_after G root paths (CommitFault message e) (log_call (GitCommit root message paths) m)))"

definition stage_and_commit :: "git_view \<Rightarrow> string \<Rightarrow> string \<Rightarrow> string list \<Rightarrow> machine \<Rightarrow> commit_error option \<times> machine" where
  "stage_and_commit G root message paths m =
     (case gv_add G m root paths of
        Some e \<Rightarrow> (Some (CommitAdd e), log_call (GitAdd root paths) m)
      | None \<Rightarrow> commit_staged G root message paths (log_call (GitAdd root paths) m))"

definition commit_core :: "git_view \<Rightarrow> string \<Rightarrow> string \<Rightarrow> string \<Rightarrow> string \<Rightarrow> machine \<Rightarrow> commit_error option \<times> machine" where
  "commit_core G root message newPath oldPath m =
     (let paths = newPath # (if oldPath \<noteq> [] \<and> oldPath \<noteq> newPath \<and> matchable G root oldPath m then [oldPath] else []) in
      stage_and_commit G root message paths m)"

definition commit_paths_core :: "git_view \<Rightarrow> string \<Rightarrow> string \<Rightarrow> string list \<Rightarrow> machine \<Rightarrow> commit_error option \<times> machine" where
  "commit_paths_core G root message paths m =
     (let stage = filter (\<lambda>p. matchable G root p m) (first_seen {} (filter (\<lambda>p. p \<noteq> []) paths)) in
      if length stage = 0 then (None, m) else stage_and_commit G root message stage m)"

section \<open>The state of a git root\<close>

definition check_git_root_mid_rebase :: "git_view \<Rightarrow> string \<Rightarrow> string option \<Rightarrow> machine \<Rightarrow> write_error option" where
  "check_git_root_mid_rebase G scope root m =
     (case root of
        None \<Rightarrow> None
      | Some r \<Rightarrow>
          let merging = gv_merging G m r in
          if \<not> gv_rebasing G m r \<and> \<not> merging then None
          else
            let files = gv_unmerged G m r;
                place = (if length files > 0 then go_join '', '' files else ''the conflicted file'') in
            Some (MidRebase scope r place (if gv_rebasing G m r then False else merging)))"

definition check_mid_rebase :: "git_view \<Rightarrow> string \<Rightarrow> bool \<Rightarrow> string option \<Rightarrow> machine \<Rightarrow> write_error option" where
  "check_mid_rebase G scope autoCommit root m =
     (if \<not> autoCommit then None else check_git_root_mid_rebase G scope root m)"

definition sync_needed_reason :: "git_view \<Rightarrow> string \<Rightarrow> string \<Rightarrow> machine \<Rightarrow> string" where
  "sync_needed_reason G dir root m =
     (if gv_push_error G m root then ''push failed''
      else if gv_dirty G m dir root > 0 then ''dirty''
      else case gv_unpushed G m root of
             Some n \<Rightarrow> if n > 0 then ''unpushed'' else []
           | None \<Rightarrow> [])"

section \<open>Sessions\<close>

record session =
  se_scope :: string
  se_dir :: string
  se_res :: rec_result
  se_schema :: "schema option"
  se_auto :: bool
  se_root :: "string option"

definition refuse_unusable :: "rec_result \<Rightarrow> string \<Rightarrow> string \<Rightarrow> write_error option" where
  "refuse_unusable res scope dir =
     (if scope \<in> rr_unreachable res then Some (ScopeUnreachable scope dir)
      else case rr_config_errs res scope of
             Some reason \<Rightarrow> Some (ConfigUnusable scope reason)
           | None \<Rightarrow> None)"

definition registered_set :: "wenv \<Rightarrow> string set" where
  "registered_set E = fst ` set (we_reg E)"

definition look_now :: "machine \<Rightarrow> look" where
  "look_now m = (\<lambda>scope. (mc_disk m, mc_disk m, stat_of (mc_disk m)))"

definition reconcile_now :: "wenv \<Rightarrow> (string \<times> string) list \<Rightarrow> rec_result act" where
  "reconcile_now E targets m =
     (case reconcile (we_rec E) (look_now m) (mc_clock m) targets (registered_set E) (mc_db m) of
        (Inl e, d) \<Rightarrow> (Inl (ReconcileFailed e), m\<lparr>mc_db := d\<rparr>)
      | (Inr res, d) \<Rightarrow> (Inr res, m\<lparr>mc_db := d\<rparr>))"

definition begin_status_write :: "wenv \<Rightarrow> string \<Rightarrow> string \<Rightarrow> session act" where
  "begin_status_write E scope dir =
     act_bind (reconcile_now E [(scope, dir)]) (\<lambda>res.
       act_bind (act_refuse (refuse_unusable res scope dir)) (\<lambda>_.
         act_return \<lparr>se_scope = scope, se_dir = dir, se_res = res, se_schema = result_schema res scope,
                     se_auto = schema_auto_commit (result_schema res scope), se_root = we_root E dir\<rparr>))"

definition begin_write :: "wenv \<Rightarrow> string \<Rightarrow> string \<Rightarrow> session act" where
  "begin_write E scope dir =
     act_bind (begin_status_write E scope dir) (\<lambda>s.
       act_bind (act_refuse (map_option Held (refuse_hard scope (se_schema s)))) (\<lambda>_. act_return s))"

definition refuse_status_hold :: "session \<Rightarrow> string \<Rightarrow> write_error option" where
  "refuse_status_hold s newStatus =
     (case refuse_hard (se_scope s) (se_schema s) of
        Some e \<Rightarrow> Some (Held e)
      | None \<Rightarrow> if newStatus = st_in_progress then map_option Held (refuse_start (se_scope s) (se_schema s)) else None)"

definition session_mid_rebase :: "wenv \<Rightarrow> session \<Rightarrow> unit act" where
  "session_mid_rebase E s m = act_refuse (check_mid_rebase (we_git E) (se_scope s) (se_auto s) (se_root s) m) m"

text \<open>The answer is the pair of \<open>sync_disabled\<close> (with the scope and the directory it names) and \<open>sync_needed\<close>.\<close>

definition complete_paths ::
    "wenv \<Rightarrow> string \<Rightarrow> string \<Rightarrow> bool \<Rightarrow> string \<Rightarrow> string list \<Rightarrow> string option \<Rightarrow> ((string \<times> string) option \<times> string) act" where
  "complete_paths E scope dir autoCommit message paths root m =
     (if \<not> autoCommit then (Inr (None, []), m)
      else case root of
             None \<Rightarrow> (Inr (Some (scope, dir), []), m)
           | Some r \<Rightarrow>
               (case commit_paths_core (we_git E) r message paths m of
                  (Some e, m') \<Rightarrow> (Inl (CommitFailed scope e), m')
                | (None, m') \<Rightarrow> (Inr (None, sync_needed_reason (we_git E) dir r m'), m')))"

definition complete_state ::
    "wenv \<Rightarrow> session \<Rightarrow> string \<Rightarrow> string \<Rightarrow> string \<Rightarrow> ((string \<times> string) option \<times> string) act" where
  "complete_state E s message newPath oldPath =
     complete_paths E (se_scope s) (se_dir s) (se_auto s) message (written_paths newPath oldPath) (se_root s)"

section \<open>Tickets of a scope\<close>

record lookup =
  lu_arg :: string
  lu_query :: string
  lu_full :: bool

definition lookup_key :: "lookup \<Rightarrow> string" where
  "lookup_key l = (if lu_query l \<noteq> [] then lu_query l else lu_arg l)"

definition resolve_row :: "string \<Rightarrow> lookup \<Rightarrow> string \<Rightarrow> db \<Rightarrow> write_error + ticket" where
  "resolve_row scope l noun d =
     (let rows = (if lu_full l then tickets_by_id scope (lookup_key l) d else tickets_by_short_id scope (lookup_key l) d) in
      if length rows = 0 then Inl (UnknownTicket noun (lu_arg l))
      else if length rows > 1 then Inl (Duplicated (tk_id (hd rows)) (map tk_path rows))
      else Inr (hd rows))"

definition resolve_write_row :: "string \<Rightarrow> lookup \<Rightarrow> db \<Rightarrow> write_error + ticket" where
  "resolve_write_row scope l d =
     rbind (resolve_row scope l ''ticket'' d) (\<lambda>p.
       if tk_parse_error p then Inl (Quarantined (tk_id p) (tk_parse_msg p)) else Inr p)"

definition max_valid_order :: "ticket list \<Rightarrow> string" where
  "max_valid_order rows =
     fold (\<lambda>p best. if tk_parse_error p \<or> \<not> valid (tk_order_key p) then best
                     else if best = [] \<or> tk_order_key p > best then tk_order_key p else best) rows []"

section \<open>Results\<close>

record mark_member =
  mb_path :: string
  mb_id :: string
  mb_old :: string
  mb_new :: string
  mb_moved :: bool
  mb_depends_open :: "string list"
  mb_required_missing :: "string list"

record wresult =
  wr_path :: string
  wr_id :: string
  wr_old :: string
  wr_new :: string
  wr_moved :: bool
  wr_depends_open :: "string list"
  wr_required_missing :: "string list"
  wr_members :: "mark_member list"
  wr_sync_needed :: string
  wr_sync_disabled :: "(string \<times> string) option"
  wr_warnings :: "rec_warning list"
  wr_tokens :: "string list"
  wr_apply_lens :: bool
  wr_lens :: "string list"
  wr_outside :: nat
  wr_blocked :: nat
  wr_archive_note :: bool
  wr_tag_new :: "string list"
  wr_edge_verify :: "string list"
  wr_sync_needed_all :: "string list"
  wr_push_failed :: bool

definition empty_result :: wresult where
  "empty_result =
     \<lparr>wr_path = [], wr_id = [], wr_old = [], wr_new = [], wr_moved = False, wr_depends_open = [],
      wr_required_missing = [], wr_members = [], wr_sync_needed = [], wr_sync_disabled = None, wr_warnings = [],
      wr_tokens = [], wr_apply_lens = False, wr_lens = [], wr_outside = 0, wr_blocked = 0, wr_archive_note = False,
      wr_tag_new = [], wr_edge_verify = [], wr_sync_needed_all = [], wr_push_failed = False\<rparr>"

definition sync_needed_lines :: "wresult \<Rightarrow> string list" where
  "sync_needed_lines r =
     (if length (wr_sync_needed_all r) > 0 then wr_sync_needed_all r
      else if wr_sync_needed r \<noteq> [] then [wr_sync_needed r] else [])"

definition result_tickets :: "wresult \<Rightarrow> mark_member list" where
  "result_tickets r =
     (if length (wr_members r) > 0 then wr_members r
      else if wr_path r = [] \<and> wr_id r = [] \<and> length (wr_depends_open r) = 0 \<and> length (wr_required_missing r) = 0 then []
      else [\<lparr>mb_path = wr_path r, mb_id = wr_id r, mb_old = wr_old r, mb_new = wr_new r, mb_moved = wr_moved r,
             mb_depends_open = wr_depends_open r, mb_required_missing = wr_required_missing r\<rparr>])"

section \<open>What the file operations leave\<close>

text \<open>The bytes of every file, without the modification times.\<close>

definition contents :: "machine \<Rightarrow> string \<Rightarrow> string option" where
  "contents m p = map_option f_data (disk_file (mc_disk m) p)"

lemma disk_file_put: "disk_file (mc_disk (put_file p f m)) q = (if q = p then Some f else disk_file (mc_disk m) q)"
  by (simp add: put_file_def disk_file_update)

lemma disk_file_drop: "disk_file (mc_disk (drop_file p m)) q = (if q = p then None else disk_file (mc_disk m) q)"
  by (simp add: drop_file_def disk_file_delete)

lemma disk_file_mkdir [simp]: "disk_file (mc_disk (make_dir d m)) = disk_file (mc_disk m)"
  by (simp add: make_dir_def disk_file_def fun_eq_iff)

lemma make_dir_same [simp]:
  "mc_db (make_dir d m) = mc_db m" "mc_clock (make_dir d m) = mc_clock m" "mc_calls (make_dir d m) = mc_calls m"
  by (simp_all add: make_dir_def)

lemma put_file_same [simp]:
  "mc_db (put_file p f m) = mc_db m" "mc_clock (put_file p f m) = mc_clock m" "mc_calls (put_file p f m) = mc_calls m"
  by (simp_all add: put_file_def)

lemma drop_file_same [simp]:
  "mc_db (drop_file p m) = mc_db m" "mc_clock (drop_file p m) = mc_clock m" "mc_calls (drop_file p m) = mc_calls m"
  by (simp_all add: drop_file_def)

lemma atomic_write_run:
  "atomic_write E path data m = (r, m') \<Longrightarrow>
     (r = Inr () \<and> disk_file (mc_disk m') = (disk_file (mc_disk m))(path \<mapsto> \<lparr>f_data = data, f_mtime = mc_clock m\<rparr>)
        \<and> mc_db m' = mc_db m \<and> mc_clock m' = mc_clock m \<and> mc_calls m' = mc_calls m) \<or>
     (r = Inl (WriteFailed path) \<and> m' = m)"
  by (auto simp: atomic_write_def disk_file_put fun_eq_iff split: if_splits)

lemma write_ticket_file_run:
  assumes "write_ticket_file E path fm body m = (r, m')"
  shows "(\<exists>interior. r = Inr () \<and> serialize (re_yaml (we_rec E)) fm = Inr interior \<and>
            disk_file (mc_disk m') = (disk_file (mc_disk m))(path \<mapsto> \<lparr>f_data = compose interior body, f_mtime = mc_clock m\<rparr>) \<and>
            mc_db m' = mc_db m \<and> mc_clock m' = mc_clock m \<and> mc_calls m' = mc_calls m) \<or>
     (\<exists>e. r = Inl e \<and> m' = m)"
proof (cases "serialize (re_yaml (we_rec E)) fm")
  case (Inl e)
  then show ?thesis using assms by (auto simp: write_ticket_file_def act_fail_def)
next
  case (Inr interior)
  then have "atomic_write E path (compose interior body) m = (r, m')" using assms by (simp add: write_ticket_file_def)
  from atomic_write_run [OF this] Inr show ?thesis by blast
qed

lemma mkdir_all_run:
  "mkdir_all E d m = (r, m') \<Longrightarrow>
     disk_file (mc_disk m') = disk_file (mc_disk m) \<and> mc_db m' = mc_db m \<and> mc_clock m' = mc_clock m \<and>
     mc_calls m' = mc_calls m"
  by (auto simp: mkdir_all_def split: if_splits)

lemma terminal_location_run:
  assumes "terminal_location E dir base terminal m = (r, m')"
  shows "disk_file (mc_disk m') = disk_file (mc_disk m) \<and> mc_db m' = mc_db m \<and> mc_clock m' = mc_clock m \<and>
     mc_calls m' = mc_calls m \<and>
     (\<forall>p. r = Inr p \<longrightarrow> p = (if terminal then path_join (path_join dir archive_dir) base else path_join dir base))"
proof (cases terminal)
  case False
  then show ?thesis using assms by (auto simp: terminal_location_def act_return_def)
next
  case True
  obtain r1 m1 where k: "mkdir_all E (path_join dir archive_dir) m = (r1, m1)" by (cases "mkdir_all E (path_join dir archive_dir) m")
  from mkdir_all_run [OF k] show ?thesis
    using assms True by (cases r1) (auto simp: terminal_location_def act_bind_def act_return_def k)
qed

lemma rename_file_run:
  "rename_file E old new m = (r, m') \<Longrightarrow>
     (\<exists>f. r = Inr () \<and> disk_file (mc_disk m) old = Some f \<and>
        disk_file (mc_disk m') = (disk_file (mc_disk m))(old := None, new \<mapsto> f) \<and> mc_db m' = mc_db m \<and>
        mc_clock m' = mc_clock m \<and> mc_calls m' = mc_calls m) \<or>
     (r = Inl (MoveFailed old new) \<and> m' = m)"
  by (auto simp: rename_file_def disk_file_put disk_file_drop fun_eq_iff split: if_splits option.splits)

lemma rename_file_InrE:
  assumes "rename_file E old new m = (Inr (), m')"
  obtains f where "disk_file (mc_disk m) old = Some f" "disk_file (mc_disk m') = (disk_file (mc_disk m))(old := None, new \<mapsto> f)"
    "mc_db m' = mc_db m" "mc_clock m' = mc_clock m"
proof -
  from rename_file_run [OF assms] show ?thesis
  proof (elim disjE exE conjE)
    fix f
    assume "disk_file (mc_disk m) old = Some f" "disk_file (mc_disk m') = (disk_file (mc_disk m))(old := None, new \<mapsto> f)"
      "mc_db m' = mc_db m" "mc_clock m' = mc_clock m"
    then show ?thesis by (rule that)
  qed simp
qed

lemma sync_now_run:
  "sync_now E scope paths m = (r, m') \<Longrightarrow>
     mc_disk m' = mc_disk m \<and> mc_clock m' = mc_clock m \<and> mc_calls m' = mc_calls m \<and>
     (\<exists>err. sync_paths (we_rec E) scope (info_of (mc_disk m)) (mc_disk m) paths (mc_db m) = (err, mc_db m') \<and>
        (r = Inr () \<longleftrightarrow> err = None))"
  by (auto simp: sync_now_def split: prod.splits option.splits)

lemma reconcile_now_run:
  "reconcile_now E targets m = (r, m') \<Longrightarrow>
     mc_disk m' = mc_disk m \<and> mc_clock m' = mc_clock m \<and> mc_calls m' = mc_calls m"
  by (auto simp: reconcile_now_def split: prod.splits sum.splits)

lemma commit_files:
  "stage_and_commit G root message paths m = (e, m') \<Longrightarrow> mc_disk m' = mc_disk m \<and> mc_db m' = mc_db m \<and> mc_clock m' = mc_clock m"
  by (auto simp: stage_and_commit_def commit_staged_def unstage_after_def log_call_def
      split: option.splits sum.splits bool.splits)

lemma commit_paths_files:
  "commit_paths_core G root message paths m = (e, m') \<Longrightarrow> mc_disk m' = mc_disk m \<and> mc_db m' = mc_db m \<and> mc_clock m' = mc_clock m"
  by (auto simp: commit_paths_core_def Let_def commit_files split: if_splits dest: commit_files)

lemma commit_core_files:
  "commit_core G root message new old m = (e, m') \<Longrightarrow> mc_disk m' = mc_disk m \<and> mc_db m' = mc_db m \<and> mc_clock m' = mc_clock m"
  by (auto simp: commit_core_def Let_def dest: commit_files)

lemma complete_paths_files:
  "complete_paths E scope dir auto message paths root m = (r, m') \<Longrightarrow>
     mc_disk m' = mc_disk m \<and> mc_db m' = mc_db m \<and> mc_clock m' = mc_clock m"
  by (auto simp: complete_paths_def dest: commit_paths_files split: if_splits option.splits prod.splits)

section \<open>Reading back\<close>

text \<open>
  What a write engine relies on the codec for: the model it writes makes complete lines without
  a fence, and the values come back as they were.
\<close>

definition writes_back :: "yaml \<Rightarrow> fm_model \<Rightarrow> bool" where
  "writes_back Y fm \<longleftrightarrow>
     list_all (\<lambda>(k, v). \<not> is_builtin_key k) (fm_custom fm) \<and> yaml_round_trips Y (fm_items fm) \<and>
     (case serialize Y fm of Inl e \<Rightarrow> True | Inr text \<Rightarrow> fence_free text)"

lemma written_parses:
  assumes "writes_back Y fm" "serialize Y fm = Inr text"
  shows "split_fence (compose text body) = (text, body, True)" "parse_fm Y text = Inr fm"
  using assms split_compose [of "text" body] parse_written_items [of fm]
  by (auto simp: writes_back_def yaml_round_trips_def serialize_def parse_fm_def)

lemma read_written:
  assumes "writes_back (re_yaml (we_rec E)) fm" "serialize (re_yaml (we_rec E)) fm = Inr text"
    and "contents m p = Some (compose text body)" "\<not> we_fault E (IoRead p)"
  shows "read_ticket_file E p m = Inr (fm, body)"
proof -
  from assms(3) obtain f where "disk_file (mc_disk m) p = Some f" "f_data f = compose text body"
    by (auto simp: contents_def)
  then show ?thesis using written_parses(1) [OF assms(1,2), of body] written_parses(2) [OF assms(1,2)] assms(4) by (simp add: read_ticket_file_def)
qed

text \<open>
  The laws of the codec: it decodes to plain values (never to a typed string list), and a model of
  plain values under custom keys survives.
\<close>

fun decodable :: "goval \<Rightarrow> bool" where
  "decodable (VStrs ss) \<longleftrightarrow> False"
| "decodable (VList vs) \<longleftrightarrow> list_all decodable vs"
| "decodable _ \<longleftrightarrow> True"

definition model_ok :: "fm_model \<Rightarrow> bool" where
  "model_ok fm \<longleftrightarrow> list_all (\<lambda>(k, v). \<not> is_builtin_key k \<and> decodable v) (fm_custom fm)"

definition codec_ok :: "yaml \<Rightarrow> bool" where
  "codec_ok Y \<longleftrightarrow>
     (\<forall>doc items. y_unmarshal Y doc = Inr items \<longrightarrow> list_all (\<lambda>(k, v). decodable v) items) \<and>
     (\<forall>fm. model_ok fm \<longrightarrow> writes_back Y fm)"

lemma codec_writes_back: "codec_ok Y \<Longrightarrow> model_ok fm \<Longrightarrow> writes_back Y fm"
  by (simp add: codec_ok_def)

lemma parse_items_model_ok:
  "parse_items m items = Inr m' \<Longrightarrow> list_all (\<lambda>(k, v). decodable v) items \<Longrightarrow> model_ok m \<Longrightarrow> model_ok m'"
proof (induction items arbitrary: m)
  case (Cons it items)
  obtain k v where it: "it = (k, v)" by (cases it)
  show ?case
  proof (cases "is_builtin_key (sprint k)")
    case False
    then show ?thesis using Cons it by (simp add: Let_def model_ok_def)
  next
    case True
    then obtain m1 where m1: "assign_builtin m (sprint k) v = Inr m1" "parse_items m1 items = Inr m'"
      using Cons.prems(1) it by (auto simp: Let_def rbind_Inr_iff)
    have "fm_custom m1 = fm_custom m"
      using m1(1) by (auto simp: assign_builtin_def assign_list_def split: if_splits sum.splits)
    then show ?thesis using Cons.IH [OF m1(2)] Cons.prems(2,3) it by (simp add: model_ok_def)
  qed
qed simp

lemma parsed_model_ok: "codec_ok Y \<Longrightarrow> parse_fm Y doc = Inr fm \<Longrightarrow> model_ok fm"
  using parse_items_model_ok [of empty_model _ fm]
  by (auto simp: parse_fm_def codec_ok_def model_ok_def empty_model_def split: sum.splits)

text \<open>What a reader of the file at a path sees.\<close>

definition ticket_at :: "yaml \<Rightarrow> machine \<Rightarrow> string \<Rightarrow> (fm_model \<times> string) option" where
  "ticket_at Y m p =
     (case contents m p of
        None \<Rightarrow> None
      | Some data \<Rightarrow>
          (case split_fence data of
             (interior, body, present) \<Rightarrow>
               if \<not> present then None
               else case parse_fm Y interior of Inl e \<Rightarrow> None | Inr fm \<Rightarrow> Some (fm, body)))"

lemma read_ticket_at: "read_ticket_file E p m = Inr x \<Longrightarrow> ticket_at (re_yaml (we_rec E)) m p = Some x"
  by (auto simp: read_ticket_file_def ticket_at_def contents_def split: option.splits if_splits prod.splits sum.splits)

lemma ticket_at_ok: "codec_ok Y \<Longrightarrow> ticket_at Y m p = Some (fm, body) \<Longrightarrow> model_ok fm"
  by (auto simp: ticket_at_def split: option.splits if_splits prod.splits sum.splits dest: parsed_model_ok)

lemma ticket_at_written:
  assumes "codec_ok Y" "model_ok fm" "serialize Y fm = Inr interior" "contents m p = Some (compose interior body)"
  shows "ticket_at Y m p = Some (fm, body)"
  using written_parses [OF codec_writes_back [OF assms(1,2)] assms(3)] assms(4) by (simp add: ticket_at_def)

section \<open>The index follows the files\<close>

text \<open>Every file of the scope is shown by its row, no other row is left, and no file is from the future.\<close>

definition index_current :: "wenv \<Rightarrow> string \<Rightarrow> string \<Rightarrow> machine \<Rightarrow> bool" where
  "index_current E scope dir m \<longleftrightarrow>
     db_ok (mc_db m) \<and> (\<forall>p f. disk_file (mc_disk m) p = Some f \<longrightarrow> f_mtime f \<le> mc_clock m) \<and>
     (\<forall>p full archived. slot scope dir p = Some (full, archived) \<longrightarrow>
        row_view (mc_db m) p = map_option (scan_view (we_rec E) scope p full archived) (disk_file (mc_disk m) p))"

lemma scan_view_mtime: "tk_mtime (fst (scan_view R scope p full archived f)) = f_mtime f"
  by (cases "parse_file R p scope full archived (f_mtime f) (int (length (f_data f))) (f_data f)")
    (auto simp: scan_view_def file_view_def stored_ticket_def dest: parse_file_row(1))

lemma sync_path_now:
  assumes ok: "db_ok d" and plain: "plain_dir dir"
    and old: "\<And>v. slot scope dir p \<noteq> None \<Longrightarrow> row_view d p = Some v \<Longrightarrow> tk_mtime (fst v) \<le> t"
    and new: "\<And>f. disk_file k p = Some f \<Longrightarrow> f_mtime f = t"
    and run: "sync_path R scope (info_of k) k p d = (err, d')"
  shows "err = None \<and> db_ok d' \<and> db_meta d' = db_meta d \<and> (\<forall>q. q \<noteq> p \<longrightarrow> row_view d' q = row_view d q) \<and>
     (\<forall>full archived. slot scope dir p = Some (full, archived) \<longrightarrow>
        row_view d' p = map_option (scan_view R scope p full archived) (disk_file k p))"
proof -
  from sync_path_runs [OF ok run]
  have d': "db_ok d'" "db_meta d' = db_meta d"
    "row_view d' = (row_view d)(p := sync_effect R scope (info_of k) k p (row_view d p))" by auto
  have err: "err = None"
  proof (cases "disk_file k p")
    case None
    then show ?thesis using run by (simp add: sync_path_def info_of_def)
  next
    case (Some f)
    then have info: "info_of k p = InfoOf (f_mtime f) (int (length (f_data f)))" by (simp add: info_of_def)
    show ?thesis
    proof (cases "ticket_id scope (path_base p)")
      case None
      then show ?thesis using run info by (simp add: sync_path_def)
    next
      case id: (Some full)
      have w: "fst (sync_write w d) = None" if "op_ok w" "\<And>s ns. w \<noteq> WSetLastIndex s ns" for w
        using sync_write_runs [OF ok that] by auto
      show ?thesis
      proof (cases "path_base (path_dir p) = design_dir")
        case True
        obtain q es where pd: "parse_design R p scope full (f_mtime f) (int (length (f_data f))) (f_data f) = (q, es)" by fastforce
        from w [of "WUpsertDesign q es"] parse_design_row [OF pd] show ?thesis
          using run info id Some True pd by (simp add: sync_path_def)
      next
        case False
        obtain q es where pf: "parse_file R p scope full (path_base (path_dir p) = archive_dir) (f_mtime f)
            (int (length (f_data f))) (f_data f) = (q, es)" by fastforce
        from w [of "WUpsertTicket q es"] parse_file_row [OF pf] show ?thesis
          using run info id Some False pf by (simp add: sync_path_def)
      qed
    qed
  qed
  have "row_view d' p = map_option (scan_view R scope p full archived) (disk_file k p)"
    if s: "slot scope dir p = Some (full, archived)" for full archived
  proof (cases "disk_file k p")
    case None
    then show ?thesis using d'(3) by (simp add: sync_effect_def info_of_def)
  next
    case (Some f)
    note sl = slot_sync [OF plain s]
    obtain r es where pf: "parse_file R p scope full archived (f_mtime f) (int (length (f_data f))) (f_data f) = (r, es)" by fastforce
    have r: "tk_mtime r = f_mtime f" using parse_file_row(1) [OF pf] by simp
    have eff: "sync_effect R scope (info_of k) k p (row_view d p) = op_at (WUpsertTicket r es) (row_view d p)"
      using Some sl pf by (simp add: sync_effect_def info_of_def del: op_at.simps)
    have "\<not> tk_mtime (fst v) > tk_mtime r" if "row_view d p = Some v" for v
      using old [OF _ that] s new [OF Some] r by simp
    then have "op_at (WUpsertTicket r es) (row_view d p) = Some (file_view r es)"
      by (cases "row_view d p") auto
    then show ?thesis using d'(3) eff Some pf by (simp add: scan_view_def)
  qed
  with err d' show ?thesis by auto
qed

lemma sync_paths_now:
  assumes plain: "plain_dir dir" and ok: "db_ok d"
    and rows: "\<And>q full archived. slot scope dir q = Some (full, archived) \<Longrightarrow> q \<notin> set paths \<Longrightarrow>
        row_view d q = map_option (scan_view R scope q full archived) (disk_file k q)"
    and old: "\<And>q v. slot scope dir q \<noteq> None \<Longrightarrow> row_view d q = Some v \<Longrightarrow> tk_mtime (fst v) \<le> t"
    and files: "\<And>q f. disk_file k q = Some f \<Longrightarrow> f_mtime f \<le> t"
    and new: "\<And>q f. q \<in> set paths \<Longrightarrow> disk_file k q = Some f \<Longrightarrow> f_mtime f = t"
    and run: "sync_paths R scope (info_of k) k paths d = (err, d')"
  shows "err = None \<and> db_ok d' \<and> db_meta d' = db_meta d \<and>
     (\<forall>q full archived. slot scope dir q = Some (full, archived) \<longrightarrow>
        row_view d' q = map_option (scan_view R scope q full archived) (disk_file k q))"
  using ok rows old new run
proof (induction paths arbitrary: d)
  case Nil
  then show ?case by simp
next
  case (Cons p paths)
  obtain e1 d1 where p: "sync_path R scope (info_of k) k p d = (e1, d1)" by (cases "sync_path R scope (info_of k) k p d")
  have one: "e1 = None \<and> db_ok d1 \<and> db_meta d1 = db_meta d \<and> (\<forall>q. q \<noteq> p \<longrightarrow> row_view d1 q = row_view d q) \<and>
     (\<forall>full archived. slot scope dir p = Some (full, archived) \<longrightarrow>
        row_view d1 p = map_option (scan_view R scope p full archived) (disk_file k p))"
    by (rule sync_path_now [where t = t, OF Cons.prems(1) plain Cons.prems(3) Cons.prems(4) p]) simp_all
  have run': "sync_paths R scope (info_of k) k paths d1 = (err, d')" using Cons.prems(5) p one by simp
  have "err = None \<and> db_ok d' \<and> db_meta d' = db_meta d1 \<and>
     (\<forall>q full archived. slot scope dir q = Some (full, archived) \<longrightarrow>
        row_view d' q = map_option (scan_view R scope q full archived) (disk_file k q))"
  proof (rule Cons.IH [OF _ _ _ _ run'])
    show "db_ok d1" using one by simp
    show "row_view d1 q = map_option (scan_view R scope q full archived) (disk_file k q)"
      if "slot scope dir q = Some (full, archived)" "q \<notin> set paths" for q full archived
      using that one Cons.prems(2) [OF that(1)] by (cases "q = p") auto
    show "tk_mtime (fst v) \<le> t" if sl: "slot scope dir q \<noteq> None" and v: "row_view d1 q = Some v" for q v
    proof (cases "q = p")
      case True
      obtain full archived where "slot scope dir p = Some (full, archived)"
        using sl True by (cases "slot scope dir p") auto
      with one v True obtain f where "disk_file k p = Some f" "v = scan_view R scope p full archived f" by auto
      then show ?thesis using files by (simp add: scan_view_mtime)
    next
      case False
      then show ?thesis using sl v one Cons.prems(3) by auto
    qed
    show "f_mtime f = t" if "q \<in> set paths" "disk_file k q = Some f" for q f
      by (rule Cons.prems(4) [of q]) (use that in simp_all)
  qed
  then show ?case using one by simp
qed

text \<open>Files change at some paths, with the time of the clock; writing these paths through catches up.\<close>

lemma sync_now_current:
  assumes cur: "index_current E scope dir m" and plain: "plain_dir dir"
    and same: "mc_db m1 = mc_db m" "mc_clock m1 = mc_clock m"
    and off: "\<And>q. q \<notin> set paths \<Longrightarrow> disk_file (mc_disk m1) q = disk_file (mc_disk m) q"
    and on: "\<And>q f. q \<in> set paths \<Longrightarrow> disk_file (mc_disk m1) q = Some f \<Longrightarrow> f_mtime f = mc_clock m"
    and run: "sync_now E scope paths m1 = (r, m2)"
  shows "r = Inr () \<and> index_current E scope dir m2 \<and> mc_disk m2 = mc_disk m1 \<and> mc_clock m2 = mc_clock m"
proof -
  from sync_now_run [OF run] same obtain err where m2: "mc_disk m2 = mc_disk m1" "mc_clock m2 = mc_clock m"
    and sy: "sync_paths (we_rec E) scope (info_of (mc_disk m1)) (mc_disk m1) paths (mc_db m) = (err, mc_db m2)"
    and r: "r = Inr () \<longleftrightarrow> err = None" by auto
  have c: "db_ok (mc_db m)" "\<And>q f. disk_file (mc_disk m) q = Some f \<Longrightarrow> f_mtime f \<le> mc_clock m"
    and rows: "\<And>q full archived. slot scope dir q = Some (full, archived) \<Longrightarrow>
       row_view (mc_db m) q = map_option (scan_view (we_rec E) scope q full archived) (disk_file (mc_disk m) q)"
    using cur by (auto simp: index_current_def)
  have files: "f_mtime f \<le> mc_clock m" if "disk_file (mc_disk m1) q = Some f" for q f
    using that on off c(2) by (cases "q \<in> set paths") auto
  have "err = None \<and> db_ok (mc_db m2) \<and> db_meta (mc_db m2) = db_meta (mc_db m) \<and>
     (\<forall>q full archived. slot scope dir q = Some (full, archived) \<longrightarrow>
        row_view (mc_db m2) q = map_option (scan_view (we_rec E) scope q full archived) (disk_file (mc_disk m1) q))"
  proof (rule sync_paths_now [OF plain c(1) _ _ files on sy])
    show "row_view (mc_db m) q = map_option (scan_view (we_rec E) scope q full archived) (disk_file (mc_disk m1) q)"
      if "slot scope dir q = Some (full, archived)" "q \<notin> set paths" for q full archived
      using rows [OF that(1)] off [OF that(2)] by simp
    show "tk_mtime (fst v) \<le> mc_clock m" if sl: "slot scope dir q \<noteq> None" and v: "row_view (mc_db m) q = Some v" for q v
    proof -
      obtain full archived where s: "slot scope dir q = Some (full, archived)" using sl by (cases "slot scope dir q") auto
      with rows v obtain f where "disk_file (mc_disk m) q = Some f" "v = scan_view (we_rec E) scope q full archived f"
        by auto
      then show ?thesis using c(2) by (simp add: scan_view_mtime)
    qed
  qed
  then show ?thesis using r m2 files by (simp add: index_current_def)
qed

lemma index_current_files:
  "index_current E scope dir m \<Longrightarrow> mc_disk m' = mc_disk m \<Longrightarrow> mc_db m' = mc_db m \<Longrightarrow> mc_clock m' = mc_clock m \<Longrightarrow>
     index_current E scope dir m'"
  by (simp add: index_current_def)

section \<open>A begun session is current\<close>

lemma map_of_filter_other: "k \<noteq> k' \<Longrightarrow> map_of (filter (\<lambda>(s, _). s \<noteq> k') xs) k = map_of xs k"
  by (induction xs) auto

lemma view_delete_scope:
  assumes ok: "db_ok d" and own: "\<And>v. row_view d p = Some v \<Longrightarrow> tk_scope (fst v) \<noteq> s"
  shows "row_view (delete_scope s d) p = row_view d p"
proof -
  let ?rows = "filter (\<lambda>(_, t). tk_scope t \<noteq> s) (db_tickets d)"
  have dist: "distinct (map (tk_path \<circ> snd) (db_tickets d))" using distinct_paths_rows [OF ok] by simp
  have rows: "db_tickets (delete_scope s d) = ?rows" by (simp add: delete_scope_def Let_def)
  show ?thesis
  proof (cases "row_at tk_path p (db_tickets d)")
    case None
    then have "row_at tk_path p ?rows = None" by (auto simp: row_at_None)
    with None show ?thesis by (simp add: row_view_def rows)
  next
    case (Some ir)
    obtain i r where ir: "ir = (i, r)" by (cases ir)
    with Some have r: "(i, r) \<in> set (db_tickets d)" "tk_path r = p" using row_at_Some by fastforce+
    have rs: "tk_scope r \<noteq> s" using own Some ir by (simp add: row_view_def)
    then have "(i, r) \<in> set ?rows" using r by simp
    moreover have "distinct (map (tk_path \<circ> snd) ?rows)" using dist by (rule distinct_map_filter)
    ultimately have at: "row_at tk_path p ?rows = Some (i, r)" using row_at_unique [of tk_path ?rows i r] r(2) by simp
    have other: "tk_path t \<noteq> p" if "(j, t) \<in> set (db_tickets d)" "tk_scope t = s" for j t
      using distinct_map_eqD [OF dist that(1) r(1)] that(2) rs r(2) by auto
    have tags: "filter (\<lambda>(q, _). q = p) (db_tags (delete_scope s d)) = filter (\<lambda>(q, _). q = p) (db_tags d)"
      by (auto simp: delete_scope_def Let_def filter_filter intro!: filter_cong) (use other in blast)
    have edges: "{e \<in> set (db_edges (delete_scope s d)). owned_by_ticket p e} = {e \<in> set (db_edges d). owned_by_ticket p e}"
      by (auto simp: delete_scope_def Let_def owned_by_ticket_def owned_by_design_def) (use other in blast)+
    show ?thesis using Some ir at by (simp add: row_view_def rows tags edges)
  qed
qed

lemma delete_scope_world:
  assumes "world_ok R name dir \<lparr>w_disk = k, w_clock = t, w_db = d\<rparr>" "s \<noteq> name"
  shows "world_ok R name dir \<lparr>w_disk = k, w_clock = t, w_db = delete_scope s d\<rparr>"
proof -
  have ok: "db_ok d" using assms(1) by (simp add: world_ok_def)
  have li: "last_index name (delete_scope s d) = last_index name d"
    using assms(2) by (simp add: last_index_def delete_scope_def Let_def map_of_filter_other)
  have "row_view (delete_scope s d) p = row_view d p" if "slot name dir p = Some (full, archived)" for p full archived
  proof (rule view_delete_scope [OF ok])
    fix v assume "row_view d p = Some v"
    from world_rows [OF assms(1) that] this assms(2) show "tk_scope (fst v) \<noteq> s" by (simp add: row_fits_def)
  qed
  then show ?thesis using assms(1) delete_scope_ok [OF ok] li by (auto simp: world_ok_def)
qed

lemma prune_world:
  assumes "world_ok R name dir \<lparr>w_disk = k, w_clock = t, w_db = d\<rparr>" "name \<in> registered"
  shows "world_ok R name dir \<lparr>w_disk = k, w_clock = t, w_db = prune_forgotten registered d\<rparr>"
proof -
  have "world_ok R name dir \<lparr>w_disk = k, w_clock = t, w_db = fold (\<lambda>scope d. if scope \<in> registered then d else delete_scope scope d) xs d'\<rparr>"
    if "world_ok R name dir \<lparr>w_disk = k, w_clock = t, w_db = d'\<rparr>" for xs d'
    using that
  proof (induction xs arbitrary: d')
    case (Cons x xs)
    have "world_ok R name dir \<lparr>w_disk = k, w_clock = t, w_db = (if x \<in> registered then d' else delete_scope x d')\<rparr>"
      using delete_scope_world [OF Cons.prems, of x] Cons.prems assms(2) by auto
    from Cons.IH [OF this] show ?case by simp
  qed simp
  from this [OF assms(1)] show ?thesis by (simp add: prune_forgotten_def)
qed

text \<open>The schema that \<open>tk.cue\<close> of a directory gives.\<close>

definition dir_schema :: "wenv \<Rightarrow> string \<Rightarrow> schema option" where
  "dir_schema E dir = fst (schema_or_error (we_rec E) dir)"

definition machine_ok :: "wenv \<Rightarrow> string \<Rightarrow> string \<Rightarrow> machine \<Rightarrow> bool" where
  "machine_ok E scope dir m \<longleftrightarrow>
     world_ok (we_rec E) scope dir \<lparr>w_disk = mc_disk m, w_clock = mc_clock m, w_db = mc_db m\<rparr> \<and>
     plain_dir dir \<and> scope \<in> registered_set E"

text \<open>A pass over one scope that reached its directory.\<close>

lemma reconcile_one:
  assumes run: "reconcile_now E [(scope, dir)] m = (Inr res, m')" and use: "refuse_unusable res scope dir = None"
  shows "\<exists>d. reconcile_scope (we_rec E) scope dir (mc_clock m) (mc_disk m) (mc_disk m) (stat_of (mc_disk m))
       (prune_forgotten (registered_set E) (mc_db m)) = Inr (True, d) \<and> m' = m\<lparr>mc_db := d\<rparr> \<and>
     result_schema res scope = dir_schema E dir"
proof -
  let ?d0 = "prune_forgotten (registered_set E) (mc_db m)"
  let ?run = "reconcile_scope (we_rec E) scope dir (mc_clock m) (mc_disk m) (mc_disk m) (stat_of (mc_disk m)) ?d0"
  obtain reached d where rs: "?run = Inr (reached, d)"
    using run by (cases ?run) (auto simp: reconcile_now_def reconcile_def reconcile_rows_def look_now_def)
  show ?thesis
  proof (cases reached)
    case False
    then show ?thesis using run use rs
      by (auto simp: reconcile_now_def reconcile_def reconcile_rows_def look_now_def refuse_unusable_def append_aggregates_def)
  next
    case True
    obtain schema cfg where sc: "schema_or_error (we_rec E) dir = (schema, cfg)" by (cases "schema_or_error (we_rec E) dir")
    show ?thesis using run use rs True sc
      by (cases cfg) (auto simp: reconcile_now_def reconcile_def reconcile_rows_def look_now_def refuse_unusable_def
          append_aggregates_def result_schema_def dir_schema_def new_result_def)
  qed
qed

lemma reconcile_one_current:
  assumes ok: "machine_ok E scope dir m" and run: "reconcile_now E [(scope, dir)] m = (Inr res, m')"
    and use: "refuse_unusable res scope dir = None"
  shows "index_current E scope dir m'"
proof -
  let ?w = "\<lparr>w_disk = mc_disk m, w_clock = mc_clock m, w_db = prune_forgotten (registered_set E) (mc_db m)\<rparr>"
  have w: "world_ok (we_rec E) scope dir ?w" using prune_world ok by (simp add: machine_ok_def)
  obtain d where d: "reconcile_scope (we_rec E) scope dir (mc_clock m) (mc_disk m) (mc_disk m) (stat_of (mc_disk m)) (w_db ?w) = Inr (True, d)"
    "m' = m\<lparr>mc_db := d\<rparr>"
    using reconcile_one [OF run use] by auto
  obtain files where files: "stat_scope (mc_disk m) scope dir = Some files"
    using d(1) by (cases "stat_scope (mc_disk m) scope dir") (auto simp: reconcile_scope_def)
  obtain ds where ds: "stat_designs (mc_disk m) scope dir = Inr ds"
    using d(1) files by (cases "stat_designs (mc_disk m) scope dir") (auto simp: reconcile_scope_def)
  have "dir \<in> set (dk_dirs (mc_disk m))"
    using files by (auto simp: stat_scope_def collect_dir_def read_dir_def split: option.splits if_splits)
  from pass_exact [OF w, of ds] this ds d(1)
  have "db_ok d" "\<And>p full archived. slot scope dir p = Some (full, archived) \<Longrightarrow>
      row_view d p = map_option (scan_view (we_rec E) scope p full archived) (disk_file (mc_disk m) p)"
    by auto
  moreover have "f_mtime f \<le> mc_clock m" if "disk_file (mc_disk m) p = Some f" for p f
    using w that by (simp add: world_ok_def quiet_def)
  ultimately show ?thesis using d(2) by (simp add: index_current_def)
qed

lemma begin_status_run:
  assumes "begin_status_write E scope dir m = (r, m')"
  shows "mc_disk m' = mc_disk m \<and> mc_clock m' = mc_clock m \<and> mc_calls m' = mc_calls m \<and>
    (\<forall>s. r = Inr s \<longrightarrow> se_scope s = scope \<and> se_dir s = dir \<and> se_schema s = dir_schema E dir \<and>
       se_auto s = schema_auto_commit (dir_schema E dir) \<and> se_root s = we_root E dir \<and>
       (machine_ok E scope dir m \<longrightarrow> index_current E scope dir m'))"
proof -
  obtain r1 m1 where rc: "reconcile_now E [(scope, dir)] m = (r1, m1)" by (cases "reconcile_now E [(scope, dir)] m")
  from reconcile_now_run [OF rc] have m1: "mc_disk m1 = mc_disk m" "mc_clock m1 = mc_clock m" "mc_calls m1 = mc_calls m" by auto
  show ?thesis
  proof (cases r1)
    case (Inl e)
    then show ?thesis using assms rc m1 by (auto simp: begin_status_write_def act_bind_def)
  next
    case (Inr res)
    show ?thesis
    proof (cases "refuse_unusable res scope dir")
      case (Some e)
      then show ?thesis using assms rc m1 Inr by (auto simp: begin_status_write_def act_bind_def act_refuse_def)
    next
      case None
      note one = reconcile_one [OF rc [unfolded Inr] None]
      have "index_current E scope dir m1" if "machine_ok E scope dir m"
        by (rule reconcile_one_current [OF that rc [unfolded Inr] None])
      then show ?thesis using assms rc m1 Inr None one
        by (auto simp: begin_status_write_def act_bind_def act_refuse_def act_return_def)
    qed
  qed
qed

section \<open>A small machine\<close>

text \<open>A codec that knows the documents of a table, a git that never refuses, one scope at \<open>/s\<close>.\<close>

definition table_codec :: "(fm_model \<times> string) list \<Rightarrow> yaml" where
  "table_codec tbl =
     \<lparr>y_unmarshal = (\<lambda>doc. case find (\<lambda>(fm, t). t = doc) tbl of
          Some (fm, t) \<Rightarrow> Inr (decode_items (fm_items fm)) | None \<Rightarrow> Inl ''unknown''),
      y_marshal = (\<lambda>items. case find (\<lambda>(fm, t). fm_items fm = items) tbl of Some (fm, t) \<Rightarrow> Inr t | None \<Rightarrow> Inl ''unknown'')\<rparr>"

definition sample_git :: git_view where
  "sample_git =
     \<lparr>gv_merging = (\<lambda>m r. False), gv_rebasing = (\<lambda>m r. False), gv_unmerged = (\<lambda>m r. []), gv_upstream = (\<lambda>m r. False),
      gv_push_error = (\<lambda>m r. False), gv_dirty = (\<lambda>m d r. 0), gv_unpushed = (\<lambda>m r. Some 0), gv_tracked = (\<lambda>m r p. False),
      gv_add = (\<lambda>m r ps. None), gv_staged = (\<lambda>m r ps. Inr True), gv_commit = (\<lambda>m r s ps. None), gv_unstage = (\<lambda>m r ps. None)\<rparr>"

definition plain_schema :: schema where
  "plain_schema = \<lparr>sc_name = ''app'', sc_auto_commit = False, sc_hold = None, sc_statuses = [], sc_fields = []\<rparr>"

definition table_env :: "(fm_model \<times> string) list \<Rightarrow> schema \<Rightarrow> wenv" where
  "table_env tbl schema =
     \<lparr>we_rec = \<lparr>re_yaml = table_codec tbl, re_msg = (\<lambda>e. ''bad''), re_config = (\<lambda>d. Inr schema)\<rparr>,
      we_git = sample_git, we_reg = [(''app'', ''/s'')], we_resolve = (\<lambda>s. None), we_lens = (\<lambda>s. []), we_stamp = ''now'',
      we_root = (\<lambda>d. None), we_fault = (\<lambda>x. False)\<rparr>"

definition doc_ticket :: "string \<Rightarrow> string \<Rightarrow> string \<Rightarrow> string \<Rightarrow> fm_model" where
  "doc_ticket i st changed key = empty_model\<lparr>fm_id := i, fm_status := st, fm_changed := changed, fm_order := key\<rparr>"

definition machine_of :: "(string \<times> string) list \<Rightarrow> machine" where
  "machine_of files =
     \<lparr>mc_disk = \<lparr>dk_files = map (\<lambda>(p, t). (p, \<lparr>f_data = t, f_mtime = 5\<rparr>)) files, dk_dirs = [''/s'', ''/s/archive''], dk_locked = []\<rparr>,
      mc_clock = 9, mc_db = empty_db, mc_calls = []\<rparr>"

definition line_of :: "string \<Rightarrow> string" where
  "line_of s = s @ [newline]"

definition short_lookup :: "string \<Rightarrow> lookup" where
  "short_lookup s = \<lparr>lu_arg = s, lu_query = [], lu_full = False\<rparr>"


lemma table_codec_ok:
  assumes "distinct (map snd tbl)" "list_all (\<lambda>(fm, t). fence_free t \<and> model_ok fm) tbl"
  shows "codec_ok (table_codec tbl)"
proof -
  have "list_all (\<lambda>(k, v). decodable v) (decode_items (fm_items fm))" if "model_ok fm" for fm
    using that by (auto simp: fm_items_def model_ok_def list_item_def string_item_def list_all_iff)
  moreover have "\<exists>fm t. (fm, t) \<in> set tbl \<and> items = decode_items (fm_items fm)"
    if "y_unmarshal (table_codec tbl) doc = Inr items" for doc items
  proof (cases "find (\<lambda>(fm, t). t = doc) tbl")
    case (Some e)
    obtain fm t where e: "e = (fm, t)" by (cases e)
    have "(fm, t) \<in> set tbl" using Some e by (auto simp: find_Some_iff in_set_conv_nth)
    moreover have "items = decode_items (fm_items fm)" using that by (simp add: table_codec_def Some e)
    ultimately show ?thesis by blast
  qed (use that in \<open>simp add: table_codec_def\<close>)
  ultimately have "list_all (\<lambda>(k, v). decodable v) items" if "y_unmarshal (table_codec tbl) doc = Inr items" for doc items
    using that assms(2) unfolding list_all_iff by fastforce
  moreover have "writes_back (table_codec tbl) fm" if "model_ok fm" for fm
  proof (cases "find (\<lambda>(fm', t). fm_items fm' = fm_items fm) tbl")
    case None
    then show ?thesis using that
      by (auto simp: writes_back_def yaml_round_trips_def serialize_def table_codec_def model_ok_def list_all_iff)
  next
    case (Some e)
    obtain fm' t where e: "e = (fm', t)" by (cases e)
    have mem: "(fm', t) \<in> set tbl" "fm_items fm' = fm_items fm"
      using Some e by (auto simp: find_Some_iff in_set_conv_nth)
    obtain fm2 t2 where f2: "find (\<lambda>(fm, u). u = t) tbl = Some (fm2, t2)"
      using mem(1) by (cases "find (\<lambda>(fm, u). u = t) tbl") (auto simp: find_None_iff)
    then have "(fm2, t2) \<in> set tbl" "t2 = t" by (auto simp: find_Some_iff in_set_conv_nth)
    then have "fm2 = fm'" using distinct_map_eqD [OF assms(1), of "(fm2, t2)" "(fm', t)"] mem(1) by simp
    then show ?thesis using that Some e f2 mem assms(2)
      by (auto simp: writes_back_def yaml_round_trips_def serialize_def table_codec_def model_ok_def list_all_iff)
  qed
  ultimately show ?thesis by (simp add: codec_ok_def)
qed

end
