(* ===== verification/Marks.thy ===== *)
theory Marks
  imports Sessions
begin

text \<open>
  Status writes of \<open>internal/writeengine\<close>: \<open>tk mark\<close> (\<open>mark.go\<close>) and the claim of a ticket
  (\<open>claim.go\<close>), by id or the next ready one, with its refresh before and its push after the
  locked part. The refresh, the push and what other processes do before the lock is taken are
  parameters that may change the machine in any way. Progress lines are not modelled.
\<close>

section \<open>One ticket\<close>

record prepared =
  pr_lookup :: lookup
  pr_ticket :: ticket
  pr_model :: fm_model
  pr_body :: string
  pr_old :: string

fun preflight_marks :: "wenv \<Rightarrow> string \<Rightarrow> lookup list \<Rightarrow> string set \<Rightarrow> machine \<Rightarrow> write_error + prepared list" where
  "preflight_marks E scope [] seen m = Inr []"
| "preflight_marks E scope (l # ls) seen m =
     rbind (resolve_write_row scope l (mc_db m)) (\<lambda>p.
       if tk_id p \<in> seen then preflight_marks E scope ls seen m
       else rbind (read_ticket_file E (tk_path p) m) (\<lambda>(fm, body).
         rbind (preflight_marks E scope ls (insert (tk_id p) seen) m) (\<lambda>rest.
           Inr (\<lparr>pr_lookup = l, pr_ticket = p, pr_model = fm, pr_body = body, pr_old = fm_status fm\<rparr> # rest))))"

text \<open>The model that a status write leaves: the time stamp moves only when the status does.\<close>

definition restatus :: "wenv \<Rightarrow> string \<Rightarrow> fm_model \<Rightarrow> fm_model" where
  "restatus E newStatus fm =
     (if fm_status fm \<noteq> newStatus then fm\<lparr>fm_changed := we_stamp E\<rparr> else fm)\<lparr>fm_status := newStatus\<rparr>"

text \<open>Write in place, then move: a crash between the two leaves one file of the id.\<close>

definition relocate_and_write ::
    "wenv \<Rightarrow> string \<Rightarrow> string \<Rightarrow> string \<Rightarrow> category gomap \<Rightarrow> string \<Rightarrow> fm_model \<Rightarrow> string \<Rightarrow> (string \<times> string) act" where
  "relocate_and_write E scope dir newStatus custom path fm body =
     (let wasTerminal = is_terminal (fm_status fm) custom;
          nowTerminal = is_terminal newStatus custom in
      act_bind (if wasTerminal \<noteq> nowTerminal
                then act_bind (terminal_location E dir (path_base path) nowTerminal) (\<lambda>p. act_return (p, path))
                else act_return (path, [])) (\<lambda>(newPath, oldPath).
        act_bind (write_ticket_file E path (restatus E newStatus fm) body) (\<lambda>_.
          act_bind (if oldPath \<noteq> [] \<and> oldPath \<noteq> newPath then rename_file E oldPath newPath else act_return ()) (\<lambda>_.
            act_bind (sync_now E scope (written_paths newPath oldPath)) (\<lambda>_.
              act_return (newPath, oldPath))))))"

definition assemble_member ::
    "schema option \<Rightarrow> ticket \<Rightarrow> fm_model \<Rightarrow> string \<Rightarrow> string \<Rightarrow> string \<Rightarrow> bool \<Rightarrow> mark_member" where
  "assemble_member schema p fm oldStatus newStatus path movedFile =
     \<lparr>mb_path = path, mb_id = tk_id p, mb_old = oldStatus, mb_new = newStatus, mb_moved = movedFile, mb_depends_open = [],
      mb_required_missing = (if oldStatus \<noteq> newStatus \<and> newStatus = st_done \<and> schema \<noteq> None
                             then missing_required schema (Some fm) else [])\<rparr>"

section \<open>A batch\<close>

fun write_each ::
    "wenv \<Rightarrow> schema option \<Rightarrow> string \<Rightarrow> string \<Rightarrow> string \<Rightarrow> category gomap \<Rightarrow> prepared list \<Rightarrow>
     ((mark_member \<times> ticket \<times> string list) list) act" where
  "write_each E schema scope dir newStatus custom [] = act_return []"
| "write_each E schema scope dir newStatus custom (p # ps) =
     act_bind (relocate_and_write E scope dir newStatus custom (tk_path (pr_ticket p)) (pr_model p) (pr_body p))
       (\<lambda>(newPath, oldPath).
          act_bind (write_each E schema scope dir newStatus custom ps) (\<lambda>rest.
            let moved_row = (pr_ticket p)\<lparr>tk_path := newPath\<rparr> in
            act_return ((assemble_member schema moved_row (restatus E newStatus (pr_model p)) (pr_old p) newStatus newPath
                           (oldPath \<noteq> [] \<and> oldPath \<noteq> newPath),
                         moved_row, written_paths newPath oldPath) # rest)))"

definition mark_ready_active :: "string \<Rightarrow> bool" where
  "mark_ready_active s \<longleftrightarrow> s \<in> {st_todo, st_in_progress, st_review}"

definition schema_list :: "rec_result \<Rightarrow> string list \<Rightarrow> (string \<times> schema option) list" where
  "schema_list res names =
     List.map_filter (\<lambda>n. case rr_schemas res n of None \<Rightarrow> None | Some s \<Rightarrow> Some (n, s)) names"

text \<open>The rows passed to the gate are those read before the write, at their new paths.\<close>

definition attach_depends_open ::
    "wenv \<Rightarrow> rec_result \<Rightarrow> string \<Rightarrow> (mark_member \<times> ticket \<times> string list) list \<Rightarrow> db \<Rightarrow> mark_member list" where
  "attach_depends_open E res scope written d =
     (let wants = (\<lambda>b. mb_old b \<noteq> mb_new b \<and> mark_ready_active (mb_new b)) in
      if \<not> list_ex (wants \<circ> fst) written then map fst written
      else
        let g = load_gate (we_resolve E) (schema_list res [scope]) [scope] d in
        map (\<lambda>(b, row, paths).
          if \<not> wants b then b
          else
            let waiting = ev_waiting_on (eval_depends g row) in
            if length waiting > 0 then b\<lparr>mb_depends_open := waiting\<rparr> else b) written)"

definition write_prepared_marks ::
    "wenv \<Rightarrow> rec_result \<Rightarrow> schema option \<Rightarrow> string \<Rightarrow> string \<Rightarrow> string \<Rightarrow> category gomap \<Rightarrow> prepared list \<Rightarrow>
     (mark_member list \<times> string list) act" where
  "write_prepared_marks E res schema scope dir newStatus custom ps =
     act_bind (write_each E schema scope dir newStatus custom ps) (\<lambda>written m.
       (Inr (attach_depends_open E res scope written (mc_db m), concat (map (\<lambda>(b, row, paths). paths) written)), m))"

definition finish_mark_result :: "wresult \<Rightarrow> mark_member list \<Rightarrow> wresult" where
  "finish_mark_result out members =
     (case members of
        [] \<Rightarrow> out\<lparr>wr_members := members\<rparr>
      | b # bs \<Rightarrow>
          out\<lparr>wr_members := members, wr_path := mb_path b, wr_id := mb_id b, wr_old := mb_old b, wr_new := mb_new b,
              wr_moved := mb_moved b, wr_depends_open := mb_depends_open b, wr_required_missing := mb_required_missing b\<rparr>)"

definition mark_commit_message :: "string list \<Rightarrow> string \<Rightarrow> string" where
  "mark_commit_message ids newStatus =
     (if length ids = 1 then ''tk: '' @ hd ids @ '' -> '' @ newStatus
      else ''tk: '' @ show_nat (length ids) @ '' tickets -> '' @ newStatus)"

section \<open>Claims\<close>

record claim_env =
  ce_refresh :: "string \<Rightarrow> machine \<Rightarrow> bool \<times> machine"
  ce_gap :: "machine \<Rightarrow> machine"
  ce_push :: "string \<Rightarrow> machine \<Rightarrow> bool \<times> machine"

definition refuse_started :: "wenv \<Rightarrow> string \<Rightarrow> string \<Rightarrow> write_error option" where
  "refuse_started E scope dir =
     (case schema_or_error (we_rec E) dir of
        (schema, None) \<Rightarrow> map_option Held (refuse_start scope schema)
      | (schema, Some reason) \<Rightarrow> None)"

text \<open>
  The configuration is read again under the lock: \<open>E0\<close> is the environment before it is taken,
  \<open>E\<close> the one under it. A push that failed after the write landed is a flag of the result.
\<close>

definition run_network_claim ::
    "wenv \<Rightarrow> wenv \<Rightarrow> claim_env \<Rightarrow> string \<Rightarrow> string \<Rightarrow> (bool \<Rightarrow> string option \<Rightarrow> bool \<Rightarrow> wresult act) \<Rightarrow> wresult act" where
  "run_network_claim E0 E C scope dir underLock =
     act_bind (act_refuse (refuse_started E0 scope dir)) (\<lambda>_ m.
       let autoCommit = schema_auto_commit (fst (schema_or_error (we_rec E0) dir));
           root = we_root E0 dir;
           network = (autoCommit \<and> (case root of None \<Rightarrow> False | Some r \<Rightarrow> gv_upstream (we_git E0) m r));
           r = (case root of Some r \<Rightarrow> r | None \<Rightarrow> []);
           needed = sync_needed_reason (we_git E) dir r;
           locked = act_bind (act_refuse (refuse_started E scope dir)) (\<lambda>_. underLock autoCommit root network) in
       if \<not> network then locked (ce_gap C m)
       else
         case check_mid_rebase (we_git E0) scope autoCommit root m of
           Some e \<Rightarrow> (Inl e, m)
         | None \<Rightarrow>
             (case ce_refresh C r m of
                (False, m1) \<Rightarrow> (Inl (RefreshFailed (needed m1)), m1)
              | (True, m1) \<Rightarrow>
                  (case locked (ce_gap C m1) of
                     (Inl e, m2) \<Rightarrow> (Inl (ClaimFailed e (needed m2)), m2)
                   | (Inr out, m2) \<Rightarrow>
                       (case ce_push C r m2 of
                          (ok, m3) \<Rightarrow>
                            (Inr (out\<lparr>wr_sync_needed := needed m3, wr_push_failed := \<not> ok\<rparr>), m3)))))"

definition claim_marks_under_lock ::
    "wenv \<Rightarrow> string \<Rightarrow> string \<Rightarrow> lookup list \<Rightarrow> string set \<Rightarrow> bool \<Rightarrow> string \<Rightarrow> bool \<Rightarrow> string option \<Rightarrow> bool \<Rightarrow> wresult act" where
  "claim_marks_under_lock E scope dir lookups wasTodo requireTodo newStatus autoCommit root network =
     act_bind (reconcile_now E [(scope, dir)]) (\<lambda>res.
     act_bind (act_refuse (refuse_unusable res scope dir)) (\<lambda>_.
     act_bind (\<lambda>m. act_refuse (check_mid_rebase (we_git E) scope autoCommit root m) m) (\<lambda>_.
       let schema = result_schema res scope; custom = custom_statuses schema in
       act_bind (act_read (preflight_marks E scope lookups {})) (\<lambda>ps.
       act_bind (act_refuse (map_option (\<lambda>p. NoLongerTodo (tk_id (pr_ticket p)) (pr_old p))
                   (find (\<lambda>p. (requireTodo \<or> tk_id (pr_ticket p) \<in> wasTodo) \<and> pr_old p \<noteq> st_todo) ps))) (\<lambda>_.
       act_bind (write_prepared_marks E res schema scope dir newStatus custom ps) (\<lambda>(members, paths).
         let message = mark_commit_message (map mb_id members) newStatus;
             out = empty_result\<lparr>wr_warnings := rr_warnings res, wr_new := newStatus\<rparr> in
         if network then
           (\<lambda>m. case commit_paths_core (we_git E) (case root of Some r \<Rightarrow> r | None \<Rightarrow> []) message paths m of
                  (Some e, m') \<Rightarrow> (Inl (CommitFailed scope e), m')
                | (None, m') \<Rightarrow> (Inr (finish_mark_result out members), m'))
         else
           act_bind (complete_paths E scope dir autoCommit message paths root) (\<lambda>(disabled, needed).
             act_return (finish_mark_result (out\<lparr>wr_sync_disabled := disabled, wr_sync_needed := needed\<rparr>) members))))))))"

definition write_in_progress :: "wenv \<Rightarrow> string \<Rightarrow> string \<Rightarrow> string option \<Rightarrow> bool \<Rightarrow> ticket \<Rightarrow> string act" where
  "write_in_progress E scope dir root network p =
     act_bind (act_read (read_ticket_file E (tk_path p))) (\<lambda>(fm, body).
     act_bind (act_refuse (if fm_status fm \<noteq> st_todo then Some (NoLongerTodo (tk_id p) (fm_status fm)) else None)) (\<lambda>_.
     act_bind (relocate_and_write E scope dir st_in_progress [] (tk_path p) fm body) (\<lambda>_.
       if network then
         (\<lambda>m. case commit_core (we_git E) (case root of Some r \<Rightarrow> r | None \<Rightarrow> [])
                     (mark_commit_message [tk_id p] st_in_progress) (tk_path p) [] m of
                (Some e, m') \<Rightarrow> (Inl (CommitFailed scope e), m')
              | (None, m') \<Rightarrow> (Inr (tk_path p), m'))
       else act_return (tk_path p))))"

definition reconcile_closure_now :: "wenv \<Rightarrow> string \<Rightarrow> string \<Rightarrow> (rec_result \<times> string list) act" where
  "reconcile_closure_now E scope dir m =
     (case reconcile_closure (we_rec E) (look_now m) (we_reg E) scope dir (mc_clock m) (mc_db m) of
        (Inl e, d) \<Rightarrow> (Inl (ReconcileFailed e), m\<lparr>mc_db := d\<rparr>)
      | (Inr r, d) \<Rightarrow> (Inr r, m\<lparr>mc_db := d\<rparr>))"

definition claim_next_under_lock ::
    "wenv \<Rightarrow> string \<Rightarrow> string \<Rightarrow> bool \<Rightarrow> bool \<Rightarrow> string option \<Rightarrow> bool \<Rightarrow> wresult act" where
  "claim_next_under_lock E scope dir noLens autoCommit root network =
     act_bind (reconcile_closure_now E scope dir) (\<lambda>(res, targets).
     act_bind (act_refuse (refuse_unusable res scope dir)) (\<lambda>_.
     act_bind (\<lambda>m. act_refuse (check_mid_rebase (we_git E) scope autoCommit root m) m) (\<lambda>_.
     act_bind (act_read (\<lambda>m. Inr (select_next (load_gate (we_resolve E) (schema_list res targets) targets (mc_db m))
                                      (next_candidates scope (mc_db m)) (we_lens E scope) noLens))) (\<lambda>sel.
       let out = empty_result\<lparr>wr_warnings := rr_warnings res, wr_tokens := sel_tokens sel, wr_apply_lens := sel_apply_lens sel,
                    wr_lens := sel_lens sel, wr_blocked := sel_blocked sel, wr_outside := sel_outside sel\<rparr> in
       case sel_chosen sel of
         None \<Rightarrow> act_fail (EmptyQueue (empty_queue_text sel))
       | Some p \<Rightarrow>
           act_bind (write_in_progress E scope dir root network p) (\<lambda>path.
             let out' = out\<lparr>wr_id := tk_id p, wr_old := st_todo, wr_new := st_in_progress, wr_path := path\<rparr> in
             if network then act_return out'
             else act_bind (complete_paths E scope dir autoCommit (mark_commit_message [tk_id p] st_in_progress)
                              (written_paths (tk_path p) []) root)
                    (\<lambda>(disabled, needed). act_return (out'\<lparr>wr_sync_disabled := disabled, wr_sync_needed := needed\<rparr>)))))))"

datatype claim_kind = ClaimNext bool | ClaimId lookup

definition claim_under_lock :: "wenv \<Rightarrow> string \<Rightarrow> string \<Rightarrow> claim_kind \<Rightarrow> bool \<Rightarrow> string option \<Rightarrow> bool \<Rightarrow> wresult act" where
  "claim_under_lock E scope dir kind autoCommit root network =
     (case kind of
        ClaimId l \<Rightarrow> claim_marks_under_lock E scope dir [l] {} True st_in_progress autoCommit root network
      | ClaimNext noLens \<Rightarrow> claim_next_under_lock E scope dir noLens autoCommit root network)"

definition claim :: "wenv \<Rightarrow> wenv \<Rightarrow> claim_env \<Rightarrow> string \<Rightarrow> string \<Rightarrow> claim_kind \<Rightarrow> wresult act" where
  "claim E0 E C scope dir kind =
     run_network_claim E0 E C scope dir (claim_under_lock E scope dir kind)"

section \<open>Mark\<close>

text \<open>Moving a todo to in-progress gives the lock back and becomes one claim of the whole list.\<close>

definition mark :: "wenv \<Rightarrow> wenv \<Rightarrow> claim_env \<Rightarrow> string \<Rightarrow> string \<Rightarrow> lookup list \<Rightarrow> string \<Rightarrow> wresult act" where
  "mark E E' C scope dir lookups newStatus =
     act_bind (begin_status_write E scope dir) (\<lambda>s.
       let custom = custom_statuses (se_schema s) in
       act_bind (act_refuse (if is_known newStatus custom then None else Some (UnknownStatus newStatus scope))) (\<lambda>_.
       act_bind (act_refuse (refuse_status_hold s newStatus)) (\<lambda>_.
       act_bind (session_mid_rebase E s) (\<lambda>_.
       act_bind (act_refuse (if length lookups = 0 then Some (Usage NoIds) else None)) (\<lambda>_.
       act_bind (act_read (preflight_marks E scope lookups {})) (\<lambda>ps.
         let wasTodo = (tk_id \<circ> pr_ticket) ` set (filter (\<lambda>p. pr_old p = st_todo) ps) in
         if newStatus = st_in_progress \<and> list_ex (\<lambda>p. pr_old p = st_todo) ps
         then run_network_claim E E' C scope dir
                (claim_marks_under_lock E' scope dir (map pr_lookup ps) wasTodo False newStatus)
         else
           act_bind (write_prepared_marks E (se_res s) (se_schema s) scope dir newStatus custom ps) (\<lambda>(members, paths).
           act_bind (complete_paths E scope dir (se_auto s) (mark_commit_message (map mb_id members) newStatus) paths (se_root s))
             (\<lambda>(disabled, needed).
               act_return (finish_mark_result
                 (empty_result\<lparr>wr_warnings := rr_warnings (se_res s), wr_new := newStatus, wr_sync_disabled := disabled,
                    wr_sync_needed := needed\<rparr>) members)))))))))"

section \<open>What one status write does\<close>

definition mark_place :: "string \<Rightarrow> category gomap \<Rightarrow> string \<Rightarrow> string \<Rightarrow> fm_model \<Rightarrow> string" where
  "mark_place dir custom newStatus path fm =
     (if is_terminal (fm_status fm) custom = is_terminal newStatus custom then path
      else if is_terminal newStatus custom then path_join (path_join dir archive_dir) (path_base path)
      else path_join dir (path_base path))"

definition file_text :: "wenv \<Rightarrow> fm_model \<Rightarrow> string \<Rightarrow> string" where
  "file_text E fm body =
     (case serialize (re_yaml (we_rec E)) fm of Inr interior \<Rightarrow> compose interior body | Inl e \<Rightarrow> [])"

abbreviation marked_text :: "wenv \<Rightarrow> string \<Rightarrow> fm_model \<Rightarrow> string \<Rightarrow> string" where
  "marked_text E newStatus fm body \<equiv> file_text E (restatus E newStatus fm) body"

text \<open>The write and the move, on the bytes of the files.\<close>

definition rewritten :: "string \<Rightarrow> string \<Rightarrow> string \<Rightarrow> (string \<Rightarrow> string option) \<Rightarrow> string \<Rightarrow> string option" where
  "rewritten path place text F = F(path := None, place \<mapsto> text)"

lemma contents_eq: "disk_file (mc_disk m) = disk_file (mc_disk m') \<Longrightarrow> contents m = contents m'"
  by (simp add: contents_def fun_eq_iff)

lemma write_contents:
  assumes "write_ticket_file E path fm body m = (r, m')"
  shows "(r = Inr () \<and> contents m' = (contents m)(path \<mapsto> file_text E fm body) \<and> mc_db m' = mc_db m \<and> mc_clock m' = mc_clock m) \<or>
     (\<exists>e. r = Inl e \<and> m' = m)"
  using write_ticket_file_run [OF assms] by (auto simp: contents_def file_text_def fun_eq_iff)

lemma relocate_contents:
  assumes run: "relocate_and_write E scope dir newStatus custom path fm body m = (r, m')" and path: "path \<noteq> []"
  defines "place \<equiv> mark_place dir custom newStatus path fm" and "text \<equiv> marked_text E newStatus fm body"
  shows "mc_clock m' = mc_clock m \<and>
     (case r of
        Inl e \<Rightarrow> contents m' \<in> {contents m, (contents m)(path \<mapsto> text), rewritten path place text (contents m)}
      | Inr (new, old) \<Rightarrow> new = place \<and> (old = [] \<or> old = path) \<and> (old = [] \<longrightarrow> place = path) \<and>
          contents m' = rewritten path place text (contents m))"
proof -
  let ?differ = "is_terminal (fm_status fm) custom \<noteq> is_terminal newStatus custom"
  let ?start = "if ?differ then act_bind (terminal_location E dir (path_base path) (is_terminal newStatus custom)) (\<lambda>p. act_return (p, path))
     else act_return (path, [])"
  obtain r0 m0 where s0: "?start m = (r0, m0)" by (cases "?start m")
  obtain rt mt where t: "terminal_location E dir (path_base path) (is_terminal newStatus custom) m = (rt, mt)"
    by (cases "terminal_location E dir (path_base path) (is_terminal newStatus custom) m")
  have m0: "contents m0 = contents m" "mc_clock m0 = mc_clock m"
    and r0: "\<And>new old. r0 = Inr (new, old) \<Longrightarrow> new = place \<and> (if ?differ then old = path else old = [])"
    using s0 terminal_location_run [OF t] t
    by (auto simp: act_bind_def act_return_def place_def mark_place_def contents_def fun_eq_iff split: if_splits sum.splits)
  show ?thesis
  proof (cases r0)
    case (Inl e)
    then have "r = Inl e" "m' = m0"
      using run s0 by (simp_all add: relocate_and_write_def Let_def act_bind_def)
    then show ?thesis using m0 by simp
  next
    case (Inr no)
    obtain new old where no: "no = (new, old)" by (cases no)
    with Inr r0 have new: "new = place" and old: "if ?differ then old = path else old = []" by simp_all
    have same: "old = [] \<longrightarrow> place = path" "old = [] \<or> old = path"
      using old path by (auto simp: place_def mark_place_def split: if_splits)
    obtain r1 m1 where w: "write_ticket_file E path (restatus E newStatus fm) body m0 = (r1, m1)"
      by (cases "write_ticket_file E path (restatus E newStatus fm) body m0")
    show ?thesis
    proof (cases r1)
      case e: (Inl e)
      then have "r = Inl e" "m' = m1"
        using run s0 Inr no w by (simp_all add: relocate_and_write_def Let_def act_bind_def)
      moreover have "m1 = m0" using write_contents [OF w] e by auto
      ultimately show ?thesis using m0 by simp
    next
      case u: (Inr u)
      have m1: "contents m1 = (contents m)(path \<mapsto> text)" "mc_clock m1 = mc_clock m"
        using write_contents [OF w] u m0 by (auto simp: text_def)
      let ?move = "if old \<noteq> [] \<and> old \<noteq> new then rename_file E old new else act_return ()"
      obtain r2 m2 where mv: "?move m1 = (r2, m2)" by (cases "?move m1")
      have m2: "mc_clock m2 = mc_clock m \<and>
         (r2 = Inr () \<longrightarrow> contents m2 = rewritten path place text (contents m)) \<and> (r2 \<noteq> Inr () \<longrightarrow> contents m2 = contents m1)"
      proof (cases "old \<noteq> [] \<and> old \<noteq> new")
        case True
        with mv have rn: "rename_file E path place m1 = (r2, m2)" using same new by auto
        have ne: "place \<noteq> path" using True same(2) new by auto
        from rename_file_run [OF rn] show ?thesis
        proof (elim disjE exE conjE)
          fix f
          assume f: "r2 = Inr ()" "disk_file (mc_disk m1) path = Some f"
            "disk_file (mc_disk m2) = (disk_file (mc_disk m1))(path := None, place \<mapsto> f)" "mc_clock m2 = mc_clock m1"
          have "f_data f = text" using f(2) fun_cong [OF m1(1), of path] by (simp add: contents_def)
          moreover have "contents m2 = (contents m1)(path := None, place \<mapsto> f_data f)"
            using f(3) by (simp add: contents_def fun_eq_iff)
          ultimately show ?thesis using f(1,4) m1 ne by (simp add: rewritten_def fun_eq_iff)
        qed (simp add: m1)
      next
        case False
        then have "r2 = Inr ()" "m2 = m1" using mv by (auto simp: act_return_def split: if_splits)
        moreover have "place = path" using False same new by auto
        ultimately show ?thesis using m1 by (simp add: rewritten_def)
      qed
      show ?thesis
      proof (cases r2)
        case e: (Inl e)
        then have "r = Inl e" "m' = m2"
          using run s0 Inr no w u mv by (simp_all add: relocate_and_write_def Let_def act_bind_def)
        then show ?thesis using m2 m1 e by simp
      next
        case v: (Inr v)
        obtain r3 m3 where sy: "sync_now E scope (written_paths new old) m2 = (r3, m3)"
          by (cases "sync_now E scope (written_paths new old) m2")
        have m3: "contents m3 = contents m2" "mc_clock m3 = mc_clock m2"
          using sync_now_run [OF sy] by (auto intro: contents_eq)
        have "m' = m3" "r = (case r3 of Inl e \<Rightarrow> Inl e | Inr _ \<Rightarrow> Inr (new, old))"
          using run s0 Inr no w u mv v sy
          by (simp_all add: relocate_and_write_def Let_def act_bind_def act_return_def split: sum.splits)
        then show ?thesis using m3 m2 v new same by (cases r3) simp_all
      qed
    qed
  qed
qed

lemma relocate_Inr:
  assumes run: "relocate_and_write E scope dir newStatus custom path fm body m = (Inr (new, old), m')" and path: "path = [] \<longrightarrow> is_terminal (fm_status fm) custom = is_terminal newStatus custom"
  defines "place \<equiv> mark_place dir custom newStatus path fm"
  shows "\<exists>m1 interior. serialize (re_yaml (we_rec E)) (restatus E newStatus fm) = Inr interior \<and>
     disk_file (mc_disk m1) = (disk_file (mc_disk m))
       (path := None, place \<mapsto> \<lparr>f_data = compose interior body, f_mtime = mc_clock m\<rparr>) \<and>
     mc_db m1 = mc_db m \<and> mc_clock m1 = mc_clock m \<and> sync_now E scope (written_paths new old) m1 = (Inr (), m') \<and>
     new = place \<and> set (written_paths new old) = {path, place}"
proof -
  let ?differ = "is_terminal (fm_status fm) custom \<noteq> is_terminal newStatus custom"
  obtain m0 where start: "(if ?differ then act_bind (terminal_location E dir (path_base path) (is_terminal newStatus custom)) (\<lambda>p. act_return (p, path))
      else act_return (path, [])) m = (Inr (new, old), m0)"
    and rest: "act_bind (write_ticket_file E path (restatus E newStatus fm) body) (\<lambda>_.
          act_bind (if old \<noteq> [] \<and> old \<noteq> new then rename_file E old new else act_return ()) (\<lambda>_.
            act_bind (sync_now E scope (written_paths new old)) (\<lambda>_. act_return (new, old)))) m0 = (Inr (new, old), m')"
    using run by (auto simp: relocate_and_write_def Let_def act_bind_Inr act_return_iff)
  obtain m1 m2 where w: "write_ticket_file E path (restatus E newStatus fm) body m0 = (Inr (), m1)"
    and mv: "(if old \<noteq> [] \<and> old \<noteq> new then rename_file E old new else act_return ()) m1 = (Inr (), m2)"
    and sy: "sync_now E scope (written_paths new old) m2 = (Inr (), m')"
    using rest by (auto simp: act_bind_Inr act_return_iff)
  obtain rt mt where t: "terminal_location E dir (path_base path) (is_terminal newStatus custom) m = (rt, mt)"
    by (cases "terminal_location E dir (path_base path) (is_terminal newStatus custom) m")
  have m0: "disk_file (mc_disk m0) = disk_file (mc_disk m)" "mc_db m0 = mc_db m" "mc_clock m0 = mc_clock m"
    and new: "new = place" and old: "if ?differ then old = path else old = []"
    using start terminal_location_run [OF t] t
    by (auto simp: act_bind_def act_return_def place_def mark_place_def split: if_splits sum.splits)
  have same: "old = [] \<longrightarrow> place = path" "old = [] \<or> old = path"
    using old path by (auto simp: place_def mark_place_def split: if_splits)
  obtain interior where ser: "serialize (re_yaml (we_rec E)) (restatus E newStatus fm) = Inr interior"
    and m1: "disk_file (mc_disk m1) = (disk_file (mc_disk m))(path \<mapsto> \<lparr>f_data = compose interior body, f_mtime = mc_clock m\<rparr>)"
      "mc_db m1 = mc_db m" "mc_clock m1 = mc_clock m"
    using write_ticket_file_run [OF w] m0 by auto
  have m2: "disk_file (mc_disk m2) = (disk_file (mc_disk m))
       (path := None, place \<mapsto> \<lparr>f_data = compose interior body, f_mtime = mc_clock m\<rparr>)
     \<and> mc_db m2 = mc_db m \<and> mc_clock m2 = mc_clock m"
  proof (cases "old \<noteq> [] \<and> old \<noteq> new")
    case True
    with mv have rn: "rename_file E path place m1 = (Inr (), m2)" using same new by auto
    obtain f where f: "disk_file (mc_disk m1) path = Some f"
      "disk_file (mc_disk m2) = (disk_file (mc_disk m1))(path := None, place \<mapsto> f)" "mc_db m2 = mc_db m1" "mc_clock m2 = mc_clock m1"
      by (rule rename_file_InrE [OF rn])
    have fv: "f = \<lparr>f_data = compose interior body, f_mtime = mc_clock m\<rparr>" using f(1) unfolding m1(1) fun_upd_same by blast
    show ?thesis unfolding f(2-4) m1 fun_upd_upd fv by blast
  next
    case False
    have "m2 = m1" using mv unfolding if_not_P [OF False] by (simp add: act_return_def)
    moreover have "place = path"
    proof (cases "old = []")
      case True
      then show ?thesis using same(1) by (rule rev_mp)
    next
      case nonempty: False
      then have "old = path" "old = new" using same(2) False by auto
      then show ?thesis using new by simp
    qed
    ultimately show ?thesis using m1 by simp
  qed
  have "set (written_paths new old) = {path, place}"
  proof (cases "old = []")
    case True
    then have pp: "place = path" using same(1) by (rule rev_mp)
    show ?thesis unfolding written_paths_def True new pp by simp
  next
    case False
    then have op: "old = path" using same(2) by blast
    show ?thesis unfolding written_paths_def new op using False op by (cases "path = place") auto
  qed
  with ser m2 sy new show ?thesis by blast
qed

lemma relocate_current:
  assumes run: "relocate_and_write E scope dir newStatus custom path fm body m = (Inr r, m')" and path: "path \<noteq> []"
    and cur: "index_current E scope dir m" and plain: "plain_dir dir"
  shows "index_current E scope dir m' \<and> mc_clock m' = mc_clock m"
proof -
  obtain new old where r: "r = (new, old)" by (cases r)
  let ?place = "mark_place dir custom newStatus path fm"
  obtain m1 interior where m1: "disk_file (mc_disk m1) = (disk_file (mc_disk m))
       (path := None, ?place \<mapsto> \<lparr>f_data = compose interior body, f_mtime = mc_clock m\<rparr>)"
      "mc_db m1 = mc_db m" "mc_clock m1 = mc_clock m"
    and sy: "sync_now E scope (written_paths new old) m1 = (Inr (), m')" "set (written_paths new old) = {path, ?place}"
    using relocate_Inr [OF run [unfolded r]] path by blast
  have "Inr () = (Inr () :: write_error + unit) \<and> index_current E scope dir m' \<and> mc_disk m' = mc_disk m1 \<and> mc_clock m' = mc_clock m"
    by (rule sync_now_current [OF cur plain m1(2,3) _ _ sy(1)]) (auto simp: sy(2) m1(1) split: if_splits)
  then show ?thesis by simp
qed

section \<open>What a batch does\<close>

definition marked_files ::
    "wenv \<Rightarrow> string \<Rightarrow> category gomap \<Rightarrow> string \<Rightarrow> prepared list \<Rightarrow> (string \<Rightarrow> string option) \<Rightarrow> string \<Rightarrow> string option" where
  "marked_files E dir custom newStatus ps =
     fold (\<lambda>p. rewritten (tk_path (pr_ticket p)) (mark_place dir custom newStatus (tk_path (pr_ticket p)) (pr_model p))
                 (marked_text E newStatus (pr_model p) (pr_body p))) ps"

text \<open>The next ticket of a batch written in place and not moved yet.\<close>

definition half_marked ::
    "wenv \<Rightarrow> string \<Rightarrow> prepared \<Rightarrow> (string \<Rightarrow> string option) \<Rightarrow> string \<Rightarrow> string option" where
  "half_marked E newStatus p F = F(tk_path (pr_ticket p) \<mapsto> marked_text E newStatus (pr_model p) (pr_body p))"

text \<open>The first tickets of the batch are done, and of the next one at most the write.\<close>

definition batch_done ::
    "wenv \<Rightarrow> string \<Rightarrow> category gomap \<Rightarrow> string \<Rightarrow> prepared list \<Rightarrow> (string \<Rightarrow> string option) \<Rightarrow> (string \<Rightarrow> string option) \<Rightarrow> bool" where
  "batch_done E dir custom newStatus ps F F' \<longleftrightarrow>
     (\<exists>n \<le> length ps. F' = marked_files E dir custom newStatus (take n ps) F \<or>
        (n < length ps \<and> F' = half_marked E newStatus (ps ! n) (marked_files E dir custom newStatus (take n ps) F)))"

lemma batch_done_Cons:
  assumes "batch_done E dir custom newStatus ps (marked_files E dir custom newStatus [p] F) F'"
  shows "batch_done E dir custom newStatus (p # ps) F F'"
proof -
  obtain n where n: "n \<le> length ps" "F' = marked_files E dir custom newStatus (take n ps) (marked_files E dir custom newStatus [p] F) \<or>
      (n < length ps \<and> F' = half_marked E newStatus (ps ! n)
         (marked_files E dir custom newStatus (take n ps) (marked_files E dir custom newStatus [p] F)))"
    using assms unfolding batch_done_def by blast
  have "marked_files E dir custom newStatus (take (Suc n) (p # ps)) F =
      marked_files E dir custom newStatus (take n ps) (marked_files E dir custom newStatus [p] F)"
    by (simp add: marked_files_def)
  with n show ?thesis unfolding batch_done_def by (intro exI [of _ "Suc n"]) auto
qed

lemma write_each_contents:
  assumes "write_each E schema scope dir newStatus custom ps m = (r, m')" and "\<forall>p \<in> set ps. tk_path (pr_ticket p) \<noteq> []"
  shows "mc_clock m' = mc_clock m \<and>
     (case r of
        Inl e \<Rightarrow> batch_done E dir custom newStatus ps (contents m) (contents m')
      | Inr written \<Rightarrow>
          contents m' = marked_files E dir custom newStatus ps (contents m) \<and>
          map (mb_id \<circ> fst) written = map (tk_id \<circ> pr_ticket) ps \<and>
          map (mb_path \<circ> fst) written =
            map (\<lambda>p. mark_place dir custom newStatus (tk_path (pr_ticket p)) (pr_model p)) ps)"
  using assms
proof (induction ps arbitrary: m r m')
  case Nil
  then show ?case by (auto simp: act_return_def marked_files_def)
next
  case (Cons p ps)
  let ?path = "tk_path (pr_ticket p)"
  have path: "?path \<noteq> []" "\<forall>p \<in> set ps. tk_path (pr_ticket p) \<noteq> []" using Cons.prems(2) by simp_all
  have done1: "marked_files E dir custom newStatus [p] F =
      rewritten ?path (mark_place dir custom newStatus ?path (pr_model p)) (marked_text E newStatus (pr_model p) (pr_body p)) F" for F
    by (simp add: marked_files_def)
  obtain r1 m1 where one: "relocate_and_write E scope dir newStatus custom ?path (pr_model p) (pr_body p) m = (r1, m1)"
    by (cases "relocate_and_write E scope dir newStatus custom ?path (pr_model p) (pr_body p) m")
  note rel = relocate_contents [OF one path(1)]
  show ?case
  proof (cases r1)
    case (Inl e)
    then have r: "r = Inl e" "m' = m1" using Cons.prems(1) one by (simp_all add: act_bind_def)
    have "contents m1 \<in> {contents m, half_marked E newStatus p (contents m), marked_files E dir custom newStatus [p] (contents m)}"
      using rel Inl by (simp add: done1 half_marked_def)
    moreover have "batch_done E dir custom newStatus (p # ps) (contents m) (contents m)"
      "batch_done E dir custom newStatus (p # ps) (contents m) (half_marked E newStatus p (contents m))"
      unfolding batch_done_def by (rule exI [of _ 0], simp add: marked_files_def)+
    moreover have "batch_done E dir custom newStatus (p # ps) (contents m) (marked_files E dir custom newStatus [p] (contents m))"
      unfolding batch_done_def by (rule exI [of _ 1]) simp
    ultimately show ?thesis using rel Inl r by auto
  next
    case (Inr no)
    obtain new old where no: "no = (new, old)" by (cases no)
    have m1: "contents m1 = marked_files E dir custom newStatus [p] (contents m)" "mc_clock m1 = mc_clock m"
      and new: "new = mark_place dir custom newStatus ?path (pr_model p)"
      using rel Inr no by (simp_all add: done1)
    obtain r2 m2 where rest: "write_each E schema scope dir newStatus custom ps m1 = (r2, m2)"
      by (cases "write_each E schema scope dir newStatus custom ps m1")
    note ih = Cons.IH [OF rest path(2)]
    have m': "m' = m2"
      using Cons.prems(1) one Inr no rest by (simp add: act_bind_def act_return_def Let_def split: sum.splits)
    show ?thesis
    proof (cases r2)
      case e: (Inl e)
      then have "r = Inl e" using Cons.prems(1) one Inr no rest by (simp add: act_bind_def)
      moreover have "batch_done E dir custom newStatus ps (contents m1) (contents m2)" using ih e by simp
      ultimately show ?thesis using batch_done_Cons m1 m' ih by simp
    next
      case w: (Inr written)
      have all: "marked_files E dir custom newStatus ps (marked_files E dir custom newStatus [p] F) =
          marked_files E dir custom newStatus (p # ps) F" for F by (simp add: marked_files_def)
      show ?thesis
        using Cons.prems(1) one Inr no rest w ih m1 m' new
        by (auto simp: act_bind_def act_return_def Let_def assemble_member_def all)
    qed
  qed
qed

lemma write_each_current:
  assumes "write_each E schema scope dir newStatus custom ps m = (Inr written, m')" and "\<forall>p \<in> set ps. tk_path (pr_ticket p) \<noteq> []"
    and "index_current E scope dir m" and "plain_dir dir"
  shows "index_current E scope dir m' \<and> mc_clock m' = mc_clock m"
  using assms
proof (induction ps arbitrary: m written)
  case Nil
  then show ?case by (auto simp: act_return_def)
next
  case (Cons p ps)
  from Cons.prems(1) obtain no m1 w m2 where
    one: "relocate_and_write E scope dir newStatus custom (tk_path (pr_ticket p)) (pr_model p) (pr_body p) m = (Inr no, m1)"
    and rest: "write_each E schema scope dir newStatus custom ps m1 = (Inr w, m')"
    by (auto simp: act_bind_Inr act_return_iff Let_def)
  from relocate_current [OF one _ Cons.prems(3,4)] Cons.prems(2)
  have "index_current E scope dir m1" "mc_clock m1 = mc_clock m" by auto
  with Cons.IH [OF rest _ _ Cons.prems(4)] Cons.prems(2) show ?case by simp
qed

section \<open>Mark\<close>

lemma preflight_marks_read:
  assumes "preflight_marks E scope ls seen m = Inr ps"
  shows "(\<forall>p \<in> set ps. read_ticket_file E (tk_path (pr_ticket p)) m = Inr (pr_model p, pr_body p) \<and>
      pr_old p = fm_status (pr_model p) \<and> tk_id (pr_ticket p) \<notin> seen) \<and> distinct (map (tk_id \<circ> pr_ticket) ps)"
  using assms
proof (induction ls arbitrary: seen ps)
  case (Cons l ls)
  obtain p where p: "resolve_write_row scope l (mc_db m) = Inr p" using Cons.prems by (auto simp: rbind_Inr_iff)
  show ?case
  proof (cases "tk_id p \<in> seen")
    case True
    then show ?thesis using Cons p by simp
  next
    case False
    then obtain fm body rest where r: "read_ticket_file E (tk_path p) m = Inr (fm, body)"
      "preflight_marks E scope ls (insert (tk_id p) seen) m = Inr rest"
      "ps = \<lparr>pr_lookup = l, pr_ticket = p, pr_model = fm, pr_body = body, pr_old = fm_status fm\<rparr> # rest"
      using Cons.prems p by (auto simp: rbind_Inr_iff)
    from Cons.IH [OF r(2)] show ?thesis using r(1,3) False by auto
  qed
qed simp

lemma read_ticket_file_contents: "read_ticket_file E p m = Inr x \<Longrightarrow> contents m p \<noteq> None"
  by (auto simp: read_ticket_file_def contents_def split: option.splits)

lemma attach_depends_open_same:
  "map mb_id (attach_depends_open E res scope written d) = map (mb_id \<circ> fst) written"
  "map mb_path (attach_depends_open E res scope written d) = map (mb_path \<circ> fst) written"
  by (auto simp: attach_depends_open_def Let_def case_prod_unfold)

lemma write_prepared_contents:
  assumes run: "write_prepared_marks E res schema scope dir newStatus custom ps m = (r, m')"
    and paths: "\<forall>p \<in> set ps. tk_path (pr_ticket p) \<noteq> []"
  shows "mc_clock m' = mc_clock m \<and>
     (case r of
        Inl e \<Rightarrow> batch_done E dir custom newStatus ps (contents m) (contents m')
      | Inr (members, paths) \<Rightarrow>
          contents m' = marked_files E dir custom newStatus ps (contents m) \<and>
          map mb_id members = map (tk_id \<circ> pr_ticket) ps \<and>
          (index_current E scope dir m \<longrightarrow> plain_dir dir \<longrightarrow> index_current E scope dir m'))"
proof -
  obtain r1 m1 where w: "write_each E schema scope dir newStatus custom ps m = (r1, m1)"
    by (cases "write_each E schema scope dir newStatus custom ps m")
  note we = write_each_contents [OF w paths]
  show ?thesis
  proof (cases r1)
    case (Inl e)
    then show ?thesis using run w we by (auto simp: write_prepared_marks_def act_bind_def)
  next
    case (Inr written)
    then have r: "m' = m1" "r = Inr (attach_depends_open E res scope written (mc_db m1), concat (map (\<lambda>(b, row, paths). paths) written))"
      using run w by (auto simp: write_prepared_marks_def act_bind_def)
    have "index_current E scope dir m \<longrightarrow> plain_dir dir \<longrightarrow> index_current E scope dir m1"
      using write_each_current [OF w [unfolded Inr] paths] by blast
    then show ?thesis using we Inr by (simp add: r attach_depends_open_same)
  qed
qed

text \<open>The steps of a mark that is no claim.\<close>

lemma mark_cases:
  assumes run: "mark E E' C scope dir lookups newStatus m = (r, m')" and st: "newStatus \<noteq> st_in_progress"
    and root: "contents m [] = None"
  obtains (refused) e where "r = Inl e" "mc_disk m' = mc_disk m" "mc_clock m' = mc_clock m"
  | (written) s m1 ps r2 m2 where
      "begin_status_write E scope dir m = (Inr s, m1)" "preflight_marks E scope lookups {} m1 = Inr ps"
      "is_known newStatus (custom_statuses (dir_schema E dir))" "mc_disk m1 = mc_disk m" "mc_clock m1 = mc_clock m"
      "refuse_hard scope (dir_schema E dir) = None"
      "\<forall>p \<in> set ps. tk_path (pr_ticket p) \<noteq> []"
      "write_prepared_marks E (se_res s) (se_schema s) scope dir newStatus (custom_statuses (dir_schema E dir)) ps m1 = (r2, m2)"
      "mc_disk m' = mc_disk m2" "mc_db m' = mc_db m2" "mc_clock m' = mc_clock m2"
      "case r2 of Inl e \<Rightarrow> r = Inl e
       | Inr (members, paths) \<Rightarrow> (\<exists>e. r = Inl e) \<or> (\<exists>out. r = Inr out \<and> wr_members out = members)"
proof -
  obtain r0 m1 where b: "begin_status_write E scope dir m = (r0, m1)" by (cases "begin_status_write E scope dir m")
  note bs = begin_status_run [OF b]
  show ?thesis
  proof (cases r0)
    case (Inl e)
    then show ?thesis using run b bs by (intro refused [of e]) (simp_all add: mark_def act_bind_def)
  next
    case (Inr s)
    have s: "se_schema s = dir_schema E dir" "se_scope s = scope" using bs Inr by simp_all
    let ?custom = "custom_statuses (dir_schema E dir)"
    show ?thesis
    proof (cases "is_known newStatus ?custom \<and> refuse_status_hold s newStatus = None \<and>
        check_mid_rebase (we_git E) (se_scope s) (se_auto s) (se_root s) m1 = None \<and> length lookups \<noteq> 0")
      case False
      then have "\<exists>e. r = Inl e \<and> m' = m1"
        using run b Inr s
        by (auto simp: mark_def act_bind_def act_refuse_def session_mid_rebase_def Let_def split: if_splits option.splits)
      then show ?thesis using bs by (auto intro: refused)
    next
      case ok: True
      show ?thesis
      proof (cases "preflight_marks E scope lookups {} m1")
        case (Inl e)
        then show ?thesis using run b bs \<open>r0 = Inr s\<close> s ok
          by (intro refused [of e]) (simp_all add: mark_def act_bind_def act_refuse_def act_read_def session_mid_rebase_def Let_def)
      next
        case ps: (Inr ps)
        obtain r2 m2 where w: "write_prepared_marks E (se_res s) (se_schema s) scope dir newStatus ?custom ps m1 = (r2, m2)"
          by (cases "write_prepared_marks E (se_res s) (se_schema s) scope dir newStatus ?custom ps m1")
        have root1: "contents m1 [] = None" using root bs by (simp add: contents_def)
        have paths: "\<forall>p \<in> set ps. tk_path (pr_ticket p) \<noteq> []"
          using preflight_marks_read [OF ps] read_ticket_file_contents root1 by fastforce
        have hard: "refuse_hard scope (dir_schema E dir) = None"
          using ok s by (simp add: refuse_status_hold_def split: option.splits)
        have tail: "mark E E' C scope dir lookups newStatus m =
            (case (r2, m2) of (Inl e, m3) \<Rightarrow> (Inl e, m3)
             | (Inr (members, pths), m3) \<Rightarrow>
                 act_bind (complete_paths E scope dir (se_auto s) (mark_commit_message (map mb_id members) newStatus) pths (se_root s))
                   (\<lambda>(disabled, needed). act_return (finish_mark_result
                      (empty_result\<lparr>wr_warnings := rr_warnings (se_res s), wr_new := newStatus, wr_sync_disabled := disabled,
                        wr_sync_needed := needed\<rparr>) members)) m3)"
          using b Inr s ok ps w st
          by (simp add: mark_def act_bind_def act_refuse_def act_read_def session_mid_rebase_def Let_def split: sum.splits prod.splits)
        have fin: "wr_members (finish_mark_result out members) = members" for out members
          by (cases members) (simp_all add: finish_mark_result_def)
        show ?thesis
        proof (cases r2)
          case e: (Inl e)
          then have "r = Inl e" "m' = m2" using run tail by simp_all
          then show ?thesis using e by (intro written [OF b [unfolded Inr] ps _ _ _ hard paths w]) (use ok bs in simp_all)
        next
          case mp: (Inr mp)
          obtain members pths where m: "mp = (members, pths)" by (cases mp)
          obtain r3 m3 where c: "complete_paths E scope dir (se_auto s) (mark_commit_message (map mb_id members) newStatus) pths (se_root s) m2 = (r3, m3)"
            by (cases "complete_paths E scope dir (se_auto s) (mark_commit_message (map mb_id members) newStatus) pths (se_root s) m2")
          have m3: "m' = m3" "(\<exists>e. r = Inl e) \<or> (\<exists>out. r = Inr out \<and> wr_members out = members)"
            using run tail mp m c fin by (auto simp: act_bind_def act_return_def split: sum.splits)
          with complete_paths_files [OF c] mp m show ?thesis
            by (intro written [OF b [unfolded Inr] ps _ _ _ hard paths w]) (use ok bs in simp_all)
        qed
      qed
    qed
  qed
qed


section \<open>Runs\<close>

definition mark_table :: "(fm_model \<times> string) list" where
  "mark_table = [(doc_ticket ''app-abcd'' ''todo'' [] ''a0'', line_of ''A''), (doc_ticket ''app-abcd'' ''done'' ''now'' ''a0'', line_of ''B''),
     (doc_ticket ''app-efgh'' ''done'' [] ''a1'', line_of ''C'')]"

definition quiet_claim :: claim_env where
  "quiet_claim = \<lparr>ce_refresh = (\<lambda>r m. (True, m)), ce_gap = (\<lambda>m. m), ce_push = (\<lambda>r m. (True, m))\<rparr>"

abbreviation mark_run :: "machine \<Rightarrow> (write_error + wresult) \<times> machine" where
  "mark_run \<equiv> mark (table_env mark_table plain_schema) (table_env mark_table plain_schema) quiet_claim ''app'' ''/s'' [short_lookup ''abcd''] st_done"

abbreviation mark_machine :: machine where
  "mark_machine \<equiv> machine_of [(''/s/app-abcd-x.md'', compose (line_of ''A'') ''# T'')]"

lemma mark_run_files:
  "contents (snd (mark_run mark_machine)) ''/s/archive/app-abcd-x.md'' = Some (compose (line_of ''B'') ''# T'')"
  "case fst (mark_run mark_machine) of Inr out \<Rightarrow> map mb_id (wr_members out) = [''app-abcd''] | Inl e \<Rightarrow> False"
  by code_simp+


text \<open>
  The move of a status write replaces a file of the same name. A ticket whose name and id differ
  (which \<open>tk repair\<close> knows as a basename drift) can so erase another ticket in the archive.
\<close>

lemma mark_overwrites:
  "contents (machine_of [(''/s/app-abcd.md'', compose (line_of ''A'') ''# T''), (''/s/archive/app-abcd.md'', compose (line_of ''C'') ''# other'')])
      ''/s/archive/app-abcd.md'' = Some (compose (line_of ''C'') ''# other'') \<and>
   contents (snd (mark_run (machine_of [(''/s/app-abcd.md'', compose (line_of ''A'') ''# T''),
       (''/s/archive/app-abcd.md'', compose (line_of ''C'') ''# other'')]))) ''/s/archive/app-abcd.md'' =
     Some (compose (line_of ''B'') ''# T'') \<and>
   (case fst (mark_run (machine_of [(''/s/app-abcd.md'', compose (line_of ''A'') ''# T''),
       (''/s/archive/app-abcd.md'', compose (line_of ''C'') ''# other'')])) of Inr out \<Rightarrow> True | Inl e \<Rightarrow> False)"
  by code_simp

end
