(* ===== verification/Claims.thy ===== *)
theory Claims
  imports Marks
begin

text \<open>
  Claims of tickets: what the locked part of a claim (\<open>claim.go\<close>) does to the one file it takes,
  and a run of claims by any processes, interleaved with other work on the board.
\<close>

section \<open>The locked part\<close>

lemma claim_statuses: "is_terminal st_todo custom = False" "is_terminal st_in_progress custom = False"
  by (simp_all add: is_terminal_def category_of_def builtins_def status_names)

lemma claim_place: "fm_status fm = st_todo \<Longrightarrow> mark_place dir custom st_in_progress path fm = path"
  by (simp add: mark_place_def claim_statuses)

lemma marked_one:
  assumes "pr_old p = st_todo" "pr_old p = fm_status (pr_model p)"
  shows "marked_files E dir custom st_in_progress [p] F =
     F(tk_path (pr_ticket p) \<mapsto> marked_text E st_in_progress (pr_model p) (pr_body p))"
  using assms by (simp add: marked_files_def rewritten_def claim_place)

text \<open>The file that a successful claim takes held a todo, and is the only one that changes.\<close>

definition took :: "wenv \<Rightarrow> machine \<Rightarrow> string \<Rightarrow> machine \<Rightarrow> bool" where
  "took E m p m' \<longleftrightarrow>
     (\<exists>fm body interior. read_ticket_file E p m = Inr (fm, body) \<and> fm_status fm = st_todo \<and>
        serialize (re_yaml (we_rec E)) (restatus E st_in_progress fm) = Inr interior \<and>
        contents m' = (contents m)(p \<mapsto> compose interior body))"

lemma read_same_disk: "mc_disk m1 = mc_disk m \<Longrightarrow> read_ticket_file E p m1 = read_ticket_file E p m"
  by (simp add: read_ticket_file_def)

lemma took_disks:
  assumes "took E m1 p m2" "mc_disk m1 = mc_disk m" "mc_disk m' = mc_disk m2"
  shows "took E m p m'"
proof -
  have "contents m1 = contents m" "contents m' = contents m2" using assms(2,3) by (simp_all add: contents_def fun_eq_iff)
  then show ?thesis using assms(1) read_same_disk [OF assms(2)] by (simp add: took_def)
qed

lemma act_network_commit:
  assumes "(case commit_paths_core G root message paths m of (Some e, m1) \<Rightarrow> (Inl (CommitFailed scope e), m1)
     | (None, m1) \<Rightarrow> (Inr out, m1)) = (Inr r, m')"
  shows "r = out \<and> mc_disk m' = mc_disk m"
  using assms commit_paths_files [of G root message paths m] by (auto split: prod.splits option.splits)

lemma relocate_took:
  assumes run: "relocate_and_write E scope dir st_in_progress custom path fm body m = (Inr (new, old), m')"
    and read: "read_ticket_file E path m = Inr (fm, body)" and todo: "fm_status fm = st_todo"
  shows "new = path \<and> took E m path m'"
proof -
  have place: "mark_place dir custom st_in_progress path fm = path" by (rule claim_place [OF todo])
  obtain m1 interior where r: "serialize (re_yaml (we_rec E)) (restatus E st_in_progress fm) = Inr interior"
    "disk_file (mc_disk m1) = (disk_file (mc_disk m))(path := None, path \<mapsto> \<lparr>f_data = compose interior body, f_mtime = mc_clock m\<rparr>)"
    "sync_now E scope (written_paths new old) m1 = (Inr (), m')" "new = path"
    using relocate_Inr [OF run, unfolded place] todo by (auto simp: claim_statuses)
  have "mc_disk m' = mc_disk m1" using sync_now_run [OF r(3)] by simp
  then have "contents m' = (contents m)(path \<mapsto> compose interior body)"
    using r(2) by (simp add: contents_def fun_eq_iff)
  then show ?thesis using r(1,4) read todo unfolding took_def by blast
qed

lemma claim_marks_took:
  assumes run: "claim_marks_under_lock E scope dir [l] {} True st_in_progress autoCommit root network m = (Inr out, m')"
  shows "took E m (wr_path out) m'"
proof -
  obtain res m1 where rc: "reconcile_now E [(scope, dir)] m = (Inr res, m1)"
    using run by (auto simp: claim_marks_under_lock_def act_bind_Inr)
  have m1: "mc_disk m1 = mc_disk m" using reconcile_now_run [OF rc] by simp
  let ?custom = "custom_statuses (result_schema res scope)"
  obtain ps where ps: "preflight_marks E scope [l] {} m1 = Inr ps" and all: "find (\<lambda>p. pr_old p \<noteq> st_todo) ps = None"
    and rest: "act_bind (write_prepared_marks E res (result_schema res scope) scope dir st_in_progress ?custom ps)
       (\<lambda>(members, paths).
         let message = mark_commit_message (map mb_id members) st_in_progress;
             out = empty_result\<lparr>wr_warnings := rr_warnings res, wr_new := st_in_progress\<rparr> in
         if network then
           (\<lambda>m. case commit_paths_core (we_git E) (case root of Some r \<Rightarrow> r | None \<Rightarrow> []) message paths m of
                  (Some e, m') \<Rightarrow> (Inl (CommitFailed scope e), m')
                | (None, m') \<Rightarrow> (Inr (finish_mark_result out members), m'))
         else
           act_bind (complete_paths E scope dir autoCommit message paths root) (\<lambda>(disabled, needed).
             act_return (finish_mark_result (out\<lparr>wr_sync_disabled := disabled, wr_sync_needed := needed\<rparr>) members))) m1 = (Inr out, m')"
    using run rc by (auto simp: claim_marks_under_lock_def act_bind_def act_refuse_def act_read_def Let_def
        split: option.splits sum.splits prod.splits)
  obtain members paths m2 where w: "write_prepared_marks E res (result_schema res scope) scope dir st_in_progress ?custom ps m1
      = (Inr (members, paths), m2)"
    using rest by (auto simp: act_bind_Inr)
  obtain p where p: "ps = [p]"
    using ps by (auto simp: rbind_Inr_iff)
  have rd: "read_ticket_file E (tk_path (pr_ticket p)) m1 = Inr (pr_model p, pr_body p)" "fm_status (pr_model p) = st_todo"
    using preflight_marks_read [OF ps] all p by (auto split: if_splits)
  obtain written where we: "write_each E (result_schema res scope) scope dir st_in_progress ?custom ps m1 = (Inr written, m2)"
    and mem: "map mb_path members = map (mb_path \<circ> fst) written"
    using w by (auto simp: write_prepared_marks_def act_bind_Inr attach_depends_open_same)
  obtain new old where rel: "relocate_and_write E scope dir st_in_progress ?custom (tk_path (pr_ticket p)) (pr_model p) (pr_body p) m1 = (Inr (new, old), m2)"
    and wr: "map (mb_path \<circ> fst) written = [new]"
    using we p by (auto simp: act_bind_Inr act_return_iff assemble_member_def Let_def)
  from relocate_took [OF rel rd] have t: "new = tk_path (pr_ticket p)" "took E m1 (tk_path (pr_ticket p)) m2" by auto
  have "mc_disk m' = mc_disk m2 \<and> (\<exists>out0. out = finish_mark_result out0 members)"
  proof (cases network)
    case True
    from rest w True show ?thesis
      by (simp add: act_bind_def Let_def) (blast dest: act_network_commit)
  next
    case False
    obtain r3 m3 where c: "complete_paths E scope dir autoCommit (mark_commit_message (map mb_id members) st_in_progress) paths root m2 = (r3, m3)"
      by (cases "complete_paths E scope dir autoCommit (mark_commit_message (map mb_id members) st_in_progress) paths root m2")
    from rest w False c complete_paths_files [OF c] show ?thesis
      by (auto simp: act_bind_def act_return_def Let_def split: sum.splits)
  qed
  then have "mc_disk m' = mc_disk m2" "wr_path out = tk_path (pr_ticket p)"
    using mem wr t by (auto simp: finish_mark_result_def split: list.splits)
  then show ?thesis using took_disks [OF t(2) m1] by simp
qed

lemma claim_next_took:
  assumes run: "claim_next_under_lock E scope dir noLens autoCommit root network m = (Inr out, m')"
  shows "took E m (wr_path out) m'"
proof -
  obtain res targets m1 where rc: "reconcile_closure_now E scope dir m = (Inr (res, targets), m1)"
    using run by (auto simp: claim_next_under_lock_def act_bind_Inr)
  have m1: "mc_disk m1 = mc_disk m"
    using rc by (auto simp: reconcile_closure_now_def split: prod.splits sum.splits)
  define sel where "sel = select_next (load_gate (we_resolve E) (schema_list res targets) targets (mc_db m1))
      (next_candidates scope (mc_db m1)) (we_lens E scope) noLens"
  obtain p where chosen: "sel_chosen sel = Some p" and rest:
    "act_bind (write_in_progress E scope dir root network p) (\<lambda>path.
       let out' = empty_result\<lparr>wr_warnings := rr_warnings res, wr_tokens := sel_tokens sel, wr_apply_lens := sel_apply_lens sel,
                    wr_lens := sel_lens sel, wr_blocked := sel_blocked sel, wr_outside := sel_outside sel\<rparr>
             \<lparr>wr_id := tk_id p, wr_old := st_todo, wr_new := st_in_progress, wr_path := path\<rparr> in
       if network then act_return out'
       else act_bind (complete_paths E scope dir autoCommit (mark_commit_message [tk_id p] st_in_progress)
              (written_paths (tk_path p) []) root)
              (\<lambda>(disabled, needed). act_return (out'\<lparr>wr_sync_disabled := disabled, wr_sync_needed := needed\<rparr>))) m1 = (Inr out, m')"
    using run rc
    by (cases "sel_chosen sel") (auto simp: claim_next_under_lock_def act_bind_def act_refuse_def act_read_def act_fail_def Let_def
        sel_def [symmetric] split: option.splits sum.splits prod.splits if_splits)
  obtain path m2 where w: "write_in_progress E scope dir root network p m1 = (Inr path, m2)"
    using rest by (auto simp: act_bind_Inr)
  obtain fm body where rd: "read_ticket_file E (tk_path p) m1 = Inr (fm, body)" "fm_status fm = st_todo"
    and wrest: "act_bind (relocate_and_write E scope dir st_in_progress [] (tk_path p) fm body) (\<lambda>_.
       if network then
         (\<lambda>m. case commit_core (we_git E) (case root of Some r \<Rightarrow> r | None \<Rightarrow> [])
                     (mark_commit_message [tk_id p] st_in_progress) (tk_path p) [] m of
                (Some e, m') \<Rightarrow> (Inl (CommitFailed scope e), m')
              | (None, m') \<Rightarrow> (Inr (tk_path p), m'))
       else act_return (tk_path p)) m1 = (Inr path, m2)"
    using w by (auto simp: write_in_progress_def act_bind_Inr act_read_iff act_refuse_Inr split: if_splits)
  obtain new old m3 where rel: "relocate_and_write E scope dir st_in_progress [] (tk_path p) fm body m1 = (Inr (new, old), m3)"
    and tail: "(if network then
         (\<lambda>m. case commit_core (we_git E) (case root of Some r \<Rightarrow> r | None \<Rightarrow> [])
                     (mark_commit_message [tk_id p] st_in_progress) (tk_path p) [] m of
                (Some e, m') \<Rightarrow> (Inl (CommitFailed scope e), m')
              | (None, m') \<Rightarrow> (Inr (tk_path p), m'))
       else act_return (tk_path p)) m3 = (Inr path, m2)"
    using wrest by (auto simp: act_bind_Inr)
  have m2: "path = tk_path p \<and> mc_disk m2 = mc_disk m3"
    using tail commit_core_files [of "we_git E" "case root of Some r \<Rightarrow> r | None \<Rightarrow> []"
        "mark_commit_message [tk_id p] st_in_progress" "tk_path p" "[]" m3]
    by (auto simp: act_return_def split: if_splits prod.splits option.splits)
  from relocate_took [OF rel rd] have t: "took E m1 (tk_path p) m3" by simp
  have "mc_disk m' = mc_disk m2 \<and> wr_path out = path"
  proof (cases network)
    case True
    then show ?thesis using rest w by (auto simp: act_bind_def act_return_def Let_def)
  next
    case False
    obtain r4 m4 where c: "complete_paths E scope dir autoCommit (mark_commit_message [tk_id p] st_in_progress)
        (written_paths (tk_path p) []) root m2 = (r4, m4)"
      by (cases "complete_paths E scope dir autoCommit (mark_commit_message [tk_id p] st_in_progress)
        (written_paths (tk_path p) []) root m2")
    from rest w False c complete_paths_files [OF c] show ?thesis
      by (auto simp: act_bind_def act_return_def Let_def split: sum.splits prod.splits)
  qed
  then show ?thesis using took_disks [OF t m1, of m'] m2 by simp
qed

lemma claim_took:
  "claim_under_lock E scope dir kind autoCommit root network m = (Inr out, m') \<Longrightarrow>
     took E m (wr_path out) m'"
  by (cases kind) (auto simp: claim_under_lock_def intro: claim_marks_took claim_next_took)

section \<open>Runs of claims\<close>

definition todo_at :: "yaml \<Rightarrow> machine \<Rightarrow> string \<Rightarrow> bool" where
  "todo_at Y m p \<longleftrightarrow> (case ticket_at Y m p of None \<Rightarrow> False | Some (fm, body) \<Rightarrow> fm_status fm = st_todo)"

text \<open>
  Processes claim under the lock, each with its own clock, configuration and git; between two
  claims anybody may do anything that puts no ticket back to todo. The list is that of the files
  claimed so far.
\<close>

inductive claims_run :: "yaml \<Rightarrow> string \<Rightarrow> string \<Rightarrow> machine \<Rightarrow> string list \<Rightarrow> machine \<Rightarrow> bool" for Y scope dir m where
  run_none: "claims_run Y scope dir m [] m"
| run_claim: "claims_run Y scope dir m ps m1 \<Longrightarrow> re_yaml (we_rec E) = Y \<Longrightarrow>
     claim_under_lock E scope dir kind autoCommit root network m1 = (Inr out, m2) \<Longrightarrow>
     claims_run Y scope dir m (ps @ [wr_path out]) m2"
| run_other: "claims_run Y scope dir m ps m1 \<Longrightarrow> (\<And>p. todo_at Y m2 p \<Longrightarrow> todo_at Y m1 p) \<Longrightarrow>
     claims_run Y scope dir m ps m2"

lemma took_todo:
  assumes codec: "codec_ok Y" and Y: "re_yaml (we_rec E) = Y" and t: "took E m p m'"
  shows "todo_at Y m p \<and> \<not> todo_at Y m' p \<and> (\<forall>q. q \<noteq> p \<longrightarrow> todo_at Y m' q = todo_at Y m q)"
proof -
  obtain fm body interior where r: "read_ticket_file E p m = Inr (fm, body)" "fm_status fm = st_todo"
    "serialize Y (restatus E st_in_progress fm) = Inr interior" "contents m' = (contents m)(p \<mapsto> compose interior body)"
    using t Y unfolding took_def by auto
  have at: "ticket_at Y m p = Some (fm, body)" using read_ticket_at [OF r(1)] Y by simp
  have "model_ok (restatus E st_in_progress fm)"
    using ticket_at_ok [OF codec at] by (simp add: restatus_def model_ok_def)
  from ticket_at_written [OF codec this r(3), of m' p body] r(4)
  have "ticket_at Y m' p = Some (restatus E st_in_progress fm, body)" by simp
  moreover have "st_in_progress \<noteq> st_todo" by (simp add: status_names)
  ultimately have "\<not> todo_at Y m' p" by (simp add: todo_at_def restatus_def)
  moreover have "ticket_at Y m' q = ticket_at Y m q" if "q \<noteq> p" for q using r(4) that by (simp add: ticket_at_def)
  ultimately show ?thesis using at r(2) by (simp add: todo_at_def)
qed

lemma claims_run_inv:
  assumes codec: "codec_ok Y" and run: "claims_run Y scope dir m ps m'"
  shows "distinct ps \<and> (\<forall>p \<in> set ps. todo_at Y m p \<and> \<not> todo_at Y m' p) \<and>
     (\<forall>p. todo_at Y m' p \<longrightarrow> todo_at Y m p)"
  using run
proof (induction rule: claims_run.induct)
  case run_none
  then show ?case by simp
next
  case (run_claim ps m1 E kind autoCommit root network out m2)
  then have t: "took E m1 (wr_path out) m2" using claim_took by simp
  note td = took_todo [OF codec run_claim(2) t]
  have "\<And>q. todo_at Y m2 q \<Longrightarrow> todo_at Y m1 q \<and> q \<noteq> wr_path out" using td by metis
  then show ?case using run_claim.IH td by auto
next
  case (run_other ps m1 m2)
  then show ?case by blast
qed

text \<open>C5. Nobody claims a ticket that somebody else took: however the claims of several processes (by id or
  the next ready ticket, with or without a remote) and other work are interleaved, as long as
  nobody puts a ticket back to todo, each file is claimed at most once. Every claimed file was a
  todo at the start and is none at the end.\<close>

theorem claims_exclusive:
  assumes "codec_ok Y" and "claims_run Y scope dir m ps m'"
  shows "distinct ps \<and> (\<forall>p \<in> set ps. todo_at Y m p \<and> \<not> todo_at Y m' p)"
  using claims_run_inv [OF assms] by blast

definition claim_table :: "(fm_model \<times> string) list" where
  "claim_table = [(doc_ticket ''app-abcd'' ''todo'' [] ''a0'', line_of ''A''), (doc_ticket ''app-abcd'' ''in-progress'' ''now'' ''a0'', line_of ''B'')]"

abbreviation claim_machine :: machine where
  "claim_machine \<equiv> machine_of [(''/s/app-abcd-x.md'', compose (line_of ''A'') ''# T'')]"

lemma claim_table_ok: "codec_ok (table_codec claim_table)"
  by (rule table_codec_ok) code_simp+

lemma claim_locked_run:
  "case fst (claim_under_lock (table_env claim_table plain_schema) ''app'' ''/s'' (ClaimNext True) False None False claim_machine)
     of Inr out \<Rightarrow> wr_path out = ''/s/app-abcd-x.md'' | Inl e \<Rightarrow> False"
  by code_simp

theorem claims_exclusive_witness:
  "\<exists>m'. claims_run (table_codec claim_table) ''app'' ''/s'' claim_machine [''/s/app-abcd-x.md''] m' \<and>
     todo_at (table_codec claim_table) claim_machine ''/s/app-abcd-x.md'' \<and>
     \<not> todo_at (table_codec claim_table) m' ''/s/app-abcd-x.md''"
proof -
  let ?run = "claim_under_lock (table_env claim_table plain_schema) ''app'' ''/s'' (ClaimNext True) False None False claim_machine"
  obtain out m' where run: "?run = (Inr out, m')" and path: "wr_path out = ''/s/app-abcd-x.md''"
    using claim_locked_run by (cases ?run; cases "fst ?run") simp_all
  have Y: "re_yaml (we_rec (table_env claim_table plain_schema)) = table_codec claim_table" by (simp add: table_env_def)
  from claims_run.run_claim [OF claims_run.run_none Y run]
  have r: "claims_run (table_codec claim_table) ''app'' ''/s'' claim_machine [''/s/app-abcd-x.md''] m'" by (simp add: path)
  from claims_exclusive [OF claim_table_ok this] r show ?thesis by auto
qed

section \<open>A whole claim\<close>

lemma refuse_started_None: "refuse_started E scope dir = None \<Longrightarrow> hold_of (dir_schema E dir) = None"
  by (auto simp: refuse_started_def dir_schema_def schema_or_error_def refuse_start_def hold_of_def split: sum.splits option.splits)

lemma act_refuse_bind: "act_bind (act_refuse e) g m = (Inr x, m') \<longleftrightarrow> e = None \<and> g () m = (Inr x, m')"
  by (auto simp: act_bind_Inr act_refuse_Inr)

text \<open>C26. A claim honours a hold set at any moment before it takes the lock, and takes what it says. If it
  answers, neither its first look at the configuration nor the one under the lock found a hold of
  either kind; the machine it locked (after its refresh, and after whatever others did before the
  lock) had a todo in the file it names; it wrote in-progress to that file and to no other; and
  what follows is at most its push.\<close>

theorem claim_outcome:
  assumes "claim E0 E C scope dir kind m = (Inr out, m')"
  shows "hold_of (dir_schema E0 dir) = None \<and> hold_of (dir_schema E dir) = None \<and>
    (\<exists>m0 m2. (m0 = m \<or> (\<exists>r. ce_refresh C r m = (True, m0))) \<and> took E (ce_gap C m0) (wr_path out) m2 \<and>
       (m' = m2 \<or> (\<exists>r ok. ce_push C r m2 = (ok, m'))))"
proof -
  let ?auto = "schema_auto_commit (fst (schema_or_error (we_rec E0) dir))"
  let ?root = "we_root E0 dir"
  let ?network = "?auto \<and> (case ?root of None \<Rightarrow> False | Some r \<Rightarrow> gv_upstream (we_git E0) m r)"
  let ?r = "case ?root of Some r \<Rightarrow> r | None \<Rightarrow> []"
  let ?locked = "act_bind (act_refuse (refuse_started E scope dir)) (\<lambda>_. claim_under_lock E scope dir kind ?auto ?root ?network)"
  have first: "refuse_started E0 scope dir = None"
    and rest: "(if \<not> ?network then ?locked (ce_gap C m)
       else case check_mid_rebase (we_git E0) scope ?auto ?root m of
           Some e \<Rightarrow> (Inl e, m)
         | None \<Rightarrow>
             (case ce_refresh C ?r m of
                (False, m1) \<Rightarrow> (Inl (RefreshFailed (sync_needed_reason (we_git E) dir ?r m1)), m1)
              | (True, m1) \<Rightarrow>
                  (case ?locked (ce_gap C m1) of
                     (Inl e, m2) \<Rightarrow> (Inl (ClaimFailed e (sync_needed_reason (we_git E) dir ?r m2)), m2)
                   | (Inr out, m2) \<Rightarrow>
                       (case ce_push C ?r m2 of
                          (ok, m3) \<Rightarrow>
                            (Inr (out\<lparr>wr_sync_needed := sync_needed_reason (we_git E) dir ?r m3, wr_push_failed := \<not> ok\<rparr>), m3))))) =
       (Inr out, m')"
    using assms unfolding claim_def run_network_claim_def act_refuse_bind Let_def by auto
  have lock: "refuse_started E scope dir = None \<and> took E m0 (wr_path o1) m2" if "?locked m0 = (Inr o1, m2)" for m0 o1 m2
    using that claim_took unfolding act_refuse_bind by blast
  have "refuse_started E scope dir = None \<and>
    (\<exists>m0 m2. (m0 = m \<or> (\<exists>r. ce_refresh C r m = (True, m0))) \<and> took E (ce_gap C m0) (wr_path out) m2 \<and>
       (m' = m2 \<or> (\<exists>r ok. ce_push C r m2 = (ok, m'))))"
  proof (cases ?network)
    case False
    then have "?locked (ce_gap C m) = (Inr out, m')" using rest unfolding if_P [OF False] by blast
    from lock [OF this] show ?thesis by blast
  next
    case True
    obtain ok m1 where rf: "ce_refresh C ?r m = (ok, m1)" by (cases "ce_refresh C ?r m")
    have mid: "check_mid_rebase (we_git E0) scope ?auto ?root m = None" and ok: "ok = True"
      using rest True rf by (auto split: option.splits bool.splits if_splits)
    obtain lr m2 where lk: "?locked (ce_gap C m1) = (lr, m2)" by (cases "?locked (ce_gap C m1)")
    obtain o1 where o1: "lr = Inr o1" using rest True rf mid ok lk by (cases lr) auto
    obtain okp m3 where pu: "ce_push C ?r m2 = (okp, m3)" by (cases "ce_push C ?r m2")
    have "wr_path out = wr_path o1" "m' = m3" using rest True rf mid ok lk o1 pu by auto
    moreover from lock [OF lk [unfolded o1]] have "refuse_started E scope dir = None" "took E (ce_gap C m1) (wr_path o1) m2" by auto
    ultimately show ?thesis using rf ok pu by metis
  qed
  with refuse_started_None first show ?thesis by blast
qed

lemma claim_run:
  "case fst (claim (table_env claim_table plain_schema) (table_env claim_table plain_schema) quiet_claim ''app'' ''/s''
      (ClaimId (short_lookup ''abcd'')) claim_machine)
     of Inr out \<Rightarrow> wr_path out = ''/s/app-abcd-x.md'' | Inl e \<Rightarrow> False"
  by code_simp

theorem claim_outcome_witness:
  "\<exists>m2. took (table_env claim_table plain_schema) claim_machine ''/s/app-abcd-x.md'' m2 \<and>
     hold_of (dir_schema (table_env claim_table plain_schema) ''/s'') = None"
proof -
  let ?E = "table_env claim_table plain_schema"
  let ?run = "claim ?E ?E quiet_claim ''app'' ''/s'' (ClaimId (short_lookup ''abcd'')) claim_machine"
  obtain out m' where run: "?run = (Inr out, m')" and path: "wr_path out = ''/s/app-abcd-x.md''"
    using claim_run by (cases ?run; cases "fst ?run") simp_all
  have same: "ce_gap quiet_claim m0 = m0" "ce_refresh quiet_claim r m0 = (True, m0)" for r m0
    by (simp_all add: quiet_claim_def)
  from claim_outcome [OF run] show ?thesis by (auto simp: path same)
qed

end
