(* ===== verification/Placements.thy ===== *)
theory Placements
  imports Marks
begin

text \<open>
  Writes in place of \<open>internal/writeengine\<close>: \<open>tk order\<close> (\<open>order.go\<close>) and what every verb that
  rewrites one file without moving it shares.
\<close>

section \<open>One file in place\<close>

definition rewrite_ticket :: "wenv \<Rightarrow> string \<Rightarrow> string \<Rightarrow> fm_model \<Rightarrow> string \<Rightarrow> unit act" where
  "rewrite_ticket E scope path fm body =
     act_bind (write_ticket_file E path fm body) (\<lambda>_. sync_now E scope (written_paths path []))"

lemma sync_one_current:
  assumes cur: "index_current E scope dir m" and plain: "plain_dir dir"
    and m1: "disk_file (mc_disk m1) = (disk_file (mc_disk m))(path \<mapsto> f)" "f_mtime f = mc_clock m"
      "mc_db m1 = mc_db m" "mc_clock m1 = mc_clock m"
    and run: "sync_now E scope (written_paths path []) m1 = (r, m2)"
  shows "r = Inr () \<and> index_current E scope dir m2"
proof -
  have w: "set (written_paths path []) = {path}" by (simp add: written_paths_def)
  have "r = Inr () \<and> index_current E scope dir m2 \<and> mc_disk m2 = mc_disk m1 \<and> mc_clock m2 = mc_clock m"
    by (rule sync_now_current [OF cur plain m1(3,4) _ _ run]) (use m1(1,2) w in \<open>auto split: if_splits\<close>)
  then show ?thesis by simp
qed

lemma rewrite_ticket_Inr:
  assumes run: "rewrite_ticket E scope path fm body m = (Inr (), m')"
  shows "\<exists>interior. serialize (re_yaml (we_rec E)) fm = Inr interior \<and>
     contents m' = (contents m)(path \<mapsto> compose interior body) \<and> mc_clock m' = mc_clock m \<and>
     (index_current E scope dir m \<longrightarrow> plain_dir dir \<longrightarrow> index_current E scope dir m')"
proof -
  obtain m1 where w: "write_ticket_file E path fm body m = (Inr (), m1)"
    and sy: "sync_now E scope (written_paths path []) m1 = (Inr (), m')"
    using run by (auto simp: rewrite_ticket_def act_bind_Inr)
  obtain interior where ser: "serialize (re_yaml (we_rec E)) fm = Inr interior"
    and m1: "disk_file (mc_disk m1) = (disk_file (mc_disk m))(path \<mapsto> \<lparr>f_data = compose interior body, f_mtime = mc_clock m\<rparr>)"
      "mc_db m1 = mc_db m" "mc_clock m1 = mc_clock m"
    using write_ticket_file_run [OF w] by auto
  have "mc_disk m' = mc_disk m1" "mc_clock m' = mc_clock m1" using sync_now_run [OF sy] by simp_all
  then have "contents m' = (contents m)(path \<mapsto> compose interior body)" "mc_clock m' = mc_clock m"
    using m1 by (simp_all add: contents_def fun_eq_iff)
  moreover have "index_current E scope dir m'" if "index_current E scope dir m" "plain_dir dir"
    using sync_one_current [OF that m1(1) _ m1(2,3) sy] by simp
  ultimately show ?thesis using ser by blast
qed

lemma begin_write_run:
  assumes "begin_write E scope dir m = (Inr s, m')"
  shows "mc_disk m' = mc_disk m \<and> mc_clock m' = mc_clock m \<and> se_scope s = scope \<and> se_dir s = dir \<and>
     se_schema s = dir_schema E dir \<and> se_auto s = schema_auto_commit (dir_schema E dir) \<and> se_root s = we_root E dir \<and>
     refuse_hard scope (dir_schema E dir) = None \<and>
     (machine_ok E scope dir m \<longrightarrow> index_current E scope dir m')"
proof -
  obtain s0 m0 where b: "begin_status_write E scope dir m = (Inr s0, m0)" and h: "refuse_hard scope (se_schema s0) = None"
    and e: "s = s0" "m' = m0"
    using assms by (auto simp: begin_write_def act_bind_Inr act_refuse_Inr act_return_iff)
  from begin_status_run [OF b] h e show ?thesis by simp
qed

section \<open>Where to put a ticket\<close>

record dest =
  de_first :: bool
  de_last :: bool
  de_before :: lookup
  de_after :: lookup

definition dest_count :: "dest \<Rightarrow> nat" where
  "dest_count d =
     (if de_first d then 1 else 0) + (if de_last d then 1 else 0) +
     (if lu_arg (de_before d) \<noteq> [] then 1 else 0) + (if lu_arg (de_after d) \<noteq> [] then 1 else 0)"

definition order_others :: "ticket \<Rightarrow> ticket list \<Rightarrow> ticket list" where
  "order_others subject rows =
     sort_tickets False
       (filter (\<lambda>p. \<not> (tk_path p = tk_path subject \<or> tk_parse_error p \<or> \<not> valid (tk_order_key p))) rows)"

fun index_of :: "('a \<Rightarrow> bool) \<Rightarrow> 'a list \<Rightarrow> nat option" where
  "index_of P [] = None"
| "index_of P (x # xs) = (if P x then Some 0 else map_option Suc (index_of P xs))"

definition neighbour_bounds ::
    "string \<Rightarrow> ticket \<Rightarrow> ticket list \<Rightarrow> lookup \<Rightarrow> bool \<Rightarrow> db \<Rightarrow> write_error + (string \<times> string)" where
  "neighbour_bounds scope subject others l before d =
     rbind (resolve_row scope l ''neighbour'' d) (\<lambda>n.
       if tk_path n = tk_path subject then Inl (Usage (OwnNeighbour (tk_id subject)))
       else if tk_parse_error n \<or> \<not> valid (tk_order_key n) then Inl (NeighbourOrder (lu_arg l))
       else case index_of (\<lambda>p. tk_path p = tk_path n) others of
              None \<Rightarrow> Inl (NeighbourLost (lu_arg l))
            | Some i \<Rightarrow>
                if before then Inr (if i > 0 then tk_order_key (others ! (i - 1)) else [], tk_order_key n)
                else Inr (tk_order_key n, if i < length others - 1 then tk_order_key (others ! (i + 1)) else []))"

definition order_bounds ::
    "string \<Rightarrow> ticket \<Rightarrow> ticket list \<Rightarrow> dest \<Rightarrow> db \<Rightarrow> write_error + (string \<times> string)" where
  "order_bounds scope subject rows dst d =
     (let others = order_others subject rows in
      if de_first dst then Inr (if length others = 0 then ([], []) else ([], tk_order_key (others ! 0)))
      else if de_last dst then
        Inr (if length others = 0 then ([], []) else (tk_order_key (others ! (length others - 1)), []))
      else if lu_arg (de_before dst) \<noteq> [] then neighbour_bounds scope subject others (de_before dst) True d
      else neighbour_bounds scope subject others (de_after dst) False d)"

definition order_ticket :: "wenv \<Rightarrow> string \<Rightarrow> string \<Rightarrow> lookup \<Rightarrow> dest \<Rightarrow> wresult act" where
  "order_ticket E scope dir l dst =
     act_bind (act_refuse (if dest_count dst \<noteq> 1 then Some (Usage NoDestination) else None)) (\<lambda>_.
     act_bind (begin_write E scope dir) (\<lambda>s.
     act_bind (session_mid_rebase E s) (\<lambda>_.
     act_bind (act_read (\<lambda>m. resolve_write_row scope l (mc_db m))) (\<lambda>subject.
     act_bind (act_read (\<lambda>m. order_bounds scope subject (scope_tickets scope (mc_db m)) dst (mc_db m))) (\<lambda>(left, right).
     act_bind (act_read (\<lambda>m. case key_between left right of
                               Inl e \<Rightarrow> Inl (NoLegalOrder (tk_id subject) e) | Inr k \<Rightarrow> Inr k)) (\<lambda>newKey.
     act_bind (act_read (read_ticket_file E (tk_path subject))) (\<lambda>(fm, body).
     act_bind (rewrite_ticket E scope (tk_path subject) (fm\<lparr>fm_order := newKey\<rparr>) body) (\<lambda>_.
     act_bind (complete_state E s (''tk: '' @ tk_id subject @ '' order'') (tk_path subject) []) (\<lambda>(disabled, needed).
       act_return (empty_result\<lparr>wr_warnings := rr_warnings (se_res s), wr_id := tk_id subject, wr_sync_disabled := disabled,
         wr_sync_needed := needed, wr_path := tk_path subject\<rparr>))))))))))"

section \<open>The slot between two neighbours\<close>

lemma order_others_sorted: "sorted (map tk_order_key (order_others subject rows))"
proof -
  have "listing.in_order False (order_others subject rows)"
    by (simp add: order_others_def sort_tickets_def listing.sort_in_order)
  then have "sorted_wrt (\<lambda>x y. tk_order_key x \<le> tk_order_key y) (order_others subject rows)"
    by (rule sorted_wrt_mono_rel [rotated]) (auto simp: ticket_less_def Let_def split: if_splits)
  then show ?thesis by (simp add: sorted_map)
qed

lemma set_order_others:
  "set (order_others subject rows) =
     {p \<in> set rows. tk_path p \<noteq> tk_path subject \<and> \<not> tk_parse_error p \<and> valid (tk_order_key p)}"
  by (auto simp: order_others_def sort_tickets_def)

text \<open>Two neighbouring positions of a sorted listing, open at its ends.\<close>

definition slot_bounds :: "ticket list \<Rightarrow> ticket list \<Rightarrow> string \<times> string" where
  "slot_bounds as bs = (if as = [] then [] else tk_order_key (last as), if bs = [] then [] else tk_order_key (hd bs))"

lemma slot_between:
  assumes sorted: "sorted (map tk_order_key (as @ bs))" and val: "\<forall>p \<in> set (as @ bs). valid (tk_order_key p)"
    and k: "key_between (fst (slot_bounds as bs)) (snd (slot_bounds as bs)) = Inr k"
  shows "valid k \<and> (\<forall>a \<in> set as. tk_order_key a < k) \<and> (\<forall>b \<in> set bs. k < tk_order_key b)"
proof -
  note kb = key_between_Inr [OF k]
  have "tk_order_key a < k" if "a \<in> set as" for a
  proof -
    from that have ne: "as \<noteq> []" by auto
    then have "last as \<in> set as" by simp
    then have "tk_order_key (last as) \<noteq> []" using val valid_not_nil by auto
    then have "tk_order_key (last as) < k" using kb ne by (simp add: slot_bounds_def)
    moreover have "tk_order_key a \<le> tk_order_key (last as)"
    proof -
      obtain xs where "as = xs @ [last as]" using ne by (metis append_butlast_last_id)
      moreover from this that have "a = last as \<or> a \<in> set xs" by (metis Un_iff empty_iff list.set(1) set_ConsD set_append)
      moreover have "sorted (map tk_order_key as)" using sorted by (simp add: sorted_append)
      ultimately show ?thesis by (metis (no_types, lifting) map_append list.simps(9) list.simps(8) sorted_append
          list.set_intros(1) image_eqI set_map order_refl)
    qed
    ultimately show ?thesis by order
  qed
  moreover have "k < tk_order_key b" if "b \<in> set bs" for b
  proof -
    from that obtain y ys where bs: "bs = y # ys" by (cases bs) auto
    then have "tk_order_key y \<noteq> []" using val valid_not_nil by auto
    then have "k < tk_order_key y" using kb bs by (simp add: slot_bounds_def)
    moreover have "tk_order_key y \<le> tk_order_key b" using sorted that bs by (auto simp: sorted_append)
    ultimately show ?thesis by order
  qed
  ultimately show ?thesis using kb by blast
qed

lemma index_of_Some:
  "index_of P xs = Some i \<Longrightarrow> i < length xs \<and> P (xs ! i) \<and> xs = take i xs @ xs ! i # drop (Suc i) xs"
  by (induction xs arbitrary: i) (auto split: if_splits)

text \<open>
  What a destination asks for: at the start, at the end, or right beside the ticket that a
  neighbour argument names.
\<close>

definition dest_met :: "string \<Rightarrow> dest \<Rightarrow> db \<Rightarrow> ticket list \<Rightarrow> ticket list \<Rightarrow> bool" where
  "dest_met scope dst d as bs \<longleftrightarrow>
     (if de_first dst then as = []
      else if de_last dst then bs = []
      else if lu_arg (de_before dst) \<noteq> []
      then (\<exists>n. resolve_row scope (de_before dst) ''neighbour'' d = Inr n \<and> bs \<noteq> [] \<and> tk_path (hd bs) = tk_path n)
      else (\<exists>n. resolve_row scope (de_after dst) ''neighbour'' d = Inr n \<and> as \<noteq> [] \<and> tk_path (last as) = tk_path n))"

lemma same_path_same_row:
  assumes "db_ok d" "p \<in> set (query_tickets P d)" "q \<in> set (query_tickets Q d)" "tk_path p = tk_path q"
  shows "p = q"
proof -
  obtain x y where x: "x \<in> set (db_tickets d)" "p = with_tags d (snd x)" and y: "y \<in> set (db_tickets d)" "q = with_tags d (snd y)"
    using assms(2,3) by (auto simp: mem_query)
  have "tk_path (snd x) = tk_path (snd y)" using assms(4) x y by (simp add: with_tags_def)
  then have "x = y" using distinct_paths_rows [OF assms(1)] x(1) y(1)
    by (simp add: comp_def distinct_map inj_on_def)
  then show ?thesis using x y by simp
qed

lemma resolve_row_mem:
  assumes "resolve_row scope l noun d = Inr n"
  shows "\<exists>P. n \<in> set (query_tickets P d)"
proof -
  obtain P where P: "(if lu_full l then tickets_by_id scope (lookup_key l) d else tickets_by_short_id scope (lookup_key l) d) = query_tickets P d"
    by (cases "lu_full l") (auto simp: tickets_by_id_def tickets_by_short_id_def)
  have "n \<in> set (query_tickets P d)"
    using assms by (cases "query_tickets P d") (auto simp: resolve_row_def P Let_def split: if_splits)
  then show ?thesis by blast
qed

lemma map_error_Inr: "(case x of Inl e \<Rightarrow> Inl (f e) | Inr k \<Rightarrow> Inr k) = Inr y \<longleftrightarrow> x = Inr y"
  by (cases x) auto

lemma neighbour_slot:
  assumes ok: "db_ok d" and others: "\<forall>p \<in> set others. \<exists>P. p \<in> set (query_tickets P d)"
    and nb: "neighbour_bounds scope subject others l before d = Inr b"
  shows "\<exists>as bs n. others = as @ bs \<and> b = slot_bounds as bs \<and> resolve_row scope l ''neighbour'' d = Inr n \<and>
     (if before then bs \<noteq> [] \<and> tk_path (hd bs) = tk_path n else as \<noteq> [] \<and> tk_path (last as) = tk_path n)"
proof -
  from nb obtain n i where n: "resolve_row scope l ''neighbour'' d = Inr n"
    and i: "index_of (\<lambda>p. tk_path p = tk_path n) others = Some i"
    and b: "b = (if before then (if i > 0 then tk_order_key (others ! (i - 1)) else [], tk_order_key n)
                 else (tk_order_key n, if i < length others - 1 then tk_order_key (others ! (i + 1)) else []))"
    by (auto simp: neighbour_bounds_def rbind_Inr_iff split: if_splits option.splits)
  from index_of_Some [OF i] have il: "i < length others" "tk_path (others ! i) = tk_path n" by auto
  obtain Q where "n \<in> set (query_tickets Q d)" using resolve_row_mem [OF n] by auto
  moreover obtain P where "others ! i \<in> set (query_tickets P d)" using others il(1) nth_mem by blast
  ultimately have at: "others ! i = n" using same_path_same_row [OF ok] il(2) by blast
  show ?thesis
  proof (cases before)
    case True
    have "b = slot_bounds (take i others) (drop i others)"
      using b True il at by (auto simp: slot_bounds_def hd_drop_conv_nth last_conv_nth)
    moreover have "drop i others \<noteq> []" "hd (drop i others) = n" using il at by (auto simp: hd_drop_conv_nth)
    ultimately show ?thesis using True n
      by (intro exI [of _ "take i others"] exI [of _ "drop i others"] exI [of _ n]) simp
  next
    case False
    have tk: "take (Suc i) others = take i others @ [n]" using il at by (simp add: take_Suc_conv_app_nth)
    have "b = slot_bounds (take (Suc i) others) (drop (Suc i) others)"
      using b False il tk by (auto simp: slot_bounds_def hd_drop_conv_nth)
    moreover have "take (Suc i) others \<noteq> []" "last (take (Suc i) others) = n" unfolding tk by simp_all
    ultimately show ?thesis using False n append_take_drop_id [of "Suc i" others, symmetric] by (metis (no_types, lifting))
  qed
qed

lemma order_bounds_slot:
  assumes ok: "db_ok d" and ob: "order_bounds scope subject (scope_tickets scope d) dst d = Inr b"
  shows "\<exists>as bs. order_others subject (scope_tickets scope d) = as @ bs \<and> b = slot_bounds as bs \<and> dest_met scope dst d as bs"
proof -
  let ?o = "order_others subject (scope_tickets scope d)"
  have mem: "\<forall>p \<in> set ?o. \<exists>P. p \<in> set (query_tickets P d)"
    by (auto simp: set_order_others scope_tickets_def)
  consider "de_first dst" | "\<not> de_first dst" "de_last dst"
    | "\<not> de_first dst" "\<not> de_last dst" "lu_arg (de_before dst) \<noteq> []"
    | "\<not> de_first dst" "\<not> de_last dst" "lu_arg (de_before dst) = []" by blast
  then show ?thesis
  proof cases
    case 1
    then have "b = slot_bounds [] ?o" using ob by (cases ?o) (auto simp: order_bounds_def Let_def slot_bounds_def)
    then show ?thesis using 1 by (intro exI [of _ "[]"] exI [of _ ?o]) (simp add: dest_met_def)
  next
    case 2
    then have "b = slot_bounds ?o []"
      using ob by (auto simp: order_bounds_def Let_def slot_bounds_def last_conv_nth split: if_splits)
    then show ?thesis using 2 by (intro exI [of _ ?o] exI [of _ "[]"]) (simp add: dest_met_def)
  next
    case 3
    then have "neighbour_bounds scope subject ?o (de_before dst) True d = Inr b" using ob by (simp add: order_bounds_def Let_def)
    from neighbour_slot [OF ok mem this] 3 show ?thesis by (fastforce simp: dest_met_def)
  next
    case 4
    then have "neighbour_bounds scope subject ?o (de_after dst) False d = Inr b" using ob by (simp add: order_bounds_def Let_def)
    from neighbour_slot [OF ok mem this] 4 show ?thesis by (fastforce simp: dest_met_def)
  qed
qed

lemma complete_state_files:
  "complete_state E s message new old m = (r, m') \<Longrightarrow> mc_disk m' = mc_disk m \<and> mc_db m' = mc_db m \<and> mc_clock m' = mc_clock m"
  unfolding complete_state_def by (rule complete_paths_files)

lemma session_mid_rebase_Inr: "session_mid_rebase E s m = (Inr u, m') \<Longrightarrow> m' = m"
  by (simp add: session_mid_rebase_def act_refuse_Inr)

lemma order_ticket_InrE:
  assumes run: "order_ticket E scope dir l dst m = (Inr r, m')"
  obtains s m0 subject left right k fm body m1 where
    "dest_count dst = 1" "begin_write E scope dir m = (Inr s, m0)" "resolve_write_row scope l (mc_db m0) = Inr subject"
    "order_bounds scope subject (scope_tickets scope (mc_db m0)) dst (mc_db m0) = Inr (left, right)"
    "key_between left right = Inr k" "read_ticket_file E (tk_path subject) m0 = Inr (fm, body)"
    "rewrite_ticket E scope (tk_path subject) (fm\<lparr>fm_order := k\<rparr>) body m0 = (Inr (), m1)"
    "mc_disk m' = mc_disk m1" "mc_db m' = mc_db m1" "mc_clock m' = mc_clock m1" "wr_id r = tk_id subject" "wr_path r = tk_path subject"
proof -
  from run obtain s m0 subject left right k fm body m1 x m2 where o: "dest_count dst = 1"
    "begin_write E scope dir m = (Inr s, m0)" "resolve_write_row scope l (mc_db m0) = Inr subject"
    "order_bounds scope subject (scope_tickets scope (mc_db m0)) dst (mc_db m0) = Inr (left, right)"
    "key_between left right = Inr k" "read_ticket_file E (tk_path subject) m0 = Inr (fm, body)"
    "rewrite_ticket E scope (tk_path subject) (fm\<lparr>fm_order := k\<rparr>) body m0 = (Inr (), m1)"
    "complete_state E s (''tk: '' @ tk_id subject @ '' order'') (tk_path subject) [] m1 = (x, m2)" "m' = m2"
    "wr_id r = tk_id subject" "wr_path r = tk_path subject"
    unfolding order_ticket_def
    by (auto simp: act_runs map_error_Inr split: if_splits prod.splits dest!: session_mid_rebase_Inr)
  show ?thesis by (rule that [OF o(1-7)]) (use complete_state_files [OF o(8)] o in simp_all)
qed

text \<open>C27. \<open>tk order\<close> puts a ticket where it was asked to: the file of the ticket is rewritten with an order key that
  is valid and lies strictly between those of the other tickets before and after the wanted place
  (the start, the end, right before or right after a named ticket), its other fields and its body as they
  were, no other file changes, and the index shows the new listing at once.\<close>

theorem order_places:
  assumes "machine_ok E scope dir m" "order_ticket E scope dir l dst m = (Inr r, m')"
  shows "\<exists>s m0 subject fm body interior k as bs.
    begin_write E scope dir m = (Inr s, m0) \<and> resolve_write_row scope l (mc_db m0) = Inr subject \<and>
    order_others subject (scope_tickets scope (mc_db m0)) = as @ bs \<and> dest_met scope dst (mc_db m0) as bs \<and>
    valid k \<and> (\<forall>a \<in> set as. tk_order_key a < k) \<and> (\<forall>b \<in> set bs. k < tk_order_key b) \<and>
    ticket_at (re_yaml (we_rec E)) m (tk_path subject) = Some (fm, body) \<and>
    serialize (re_yaml (we_rec E)) (fm\<lparr>fm_order := k\<rparr>) = Inr interior \<and>
    contents m' = (contents m)(tk_path subject \<mapsto> compose interior body) \<and> index_current E scope dir m'"
proof -
  from assms(2) obtain s m0 subject left right k fm body m1 where o:
    "begin_write E scope dir m = (Inr s, m0)" "resolve_write_row scope l (mc_db m0) = Inr subject"
    "order_bounds scope subject (scope_tickets scope (mc_db m0)) dst (mc_db m0) = Inr (left, right)"
    "key_between left right = Inr k" "read_ticket_file E (tk_path subject) m0 = Inr (fm, body)"
    "rewrite_ticket E scope (tk_path subject) (fm\<lparr>fm_order := k\<rparr>) body m0 = (Inr (), m1)"
    "mc_disk m' = mc_disk m1" "mc_db m' = mc_db m1" "mc_clock m' = mc_clock m1"
    by (rule order_ticket_InrE)
  have b: "mc_disk m0 = mc_disk m" "index_current E scope dir m0" using begin_write_run [OF o(1)] assms(1) by auto
  then have ok: "db_ok (mc_db m0)" by (simp add: index_current_def)
  obtain as bs where sp: "order_others subject (scope_tickets scope (mc_db m0)) = as @ bs" "(left, right) = slot_bounds as bs"
    "dest_met scope dst (mc_db m0) as bs"
    using order_bounds_slot [OF ok o(3)] by blast
  have "\<forall>p \<in> set (as @ bs). valid (tk_order_key p)"
    using sp(1) set_order_others [of subject "scope_tickets scope (mc_db m0)"] by auto
  moreover have "sorted (map tk_order_key (as @ bs))" unfolding sp(1) [symmetric] by (rule order_others_sorted)
  moreover have "key_between (fst (slot_bounds as bs)) (snd (slot_bounds as bs)) = Inr k" using o(4) sp(2) [symmetric] by simp
  ultimately have k: "valid k \<and> (\<forall>a \<in> set as. tk_order_key a < k) \<and> (\<forall>b \<in> set bs. k < tk_order_key b)"
    by (intro slot_between)
  obtain interior where w: "serialize (re_yaml (we_rec E)) (fm\<lparr>fm_order := k\<rparr>) = Inr interior"
    "contents m1 = (contents m0)(tk_path subject \<mapsto> compose interior body)"
    "plain_dir dir \<longrightarrow> index_current E scope dir m1"
    using rewrite_ticket_Inr [OF o(6)] b(2) by blast
  have "contents m0 = contents m" "contents m' = contents m1" using b(1) o(7) by (simp_all add: contents_def fun_eq_iff)
  moreover have "index_current E scope dir m'" by (rule index_current_files [OF _ o(7-9)]) (use w(3) assms(1) in \<open>simp add: machine_ok_def\<close>)
  moreover have "ticket_at (re_yaml (we_rec E)) m (tk_path subject) = Some (fm, body)"
    using read_ticket_at [OF o(5)] b(1) by (simp add: ticket_at_def contents_def)
  ultimately show ?thesis using o(1,2) sp(1,3) k w(1,2) by (metis (no_types, lifting))
qed

definition order_table :: "(fm_model \<times> string) list" where
  "order_table = [(doc_ticket ''app-abcd'' ''todo'' [] ''a0'', line_of ''A''), (doc_ticket ''app-efgh'' ''todo'' [] ''a1'', line_of ''B''),
     (doc_ticket ''app-efgh'' ''todo'' [] ''Zz'', line_of ''C'')]"

abbreviation order_machine :: machine where
  "order_machine \<equiv> machine_of [(''/s/app-abcd-x.md'', compose (line_of ''A'') ''# T''), (''/s/app-efgh-y.md'', compose (line_of ''B'') ''# U'')]"

abbreviation to_front :: dest where
  "to_front \<equiv> \<lparr>de_first = True, de_last = False, de_before = short_lookup [], de_after = short_lookup []\<rparr>"

abbreviation order_run :: "(write_error + wresult) \<times> machine" where
  "order_run \<equiv> order_ticket (table_env order_table plain_schema) ''app'' ''/s'' (short_lookup ''efgh'') to_front order_machine"

lemma order_run_files:
  "contents (snd order_run) ''/s/app-efgh-y.md'' = Some (compose (line_of ''C'') ''# U'')"
  "case fst order_run of Inr out \<Rightarrow> wr_id out = ''app-efgh'' | Inl e \<Rightarrow> False"
  by code_simp+

lemma machine_start_ok:
  assumes "plain_dir dir" "scope \<in> registered_set E" "mc_db m = empty_db" "0 \<le> mc_clock m" "disk_ok (mc_disk m)"
    "archive_listed dir (mc_disk m)" "list_all (\<lambda>(p, f). f_mtime f \<le> mc_clock m) (dk_files (mc_disk m))"
  shows "machine_ok E scope dir m"
proof -
  have "f_mtime f \<le> mc_clock m" if "disk_file (mc_disk m) p = Some f" for p f
    using that assms(7) map_of_SomeD by (fastforce simp: disk_file_def list_all_iff)
  then show ?thesis using assms(1-6)
    by (auto simp: machine_ok_def world_ok_def quiet_def empty_db_ok row_view_def row_at_def last_index_def)
      (simp_all add: empty_db_def)
qed

theorem order_places_witness:
  "\<exists>s m0 subject as bs k interior body. begin_write (table_env order_table plain_schema) ''app'' ''/s'' order_machine = (Inr s, m0) \<and>
     order_others subject (scope_tickets ''app'' (mc_db m0)) = as @ bs \<and> as = [] \<and> (\<forall>b \<in> set bs. k < tk_order_key b) \<and>
     contents (snd order_run) = (contents order_machine)(tk_path subject \<mapsto> compose interior body)"
proof -
  have ok: "machine_ok (table_env order_table plain_schema) ''app'' ''/s'' order_machine" by (rule machine_start_ok) code_simp+
  obtain r m' where run: "order_run = (Inr r, m')"
    using order_run_files(2) by (cases order_run; cases "fst order_run") simp_all
  from order_places [OF ok run] obtain s m0 subject body interior k as bs where
    b: "begin_write (table_env order_table plain_schema) ''app'' ''/s'' order_machine = (Inr s, m0)"
      "order_others subject (scope_tickets ''app'' (mc_db m0)) = as @ bs" and at: "dest_met ''app'' to_front (mc_db m0) as bs"
    and k: "\<forall>b \<in> set bs. k < tk_order_key b"
    and c: "contents m' = (contents order_machine)(tk_path subject \<mapsto> compose interior body)"
    by (elim exE conjE)
  have "as = []" using at by (simp add: dest_met_def)
  then show ?thesis using b k c run
    by (intro exI [of _ s] exI [of _ m0] exI [of _ subject] exI [of _ as] exI [of _ bs] exI [of _ k] exI [of _ interior] exI [of _ body]) simp
qed

end
