(* ===== verification/Outcomes.thy ===== *)
theory Outcomes
  imports Placements
begin

text \<open>
  How the verbs of \<open>internal/writeengine\<close> end: actions that touch no file, and backward rules that carry a
  statement about the answer and the files through the binds of an action, one rule per kind of step. Every early
  return of a verb becomes one premise "the files are as they were".
\<close>

section \<open>What a refusal leaves\<close>

text \<open>Actions that touch no file, and the case rule for an action that starts with one.\<close>

definition files_kept :: "('e, 'a) run \<Rightarrow> bool" where
  "files_kept f \<longleftrightarrow> (\<forall>m r m'. f m = (r, m') \<longrightarrow> mc_disk m' = mc_disk m \<and> mc_clock m' = mc_clock m)"

lemma files_keptD: "files_kept f \<Longrightarrow> f m = (r, m') \<Longrightarrow> mc_disk m' = mc_disk m \<and> mc_clock m' = mc_clock m"
  by (simp add: files_kept_def)

lemma kept_basic [intro]:
  "files_kept (act_read g)" "files_kept (act_refuse e)" "files_kept (act_return x)" "files_kept (act_fail err)"
  "files_kept (begin_status_write E scope dir)" "files_kept (session_mid_rebase E s)" "files_kept (reconcile_now E ts)"
  "files_kept (complete_state E s msg new old)"
proof -
  show "files_kept (begin_status_write E scope dir)" unfolding files_kept_def using begin_status_run by blast
  show "files_kept (reconcile_now E ts)" unfolding files_kept_def using reconcile_now_run by blast
  show "files_kept (complete_state E s msg new old)" unfolding files_kept_def using complete_state_files by blast
qed (auto simp: files_kept_def act_read_def act_refuse_def act_return_def act_fail_def session_mid_rebase_def)

lemma kept_bind_intro [intro]:
  assumes "files_kept f" "\<And>x. files_kept (g x)"
  shows "files_kept (act_bind f g)"
  unfolding files_kept_def
proof (intro allI impI)
  fix m r m'
  assume run: "act_bind f g m = (r, m')"
  obtain r1 m1 where f: "f m = (r1, m1)" by (cases "f m")
  show "mc_disk m' = mc_disk m \<and> mc_clock m' = mc_clock m"
    using run f files_keptD [OF assms(1) f] files_keptD [OF assms(2), of _ m1 r m'] by (cases r1) (auto simp: act_bind_def)
qed

lemma kept_if [intro]: "files_kept f \<Longrightarrow> files_kept g \<Longrightarrow> files_kept (if b then f else g)"
  by simp

lemma kept_pair [intro]: "(\<And>a b. files_kept (f a b)) \<Longrightarrow> files_kept (case x of (a, b) \<Rightarrow> f a b)"
  by (cases x) simp

lemma kept_option [intro]: "files_kept f \<Longrightarrow> (\<And>x. files_kept (g x)) \<Longrightarrow> files_kept (case v of None \<Rightarrow> f | Some x \<Rightarrow> g x)"
  by (cases v) simp_all

lemma kept_lift [intro]: "files_kept f \<Longrightarrow> files_kept (act_lift w f)"
  by (auto simp: files_kept_def act_lift_def split: prod.splits sum.splits)

lemma kept_begin_write [intro]: "files_kept (begin_write E scope dir)"
  unfolding begin_write_def by (intro kept_bind_intro kept_basic)

text \<open>What holds of the answer and the machine when an action ends, derived backwards through its binds.\<close>

definition ends :: "('e, 'a) run \<Rightarrow> machine \<Rightarrow> ('e + 'a \<Rightarrow> machine \<Rightarrow> bool) \<Rightarrow> bool" where
  "ends f m P \<longleftrightarrow> (case f m of (r, m') \<Rightarrow> P r m')"

lemma endsD: "ends f m P \<Longrightarrow> f m = (r, m') \<Longrightarrow> P r m'"
  by (simp add: ends_def)

lemma ends_read:
  "(\<And>e. h m = Inl e \<Longrightarrow> P (Inl e) m) \<Longrightarrow> (\<And>x. h m = Inr x \<Longrightarrow> ends (g x) m P) \<Longrightarrow> ends (act_bind (act_read h) g) m P"
  by (cases "h m") (simp_all add: ends_def act_bind_def act_read_def)

lemma ends_refuse:
  "(\<And>e. c = Some e \<Longrightarrow> P (Inl e) m) \<Longrightarrow> (c = None \<Longrightarrow> ends (g ()) m P) \<Longrightarrow> ends (act_bind (act_refuse c) g) m P"
  by (cases c) (simp_all add: ends_def act_bind_def act_refuse_def)

lemma ends_bind:
  assumes "\<And>e m1. f m = (Inl e, m1) \<Longrightarrow> P (Inl e) m1" "\<And>x m1. f m = (Inr x, m1) \<Longrightarrow> ends (g x) m1 P"
  shows "ends (act_bind f g) m P"
proof -
  obtain r1 m1 where f: "f m = (r1, m1)" by (cases "f m")
  then show ?thesis using assms by (cases r1) (simp_all add: ends_def act_bind_def)
qed

lemma ends_pair: "(\<And>a b. x = (a, b) \<Longrightarrow> ends (f a b) m P) \<Longrightarrow> ends (case x of (a, b) \<Rightarrow> f a b) m P"
  by (cases x) simp

lemma ends_lift: "ends f m (\<lambda>r m'. P (map_sum w (\<lambda>x. x) r) m') \<Longrightarrow> ends (act_lift w f) m P"
  by (auto simp: ends_def act_lift_def split: prod.splits sum.splits)

lemma ends_kept:
  assumes "files_kept f" "\<And>r m1. f m = (r, m1) \<Longrightarrow> contents m1 = contents m \<Longrightarrow> P r m1"
  shows "ends f m P"
  using assms(2) files_keptD [OF assms(1)] by (cases "f m") (simp add: ends_def contents_def fun_eq_iff)

lemma kept_contents: "files_kept f \<Longrightarrow> f m = (r, m1) \<Longrightarrow> contents m1 = contents m"
  using files_keptD [of f m r m1] by (simp add: contents_def fun_eq_iff)

text \<open>The common end of the verbs that rewrite one file: write, write through, then only git is left.\<close>

lemma ends_rewrite:
  assumes error: "\<And>e m1. contents m1 = contents m \<Longrightarrow> P (Inl e) m1"
    and wrote: "\<And>interior r m1. serialize (re_yaml (we_rec E)) fm = Inr interior \<Longrightarrow>
        contents m1 = (contents m)(path \<mapsto> compose interior body) \<Longrightarrow> P r m1"
    and g: "files_kept (g ())"
  shows "ends (act_bind (rewrite_ticket E scope path fm body) g) m P"
proof -
  obtain r1 m1 where w: "write_ticket_file E path fm body m = (r1, m1)" by (cases "write_ticket_file E path fm body m")
  obtain r2 m2 where sy: "sync_now E scope (written_paths path []) m1 = (r2, m2)" by (cases "sync_now E scope (written_paths path []) m1")
  from write_ticket_file_run [OF w] consider (ok) interior where "r1 = Inr ()" "serialize (re_yaml (we_rec E)) fm = Inr interior"
      "disk_file (mc_disk m1) = (disk_file (mc_disk m))(path \<mapsto> \<lparr>f_data = compose interior body, f_mtime = mc_clock m\<rparr>)"
    | (bad) e where "r1 = Inl e" "m1 = m" by auto
  then show ?thesis
  proof cases
    case ok
    have c: "contents m2 = (contents m)(path \<mapsto> compose interior body)"
      using sync_now_run [OF sy] ok(3) by (simp add: contents_def fun_eq_iff)
    have rest: "rewrite_ticket E scope path fm body m = (r2, m2)" using w sy ok(1) by (simp add: rewrite_ticket_def act_bind_def)
    show ?thesis
      by (rule ends_bind) (use rest wrote [OF ok(2)] c ends_kept [OF g] in auto)
  next
    case bad
    then show ?thesis using error w by (simp add: ends_def act_bind_def rewrite_ticket_def)
  qed
qed

text \<open>The steps that begin the verbs.\<close>

lemma ends_begin:
  assumes "\<And>e m1. contents m1 = contents m \<Longrightarrow> P (Inl e) m1"
    and "\<And>s m0. begin_write E scope dir m = (Inr s, m0) \<Longrightarrow> contents m0 = contents m \<Longrightarrow> se_schema s = dir_schema E dir \<Longrightarrow> ends (g s) m0 P"
  shows "ends (act_bind (begin_write E scope dir) g) m P"
proof (rule ends_bind)
  show "P (Inl e) m1" if "begin_write E scope dir m = (Inl e, m1)" for e m1
    by (rule assms(1) [OF kept_contents [OF kept_begin_write that]])
  show "ends (g s) m0 P" if "begin_write E scope dir m = (Inr s, m0)" for s m0
    by (rule assms(2) [OF that kept_contents [OF kept_begin_write that]]) (use begin_write_run [OF that] in simp)
qed

lemma ends_mid_rebase:
  "(\<And>e. P (Inl e) m) \<Longrightarrow> ends (g ()) m P \<Longrightarrow> ends (act_bind (session_mid_rebase E s) g) m P"
  by (cases "check_mid_rebase (we_git E) (se_scope s) (se_auto s) (se_root s) m")
    (simp_all add: ends_def act_bind_def session_mid_rebase_def act_refuse_def)

lemma ends_kept_unit:
  assumes "files_kept f" "\<And>e m1. contents m1 = contents m \<Longrightarrow> P (Inl e) m1"
    and "\<And>m1. contents m1 = contents m \<Longrightarrow> ends (g ()) m1 P"
  shows "ends (act_bind f g) m P"
  by (rule ends_bind) (auto dest: kept_contents [OF assms(1)] intro: assms(2,3))

lemma ends_begin_status:
  assumes "\<And>e m1. contents m1 = contents m \<Longrightarrow> P (Inl e) m1"
    and "\<And>s m0. begin_status_write E scope dir m = (Inr s, m0) \<Longrightarrow> mc_disk m0 = mc_disk m \<Longrightarrow> se_schema s = dir_schema E dir \<Longrightarrow>
      ends (g s) m0 P"
  shows "ends (act_bind (begin_status_write E scope dir) g) m P"
proof (rule ends_bind)
  show "P (Inl e) m1" if "begin_status_write E scope dir m = (Inl e, m1)" for e m1
    by (rule assms(1) [OF kept_contents [OF kept_basic(5) that]])
  show "ends (g s) m0 P" if "begin_status_write E scope dir m = (Inr s, m0)" for s m0
    by (rule assms(2) [OF that]) (use begin_status_run [OF that] in simp_all)
qed

lemma ends_location:
  assumes "\<And>e m1. contents m1 = contents m \<Longrightarrow> P (Inl e) m1"
    and "\<And>m1. disk_file (mc_disk m1) = disk_file (mc_disk m) \<Longrightarrow> mc_db m1 = mc_db m \<Longrightarrow>
      ends (g (if terminal then path_join (path_join dir archive_dir) base else path_join dir base)) m1 P"
  shows "ends (act_bind (terminal_location E dir base terminal) g) m P"
proof (rule ends_bind)
  show "P (Inl e) m1" if "terminal_location E dir base terminal m = (Inl e, m1)" for e m1
    by (rule assms(1)) (use terminal_location_run [OF that] in \<open>simp add: contents_def fun_eq_iff\<close>)
  show "ends (g x) m1 P" if "terminal_location E dir base terminal m = (Inr x, m1)" for x m1
    using assms(2) [of m1] terminal_location_run [OF that] by simp
qed

lemma ends_put:
  assumes "\<And>e. P (Inl e) m"
    and "\<And>m1. contents m1 = (contents m)(path \<mapsto> data) \<Longrightarrow> mc_db m1 = mc_db m \<Longrightarrow> ends (g ()) m1 P"
  shows "ends (act_bind (atomic_write E path data) g) m P"
proof (rule ends_bind)
  show "P (Inl e) m1" if "atomic_write E path data m = (Inl e, m1)" for e m1
    using assms(1) atomic_write_run [OF that] by auto
  show "ends (g x) m1 P" if "atomic_write E path data m = (Inr x, m1)" for x m1
  proof -
    from atomic_write_run [OF that] have "contents m1 = (contents m)(path \<mapsto> data)" "mc_db m1 = mc_db m"
      by (auto simp: contents_def fun_eq_iff)
    from assms(2) [OF this] show ?thesis by simp
  qed
qed

lemma ends_sync:
  assumes "\<And>e m1. contents m1 = contents m \<Longrightarrow> P (Inl e) m1" "\<And>m1. contents m1 = contents m \<Longrightarrow> ends (g ()) m1 P"
  shows "ends (act_bind (sync_now E scope paths) g) m P"
proof (rule ends_bind)
  have same: "contents m1 = contents m" if "sync_now E scope paths m = (r, m1)" for r m1
    using sync_now_run [OF that] by (simp add: contents_def fun_eq_iff)
  show "P (Inl e) m1" if "sync_now E scope paths m = (Inl e, m1)" for e m1 by (rule assms(1) [OF same [OF that]])
  show "ends (g x) m1 P" if "sync_now E scope paths m = (Inr x, m1)" for x m1 using assms(2) [OF same [OF that]] by simp
qed

lemma ends_return: "P (Inr x) m \<Longrightarrow> ends (act_return x) m P"
  by (simp add: ends_def act_return_def)

lemma read_contents_ticket:
  "read_ticket_file E p m1 = Inr x \<Longrightarrow> contents m1 = contents m \<Longrightarrow> ticket_at (re_yaml (we_rec E)) m p = Some x"
  using read_ticket_at [of E p m1 x] by (simp add: ticket_at_def)

lemma not_refused: "(\<exists>e. (Inr x :: 'e + 'a) = Inl e) \<and> B \<or> C \<Longrightarrow> C"
  by simp

lemmas ends_rules = ends_refuse ends_begin ends_begin_status ends_mid_rebase ends_read ends_pair ends_location ends_put ends_sync ends_return

end
