(* ===== verification/Numbers.thy ===== *)
theory Numbers
  imports Frontmatter
begin

text \<open>
  Decimal text and 64-bit integers: \<open>strconv.ParseInt\<close> and what it reads back of \<open>FormatInt\<close>
  (\<open>show_int\<close> of theory \<open>Frontmatter\<close>).
\<close>

text \<open>\<open>strconv.ParseInt (s, 10, 64)\<close>: an optional sign, then only digits, in the range of an \<open>int64\<close>.\<close>

definition is_digit :: "char \<Rightarrow> bool" where
  "is_digit c \<longleftrightarrow> CHR ''0'' \<le> c \<and> c \<le> CHR ''9''"

definition digits_value :: "string \<Rightarrow> int" where
  "digits_value ds = fold (\<lambda>c n. 10 * n + (int (of_char c) - 48)) ds 0"

definition parse_int64 :: "string \<Rightarrow> int option" where
  "parse_int64 s =
     (let neg = (s \<noteq> [] \<and> hd s = CHR ''-'');
          ds = (if s \<noteq> [] \<and> (hd s = CHR ''-'' \<or> hd s = CHR ''+'') then tl s else s);
          un = digits_value ds in
      if ds = [] \<or> \<not> list_all is_digit ds then None
      else if \<not> neg \<and> un \<ge> 2 ^ 63 then None
      else if neg \<and> un > 2 ^ 63 then None
      else Some (if neg then - un else un))"

lemma show_nat_digits: "show_nat n \<noteq> [] \<and> list_all is_digit (show_nat n) \<and> digits_value (show_nat n) = int n"
proof (induction n rule: show_nat.induct)
  case (1 n)
  have digit: "is_digit (char_of (48 + k)) \<and> int (of_char (char_of (48 + k) :: char)) = int (48 + k)" if "k < 10" for k :: nat
  proof -
    have "of_char (char_of (48 + k) :: char) = 48 + k" using that by simp
    moreover have "is_digit (char_of (48 + k))" using that by (simp add: is_digit_def less_eq_char_def)
    ultimately show ?thesis by simp
  qed
  have dv: "digits_value (ds @ [c]) = 10 * digits_value ds + (int (of_char c) - 48)" for ds c
    by (simp add: digits_value_def)
  show ?case
  proof (cases "n < 10")
    case True
    then show ?thesis using digit [of n] by (subst (1 2 3) show_nat.simps) (simp add: digits_value_def)
  next
    case False
    have "int n = int (10 * (n div 10) + n mod 10)" by simp
    then have "int n = 10 * int (n div 10) + int (n mod 10)" by (simp only: of_nat_add of_nat_mult of_nat_numeral)
    then show ?thesis using False 1 digit [of "n mod 10"] by (subst (1 2 3) show_nat.simps) (simp add: dv)
  qed
qed

lemma digit_no_sign: "is_digit c \<Longrightarrow> c \<noteq> CHR ''-'' \<and> c \<noteq> CHR ''+''"
  by (auto simp: is_digit_def)

lemma parse_show_int: "- (2 ^ 63) \<le> n \<Longrightarrow> n < 2 ^ 63 \<Longrightarrow> parse_int64 (show_int n) = Some n"
proof -
  assume n: "- (2 ^ 63) \<le> n" "n < 2 ^ 63"
  show ?thesis
  proof (cases "n < 0")
    case True
    then show ?thesis using n show_nat_digits [of "nat (- n)"] by (simp add: show_int_def parse_int64_def Let_def)
  next
    case False
    obtain c cs where s: "show_nat (nat n) = c # cs" "is_digit c"
      using show_nat_digits [of "nat n"] by (cases "show_nat (nat n)") auto
    then show ?thesis using False n show_nat_digits [of "nat n"] digit_no_sign [OF s(2)]
      by (simp add: show_int_def parse_int64_def Let_def)
  qed
qed

lemma show_nat_inject: "show_nat a = show_nat b \<Longrightarrow> a = b"
  by (metis show_nat_digits of_nat_eq_iff)

lemma show_int_inject:
  assumes "show_int a = show_int b"
  shows "a = b"
proof -
  have sign: "show_nat n \<noteq> CHR ''-'' # s" for n s
    using show_nat_digits [of n] digit_no_sign by (cases "show_nat n") auto
  then have "a < 0 \<longleftrightarrow> b < 0" using assms by (metis show_int_def)
  then have "show_nat (nat \<bar>a\<bar>) = show_nat (nat \<bar>b\<bar>)" using assms by (auto simp: show_int_def split: if_splits)
  with \<open>a < 0 \<longleftrightarrow> b < 0\<close> show ?thesis using show_nat_inject by fastforce
qed

lemma show_int_chars: "c \<in> set (show_int n) \<Longrightarrow> is_digit c \<or> c = CHR ''-''"
  using show_nat_digits by (auto simp: show_int_def list_all_iff split: if_splits)

end
