(* ===== verification/Metas.thy ===== *)
theory Metas
  imports Outcomes Numbers
begin

text \<open>
  \<open>tk meta set|add|rm\<close> (\<open>internal/writeengine/meta.go\<close>): the class of a key, the mutation of one key of the
  model, the check of a new depends edge, and the whole verb. What \<open>tk meta get\<close> prints is here too.
\<close>

section \<open>Keys\<close>

datatype meta_op = MetaSet | MetaAdd | MetaRemove

fun meta_op_string :: "meta_op \<Rightarrow> string" where
  "meta_op_string MetaSet = ''set''"
| "meta_op_string MetaAdd = ''add''"
| "meta_op_string MetaRemove = ''remove''"

datatype meta_key_class = MetaKeyUnknown | MetaKeyImmutable | MetaKeyScalar | MetaKeyMulti

definition builtin_meta_key_order :: "string list" where
  "builtin_meta_key_order =
     [key_id, key_status, key_changed, key_order, key_depends, key_related, key_tags, key_created, key_links,
      key_summary, key_status_conflict]"

definition plain_field :: "string \<Rightarrow> field_decl" where
  "plain_field t = \<lparr>fd_type = t, fd_required = False, fd_values = None\<rparr>"

definition classify_meta_key :: "string \<Rightarrow> schema option \<Rightarrow> write_error + (meta_key_class \<times> field_decl)" where
  "classify_meta_key key schema =
     (if key \<in> {key_id, key_status, key_order, key_created, key_changed, key_status_conflict}
      then Inr (MetaKeyImmutable, plain_field [])
      else if key = key_summary then Inr (MetaKeyScalar, plain_field field_string)
      else if key \<in> {key_depends, key_related, key_tags, key_links} then Inr (MetaKeyMulti, plain_field field_strings)
      else case (case schema of None \<Rightarrow> None | Some sc \<Rightarrow> schema_field sc key) of
             Some f \<Rightarrow>
               if fd_type f \<in> {field_string, field_int, field_bool} then Inr (MetaKeyScalar, f)
               else if fd_type f = field_strings then Inr (MetaKeyMulti, f)
               else Inl (UnsupportedField key (fd_type f))
           | None \<Rightarrow> Inr (MetaKeyUnknown, plain_field []))"

definition known_meta_keys :: "schema option \<Rightarrow> string list" where
  "known_meta_keys schema =
     (case schema of
        None \<Rightarrow> builtin_meta_key_order
      | Some sc \<Rightarrow>
          if length (sc_fields sc) = 0 then builtin_meta_key_order
          else builtin_meta_key_order @ sort (map fst (sc_fields sc)))"

definition unknown_meta_key_error :: "string \<Rightarrow> schema option \<Rightarrow> write_error" where
  "unknown_meta_key_error key schema = Usage (UnknownKey key (known_meta_keys schema))"

section \<open>Values\<close>

definition custom_value :: "fm_model \<Rightarrow> string \<Rightarrow> goval option" where
  "custom_value m key = map_of (fm_custom m) key"

fun set_first :: "string \<Rightarrow> 'v \<Rightarrow> (string \<times> 'v) list \<Rightarrow> (string \<times> 'v) list" where
  "set_first key v [] = [(key, v)]"
| "set_first key v ((k, w) # fs) = (if k = key then (k, v) # fs else (k, w) # set_first key v fs)"

definition set_custom :: "fm_model \<Rightarrow> string \<Rightarrow> goval \<Rightarrow> fm_model" where
  "set_custom m key v = m\<lparr>fm_custom := set_first key v (fm_custom m)\<rparr>"

definition format_scalar :: "goval \<Rightarrow> string" where
  "format_scalar v =
     (case v of
        VBool b \<Rightarrow> if b then ''true'' else ''false''
      | VStr s \<Rightarrow> s
      | VNil \<Rightarrow> []
      | _ \<Rightarrow> sprint v)"

definition join_lines :: "string list \<Rightarrow> string" where
  "join_lines items = (if length items = 0 then [] else go_join [newline] items @ [newline])"

definition meta_get_value :: "fm_model \<Rightarrow> string \<Rightarrow> meta_key_class \<Rightarrow> field_decl \<Rightarrow> write_error + string" where
  "meta_get_value m key cls f =
     (if key = key_id then Inr (fm_id m)
      else if key = key_status then Inr (fm_status m)
      else if key = key_order then Inr (fm_order m)
      else if key = key_created then Inr (fm_created m)
      else if key = key_changed then Inr (fm_changed m)
      else if key = key_summary then Inr (fm_summary m)
      else if key = key_depends then Inr (join_lines (fm_depends m))
      else if key = key_related then Inr (join_lines (fm_related m))
      else if key = key_tags then Inr (join_lines (fm_tags m))
      else if key = key_links then Inr (join_lines (fm_links m))
      else if key = key_status_conflict then Inr (join_lines (fm_status_conflict m))
      else case custom_value m key of
             None \<Rightarrow> Inr []
           | Some v \<Rightarrow>
               if cls = MetaKeyMulti \<or> fd_type f = field_strings
               then (case string_list v of Inl _ \<Rightarrow> Inl (CustomNotList key) | Inr xs \<Rightarrow> Inr (join_lines xs))
               else Inr (format_scalar v))"

definition outside_values :: "field_decl \<Rightarrow> string \<Rightarrow> bool" where
  "outside_values f value \<longleftrightarrow> (case fd_values f of None \<Rightarrow> False | Some vs \<Rightarrow> length vs > 0 \<and> value \<notin> set vs)"

definition parse_scalar_value :: "field_decl \<Rightarrow> string \<Rightarrow> write_error + goval" where
  "parse_scalar_value f value =
     (if fd_type f = field_string then
        if outside_values f value then Inl (Usage (OutsideValues value)) else Inr (VStr value)
      else if fd_type f = field_int then
        (case parse_int64 value of None \<Rightarrow> Inl (Usage (BadInteger value)) | Some n \<Rightarrow> Inr (VInt n))
      else if fd_type f = field_bool then
        if value = ''true'' then Inr (VBool True)
        else if value = ''false'' then Inr (VBool False)
        else Inl (Usage (BadBool value))
      else Inl (Usage (BadType (fd_type f))))"

section \<open>The mutation\<close>

definition apply_meta_set :: "fm_model \<Rightarrow> string \<Rightarrow> string \<Rightarrow> field_decl \<Rightarrow> write_error + fm_model" where
  "apply_meta_set m key value f =
     (if key = key_summary then Inr (m\<lparr>fm_summary := value\<rparr>)
      else if value = [] then Inr (fst (remove_custom m key))
      else rbind (parse_scalar_value f value) (\<lambda>parsed. Inr (set_custom m key parsed)))"

definition mutate_string_list :: "string list \<Rightarrow> meta_op \<Rightarrow> string \<Rightarrow> field_decl \<Rightarrow> write_error + string list" where
  "mutate_string_list xs op value f =
     (if op = MetaAdd then
        if outside_values f value then Inl (Usage (OutsideValues value))
        else if value \<in> set xs then Inr xs
        else Inr (xs @ [value])
      else Inr (remove1 value xs))"

definition apply_meta_list_op :: "fm_model \<Rightarrow> meta_op \<Rightarrow> string \<Rightarrow> string \<Rightarrow> field_decl \<Rightarrow> write_error + fm_model" where
  "apply_meta_list_op m op key value f =
     (if key = key_depends then rbind (mutate_string_list (fm_depends m) op value f) (\<lambda>xs. Inr (m\<lparr>fm_depends := xs\<rparr>))
      else if key = key_related then rbind (mutate_string_list (fm_related m) op value f) (\<lambda>xs. Inr (m\<lparr>fm_related := xs\<rparr>))
      else if key = key_tags then rbind (mutate_string_list (fm_tags m) op value f) (\<lambda>xs. Inr (m\<lparr>fm_tags := xs\<rparr>))
      else if key = key_links then rbind (mutate_string_list (fm_links m) op value f) (\<lambda>xs. Inr (m\<lparr>fm_links := xs\<rparr>))
      else case string_list (case custom_value m key of None \<Rightarrow> VNil | Some v \<Rightarrow> v) of
             Inl _ \<Rightarrow> Inl (Usage (NotStringList key))
           | Inr existing \<Rightarrow>
               rbind (mutate_string_list existing op value f) (\<lambda>xs.
                 Inr (if length xs = 0 then fst (remove_custom m key) else set_custom m key (VStrs xs))))"

definition apply_meta_mutation :: "fm_model \<Rightarrow> meta_op \<Rightarrow> string \<Rightarrow> string \<Rightarrow> field_decl \<Rightarrow> write_error + fm_model" where
  "apply_meta_mutation m op key value f =
     (if op = MetaSet then apply_meta_set m key value f else apply_meta_list_op m op key value f)"

section \<open>A new depends edge\<close>

definition parse_edge_id :: "string \<Rightarrow> write_error + (string \<times> bool)" where
  "parse_edge_id value =
     (case parse_arg value of
        (form, ok) \<Rightarrow> if \<not> ok then Inl (Usage (BadTicketId value)) else Inr (value, form = FormFull))"

definition normalise_edge_value :: "string \<Rightarrow> string \<Rightarrow> write_error + string" where
  "normalise_edge_value subjectScope value =
     rbind (parse_edge_id value) (\<lambda>(query, byFull).
       Inr (if \<not> byFull then subjectScope @ ''-'' @ query else query))"

definition non_quarantined_exists :: "string \<Rightarrow> string \<Rightarrow> db \<Rightarrow> bool" where
  "non_quarantined_exists scope full d \<longleftrightarrow> (\<exists>r \<in> set (tickets_by_id scope full d). \<not> tk_parse_error r)"

definition check_depends_add :: "wenv \<Rightarrow> string \<Rightarrow> string \<Rightarrow> string \<Rightarrow> unit act" where
  "check_depends_add E subjectId subjectScope target =
     (let targetScope = scope_of_full_id target in
      if target = subjectId then act_fail (DependsSelf subjectId)
      else if targetScope = subjectScope
      then act_read (\<lambda>m. if non_quarantined_exists subjectScope target (mc_db m) then Inr ()
                          else Inl (DependsDangling subjectId target))
      else case map_of (we_reg E) targetScope of
             None \<Rightarrow> act_fail (DependsUnresolvable subjectId target)
           | Some dir \<Rightarrow>
               act_bind (reconcile_now E [(targetScope, dir)]) (\<lambda>res.
                 if targetScope \<in> rr_unreachable res then act_fail (DependsUnresolvable subjectId target)
                 else act_read (\<lambda>m. if non_quarantined_exists targetScope target (mc_db m) then Inr ()
                                     else Inl (DependsUnresolvable subjectId target))))"

section \<open>The verb\<close>

definition new_tag_values :: "string list \<Rightarrow> string set \<Rightarrow> string list" where
  "new_tag_values tags inUse = filter (\<lambda>tag. tag \<noteq> [] \<and> tag \<notin> inUse) tags"

definition refuse_class :: "meta_op \<Rightarrow> string \<Rightarrow> schema option \<Rightarrow> meta_key_class \<Rightarrow> write_error option" where
  "refuse_class op key schema cls =
     (if cls = MetaKeyUnknown then Some (unknown_meta_key_error key schema)
      else if cls = MetaKeyImmutable then Some (Usage (ImmutableKey key))
      else if op = MetaSet then (if cls \<noteq> MetaKeyScalar then Some (Usage (MultiValueKey key)) else None)
      else (if cls \<noteq> MetaKeyMulti then Some (Usage (ScalarKey key)) else None))"

definition meta :: "wenv \<Rightarrow> string \<Rightarrow> string \<Rightarrow> lookup \<Rightarrow> meta_op \<Rightarrow> string \<Rightarrow> string \<Rightarrow> wresult act" where
  "meta E scope dir l op inKey inValue =
     (let key = canonical_meta_key inKey in
      act_bind (act_refuse (if newline \<in> set inValue then Some (Usage ValueNewline) else None)) (\<lambda>_.
      act_bind (begin_write E scope dir) (\<lambda>s.
      act_bind (session_mid_rebase E s) (\<lambda>_.
      act_bind (act_read (\<lambda>m. classify_meta_key key (se_schema s))) (\<lambda>(cls, f).
      act_bind (act_refuse (refuse_class op key (se_schema s) cls)) (\<lambda>_.
      act_bind (act_read (\<lambda>m. resolve_write_row scope l (mc_db m))) (\<lambda>p.
      act_bind (act_read (\<lambda>m. if key = key_depends \<or> key = key_related then normalise_edge_value scope inValue
                                else Inr inValue)) (\<lambda>value.
      act_bind (if op = MetaAdd \<and> key = key_depends then check_depends_add E (tk_id p) scope value else act_return ()) (\<lambda>_.
      act_bind (act_read (\<lambda>m. Inr (scope_tag_membership scope (mc_db m)))) (\<lambda>preWriteTags.
      act_bind (act_read (read_ticket_file E (tk_path p))) (\<lambda>(fm, body).
      act_bind (act_read (\<lambda>m. apply_meta_mutation fm op key value f)) (\<lambda>fm'.
      act_bind (rewrite_ticket E scope (tk_path p) fm' body) (\<lambda>_.
      act_bind (complete_state E s (''tk: '' @ tk_id p @ '' meta '' @ meta_op_string op @ '' '' @ key) (tk_path p) [])
        (\<lambda>(disabled, needed).
          act_return (empty_result\<lparr>wr_warnings := rr_warnings (se_res s), wr_id := tk_id p, wr_sync_disabled := disabled,
            wr_sync_needed := needed,
            wr_tag_new := (if op = MetaAdd \<and> key = key_tags then new_tag_values [value] preWriteTags else []),
            wr_required_missing := missing_required (se_schema s) (Some fm'),
            wr_path := tk_path p\<rparr>)))))))))))))))"

section \<open>What a mutation changes\<close>

lemma map_of_set_first: "map_of (set_first key v fs) k = (if k = key then Some v else map_of fs k)"
  by (induction fs) auto

lemma custom_after_set: "custom_value (set_custom m key v) k = (if k = key then Some v else custom_value m k)"
  by (simp add: custom_value_def set_custom_def map_of_set_first)

lemma custom_after_remove: "custom_value (fst (remove_custom m key)) k = (if k = key then None else custom_value m k)"
proof -
  have "map_of (filter (\<lambda>f. fst f \<noteq> key) fs) k = (if k = key then None else map_of fs k)" for fs :: "(string \<times> goval) list"
    by (induction fs) auto
  moreover have "map_of fs key = None" if "\<not> (\<exists>f \<in> set fs. fst f = key)" for fs :: "(string \<times> goval) list"
    using that by (auto simp: map_of_eq_None_iff)
  ultimately show ?thesis by (auto simp: remove_custom_def custom_value_def Let_def)
qed

lemma builtin_same_set [simp]:
  "fm_id (set_custom m k v) = fm_id m" "fm_status (set_custom m k v) = fm_status m" "fm_order (set_custom m k v) = fm_order m"
  "fm_created (set_custom m k v) = fm_created m" "fm_changed (set_custom m k v) = fm_changed m"
  "fm_summary (set_custom m k v) = fm_summary m" "fm_depends (set_custom m k v) = fm_depends m"
  "fm_related (set_custom m k v) = fm_related m" "fm_tags (set_custom m k v) = fm_tags m" "fm_links (set_custom m k v) = fm_links m"
  "fm_status_conflict (set_custom m k v) = fm_status_conflict m"
  by (simp_all add: set_custom_def)

lemma builtin_same_remove [simp]:
  "fm_id (fst (remove_custom m k)) = fm_id m" "fm_status (fst (remove_custom m k)) = fm_status m"
  "fm_order (fst (remove_custom m k)) = fm_order m"
  "fm_created (fst (remove_custom m k)) = fm_created m" "fm_changed (fst (remove_custom m k)) = fm_changed m"
  "fm_summary (fst (remove_custom m k)) = fm_summary m" "fm_depends (fst (remove_custom m k)) = fm_depends m"
  "fm_related (fst (remove_custom m k)) = fm_related m" "fm_tags (fst (remove_custom m k)) = fm_tags m"
  "fm_links (fst (remove_custom m k)) = fm_links m" "fm_status_conflict (fst (remove_custom m k)) = fm_status_conflict m"
  by (simp_all add: remove_custom_def Let_def)

lemma get_other_key:
  assumes "k \<noteq> key" "\<not> is_builtin_key key"
    and "m' = set_custom m key v \<or> m' = fst (remove_custom m key)"
  shows "meta_get_value m' k cls f = meta_get_value m k cls f"
  using assms(3) by (elim disjE) (simp_all add: meta_get_value_def custom_after_set custom_after_remove assms(1))

lemma custom_key_get:
  "\<not> is_builtin_key key \<Longrightarrow> meta_get_value m key cls f =
     (case custom_value m key of
        None \<Rightarrow> Inr []
      | Some v \<Rightarrow>
          if cls = MetaKeyMulti \<or> fd_type f = field_strings
          then (case string_list v of Inl _ \<Rightarrow> Inl (CustomNotList key) | Inr xs \<Rightarrow> Inr (join_lines xs))
          else Inr (format_scalar v))"
  by (simp add: meta_get_value_def is_builtin_key_def builtin_keys_def)

lemma key_name_simps:
  "key_depends \<noteq> key_related" "key_depends \<noteq> key_tags" "key_depends \<noteq> key_links" "key_depends \<noteq> key_summary"
  "key_related \<noteq> key_tags" "key_related \<noteq> key_links" "key_related \<noteq> key_summary" "key_tags \<noteq> key_links"
  "key_tags \<noteq> key_summary" "key_links \<noteq> key_summary"
  by (simp_all add: key_names)

lemma classify_scalar:
  assumes "classify_meta_key key schema = Inr (MetaKeyScalar, f)"
  obtains (summary) "key = key_summary" "fd_type f = field_string"
  | (custom) "\<not> is_builtin_key key" "fd_type f \<in> {field_string, field_int, field_bool}"
  using assms by (auto simp: classify_meta_key_def is_builtin_key_def builtin_keys_def plain_field_def split: if_splits option.splits)

lemma classify_multi:
  assumes "classify_meta_key key schema = Inr (MetaKeyMulti, f)"
  obtains (builtin) "key \<in> {key_depends, key_related, key_tags, key_links}"
  | (custom) "\<not> is_builtin_key key" "fd_type f = field_strings"
  using assms by (auto simp: classify_meta_key_def is_builtin_key_def builtin_keys_def plain_field_def split: if_splits option.splits)

lemma refuse_class_None:
  "refuse_class op key schema cls = None \<longleftrightarrow> cls = (if op = MetaSet then MetaKeyScalar else MetaKeyMulti)"
  by (cases cls) (auto simp: refuse_class_def)

text \<open>What reading a scalar back shows: an integer in its canonical form, any other value as it was given.\<close>

definition shown_scalar :: "field_decl \<Rightarrow> string \<Rightarrow> string" where
  "shown_scalar f value =
     (if fd_type f = field_int \<and> value \<noteq> [] then (case parse_int64 value of None \<Rightarrow> value | Some n \<Rightarrow> show_int n) else value)"

lemma format_parsed:
  "parse_scalar_value f value = Inr v \<Longrightarrow> value \<noteq> [] \<Longrightarrow> format_scalar v = shown_scalar f value"
  by (auto simp: parse_scalar_value_def format_scalar_def shown_scalar_def field_types split: if_splits option.splits)

definition mutated :: "meta_op \<Rightarrow> string \<Rightarrow> string list \<Rightarrow> string list" where
  "mutated op value xs = (if op = MetaAdd then (if value \<in> set xs then xs else xs @ [value]) else remove1 value xs)"

lemma mutate_Inr: "mutate_string_list xs op value f = Inr ys \<Longrightarrow> ys = mutated op value xs"
  by (auto simp: mutate_string_list_def mutated_def split: if_splits)

lemma meta_set_get:
  assumes cl: "classify_meta_key key schema = Inr (MetaKeyScalar, f)" and run: "apply_meta_set m key value f = Inr m'"
  shows "meta_get_value m' key MetaKeyScalar f = Inr (shown_scalar f value) \<and>
     (\<forall>k cls' f'. k \<noteq> key \<longrightarrow> meta_get_value m' k cls' f' = meta_get_value m k cls' f')"
  using cl
proof (cases rule: classify_scalar)
  case summary
  then have "m' = m\<lparr>fm_summary := value\<rparr>" using run by (simp add: apply_meta_set_def)
  then show ?thesis using summary
    by (simp add: meta_get_value_def shown_scalar_def custom_value_def field_types key_names)
next
  case custom
  have ns: "key \<noteq> key_summary" "fd_type f \<noteq> field_strings" using custom by (auto simp: field_types)
  show ?thesis
  proof (cases "value = []")
    case True
    then have m': "m' = fst (remove_custom m key)" using run ns by (simp add: apply_meta_set_def)
    have "meta_get_value m' key MetaKeyScalar f = Inr (shown_scalar f value)"
      using custom True by (simp add: custom_key_get m' custom_after_remove shown_scalar_def)
    then show ?thesis using get_other_key [OF _ custom(1)] m' by blast
  next
    case False
    obtain v where v: "parse_scalar_value f value = Inr v" "m' = set_custom m key v"
      using run ns False by (auto simp: apply_meta_set_def rbind_Inr_iff)
    have "meta_get_value m' key MetaKeyScalar f = Inr (shown_scalar f value)"
      using custom ns(2) format_parsed [OF v(1) False] by (simp add: custom_key_get v(2) custom_after_set)
    then show ?thesis using get_other_key [OF _ custom(1)] v(2) by blast
  qed
qed

lemma get_list_keys:
  "meta_get_value m key_depends cls f = Inr (join_lines (fm_depends m))"
  "meta_get_value m key_related cls f = Inr (join_lines (fm_related m))"
  "meta_get_value m key_tags cls f = Inr (join_lines (fm_tags m))"
  "meta_get_value m key_links cls f = Inr (join_lines (fm_links m))"
  by (simp_all add: meta_get_value_def key_names)

lemma get_after_list:
  "k \<noteq> key_depends \<Longrightarrow> meta_get_value (m\<lparr>fm_depends := xs\<rparr>) k cls f = meta_get_value m k cls f"
  "k \<noteq> key_related \<Longrightarrow> meta_get_value (m\<lparr>fm_related := xs\<rparr>) k cls f = meta_get_value m k cls f"
  "k \<noteq> key_tags \<Longrightarrow> meta_get_value (m\<lparr>fm_tags := xs\<rparr>) k cls f = meta_get_value m k cls f"
  "k \<noteq> key_links \<Longrightarrow> meta_get_value (m\<lparr>fm_links := xs\<rparr>) k cls f = meta_get_value m k cls f"
  by (simp_all add: meta_get_value_def custom_value_def)

lemma meta_list_get:
  assumes cl: "classify_meta_key key schema = Inr (MetaKeyMulti, f)" and run: "apply_meta_list_op m op key value f = Inr m'"
  shows "(\<exists>old. meta_get_value m key MetaKeyMulti f = Inr (join_lines old) \<and>
        meta_get_value m' key MetaKeyMulti f = Inr (join_lines (mutated op value old))) \<and>
     (\<forall>k cls' f'. k \<noteq> key \<longrightarrow> meta_get_value m' k cls' f' = meta_get_value m k cls' f')"
  using cl
proof (cases rule: classify_multi)
  case builtin
  then consider "key = key_depends" | "key = key_related" | "key = key_tags" | "key = key_links" by auto
  then show ?thesis
  proof cases
    case 1
    then obtain xs where "m' = m\<lparr>fm_depends := xs\<rparr>" "xs = mutated op value (fm_depends m)"
      using run by (auto simp: apply_meta_list_op_def rbind_Inr_iff dest!: mutate_Inr)
    then show ?thesis using 1 by (auto simp: get_list_keys get_after_list)
  next
    case 2
    then obtain xs where "m' = m\<lparr>fm_related := xs\<rparr>" "xs = mutated op value (fm_related m)"
      using run key_name_simps by (auto simp: apply_meta_list_op_def rbind_Inr_iff dest!: mutate_Inr)
    then show ?thesis using 2 by (auto simp: get_list_keys get_after_list)
  next
    case 3
    then obtain xs where "m' = m\<lparr>fm_tags := xs\<rparr>" "xs = mutated op value (fm_tags m)"
      using run key_name_simps by (auto simp: apply_meta_list_op_def rbind_Inr_iff dest!: mutate_Inr)
    then show ?thesis using 3 by (auto simp: get_list_keys get_after_list)
  next
    case 4
    then obtain xs where "m' = m\<lparr>fm_links := xs\<rparr>" "xs = mutated op value (fm_links m)"
      using run key_name_simps by (auto simp: apply_meta_list_op_def rbind_Inr_iff dest!: mutate_Inr)
    then show ?thesis using 4 by (auto simp: get_list_keys get_after_list)
  qed
next
  case custom
  have nb: "key \<notin> {key_depends, key_related, key_tags, key_links}"
    using custom(1) by (auto simp: is_builtin_key_def builtin_keys_def)
  obtain old where old: "string_list (case custom_value m key of None \<Rightarrow> VNil | Some v \<Rightarrow> v) = Inr old"
    and m': "m' = (if length (mutated op value old) = 0 then fst (remove_custom m key) else set_custom m key (VStrs (mutated op value old)))"
    using run nb by (auto simp: apply_meta_list_op_def rbind_Inr_iff split: sum.splits dest!: mutate_Inr)
  have "meta_get_value m key MetaKeyMulti f = Inr (join_lines old)"
    using old custom(1) by (auto simp: custom_key_get string_list_def join_lines_def split: option.splits)
  moreover have "meta_get_value m' key MetaKeyMulti f = Inr (join_lines (mutated op value old))"
    using custom(1) by (simp add: custom_key_get m' custom_after_set custom_after_remove string_list_def join_lines_def)
  ultimately show ?thesis using get_other_key [OF _ custom(1)] m' by (metis (no_types, lifting))
qed

text \<open>\<open>tk meta\<close> changes one key and nothing else: after a set, the key reads back as the value that was given (an
  integer in canonical form); after an add it reads as the old list with the value at its end, once; after a remove, as the
  old list without its first occurrence; and every other key, built-in or custom, reads as before.\<close>

theorem meta_changes_one_key:
  assumes "classify_meta_key key schema = Inr (cls, f)" "refuse_class op key schema cls = None"
    and "apply_meta_mutation m op key value f = Inr m'"
  shows "(if op = MetaSet then meta_get_value m' key cls f = Inr (shown_scalar f value)
      else \<exists>old. meta_get_value m key cls f = Inr (join_lines old) \<and>
             meta_get_value m' key cls f = Inr (join_lines (mutated op value old))) \<and>
    (\<forall>k cls' f'. k \<noteq> key \<longrightarrow> meta_get_value m' k cls' f' = meta_get_value m k cls' f')"
proof (cases "op = MetaSet")
  case True
  then show ?thesis using assms meta_set_get [of key schema f m "value" m'] by (simp add: refuse_class_None apply_meta_mutation_def)
next
  case False
  then show ?thesis using assms meta_list_get [of key schema f m op "value" m'] by (simp add: refuse_class_None apply_meta_mutation_def)
qed

definition points_schema :: schema where
  "points_schema = plain_schema\<lparr>sc_fields := [(''points'', plain_field field_int)]\<rparr>"

theorem meta_changes_one_key_witness:
  "\<exists>m'. apply_meta_mutation (empty_model\<lparr>fm_tags := [''ui'']\<rparr>) MetaSet ''points'' ''+007'' (plain_field field_int) = Inr m' \<and>
     meta_get_value m' ''points'' MetaKeyScalar (plain_field field_int) = Inr ''7'' \<and>
     meta_get_value m' key_tags MetaKeyMulti (plain_field field_strings) = Inr (line_of ''ui'')"
proof -
  have c: "classify_meta_key ''points'' (Some points_schema) = Inr (MetaKeyScalar, plain_field field_int)"
    "refuse_class MetaSet ''points'' (Some points_schema) MetaKeyScalar = None" by code_simp+
  obtain m' where r: "apply_meta_mutation (empty_model\<lparr>fm_tags := [''ui'']\<rparr>) MetaSet ''points'' ''+007'' (plain_field field_int) = Inr m'"
    by (simp add: apply_meta_mutation_def apply_meta_set_def parse_scalar_value_def plain_field_def field_types key_names
        parse_int64_def digits_value_def is_digit_def)
  have "shown_scalar (plain_field field_int) ''+007'' = ''7''" "key_tags \<noteq> ''points''"
    "meta_get_value (empty_model\<lparr>fm_tags := [''ui'']\<rparr>) key_tags MetaKeyMulti (plain_field field_strings) = Inr (line_of ''ui'')"
    by code_simp+
  with meta_changes_one_key [OF c r] r show ?thesis by auto
qed

lemma kept_check_depends [intro]: "files_kept (check_depends_add E i s t)"
  unfolding check_depends_add_def Let_def
  by (intro kept_if kept_option kept_bind_intro kept_basic)

section \<open>The verb as a whole\<close>


definition meta_table :: "(fm_model \<times> string) list" where
  "meta_table = [(doc_ticket ''app-abcd'' ''todo'' [] ''a0'', line_of ''A''),
     ((doc_ticket ''app-abcd'' ''todo'' [] ''a0'')\<lparr>fm_tags := [''ui'']\<rparr>, line_of ''B'')]"

abbreviation meta_machine :: machine where
  "meta_machine \<equiv> machine_of [(''/s/app-abcd-x.md'', compose (line_of ''A'') ''# T'')]"

abbreviation meta_run :: "meta_op \<Rightarrow> string \<Rightarrow> string \<Rightarrow> (write_error + wresult) \<times> machine" where
  "meta_run op k v \<equiv> meta (table_env meta_table plain_schema) ''app'' ''/s'' (short_lookup ''abcd'') op k v meta_machine"

lemma meta_run_files:
  "contents (snd (meta_run MetaAdd ''tag'' ''ui'')) ''/s/app-abcd-x.md'' = Some (compose (line_of ''B'') ''# T'')"
  "case fst (meta_run MetaAdd ''tag'' ''ui'') of Inr out \<Rightarrow> wr_tag_new out = [''ui''] | Inl e \<Rightarrow> False"
  "fst (meta_run MetaAdd ''depends'' ''efgh'') = Inl (DependsDangling ''app-abcd'' ''app-efgh'')"
  by code_simp+


end
