(* ===== verification/Creates.thy ===== *)
theory Creates
  imports Outcomes
begin

text \<open>
  \<open>tk create\<close> (\<open>internal/writeengine/create.go\<close>) and the strip of a custom key (\<open>strip.go\<close>). The random
  source and the Unicode normaliser of the slug are arguments.
\<close>

section \<open>Inputs\<close>

definition normalize_create_tags :: "string list \<Rightarrow> write_error + string list" where
  "normalize_create_tags args = (if [] \<in> set args then Inl (Usage TagEmpty) else Inr (first_seen {} args))"

function mint_unused_id :: "string set \<Rightarrow> reader \<Rightarrow> write_error + string" where
  "mint_unused_id taken r =
     (case mint r of
        Inl e \<Rightarrow> Inl MintFailed
      | Inr (s, r') \<Rightarrow> if s \<notin> taken \<and> \<not> mint_blocked s then Inr s else mint_unused_id taken r')"
  by pat_completeness auto
termination
  by (relation "measure (\<lambda>(taken, r). length r)") (auto dest!: mint_Inr)

declare mint_unused_id.simps [simp del]

section \<open>The verb\<close>

definition new_model :: "string \<Rightarrow> string \<Rightarrow> string \<Rightarrow> string \<Rightarrow> string list \<Rightarrow> fm_model" where
  "new_model full newStatus stamp key tags =
     empty_model\<lparr>fm_id := full, fm_status := newStatus, fm_changed := stamp, fm_order := key, fm_tags := tags, fm_created := stamp\<rparr>"

definition create ::
    "wenv \<Rightarrow> (string \<Rightarrow> string) \<Rightarrow> string \<Rightarrow> string \<Rightarrow> string \<Rightarrow> string \<Rightarrow> string list \<Rightarrow> reader \<Rightarrow> wresult act" where
  "create E nfkc scope dir inTitle inStatus inTags src =
     (let title = trim_space inTitle;
          newStatus = (if inStatus \<noteq> [] then inStatus else st_draft) in
      act_bind (act_refuse (if title = [] then Some (Usage TitleEmpty) else None)) (\<lambda>_.
      act_bind (act_read (\<lambda>m. normalize_create_tags inTags)) (\<lambda>tags.
      act_bind (begin_status_write E scope dir) (\<lambda>s.
      act_bind (act_refuse (if \<not> is_known newStatus (custom_statuses (se_schema s)) then Some (UnknownStatus newStatus scope) else None)) (\<lambda>_.
      act_bind (act_refuse (refuse_status_hold s newStatus)) (\<lambda>_.
      act_bind (session_mid_rebase E s) (\<lambda>_.
      act_bind (act_read (\<lambda>m. Inr (scope_tickets scope (mc_db m)))) (\<lambda>rows.
      act_bind (act_read (\<lambda>m. Inr (scope_tag_membership scope (mc_db m)))) (\<lambda>preWriteTags.
      act_bind (act_read (\<lambda>m. case occupied_short_ids (re_yaml (we_rec E)) (mc_disk m) dir scope of
                                None \<Rightarrow> Inl OccupiedUnreadable | Some taken \<Rightarrow> Inr taken)) (\<lambda>taken.
      act_bind (act_read (\<lambda>m. mint_unused_id taken src)) (\<lambda>short.
      act_bind (act_read (\<lambda>m. case key_between (max_valid_order rows) [] of
                                Inl e \<Rightarrow> Inl (NoLegalOrder (full_id scope short) e) | Inr k \<Rightarrow> Inr k)) (\<lambda>orderKey.
      act_bind (act_read (\<lambda>m. case serialize (re_yaml (we_rec E)) (new_model (full_id scope short) newStatus (we_stamp E) orderKey tags) of
                                Inl e \<Rightarrow> Inl (SerializeFailed e) | Inr interior \<Rightarrow> Inr interior)) (\<lambda>interior.
      act_bind (terminal_location E dir (full_id scope short @ ''-'' @ slugify nfkc title @ ''.md'')
                 (is_terminal newStatus (custom_statuses (se_schema s)))) (\<lambda>target.
      act_bind (atomic_write E target (compose interior (''# '' @ title @ [newline]))) (\<lambda>_.
      act_bind (sync_now E scope (written_paths target [])) (\<lambda>_.
      act_bind (act_read (\<lambda>m. Inr (if se_auto s then (case se_root s of None \<Rightarrow> [] | Some root \<Rightarrow> sync_needed_reason (we_git E) dir root m)
                                    else []))) (\<lambda>needed.
        act_return (empty_result\<lparr>wr_warnings := rr_warnings (se_res s), wr_id := full_id scope short, wr_new := newStatus,
          wr_archive_note := is_terminal newStatus (custom_statuses (se_schema s)), wr_sync_needed := needed,
          wr_tag_new := filter (\<lambda>tag. tag \<noteq> [] \<and> tag \<notin> preWriteTags) tags, wr_path := target\<rparr>))))))))))))))))))"

section \<open>A custom key dropped everywhere\<close>

record parse_skip =
  ps_id :: string
  ps_msg :: string

definition skip_id :: "string \<Rightarrow> string" where
  "skip_id path = (case ticket_id_from_base (path_base path) of Some i \<Rightarrow> i | None \<Rightarrow> path_base path)"

datatype strip_outcome = Stripped | Untouched | Skipped parse_skip

definition strip_one :: "wenv \<Rightarrow> string \<Rightarrow> string \<Rightarrow> strip_outcome act" where
  "strip_one E name path m =
     (case disk_file (mc_disk m) path of
        None \<Rightarrow> (Inl (ReadFailed path), m)
      | Some f \<Rightarrow>
          if we_fault E (IoRead path) then (Inl (ReadFailed path), m)
          else (case split_fence (f_data f) of
                  (interior, body, present) \<Rightarrow>
                    if \<not> present then (Inr (Skipped \<lparr>ps_id = skip_id path, ps_msg = ''no frontmatter fence''\<rparr>), m)
                    else case parse_fm (re_yaml (we_rec E)) interior of
                           Inl e \<Rightarrow> (Inr (Skipped \<lparr>ps_id = skip_id path, ps_msg = re_msg (we_rec E) e\<rparr>), m)
                         | Inr fm \<Rightarrow>
                             (case remove_custom fm name of
                                (fm', found) \<Rightarrow>
                                  if \<not> found then (Inr Untouched, m)
                                  else act_bind (write_ticket_file E path fm' body) (\<lambda>_. act_return Stripped) m)))"

text \<open>The loop answers what it rewrote and skipped before an error too, so the machine's answer is a triple.\<close>

fun strip_each :: "wenv \<Rightarrow> string \<Rightarrow> string list \<Rightarrow> machine \<Rightarrow> (string list \<times> parse_skip list \<times> write_error option) \<times> machine" where
  "strip_each E name [] m = (([], [], None), m)"
| "strip_each E name (path # paths) m =
     (case strip_one E name path m of
        (Inl e, m') \<Rightarrow> (([], [], Some e), m')
      | (Inr out, m') \<Rightarrow>
          (case strip_each E name paths m' of
             ((changed, skips, err), m2) \<Rightarrow>
               ((case out of Stripped \<Rightarrow> path # changed | _ \<Rightarrow> changed,
                 case out of Skipped s \<Rightarrow> s # skips | _ \<Rightarrow> skips, err), m2)))"

definition strip_custom_key :: "wenv \<Rightarrow> string \<Rightarrow> string \<Rightarrow> machine \<Rightarrow> (string list \<times> parse_skip list \<times> write_error option) \<times> machine" where
  "strip_custom_key E dir name m =
     (case list_tickets (mc_disk m) dir of
        None \<Rightarrow> (([], [], Some (ReadFailed dir)), m)
      | Some paths \<Rightarrow> strip_each E name paths m)"

section \<open>Facts about the mint\<close>

lemma mint_unused_Inr: "mint_unused_id taken r = Inr s \<Longrightarrow> is_short_id s \<and> s \<notin> taken \<and> \<not> mint_blocked s"
proof (induction taken r rule: mint_unused_id.induct)
  case (1 taken r)
  obtain x r' where m: "mint r = Inr (x, r')" using 1(2) by (cases "mint r") (auto simp: mint_unused_id.simps)
  show ?case
  proof (cases "x \<notin> taken \<and> \<not> mint_blocked x")
    case True
    then show ?thesis using 1(2) m mint_Inr [OF m] by (simp add: mint_unused_id.simps)
  next
    case False
    then have "mint_unused_id taken r' = Inr s" using 1(2) mint_unused_id.simps [of taken r] m by (auto split: if_splits)
    with False show ?thesis using 1(1) [OF m refl] by simp
  qed
qed

lemma occupied_free:
  assumes "occupied_short_ids Y k dir scope = Some taken" "short \<notin> taken"
  shows "holders Y k dir scope short = {}"
proof -
  obtain out where out: "occupied_short_paths Y k dir scope = Some out" "taken = fst ` set out"
    using assms(1) by (auto simp: occupied_short_ids_def)
  then have "map_of out short = None" using assms(2) by (auto simp: map_of_eq_None_iff)
  then show ?thesis using occupied_map [OF out(1), of short] by (simp split: if_splits)
qed

text \<open>A file that bears the id in its name is one of its holders.\<close>

lemma free_name:
  assumes free: "holders Y k dir scope short = {}" and k: "disk_ok k" "archive_listed dir k" "dir \<in> set (dk_dirs k)"
    and sc: "is_scope_name scope" "is_short_id short"
    and base: "base = full_id scope short @ ''-'' @ tail @ ''.md''" "slashless base"
    and root: "root = dir \<or> root = path_join dir archive_dir"
  shows "disk_file k (path_join root base) = None"
proof (rule ccontr)
  let ?p = "path_join root base"
  assume "disk_file k ?p \<noteq> None"
  then obtain f where f: "disk_file k ?p = Some f" by auto
  have parts: "path_dir ?p = root" "path_base ?p = base" using base(2) by simp_all
  have mem: "?p \<in> fst ` set (dk_files k)" using f by (force simp: disk_file_def dest: map_of_SomeD)
  have "root \<in> set (dk_dirs k)" if "root = path_join dir archive_dir"
    using k(2) mem parts(1) that unfolding archive_listed_def by blast
  then have listed: "root \<in> set (dk_dirs k)" using root k(3) by blast
  then obtain names where names: "read_dir k root = Some names" by (simp add: read_dir_def)
  have inn: "base \<in> set names" using names listed mem parts by (force simp: read_dir_def)
  have "full_id_of_basename base scope = Some (full_id scope short)"
    unfolding full_id_of_basename_Some [OF sc(1)] using sc(2) base(1) by (auto simp: md_ext_def)
  then have short: "short_id_of_basename base scope = Some short" by (rule short_of_basename)
  have "(root, False) \<in> set (id_roots dir)" using root by (auto simp: id_roots_def)
  moreover have "occupies False scope base" "short \<in> set (file_shorts Y k scope ?p base)"
    using short by (simp_all add: occupies_def file_shorts_def)
  ultimately have "?p \<in> holders Y k dir scope short" using names inn unfolding holders_def by blast
  with free show False by simp
qed

lemma begin_status_listed:
  assumes "begin_status_write E scope dir m = (Inr s, m0)"
  shows "dir \<in> set (dk_dirs (mc_disk m))"
proof -
  obtain res m1 where rc: "reconcile_now E [(scope, dir)] m = (Inr res, m1)" "refuse_unusable res scope dir = None"
    using assms by (auto simp: begin_status_write_def act_bind_Inr act_refuse_Inr)
  obtain d where "reconcile_scope (we_rec E) scope dir (mc_clock m) (mc_disk m) (mc_disk m) (stat_of (mc_disk m))
       (prune_forgotten (registered_set E) (mc_db m)) = Inr (True, d)"
    using reconcile_one [OF rc] by blast
  then show ?thesis by (auto simp: reconcile_scope_def stat_scope_def collect_dir_def read_dir_def split: option.splits if_splits)
qed

lemma max_valid_order_max:
  "p \<in> set rows \<Longrightarrow> \<not> tk_parse_error p \<Longrightarrow> valid (tk_order_key p) \<Longrightarrow> tk_order_key p \<le> max_valid_order rows"
proof -
  let ?f = "\<lambda>p best. if tk_parse_error p \<or> \<not> valid (tk_order_key p) then best
                     else if best = [] \<or> tk_order_key p > best then tk_order_key p else best"
  have mono: "b \<le> fold ?f rows b" for rows :: "ticket list" and b
  proof (induction rows arbitrary: b)
    case (Cons q rows)
    have "b \<le> ?f q b" by (cases b) auto
    also have "\<dots> \<le> fold ?f rows (?f q b)" by (rule Cons)
    finally show ?case by simp
  qed simp
  have "tk_order_key p \<le> fold ?f rows b" if "p \<in> set rows" "\<not> tk_parse_error p" "valid (tk_order_key p)" for rows :: "ticket list" and b p
    using that(1)
  proof (induction rows arbitrary: b)
    case (Cons q rows)
    show ?case
    proof (cases "p = q")
      case True
      have "tk_order_key p \<le> ?f q b" using True that(2,3) by (auto simp: not_less)
      also have "\<dots> \<le> fold ?f rows (?f q b)" by (rule mono)
      finally show ?thesis by simp
    qed (use Cons in simp)
  qed simp
  then show "p \<in> set rows \<Longrightarrow> \<not> tk_parse_error p \<Longrightarrow> valid (tk_order_key p) \<Longrightarrow> tk_order_key p \<le> max_valid_order rows"
    by (simp add: max_valid_order_def)
qed

lemma new_name_slashless:
  assumes "is_scope_name scope" "is_short_id short"
  shows "slashless (full_id scope short @ ''-'' @ slugify nfkc t @ ''.md'')"
proof -
  have "slash \<notin> set (slugify nfkc t)"
    using slugify_slug_valid [of nfkc t] slug_state_set [of True "slugify nfkc t" False slash]
    by (auto simp: slug_valid_def slug_scan_state slash_def slug_letter_def split: if_splits)
  moreover have "\<not> is_lower_alnum slash" "slash \<notin> set short_id_alphabet" by code_simp+
  then have "slash \<notin> set scope" "slash \<notin> set short"
    using assms unfolding is_scope_name_def is_short_id_def list_all_iff is_short_id_char_iff by blast+
  ultimately show ?thesis by (simp add: slashless_def full_id_def slash_def)
qed

section \<open>The property\<close>

text \<open>C10. \<open>tk create\<close> makes one new file and never touches another: either nothing changed, or a file that was not
  there now holds the front matter of a fresh ticket and its heading, its short id is one that no file of the scope, its
  archive or its designs holds in its name or in its fence (so every id is still unique, and none is on the reject list), its
  order key is after every valid key of the scope, and it stands in the archive exactly when its status is
  terminal.\<close>

theorem create_makes_fresh_ticket:
  assumes "machine_ok E scope dir m" "is_scope_name scope" "create E nfkc scope dir inTitle inStatus inTags src m = (r, m')"
  shows "((\<exists>e. r = Inl e) \<and> contents m' = contents m) \<or>
    (\<exists>s m0 short key tags interior base target newStatus.
      begin_status_write E scope dir m = (Inr s, m0) \<and> trim_space inTitle \<noteq> [] \<and>
      newStatus = (if inStatus \<noteq> [] then inStatus else st_draft) \<and> is_known newStatus (custom_statuses (dir_schema E dir)) \<and>
      is_short_id short \<and> \<not> mint_blocked short \<and> holders (re_yaml (we_rec E)) (mc_disk m) dir scope short = {} \<and>
      valid key \<and>
      (\<forall>p \<in> set (scope_tickets scope (mc_db m0)). \<not> tk_parse_error p \<longrightarrow> valid (tk_order_key p) \<longrightarrow> tk_order_key p < key) \<and>
      distinct tags \<and> set tags = set inTags \<and>
      serialize (re_yaml (we_rec E)) (new_model (full_id scope short) newStatus (we_stamp E) key tags) = Inr interior \<and>
      base = full_id scope short @ ''-'' @ slugify nfkc (trim_space inTitle) @ ''.md'' \<and>
      target = (if is_terminal newStatus (custom_statuses (dir_schema E dir)) then path_join (path_join dir archive_dir) base
        else path_join dir base) \<and>
      contents m target = None \<and>
      contents m' = (contents m)(target \<mapsto> compose interior (''# '' @ trim_space inTitle @ [newline])))"
    (is "?kept r m' \<or> ?made m'")
proof -
  let ?P = "\<lambda>r m'. ?kept r m' \<or> ?made m'"
  let ?st = "if inStatus \<noteq> [] then inStatus else st_draft"
  let ?base = "\<lambda>short. full_id scope short @ ''-'' @ slugify nfkc (trim_space inTitle) @ ''.md''"
  have kept: "?P (Inl e) m1" if "contents m1 = contents m" for e m1 using that by simp
  have same: "contents k = contents k'" if "mc_disk k = mc_disk k'" for k k' using that by (simp add: contents_def fun_eq_iff)
  have made: "?P r' m3"
    if t: "(if trim_space inTitle = [] then Some (Usage TitleEmpty) else None) = None" "normalize_create_tags inTags = Inr tags"
      and b: "begin_status_write E scope dir m = (Inr s, m0)" "mc_disk m0 = mc_disk m" "se_schema s = dir_schema E dir"
      and st: "(if \<not> is_known ?st (custom_statuses (se_schema s)) then Some (UnknownStatus ?st scope) else None) = None"
      and rows: "Inr (scope_tickets scope (mc_db m0)) = (Inr rows :: write_error + ticket list)"
      and occ: "(case occupied_short_ids (re_yaml (we_rec E)) (mc_disk m0) dir scope of None \<Rightarrow> Inl OccupiedUnreadable | Some taken \<Rightarrow> Inr taken) = Inr taken"
      and mint: "mint_unused_id taken src = Inr short"
      and key: "(case key_between (max_valid_order rows) [] of Inl e \<Rightarrow> Inl (NoLegalOrder (full_id scope short) e) | Inr k \<Rightarrow> Inr k) = Inr key"
      and ser: "(case serialize (re_yaml (we_rec E)) (new_model (full_id scope short) ?st (we_stamp E) key tags) of
           Inl e \<Rightarrow> Inl (SerializeFailed e) | Inr interior \<Rightarrow> Inr interior) = Inr interior"
      and m1: "disk_file (mc_disk m1) = disk_file (mc_disk m0)"
      and m2: "contents m2 = (contents m1)((if is_terminal ?st (custom_statuses (se_schema s)) then path_join (path_join dir archive_dir) (?base short)
           else path_join dir (?base short)) \<mapsto> compose interior (''# '' @ trim_space inTitle @ [newline]))"
      and m3: "contents m3 = contents m2"
    for tags s m0 rows taken short key interior m1 m2 r' m3
  proof -
    have id: "is_short_id short" "short \<notin> taken" "\<not> mint_blocked short" using mint_unused_Inr [OF mint] by auto
    have free: "holders (re_yaml (we_rec E)) (mc_disk m) dir scope short = {}"
      by (rule occupied_free [OF _ id(2)]) (use occ b(2) in \<open>simp split: option.splits\<close>)
    have w: "disk_ok (mc_disk m)" "archive_listed dir (mc_disk m)" using assms(1) by (simp_all add: machine_ok_def world_ok_def quiet_def)
    have none: "contents m (path_join root (?base short)) = None" if "root = dir \<or> root = path_join dir archive_dir" for root
      using free_name [OF free w begin_status_listed [OF b(1)] assms(2) id(1) refl new_name_slashless [OF assms(2) id(1)] that]
      by (simp add: contents_def)
    have kb: "key_between (max_valid_order rows) [] = Inr key" using key by (simp add: map_error_Inr)
    have kv: "valid key" using key_between_Inr [OF kb] by blast
    have above: "\<forall>p \<in> set (scope_tickets scope (mc_db m0)). \<not> tk_parse_error p \<longrightarrow> valid (tk_order_key p) \<longrightarrow> tk_order_key p < key"
    proof (intro ballI impI)
      fix p
      assume p: "p \<in> set (scope_tickets scope (mc_db m0))" "\<not> tk_parse_error p" "valid (tk_order_key p)"
      have le: "tk_order_key p \<le> max_valid_order rows" using max_valid_order_max [OF _ p(2,3), of rows] p(1) rows by simp
      moreover have "tk_order_key p \<noteq> []" using p(3) valid_not_nil by auto
      ultimately have "max_valid_order rows \<noteq> []" by (metis leD nil_less_iff)
      with key_between_Inr [OF kb] le show "tk_order_key p < key" by (meson order_le_less_trans)
    qed
    have tags: "distinct tags" "set tags = set inTags"
      using t(2) by (auto simp: normalize_create_tags_def split: if_splits)
    have title: "trim_space inTitle \<noteq> []" using t(1) by (simp split: if_splits)
    have known: "is_known ?st (custom_statuses (dir_schema E dir))" using st b(3) by (simp split: if_splits)
    have ser': "serialize (re_yaml (we_rec E)) (new_model (full_id scope short) ?st (we_stamp E) key tags) = Inr interior"
      using ser by (simp only: map_error_Inr)
    define target where "target = (if is_terminal ?st (custom_statuses (dir_schema E dir)) then path_join (path_join dir archive_dir) (?base short)
        else path_join dir (?base short))"
    have new: "contents m target = None"
      using none [of dir] none [of "path_join dir archive_dir"] by (simp add: target_def)
    have data: "contents m3 = (contents m)(target \<mapsto> compose interior (''# '' @ trim_space inTitle @ [newline]))"
      unfolding m3 m2 contents_eq [OF m1] same [OF b(2)] b(3) target_def ..
    show ?thesis
      by (rule disjI2, rule exI [of _ s], rule exI [of _ m0], rule exI [of _ short], rule exI [of _ key], rule exI [of _ tags],
          rule exI [of _ interior], rule exI [of _ "?base short"], rule exI [of _ target], rule exI [of _ ?st], intro conjI)
        (rule b(1) title refl known id(1,3) free kv above tags ser' target_def new data)+
  qed
  have "ends (create E nfkc scope dir inTitle inStatus inTags src) m ?P"
    unfolding create_def Let_def
    by (intro ends_rules; ((rule kept, simp add: contents_def fun_eq_iff; fail) | (rule made; assumption)))
  then show ?thesis using assms(3) by (rule endsD)
qed

definition create_table :: "(fm_model \<times> string) list" where
  "create_table = [(doc_ticket ''app-efgh'' ''todo'' [] ''a0'', line_of ''A''),
     (new_model ''app-aaaa'' ''draft'' ''now'' ''a1'' [''ui''], line_of ''B'')]"

abbreviation create_machine :: machine where
  "create_machine \<equiv> machine_of [(''/s/app-efgh-x.md'', compose (line_of ''A'') ''# T'')]"

abbreviation create_run :: "(write_error + wresult) \<times> machine" where
  "create_run \<equiv> create (table_env create_table plain_schema) (\<lambda>s. s) ''app'' ''/s'' '' New one '' [] [''ui'', ''ui'']
     (replicate 9 0) create_machine"

lemma create_run_files:
  "contents (snd create_run) ''/s/app-aaaa-new-one.md'' = Some (compose (line_of ''B'') (line_of ''# New one''))"
  "case fst create_run of Inr out \<Rightarrow> wr_id out = ''app-aaaa'' \<and> wr_tag_new out = [''ui''] | Inl e \<Rightarrow> False"
  by code_simp+

theorem create_makes_fresh_ticket_witness:
  "\<exists>target data. contents create_machine target = None \<and> contents (snd create_run) = (contents create_machine)(target \<mapsto> data)"
proof -
  have ok: "machine_ok (table_env create_table plain_schema) ''app'' ''/s'' create_machine" by (rule machine_start_ok) code_simp+
  obtain r m' where run: "create_run = (Inr r, m')"
    using create_run_files(2) by (cases create_run; cases "fst create_run") simp_all
  have sc: "is_scope_name ''app''" by code_simp
  from not_refused [OF create_makes_fresh_ticket [OF ok sc run]] obtain target interior where
    "contents create_machine target = None"
    "contents m' = (contents create_machine)(target \<mapsto> compose interior (''# '' @ trim_space '' New one '' @ [newline]))"
    by (elim exE conjE)
  then show ?thesis using run by (intro exI conjI) simp_all
qed

end
