(* ===== verification/Splices.thy ===== *)
theory Splices
  imports Outcomes Numbers
begin

text \<open>
  The body editor: \<open>internal/bodyedit\<close> and \<open>Splice\<close> of \<open>internal/writeengine/splice.go\<close>. A form holds the clobber
  key of the revision it was filled from; a save with the key of an older revision is refused. The hash of the
  bytes (hexadecimal SHA-256) is an argument.
\<close>

section \<open>Body edits\<close>

definition clobber_key :: "(string \<Rightarrow> string) \<Rightarrow> int \<Rightarrow> string \<Rightarrow> string" where
  "clobber_key digest mtime data = show_int mtime @ '':'' @ digest data"

definition snapshot :: "wenv \<Rightarrow> (string \<Rightarrow> string) \<Rightarrow> string \<Rightarrow> machine \<Rightarrow> write_error + (string \<times> string)" where
  "snapshot E digest path m =
     (case disk_file (mc_disk m) path of
        None \<Rightarrow> Inl (ReadFailed path)
      | Some f \<Rightarrow>
          if we_fault E (IoRead path) then Inl (ReadFailed path)
          else Inr (f_data f, clobber_key digest (f_mtime f) (f_data f)))"

definition normalize_title :: "string \<Rightarrow> usage + string" where
  "normalize_title raw =
     (let s = trim_space raw in
      if s = [] then Inl TitleEmpty
      else if carriage \<in> set s \<or> newline \<in> set s then Inl TitleLines
      else case split_h1 s of (h, rest) \<Rightarrow> Inr (if h \<noteq> [] \<and> rest = [] then h else s))"

fun crlf_to_lf :: "string \<Rightarrow> string" where
  "crlf_to_lf (c # d # cs) =
     (if c = carriage \<and> d = newline then newline # crlf_to_lf cs else c # crlf_to_lf (d # cs))"
| "crlf_to_lf cs = cs"

definition posix_lf :: "string \<Rightarrow> string" where
  "posix_lf s = map (\<lambda>c. if c = carriage then newline else c) (crlf_to_lf s)"

text \<open>A text that does not end in a line break gets one.\<close>

definition end_line :: "string \<Rightarrow> string" where
  "end_line s = (if s \<noteq> [] \<and> \<not> suffix [newline] s then s @ [newline] else s)"

definition replace_body :: "string \<Rightarrow> string \<Rightarrow> string \<Rightarrow> string \<Rightarrow> string" where
  "replace_body fence title lead body =
     fence @ (if \<not> suffix [newline] fence then [newline] else []) @
     end_line (posix_lf lead) @ ''# '' @ title @ [newline] @ end_line (posix_lf body)"

section \<open>Splice\<close>

definition splice ::
    "wenv \<Rightarrow> (string \<Rightarrow> string) \<Rightarrow> string \<Rightarrow> string \<Rightarrow> lookup \<Rightarrow> string \<Rightarrow> string \<Rightarrow> string \<Rightarrow> string \<Rightarrow> wresult act" where
  "splice E digest scope dir l inTitle lead inBody base =
     act_bind (act_read (\<lambda>m. case normalize_title inTitle of Inl e \<Rightarrow> Inl (Usage e) | Inr t \<Rightarrow> Inr t)) (\<lambda>title.
     act_bind (act_refuse (if trim_space base = [] then Some (Usage NoClobberKey) else None)) (\<lambda>_.
     act_bind (begin_write E scope dir) (\<lambda>s.
     act_bind (session_mid_rebase E s) (\<lambda>_.
     act_bind (act_read (\<lambda>m. resolve_write_row scope l (mc_db m))) (\<lambda>p.
     act_bind (act_read (snapshot E digest (tk_path p))) (\<lambda>(data, key).
     act_bind (act_refuse (if key \<noteq> base then Some (Clobbered (tk_id p)) else None)) (\<lambda>_.
     act_bind (act_read (\<lambda>m. case split_fence data of
                               (interior, body, present) \<Rightarrow>
                                 if \<not> present then Inl (Quarantined (tk_id p) ''no frontmatter fence'') else Inr body)) (\<lambda>body.
     act_bind (atomic_write E (tk_path p)
                (replace_body (take (length data - length body) data) title lead inBody)) (\<lambda>_.
     act_bind (sync_now E scope (written_paths (tk_path p) [])) (\<lambda>_.
     act_bind (act_read (\<lambda>m. Inr (if se_auto s then (case se_root s of None \<Rightarrow> [] | Some root \<Rightarrow> sync_needed_reason (we_git E) dir root m)
                                   else []))) (\<lambda>needed.
       act_return (empty_result\<lparr>wr_warnings := rr_warnings (se_res s), wr_id := tk_id p, wr_old := tk_status p, wr_new := tk_status p,
         wr_sync_needed := needed, wr_path := tk_path p\<rparr>))))))))))))"

section \<open>A heading that is read back\<close>

lemma set_strip_any: "set (strip_any pats s) \<subseteq> set s"
  using strip_any_suffix [of pats s] by (meson set_mono_suffix)

lemma set_trim_space: "set (trim_space s) \<subseteq> set s"
  using set_strip_any [of "map rev space_runes" "rev (strip_any space_runes s)"] set_strip_any [of space_runes s]
  by (simp add: trim_space_def)

lemma strip_blank: "strip_any space_runes (CHR '' '' # t) = strip_any space_runes t"
proof -
  have "find (\<lambda>r. r \<noteq> [] \<and> prefix r (CHR '' '' # t)) space_runes = Some '' ''"
    by (simp add: space_runes_def)
  then show ?thesis by (subst strip_any.simps) simp
qed

lemma heading_of_title: "trimmed t \<Longrightarrow> heading_text (''# '' @ t) = t"
proof -
  assume "trimmed t"
  then have "trim_space t = t" by (rule trim_space_id)
  then show ?thesis by (simp add: heading_text_def trim_prefix_def trim_space_def strip_blank)
qed

definition title_ok :: "string \<Rightarrow> bool" where
  "title_ok t \<longleftrightarrow> t \<noteq> [] \<and> trimmed t \<and> newline \<notin> set t \<and> carriage \<notin> set t"

lemma normalize_title_ok: "normalize_title raw = Inr t \<Longrightarrow> title_ok t"
proof -
  assume n: "normalize_title raw = Inr t"
  let ?s = "trim_space raw"
  have s: "?s \<noteq> []" "newline \<notin> set ?s" "carriage \<notin> set ?s"
    using n by (auto simp: normalize_title_def Let_def split: if_splits)
  have ts: "trimmed ?s" by (rule trimmed_trim_space)
  obtain h rest where h: "split_h1 ?s = (h, rest)" by (cases "split_h1 ?s")
  have "t = (if h \<noteq> [] \<and> rest = [] then h else ?s)" using n s h by (simp add: normalize_title_def Let_def)
  moreover have "trimmed h \<and> set h \<subseteq> set ?s" if "h \<noteq> []"
  proof -
    have ch: "line_chunks ?s = [?s]" using s by (cases "?s" rule: line_chunks_cases) auto
    have cl: "chunk_line ?s = ?s" using s chunk_line_last [OF s(2)] by (auto simp: trim_suffix_def suffix_def)
    have "split_h1_parts ?s = h1_of_chunks ?s [] [?s]"
      using split_h1_from_chunks [of ?s "[]" ?s 0] ch by (simp add: split_h1_parts_def)
    then have "h = heading_text ?s" using that h cl
      by (auto simp: split_h1_def h1_of_chunks_def split: if_splits)
    then show ?thesis using trimmed_trim_space set_trim_space [of "trim_prefix ''#'' ?s"]
      by (auto simp: heading_text_def trim_prefix_def dest: in_set_dropD split: if_splits)
  qed
  ultimately show ?thesis using s ts by (auto simp: title_ok_def)
qed

lemma heading_chunk_title: "title_ok t \<Longrightarrow> heading_chunk ((''# '' @ t) @ [newline]) \<and> heading_text (chunk_line ((''# '' @ t) @ [newline])) = t"
proof -
  assume t: "title_ok t"
  then have nl: "newline \<notin> set (''# '' @ t)" by (simp add: title_ok_def)
  have cr: "trim_suffix [carriage] (''# '' @ t) = ''# '' @ t"
    using t by (auto simp: title_ok_def trim_suffix_def suffix_def append_eq_append_conv2 append_eq_Cons_conv Cons_eq_append_conv)
  have "atx_h1 (''# '' @ t)" using t by (cases t) (auto simp: title_ok_def atx_h1_def)
  then show ?thesis using t heading_of_title [of t] chunk_line_break [OF nl] cr by (simp add: heading_chunk_def title_ok_def)
qed

text \<open>Text above the heading that holds no heading itself.\<close>

definition no_heading :: "string \<Rightarrow> bool" where
  "no_heading s \<longleftrightarrow> list_all (\<lambda>c. \<not> heading_chunk c) (line_chunks s)"

definition whole_lines :: "string \<Rightarrow> bool" where
  "whole_lines s \<longleftrightarrow> s = [] \<or> suffix [newline] s"

lemma whole_lines_chunks: "whole_lines s \<Longrightarrow> list_all complete_line (line_chunks s)"
proof (induction "length s" arbitrary: s rule: less_induct)
  case less
  show ?case
  proof (cases s rule: line_chunks_cases)
    case (line l rest)
    have "whole_lines rest" using less(2) line(1) by (cases rest rule: rev_cases) (auto simp: whole_lines_def suffix_def)
    moreover have "length rest < length s" by (simp add: line(1))
    ultimately show ?thesis using less(1) line complete_lineI [OF line(2)] by simp
  next
    case last
    then show ?thesis using less(2) by (auto simp: whole_lines_def suffix_def)
  qed simp
qed

lemma split_written_heading:
  assumes "whole_lines lead" "no_heading lead" "title_ok t"
  shows "split_h1_parts (lead @ ''# '' @ t @ [newline] @ body) = (lead, t, body)"
proof -
  let ?h = "(''# '' @ t) @ [newline]"
  have nl: "newline \<notin> set (''# '' @ t)" using assms(3) by (simp add: title_ok_def)
  have "line_chunks (concat (line_chunks lead) @ ?h @ body) = line_chunks lead @ ?h # line_chunks body"
    by (simp only: line_chunks_append [OF whole_lines_chunks [OF assms(1)]] line_chunks_Cons [OF complete_lineI [OF nl]])
  then have ch: "line_chunks (lead @ ''# '' @ t @ [newline] @ body) = line_chunks lead @ ?h # line_chunks body" by simp
  have free: "\<forall>c \<in> set (line_chunks lead). \<not> heading_chunk c" using assms(2) by (simp add: no_heading_def list_all_iff)
  have "split_h1_parts (lead @ ''# '' @ t @ [newline] @ body) =
      h1_of_chunks (lead @ ''# '' @ t @ [newline] @ body) [] (line_chunks lead @ ?h # line_chunks body)"
    unfolding split_h1_parts_def ch [symmetric] by (rule split_h1_from_chunks) simp_all
  also have "\<dots> = (lead, t, body)"
    unfolding h1_of_chunks_def using heading_chunk_title [OF assms(3)] free
    by (simp add: dropWhile_append2 takeWhile_append2 del: append.simps append_assoc)
  finally show ?thesis .
qed

section \<open>The fence stays\<close>

lemma trim_suffix_eq: "trim_suffix p s = t \<Longrightarrow> s = t \<or> s = t @ p"
  by (auto simp: trim_suffix_def suffix_def split: if_splits)

lemma fence_chunk_forms:
  "fence_chunk c \<Longrightarrow> c \<in> {''---'', ''---'' @ [newline], ''---'' @ [carriage], ''---'' @ [carriage, newline]}"
  unfolding fence_chunk_def chunk_line_def by (auto dest!: trim_suffix_eq)

lemma fence_forms:
  "complete_line (''---'' @ [newline])" "complete_line (''---'' @ [carriage, newline])"
  "fence_chunk (''---'' @ [newline])" "fence_chunk (''---'' @ [carriage, newline])"
  by code_simp+

lemma split_fence_parts:
  assumes "complete_line op" "fence_chunk op" "fence_free i" "complete_line cl" "fence_chunk cl"
  shows "split_fence (op @ i @ cl @ x) = (i, x, True)"
proof -
  have ch: "line_chunks (op @ i @ cl @ x) = op # line_chunks i @ cl # line_chunks x"
    by (simp only: line_chunks_Cons [OF assms(1)] fence_free_append [OF assms(3)] line_chunks_Cons [OF assms(4)])
  have free: "\<forall>c \<in> set (line_chunks i). \<not> fence_chunk c" using assms(3) by (simp add: fence_free_def list_all_iff)
  have "scan_of_chunks [] (line_chunks i @ cl # line_chunks x) = Some (i, x)"
    unfolding scan_of_chunks_def using free assms(5) by (simp add: dropWhile_append2 takeWhile_append2)
  then show ?thesis unfolding split_fence_chunks ch using assms(1,2) by simp
qed

lemma replace_splits:
  assumes "split_fence data = (i, body, True)"
  shows "split_fence (replace_body (take (length data - length body) data) title lead b) =
     (i, end_line (posix_lf lead) @ ''# '' @ title @ [newline] @ end_line (posix_lf b), True)"
proof -
  obtain op cl where d: "fence_free i" "data = op @ i @ cl @ body" "complete_line op" "fence_chunk op" "fence_chunk cl"
    using split_fence_bytes [of data] assms by auto
  let ?x = "end_line (posix_lf lead) @ ''# '' @ title @ [newline] @ end_line (posix_lf b)"
  have fence: "take (length data - length body) data = op @ i @ cl" by (simp add: d(2))
  have form: "cl \<in> {''---'', ''---'' @ [newline], ''---'' @ [carriage], ''---'' @ [carriage, newline]}"
    by (rule fence_chunk_forms [OF d(5)])
  then obtain cl' where cl': "cl' = (if suffix [newline] cl then cl else cl @ [newline])"
    "cl' \<in> {''---'' @ [newline], ''---'' @ [carriage, newline]}" by (auto simp: suffix_def)
  have "cl \<noteq> []" using form by auto
  then have "suffix [newline] (op @ i @ cl) \<longleftrightarrow> suffix [newline] cl" by (auto simp: suffix_def append_eq_append_conv2 append_eq_Cons_conv)
  then have "replace_body (op @ i @ cl) title lead b = op @ i @ cl' @ ?x" by (simp add: replace_body_def cl'(1))
  moreover have "complete_line cl'" "fence_chunk cl'" using cl'(2) fence_forms by auto
  ultimately show ?thesis unfolding fence using split_fence_parts [OF d(3,4,1)] by metis
qed

lemma end_line_whole: "whole_lines (end_line s)"
  by (auto simp: end_line_def whole_lines_def)

lemma clobber_key_inject: "clobber_key g a x = clobber_key g b y \<Longrightarrow> a = b \<and> g x = g y"
proof -
  assume eq: "clobber_key g a x = clobber_key g b y"
  have "CHR '':'' \<notin> set (show_int c)" for c using show_int_chars [of "CHR '':''" c] by (auto simp: is_digit_def)
  from split_at_sep [of "CHR '':''" "show_int a" "show_int b" "g x" "g y"] this eq have "show_int a = show_int b \<and> g x = g y"
    by (simp add: clobber_key_def)
  then show ?thesis using show_int_inject by blast
qed

text \<open>C15. A save of the body form is guarded and keeps the front matter: either no file changed, or the file of the
  resolved ticket was exactly the revision (modification time and bytes) whose key the form held, its front matter
  splits off as before, byte for byte, its body is the text above the heading, the heading with the normalised title, and the
  new text, in LF lines, and reading the heading back gives that title; no other file changes.\<close>

theorem splice_keeps_front_matter:
  assumes "splice E digest scope dir l inTitle lead inBody base m = (r, m')"
  shows "((\<exists>e. r = Inl e) \<and> contents m' = contents m) \<or>
    (\<exists>s m0 p f interior body title data new.
      begin_write E scope dir m = (Inr s, m0) \<and> resolve_write_row scope l (mc_db m0) = Inr p \<and>
      disk_file (mc_disk m) (tk_path p) = Some f \<and> base = clobber_key digest (f_mtime f) (f_data f) \<and>
      (\<forall>t0 d0. base = clobber_key digest t0 d0 \<longrightarrow> t0 = f_mtime f \<and> digest d0 = digest (f_data f)) \<and>
      normalize_title inTitle = Inr title \<and> split_fence (f_data f) = (interior, body, True) \<and>
      new = end_line (posix_lf lead) @ ''# '' @ title @ [newline] @ end_line (posix_lf inBody) \<and>
      split_fence data = (interior, new, True) \<and>
      (no_heading (end_line (posix_lf lead)) \<longrightarrow>
         split_h1_parts new = (end_line (posix_lf lead), title, end_line (posix_lf inBody))) \<and>
      contents m' = (contents m)(tk_path p \<mapsto> data))"
    (is "?kept r m' \<or> ?saved m'")
proof -
  let ?P = "\<lambda>r m'. ?kept r m' \<or> ?saved m'"
  have kept: "?P (Inl e) m1" if "contents m1 = contents m" for e m1 using that by simp
  have saved: "?P r' m3"
    if t: "(case normalize_title inTitle of Inl e \<Rightarrow> Inl (Usage e) | Inr t \<Rightarrow> Inr t) = Inr title"
      and b: "begin_write E scope dir m = (Inr s, m0)"
      and p: "resolve_write_row scope l (mc_db m0) = Inr p" and sn: "snapshot E digest (tk_path p) m0 = Inr y" "y = (data, key)"
      and k: "(if key \<noteq> base then Some (Clobbered (tk_id p)) else None) = None"
      and sp: "(case split_fence data of (interior, body, present) \<Rightarrow>
            if \<not> present then Inl (Quarantined (tk_id p) ''no frontmatter fence'') else Inr body) = Inr body"
      and w: "contents m1 = (contents m0)(tk_path p \<mapsto> replace_body (take (length data - length body) data) title lead inBody)"
      and e: "contents m3 = contents m1"
    for title s m0 p y data key body m1 r' m3
  proof -
    have same: "mc_disk m0 = mc_disk m" using begin_write_run [OF b] by simp
    obtain f where f: "disk_file (mc_disk m) (tk_path p) = Some f" "data = f_data f" "base = clobber_key digest (f_mtime f) (f_data f)"
      using sn k same by (auto simp: snapshot_def split: option.splits if_splits)
    obtain interior where i: "split_fence (f_data f) = (interior, body, True)"
      using sp f(2) by (cases "split_fence data") (auto split: if_splits)
    have only: "\<forall>t0 d0. base = clobber_key digest t0 d0 \<longrightarrow> t0 = f_mtime f \<and> digest d0 = digest (f_data f)"
      unfolding f(3) using clobber_key_inject by (metis (no_types, lifting))
    have title: "normalize_title inTitle = Inr title" using t by (cases "normalize_title inTitle") auto
    let ?new = "end_line (posix_lf lead) @ ''# '' @ title @ [newline] @ end_line (posix_lf inBody)"
    let ?data = "replace_body (take (length data - length body) data) title lead inBody"
    have heading: "no_heading (end_line (posix_lf lead)) \<longrightarrow>
         split_h1_parts ?new = (end_line (posix_lf lead), title, end_line (posix_lf inBody))"
      using split_written_heading [OF end_line_whole] normalize_title_ok [OF title] by blast
    have c: "contents m3 = (contents m)(tk_path p \<mapsto> ?data)" using e w same by (simp add: contents_def fun_eq_iff)
    have fence: "split_fence ?data = (interior, ?new, True)" using replace_splits [OF i] f(2) by simp
    show ?thesis
      by (rule disjI2, rule exI [of _ s], rule exI [of _ m0], rule exI [of _ p], rule exI [of _ f], rule exI [of _ interior],
          rule exI [of _ body], rule exI [of _ title], rule exI [of _ ?data], rule exI [of _ ?new], intro conjI)
        (rule b p f(1,3) only title i refl fence heading c)+
  qed
  have "ends (splice E digest scope dir l inTitle lead inBody base) m ?P"
    unfolding splice_def
    by (intro ends_rules; ((rule kept, simp; fail) | (rule saved; assumption)))
  then show ?thesis using assms by (rule endsD)
qed

definition splice_table :: "(fm_model \<times> string) list" where
  "splice_table = [(doc_ticket ''app-abcd'' ''todo'' [] ''a0'', line_of ''A'')]"

abbreviation splice_run :: "string \<Rightarrow> (write_error + wresult) \<times> machine" where
  "splice_run base \<equiv> splice (table_env splice_table plain_schema) (\<lambda>s. s) ''app'' ''/s'' (short_lookup ''abcd'') '' # New '' [] ''text'' base
     (machine_of [(''/s/app-abcd-x.md'', compose (line_of ''A'') ''# T'')])"

abbreviation splice_base :: string where
  "splice_base \<equiv> clobber_key (\<lambda>s. s) 5 (compose (line_of ''A'') ''# T'')"

lemma splice_run_files:
  "contents (snd (splice_run splice_base)) ''/s/app-abcd-x.md'' = Some (compose (line_of ''A'') (line_of ''# New'' @ line_of ''text''))"
  "case fst (splice_run splice_base) of Inr out \<Rightarrow> wr_id out = ''app-abcd'' | Inl e \<Rightarrow> False"
  "fst (splice_run ''5:older'') = Inl (Clobbered ''app-abcd'')"
  by code_simp+

theorem splice_keeps_front_matter_witness:
  "\<exists>f data p. disk_file (mc_disk (machine_of [(''/s/app-abcd-x.md'', compose (line_of ''A'') ''# T'')])) p = Some f \<and>
     contents (snd (splice_run splice_base)) p = Some data \<and> fst (split_fence data) = fst (split_fence (f_data f)) \<and>
     splice_base = clobber_key (\<lambda>s. s) (f_mtime f) (f_data f)"
proof -
  obtain r m' where run: "splice_run splice_base = (Inr r, m')"
    using splice_run_files(2) by (cases "splice_run splice_base"; cases "fst (splice_run splice_base)") simp_all
  from not_refused [OF splice_keeps_front_matter [OF run]] obtain p :: ticket and f interior body data new where
    "disk_file (mc_disk (machine_of [(''/s/app-abcd-x.md'', compose (line_of ''A'') ''# T'')])) (tk_path p) = Some f"
    "splice_base = clobber_key (\<lambda>s. s) (f_mtime f) (f_data f)" "split_fence (f_data f) = (interior, body, True)"
    "split_fence data = (interior, new, True)"
    "contents m' = (contents (machine_of [(''/s/app-abcd-x.md'', compose (line_of ''A'') ''# T'')]))(tk_path p \<mapsto> data)"
    by (elim exE conjE)
  then show ?thesis using run by (intro exI [of _ f] exI [of _ data] exI [of _ "tk_path p"]) simp
qed

end
