(* ===== verification/Engine.thy ===== *)
theory Engine
  imports Metas Creates Splices
begin

text \<open>
  The write engine as a state machine: the verbs of \<open>internal/writeengine\<close> that change one scope, in any order and
  with any outcome, between edits of the directory by anybody. The invariant is that of theory \<open>Reconciles\<close>: what
  the racy-index rule relies on. So the session that begins next shows the files as they are.
\<close>

section \<open>Steps that keep the invariant\<close>

definition steady :: "wenv \<Rightarrow> string \<Rightarrow> string \<Rightarrow> ('e, 'a) run \<Rightarrow> machine \<Rightarrow> bool" where
  "steady E scope dir f m \<longleftrightarrow> (machine_ok E scope dir m \<longrightarrow> machine_ok E scope dir (snd (f m)))"

abbreviation the_world :: "machine \<Rightarrow> world" where
  "the_world m \<equiv> \<lparr>w_disk = mc_disk m, w_clock = mc_clock m, w_db = mc_db m\<rparr>"

lemma steadyD: "steady E scope dir f m \<Longrightarrow> machine_ok E scope dir m \<Longrightarrow> f m = (r, m') \<Longrightarrow> machine_ok E scope dir m'"
  by (simp add: steady_def)

lemma steady_bind:
  assumes "steady E scope dir f m"
    and "\<And>x m1. f m = (Inr x, m1) \<Longrightarrow> machine_ok E scope dir m1 \<Longrightarrow> steady E scope dir (g x) m1"
  shows "steady E scope dir (act_bind f g) m"
proof -
  obtain r1 m1 where f: "f m = (r1, m1)" by (cases "f m")
  then show ?thesis using assms by (cases r1) (auto simp: steady_def act_bind_def)
qed

lemma steady_read:
  "(\<And>x. machine_ok E scope dir m \<Longrightarrow> h m = Inr x \<Longrightarrow> steady E scope dir (g x) m) \<Longrightarrow> steady E scope dir (act_bind (act_read h) g) m"
  by (cases "h m") (auto simp: steady_def act_bind_def act_read_def)

lemma steady_refuse:
  "steady E scope dir (g ()) m \<Longrightarrow> steady E scope dir (act_bind (act_refuse c) g) m"
  by (cases c) (auto simp: steady_def act_bind_def act_refuse_def)

lemma steady_pair: "(\<And>a b. x = (a, b) \<Longrightarrow> steady E scope dir (f a b) m) \<Longrightarrow> steady E scope dir (case x of (a, b) \<Rightarrow> f a b) m"
  by (cases x) simp

lemma steady_return [simp]: "steady E scope dir (act_return x) m" "steady E scope dir (act_fail e) m"
  by (simp_all add: steady_def act_return_def act_fail_def)

lemma steady_same:
  assumes "\<And>r m'. f m = (r, m') \<Longrightarrow> mc_disk m' = mc_disk m \<and> mc_db m' = mc_db m \<and> mc_clock m' = mc_clock m"
  shows "steady E scope dir f m"
  using assms by (cases "f m") (simp add: steady_def machine_ok_def)

lemma steady_complete: "steady E scope dir (complete_state E s msg new old) m" "steady E scope dir (complete_paths E sc d auto msg ps root) m"
  by (rule steady_same, erule complete_state_files) (rule steady_same, erule complete_paths_files)

lemma steady_mid_rebase: "steady E scope dir (session_mid_rebase E s) m"
  by (rule steady_same) (auto simp: session_mid_rebase_def act_refuse_def)

lemma steady_step:
  assumes "\<And>r m'. f m = (r, m') \<Longrightarrow> machine_ok E scope dir m \<Longrightarrow> (world_step (we_rec E) scope dir)\<^sup>*\<^sup>* (the_world m) (the_world m')"
  shows "steady E scope dir f m"
  unfolding steady_def
proof
  assume ok: "machine_ok E scope dir m"
  obtain r m' where f: "f m = (r, m')" by (cases "f m")
  from reachable_ok [OF _ assms [OF f ok]] ok show "machine_ok E scope dir (snd (f m))" by (simp add: machine_ok_def f)
qed

section \<open>Files and the index\<close>

lemma edit_step:
  "edit dir (mc_disk m, mc_clock m) (k, mc_clock m) \<Longrightarrow> world_step E scope dir (the_world m) (the_world (m\<lparr>mc_disk := k\<rparr>))"
  using step_edit [of dir "the_world m" k "mc_clock m" E scope] by simp

lemma edit_make_dir:
  assumes "archive_listed dir (mc_disk m)"
  shows "edit dir (mc_disk m, mc_clock m) (mc_disk (make_dir d m), mc_clock m)"
  by (rule edit_dirs) (use assms in \<open>auto simp: make_dir_def archive_listed_def\<close>)

lemma make_dir_listed: "archive_listed dir (mc_disk m) \<Longrightarrow> archive_listed dir (mc_disk (make_dir d m))"
  by (auto simp: make_dir_def archive_listed_def)

lemma listed_mono:
  assumes "archive_listed dir k" "set (dk_dirs k) \<subseteq> set (dk_dirs k')"
    and "fst ` set (dk_files k') \<subseteq> fst ` set (dk_files k) \<union> {p. path_dir p \<in> set (dk_dirs k')}"
  shows "archive_listed dir k'"
  unfolding archive_listed_def
proof (intro ballI impI)
  fix p
  assume p: "p \<in> fst ` set (dk_files k')" "path_dir p = path_join dir archive_dir"
  with assms(3) consider "p \<in> fst ` set (dk_files k)" | "path_dir p \<in> set (dk_dirs k')" by blast
  then show "path_join dir archive_dir \<in> set (dk_dirs k')"
  proof cases
    case 1
    with assms(1) p(2) have "path_join dir archive_dir \<in> set (dk_dirs k)" unfolding archive_listed_def by blast
    with assms(2) show ?thesis by blast
  qed (use p(2) in simp)
qed

lemma world_listed: "machine_ok E scope dir m \<Longrightarrow> archive_listed dir (mc_disk m) \<and> disk_ok (mc_disk m)"
  by (simp add: machine_ok_def world_ok_def quiet_def)

lemma steady_put:
  assumes "prefix [slash] path"
  shows "steady E scope dir (atomic_write E path data) m"
proof (rule steady_step)
  fix r m'
  assume run: "atomic_write E path data m = (r, m')" and ok: "machine_ok E scope dir m"
  show "(world_step (we_rec E) scope dir)\<^sup>*\<^sup>* (the_world m) (the_world m')"
  proof (cases "we_fault E (IoWrite path) \<or> path_dir path \<in> set (dk_locked (mc_disk m))")
    case True
    then show ?thesis using run by (simp add: atomic_write_def)
  next
    case False
    let ?m1 = "make_dir (path_dir path) m"
    have m': "m' = put_file path \<lparr>f_data = data, f_mtime = mc_clock m\<rparr> ?m1" using run False by (simp add: atomic_write_def)
    have l1: "archive_listed dir (mc_disk ?m1)" using make_dir_listed world_listed [OF ok] by blast
    have dirs: "path_dir path \<in> set (dk_dirs (mc_disk ?m1))" by (simp add: make_dir_def)
    have e1: "world_step (we_rec E) scope dir (the_world m) (the_world ?m1)"
      using edit_step [OF edit_make_dir [where d = "path_dir path" and m = m and dir = dir], of "we_rec E" scope] world_listed [OF ok] by simp
    have "archive_listed dir (mc_disk m')"
      by (rule listed_mono [OF l1]) (use dirs in \<open>simp_all add: m' put_file_def dom_update\<close>)
    then have "edit dir (mc_disk ?m1, mc_clock ?m1) (mc_disk m', mc_clock ?m1)"
      by (intro edit_write [OF assms]) (simp_all add: m' put_file_def)
    from edit_step [OF this, of "we_rec E" scope] have "world_step (we_rec E) scope dir (the_world ?m1) (the_world m')"
      by (simp add: m' put_file_def)
    with e1 show ?thesis by auto
  qed
qed

lemma steady_mkdir: "steady E scope dir (mkdir_all E d) m"
proof (rule steady_step)
  fix r m'
  assume run: "mkdir_all E d m = (r, m')" and ok: "machine_ok E scope dir m"
  have "m' = m \<or> m' = make_dir d m" using run by (auto simp: mkdir_all_def split: if_splits)
  then show "(world_step (we_rec E) scope dir)\<^sup>*\<^sup>* (the_world m) (the_world m')"
  proof
    assume m': "m' = make_dir d m"
    have "world_step (we_rec E) scope dir (the_world m) (the_world m')"
      using edit_step [OF edit_make_dir [where d = d and m = m and dir = dir], of "we_rec E" scope] world_listed [OF ok] by (simp add: m')
    then show ?thesis by blast
  qed simp
qed

lemma steady_location: "steady E scope dir (terminal_location E d base terminal) m"
  unfolding terminal_location_def by (auto intro: steady_bind steady_mkdir)

text \<open>A file moved in the clock tick of its last write is a new file at the new path.\<close>

lemma steady_rename:
  assumes fresh: "\<And>f. disk_file (mc_disk m) old = Some f \<Longrightarrow> f_mtime f = mc_clock m" and new: "prefix [slash] new"
  shows "steady E scope dir (rename_file E old new) m"
proof (rule steady_step)
  fix r m'
  assume run: "rename_file E old new m = (r, m')" and ok: "machine_ok E scope dir m"
  show "(world_step (we_rec E) scope dir)\<^sup>*\<^sup>* (the_world m) (the_world m')"
  proof (cases "m' = m")
    case False
    then obtain f where f: "disk_file (mc_disk m) old = Some f" "path_dir new \<in> set (dk_dirs (mc_disk m))"
      "m' = put_file new f (drop_file old m)"
      using run by (auto simp: rename_file_def split: option.splits if_splits)
    have "edit dir (mc_disk m, mc_clock m) (mc_disk (drop_file old m), mc_clock m)"
      by (rule edit_remove) (simp add: drop_file_def)
    then have e1: "world_step (we_rec E) scope dir (the_world m) (the_world (drop_file old m))"
      using edit_step [of dir m "mc_disk (drop_file old m)"] by simp
    have l1: "archive_listed dir (mc_disk (drop_file old m))"
      by (rule listed_mono [OF world_listed [OF ok, THEN conjunct1]]) (use dom_delete_subset [of old "dk_files (mc_disk m)"] in \<open>simp_all add: drop_file_def le_supI1\<close>)
    have "f = \<lparr>f_data = f_data f, f_mtime = mc_clock m\<rparr>" using fresh [OF f(1)] by (cases f) simp
    then have files: "mc_disk m' = (mc_disk (drop_file old m))\<lparr>dk_files :=
        AList.update new \<lparr>f_data = f_data f, f_mtime = mc_clock m\<rparr> (dk_files (mc_disk (drop_file old m)))\<rparr>"
      by (simp add: f(3) put_file_def)
    have "archive_listed dir (mc_disk m')"
      by (rule listed_mono [OF l1]) (use f(2) in \<open>simp_all add: files dom_update drop_file_def\<close>)
    then have "edit dir (mc_disk (drop_file old m), mc_clock m) (mc_disk m', mc_clock m)"
      by (intro edit_write [OF new files])
    then have "world_step (we_rec E) scope dir (the_world (drop_file old m)) (the_world m')"
      using edit_step [of dir "drop_file old m" "mc_disk m'" "we_rec E" scope] by (simp add: f(3) put_file_def drop_file_def)
    with e1 show ?thesis by auto
  qed simp
qed

lemma steady_sync: "steady E scope dir (sync_now E scope paths) m"
proof (rule steady_step)
  fix r m'
  assume run: "sync_now E scope paths m = (r, m')" and ok: "machine_ok E scope dir m"
  have steps: "(world_step (we_rec E) scope dir)\<^sup>*\<^sup>* (the_world k) (the_world (k\<lparr>mc_db := d\<rparr>))"
    if "sync_paths (we_rec E) scope (info_of (mc_disk k)) (mc_disk k) ps (mc_db k) = (err, d)" for ps k err d
    using that
  proof (induction ps arbitrary: k)
    case (Cons p ps)
    obtain e1 d1 where p: "sync_path (we_rec E) scope (info_of (mc_disk k)) (mc_disk k) p (mc_db k) = (e1, d1)"
      by (cases "sync_path (we_rec E) scope (info_of (mc_disk k)) (mc_disk k) p (mc_db k)")
    have one: "world_step (we_rec E) scope dir (the_world k) (the_world (k\<lparr>mc_db := d1\<rparr>))"
      using step_sync [of dir "the_world k" "mc_disk k" "mc_clock k" "we_rec E" scope p e1 d1] p by simp
    show ?case
    proof (cases e1)
      case None
      then have "sync_paths (we_rec E) scope (info_of (mc_disk (k\<lparr>mc_db := d1\<rparr>))) (mc_disk (k\<lparr>mc_db := d1\<rparr>)) ps (mc_db (k\<lparr>mc_db := d1\<rparr>)) = (err, d)"
        using Cons.prems p by simp
      from Cons.IH [OF this] one show ?thesis by (simp add: converse_rtranclp_into_rtranclp)
    next
      case (Some e)
      then show ?thesis using Cons.prems p one by auto
    qed
  qed simp
  obtain err d where "sync_paths (we_rec E) scope (info_of (mc_disk m)) (mc_disk m) paths (mc_db m) = (err, d)" "m' = m\<lparr>mc_db := d\<rparr>"
    using run by (auto simp: sync_now_def split: prod.splits)
  with steps show "(world_step (we_rec E) scope dir)\<^sup>*\<^sup>* (the_world m) (the_world m')" by blast
qed

section \<open>Passes\<close>

text \<open>A pass over another scope touches neither the rows nor the watermark of this one.\<close>

lemma ticket_id_scope_unique:
  assumes "ticket_id a base = Some x" "ticket_id b base = Some y" "is_scope_name a" "is_scope_name b"
  shows "a = b"
proof -
  have pre: "\<exists>u. cut_suffix md_ext base = Some (s @ ''-'' @ u)" if "ticket_id s base = Some z" for s z
    using that by (auto simp: ticket_id_def Let_def prefix_def split: option.splits if_splits)
  obtain u v where "cut_suffix md_ext base = Some (a @ ''-'' @ u)" "cut_suffix md_ext base = Some (b @ ''-'' @ v)"
    using pre [OF assms(1)] pre [OF assms(2)] by blast
  then have "a @ CHR ''-'' # u = b @ CHR ''-'' # v" by simp
  with split_at_sep [OF scope_name_no_hyphen [OF assms(3)] scope_name_no_hyphen [OF assms(4)]] show ?thesis by blast
qed

lemma listed_ids:
  assumes "stat_scope k name dir = Some files" "(p, st) \<in> set files"
  shows "ticket_id name (path_base p) \<noteq> None"
proof -
  have one: "ticket_id name (path_base q) \<noteq> None"
    if c: "collect_dir k name root archived = Some fs" and q: "(q, st) \<in> set fs" for root archived fs q st
  proof -
    obtain names where n: "read_dir k root = Some names" "fs = List.map_filter (stat_name k name root archived) names"
      using c by (auto simp: collect_dir_def)
    obtain nm where nm: "nm \<in> set names" "stat_name k name root archived nm = Some (q, st)"
      using q unfolding n(2) mem_map_filter by blast
    have "slashless nm" using nm(1) n(1) by (auto simp: read_dir_def split: if_splits)
    then have "path_base q = nm" "ticket_id name nm \<noteq> None"
      using nm(2) by (auto simp: stat_name_def split: option.splits)
    then show ?thesis by simp
  qed
  show ?thesis using assms one by (auto simp: stat_scope_def split: option.splits)
qed

lemma last_index_other: "s \<noteq> scope \<Longrightarrow> last_index scope (set_last_index s ns d) = last_index scope d"
proof -
  assume ne: "s \<noteq> scope"
  have "map_of (map (\<lambda>(a, n). if a = s then (a, ns) else (a, n)) xs) scope = map_of xs scope" for xs :: "(string \<times> int) list"
    using ne by (induction xs) auto
  moreover have "map_of (xs @ [(s, ns)]) scope = map_of xs scope" for xs :: "(string \<times> int) list"
    using ne by (simp add: map_add_def split: option.split)
  ultimately show ?thesis by (simp add: last_index_def set_last_index_def)
qed

lemma run_ops_last_index:
  "run_ops ws d = Inr d' \<Longrightarrow> \<forall>s ns. WSetLastIndex s ns \<in> set ws \<longrightarrow> s \<noteq> scope \<Longrightarrow> last_index scope d' = last_index scope d"
proof (induction ws arbitrary: d)
  case (Cons w ws)
  obtain d1 where d1: "run_op w d = Inr d1" "run_ops ws d1 = Inr d'" using Cons.prems(1) by (auto simp: rbind_Inr_iff)
  have "last_index scope d1 = last_index scope d"
  proof (cases w)
    case (WSetLastIndex s ns)
    then show ?thesis using d1(1) Cons.prems(2) last_index_other [of s scope] by auto
  qed (use d1(1) meta_upsert meta_delete in \<open>auto simp: last_index_def\<close>)
  moreover have "last_index scope d' = last_index scope d1" by (rule Cons.IH [OF d1(2)]) (use Cons.prems(2) in simp)
  ultimately show ?case by simp
qed simp

lemma other_pass_world:
  assumes w: "world_ok R scope dir \<lparr>w_disk = k, w_clock = t, w_db = d\<rparr>"
    and names: "name \<noteq> scope" "is_scope_name name" "is_scope_name scope"
    and run: "reconcile_scope R name odir now kl kr stat d = Inr (b, d')"
  shows "world_ok R scope dir \<lparr>w_disk = k, w_clock = t, w_db = d'\<rparr>"
proof (cases "stat_scope kl name odir")
  case None
  then show ?thesis using run w by (simp add: reconcile_scope_def)
next
  case (Some files)
  then obtain ds where ds: "stat_designs kl name odir = Inr ds" using run by (auto simp: reconcile_scope_def early_return)
  have ok: "db_ok d" using w by (simp add: world_ok_def)
  let ?T = "apply_scope_write name now stat files (scope_rows name d) (ticket_pending R name kr d files)"
  from reconcile_scope_runs [OF ok Some ds, of R now kr stat] run
  have d': "db_ok d'" "row_view d' = fold op_view ?T (row_view d)" by auto
  let ?D = "apply_design_write stat ds (scope_design_rows name d) (design_pending R name kr d ds)"
  have "run_ops (?D @ ?T) d = Inr d'"
    using run by (auto simp: reconcile_scope_def Some ds run_scope_write_def Let_def split: sum.splits)
  then have li: "last_index scope d' = last_index scope d"
    by (rule run_ops_last_index) (use names(1) in \<open>auto simp: apply_design_write_def apply_scope_write_def mem_scope_write_ops\<close>)
  have view: "row_view d' p = row_view d p" if s: "slot scope dir p = Some (full, archived)" for p full archived
  proof -
    have own: "ticket_id scope (path_base p) \<noteq> None" using s by (auto simp: slot_def split: if_splits)
    have notup: "p \<noteq> q" if up: "(q, item) \<in> set (ticket_pending R name kr d files)" for q item
    proof
      assume "p = q"
      moreover obtain st where "(q, st) \<in> set files" using pending_mem [OF up] by blast
      ultimately have "ticket_id name (path_base p) \<noteq> None" using listed_ids [OF Some] by blast
      with own ticket_id_scope_unique [OF _ _ names(3,2)] names(1) show False by (cases "ticket_id scope (path_base p)"; cases "ticket_id name (path_base p)") auto
    qed
    have notold: "p \<noteq> q" if "(q, r) \<in> set (scope_rows name d)" for q r
    proof
      assume "p = q"
      then have "map_of (scope_rows name d) p = Some r" using that scope_rows_map(1) [OF ok] by simp
      then obtain v where "row_view d p = Some v" "tk_scope (fst v) = name"
        using scope_rows_map(2) [OF ok, of name p] by (auto split: option.splits if_splits)
      with world_rows [OF w s] names(1) show False by (auto simp: row_fits_def)
    qed
    have "op_target x \<noteq> Some p" if "x \<in> set ?T" for x
    proof (cases "x = WSetLastIndex name now")
      case False
      then have "x \<in> set (scope_write_ops (\<lambda>path (p, es). WUpsertTicket p es) WDeleteByPath stat files (scope_rows name d) (ticket_pending R name kr d files))"
        using that by (simp add: apply_scope_write_def)
      then consider (up) path item where "(path, item) \<in> set (ticket_pending R name kr d files)"
          "x = (case item of (p, es) \<Rightarrow> WUpsertTicket p es) \<or> x = WDeleteByPath path"
        | (old) path r where "(path, r) \<in> set (scope_rows name d)" "x = WDeleteByPath path"
        unfolding mem_scope_write_ops by blast
      then show ?thesis
      proof cases
        case up
        obtain q es where item: "item = (q, es)" by (cases item)
        have "tk_path q = path" using ticket_pending_mem(1) up(1) item by blast
        then show ?thesis using up notup [OF up(1)] item by auto
      next
        case old
        then show ?thesis using notold [OF old(1)] by auto
      qed
    qed simp
    then show ?thesis unfolding d'(2) by (rule fold_op_view_other)
  qed
  show ?thesis using w d'(1) li view by (auto simp: world_ok_def)
qed

lemma steady_reconcile:
  assumes "name = scope \<and> odir = dir \<or> name \<noteq> scope \<and> is_scope_name name \<and> is_scope_name scope"
  shows "steady E scope dir (reconcile_now E [(name, odir)]) m"
  unfolding steady_def
proof
  assume ok: "machine_ok E scope dir m"
  let ?d0 = "prune_forgotten (registered_set E) (mc_db m)"
  let ?run = "reconcile_scope (we_rec E) name odir (mc_clock m) (mc_disk m) (mc_disk m) (stat_of (mc_disk m)) ?d0"
  have w0: "world_ok (we_rec E) scope dir \<lparr>w_disk = mc_disk m, w_clock = mc_clock m, w_db = ?d0\<rparr>"
    using prune_world ok by (simp add: machine_ok_def)
  obtain r m' where run: "reconcile_now E [(name, odir)] m = (r, m')" by (cases "reconcile_now E [(name, odir)] m")
  have db: "mc_db m' = ?d0 \<or> (\<exists>b. ?run = Inr (b, mc_db m'))"
  proof (cases ?run)
    case (Inl e)
    then show ?thesis using run by (auto simp: reconcile_now_def reconcile_def reconcile_rows_def look_now_def)
  next
    case (Inr x)
    obtain b d where x: "x = (b, d)" by (cases x)
    obtain sch cfg where "schema_or_error (we_rec E) odir = (sch, cfg)" by (cases "schema_or_error (we_rec E) odir")
    then show ?thesis using run Inr x
      by (cases b; cases cfg) (auto simp: reconcile_now_def reconcile_def reconcile_rows_def look_now_def)
  qed
  have "world_ok (we_rec E) scope dir \<lparr>w_disk = mc_disk m, w_clock = mc_clock m, w_db = mc_db m'\<rparr>"
    using db
  proof
    assume "mc_db m' = ?d0"
    then show ?thesis using w0 by simp
  next
    assume "\<exists>b. ?run = Inr (b, mc_db m')"
    then obtain b where b: "?run = Inr (b, mc_db m')" by blast
    show ?thesis
    proof (cases "name = scope")
      case True
      let ?w = "\<lparr>w_disk = mc_disk m, w_clock = mc_clock m, w_db = ?d0\<rparr>"
      have "world_step (we_rec E) scope dir ?w (?w\<lparr>w_disk := mc_disk m, w_clock := mc_clock m, w_db := mc_db m'\<rparr>)"
        by (rule step_pass [OF rtranclp.rtrancl_refl rtranclp.rtrancl_refl]) (use b True assms in auto)
      from world_step_ok [OF _ this w0] ok show ?thesis by (simp add: machine_ok_def)
    next
      case False
      then show ?thesis using other_pass_world [OF w0 False _ _ b] assms by blast
    qed
  qed
  then show "machine_ok E scope dir (snd (reconcile_now E [(name, odir)] m))"
    using ok run reconcile_now_run [OF run] by (simp add: machine_ok_def)
qed

lemma steady_begin:
  "steady E scope dir (begin_status_write E scope dir) m" "steady E scope dir (begin_write E scope dir) m"
proof -
  show b: "steady E scope dir (begin_status_write E scope dir) m" for m
    unfolding begin_status_write_def by (intro steady_bind steady_reconcile steady_refuse steady_return) simp
  show "steady E scope dir (begin_write E scope dir) m"
    unfolding begin_write_def by (intro steady_bind b steady_refuse steady_return)
qed


section \<open>The verbs\<close>

lemma read_ticket_absolute: "machine_ok E scope dir m \<Longrightarrow> read_ticket_file E path m = Inr x \<Longrightarrow> prefix [slash] path"
  using world_listed [of E scope dir m]
  by (auto simp: read_ticket_file_def disk_ok_def disk_file_def split: option.splits dest!: map_of_SomeD)

lemma steady_write: "prefix [slash] path \<Longrightarrow> steady E scope dir (write_ticket_file E path fm body) m"
  by (cases "serialize (re_yaml (we_rec E)) fm") (simp_all add: write_ticket_file_def steady_put)

lemma steady_rewrite: "prefix [slash] path \<Longrightarrow> steady E scope dir (rewrite_ticket E scope path fm body) m"
  unfolding rewrite_ticket_def by (intro steady_bind steady_write steady_sync)

lemma steady_order: "steady E scope dir (order_ticket E scope dir l dst) m"
  unfolding order_ticket_def
  by (intro steady_bind [OF steady_begin(2)] steady_bind [OF steady_mid_rebase] steady_bind [OF steady_rewrite]
      steady_bind [OF steady_complete(1)] steady_refuse steady_read steady_pair steady_return; rule read_ticket_absolute)

lemma steady_check_depends:
  assumes "is_scope_name scope" "scope_of_full_id target = scope \<or> is_full_ticket_id target"
  shows "steady E scope dir (check_depends_add E i scope target) m"
proof (cases "target = i \<or> scope_of_full_id target = scope")
  case True
  then show ?thesis by (auto simp: check_depends_add_def Let_def steady_def act_read_def act_fail_def)
next
  case False
  then obtain a b where "target = full_id a b" "is_scope_name a" using assms(2) full_ticket_id_iff by blast
  then have nm: "is_scope_name (scope_of_full_id target)" by simp
  show ?thesis
  proof (cases "map_of (we_reg E) (scope_of_full_id target)")
    case None
    then show ?thesis using False by (simp add: check_depends_add_def Let_def)
  next
    case (Some odir)
    have "steady E scope dir (reconcile_now E [(scope_of_full_id target, odir)]) m"
      by (rule steady_reconcile) (use False nm assms(1) in blast)
    moreover have "steady E scope dir (if c then act_fail e else act_read h) m1" for c e h m1
      by (simp add: steady_def act_fail_def act_read_def)
    ultimately have "steady E scope dir (act_bind (reconcile_now E [(scope_of_full_id target, odir)])
        (\<lambda>res. if scope_of_full_id target \<in> rr_unreachable res then act_fail (DependsUnresolvable i target)
              else act_read (\<lambda>m. if non_quarantined_exists (scope_of_full_id target) target (mc_db m) then Inr ()
                                  else Inl (DependsUnresolvable i target)))) m"
      by (rule steady_bind)
    then show ?thesis using False Some by (simp add: check_depends_add_def Let_def)
  qed
qed

lemma normalise_edge_scope:
  assumes "is_scope_name scope" "normalise_edge_value scope v = Inr x"
  shows "scope_of_full_id x = scope \<or> is_full_ticket_id x"
proof -
  obtain form ok where p: "parse_arg v = (form, ok)" by (cases "parse_arg v")
  show ?thesis
  proof (cases form)
    case FormFull
    then show ?thesis using assms(2) p by (auto simp: normalise_edge_value_def parse_edge_id_def parse_arg_def split: if_splits)
  next
    case FormShort
    then have "x = full_id scope v" using assms(2) p by (auto simp: normalise_edge_value_def parse_edge_id_def full_id_def split: if_splits)
    then show ?thesis using assms(1) by simp
  qed
qed

lemma steady_meta: "is_scope_name scope \<Longrightarrow> steady E scope dir (meta E scope dir l op inKey inValue) m"
proof -
  assume sc: "is_scope_name scope"
  have check: "steady E scope dir (if op = MetaAdd \<and> k = key_depends then check_depends_add E i scope x else act_return ()) m1"
    if "(if k = key_depends \<or> k = key_related then normalise_edge_value scope inValue else Inr inValue) = Inr x" for k i x m1
    using that normalise_edge_scope [OF sc] steady_check_depends [OF sc] by (auto split: if_splits)
  show ?thesis
    unfolding meta_def Let_def
    by (intro steady_bind [OF steady_begin(2)] steady_bind [OF steady_mid_rebase] steady_bind [OF steady_rewrite]
        steady_bind [OF steady_complete(1)] steady_bind [OF check] steady_refuse steady_read steady_pair steady_return;
        (assumption | rule read_ticket_absolute))
qed

lemma steady_splice: "steady E scope dir (splice E digest scope dir l inTitle lead inBody base) m"
proof -
  have abs: "prefix [slash] p" if "machine_ok E scope dir m1" "snapshot E digest p m1 = Inr x" for p m1 x
    using world_listed [OF that(1)] that(2)
    by (auto simp: snapshot_def disk_ok_def disk_file_def split: option.splits dest!: map_of_SomeD)
  show ?thesis
    unfolding splice_def
    by (intro steady_bind [OF steady_begin(2)] steady_bind [OF steady_mid_rebase] steady_bind [OF steady_put]
        steady_bind [OF steady_sync] steady_refuse steady_read steady_pair steady_return; rule abs)
qed

lemma terminal_location_absolute:
  "prefix [slash] d \<Longrightarrow> terminal_location E d base terminal m = (Inr p, m1) \<Longrightarrow> prefix [slash] p"
  using terminal_location_run [of E d base terminal m "Inr p" m1]
  by (cases d) (auto simp: path_join_def split: if_splits)

lemma steady_create: "prefix [slash] dir \<Longrightarrow> steady E scope dir (create E nfkc scope dir inTitle inStatus inTags src) m"
  unfolding create_def Let_def
  by (intro steady_bind [OF steady_begin(1)] steady_bind [OF steady_mid_rebase] steady_bind [OF steady_put] steady_bind [OF steady_location]
      steady_bind [OF steady_sync] steady_refuse steady_read steady_return; erule (1) terminal_location_absolute)

lemma steady_relocate:
  assumes abs: "prefix [slash] path" "prefix [slash] dir"
  shows "steady E scope dir (relocate_and_write E scope dir newStatus custom path fm body) m"
  unfolding relocate_and_write_def Let_def
proof (rule steady_bind, goal_cases place rest)
  case place
  then show ?case by (auto intro: steady_bind steady_location)
next
  case (rest x m1)
  obtain new old where x: "x = (new, old)" by (cases x)
  have place: "old = path \<and> prefix [slash] new \<or> old = []"
    using rest(1) terminal_location_absolute [OF abs(2)] by (auto simp: x act_runs split: if_splits)
  show ?case
    unfolding x prod.case
  proof (rule steady_bind [OF steady_write [OF abs(1)]], rule steady_bind, goal_cases move after)
    case (move u m2)
    show ?case
    proof (cases "old \<noteq> [] \<and> old \<noteq> new")
      case True
      then have "old = path" "prefix [slash] new" using place by auto
      moreover have "f_mtime f = mc_clock m2" if "disk_file (mc_disk m2) path = Some f" for f
        using write_ticket_file_run [OF move(1)] that by auto
      ultimately show ?thesis using True by (simp add: steady_rename)
    next
      case False
      then show ?thesis by auto
    qed
  qed (intro steady_bind steady_sync steady_return)
qed

lemma steady_write_each:
  "(\<forall>p \<in> set ps. prefix [slash] (tk_path (pr_ticket p))) \<Longrightarrow> prefix [slash] dir \<Longrightarrow>
     steady E scope dir (write_each E schema scope dir newStatus custom ps) m"
proof (induction ps arbitrary: m)
  case (Cons p ps)
  show ?case
    unfolding write_each.simps Let_def
    by (intro steady_bind [OF steady_relocate] steady_pair steady_bind [OF Cons.IH] steady_return) (use Cons.prems in auto)
qed simp

lemma preflight_absolute:
  assumes "machine_ok E scope dir m" "preflight_marks E sc ls seen m = Inr ps"
  shows "\<forall>p \<in> set ps. prefix [slash] (tk_path (pr_ticket p))"
proof -
  have "\<forall>p \<in> set ps. read_ticket_file E (tk_path (pr_ticket p)) m = Inr (pr_model p, pr_body p)"
    using preflight_marks_read [OF assms(2)] by blast
  then show ?thesis using read_ticket_absolute [OF assms(1)] by blast
qed

lemma steady_prepared:
  assumes "\<forall>p \<in> set ps. prefix [slash] (tk_path (pr_ticket p))" "prefix [slash] dir"
  shows "steady E scope dir (write_prepared_marks E res schema scope dir newStatus custom ps) m"
  unfolding write_prepared_marks_def
  by (intro steady_bind [OF steady_write_each [OF assms]]) (simp add: steady_def)

lemma steady_mark:
  assumes "newStatus \<noteq> st_in_progress" "prefix [slash] dir"
  shows "steady E scope dir (mark E E' C scope dir lookups newStatus) m"
proof -
  have other: "(if newStatus = st_in_progress \<and> b then f else g) = g" for b and f g :: "wresult act" using assms(1) by simp
  show ?thesis
    unfolding mark_def Let_def other
    by (intro steady_bind [OF steady_begin(1)] steady_bind [OF steady_mid_rebase] steady_bind [OF steady_prepared]
        steady_bind [OF steady_complete(2)] steady_refuse steady_read steady_pair steady_return;
        (rule assms(2) | erule (1) preflight_absolute))
qed

section \<open>Any order of verbs and edits\<close>

inductive engine_step :: "wenv \<Rightarrow> string \<Rightarrow> string \<Rightarrow> machine \<Rightarrow> machine \<Rightarrow> bool" for E scope dir where
  eng_edit: "edit dir (mc_disk m, mc_clock m) (k, t) \<Longrightarrow> engine_step E scope dir m (m\<lparr>mc_disk := k, mc_clock := t\<rparr>)"
| eng_order: "order_ticket E scope dir l dst m = (r, m') \<Longrightarrow> engine_step E scope dir m m'"
| eng_meta: "meta E scope dir l op key val m = (r, m') \<Longrightarrow> engine_step E scope dir m m'"
| eng_splice: "splice E digest scope dir l title lead body base m = (r, m') \<Longrightarrow> engine_step E scope dir m m'"
| eng_create: "create E nfkc scope dir title st tags src m = (r, m') \<Longrightarrow> engine_step E scope dir m m'"
| eng_mark: "mark E E' C scope dir ls st m = (r, m') \<Longrightarrow> st \<noteq> st_in_progress \<Longrightarrow> engine_step E scope dir m m'"

lemma engine_step_ok:
  assumes "engine_step E scope dir m m'" "machine_ok E scope dir m" "is_scope_name scope" "prefix [slash] dir"
  shows "machine_ok E scope dir m'"
  using assms(1)
proof cases
  case (eng_edit k t)
  have "world_step (we_rec E) scope dir (the_world m) (the_world (m\<lparr>mc_disk := k, mc_clock := t\<rparr>))"
    using step_edit [of dir "the_world m" k t] eng_edit(2) by simp
  from world_step_ok [OF _ this] assms(2) eng_edit(1) show ?thesis by (simp add: machine_ok_def)
next
  case (eng_order l dst r)
  then show ?thesis using steadyD [OF steady_order assms(2)] by blast
next
  case (eng_meta l op key val r)
  then show ?thesis using steadyD [OF steady_meta [OF assms(3)] assms(2)] by blast
next
  case (eng_splice digest l title lead body base r)
  then show ?thesis using steadyD [OF steady_splice assms(2)] by blast
next
  case (eng_create nfkc title st tags src r)
  then show ?thesis using steadyD [OF steady_create [OF assms(4)] assms(2)] by blast
next
  case (eng_mark E' C ls st r)
  then show ?thesis using steadyD [OF steady_mark [OF _ assms(4)] assms(2)] by blast
qed


abbreviation ordered_machine :: machine where
  "ordered_machine \<equiv> snd order_run"


end
