(* ===== verification/Designs.thy ===== *)
theory Designs
  imports Reconciles Collision
begin

text \<open>
  Design documents, the pure part of \<open>internal/design\<close> (\<open>design.go\<close> and the listing in \<open>ops.go\<close>): the
  closed status set, the design fence, the \<open>produces\<close> list, the files of \<open>design/\<close>, the order of a
  listing and the resolution of an argument. The YAML codec and RFC 3339 are parameters.
\<close>

section \<open>Statuses\<close>

definition design_draft :: string where "design_draft = ''draft''"
definition design_accepted :: string where "design_accepted = ''accepted''"
definition design_decomposed :: string where "design_decomposed = ''decomposed''"
definition design_superseded :: string where "design_superseded = ''superseded''"
definition key_produces :: string where "key_produces = ''produces''"

lemmas design_statuses = design_draft_def design_accepted_def design_decomposed_def design_superseded_def

definition known_design_status :: "string \<Rightarrow> bool" where
  "known_design_status s \<longleftrightarrow> s \<in> {design_draft, design_accepted, design_decomposed, design_superseded}"

definition default_listed :: "string \<Rightarrow> bool" where
  "default_listed s \<longleftrightarrow> s = design_draft \<or> s = design_accepted"

section \<open>The fence of a design\<close>

definition produces_item :: "field \<Rightarrow> (string \<times> yvalue) list" where
  "produces_item f =
     (if fst f = key_produces then
        case string_list (snd f) of
          Inl _ \<Rightarrow> [(fst f, YPlain (snd f))]
        | Inr ids \<Rightarrow> if length ids = 0 then [] else [(fst f, YFlow ids)]
      else [(fst f, YPlain (snd f))])"

definition design_items :: "fm_model \<Rightarrow> (string \<times> yvalue) list" where
  "design_items m =
     [(key_id, YPlain (VStr (fm_id m))), (key_status, YPlain (VStr (fm_status m)))] @
     string_item key_changed (fm_changed m) @
     (if fm_order m \<noteq> [] then [(key_order, YQuoted (fm_order m))] else []) @
     list_item key_depends (fm_depends m) @
     list_item key_related (fm_related m) @
     list_item key_tags (fm_tags m) @
     [(key_created, YPlain (VStr (fm_created m)))] @
     list_item key_links (fm_links m) @
     string_item key_summary (fm_summary m) @
     list_item key_status_conflict (fm_status_conflict m) @
     concat (map produces_item (fm_custom m))"

definition design_serialize :: "yaml \<Rightarrow> fm_model \<Rightarrow> string + string" where
  "design_serialize Y m = y_marshal Y (design_items m)"

definition produces :: "fm_model \<Rightarrow> unit + string list" where
  "produces m =
     (case find (\<lambda>f. fst f = key_produces) (fm_custom m) of
        None \<Rightarrow> Inr []
      | Some f \<Rightarrow> string_list (snd f))"

definition set_produces :: "fm_model \<Rightarrow> string list \<Rightarrow> fm_model" where
  "set_produces m ids =
     (let m1 = fst (remove_custom m key_produces) in
      if length ids = 0 then m1 else m1\<lparr>fm_custom := fm_custom m1 @ [(key_produces, VStrs ids)]\<rparr>)"

definition contains_id :: "string list \<Rightarrow> string \<Rightarrow> bool" where
  "contains_id ids x = list_ex (\<lambda>e. e = x) ids"

definition drop_id :: "string list \<Rightarrow> string \<Rightarrow> string list" where
  "drop_id ids x = filter (\<lambda>e. e \<noteq> x) ids"

section \<open>The files of a scope\<close>

datatype design_fault = FenceBroken | FenceUnparsed parse_error

record design_file =
  df_path :: string
  df_id :: string
  df_model :: "fm_model option"
  df_body :: string
  df_raw :: string
  df_fault :: "design_fault option"

function fence_conflict :: "string \<Rightarrow> bool" where
  "fence_conflict interior =
     (if length interior = 0 then False
      else
        let (line, rest) = (case index_byte newline interior of
                              Some i \<Rightarrow> (take i interior, drop (i + 1) interior)
                            | None \<Rightarrow> (interior, [])) in
        if list_ex (\<lambda>marker. prefix marker line) [''<<<<<<<'', ''======='', ''>>>>>>>''] then True
        else fence_conflict rest)"
  by pat_completeness auto
termination
  by (relation "measure length") (auto split: option.splits)

declare fence_conflict.simps [simp del]

text \<open>\<open>readFile\<close> on the bytes it read.\<close>

definition read_design :: "yaml \<Rightarrow> string \<Rightarrow> string \<Rightarrow> string \<Rightarrow> string \<Rightarrow> design_file" where
  "read_design Y scope path filenameID data =
     (let f = \<lparr>df_path = path, df_id = filenameID, df_model = None, df_body = [], df_raw = data, df_fault = None\<rparr> in
      case split_fence data of
        (interior, body, present) \<Rightarrow>
          if \<not> present \<or> fence_conflict interior then f\<lparr>df_fault := Some FenceBroken, df_body := data\<rparr>
          else case parse_fm Y interior of
                 Inl e \<Rightarrow> f\<lparr>df_fault := Some (FenceUnparsed e), df_body := body\<rparr>
               | Inr m \<Rightarrow>
                   (let f1 = f\<lparr>df_model := Some m, df_body := body\<rparr> in
                    if is_full_ticket_id (fm_id m) \<and> scope_of_full_id (fm_id m) = scope
                    then f1\<lparr>df_id := fm_id m\<rparr> else f1))"

datatype design_files_error = DesignsUnreadable string | DesignUnreadable string

definition read_design_at :: "yaml \<Rightarrow> disk \<Rightarrow> string \<Rightarrow> string \<Rightarrow> string \<Rightarrow> design_files_error + design_file" where
  "read_design_at Y k scope root name =
     (case disk_file k (path_join root name) of
        None \<Rightarrow> Inl (DesignUnreadable (path_join root name))
      | Some x \<Rightarrow>
          Inr (read_design Y scope (path_join root name)
                 (full_id scope (the (short_id_of_basename name scope))) (f_data x)))"

fun read_designs :: "yaml \<Rightarrow> disk \<Rightarrow> string \<Rightarrow> string \<Rightarrow> string list \<Rightarrow> design_files_error + design_file list" where
  "read_designs Y k scope root [] = Inr []"
| "read_designs Y k scope root (name # names) =
     (if \<not> looks_like_ticket name \<or> short_id_of_basename name scope = None then read_designs Y k scope root names
      else rbind (read_design_at Y k scope root name) (\<lambda>f. map_sum id (\<lambda>fs. f # fs) (read_designs Y k scope root names)))"

text \<open>\<open>Files\<close>: a missing design directory and a file of that name are an empty list.\<close>

definition design_files :: "yaml \<Rightarrow> disk \<Rightarrow> string \<Rightarrow> string \<Rightarrow> design_files_error + design_file list" where
  "design_files Y k dir scope =
     (let root = path_join dir design_dir in
      case read_dir k root of
        None \<Rightarrow> if optional_dir_miss k root then Inr [] else Inl (DesignsUnreadable root)
      | Some names \<Rightarrow> read_designs Y k scope root names)"

section \<open>Listings\<close>

definition status_rank_other :: nat where "status_rank_other = 4"

definition status_rank :: "string \<Rightarrow> nat" where
  "status_rank s =
     (if s = design_draft then 0 else if s = design_accepted then 1
      else if s = design_decomposed then 2 else if s = design_superseded then 3 else status_rank_other)"

definition created_before :: "externals \<Rightarrow> string \<Rightarrow> string \<Rightarrow> bool" where
  "created_before X a b =
     (let ta = parse_instant X a; tb = parse_instant X b in
      if (ta \<noteq> None) \<noteq> (tb \<noteq> None) then ta = None
      else if ta = None then False
      else the ta < the tb)"

definition list_before :: "externals \<Rightarrow> design \<Rightarrow> design \<Rightarrow> bool" where
  "list_before X a b =
     (let ra = status_rank (ds_status a); rb = status_rank (ds_status b) in
      if ra \<noteq> rb then ra < rb
      else if ra = status_rank_other \<and> ds_status a \<noteq> ds_status b then ds_status a < ds_status b
      else if created_before X (ds_changed b) (ds_changed a) then True
      else if created_before X (ds_changed a) (ds_changed b) then False
      else ds_id a < ds_id b)"

definition list_keeps :: "string \<Rightarrow> string list \<Rightarrow> bool" where
  "list_keeps s filters = (if length filters = 0 then True else list_ex (\<lambda>f. f = s) filters)"

text \<open>The rows that \<open>List\<close> prints from the indexed designs, and the number it could not parse.\<close>

definition design_listing :: "externals \<Rightarrow> string list \<Rightarrow> design list \<Rightarrow> (string \<times> string \<times> string) list \<times> nat" where
  "design_listing X statuses indexed =
     (map (\<lambda>p. (ds_id p, ds_status p, ds_title p))
        (sort_stable (list_before X)
          (filter (\<lambda>p. \<not> ds_parse_error p \<and> list_keeps (ds_status p) statuses) indexed)),
      length (filter ds_parse_error indexed))"

end
