(* ===== verification/Repairs.thy ===== *)
theory Repairs
  imports Designs Sessions Rewrites
begin

text \<open>
  The repair procedures of \<open>internal/repair/repair.go\<close>: they read files and return the operations of a
  multi-file rewrite, and never write. \<open>occupied\<close>, a map the caller owns and each repair extends with the ids
  it mints, is passed and returned. A read of a file is a function \<open>reads\<close>; the listings of a scope come
  from the disk. The Go pointer copies of a model (\<open>cloneModel\<close>) are the values themselves.
\<close>

section \<open>Data\<close>

definition order_long_threshold :: nat where "order_long_threshold = 64"

record repair_row =
  rp_path :: string
  rp_full :: string
  rp_short :: string
  rp_order :: string
  rp_fault :: bool

record rename =
  rn_old_id :: string
  rn_new_id :: string
  rn_old_path :: string
  rn_new_path :: string

record shared_row = repair_row +
  sr_design :: bool

record holder =
  hd_path :: string
  hd_basename :: string
  hd_created :: string
  hd_short :: string
  hd_raw :: string
  hd_model :: fm_model
  hd_body :: string
  hd_design :: bool

datatype read_result = ReadOk string | ReadMissing | ReadFault

type_synonym reads = "string \<Rightarrow> read_result"

definition reads_of :: "disk \<Rightarrow> reads" where
  "reads_of k p = (case disk_file k p of None \<Rightarrow> ReadMissing | Some f \<Rightarrow> ReadOk (f_data f))"

type_synonym occupied = "(string \<times> string) list"

datatype repair_error =
    TooFewHolders nat
  | NoDesignHolder
  | RepairRead string
  | RepairNoFence string
  | RepairParse string parse_error
  | RepairSerialize string
  | RepairExtend string extend_error "string list"
  | RepairKey string string string order_error
  | RepairTickets
  | RepairListing string
  | RepairOccupied
  | AdoptExtend string extend_error
  | RepairMention string string
  | RepairDesigns design_files_error

section \<open>Reading and rendering\<close>

definition read_file :: "reads \<Rightarrow> string \<Rightarrow> repair_error + string" where
  "read_file rd p = (case rd p of ReadOk s \<Rightarrow> Inr s | _ \<Rightarrow> Inl (RepairRead p))"

definition read_holder :: "yaml \<Rightarrow> reads \<Rightarrow> 'b repair_row_scheme \<Rightarrow> repair_error + holder" where
  "read_holder Y rd r =
     rbind (read_file rd (rp_path r)) (\<lambda>raw.
       case split_fence raw of
         (interior, body, present) \<Rightarrow>
           if \<not> present then Inl (RepairNoFence (rp_path r))
           else case parse_fm Y interior of
                  Inl e \<Rightarrow> Inl (RepairParse (rp_path r) e)
                | Inr m \<Rightarrow>
                    Inr \<lparr>hd_path = rp_path r, hd_basename = path_base (rp_path r), hd_created = fm_created m,
                         hd_short = rp_short r, hd_raw = raw, hd_model = m, hd_body = body, hd_design = False\<rparr>)"

fun read_holders :: "('r \<Rightarrow> repair_error + holder) \<Rightarrow> 'r list \<Rightarrow> repair_error + holder list" where
  "read_holders f [] = Inr []"
| "read_holders f (r # rs) = rbind (f r) (\<lambda>m. map_sum id ((#) m) (read_holders f rs))"

definition to_collision :: "holder \<Rightarrow> member" where
  "to_collision m = \<lparr>m_created = hd_created m, m_basename = hd_basename m, m_raw = hd_raw m, m_path = hd_path m\<rparr>"

definition holder_before :: "externals \<Rightarrow> holder \<Rightarrow> holder \<Rightarrow> bool" where
  "holder_before X a b = keep_before X (to_collision a) (to_collision b)"

text \<open>\<open>Basename\<close>: the file name for a new id that keeps the slug.\<close>

definition new_basename :: "string \<Rightarrow> string \<Rightarrow> string" where
  "new_basename base newID =
     (let stem = trim_suffix md_ext base; parts = split_n CHR ''-'' 3 stem in
      if length parts < 3 \<or> parts ! 2 = [] then newID @ md_ext else newID @ ''-'' @ parts ! 2 @ md_ext)"

definition render_ticket :: "yaml \<Rightarrow> fm_model \<Rightarrow> string \<Rightarrow> repair_error + string" where
  "render_ticket Y m body = (case serialize Y m of Inl e \<Rightarrow> Inl (RepairSerialize e) | Inr i \<Rightarrow> Inr (compose i body))"

definition render_design :: "yaml \<Rightarrow> fm_model \<Rightarrow> string \<Rightarrow> repair_error + string" where
  "render_design Y m body = (case design_serialize Y m of Inl e \<Rightarrow> Inl (RepairSerialize e) | Inr i \<Rightarrow> Inr (compose i body))"

definition holder_bytes :: "yaml \<Rightarrow> holder \<Rightarrow> fm_model \<Rightarrow> repair_error + string" where
  "holder_bytes Y h m = (if hd_design h then render_design Y m (hd_body h) else render_ticket Y m (hd_body h))"

section \<open>Extending one holder\<close>

definition resume_candidates :: "string \<Rightarrow> occupied \<Rightarrow> string list" where
  "resume_candidates short occ = sort (filter (\<lambda>s. s \<noteq> short \<and> short_in_family s short) (map fst occ))"

fun resume_from ::
    "reads \<Rightarrow> holder \<Rightarrow> string \<Rightarrow> occupied \<Rightarrow> (string \<Rightarrow> repair_error + string) \<Rightarrow> string list \<Rightarrow>
     repair_error + (rw_op \<times> rename) option" where
  "resume_from rd loser scope occ content [] = Inr None"
| "resume_from rd loser scope occ content (short # shorts) =
     (let newID = full_id scope short; path = the (map_of occ short) in
      rbind (content newID) (\<lambda>rendered.
        case rd path of
          ReadMissing \<Rightarrow> resume_from rd loser scope occ content shorts
        | ReadFault \<Rightarrow> Inl (RepairRead path)
        | ReadOk raw \<Rightarrow>
            if raw \<noteq> rendered then resume_from rd loser scope occ content shorts
            else Inr (Some (\<lparr>op_old = hd_path loser, op_new = path, op_content = rendered\<rparr>,
                            \<lparr>rn_old_id = fm_id (hd_model loser), rn_new_id = newID, rn_old_path = hd_path loser,
                             rn_new_path = path\<rparr>))))"

definition resume_extension ::
    "reads \<Rightarrow> holder \<Rightarrow> string \<Rightarrow> occupied \<Rightarrow> (string \<Rightarrow> repair_error + string) \<Rightarrow> repair_error + (rw_op \<times> rename) option" where
  "resume_extension rd loser scope occ content =
     resume_from rd loser scope occ content (resume_candidates (hd_short loser) occ)"

text \<open>The mint that both repairs share: the least free extension, in the directory of the loser.\<close>

definition mint_extension ::
    "holder \<Rightarrow> string \<Rightarrow> string list \<Rightarrow> occupied \<Rightarrow> string set \<Rightarrow> (string \<Rightarrow> repair_error + string) \<Rightarrow>
     repair_error + (rw_op \<times> rename \<times> occupied \<times> string set)" where
  "mint_extension loser scope paths occ taken content =
     (case Ids.extend (hd_short loser) taken of
        Inl e \<Rightarrow> Inl (RepairExtend (fm_id (hd_model loser)) e paths)
      | Inr newShort \<Rightarrow>
          let newID = full_id scope newShort;
              newPath = path_join (path_dir (hd_path loser)) (new_basename (hd_basename loser) newID) in
          map_sum id (\<lambda>rendered.
            (\<lparr>op_old = hd_path loser, op_new = newPath, op_content = rendered\<rparr>,
             \<lparr>rn_old_id = fm_id (hd_model loser), rn_new_id = newID, rn_old_path = hd_path loser, rn_new_path = newPath\<rparr>,
             AList.update newShort newPath occ, insert newShort taken)) (content newID))"

section \<open>A duplicate id\<close>

definition id_content :: "yaml \<Rightarrow> holder \<Rightarrow> string \<Rightarrow> repair_error + string" where
  "id_content Y loser newID = render_ticket Y ((hd_model loser)\<lparr>fm_id := newID\<rparr>) (hd_body loser)"

definition extend_loser ::
    "yaml \<Rightarrow> reads \<Rightarrow> string \<Rightarrow> string list \<Rightarrow> holder \<Rightarrow> occupied \<Rightarrow> string set \<Rightarrow>
     repair_error + (rw_op \<times> rename \<times> occupied \<times> string set)" where
  "extend_loser Y rd scope paths loser occ taken =
     rbind (resume_extension rd loser scope occ (id_content Y loser)) (\<lambda>r.
       case r of
         Some (x, rn) \<Rightarrow> Inr (x, rn, occ, taken)
       | None \<Rightarrow> mint_extension loser scope paths occ taken (id_content Y loser))"

fun extend_losers ::
    "(holder \<Rightarrow> occupied \<Rightarrow> string set \<Rightarrow> repair_error + (rw_op \<times> rename \<times> occupied \<times> string set)) \<Rightarrow>
     holder list \<Rightarrow> occupied \<Rightarrow> string set \<Rightarrow> repair_error + ((rw_op \<times> rename) list \<times> occupied)" where
  "extend_losers step [] occ taken = Inr ([], occ)"
| "extend_losers step (loser # losers) occ taken =
     rbind (step loser occ taken) (\<lambda>(x, rn, occ', taken').
       map_sum id (\<lambda>(ops, occ''). ((x, rn) # ops, occ'')) (extend_losers step losers occ' taken'))"

definition duplicate_id ::
    "yaml \<Rightarrow> externals \<Rightarrow> reads \<Rightarrow> string \<Rightarrow> repair_row list \<Rightarrow> occupied \<Rightarrow>
     repair_error + ((rw_op \<times> rename) list \<times> occupied)" where
  "duplicate_id Y X rd scope rows occ =
     (if length rows < 2 then Inl (TooFewHolders (length rows))
      else
        rbind (read_holders (read_holder Y rd) rows) (\<lambda>hs.
          let members = sort_stable (holder_before X) hs in
          extend_losers (extend_loser Y rd scope (map hd_path members)) (tl members) occ (set (map fst occ))))"

section \<open>A short id shared with a design\<close>

record link_plan =
  lp_old :: string
  lp_dest :: string
  lp_self :: bool

text \<open>\<open>rewriteList\<close> answers whether it changed something.\<close>

definition rewrite_list :: "string list \<Rightarrow> string \<Rightarrow> string \<Rightarrow> string list \<times> bool" where
  "rewrite_list ids oldID newID = (map (\<lambda>x. if x = oldID then newID else x) ids, list_ex (\<lambda>x. x = oldID) ids)"

definition retarget_field :: "string \<Rightarrow> string \<Rightarrow> field \<Rightarrow> field \<times> bool" where
  "retarget_field oldID newID f =
     (if fst f \<noteq> key_produces then (f, False)
      else case string_list (snd f) of
             Inl _ \<Rightarrow> (f, False)
           | Inr ids \<Rightarrow>
               (case rewrite_list ids oldID newID of
                  (ids', hit) \<Rightarrow> if hit then ((fst f, VStrs ids'), True) else (f, False)))"

definition retarget_model :: "fm_model \<Rightarrow> string \<Rightarrow> string \<Rightarrow> fm_model \<times> bool" where
  "retarget_model m oldID newID =
     (let (dep, c1) = rewrite_list (fm_depends m) oldID newID;
          (rel, c2) = rewrite_list (fm_related m) oldID newID;
          cs = map (retarget_field oldID newID) (fm_custom m) in
      (m\<lparr>fm_depends := dep, fm_related := rel, fm_custom := map fst cs\<rparr>, c1 \<or> c2 \<or> list_ex snd cs))"

definition render_loser :: "yaml \<Rightarrow> holder \<Rightarrow> link_plan \<Rightarrow> string \<Rightarrow> repair_error + string" where
  "render_loser Y loser plan newID =
     (let m = (hd_model loser)\<lparr>fm_id := newID\<rparr>;
          dst = (if lp_self plan then newID else lp_dest plan);
          m' = (if dst \<noteq> [] then fst (retarget_model m (lp_old plan) dst) else m) in
      holder_bytes Y loser m')"

definition no_links :: link_plan where
  "no_links = \<lparr>lp_old = [], lp_dest = [], lp_self = False\<rparr>"

definition plan_loser ::
    "yaml \<Rightarrow> reads \<Rightarrow> string \<Rightarrow> link_plan \<Rightarrow> holder \<Rightarrow> occupied \<Rightarrow> string set \<Rightarrow>
     repair_error + (rw_op \<times> rename \<times> occupied \<times> string set)" where
  "plan_loser Y rd scope plan loser occ taken =
     rbind (resume_extension rd loser scope occ (render_loser Y loser plan)) (\<lambda>r1.
     rbind (if r1 = None \<and> (lp_self plan \<or> lp_dest plan \<noteq> [])
            then rbind (resume_extension rd loser scope occ (render_loser Y loser no_links)) (\<lambda>r2.
                   case r2 of
                     None \<Rightarrow> Inr None
                   | Some (x, rn) \<Rightarrow>
                       map_sum id (\<lambda>rendered. Some (x\<lparr>op_content := rendered\<rparr>, rn)) (render_loser Y loser plan (rn_new_id rn)))
            else Inr r1) (\<lambda>r.
       case r of
         Some (x, rn) \<Rightarrow> Inr (x, rn, occ, taken)
       | None \<Rightarrow> mint_extension loser scope [hd_path loser] occ taken (render_loser Y loser plan)))"

definition retarget_ticket :: "yaml \<Rightarrow> reads \<Rightarrow> string \<Rightarrow> string \<Rightarrow> string \<Rightarrow> repair_error + rw_op option" where
  "retarget_ticket Y rd path oldID newID =
     rbind (read_file rd path) (\<lambda>raw.
       case split_fence raw of
         (interior, body, present) \<Rightarrow>
           if \<not> present then Inr None
           else case parse_fm Y interior of
                  Inl e \<Rightarrow> Inr None
                | Inr m \<Rightarrow>
                    (case retarget_model m oldID newID of
                       (c, hit) \<Rightarrow>
                         if \<not> hit then Inr None
                         else map_sum id (\<lambda>content. Some \<lparr>op_old = path, op_new = path, op_content = content\<rparr>)
                                (render_ticket Y c body)))"

definition retarget_design :: "yaml \<Rightarrow> design_file \<Rightarrow> string \<Rightarrow> string \<Rightarrow> repair_error + rw_op option" where
  "retarget_design Y f oldID newID =
     (case retarget_model (the (df_model f)) oldID newID of
        (c, hit) \<Rightarrow>
          if \<not> hit then Inr None
          else map_sum id (\<lambda>content. Some \<lparr>op_old = df_path f, op_new = df_path f, op_content = content\<rparr>)
                 (render_design Y c (df_body f)))"

fun gather_ops :: "('x \<Rightarrow> 'e + rw_op option) \<Rightarrow> 'x list \<Rightarrow> 'e + rw_op list" where
  "gather_ops f [] = Inr []"
| "gather_ops f (x # xs) =
     rbind (f x) (\<lambda>r. map_sum id (\<lambda>ops. case r of None \<Rightarrow> ops | Some y \<Rightarrow> y # ops) (gather_ops f xs))"

definition retarget_scope ::
    "yaml \<Rightarrow> disk \<Rightarrow> reads \<Rightarrow> string \<Rightarrow> string \<Rightarrow> string \<Rightarrow> string \<Rightarrow> string set \<Rightarrow> repair_error + rw_op list" where
  "retarget_scope Y k rd dir scope oldID newID skip =
     (case list_tickets k dir of
        None \<Rightarrow> Inl RepairTickets
      | Some tickets \<Rightarrow>
          (case design_files Y k dir scope of
             Inl e \<Rightarrow> Inl (RepairDesigns e)
           | Inr designs \<Rightarrow>
               rbind (gather_ops (\<lambda>path. retarget_ticket Y rd path oldID newID) (filter (\<lambda>p. p \<notin> skip) tickets)) (\<lambda>ops1.
                 map_sum id (\<lambda>ops2. ops1 @ ops2)
                   (gather_ops (\<lambda>f. retarget_design Y f oldID newID)
                      (filter (\<lambda>f. df_path f \<notin> skip \<and> df_model f \<noteq> None) (sort_key df_path designs))))))"

text \<open>The loop of \<open>SharedID\<close> after the one ticket whose links move, if any, was put first.\<close>

definition shared_plan :: "string \<Rightarrow> string option \<Rightarrow> string \<Rightarrow> holder \<Rightarrow> link_plan" where
  "shared_plan oldID ticketPath retarget loser =
     (case ticketPath of
        None \<Rightarrow> \<lparr>lp_old = oldID, lp_dest = [], lp_self = False\<rparr>
      | Some p \<Rightarrow>
          if hd_path loser = p then \<lparr>lp_old = oldID, lp_dest = [], lp_self = True\<rparr>
          else \<lparr>lp_old = oldID, lp_dest = retarget, lp_self = False\<rparr>)"

fun plan_losers ::
    "yaml \<Rightarrow> reads \<Rightarrow> string \<Rightarrow> string \<Rightarrow> string option \<Rightarrow> string \<Rightarrow> holder list \<Rightarrow> occupied \<Rightarrow> string set \<Rightarrow>
     repair_error + ((rw_op \<times> rename) list \<times> string \<times> occupied)" where
  "plan_losers Y rd scope oldID ticketPath retarget [] occ taken = Inr ([], retarget, occ)"
| "plan_losers Y rd scope oldID ticketPath retarget (loser # losers) occ taken =
     rbind (plan_loser Y rd scope (shared_plan oldID ticketPath retarget loser) loser occ taken)
       (\<lambda>(x, rn, occ', taken').
         map_sum id (\<lambda>(ops, rt, occ''). ((x, rn) # ops, rt, occ''))
           (plan_losers Y rd scope oldID ticketPath (if ticketPath = Some (hd_path loser) then rn_new_id rn else retarget)
              losers occ' taken'))"

definition read_shared :: "yaml \<Rightarrow> reads \<Rightarrow> shared_row \<Rightarrow> repair_error + holder" where
  "read_shared Y rd r = map_sum id (\<lambda>m. m\<lparr>hd_design := sr_design r\<rparr>) (read_holder Y rd r)"

definition shared_id ::
    "yaml \<Rightarrow> externals \<Rightarrow> disk \<Rightarrow> reads \<Rightarrow> string \<Rightarrow> string \<Rightarrow> shared_row list \<Rightarrow> occupied \<Rightarrow>
     repair_error + (rw_op list \<times> rename list \<times> string \<times> occupied)" where
  "shared_id Y X k rd scope dir rows occ =
     (if length rows < 2 then Inl (TooFewHolders (length rows))
      else
        rbind (read_holders (read_shared Y rd) rows) (\<lambda>hs.
          if length (filter sr_design rows) = 0 then Inl NoDesignHolder
          else
            let members = sort_stable (holder_before X) hs;
                oldID = (if rp_full (rows ! 0) \<noteq> [] then rp_full (rows ! 0) else fm_id (hd_model (members ! 0)));
                losers = tl members;
                tickets = filter (\<lambda>h. \<not> hd_design h) losers;
                willRetarget = hd_design (members ! 0) \<and> length tickets = 1;
                ticketPath = (if willRetarget then Some (hd_path (last tickets)) else None);
                ordered = (if willRetarget
                           then last tickets # filter (\<lambda>h. hd_path h \<noteq> hd_path (last tickets)) losers else losers) in
            rbind (plan_losers Y rd scope oldID ticketPath [] ordered occ (set (map fst occ))) (\<lambda>(planned, retarget, occ').
              let ops = map fst planned; renames = map snd planned;
                  skip = set (map hd_path ordered) \<union> set (map rn_new_path renames) in
              if retarget = [] then Inr (ops, renames, [], occ')
              else map_sum id (\<lambda>rewrites. (ops @ rewrites, renames, retarget, occ'))
                     (retarget_scope Y k rd dir scope oldID retarget skip))))"

section \<open>Order keys\<close>

definition valid_order_rows :: "repair_row list \<Rightarrow> repair_row list" where
  "valid_order_rows rows = filter (\<lambda>r. \<not> rp_fault r \<and> valid (rp_order r)) rows"

definition order_row_before :: "repair_row \<Rightarrow> repair_row \<Rightarrow> bool" where
  "order_row_before a b \<longleftrightarrow> (if rp_order a \<noteq> rp_order b then rp_order a < rp_order b else rp_full a < rp_full b)"

definition order_rewrite_op :: "yaml \<Rightarrow> reads \<Rightarrow> string \<Rightarrow> string \<Rightarrow> repair_error + rw_op" where
  "order_rewrite_op Y rd path newKey =
     rbind (read_file rd path) (\<lambda>raw.
       case split_fence raw of
         (interior, body, present) \<Rightarrow>
           if \<not> present then Inl (RepairNoFence path)
           else case parse_fm Y interior of
                  Inl e \<Rightarrow> Inl (RepairParse path e)
                | Inr m \<Rightarrow>
                    map_sum id (\<lambda>content. \<lparr>op_old = path, op_new = path, op_content = content\<rparr>)
                      (render_ticket Y (m\<lparr>fm_order := newKey\<rparr>) body))"

text \<open>The key of the next row that keeps its own, or none.\<close>

definition right_anchor :: "(repair_row \<Rightarrow> bool) \<Rightarrow> repair_row list \<Rightarrow> string" where
  "right_anchor needs rest = (case find (\<lambda>r. \<not> needs r) rest of None \<Rightarrow> [] | Some r \<Rightarrow> rp_order r)"

fun respace_from :: "yaml \<Rightarrow> reads \<Rightarrow> (repair_row \<Rightarrow> bool) \<Rightarrow> string \<Rightarrow> repair_row list \<Rightarrow> repair_error + rw_op list" where
  "respace_from Y rd needs prev [] = Inr []"
| "respace_from Y rd needs prev (r # rest) =
     (if \<not> needs r then respace_from Y rd needs (rp_order r) rest
      else
        let right = right_anchor needs rest in
        case key_between prev right of
          Inl e \<Rightarrow> Inl (RepairKey (rp_full r) prev right e)
        | Inr newKey \<Rightarrow>
            if newKey = rp_order r then respace_from Y rd needs newKey rest
            else rbind (order_rewrite_op Y rd (rp_path r) newKey) (\<lambda>x.
                   map_sum id ((#) x) (respace_from Y rd needs newKey rest)))"

definition respace :: "yaml \<Rightarrow> reads \<Rightarrow> repair_row list \<Rightarrow> (repair_row \<Rightarrow> bool) \<Rightarrow> repair_error + rw_op list" where
  "respace Y rd rows needs = respace_from Y rd needs [] (sort_stable order_row_before rows)"

definition equal_order :: "yaml \<Rightarrow> reads \<Rightarrow> repair_row list \<Rightarrow> repair_error + rw_op list" where
  "equal_order Y rd rows =
     (let v = valid_order_rows rows in
      respace Y rd v (\<lambda>r. length (filter (\<lambda>q. rp_order q = rp_order r) v) > 1))"

definition long_order :: "yaml \<Rightarrow> reads \<Rightarrow> repair_row list \<Rightarrow> repair_error + rw_op list" where
  "long_order Y rd rows = respace Y rd (valid_order_rows rows) (\<lambda>r. length (rp_order r) > order_long_threshold)"

section \<open>The archive boundary\<close>

definition archive_move :: "reads \<Rightarrow> string \<Rightarrow> repair_row \<Rightarrow> bool \<Rightarrow> repair_error + rw_op" where
  "archive_move rd dir r terminal =
     rbind (read_file rd (rp_path r)) (\<lambda>raw.
       let base = path_base (rp_path r) in
       Inr \<lparr>op_old = rp_path r,
            op_new = (if terminal then path_join (path_join dir archive_dir) base else path_join dir base),
            op_content = raw\<rparr>)"

definition same_content :: "reads \<Rightarrow> string \<Rightarrow> string \<Rightarrow> repair_error + bool" where
  "same_content rd a b = rbind (read_file rd a) (\<lambda>ra. rbind (read_file rd b) (\<lambda>rb. Inr (ra = rb)))"

fun any_same :: "reads \<Rightarrow> (string \<times> string) list \<Rightarrow> repair_error + bool" where
  "any_same rd [] = Inr False"
| "any_same rd ((a, b) # ps) = rbind (same_content rd a b) (\<lambda>same. if same then Inr True else any_same rd ps)"

definition interrupted_move :: "reads \<Rightarrow> string \<Rightarrow> repair_row list \<Rightarrow> repair_error + bool" where
  "interrupted_move rd dir rows =
     (let atRoot = filter (\<lambda>r. path_dir (rp_path r) = dir) rows;
          archived = filter (\<lambda>r. path_dir (rp_path r) \<noteq> dir \<and> path_dir (rp_path r) = path_join dir archive_dir) rows in
      any_same rd (List.product (map rp_path atRoot) (map rp_path archived)))"

section \<open>Respacing\<close>

interpretation order_rows: keeper_order order_row_before
  by unfold_locales (auto simp: order_row_before_def split: if_splits)

lemma order_rows_sorted: "sorted (map rp_order (sort_stable order_row_before rows))"
proof -
  have "sorted_wrt (\<lambda>x y. rp_order x \<le> rp_order y) (sort_stable order_row_before rows)"
    by (rule sorted_wrt_mono_rel [OF _ order_rows.sort_in_order]) (auto simp: order_row_before_def split: if_splits)
  then show ?thesis by (simp add: sorted_map)
qed

definition changed_op :: "yaml \<Rightarrow> reads \<Rightarrow> repair_row \<times> string \<Rightarrow> repair_error + rw_op option" where
  "changed_op Y rd a =
     (if snd a = rp_order (fst a) then Inr None else map_sum id Some (order_rewrite_op Y rd (rp_path (fst a)) (snd a)))"

fun new_keys :: "(repair_row \<Rightarrow> bool) \<Rightarrow> string \<Rightarrow> repair_row list \<Rightarrow> string list option" where
  "new_keys needs prev [] = Some []"
| "new_keys needs prev (r # rest) =
     (if \<not> needs r then map_option ((#) (rp_order r)) (new_keys needs (rp_order r) rest)
      else case key_between prev (right_anchor needs rest) of
             Inl e \<Rightarrow> None
           | Inr k \<Rightarrow> map_option ((#) k) (new_keys needs k rest))"

lemma changed_op_simps:
  "changed_op Y rd (r, rp_order r) = Inr None"
  "k \<noteq> rp_order r \<Longrightarrow> order_rewrite_op Y rd (rp_path r) k = Inr x \<Longrightarrow> changed_op Y rd (r, k) = Inr (Some x)"
  by (simp_all add: changed_op_def)

lemma respace_from_new_keys:
  "respace_from Y rd needs prev rows = Inr ops \<Longrightarrow>
     \<exists>keys. new_keys needs prev rows = Some keys \<and> gather_ops (changed_op Y rd) (zip rows keys) = Inr ops"
proof (induction rows arbitrary: prev ops)
  case (Cons r rest)
  show ?case
  proof (cases "needs r")
    case False
    with Cons.prems have "respace_from Y rd needs (rp_order r) rest = Inr ops" by simp
    from Cons.IH [OF this] obtain keys where "new_keys needs (rp_order r) rest = Some keys"
      "gather_ops (changed_op Y rd) (zip rest keys) = Inr ops" by (elim exE conjE)
    with False show ?thesis by (simp add: changed_op_simps)
  next
    case True
    then obtain k where k: "key_between prev (right_anchor needs rest) = Inr k"
      using Cons.prems by (cases "key_between prev (right_anchor needs rest)") (auto simp: Let_def)
    show ?thesis
    proof (cases "k = rp_order r")
      case same: True
      with Cons.prems True k have "respace_from Y rd needs k rest = Inr ops" by (simp add: Let_def)
      from Cons.IH [OF this] obtain keys where "new_keys needs k rest = Some keys"
        "gather_ops (changed_op Y rd) (zip rest keys) = Inr ops" by (elim exE conjE)
      with same True k show ?thesis by (simp add: changed_op_simps)
    next
      case new: False
      obtain x o1 where x: "order_rewrite_op Y rd (rp_path r) k = Inr x" and o1: "respace_from Y rd needs k rest = Inr o1"
        and ops: "ops = x # o1"
        using Cons.prems True k new
        by (cases "respace_from Y rd needs k rest") (auto simp: Let_def rbind_Inr_iff)
      from Cons.IH [OF o1] obtain keys where "new_keys needs k rest = Some keys"
        "gather_ops (changed_op Y rd) (zip rest keys) = Inr o1" by (elim exE conjE)
      with x ops True k new show ?thesis by (simp add: changed_op_simps)
    qed
  qed
qed simp

lemma find_right_anchor:
  assumes "sorted (map rp_order rest)" "\<forall>q \<in> set rest. rp_order q \<noteq> []" "a \<in> set rest" "\<not> needs a"
  shows "right_anchor needs rest \<noteq> [] \<and> right_anchor needs rest \<le> rp_order a"
  using assms by (induction rest) (auto simp: right_anchor_def)

text \<open>The order that the new keys keep: strictly up wherever one of the two keys is new.\<close>

definition key_step :: "(repair_row \<Rightarrow> bool) \<Rightarrow> repair_row \<times> string \<Rightarrow> repair_row \<times> string \<Rightarrow> bool" where
  "key_step needs a b \<longleftrightarrow> (if needs (fst a) \<or> needs (fst b) then snd a < snd b else snd a \<le> snd b)"

definition key_above :: "(repair_row \<Rightarrow> bool) \<Rightarrow> bool \<Rightarrow> string \<Rightarrow> repair_row \<times> string \<Rightarrow> bool" where
  "key_above needs fresh prev a \<longleftrightarrow> prev = [] \<or> (if fresh \<or> needs (fst a) then prev < snd a else prev \<le> snd a)"

definition key_fits :: "(repair_row \<Rightarrow> bool) \<Rightarrow> repair_row \<times> string \<Rightarrow> bool" where
  "key_fits needs a \<longleftrightarrow> (if needs (fst a) then valid (snd a) else snd a = rp_order (fst a))"

lemma key_above_step: "key_above needs fresh (rp_order q) b \<Longrightarrow> rp_order q \<noteq> [] \<Longrightarrow> fresh = needs q \<Longrightarrow> key_step needs (q, rp_order q) b"
  by (auto simp: key_above_def key_step_def split: if_splits)

lemma key_above_trans:
  assumes "key_above needs f1 prev (q, k)" "key_above needs (needs q) k b" "k \<noteq> []"
  shows "key_above needs f1 prev b"
  using assms by (auto simp: key_above_def split: if_splits)

lemma new_keys_order:
  assumes "new_keys needs prev rows = Some keys" "sorted (map rp_order rows)" "\<forall>q \<in> set rows. rp_order q \<noteq> []"
    and det: "\<And>a b. rp_order a = rp_order b \<Longrightarrow> needs a = needs b"
    and above: "\<And>a. a \<in> set rows \<Longrightarrow> \<not> needs a \<Longrightarrow> key_above needs fresh prev (a, rp_order a)"
  shows "length keys = length rows \<and> sorted_wrt (key_step needs) (zip rows keys) \<and>
    (\<forall>x \<in> set (zip rows keys). key_fits needs x \<and> key_above needs fresh prev x)"
  using assms(1-3) above
proof (induction rows arbitrary: prev fresh keys)
  case (Cons r rest)
  have rest: "sorted (map rp_order rest)" "\<forall>q \<in> set rest. rp_order q \<noteq> []" and r: "rp_order r \<noteq> []"
    using Cons.prems(2,3) by auto
  have le: "rp_order r \<le> rp_order q" if "q \<in> set rest" for q using Cons.prems(2) that by auto
  obtain k ks where keys: "keys = k # ks" and run: "new_keys needs k rest = Some ks"
    and k: "if needs r then key_between prev (right_anchor needs rest) = Inr k else k = rp_order r"
    using Cons.prems(1) by (auto split: if_splits sum.splits)
  have up: "key_above needs (needs r) k (a, rp_order a)" if "a \<in> set rest" "\<not> needs a" for a
    using k le [OF that(1)] find_right_anchor [of rest a needs] rest that key_between_Inr [of prev "right_anchor needs rest" k]
    by (auto simp: key_above_def split: if_splits)
  have head: "key_above needs fresh prev (r, k)" and fits: "key_fits needs (r, k)" and ne: "k \<noteq> []"
    using k r key_between_Inr [of prev "right_anchor needs rest" k] Cons.prems(4) [of r] valid_not_nil [of k]
    by (auto simp: key_above_def key_fits_def split: if_splits)
  from Cons.IH [OF run rest, of "needs r"] up
  have IH: "length ks = length rest" "sorted_wrt (key_step needs) (zip rest ks)"
    "\<And>x. x \<in> set (zip rest ks) \<Longrightarrow> key_fits needs x \<and> key_above needs (needs r) k x" by blast+
  have "key_step needs (r, k) x" if "x \<in> set (zip rest ks)" for x
    using IH(3) [OF that] ne by (auto simp: key_above_def key_step_def split: if_splits)
  moreover have "key_above needs fresh prev x" if "x \<in> set (zip rest ks)" for x
    using key_above_trans [OF head _ ne] IH(3) [OF that] by blast
  ultimately show ?case using IH fits head by (simp add: keys)
qed simp

definition file_model :: "yaml \<Rightarrow> reads \<Rightarrow> string \<Rightarrow> (fm_model \<times> string) option" where
  "file_model Y rd path =
     (case rd path of
        ReadOk raw \<Rightarrow>
          (case split_fence raw of
             (interior, body, present) \<Rightarrow>
               if present then (case parse_fm Y interior of Inl e \<Rightarrow> None | Inr m \<Rightarrow> Some (m, body)) else None)
      | _ \<Rightarrow> None)"

text \<open>What \<open>orderRewriteOp\<close> answers: the file as it is, with another order key.\<close>

definition reorders :: "yaml \<Rightarrow> reads \<Rightarrow> repair_row \<times> string \<Rightarrow> rw_op \<Rightarrow> bool" where
  "reorders Y rd a x \<longleftrightarrow>
     (\<exists>m body interior. file_model Y rd (rp_path (fst a)) = Some (m, body) \<and>
        serialize Y (m\<lparr>fm_order := snd a\<rparr>) = Inr interior \<and>
        x = \<lparr>op_old = rp_path (fst a), op_new = rp_path (fst a), op_content = compose interior body\<rparr>)"

lemma render_ticket_Inr: "render_ticket Y m body = Inr c \<longleftrightarrow> (\<exists>i. serialize Y m = Inr i \<and> c = compose i body)"
  by (auto simp: render_ticket_def split: sum.splits)

lemma read_file_Inr: "read_file rd p = Inr s \<longleftrightarrow> rd p = ReadOk s"
  by (auto simp: read_file_def split: read_result.splits)


lemma file_model_Some:
  "file_model Y rd p = Some (m, body) \<longleftrightarrow>
     (\<exists>raw interior. rd p = ReadOk raw \<and> split_fence raw = (interior, body, True) \<and> parse_fm Y interior = Inr m)"
  by (auto simp: file_model_def split: read_result.splits prod.splits if_splits sum.splits)

lemma order_rewrite_op_Inr:
  assumes "order_rewrite_op Y rd path k = Inr x"
  shows "\<exists>m body interior. file_model Y rd path = Some (m, body) \<and> serialize Y (m\<lparr>fm_order := k\<rparr>) = Inr interior \<and>
    x = \<lparr>op_old = path, op_new = path, op_content = compose interior body\<rparr>"
proof -
  obtain raw where raw: "rd path = ReadOk raw" using assms by (auto simp: order_rewrite_op_def rbind_Inr_iff read_file_Inr)
  obtain interior body present where s: "split_fence raw = (interior, body, present)" by (cases "split_fence raw")
  obtain m where m: "present" "parse_fm Y interior = Inr m"
    using assms raw s by (cases "parse_fm Y interior") (auto simp: order_rewrite_op_def read_file_def split: if_splits)
  then have "file_model Y rd path = Some (m, body)" using raw s by (auto simp: file_model_Some)
  moreover obtain i where "serialize Y (m\<lparr>fm_order := k\<rparr>) = Inr i" "x = \<lparr>op_old = path, op_new = path, op_content = compose i body\<rparr>"
    using assms raw s m by (auto simp: order_rewrite_op_def read_file_def map_sum_Inr render_ticket_Inr)
  ultimately show ?thesis by blast
qed

lemma changed_op_some: "changed_op Y rd a = Inr (Some x) \<Longrightarrow> snd a \<noteq> rp_order (fst a) \<and> reorders Y rd a x"
  using order_rewrite_op_Inr [of Y rd "rp_path (fst a)" "snd a"]
  by (auto simp: changed_op_def map_sum_Inr reorders_def split: if_splits)

lemma changed_op_none: "changed_op Y rd a = Inr None \<longleftrightarrow> snd a = rp_order (fst a)"
  by (auto simp: changed_op_def map_sum_Inr)

lemma gather_ops_mem: "gather_ops f xs = Inr ops \<Longrightarrow> x \<in> set ops \<Longrightarrow> \<exists>y \<in> set xs. f y = Inr (Some x)"
proof (induction xs arbitrary: ops)
  case (Cons y ys)
  then obtain r o1 where "f y = Inr r" "gather_ops f ys = Inr o1" "ops = (case r of None \<Rightarrow> o1 | Some z \<Rightarrow> z # o1)"
    by (auto simp: rbind_Inr_iff map_sum_Inr)
  with Cons.IH [of o1] Cons.prems(2) show ?case by (cases r) auto
qed simp

lemma gather_ops_Inr:
  "gather_ops f xs = Inr ops \<Longrightarrow> list_all2 (\<lambda>x y. f x = Inr (Some y)) (filter (\<lambda>x. f x \<noteq> Inr None) xs) ops"
proof (induction xs arbitrary: ops)
  case (Cons x xs)
  then obtain r o1 where "f x = Inr r" "gather_ops f xs = Inr o1" "ops = (case r of None \<Rightarrow> o1 | Some y \<Rightarrow> y # o1)"
    by (auto simp: rbind_Inr_iff map_sum_Inr)
  with Cons.IH show ?case by (cases r) auto
qed simp

definition respaced :: "yaml \<Rightarrow> reads \<Rightarrow> repair_row list \<Rightarrow> (repair_row \<Rightarrow> bool) \<Rightarrow> string list \<Rightarrow> rw_op list \<Rightarrow> bool" where
  "respaced Y rd rows needs keys ops \<longleftrightarrow>
     length keys = length rows \<and> (\<forall>x \<in> set (zip rows keys). key_fits needs x) \<and>
     list_all2 (reorders Y rd) (filter (\<lambda>x. snd x \<noteq> rp_order (fst x)) (zip rows keys)) ops"

lemma respace_Inr:
  assumes "respace Y rd rows needs = Inr ops" "\<forall>r \<in> set rows. valid (rp_order r)"
    and det: "\<And>a b. rp_order a = rp_order b \<Longrightarrow> needs a = needs b"
  shows "\<exists>keys. respaced Y rd (sort_stable order_row_before rows) needs keys ops \<and>
    sorted_wrt (key_step needs) (zip (sort_stable order_row_before rows) keys)"
proof -
  let ?rows = "sort_stable order_row_before rows"
  obtain keys where k: "new_keys needs [] ?rows = Some keys" and g: "gather_ops (changed_op Y rd) (zip ?rows keys) = Inr ops"
    using respace_from_new_keys [OF assms(1) [unfolded respace_def]] by (elim exE conjE)
  have "length keys = length ?rows \<and> sorted_wrt (key_step needs) (zip ?rows keys) \<and>
    (\<forall>x \<in> set (zip ?rows keys). key_fits needs x \<and> key_above needs False [] x)"
    by (rule new_keys_order [OF k order_rows_sorted _ det])
      (use assms(2) valid_not_nil in \<open>auto simp: key_above_def\<close>)
  moreover have "list_all2 (reorders Y rd) (filter (\<lambda>x. snd x \<noteq> rp_order (fst x)) (zip ?rows keys)) ops"
    using gather_ops_Inr [OF g] unfolding changed_op_none
    by (rule list_all2_mono) (use changed_op_some in blast)
  ultimately show ?thesis unfolding respaced_def by blast
qed

lemma tied_twice:
  assumes "i < j" "j < length l" "f (l ! i) = f (l ! j)"
  shows "length (filter (\<lambda>q. f q = f (l ! i)) l) > 1"
proof -
  have "l = take i l @ l ! i # drop (Suc i) l" using assms by (simp add: id_take_nth_drop)
  moreover have "l ! j \<in> set (drop (Suc i) l)" using assms by (auto simp: in_set_conv_nth intro!: exI [of _ "j - Suc i"])
  ultimately have "\<exists>b a1 a2. l = b @ l ! i # a1 @ l ! j # a2" by (metis append.assoc append_Cons split_list)
  then obtain b a1 a2 where "l = b @ l ! i # a1 @ l ! j # a2" by blast
  then have "length (filter (\<lambda>q. f q = f (l ! i)) l) = length (filter (\<lambda>q. f q = f (l ! i)) (b @ l ! i # a1 @ l ! j # a2))" by simp
  then show ?thesis using assms(3) by simp
qed

text \<open>C28. Re-spacing tied order keys: the rows, in the order of their keys and ids, get new keys that go strictly up, so
  no tie is left and nobody changes place; a row whose key was its own keeps it, a new key is a legal key, and the
  operations rewrite in place exactly the files whose key changed, and in them only the key.\<close>

theorem equal_order_respaces:
  assumes "equal_order Y rd rows = Inr ops"
  shows "\<exists>keys. sorted_wrt (<) keys \<and>
    respaced Y rd (sort_stable order_row_before (valid_order_rows rows))
      (\<lambda>r. length (filter (\<lambda>q. rp_order q = rp_order r) (valid_order_rows rows)) > 1) keys ops"
proof -
  let ?v = "valid_order_rows rows" and ?s = "sort_stable order_row_before (valid_order_rows rows)"
  let ?needs = "\<lambda>r. length (filter (\<lambda>q. rp_order q = rp_order r) ?v) > 1"
  obtain keys where k: "respaced Y rd ?s ?needs keys ops" and step: "sorted_wrt (key_step ?needs) (zip ?s keys)"
    using respace_Inr [OF assms [unfolded equal_order_def Let_def]] by (auto simp: valid_order_rows_def)
  have len: "length keys = length ?s" using k by (simp add: respaced_def)
  have "keys ! i < keys ! j" if ij: "i < j" "j < length keys" for i j
  proof (cases "?needs (?s ! i) \<or> ?needs (?s ! j)")
    case True
    with sorted_wrt_nth_less [OF step ij(1)] ij len show ?thesis by (auto simp: key_step_def split: if_splits)
  next
    case False
    have same: "length (filter (\<lambda>q. rp_order q = c) ?s) = length (filter (\<lambda>q. rp_order q = c) ?v)" for c
      by (metis mset_filter mset_sort_stable size_mset)
    have "(?s ! i, keys ! i) \<in> set (zip ?s keys)" "(?s ! j, keys ! j) \<in> set (zip ?s keys)"
      using ij len by (auto simp: set_zip)
    then have "keys ! i = rp_order (?s ! i)" "keys ! j = rp_order (?s ! j)"
      using k False by (auto simp: respaced_def key_fits_def)
    moreover have "rp_order (?s ! i) \<noteq> rp_order (?s ! j)"
      using tied_twice [of i j ?s rp_order] False same [of "rp_order (?s ! i)"] ij len by auto
    moreover have "rp_order (?s ! i) \<le> rp_order (?s ! j)"
      using sorted_nth_mono [OF order_rows_sorted, of i j ?v] ij len by simp
    ultimately show ?thesis by simp
  qed
  then have "sorted_wrt (<) keys" by (simp add: sorted_wrt_iff_nth_less)
  with k show ?thesis by blast
qed

definition tied_table :: "(fm_model \<times> string) list" where
  "tied_table = [(doc_ticket ''app-abcd'' ''todo'' [] ''a0'', line_of ''A''), (doc_ticket ''app-efgh'' ''todo'' [] ''a0'', line_of ''B''),
     (doc_ticket ''app-efgh'' ''todo'' [] ''a1'', line_of ''C'')]"

definition tied_disk :: disk where
  "tied_disk = mc_disk (machine_of [(''/s/app-abcd-x.md'', compose (line_of ''A'') ''# T''),
     (''/s/app-efgh-y.md'', compose (line_of ''B'') ''# U'')])"

definition tied_row :: "string \<Rightarrow> string \<Rightarrow> repair_row" where
  "tied_row full p = \<lparr>rp_path = p, rp_full = full, rp_short = [], rp_order = ''a0'', rp_fault = False\<rparr>"

definition tied_rows :: "repair_row list" where
  "tied_rows = [tied_row ''app-efgh'' ''/s/app-efgh-y.md'', tied_row ''app-abcd'' ''/s/app-abcd-x.md'']"

theorem equal_order_respaces_witness:
  "\<exists>keys. sorted_wrt (<) keys \<and>
    respaced (table_codec tied_table) (reads_of tied_disk) (sort_stable order_row_before (valid_order_rows tied_rows))
      (\<lambda>r. length (filter (\<lambda>q. rp_order q = rp_order r) (valid_order_rows tied_rows)) > 1) keys
      [\<lparr>op_old = ''/s/app-efgh-y.md'', op_new = ''/s/app-efgh-y.md'', op_content = compose (line_of ''C'') ''# U''\<rparr>]"
proof -
  have "equal_order (table_codec tied_table) (reads_of tied_disk) tied_rows =
      Inr [\<lparr>op_old = ''/s/app-efgh-y.md'', op_new = ''/s/app-efgh-y.md'', op_content = compose (line_of ''C'') ''# U''\<rparr>]"
    by code_simp
  then show ?thesis by (rule equal_order_respaces)
qed

end
