(* ===== verification/Prefixes.thy ===== *)
theory Prefixes
  imports Repairs
begin

text \<open>
  The adoption of files with a foreign id prefix, \<open>internal/repair/prefix.go\<close>: new ids for the files, who
  inherits an old id, the references inside the scope, and the resumption of a run that died. The pointers of the
  code are values here: \<open>assignPinned\<close> answers the adoptees with their new ids set. Go maps are lists of pairs.
\<close>

section \<open>Data\<close>

record prefix_rename =
  pr_old_id :: string
  pr_new_id :: string
  pr_old_path :: string
  pr_new_path :: string
  pr_claimed :: "string list"

record adoptee =
  ad_path :: string
  ad_filename_id :: string
  ad_base :: string
  ad_design :: bool
  ad_raw :: string
  ad_model :: "fm_model option"
  ad_body :: string
  ad_short :: string
  ad_new_id :: string
  ad_new_path :: string

record resume_hit =
  rh_path :: string
  rh_short :: string
  rh_raw :: string

section \<open>Loading\<close>

definition read_adoptee :: "yaml \<Rightarrow> reads \<Rightarrow> string \<Rightarrow> prefix_mismatch \<Rightarrow> repair_error + adoptee" where
  "read_adoptee Y rd dir f =
     rbind (read_file rd (pm_path f)) (\<lambda>raw.
       let a = \<lparr>ad_path = pm_path f, ad_filename_id = pm_id f, ad_base = path_base (pm_path f),
                ad_design = (path_dir (pm_path f) = path_join dir design_dir), ad_raw = raw, ad_model = None, ad_body = [],
                ad_short = trim_prefix (scope_of_full_id (pm_id f) @ ''-'') (pm_id f), ad_new_id = [], ad_new_path = []\<rparr> in
       case split_fence raw of
         (interior, body, present) \<Rightarrow>
           if \<not> present then Inr a
           else case parse_fm Y interior of
                  Inl e \<Rightarrow> Inr a
                | Inr m \<Rightarrow>
                    let a1 = a\<lparr>ad_model := Some m, ad_body := body\<rparr> in
                    Inr (if is_full_ticket_id (fm_id m)
                         then a1\<lparr>ad_short := trim_prefix (scope_of_full_id (fm_id m) @ ''-'') (fm_id m)\<rparr> else a1))"

fun load_adoptees :: "yaml \<Rightarrow> reads \<Rightarrow> string \<Rightarrow> prefix_mismatch list \<Rightarrow> repair_error + adoptee list" where
  "load_adoptees Y rd dir [] = Inr []"
| "load_adoptees Y rd dir (f # fs) =
     rbind (read_adoptee Y rd dir f) (\<lambda>a. map_sum id ((#) a) (load_adoptees Y rd dir fs))"

definition adoptee_member :: "adoptee \<Rightarrow> member" where
  "adoptee_member a =
     \<lparr>m_created = (case ad_model a of None \<Rightarrow> [] | Some m \<Rightarrow> fm_created m), m_basename = ad_base a, m_raw = ad_raw a, m_path = ad_path a\<rparr>"

definition adoptee_before :: "externals \<Rightarrow> adoptee \<Rightarrow> adoptee \<Rightarrow> bool" where
  "adoptee_before X a b = keep_before X (adoptee_member a) (adoptee_member b)"

section \<open>References\<close>

fun map_ids :: "(string \<times> string) list \<Rightarrow> string set \<Rightarrow> string list \<Rightarrow> string list \<times> bool" where
  "map_ids mapped seen [] = ([], False)"
| "map_ids mapped seen (e # es) =
     (let v = (case map_of mapped e of Some n \<Rightarrow> n | None \<Rightarrow> e) in
      if v \<in> seen then (case map_ids mapped seen es of (out, changed) \<Rightarrow> (out, v \<noteq> e \<or> changed))
      else case map_ids mapped (insert v seen) es of (out, changed) \<Rightarrow> (v # out, v \<noteq> e \<or> changed))"

definition apply_id_map :: "string list \<Rightarrow> (string \<times> string) list \<Rightarrow> string list \<times> bool" where
  "apply_id_map xs mapped =
     (if length xs = 0 then (xs, False)
      else case map_ids mapped {} xs of (out, changed) \<Rightarrow> if \<not> changed then (xs, False) else (out, True))"

definition rewrite_produces :: "fm_model \<Rightarrow> (string \<times> string) list \<Rightarrow> fm_model \<times> bool" where
  "rewrite_produces m mapped =
     (case dropWhile (\<lambda>f. fst f \<noteq> key_produces) (fm_custom m) of
        [] \<Rightarrow> (m, False)
      | f # after \<Rightarrow>
          (case string_list (snd f) of
             Inl _ \<Rightarrow> (m, False)
           | Inr ids \<Rightarrow>
               (case apply_id_map ids mapped of
                  (out, changed) \<Rightarrow>
                    if \<not> changed then (m, False)
                    else if length out = 0 then (fst (remove_custom m key_produces), True)
                    else (m\<lparr>fm_custom := takeWhile (\<lambda>f. fst f \<noteq> key_produces) (fm_custom m) @ (fst f, VStrs out) # after\<rparr>, True))))"

definition apply_links :: "fm_model \<Rightarrow> (string \<times> string) list \<Rightarrow> fm_model \<times> bool" where
  "apply_links m mapped =
     (let (dep, c1) = apply_id_map (fm_depends m) mapped;
          (rel, c2) = apply_id_map (fm_related m) mapped;
          (m', c3) = rewrite_produces (m\<lparr>fm_depends := dep, fm_related := rel\<rparr>) mapped in
      (m', c1 \<or> c2 \<or> c3))"

definition render_file :: "yaml \<Rightarrow> bool \<Rightarrow> fm_model \<Rightarrow> string \<Rightarrow> repair_error + string" where
  "render_file Y isDesign m body = (if isDesign then render_design Y m body else render_ticket Y m body)"

definition adoptee_content :: "yaml \<Rightarrow> adoptee \<Rightarrow> (string \<times> string) list \<Rightarrow> repair_error + string" where
  "adoptee_content Y a mapped =
     (case ad_model a of
        None \<Rightarrow> Inr (ad_raw a)
      | Some m \<Rightarrow>
          let idChanged = is_full_ticket_id (fm_id m) \<and> fm_id m \<noteq> ad_new_id a;
              m1 = (if idChanged then m\<lparr>fm_id := ad_new_id a\<rparr> else m);
              (m2, changed) = apply_links m1 mapped in
          if \<not> idChanged \<and> \<not> changed then Inr (ad_raw a) else render_file Y (ad_design a) m2 (ad_body a))"

definition foreign_ids :: "string \<Rightarrow> adoptee \<Rightarrow> string list" where
  "foreign_ids scope a =
     first_seen {} (filter (\<lambda>old. is_full_ticket_id old \<and> scope_of_full_id old \<noteq> scope)
       (ad_filename_id a # (case ad_model a of None \<Rightarrow> [] | Some m \<Rightarrow> [fm_id m])))"

text \<open>\<open>claimKeptIDs\<close>: an old id goes to the file the keeper order puts first among its bearers.\<close>

definition claimant :: "externals \<Rightarrow> string \<Rightarrow> adoptee list \<Rightarrow> string \<Rightarrow> adoptee" where
  "claimant X scope ads old = hd (sort_stable (adoptee_before X) (filter (\<lambda>a. old \<in> set (foreign_ids scope a)) ads))"

definition claimed_olds :: "string \<Rightarrow> adoptee list \<Rightarrow> string set \<Rightarrow> string list" where
  "claimed_olds scope ads owned = sort (first_seen {} (filter (\<lambda>old. old \<notin> owned) (concat (map (foreign_ids scope) ads))))"

definition claim_kept_ids ::
    "externals \<Rightarrow> string \<Rightarrow> adoptee list \<Rightarrow> string set \<Rightarrow> (string \<times> string) list \<times> (string \<Rightarrow> string list)" where
  "claim_kept_ids X scope ads owned =
     (let olds = claimed_olds scope ads owned in
      (map (\<lambda>old. (old, ad_new_id (claimant X scope ads old))) olds,
       \<lambda>p. filter (\<lambda>old. ad_path (claimant X scope ads old) = p) olds))"

section \<open>New ids\<close>

definition take_short :: "string \<Rightarrow> string set \<Rightarrow> extend_error + (string \<times> string set)" where
  "take_short short taken =
     (if short \<notin> taken then Inr (short, insert short taken)
      else map_sum id (\<lambda>ext. (ext, insert ext taken)) (Ids.extend short taken))"

type_synonym pins = "(string \<times> resume_hit) list"

fun assign_each :: "string \<Rightarrow> pins \<Rightarrow> string set \<Rightarrow> adoptee list \<Rightarrow> repair_error + adoptee list" where
  "assign_each scope pins taken [] = Inr []"
| "assign_each scope pins taken (a # as) =
     (case map_of pins (ad_path a) of
        Some hit \<Rightarrow>
          map_sum id ((#) (a\<lparr>ad_new_id := full_id scope (rh_short hit), ad_new_path := rh_path hit\<rparr>))
            (assign_each scope pins taken as)
      | None \<Rightarrow>
          (case take_short (ad_short a) taken of
             Inl e \<Rightarrow> Inl (AdoptExtend (ad_path a) e)
           | Inr (got, taken') \<Rightarrow>
               let newID = full_id scope got in
               map_sum id ((#) (a\<lparr>ad_new_id := newID, ad_new_path := path_join (path_dir (ad_path a)) (new_basename (ad_base a) newID)\<rparr>))
                 (assign_each scope pins taken' as)))"

definition in_groups :: "externals \<Rightarrow> adoptee list \<Rightarrow> adoptee list" where
  "in_groups X ads =
     concat (map (\<lambda>short. sort_stable (adoptee_before X) (filter (\<lambda>a. ad_short a = short) ads))
       (sort (first_seen {} (map ad_short ads))))"

definition pinned_taken :: "occupied \<Rightarrow> pins \<Rightarrow> string list \<Rightarrow> string set" where
  "pinned_taken occ pins excluded =
     (let skip = set (map (rh_path \<circ> snd) pins) \<union> set excluded in
      set (map fst (filter (\<lambda>(short, path). path \<notin> skip) occ)) \<union> set (map (rh_short \<circ> snd) pins))"

definition assign_pinned ::
    "externals \<Rightarrow> string \<Rightarrow> adoptee list \<Rightarrow> occupied \<Rightarrow> pins \<Rightarrow> string list \<Rightarrow> repair_error + adoptee list" where
  "assign_pinned X scope ads occ pins excluded =
     assign_each scope pins (pinned_taken occ pins excluded) (in_groups X ads)"

section \<open>Resuming\<close>

definition same_body :: "yaml \<Rightarrow> adoptee \<Rightarrow> string \<Rightarrow> bool" where
  "same_body Y a raw =
     (if ad_model a = None then raw = ad_raw a
      else case split_fence raw of
             (interior, body, present) \<Rightarrow>
               if \<not> present then False
               else case parse_fm Y interior of Inl e \<Rightarrow> False | Inr m \<Rightarrow> body = ad_body a)"

definition hit_before :: "resume_hit \<Rightarrow> resume_hit \<Rightarrow> bool" where
  "hit_before x y \<longleftrightarrow>
     (if length (rh_short x) \<noteq> length (rh_short y) then length (rh_short x) < length (rh_short y)
      else if rh_short x \<noteq> rh_short y then rh_short x < rh_short y
      else rh_path x < rh_path y)"

definition candidate_name :: "string \<Rightarrow> adoptee \<Rightarrow> string \<Rightarrow> string option" where
  "candidate_name scope a name =
     (case ticket_id_from_base name of
        None \<Rightarrow> None
      | Some full \<Rightarrow>
          if scope_of_full_id full \<noteq> scope then None
          else
            let short = trim_prefix (scope @ ''-'') full in
            if \<not> short_in_family short (ad_short a) \<or> new_basename (ad_base a) full \<noteq> name then None else Some short)"

fun candidate_hits :: "yaml \<Rightarrow> reads \<Rightarrow> string \<Rightarrow> adoptee \<Rightarrow> string list \<Rightarrow> repair_error + resume_hit list" where
  "candidate_hits Y rd scope a [] = Inr []"
| "candidate_hits Y rd scope a (name # names) =
     (let path = path_join (path_dir (ad_path a)) name in
      case candidate_name scope a name of
        None \<Rightarrow> candidate_hits Y rd scope a names
      | Some short \<Rightarrow>
          if path = ad_path a then candidate_hits Y rd scope a names
          else
            rbind (read_file rd path) (\<lambda>raw.
              if \<not> same_body Y a raw then candidate_hits Y rd scope a names
              else map_sum id ((#) \<lparr>rh_path = path, rh_short = short, rh_raw = raw\<rparr>) (candidate_hits Y rd scope a names)))"

definition adopt_candidates :: "yaml \<Rightarrow> disk \<Rightarrow> reads \<Rightarrow> string \<Rightarrow> adoptee \<Rightarrow> repair_error + resume_hit list" where
  "adopt_candidates Y k rd scope a =
     (case read_dir k (path_dir (ad_path a)) of
        None \<Rightarrow> Inl (RepairListing (path_dir (ad_path a)))
      | Some names \<Rightarrow> map_sum id (sort_stable hit_before) (candidate_hits Y rd scope a names))"

text \<open>What the planning passes around.\<close>

record adopt_plan =
  ap_scope :: string
  ap_ads :: "adoptee list"
  ap_occ :: occupied
  ap_owned :: "string set"
  ap_cands :: "(string \<times> resume_hit list) list"

definition cand_paths :: "adopt_plan \<Rightarrow> string list" where
  "cand_paths P = concat (map (\<lambda>(p, hits). map rh_path hits) (ap_cands P))"

definition hit_fits :: "yaml \<Rightarrow> externals \<Rightarrow> adopt_plan \<Rightarrow> adoptee list \<Rightarrow> string \<Rightarrow> resume_hit \<Rightarrow> repair_error + bool" where
  "hit_fits Y X P ordered path hit =
     (let mapped = fst (claim_kept_ids X (ap_scope P) ordered (ap_owned P));
          got = hd (filter (\<lambda>a. ad_path a = path) ordered) in
      map_sum id (\<lambda>want. ad_new_id got = full_id (ap_scope P) (rh_short hit) \<and> want = rh_raw hit) (adoptee_content Y got mapped))"

text \<open>One adoptee tries its candidates in turn.\<close>

fun try_hits :: "yaml \<Rightarrow> externals \<Rightarrow> adopt_plan \<Rightarrow> string \<Rightarrow> (string \<times> string) set \<Rightarrow> pins \<Rightarrow> resume_hit list \<Rightarrow> repair_error + resume_hit option" where
  "try_hits Y X P path rejected accepted [] = Inr None"
| "try_hits Y X P path rejected accepted (hit # hits) =
     (if (path, rh_path hit) \<in> rejected then try_hits Y X P path rejected accepted hits
      else
        rbind (assign_pinned X (ap_scope P) (ap_ads P) (ap_occ P) (AList.update path hit accepted) (cand_paths P)) (\<lambda>ord.
        rbind (hit_fits Y X P ord path hit) (\<lambda>fits.
          if fits then Inr (Some hit) else try_hits Y X P path rejected accepted hits)))"

fun accept_round :: "yaml \<Rightarrow> externals \<Rightarrow> adopt_plan \<Rightarrow> (string \<times> string) set \<Rightarrow> pins \<Rightarrow> adoptee list \<Rightarrow> repair_error + (pins \<times> bool)" where
  "accept_round Y X P rejected accepted [] = Inr (accepted, False)"
| "accept_round Y X P rejected accepted (a # as) =
     (if map_of accepted (ad_path a) \<noteq> None then accept_round Y X P rejected accepted as
      else
        rbind (try_hits Y X P (ad_path a) rejected accepted (the (map_of (ap_cands P) (ad_path a)))) (\<lambda>r.
          case r of
            None \<Rightarrow> accept_round Y X P rejected accepted as
          | Some hit \<Rightarrow>
              map_sum id (\<lambda>(acc, p). (acc, True)) (accept_round Y X P rejected (AList.update (ad_path a) hit accepted) as)))"

text \<open>An accepted destination that does not stand with every file in view is retired.\<close>

fun retire :: "yaml \<Rightarrow> (string \<times> string) list \<Rightarrow> string \<Rightarrow> pins \<Rightarrow> adoptee list \<Rightarrow> repair_error + (string \<times> string) list" where
  "retire Y mapped scope accepted [] = Inr []"
| "retire Y mapped scope accepted (a # as) =
     (case map_of accepted (ad_path a) of
        None \<Rightarrow> retire Y mapped scope accepted as
      | Some hit \<Rightarrow>
          rbind (adoptee_content Y a mapped) (\<lambda>want.
            if ad_new_id a = full_id scope (rh_short hit) \<and> want = rh_raw hit then retire Y mapped scope accepted as
            else map_sum id ((#) (ad_path a, rh_path hit)) (retire Y mapped scope accepted as)))"

fun adopt_rounds :: "nat \<Rightarrow> yaml \<Rightarrow> externals \<Rightarrow> adopt_plan \<Rightarrow> (string \<times> string) set \<Rightarrow> pins \<Rightarrow> repair_error + pins" where
  "adopt_rounds 0 Y X P rejected accepted = Inr accepted"
| "adopt_rounds (Suc n) Y X P rejected accepted =
     rbind (accept_round Y X P rejected accepted (ap_ads P)) (\<lambda>(acc, progressed).
     rbind (assign_pinned X (ap_scope P) (ap_ads P) (ap_occ P) acc []) (\<lambda>ordered.
     rbind (retire Y (fst (claim_kept_ids X (ap_scope P) ordered (ap_owned P))) (ap_scope P) acc ordered) (\<lambda>bad.
       if length bad > 0 \<or> progressed
       then adopt_rounds n Y X P (rejected \<union> set bad) (filter (\<lambda>(p, h). p \<notin> fst ` set bad) acc)
       else Inr acc)))"

fun gather_candidates :: "yaml \<Rightarrow> disk \<Rightarrow> reads \<Rightarrow> string \<Rightarrow> adoptee list \<Rightarrow> repair_error + (string \<times> resume_hit list) list" where
  "gather_candidates Y k rd scope [] = Inr []"
| "gather_candidates Y k rd scope (a # as) =
     rbind (adopt_candidates Y k rd scope a) (\<lambda>hits. map_sum id ((#) (ad_path a, hits)) (gather_candidates Y k rd scope as))"

definition plan_prefix_ids ::
    "yaml \<Rightarrow> externals \<Rightarrow> disk \<Rightarrow> reads \<Rightarrow> string \<Rightarrow> string \<Rightarrow> adoptee list \<Rightarrow> string set \<Rightarrow>
     repair_error + (adoptee list \<times> (string \<times> string) list \<times> (string \<Rightarrow> string list))" where
  "plan_prefix_ids Y X k rd scope dir ads owned =
     (case occupied_short_paths Y k dir scope of
        None \<Rightarrow> Inl RepairOccupied
      | Some occ \<Rightarrow>
          rbind (gather_candidates Y k rd scope ads) (\<lambda>cands.
            let P = \<lparr>ap_scope = scope, ap_ads = ads, ap_occ = occ, ap_owned = owned, ap_cands = cands\<rparr> in
            rbind (adopt_rounds (length ads * 2 + 1) Y X P {} []) (\<lambda>accepted.
            rbind (assign_pinned X scope ads occ accepted []) (\<lambda>ordered.
              case claim_kept_ids X scope ordered owned of (mapped, claimed) \<Rightarrow> Inr (ordered, mapped, claimed)))))"

section \<open>Referrers\<close>

fun index_sub :: "string \<Rightarrow> string \<Rightarrow> nat option" where
  "index_sub needle [] = (if needle = [] then Some 0 else None)"
| "index_sub needle (c # cs) = (if prefix needle (c # cs) then Some 0 else map_option Suc (index_sub needle cs))"

definition is_ident_byte :: "char \<Rightarrow> bool" where
  "is_ident_byte c \<longleftrightarrow> CHR ''a'' \<le> c \<and> c \<le> CHR ''z'' \<or> CHR ''0'' \<le> c \<and> c \<le> CHR ''9''"

lemma index_sub_bound: "index_sub needle s = Some i \<Longrightarrow> i \<le> length s"
  by (induction s arbitrary: i) (auto split: if_splits)

function contains_exact_from :: "string \<Rightarrow> string \<Rightarrow> nat \<Rightarrow> bool" where
  "contains_exact_from b full start =
     (if start > length b then False
      else
        case index_sub full (drop start b) of
          None \<Rightarrow> False
        | Some j \<Rightarrow>
            let i = j + start; after = i + length full;
                beforeOK = (i = 0 \<or> \<not> is_ident_byte (b ! (i - 1)));
                afterOK = (after = length b \<or> index_byte (b ! after) short_id_alphabet = None) in
            if beforeOK \<and> afterOK then True else contains_exact_from b full (i + 1))"
  by pat_completeness auto
termination by (relation "measure (\<lambda>(b, full, start). Suc (length b) - start)") auto

declare contains_exact_from.simps [simp del]

definition contains_exact_full_id :: "string \<Rightarrow> string \<Rightarrow> bool" where
  "contains_exact_full_id b full = contains_exact_from b full 0"

definition first_mention :: "bool \<Rightarrow> string \<Rightarrow> string \<Rightarrow> string list \<Rightarrow> string set \<Rightarrow> string" where
  "first_mention present interior raw olds own =
     (let hay = (if present then interior else raw) in
      case find (\<lambda>old. old \<notin> own \<and> contains_exact_full_id hay old) olds of None \<Rightarrow> [] | Some old \<Rightarrow> old)"

definition rewrite_referrer ::
    "yaml \<Rightarrow> reads \<Rightarrow> string list \<Rightarrow> (string \<times> string) list \<Rightarrow> string set \<Rightarrow> (string \<Rightarrow> string set) \<Rightarrow> bool \<Rightarrow> string \<Rightarrow>
     repair_error + rw_op option" where
  "rewrite_referrer Y rd olds mapped skip borne isDesign p =
     rbind (read_file rd p) (\<lambda>raw.
       case split_fence raw of
         (interior, body, present) \<Rightarrow>
           (case (if present then parse_fm Y interior else Inl (NotAList [])) of
              Inl e \<Rightarrow>
                (let old = first_mention present interior raw olds (borne p) in
                 if old \<noteq> []
                 then Inl (RepairMention (case ticket_id_from_base (path_base p) of Some l \<Rightarrow> l | None \<Rightarrow> path_base p) old)
                 else Inr None)
            | Inr m \<Rightarrow>
                if p \<in> skip then Inr None
                else case apply_links m mapped of
                       (m', changed) \<Rightarrow>
                         if \<not> changed then Inr None
                         else map_sum id (\<lambda>content. Some \<lparr>op_old = p, op_new = p, op_content = content\<rparr>)
                                (render_file Y isDesign m' body)))"

definition design_paths :: "disk \<Rightarrow> string \<Rightarrow> repair_error + string list" where
  "design_paths k dir =
     (let root = path_join dir design_dir in
      case read_dir k root of
        None \<Rightarrow> if optional_dir_miss k root then Inr [] else Inl (RepairListing root)
      | Some names \<Rightarrow> Inr (sort (map (path_join root) (filter looks_like_ticket names))))"

definition plan_prefix_referrers ::
    "yaml \<Rightarrow> disk \<Rightarrow> reads \<Rightarrow> string \<Rightarrow> (string \<times> string) list \<Rightarrow> string set \<Rightarrow> (string \<Rightarrow> string set) \<Rightarrow> repair_error + rw_op list" where
  "plan_prefix_referrers Y k rd dir mapped skip borne =
     (if length mapped = 0 then Inr []
      else
        let olds = sort (map fst mapped) in
        case list_tickets k dir of
          None \<Rightarrow> Inl RepairTickets
        | Some tickets \<Rightarrow>
            rbind (gather_ops (rewrite_referrer Y rd olds mapped skip borne False) tickets) (\<lambda>ops1.
            rbind (design_paths k dir) (\<lambda>paths.
              map_sum id (\<lambda>ops2. ops1 @ ops2) (gather_ops (rewrite_referrer Y rd olds mapped skip borne True) paths))))"

section \<open>AdoptPrefix\<close>

fun plant_ops :: "yaml \<Rightarrow> (string \<times> string) list \<Rightarrow> adoptee list \<Rightarrow> repair_error + (rw_op \<times> rw_op) list" where
  "plant_ops Y mapped [] = Inr []"
| "plant_ops Y mapped (a # as) =
     rbind (adoptee_content Y a mapped) (\<lambda>content.
       map_sum id ((#) (\<lparr>op_old = [], op_new = ad_new_path a, op_content = content\<rparr>,
                        \<lparr>op_old = ad_path a, op_new = ad_new_path a, op_content = content\<rparr>)) (plant_ops Y mapped as))"

definition adopt_prefix ::
    "yaml \<Rightarrow> externals \<Rightarrow> disk \<Rightarrow> reads \<Rightarrow> string \<Rightarrow> string \<Rightarrow> string set \<Rightarrow> repair_error + (rw_op list \<times> prefix_rename list)" where
  "adopt_prefix Y X k rd scope dir owned =
     (case prefix_mismatches k dir scope of
        None \<Rightarrow> Inl (RepairListing dir)
      | Some files \<Rightarrow>
          if length files = 0 then Inr ([], [])
          else
            rbind (load_adoptees Y rd dir files) (\<lambda>ads.
            rbind (plan_prefix_ids Y X k rd scope dir ads owned) (\<lambda>(ordered, mapped, claimed).
              let byPath = sort_key ad_path ordered;
                  renames = map (\<lambda>a. \<lparr>pr_old_id = ad_filename_id a, pr_new_id = ad_new_id a, pr_old_path = ad_path a,
                                     pr_new_path = ad_new_path a, pr_claimed = claimed (ad_path a)\<rparr>) byPath;
                  borne = (\<lambda>p. \<Union> (set (map (set \<circ> foreign_ids scope) (filter (\<lambda>a. ad_path a = p) ordered)))) in
              rbind (plant_ops Y mapped byPath) (\<lambda>pairs.
                map_sum id (\<lambda>referrers. (map fst pairs @ referrers @ map snd pairs, renames))
                  (plan_prefix_referrers Y k rd dir mapped (set (map ad_path ordered)) borne)))))"

end
