(* ===== verification/IdRepairs.thy ===== *)
theory IdRepairs
  imports Repairs
begin

text \<open>
  The repair of a duplicate id (\<open>DuplicateID\<close> of \<open>internal/repair/repair.go\<close>), applied: what the disk holds after the
  multi-file rewrite of \<open>internal/rewrite\<close> ran the operations the procedure answered.
\<close>

section \<open>A batch of moves\<close>

text \<open>Moves of existing files to free or already equal places, of which no place is also a source, are all done.\<close>

definition moves_agree :: "rw_op list \<Rightarrow> bool" where
  "moves_agree xs \<longleftrightarrow> (\<forall>x \<in> set xs. \<forall>y \<in> set xs. op_new x = op_new y \<longrightarrow> op_content x = op_content y)"

lemma moves_agreeD: "moves_agree xs \<Longrightarrow> x \<in> set xs \<Longrightarrow> y \<in> set xs \<Longrightarrow> op_new x = op_new y \<Longrightarrow> op_content x = op_content y"
  unfolding moves_agree_def by blast

lemma moves_agree_Cons: "moves_agree (x # xs) \<Longrightarrow> moves_agree xs"
  unfolding moves_agree_def using set_subset_Cons [of xs x] by blast

lemma apply_moves:
  assumes "\<forall>x \<in> set xs. op_old x \<noteq> [] \<and> fs_read fs (op_old x) \<noteq> None \<and> fs_read fs (op_new x) \<in> {None, Some (op_content x)}"
    and "op_old ` set xs \<inter> op_new ` set xs = {}" "distinct (map op_old xs)"
    and "moves_agree xs"
  shows "\<exists>touched fs'. apply_ops xs fs = (None, touched, fs') \<and>
    (\<forall>p. fs_read fs' p =
       (if p \<in> op_old ` set xs then None
        else case find (\<lambda>x. op_new x = p) xs of Some x \<Rightarrow> Some (op_content x) | None \<Rightarrow> fs_read fs p))"
  using assms
proof (induction xs arbitrary: fs)
  case Nil
  show ?case by simp
next
  case (Cons x xs)
  let ?fs1 = "fs_remove (op_old x) (fs_write (op_new x) (op_content x) fs)"
  have ne: "op_old x \<noteq> op_new x" using Cons.prems(2) by auto
  then have mv: "moved x" using Cons.prems(1) by (simp add: moved_def)
  have nd: "\<not> already_done x fs" using Cons.prems(1) by (simp add: already_done_def)
  have free: "check_free_destination x fs = None" using Cons.prems(1) by (auto simp: check_free_destination_def)
  have read1: "fs_read ?fs1 p = (if p = op_old x then None else if p = op_new x then Some (op_content x) else fs_read fs p)" for p
    by simp
  have c1: "\<forall>y \<in> set xs. op_old y \<noteq> [] \<and> fs_read ?fs1 (op_old y) \<noteq> None \<and> fs_read ?fs1 (op_new y) \<in> {None, Some (op_content y)}"
  proof
    fix y assume y: "y \<in> set xs"
    have "op_old y \<in> op_old ` set xs" using y by (rule imageI)
    then have "op_old y \<noteq> op_old x" using Cons.prems(3) by auto
    moreover have "op_new y \<in> op_new ` set xs" using y by (rule imageI)
    then have "op_old y \<noteq> op_new x" "op_new y \<noteq> op_old x" using Cons.prems(2) \<open>op_old y \<in> op_old ` set xs\<close> by auto
    ultimately show "op_old y \<noteq> [] \<and> fs_read ?fs1 (op_old y) \<noteq> None \<and> fs_read ?fs1 (op_new y) \<in> {None, Some (op_content y)}"
      using Cons.prems(1) y moves_agreeD [OF Cons.prems(4), of x y] unfolding read1 by auto
  qed
  have "op_old ` set xs \<inter> op_new ` set xs = {}" "distinct (map op_old xs)" using Cons.prems(2,3) by auto
  from Cons.IH [OF c1 this moves_agree_Cons [OF Cons.prems(4)]] obtain touched fs' where run: "apply_ops xs ?fs1 = (None, touched, fs')"
    and fs': "\<forall>p. fs_read fs' p = (if p \<in> op_old ` set xs then None
        else case find (\<lambda>x. op_new x = p) xs of Some x \<Rightarrow> Some (op_content x) | None \<Rightarrow> fs_read ?fs1 p)"
    by (elim exE conjE)
  have "fs_read fs' p = (if p \<in> op_old ` set (x # xs) then None
        else case find (\<lambda>x. op_new x = p) (x # xs) of Some x \<Rightarrow> Some (op_content x) | None \<Rightarrow> fs_read fs p)" for p
  proof (cases "find (\<lambda>x. op_new x = p) xs")
    case None
    then show ?thesis unfolding fs' [rule_format] read1 using ne by auto
  next
    case (Some y)
    then have y: "y \<in> set xs" "op_new y = p" by (auto simp: find_Some_iff)
    have "p \<in> op_new ` set xs" using imageI [OF y(1), of op_new] y(2) by simp
    moreover have "op_old x \<notin> op_new ` set xs" using Cons.prems(2) by simp
    ultimately have "p \<noteq> op_old x" by blast
    moreover have "op_new x = p \<Longrightarrow> op_content x = op_content y" using moves_agreeD [OF Cons.prems(4), of x y] y by simp
    ultimately show ?thesis unfolding fs' [rule_format] by (auto simp: Some)
  qed
  moreover have "apply_ops (x # xs) fs = (None, op_new x # op_old x # touched, fs')"
    using mv nd free ne run by (simp add: Let_def apply_ops.simps(2))
  ultimately show ?case by blast
qed

section \<open>The holders of an id\<close>

lemma read_holder_Inr:
  assumes "read_holder Y rd r = Inr h"
  shows "rd (rp_path r) = ReadOk (hd_raw h) \<and> file_model Y rd (rp_path r) = Some (hd_model h, hd_body h) \<and>
    hd_path h = rp_path r \<and> hd_basename h = path_base (rp_path r) \<and> hd_created h = fm_created (hd_model h) \<and>
    hd_short h = rp_short r \<and> \<not> hd_design h"
proof -
  obtain raw where raw: "rd (rp_path r) = ReadOk raw" using assms by (auto simp: read_holder_def rbind_Inr_iff read_file_Inr)
  obtain interior body present where s: "split_fence raw = (interior, body, present)" by (cases "split_fence raw")
  obtain m where m: "present" "parse_fm Y interior = Inr m"
    using assms raw s by (cases "parse_fm Y interior") (auto simp: read_holder_def read_file_def split: if_splits)
  then have "file_model Y rd (rp_path r) = Some (m, body)" using raw s by (auto simp: file_model_Some)
  with assms raw s m show ?thesis by (auto simp: read_holder_def read_file_def)
qed

lemma read_holders_Inr: "read_holders f rs = Inr hs \<Longrightarrow> list_all2 (\<lambda>r h. f r = Inr h) rs hs"
  by (induction rs arbitrary: hs) (auto simp: rbind_Inr_iff map_sum_Inr)

section \<open>One loser\<close>

definition minted_path :: "string \<Rightarrow> holder \<Rightarrow> string \<Rightarrow> string" where
  "minted_path scope h s = path_join (path_dir (hd_path h)) (new_basename (hd_basename h) (full_id scope s))"

definition mintable :: "reads \<Rightarrow> string \<Rightarrow> occupied \<Rightarrow> holder \<Rightarrow> bool" where
  "mintable rd scope occ h \<longleftrightarrow>
     (\<forall>s. is_short_id s \<longrightarrow> map_of occ s = None \<longrightarrow> rd (minted_path scope h s) = ReadMissing)"

text \<open>A loser goes to a longer id of its family, its file otherwise as it was: to a free id, or to the one
  an earlier run that died had begun to give it.\<close>

definition loser_op :: "yaml \<Rightarrow> reads \<Rightarrow> string \<Rightarrow> occupied \<Rightarrow> holder \<Rightarrow> (rw_op \<times> rename) \<times> string \<Rightarrow> bool" where
  "loser_op Y rd scope occ h = (\<lambda>((x, rn), s).
     op_old x = hd_path h \<and>
     rn = \<lparr>rn_old_id = fm_id (hd_model h), rn_new_id = full_id scope s, rn_old_path = hd_path h, rn_new_path = op_new x\<rparr> \<and>
     short_in_family s (hd_short h) \<and> s \<noteq> hd_short h \<and>
     (\<exists>interior. serialize Y ((hd_model h)\<lparr>fm_id := full_id scope s\<rparr>) = Inr interior \<and>
        op_content x = compose interior (hd_body h)) \<and>
     (case map_of occ s of
        Some p \<Rightarrow> op_new x = p \<and> rd p = ReadOk (op_content x)
      | None \<Rightarrow> op_new x = minted_path scope h s))"

lemma resume_from_Some:
  assumes "resume_from rd loser scope occ content shorts = Inr (Some (x, rn))"
  shows "\<exists>s \<in> set shorts. content (full_id scope s) = Inr (op_content x) \<and> rd (the (map_of occ s)) = ReadOk (op_content x) \<and>
    op_old x = hd_path loser \<and> op_new x = the (map_of occ s) \<and>
    rn = \<lparr>rn_old_id = fm_id (hd_model loser), rn_new_id = full_id scope s, rn_old_path = hd_path loser, rn_new_path = op_new x\<rparr>"
  using assms
proof (induction shorts)
  case (Cons s shorts)
  then show ?case
    by (cases "rd (the (map_of occ s))")
      (auto simp: Let_def rbind_Inr_iff split: if_splits)
qed simp

lemma mem_resume_candidates:
  "s \<in> set (resume_candidates short occ) \<longleftrightarrow> s \<in> fst ` set occ \<and> s \<noteq> short \<and> short_in_family s short"
  by (auto simp: resume_candidates_def)

lemma mint_extension_Inr:
  assumes "mint_extension loser scope paths occ taken content = Inr (x, rn, occ', taken')"
  shows "\<exists>s. Ids.extend (hd_short loser) taken = Inr s \<and> content (full_id scope s) = Inr (op_content x) \<and>
    op_old x = hd_path loser \<and> op_new x = minted_path scope loser s \<and>
    rn = \<lparr>rn_old_id = fm_id (hd_model loser), rn_new_id = full_id scope s, rn_old_path = hd_path loser, rn_new_path = op_new x\<rparr> \<and>
    occ' = AList.update s (op_new x) occ \<and> taken' = insert s taken"
  using assms by (auto simp: mint_extension_def Let_def map_sum_Inr minted_path_def split: sum.splits)

text \<open>Ids given in this run lead to paths where no file is yet.\<close>

definition occ_now :: "reads \<Rightarrow> occupied \<Rightarrow> occupied \<Rightarrow> string set \<Rightarrow> bool" where
  "occ_now rd occ0 occ taken \<longleftrightarrow>
     fst ` set occ0 \<subseteq> taken \<and> fst ` set occ \<subseteq> taken \<and>
     (\<forall>s p. map_of occ s = Some p \<longrightarrow> map_of occ0 s = Some p \<or> rd p = ReadMissing)"

lemma occ_now_mint:
  assumes "occ_now rd occ0 occ taken" "rd p = ReadMissing"
  shows "occ_now rd occ0 (AList.update s p occ) (insert s taken)"
proof -
  have "fst ` set (AList.update s p occ) \<subseteq> insert s taken"
    using assms(1) by (auto simp: occ_now_def dom_update)
  moreover have "map_of occ0 t = Some q \<or> rd q = ReadMissing" if "map_of (AList.update s p occ) t = Some q" for t q
    using that assms by (cases "t = s") (auto simp: update_conv' occ_now_def)
  ultimately show ?thesis using assms(1) unfolding occ_now_def by blast
qed

lemma id_content_Inr:
  "id_content Y h newID = Inr c \<longleftrightarrow> (\<exists>i. serialize Y ((hd_model h)\<lparr>fm_id := newID\<rparr>) = Inr i \<and> c = compose i (hd_body h))"
  by (simp add: id_content_def render_ticket_Inr)

lemma extend_loser_Inr:
  assumes run: "extend_loser Y rd scope paths h occ taken = Inr (x, rn, occ', taken')"
    and now: "occ_now rd occ0 occ taken"
    and free: "mintable rd scope occ0 h"
  shows "\<exists>s. loser_op Y rd scope occ0 h ((x, rn), s) \<and> occ_now rd occ0 occ' taken' \<and> taken \<subseteq> taken' \<and>
    (map_of occ0 s = None \<longrightarrow> s \<notin> taken \<and> s \<in> taken')"
proof -
  obtain r where r: "resume_extension rd h scope occ (id_content Y h) = Inr r"
    and rest: "(case r of Some (x, rn) \<Rightarrow> Inr (x, rn, occ, taken)
       | None \<Rightarrow> mint_extension h scope paths occ taken (id_content Y h)) = Inr (x, rn, occ', taken')"
    using run by (auto simp: extend_loser_def rbind_Inr_iff)
  show ?thesis
  proof (cases r)
    case (Some xr)
    then have xr: "resume_extension rd h scope occ (id_content Y h) = Inr (Some (x, rn))" "occ' = occ" "taken' = taken"
      using r rest by (auto split: prod.splits)
    obtain s where s: "s \<in> set (resume_candidates (hd_short h) occ)" "id_content Y h (full_id scope s) = Inr (op_content x)"
      "rd (the (map_of occ s)) = ReadOk (op_content x)" "op_old x = hd_path h" "op_new x = the (map_of occ s)"
      "rn = \<lparr>rn_old_id = fm_id (hd_model h), rn_new_id = full_id scope s, rn_old_path = hd_path h, rn_new_path = op_new x\<rparr>"
      using resume_from_Some [OF xr(1) [unfolded resume_extension_def]] by blast
    obtain p where p: "map_of occ s = Some p" using s(1) by (cases "map_of occ s") (auto simp: mem_resume_candidates map_of_eq_None_iff)
    then have "map_of occ0 s = Some p" using now s(3) unfolding occ_now_def by fastforce
    then have "loser_op Y rd scope occ0 h ((x, rn), s)"
      using s p by (auto simp: loser_op_def mem_resume_candidates id_content_Inr)
    with \<open>map_of occ0 s = Some p\<close> xr now show ?thesis by auto
  next
    case None
    then obtain s where s: "Ids.extend (hd_short h) taken = Inr s" "id_content Y h (full_id scope s) = Inr (op_content x)"
      "op_old x = hd_path h" "op_new x = minted_path scope h s"
      "rn = \<lparr>rn_old_id = fm_id (hd_model h), rn_new_id = full_id scope s, rn_old_path = hd_path h, rn_new_path = op_new x\<rparr>"
      "occ' = AList.update s (op_new x) occ" "taken' = insert s taken"
      using mint_extension_Inr [of h scope paths occ taken "id_content Y h" x rn occ' taken'] rest by auto
    from extend_Inr [OF s(1)] have e: "is_short_id (hd_short h)" "is_short_id s" "strict_prefix (hd_short h) s" "s \<notin> taken" by auto
    have new: "map_of occ0 s = None" using e(4) now by (auto simp: occ_now_def map_of_eq_None_iff)
    have "loser_op Y rd scope occ0 h ((x, rn), s)"
      using s e new by (auto simp: loser_op_def short_in_family_def strict_prefix_def id_content_Inr)
    moreover have "occ_now rd occ0 occ' taken'"
      unfolding s(6,7) by (rule occ_now_mint [OF now]) (use free e(2) new in \<open>simp add: s(4) mintable_def\<close>)
    ultimately show ?thesis using e(4) s(7) by blast
  qed
qed

lemma extend_losers_Inr:
  assumes "extend_losers (extend_loser Y rd scope paths) losers occ taken = Inr (planned, occ')" "occ_now rd occ0 occ taken"
    and "\<forall>h \<in> set losers. mintable rd scope occ0 h"
  shows "\<exists>ss. length ss = length planned \<and> list_all2 (loser_op Y rd scope occ0) losers (zip planned ss) \<and>
    sorted_wrt (\<lambda>s t. map_of occ0 t = None \<longrightarrow> s \<noteq> t) ss \<and> (\<forall>s \<in> set ss. map_of occ0 s = None \<longrightarrow> s \<notin> taken)"
  using assms
proof (induction losers arbitrary: occ taken planned)
  case (Cons h losers)
  obtain x rn occ1 taken1 ops where step: "extend_loser Y rd scope paths h occ taken = Inr (x, rn, occ1, taken1)"
    and rest: "extend_losers (extend_loser Y rd scope paths) losers occ1 taken1 = Inr (ops, occ')" and p: "planned = (x, rn) # ops"
    using Cons.prems(1) by (auto simp: rbind_Inr_iff map_sum_Inr)
  have free: "mintable rd scope occ0 h" and later: "\<forall>h \<in> set losers. mintable rd scope occ0 h" using Cons.prems(3) by simp_all
  obtain s where s: "loser_op Y rd scope occ0 h ((x, rn), s)" "occ_now rd occ0 occ1 taken1" "taken \<subseteq> taken1"
    "map_of occ0 s = None \<longrightarrow> s \<notin> taken \<and> s \<in> taken1"
    using extend_loser_Inr [OF step Cons.prems(2) free] by (elim exE conjE)
  obtain ss where ss: "length ss = length ops" "list_all2 (loser_op Y rd scope occ0) losers (zip ops ss)"
    "sorted_wrt (\<lambda>s t. map_of occ0 t = None \<longrightarrow> s \<noteq> t) ss" "\<forall>s \<in> set ss. map_of occ0 s = None \<longrightarrow> s \<notin> taken1"
    using Cons.IH [OF rest s(2) later] by (elim exE conjE)
  have "map_of occ0 t = None \<longrightarrow> s \<noteq> t" if "t \<in> set ss" for t using ss(4) that s(4) by auto
  then show ?case using ss s by (intro exI [of _ "s # ss"]) (auto simp: p)
qed simp

section \<open>A duplicate id, repaired and applied\<close>

definition fs_of :: "disk \<Rightarrow> fs" where
  "fs_of k = map (\<lambda>(p, f). (p, f_data f)) (dk_files k)"

definition reads_fs :: "fs \<Rightarrow> reads" where
  "reads_fs fs p = (case fs_read fs p of None \<Rightarrow> ReadMissing | Some s \<Rightarrow> ReadOk s)"

lemma fs_of_read: "fs_read (fs_of k) p = map_option f_data (disk_file k p)"
proof -
  have "map_of (map (\<lambda>(q, f). (q, f_data f)) xs) p = map_option f_data (map_of xs p)" for xs by (induction xs) auto
  then show ?thesis by (simp add: fs_read_def fs_of_def disk_file_def)
qed

lemma reads_of_fs: "reads_of k = reads_fs (fs_of k)"
  by (auto simp: fun_eq_iff reads_of_def reads_fs_def fs_of_read split: option.split)

lemma reads_of_cases:
  "reads_of k p = ReadMissing \<longleftrightarrow> disk_file k p = None" "reads_of k p = ReadOk s \<longleftrightarrow> fs_read (fs_of k) p = Some s"
  by (auto simp: reads_of_def fs_of_read split: option.split)

text \<open>A file of the id, as the index reads it: a front matter id of the scope is the id.\<close>

definition bears_id :: "yaml \<Rightarrow> reads \<Rightarrow> string \<Rightarrow> string \<Rightarrow> string \<Rightarrow> bool" where
  "bears_id Y rd scope short p \<longleftrightarrow>
     (\<forall>m body. file_model Y rd p = Some (m, body) \<longrightarrow> is_full_ticket_id (fm_id m) \<longrightarrow> scope_of_full_id (fm_id m) = scope \<longrightarrow>
        fm_id m = full_id scope short)"

definition member_at :: "yaml \<Rightarrow> reads \<Rightarrow> string \<Rightarrow> member" where
  "member_at Y rd p =
     \<lparr>m_created = (case file_model Y rd p of Some (m, body) \<Rightarrow> fm_created m | None \<Rightarrow> []), m_basename = path_base p,
      m_raw = (case rd p of ReadOk raw \<Rightarrow> raw | _ \<Rightarrow> []), m_path = p\<rparr>"

interpretation holder_order: keeper_order "holder_before X" for X
  unfolding holder_before_def by unfold_locales (auto simp: keep_before_key)

lemma new_basename_forms:
  assumes "newID = full_id scope s"
  shows "new_basename base newID = newID @ md_ext \<or> (\<exists>tail. new_basename base newID = newID @ ''-'' @ tail @ md_ext)"
  by (auto simp: new_basename_def Let_def)

lemma slashless_split: "slashless stem \<Longrightarrow> p \<in> set (split_n c n stem) \<Longrightarrow> slashless p"
proof (induction c n stem rule: split_n.induct)
  case (3 c n stem)
  show ?case
  proof (cases "index_byte c stem")
    case (Some i)
    have "slashless (take i stem)" "slashless (drop (Suc i) stem)"
      using 3(2) by (auto simp: slashless_def dest: in_set_takeD in_set_dropD)
    with 3 Some show ?thesis by auto
  qed (use 3 in simp)
qed auto

lemma slashless_ids:
  assumes "is_scope_name scope" "is_short_id s"
  shows "slashless (full_id scope s)"
proof -
  have "\<not> is_lower_alnum slash" "slash \<notin> set short_id_alphabet" by code_simp+
  then have "slash \<notin> set scope" "slash \<notin> set s"
    using assms unfolding is_scope_name_def is_short_id_def list_all_iff is_short_id_char_iff by blast+
  then show ?thesis by (simp add: slashless_def full_id_def slash_def)
qed

text \<open>A name that bears an unheld id is free.\<close>

lemma unheld_name:
  assumes free: "holders Y k dir scope short = {}" and k: "disk_ok k" "archive_listed dir k" "dir \<in> set (dk_dirs k)"
    and base: "short_id_of_basename base scope = Some short" "slashless base"
    and root: "root = dir \<or> root = path_join dir archive_dir"
  shows "disk_file k (path_join root base) = None"
proof (rule ccontr)
  let ?p = "path_join root base"
  assume "disk_file k ?p \<noteq> None"
  then obtain f where f: "disk_file k ?p = Some f" by auto
  have parts: "path_dir ?p = root" "path_base ?p = base" using base(2) by simp_all
  have mem: "?p \<in> fst ` set (dk_files k)" using f by (force simp: disk_file_def dest: map_of_SomeD)
  have "root \<in> set (dk_dirs k)" if "root = path_join dir archive_dir"
    using k(2) mem parts(1) that unfolding archive_listed_def by blast
  then have listed: "root \<in> set (dk_dirs k)" using root k(3) by blast
  then obtain names where names: "read_dir k root = Some names" by (simp add: read_dir_def)
  have inn: "base \<in> set names" using names listed mem parts by (force simp: read_dir_def)
  have "(root, False) \<in> set (id_roots dir)" using root by (auto simp: id_roots_def)
  moreover have "occupies False scope base" "short \<in> set (file_shorts Y k scope ?p base)"
    using base(1) by (simp_all add: occupies_def file_shorts_def)
  ultimately have "?p \<in> holders Y k dir scope short" using names inn unfolding holders_def by blast
  with free show False by simp
qed

lemma new_basename_slashless:
  assumes "slashless base" "is_scope_name scope" "is_short_id s"
  shows "slashless (new_basename base (full_id scope s))"
proof -
  have id: "slashless (full_id scope s)" by (rule slashless_ids [OF assms(2,3)])
  have "slashless (trim_suffix md_ext base)" using assms(1) by (auto simp: slashless_def trim_suffix_def dest: in_set_takeD)
  then have "slashless (split_n CHR ''-'' 3 (trim_suffix md_ext base) ! 2)"
    if "\<not> length (split_n CHR ''-'' 3 (trim_suffix md_ext base)) < 3"
    by (rule slashless_split [OF _ nth_mem]) (use that in simp)
  then show ?thesis using id by (auto simp: new_basename_def Let_def slashless_def md_ext_def slash_def)
qed

lemma minted_short:
  assumes "is_scope_name scope" "is_short_id s"
  shows "short_id_of_basename (new_basename base (full_id scope s)) scope = Some s"
proof (rule short_of_basename)
  show "full_id_of_basename (new_basename base (full_id scope s)) scope = Some (full_id scope s)"
    unfolding full_id_of_basename_Some [OF assms(1)] using assms(2) new_basename_forms [OF refl, of base scope s] by auto
qed

lemma minted_free:
  assumes k: "disk_ok k" "archive_listed dir k" "dir \<in> set (dk_dirs k)" and sc: "is_scope_name scope"
    and occ: "occupied_short_paths Y k dir scope = Some occ"
    and h: "path_dir (hd_path h) = dir \<or> path_dir (hd_path h) = path_join dir archive_dir" "hd_basename h = path_base (hd_path h)"
  shows "mintable (reads_of k) scope occ h"
  unfolding mintable_def reads_of_cases minted_path_def
proof (intro allI impI)
  fix s assume s: "is_short_id s" "map_of occ s = None"
  have "holders Y k dir scope s = {}" using occupied_map [OF occ, of s] s(2) by (simp split: if_splits)
  then show "disk_file k (path_join (path_dir (hd_path h)) (new_basename (hd_basename h) (full_id scope s))) = None"
    by (rule unheld_name [OF _ k minted_short [OF sc s(1)] new_basename_slashless [OF _ sc s(1)] h(1)]) (simp add: h(2))
qed

text \<open>Ids stand in the names, so different minted ids stand at different paths.\<close>

lemma minted_inject:
  assumes "is_scope_name scope" "is_short_id s" "is_short_id t" "slashless (hd_basename g)" "slashless (hd_basename h)"
    and "minted_path scope g s = minted_path scope h t"
  shows "s = t"
proof -
  have "path_base (minted_path scope g s) = new_basename (hd_basename g) (full_id scope s)"
    "path_base (minted_path scope h t) = new_basename (hd_basename h) (full_id scope t)"
    using assms(1-5) by (simp_all add: minted_path_def new_basename_slashless)
  with assms(6) have "short_id_of_basename (new_basename (hd_basename g) (full_id scope s)) scope =
      short_id_of_basename (new_basename (hd_basename h) (full_id scope t)) scope" by simp
  then show ?thesis using assms(1-3) by (simp add: minted_short)
qed

section \<open>The repair of one duplicate id\<close>

text \<open>A loser at a path became the ticket at another one: same body and fields under a new id of the family, and
  where it went there was no file, and no holder of the id, or already this one.\<close>

definition moved_ticket :: "yaml \<Rightarrow> disk \<Rightarrow> string \<Rightarrow> string \<Rightarrow> string \<Rightarrow> fs \<Rightarrow> string \<Rightarrow> rename \<Rightarrow> bool" where
  "moved_ticket Y k dir scope short fs' p rn \<longleftrightarrow>
     rn_old_path rn = p \<and> fs_read fs' p = None \<and>
     (\<exists>m body s. file_model Y (reads_of k) p = Some (m, body) \<and> rn_old_id rn = fm_id m \<and> rn_new_id rn = full_id scope s \<and>
        short_in_family s short \<and> s \<noteq> short \<and>
        file_model Y (reads_fs fs') (rn_new_path rn) = Some (m\<lparr>fm_id := full_id scope s\<rparr>, body) \<and>
        (if holders Y k dir scope s = {} then fs_read (fs_of k) (rn_new_path rn) = None
         else fs_read (fs_of k) (rn_new_path rn) = fs_read fs' (rn_new_path rn)))"

lemma read_holder_member: "read_holder Y rd r = Inr h \<Longrightarrow> to_collision h = member_at Y rd (rp_path r)"
  using read_holder_Inr [of Y rd r h] by (simp add: to_collision_def member_at_def)

lemma duplicate_id_Inr:
  assumes "duplicate_id Y X rd scope rows occ = Inr (planned, occ')"
  shows "\<exists>keeper losers. extend_losers (extend_loser Y rd scope (map hd_path (keeper # losers))) losers occ (set (map fst occ)) = Inr (planned, occ') \<and>
    (\<forall>h \<in> set (keeper # losers). \<exists>r \<in> set rows. read_holder Y rd r = Inr h) \<and>
    mset (map hd_path (keeper # losers)) = mset (map rp_path rows) \<and> (\<forall>h \<in> set losers. \<not> holder_before X h keeper)"
proof -
  obtain hs where rows: "\<not> length rows < 2" and hs: "read_holders (read_holder Y rd) rows = Inr hs"
    and ext: "extend_losers (extend_loser Y rd scope (map hd_path (sort_stable (holder_before X) hs))) (tl (sort_stable (holder_before X) hs))
       occ (set (map fst occ)) = Inr (planned, occ')"
    using assms by (auto simp: duplicate_id_def rbind_Inr_iff Let_def split: if_splits)
  have all: "list_all2 (\<lambda>r h. read_holder Y rd r = Inr h) rows hs" by (rule read_holders_Inr [OF hs])
  then have "length (sort_stable (holder_before X) hs) \<noteq> 0"
    using rows list_all2_lengthD [OF all] by (cases hs) auto
  then obtain keeper losers where m: "sort_stable (holder_before X) hs = keeper # losers" by (cases "sort_stable (holder_before X) hs") auto
  have "map hd_path hs = map rp_path rows"
    using all by (induction rule: list_all2_induct) (use read_holder_Inr in auto)
  moreover have "mset (keeper # losers) = mset hs" using m mset_sort_stable by metis
  ultimately have paths: "mset (map hd_path (keeper # losers)) = mset (map rp_path rows)" by (metis mset_map)
  have members: "set (keeper # losers) = set hs" using m set_sort_stable by metis
  have "\<forall>h \<in> set hs. \<exists>r \<in> set rows. read_holder Y rd r = Inr h" using all by (induction rule: list_all2_induct) auto
  moreover have "\<not> holder_before X h keeper" if "h \<in> set losers" for h
    by (rule holder_order.keeper_first [OF m]) (use that members in auto)
  ultimately show ?thesis using ext m paths members by (intro exI [of _ keeper] exI [of _ losers]) simp
qed

lemma rendered_parses:
  assumes "codec_ok Y" "file_model Y rd p = Some (m, body)" "serialize Y (m\<lparr>fm_id := newID\<rparr>) = Inr interior"
    and "rd' q = ReadOk (compose interior body)"
  shows "file_model Y rd' q = Some (m\<lparr>fm_id := newID\<rparr>, body)"
proof -
  have "model_ok m" using assms(1,2) parsed_model_ok by (auto simp: file_model_Some)
  then have "model_ok (m\<lparr>fm_id := newID\<rparr>)" by (simp add: model_ok_def)
  from written_parses [OF codec_writes_back [OF assms(1) this] assms(3)] assms(4) show ?thesis by (auto simp: file_model_Some)
qed

text \<open>No file of the collision is where a loser goes.\<close>

lemma loser_target_new:
  assumes "loser_op Y (reads_of k) scope occ h ((x, rn), s)" "codec_ok Y"
    and h: "file_model Y (reads_of k) (hd_path h) = Some (hd_model h, hd_body h)"
    and p: "bears_id Y (reads_of k) scope (hd_short h) p" "reads_of k p \<noteq> ReadMissing" and sc: "is_scope_name scope"
    and free: "mintable (reads_of k) scope occ h"
  shows "op_new x \<noteq> p"
proof
  assume e: "op_new x = p"
  have s: "is_short_id s" "s \<noteq> hd_short h" using assms(1) by (auto simp: loser_op_def short_in_family_def)
  obtain interior where i: "serialize Y ((hd_model h)\<lparr>fm_id := full_id scope s\<rparr>) = Inr interior" "op_content x = compose interior (hd_body h)"
    using assms(1) by (auto simp: loser_op_def)
  show False
  proof (cases "map_of occ s")
    case None
    then have "op_new x = minted_path scope h s" using assms(1) by (simp add: loser_op_def)
    then show False using free None s(1) p(2) e by (simp add: mintable_def)
  next
    case (Some q)
    then have "reads_of k p = ReadOk (compose interior (hd_body h))" using assms(1) e i(2) by (simp add: loser_op_def)
    from rendered_parses [of Y "reads_of k" "hd_path h" "hd_model h" "hd_body h" _ _ "reads_of k" p, OF assms(2) h i(1) this]
    have "full_id scope s = full_id scope (hd_short h)"
      using p(1) is_full_ticket_id_full_id [OF sc s(1)] scope_of_full_id [OF sc] by (fastforce simp: bears_id_def)
    then show False using s(2) full_id_inject [OF sc sc] by auto
  qed
qed

definition repair_disk_ok :: "yaml \<Rightarrow> disk \<Rightarrow> string \<Rightarrow> string \<Rightarrow> bool" where
  "repair_disk_ok Y k dir scope \<longleftrightarrow>
     codec_ok Y \<and> disk_ok k \<and> archive_listed dir k \<and> dir \<in> set (dk_dirs k) \<and> is_scope_name scope"

text \<open>The rows of one collision: different files at the root or in the archive that bear the same id.\<close>

definition collision_rows :: "yaml \<Rightarrow> disk \<Rightarrow> string \<Rightarrow> string \<Rightarrow> string \<Rightarrow> repair_row list \<Rightarrow> bool" where
  "collision_rows Y k dir scope short rows \<longleftrightarrow>
     distinct (map rp_path rows) \<and>
     (\<forall>r \<in> set rows. (path_dir (rp_path r) = dir \<or> path_dir (rp_path r) = path_join dir archive_dir) \<and>
        rp_short r = short \<and> bears_id Y (reads_of k) scope short (rp_path r))"

text \<open>A loser of the collision as it was read.\<close>

definition read_loser :: "yaml \<Rightarrow> disk \<Rightarrow> string \<Rightarrow> string \<Rightarrow> holder \<Rightarrow> bool" where
  "read_loser Y k dir short h \<longleftrightarrow>
     file_model Y (reads_of k) (hd_path h) = Some (hd_model h, hd_body h) \<and> hd_short h = short \<and>
     hd_basename h = path_base (hd_path h) \<and> (path_dir (hd_path h) = dir \<or> path_dir (hd_path h) = path_join dir archive_dir)"

lemma loser_mintable:
  assumes "repair_disk_ok Y k dir scope" "occupied_short_paths Y k dir scope = Some occ" "read_loser Y k dir short h"
  shows "mintable (reads_of k) scope occ h"
  by (rule minted_free [of k dir scope Y]) (use assms in \<open>simp_all add: repair_disk_ok_def read_loser_def\<close>)

lemma loser_place:
  assumes "mintable (reads_of k) scope occ h" "loser_op Y (reads_of k) scope occ h ((x, rn), s)"
  shows "if map_of occ s = None then op_new x = minted_path scope h s \<and> fs_read (fs_of k) (op_new x) = None
      else fs_read (fs_of k) (op_new x) = Some (op_content x)"
proof (cases "map_of occ s")
  case None
  then have m: "op_new x = minted_path scope h s" using assms(2) by (simp add: loser_op_def)
  then have "reads_of k (op_new x) = ReadMissing" using assms None by (simp add: mintable_def loser_op_def short_in_family_def)
  then show ?thesis using None m by (simp add: reads_of_cases fs_of_read)
qed (use assms(2) in \<open>simp add: loser_op_def reads_of_cases\<close>)

lemma loser_source:
  assumes "disk_ok k" "read_loser Y k dir short h"
  shows "hd_path h \<noteq> [] \<and> fs_read (fs_of k) (hd_path h) \<noteq> None"
proof -
  obtain raw where "reads_of k (hd_path h) = ReadOk raw" using assms(2) by (auto simp: read_loser_def file_model_Some)
  then have r: "fs_read (fs_of k) (hd_path h) = Some raw" by (simp add: reads_of_cases)
  then have "hd_path h \<in> fst ` set (dk_files k)" by (force simp: fs_of_read disk_file_def dest: map_of_SomeD)
  with assms(1) r show ?thesis by (auto simp: disk_ok_def)
qed

text \<open>Two losers at one place carry the same bytes.\<close>

lemma losers_agree:
  assumes place: "if map_of occ s = None then op_new x = minted_path scope g s \<and> fs_read fs (op_new x) = None
      else fs_read fs (op_new x) = Some (op_content x)"
    "if map_of occ t = None then op_new y = minted_path scope h t \<and> fs_read fs (op_new y) = None
      else fs_read fs (op_new y) = Some (op_content y)"
    and sc: "is_scope_name scope" "is_short_id s" "is_short_id t" "slashless (hd_basename g)" "slashless (hd_basename h)"
    and ne: "map_of occ t = None \<longrightarrow> s \<noteq> t" and same: "op_new x = op_new y"
  shows "op_content x = op_content y"
proof (cases "map_of occ s = None \<and> map_of occ t = None")
  case True
  then have "minted_path scope g s = minted_path scope h t" using place same by simp
  from minted_inject [OF sc this] True ne show ?thesis by simp
next
  case False
  with place same show ?thesis by (auto split: if_splits)
qed

text \<open>The operations of the losers as a batch of moves.\<close>

lemma losers_ready:
  assumes ok: "repair_disk_ok Y k dir scope" and occ: "occupied_short_paths Y k dir scope = Some occ"
    and losers: "\<forall>h \<in> set losers. read_loser Y k dir short h"
    and paths: "distinct (map hd_path losers)" "\<forall>p \<in> P. bears_id Y (reads_of k) scope short p \<and> reads_of k p \<noteq> ReadMissing"
      "hd_path ` set losers \<subseteq> P"
    and ops: "list_all2 (loser_op Y (reads_of k) scope occ) losers (zip planned ss)" "length ss = length planned"
    and apart: "sorted_wrt (\<lambda>s t. map_of occ t = None \<longrightarrow> s \<noteq> t) ss"
  shows "\<forall>y \<in> set (map fst planned). op_old y \<noteq> [] \<and> fs_read (fs_of k) (op_old y) \<noteq> None \<and>
      fs_read (fs_of k) (op_new y) \<in> {None, Some (op_content y)}"
    and "map op_old (map fst planned) = map hd_path losers" and "op_new ` set (map fst planned) \<inter> P = {}"
    and "moves_agree (map fst planned)"
proof -
  have codec: "codec_ok Y" and k: "disk_ok k" and sc: "is_scope_name scope" using ok by (simp_all add: repair_disk_ok_def)
  have len: "length losers = length planned" using list_all2_lengthD [OF ops(1)] ops(2) by simp
  define x where "x i = fst (planned ! i)" for i
  have op: "loser_op Y (reads_of k) scope occ (losers ! i) ((x i, snd (planned ! i)), ss ! i)" if "i < length planned" for i
    using list_all2_nthD2 [OF ops(1), of i] that ops(2) by (simp add: x_def)
  have h: "read_loser Y k dir short (losers ! i)" "hd_path (losers ! i) \<in> P" if "i < length planned" for i
    using losers paths(3) that len by (auto simp: image_subset_iff)
  have mint: "mintable (reads_of k) scope occ (losers ! i)" if "i < length planned" for i
    by (rule loser_mintable [OF ok occ h(1) [OF that]])
  have place: "if map_of occ (ss ! i) = None then op_new (x i) = minted_path scope (losers ! i) (ss ! i) \<and> fs_read (fs_of k) (op_new (x i)) = None
      else fs_read (fs_of k) (op_new (x i)) = Some (op_content (x i))" if "i < length planned" for i
    by (rule loser_place [OF mint [OF that] op [OF that]])
  have old: "op_old (x i) = hd_path (losers ! i)" if "i < length planned" for i using op [OF that] by (simp add: loser_op_def)
  have xs: "\<exists>i < length planned. y = x i" if "y \<in> set (map fst planned)" for y
    using that by (force simp: x_def in_set_conv_nth)
  show "map op_old (map fst planned) = map hd_path losers"
    by (rule nth_equalityI) (use len old in \<open>simp_all add: x_def\<close>)
  show "\<forall>y \<in> set (map fst planned). op_old y \<noteq> [] \<and> fs_read (fs_of k) (op_old y) \<noteq> None \<and>
      fs_read (fs_of k) (op_new y) \<in> {None, Some (op_content y)}"
  proof
    fix y assume "y \<in> set (map fst planned)"
    then obtain i where i: "i < length planned" "y = x i" using xs by blast
    show "op_old y \<noteq> [] \<and> fs_read (fs_of k) (op_old y) \<noteq> None \<and> fs_read (fs_of k) (op_new y) \<in> {None, Some (op_content y)}"
      using loser_source [OF k h(1) [OF i(1)]] place [OF i(1)] unfolding i(2) old [OF i(1)] by (auto split: if_splits)
  qed
  have "op_new (x i) \<noteq> p" if i: "i < length planned" and p: "p \<in> P" for i p
  proof (rule loser_target_new [OF op [OF i] codec _ _ _ sc mint [OF i]])
    show "file_model Y (reads_of k) (hd_path (losers ! i)) = Some (hd_model (losers ! i), hd_body (losers ! i))"
      "bears_id Y (reads_of k) scope (hd_short (losers ! i)) p" "reads_of k p \<noteq> ReadMissing"
      using h(1) [OF i] paths(2) p by (simp_all add: read_loser_def)
  qed
  then show "op_new ` set (map fst planned) \<inter> P = {}" using xs by blast
  have agree: "op_content (x i) = op_content (x j)" if ij: "i < j" "j < length planned" "op_new (x i) = op_new (x j)" for i j
  proof (rule losers_agree [OF place place sc _ _ _ _ _ ij(3)])
    show "is_short_id (ss ! i)" "is_short_id (ss ! j)" using op [of i] op [of j] ij by (simp_all add: loser_op_def short_in_family_def)
    show "slashless (hd_basename (losers ! i))" "slashless (hd_basename (losers ! j))"
      using h(1) [of i] h(1) [of j] ij by (simp_all add: read_loser_def)
    show "map_of occ (ss ! j) = None \<longrightarrow> ss ! i \<noteq> ss ! j" using sorted_wrt_nth_less [OF apart ij(1)] ij(2) ops(2) by simp
  qed (use ij in simp_all)
  show "moves_agree (map fst planned)"
    unfolding moves_agree_def
  proof (intro ballI impI)
    fix y z assume yz: "y \<in> set (map fst planned)" "z \<in> set (map fst planned)" "op_new y = op_new z"
    then obtain i j where ij: "i < length planned" "y = x i" "j < length planned" "z = x j" using xs by blast
    have same: "op_new (x i) = op_new (x j)" using yz(3) ij(2,4) by simp
    have "op_content (x i) = op_content (x j)"
    proof (cases i j rule: linorder_cases)
      case less
      then show ?thesis by (rule agree [OF _ ij(3) same])
    next
      case greater
      then show ?thesis by (rule agree [OF _ ij(1) same [symmetric], symmetric])
    qed simp
    then show "op_content y = op_content z" using ij(2,4) by simp
  qed
qed

text \<open>Where each loser is when the batch was applied.\<close>

lemma loser_moved:
  assumes ok: "repair_disk_ok Y k dir scope" and occ: "occupied_short_paths Y k dir scope = Some occ"
    and h: "read_loser Y k dir short h" and op: "loser_op Y (reads_of k) scope occ h ((x, rn), s)"
    and gone: "fs_read fs' (hd_path h) = None" and there: "fs_read fs' (op_new x) = Some (op_content x)"
  shows "moved_ticket Y k dir scope short fs' (hd_path h) rn"
proof -
  obtain interior where i: "serialize Y ((hd_model h)\<lparr>fm_id := full_id scope s\<rparr>) = Inr interior" "op_content x = compose interior (hd_body h)"
    using op by (auto simp: loser_op_def)
  have rn: "rn_new_path rn = op_new x" "rn_old_path rn = hd_path h" "rn_old_id rn = fm_id (hd_model h)" "rn_new_id rn = full_id scope s"
    using op by (auto simp: loser_op_def)
  have s: "short_in_family s short" "s \<noteq> short" using op h by (auto simp: loser_op_def read_loser_def)
  have m: "file_model Y (reads_of k) (hd_path h) = Some (hd_model h, hd_body h)" using h by (simp add: read_loser_def)
  have parsed: "file_model Y (reads_fs fs') (op_new x) = Some ((hd_model h)\<lparr>fm_id := full_id scope s\<rparr>, hd_body h)"
    by (rule rendered_parses [OF _ m i(1)]) (use ok there i(2) in \<open>simp_all add: repair_disk_ok_def reads_fs_def\<close>)
  have "map_of occ s = None \<longleftrightarrow> holders Y k dir scope s = {}" using occupied_map [OF occ, of s] by simp
  then have "if holders Y k dir scope s = {} then fs_read (fs_of k) (op_new x) = None
      else fs_read (fs_of k) (op_new x) = fs_read fs' (op_new x)"
    using loser_place [OF loser_mintable [OF ok occ h] op] there by (auto split: if_splits)
  with parsed s m gone show ?thesis unfolding moved_ticket_def rn by blast
qed

lemma losers_applied:
  assumes ok: "repair_disk_ok Y k dir scope" and occ: "occupied_short_paths Y k dir scope = Some occ"
    and losers: "\<forall>h \<in> set losers. read_loser Y k dir short h"
    and paths: "distinct (map hd_path losers)" "\<forall>p \<in> P. bears_id Y (reads_of k) scope short p \<and> reads_of k p \<noteq> ReadMissing"
      "hd_path ` set losers \<subseteq> P"
    and ops: "list_all2 (loser_op Y (reads_of k) scope occ) losers (zip planned ss)" "length ss = length planned"
    and apart: "sorted_wrt (\<lambda>s t. map_of occ t = None \<longrightarrow> s \<noteq> t) ss"
  shows "\<exists>touched fs'. apply_ops (map fst planned) (fs_of k) = (None, touched, fs') \<and>
    list_all2 (moved_ticket Y k dir scope short fs') (map hd_path losers) (map snd planned) \<and>
    (\<forall>p. p \<notin> hd_path ` set losers \<longrightarrow> p \<notin> rn_new_path ` snd ` set planned \<longrightarrow> fs_read fs' p = fs_read (fs_of k) p) \<and>
    (\<forall>p \<in> P - hd_path ` set losers. fs_read fs' p = fs_read (fs_of k) p)"
proof -
  let ?xs = "map fst planned"
  note ready = losers_ready [OF ok occ losers paths ops apart]
  have olds: "op_old ` set ?xs = hd_path ` set losers" using arg_cong [OF ready(2), of set] by (simp add: image_image)
  have apart: "op_old ` set ?xs \<inter> op_new ` set ?xs = {}" using ready(3) paths(3) unfolding olds by blast
  have distinct: "distinct (map op_old ?xs)" using ready(2) paths(1) by simp
  obtain touched fs' where run: "apply_ops ?xs (fs_of k) = (None, touched, fs')"
    and fs': "\<forall>p. fs_read fs' p = (if p \<in> op_old ` set ?xs then None
       else case find (\<lambda>y. op_new y = p) ?xs of Some y \<Rightarrow> Some (op_content y) | None \<Rightarrow> fs_read (fs_of k) p)"
    using apply_moves [OF ready(1) apart distinct ready(4)] by (elim exE conjE)
  have target: "fs_read fs' (op_new y) = Some (op_content y)" if y: "y \<in> set ?xs" for y
  proof -
    have "op_new y \<notin> op_old ` set ?xs" using ready(3) paths(3) y unfolding olds by blast
    moreover obtain z where z: "find (\<lambda>z. op_new z = op_new y) ?xs = Some z" "z \<in> set ?xs" "op_new z = op_new y"
    proof (cases "find (\<lambda>z. op_new z = op_new y) ?xs")
      case None
      then have "\<not> (\<exists>z. z \<in> set ?xs \<and> op_new z = op_new y)" unfolding find_None_iff .
      then show ?thesis using y by blast
    next
      case (Some z)
      from find_SomeD [OF Some] show ?thesis by (intro that [OF Some]) simp_all
    qed
    ultimately show ?thesis using moves_agreeD [OF ready(4) z(2) y z(3)] by (simp add: fs')
  qed
  have same: "fs_read fs' p = fs_read (fs_of k) p" if "p \<notin> hd_path ` set losers" "p \<notin> op_new ` set ?xs" for p
  proof -
    have "find (\<lambda>y. op_new y = p) ?xs = None" using that(2) by (auto simp: find_None_iff)
    with that(1) show ?thesis unfolding fs' [rule_format] olds by simp
  qed
  have len: "length losers = length planned" using list_all2_lengthD [OF ops(1)] ops(2) by simp
  have op: "loser_op Y (reads_of k) scope occ (losers ! i) ((fst (planned ! i), snd (planned ! i)), ss ! i)" if "i < length planned" for i
    using list_all2_nthD2 [OF ops(1), of i] that ops(2) by simp
  have "moved_ticket Y k dir scope short fs' (hd_path (losers ! i)) (snd (planned ! i))" if i: "i < length planned" for i
  proof (rule loser_moved [OF ok occ _ op [OF i]])
    show "read_loser Y k dir short (losers ! i)" using losers i len by simp
    show "fs_read fs' (hd_path (losers ! i)) = None" using i len unfolding fs' [rule_format] olds by simp
    show "fs_read fs' (op_new (fst (planned ! i))) = Some (op_content (fst (planned ! i)))" by (rule target) (use i in simp)
  qed
  then have moved: "list_all2 (moved_ticket Y k dir scope short fs') (map hd_path losers) (map snd planned)"
    by (simp add: list_all2_conv_all_nth len)
  have "rn_new_path (snd y) = op_new (fst y)" if "y \<in> set planned" for y
    using that op by (force simp: in_set_conv_nth loser_op_def)
  then have e: "rn_new_path ` snd ` set planned = op_new ` set ?xs" unfolding set_map image_image by (rule image_cong [OF refl])
  have "fs_read fs' p = fs_read (fs_of k) p" if "p \<notin> hd_path ` set losers" "p \<notin> rn_new_path ` snd ` set planned" for p
    by (rule same [OF that(1)]) (use that(2) e in blast)
  moreover have "fs_read fs' p = fs_read (fs_of k) p" if "p \<in> P - hd_path ` set losers" for p
    by (rule same) (use that ready(3) in blast)+
  ultimately show ?thesis using run moved by blast
qed

text \<open>C16. Repairing a duplicate id, end to end, on any disk and with any files left by an earlier run that died: when the
  procedure answers, applying its operations succeeds. One file keeps the id and is not touched, and no other file of the
  collision comes before it in the keeper order. Every other file of the collision is gone from its path and is, with the same
  fields and body, the ticket of a longer id of the family at another path, which was free, and its id unheld, or already
  held exactly this ticket. No file outside the collision changes, except that.\<close>

theorem duplicate_id_repaired:
  assumes ok: "repair_disk_ok Y k dir scope" and occ: "occupied_short_paths Y k dir scope = Some occ"
    and rows: "collision_rows Y k dir scope short rows"
    and run: "duplicate_id Y X (reads_of k) scope rows occ = Inr (planned, occ')"
  shows "\<exists>keeper losers touched fs'.
    mset (keeper # losers) = mset (map rp_path rows) \<and>
    (\<forall>p \<in> set losers. \<not> keep_before X (member_at Y (reads_of k) p) (member_at Y (reads_of k) keeper)) \<and>
    apply_ops (map fst planned) (fs_of k) = (None, touched, fs') \<and>
    fs_read fs' keeper = fs_read (fs_of k) keeper \<and>
    list_all2 (moved_ticket Y k dir scope short fs') losers (map snd planned) \<and>
    (\<forall>p. p \<notin> set losers \<longrightarrow> p \<notin> rn_new_path ` snd ` set planned \<longrightarrow> fs_read fs' p = fs_read (fs_of k) p)"
proof -
  obtain keeper losers where ext: "extend_losers (extend_loser Y (reads_of k) scope (map hd_path (keeper # losers))) losers occ
       (set (map fst occ)) = Inr (planned, occ')"
    and read: "\<forall>h \<in> set (keeper # losers). \<exists>r \<in> set rows. read_holder Y (reads_of k) r = Inr h"
    and paths: "mset (map hd_path (keeper # losers)) = mset (map rp_path rows)" and first: "\<forall>h \<in> set losers. \<not> holder_before X h keeper"
    using duplicate_id_Inr [OF run] by (elim exE conjE)
  have h: "read_loser Y k dir short h \<and> to_collision h = member_at Y (reads_of k) (hd_path h)" if mem: "h \<in> set (keeper # losers)" for h
  proof -
    obtain r where r: "r \<in> set rows" "read_holder Y (reads_of k) r = Inr h" using bspec [OF read mem] by (elim bexE)
    then have "(path_dir (rp_path r) = dir \<or> path_dir (rp_path r) = path_join dir archive_dir) \<and> rp_short r = short"
      using rows unfolding collision_rows_def by blast
    with read_holder_Inr [OF r(2)] read_holder_member [OF r(2)] show ?thesis by (simp add: read_loser_def)
  qed
  have losers: "\<forall>h \<in> set losers. read_loser Y k dir short h" using h by simp
  have distinct: "distinct (map hd_path (keeper # losers))"
    using rows paths unfolding collision_rows_def by (metis mset_eq_imp_distinct_iff)
  have P: "\<forall>p \<in> hd_path ` set (keeper # losers). bears_id Y (reads_of k) scope short p \<and> reads_of k p \<noteq> ReadMissing"
  proof
    fix p assume p: "p \<in> hd_path ` set (keeper # losers)"
    then obtain g where g: "g \<in> set (keeper # losers)" "p = hd_path g" by blast
    have "set (map hd_path (keeper # losers)) = set (map rp_path rows)" by (rule mset_eq_setD [OF paths])
    then have "p \<in> rp_path ` set rows" using p by auto
    then have "bears_id Y (reads_of k) scope short p" using rows unfolding collision_rows_def by blast
    moreover have "file_model Y (reads_of k) p = Some (hd_model g, hd_body g)" using h [OF g(1)] g(2) by (simp add: read_loser_def)
    then have "reads_of k p \<noteq> ReadMissing" by (auto simp: file_model_Some)
    ultimately show "bears_id Y (reads_of k) scope short p \<and> reads_of k p \<noteq> ReadMissing" ..
  qed
  have "occ_now (reads_of k) occ occ (set (map fst occ))" by (simp add: occ_now_def)
  moreover have "\<forall>h \<in> set losers. mintable (reads_of k) scope occ h" using loser_mintable [OF ok occ] losers by blast
  ultimately obtain ss where ss: "length ss = length planned"
    "list_all2 (loser_op Y (reads_of k) scope occ) losers (zip planned ss)" "sorted_wrt (\<lambda>s t. map_of occ t = None \<longrightarrow> s \<noteq> t) ss"
    using extend_losers_Inr [OF ext] by blast
  have sub: "distinct (map hd_path losers)" "hd_path ` set losers \<subseteq> hd_path ` set (keeper # losers)"
    "hd_path keeper \<in> hd_path ` set (keeper # losers) - hd_path ` set losers" using distinct by auto
  from losers_applied [OF ok occ losers sub(1) P sub(2) ss(2,1,3)] obtain touched fs' where
    fin: "apply_ops (map fst planned) (fs_of k) = (None, touched, fs')"
      "list_all2 (moved_ticket Y k dir scope short fs') (map hd_path losers) (map snd planned)"
      "\<forall>p. p \<notin> hd_path ` set losers \<longrightarrow> p \<notin> rn_new_path ` snd ` set planned \<longrightarrow> fs_read fs' p = fs_read (fs_of k) p"
      "\<forall>p \<in> hd_path ` set (keeper # losers) - hd_path ` set losers. fs_read fs' p = fs_read (fs_of k) p"
    by (elim exE conjE)
  have "\<not> keep_before X (member_at Y (reads_of k) p) (member_at Y (reads_of k) (hd_path keeper))" if "p \<in> set (map hd_path losers)" for p
    using that first h by (auto simp: holder_before_def)
  moreover have "mset (hd_path keeper # map hd_path losers) = mset (map rp_path rows)" using paths by simp
  ultimately show ?thesis using fin sub(3)
    by (intro exI [of _ "hd_path keeper"] exI [of _ "map hd_path losers"] exI [of _ touched] exI [of _ fs']) simp
qed

definition twin_table :: "(fm_model \<times> string) list" where
  "twin_table = [(doc_ticket ''app-abcd'' ''todo'' [] ''a0'', line_of ''A''), (doc_ticket ''app-abcd'' ''done'' [] ''a1'', line_of ''B''),
     (doc_ticket ''app-abcda'' ''done'' [] ''a1'', line_of ''C'')]"

definition twin_disk :: disk where
  "twin_disk = mc_disk (machine_of [(''/s/app-abcd-x.md'', compose (line_of ''A'') ''# T''),
     (''/s/app-abcd-y.md'', compose (line_of ''B'') ''# U'')])"

definition twin_row :: "string \<Rightarrow> repair_row" where
  "twin_row p = \<lparr>rp_path = p, rp_full = ''app-abcd'', rp_short = ''abcd'', rp_order = ''a0'', rp_fault = False\<rparr>"

definition twin_rows :: "repair_row list" where
  "twin_rows = [twin_row ''/s/app-abcd-y.md'', twin_row ''/s/app-abcd-x.md'']"

definition twin_occupied :: occupied where
  "twin_occupied = [(''abcd'', ''/s/app-abcd-x.md'')]"

definition twin_plan :: "(rw_op \<times> rename) list" where
  "twin_plan = [(\<lparr>op_old = ''/s/app-abcd-y.md'', op_new = ''/s/app-abcda-y.md'', op_content = compose (line_of ''C'') ''# U''\<rparr>,
     \<lparr>rn_old_id = ''app-abcd'', rn_new_id = ''app-abcda'', rn_old_path = ''/s/app-abcd-y.md'', rn_new_path = ''/s/app-abcda-y.md''\<rparr>)]"

lemma twin_occupied_paths: "occupied_short_paths (table_codec twin_table) twin_disk ''/s'' ''app'' = Some twin_occupied"
  by code_simp

lemma twin_run:
  "duplicate_id (table_codec twin_table) sample_externals (reads_of twin_disk) ''app'' twin_rows twin_occupied =
     Inr (twin_plan, twin_occupied @ [(''abcda'', ''/s/app-abcda-y.md'')])"
  by code_simp

lemma twin_files:
  "file_model (table_codec twin_table) (reads_of twin_disk) ''/s/app-abcd-x.md'' = Some (doc_ticket ''app-abcd'' ''todo'' [] ''a0'', ''# T'')"
  "file_model (table_codec twin_table) (reads_of twin_disk) ''/s/app-abcd-y.md'' = Some (doc_ticket ''app-abcd'' ''done'' [] ''a1'', ''# U'')"
  by code_simp+

theorem duplicate_id_repaired_witness:
  "\<exists>keeper losers touched fs'. mset (keeper # losers) = mset (map rp_path twin_rows) \<and>
    apply_ops (map fst twin_plan) (fs_of twin_disk) = (None, touched, fs') \<and>
    fs_read fs' keeper = fs_read (fs_of twin_disk) keeper \<and>
    list_all2 (moved_ticket (table_codec twin_table) twin_disk ''/s'' ''app'' ''abcd'' fs') losers (map snd twin_plan)"
proof -
  have "codec_ok (table_codec twin_table)" by (rule table_codec_ok) code_simp+
  moreover have "disk_ok twin_disk" "archive_listed ''/s'' twin_disk" "''/s'' \<in> set (dk_dirs twin_disk)" "is_scope_name ''app''" by code_simp+
  ultimately have ok: "repair_disk_ok (table_codec twin_table) twin_disk ''/s'' ''app''" by (simp add: repair_disk_ok_def)
  have ids: "fm_id (doc_ticket ''app-abcd'' ''todo'' [] ''a0'') = full_id ''app'' ''abcd''"
    "fm_id (doc_ticket ''app-abcd'' ''done'' [] ''a1'') = full_id ''app'' ''abcd''" by (simp_all add: doc_ticket_def full_id_def)
  have "path_dir ''/s/app-abcd-x.md'' = ''/s''" "path_dir ''/s/app-abcd-y.md'' = ''/s''" by code_simp+
  then have "collision_rows (table_codec twin_table) twin_disk ''/s'' ''app'' ''abcd'' twin_rows"
    using twin_files ids by (simp add: collision_rows_def twin_rows_def twin_row_def bears_id_def)
  from duplicate_id_repaired [OF ok twin_occupied_paths this twin_run] show ?thesis by blast
qed

end
