(* ===== verification/Adoptions.thy ===== *)
theory Adoptions
  imports Prefixes IdRepairs
begin

text \<open>
  What the adoption of \<open>internal/repair/prefix.go\<close> promises: the hand-written scan for a full id answers as its
  specification does, and a scope whose foreign files were adopted holds only files of its own prefix.
\<close>

section \<open>The scan for a full id\<close>

lemma index_sub_None: "index_sub needle s = None \<Longrightarrow> \<not> prefix needle (drop i s)"
proof (induction s arbitrary: i)
  case (Cons c cs)
  then show ?case by (cases i) (auto split: if_splits)
qed (simp split: if_splits)

lemma index_sub_Some:
  "index_sub needle s = Some j \<Longrightarrow> j \<le> length s \<and> prefix needle (drop j s) \<and> (\<forall>i<j. \<not> prefix needle (drop i s))"
proof (induction s arbitrary: j)
  case (Cons c cs)
  show ?case
  proof (cases "prefix needle (c # cs)")
    case False
    then obtain j' where j': "index_sub needle cs = Some j'" "j = Suc j'" using Cons.prems by auto
    have "\<not> prefix needle (drop i (c # cs))" if "i < j" for i
      using Cons.IH [OF j'(1)] False that j'(2) by (cases i) auto
    with Cons.IH [OF j'(1)] j'(2) show ?thesis by auto
  qed (use Cons.prems in simp)
qed (simp split: if_splits)

text \<open>The id stands at a position with nothing of an identifier around it.\<close>

definition id_at :: "string \<Rightarrow> string \<Rightarrow> nat \<Rightarrow> bool" where
  "id_at b full i \<longleftrightarrow>
     i \<le> length b \<and> prefix full (drop i b) \<and> (i = 0 \<or> \<not> is_ident_byte (b ! (i - 1))) \<and>
     (i + length full = length b \<or> index_byte (b ! (i + length full)) short_id_alphabet = None)"

lemma contains_exact_from_iff: "contains_exact_from b full start \<longleftrightarrow> (\<exists>i \<ge> start. id_at b full i)"
proof (induction b full start rule: contains_exact_from.induct)
  case (1 b full start)
  show ?case
  proof (cases "start > length b")
    case True
    then show ?thesis by (subst contains_exact_from.simps) (auto simp: id_at_def)
  next
    case False
    show ?thesis
    proof (cases "index_sub full (drop start b)")
      case None
      have "\<not> prefix full (drop i b)" if "i \<ge> start" for i
        using index_sub_None [OF None, of "i - start"] that by simp
      then have "\<not> (\<exists>i \<ge> start. id_at b full i)" by (auto simp: id_at_def)
      with None False show ?thesis by (subst contains_exact_from.simps) simp
    next
      case (Some j)
      let ?i = "j + start"
      have at: "?i \<le> length b" "prefix full (drop ?i b)" and before: "\<not> prefix full (drop i b)" if "start \<le> i" "i < ?i" for i
        using index_sub_Some [OF Some] False that by (auto simp: add.commute dest!: spec [of _ "i - start"])
      have at: "?i \<le> length b" "prefix full (drop ?i b)" using index_sub_Some [OF Some] False by (auto simp: add.commute)
      have none: "\<not> id_at b full i" if "start \<le> i" "i < ?i" for i using before [OF that] by (simp add: id_at_def)
      let ?ok = "(?i = 0 \<or> \<not> is_ident_byte (b ! (?i - 1))) \<and>
         (?i + length full = length b \<or> index_byte (b ! (?i + length full)) short_id_alphabet = None)"
      have ok: "?ok \<longleftrightarrow> id_at b full ?i" using at by (simp add: id_at_def)
      have step: "contains_exact_from b full start \<longleftrightarrow> ?ok \<or> contains_exact_from b full (?i + 1)"
        using Some False by (subst contains_exact_from.simps) (auto simp: Let_def)
      show ?thesis
      proof (cases ?ok)
        case True
        then show ?thesis unfolding step using ok by (auto intro!: exI [of _ ?i])
      next
        case bad: False
        have "contains_exact_from b full (?i + 1) \<longleftrightarrow> (\<exists>i \<ge> ?i + 1. id_at b full i)"
          using 1 [OF False Some refl refl refl refl] bad by simp
        moreover have "(\<exists>i \<ge> ?i + 1. id_at b full i) \<longleftrightarrow> (\<exists>i \<ge> start. id_at b full i)"
        proof
          assume "\<exists>i \<ge> start. id_at b full i"
          then obtain i where i: "i \<ge> start" "id_at b full i" by blast
          have "\<not> i < ?i" using none [OF i(1)] i(2) by blast
          moreover have "i \<noteq> ?i" using i(2) ok bad by blast
          ultimately show "\<exists>i \<ge> ?i + 1. id_at b full i" using i(2) by (intro exI [of _ i]) simp
        qed (meson add_leD2 le_trans le_add2 less_imp_le_nat add_leD1)
        ultimately show ?thesis unfolding step using bad by blast
      qed
    qed
  qed
qed

text \<open>The byte scan finds a full id exactly when the text holds it as a whole word: somewhere the id stands
  with no letter or digit just before it and no character of the short id alphabet just after, so an id is never taken for a
  longer one of its family, and no occurrence is missed after a partial one.\<close>

theorem contains_exact_spec:
  "contains_exact_full_id b full \<longleftrightarrow>
     (\<exists>u v. b = u @ full @ v \<and> (u = [] \<or> \<not> is_ident_byte (last u)) \<and> (v = [] \<or> hd v \<notin> set short_id_alphabet))"
proof
  assume "contains_exact_full_id b full"
  then obtain i where i: "id_at b full i" by (auto simp: contains_exact_full_id_def contains_exact_from_iff)
  then obtain v where v: "drop i b = full @ v" by (auto simp: id_at_def prefix_def)
  have b: "b = take i b @ full @ v" using v append_take_drop_id [of i b] by simp
  have "i \<le> length b" using i by (simp add: id_at_def)
  then have len: "length b = i + length full + length v" using arg_cong [OF v, of length] by simp
  have "take i b = [] \<or> \<not> is_ident_byte (last (take i b))"
    using i \<open>i \<le> length b\<close> by (cases i) (auto simp: id_at_def take_Suc_conv_app_nth)
  moreover have "v = [] \<or> hd v \<notin> set short_id_alphabet"
  proof (cases v)
    case (Cons c w)
    have "b ! (i + length full) = c" using nth_drop [of i b "length full"] \<open>i \<le> length b\<close> v Cons by simp
    then show ?thesis using i len Cons by (auto simp: id_at_def index_byte_None)
  qed simp
  ultimately show "\<exists>u v. b = u @ full @ v \<and> (u = [] \<or> \<not> is_ident_byte (last u)) \<and> (v = [] \<or> hd v \<notin> set short_id_alphabet)"
    using b by blast
next
  assume "\<exists>u v. b = u @ full @ v \<and> (u = [] \<or> \<not> is_ident_byte (last u)) \<and> (v = [] \<or> hd v \<notin> set short_id_alphabet)"
  then obtain u v where b: "b = u @ full @ v" "u = [] \<or> \<not> is_ident_byte (last u)" "v = [] \<or> hd v \<notin> set short_id_alphabet" by blast
  have "id_at b full (length u)"
    using b by (auto simp: id_at_def nth_append last_conv_nth index_byte_None hd_conv_nth)
  then show "contains_exact_full_id b full" by (auto simp: contains_exact_full_id_def contains_exact_from_iff)
qed

section \<open>What a finished rewrite leaves\<close>

lemma apply_final:
  "apply_ops xs fs = (None, t, fs') \<Longrightarrow>
     (fs_read fs' p \<noteq> None \<longrightarrow> fs_read fs p \<noteq> None \<or> p \<in> op_new ` set xs) \<and>
     (\<forall>x \<in> set xs. moved x \<longrightarrow> op_old x \<notin> op_new ` set xs \<longrightarrow> fs_read fs' (op_old x) = None) \<and>
     (\<forall>q. q \<notin> op_new ` set xs \<longrightarrow> fs_read fs q = None \<longrightarrow> fs_read fs' q = None) \<and>
     (\<forall>q. q \<notin> op_old ` set (filter moved xs) \<longrightarrow> fs_read fs q \<noteq> None \<longrightarrow> fs_read fs' q \<noteq> None) \<and>
     (\<forall>x \<in> set xs. op_new x \<notin> op_old ` set (filter moved xs) \<longrightarrow> fs_read fs' (op_new x) \<noteq> None)"
proof (induction xs arbitrary: fs t)
  case Nil
  then show ?case by simp
next
  case (Cons x xs)
  show ?case
  proof (cases x fs rule: apply_round)
    case skip
    obtain t1 where run: "apply_ops xs fs = (None, t1, fs')"
      using Cons.prems apply_skip [OF skip] by (cases "apply_ops xs fs") (auto simp: touching_def)
    have "fs_read fs (op_old x) = None" "fs_read fs (op_new x) \<noteq> None" using skip(2) by (auto simp: already_done_def split: if_splits)
    with Cons.IH [OF run] skip(1) show ?thesis by auto
  next
    case (refuse e)
    then show ?thesis using Cons.prems apply_refuse [OF refuse] by simp
  next
    case put
    let ?fs1 = "fs_write (op_new x) (op_content x) fs"
    let ?fs2 = "if moved x then fs_remove (op_old x) ?fs1 else ?fs1"
    obtain t1 where run: "apply_ops xs ?fs2 = (None, t1, fs')"
      using Cons.prems apply_put [OF put] by (cases "apply_ops xs ?fs2") (auto simp: touching_def Let_def)
    have r: "fs_read ?fs2 q = (if moved x \<and> q = op_old x then None else if q = op_new x then Some (op_content x) else fs_read fs q)" for q
      by simp
    have ne: "moved x \<Longrightarrow> op_old x \<noteq> op_new x" by (simp add: moved_def)
    note IH = Cons.IH [OF run, unfolded r]
    show ?thesis
    proof (intro conjI impI ballI allI)
      show "fs_read fs p \<noteq> None \<or> p \<in> op_new ` set (x # xs)" if "fs_read fs' p \<noteq> None"
        using IH that by (auto split: if_splits)
      show "fs_read fs' (op_old y) = None" if "y \<in> set (x # xs)" "moved y" "op_old y \<notin> op_new ` set (x # xs)" for y
        using IH that by (cases "y = x") auto
      show "fs_read fs' q = None" if "q \<notin> op_new ` set (x # xs)" "fs_read fs q = None" for q
        using IH that by auto
      show "fs_read fs' q \<noteq> None" if "q \<notin> op_old ` set (filter moved (x # xs))" "fs_read fs q \<noteq> None" for q
        using IH that by (auto split: if_splits)
      show "fs_read fs' (op_new y) \<noteq> None" if "y \<in> set (x # xs)" "op_new y \<notin> op_old ` set (filter moved (x # xs))" for y
        using IH that ne by (cases "y = x") (auto split: if_splits)
    qed
  qed
qed

section \<open>The ids an adoption gives\<close>

text \<open>An adoptee, with the short id it asks for and, once it was assigned, a path in its directory that bears an id of the scope.\<close>

definition adoptee_ok :: "string \<Rightarrow> adoptee \<Rightarrow> bool" where
  "adoptee_ok dir a \<longleftrightarrow>
     is_short_id (ad_short a) \<and> ad_base a = path_base (ad_path a) \<and>
     path_dir (ad_path a) \<in> {dir, path_join dir archive_dir, path_join dir design_dir}"

definition named_in :: "string \<Rightarrow> string \<Rightarrow> bool" where
  "named_in scope p \<longleftrightarrow> (\<forall>full. ticket_id_from_base (path_base p) = Some full \<longrightarrow> scope_of_full_id full = scope)"

lemma new_basename_scope:
  assumes "is_scope_name scope" "is_short_id s" "ticket_id_from_base (new_basename base (full_id scope s)) = Some full"
  shows "scope_of_full_id full = scope"
proof -
  obtain a b where f: "full = full_id a b" "is_scope_name a" "is_short_id b"
    using assms(3) full_ticket_id_iff by (auto simp: ticket_id_from_base_iff)
  have "\<exists>x. new_basename base (full_id scope s) = scope @ CHR ''-'' # x"
    using new_basename_forms [OF refl, of base scope s] by (auto simp: full_id_def)
  moreover have "\<exists>y. new_basename base (full_id scope s) = a @ CHR ''-'' # y"
    using assms(3) f(1) by (auto simp: ticket_id_from_base_iff full_id_def)
  ultimately have "scope = a" using split_at_sep scope_name_no_hyphen [OF assms(1)] scope_name_no_hyphen [OF f(2)] by metis
  then show ?thesis using f assms(1) by simp
qed

lemma adopted_path_named:
  assumes "is_scope_name scope" "is_short_id s" "slashless base"
  shows "named_in scope (path_join d (new_basename base (full_id scope s)))"
  using new_basename_scope [OF assms(1,2)] new_basename_slashless [OF assms(3,1,2)] by (simp add: named_in_def)

lemma full_id_short:
  "is_full_ticket_id full \<Longrightarrow> is_short_id (trim_prefix (scope_of_full_id full @ ''-'') full)"
  by (auto simp: full_ticket_id_iff) (metis append.assoc append_Cons append_Nil full_id_def trim_prefix_append)

lemma read_adoptee_Inr:
  assumes "read_adoptee Y rd dir f = Inr a"
  shows "ad_path a = pm_path f \<and> ad_base a = path_base (pm_path f) \<and> ad_filename_id a = pm_id f \<and>
    (\<exists>full. ad_short a = trim_prefix (scope_of_full_id full @ ''-'') full \<and> (full = pm_id f \<or> is_full_ticket_id full))"
proof -
  obtain raw where raw: "read_file rd (pm_path f) = Inr raw" using assms by (auto simp: read_adoptee_def rbind_Inr_iff)
  obtain interior body present where s: "split_fence raw = (interior, body, present)" by (cases "split_fence raw")
  let ?T = "\<lambda>full. trim_prefix (scope_of_full_id full @ ''-'') full"
  note run = assms [unfolded read_adoptee_def raw rbind.simps Let_def s prod.case]
  consider (plain) "\<not> present" | (broken) e where "present" "parse_fm Y interior = Inl e"
    | (full) m where "present" "parse_fm Y interior = Inr m" "is_full_ticket_id (fm_id m)"
    | (other) m where "present" "parse_fm Y interior = Inr m" "\<not> is_full_ticket_id (fm_id m)"
    by (cases present; cases "parse_fm Y interior") blast+
  then have "ad_path a = pm_path f \<and> ad_base a = path_base (pm_path f) \<and> ad_filename_id a = pm_id f \<and>
     (ad_short a = ?T (pm_id f) \<or> (\<exists>m :: fm_model. is_full_ticket_id (fm_id m) \<and> ad_short a = ?T (fm_id m)))"
  proof cases
    case full
    then show ?thesis using run by auto
  qed (use run in auto)
  then show ?thesis by blast
qed

lemma read_adoptee_ok:
  assumes "read_adoptee Y rd dir f = Inr a" "is_full_ticket_id (pm_id f)"
    "path_dir (pm_path f) \<in> {dir, path_join dir archive_dir, path_join dir design_dir}"
  shows "adoptee_ok dir a \<and> ad_path a = pm_path f"
proof -
  obtain full where "ad_short a = trim_prefix (scope_of_full_id full @ ''-'') full" "is_full_ticket_id full"
    using read_adoptee_Inr [OF assms(1)] assms(2) by blast
  then have "is_short_id (ad_short a)" using full_id_short by simp
  with read_adoptee_Inr [OF assms(1)] assms(3) show ?thesis by (simp add: adoptee_ok_def)
qed

section \<open>An adoption leaves no foreign name\<close>

definition scope_roots :: "string \<Rightarrow> string list" where
  "scope_roots dir = [dir, path_join dir archive_dir, path_join dir design_dir]"

definition roots_listed :: "string \<Rightarrow> disk \<Rightarrow> bool" where
  "roots_listed dir k \<longleftrightarrow>
     (\<forall>p \<in> fst ` set (dk_files k). path_dir p \<in> set (scope_roots dir) \<longrightarrow> path_dir p \<in> set (dk_dirs k))"

lemma mem_mismatches_in:
  "x \<in> set (mismatches_in scope root names) \<longleftrightarrow>
     (\<exists>name \<in> set names. pm_path x = path_join root name \<and> ticket_id_from_base name = Some (pm_id x) \<and> scope_of_full_id (pm_id x) \<noteq> scope)"
proof -
  have eq: "x = \<lparr>pm_path = p, pm_id = i\<rparr> \<longleftrightarrow> pm_path x = p \<and> pm_id x = i" for p i by (cases x) auto
  have "(case ticket_id_from_base name of None \<Rightarrow> None
       | Some full \<Rightarrow> if scope_of_full_id full = scope then None else Some \<lparr>pm_path = path_join root name, pm_id = full\<rparr>) = Some x \<longleftrightarrow>
     pm_path x = path_join root name \<and> ticket_id_from_base name = Some (pm_id x) \<and> scope_of_full_id (pm_id x) \<noteq> scope" for name
    using eq by (cases "ticket_id_from_base name") (auto simp: eq_commute [of _ x])
  then show ?thesis by (simp add: mismatches_in_def mem_map_filter)
qed

lemma mismatch_scan_mem:
  "mismatch_scan k scope i roots = Some xs \<Longrightarrow>
     x \<in> set xs \<longleftrightarrow> (\<exists>root \<in> set roots. \<exists>names. read_dir k root = Some names \<and> x \<in> set (mismatches_in scope root names))"
proof (induction roots arbitrary: i xs)
  case (Cons root roots)
  show ?case
  proof (cases "read_dir k root")
    case None
    then have "mismatch_scan k scope (Suc i) roots = Some xs" using Cons.prems by (simp split: if_splits)
    from Cons.IH [OF this] None show ?thesis by auto
  next
    case (Some names)
    then obtain ys where ys: "mismatch_scan k scope (Suc i) roots = Some ys" "xs = mismatches_in scope root names @ ys"
      using Cons.prems by auto
    from Cons.IH [OF ys(1)] ys(2) Some show ?thesis by auto
  qed
qed simp

lemma mem_prefix_mismatches:
  assumes "disk_ok k" "prefix_mismatches k dir scope = Some files"
  shows "x \<in> set files \<longleftrightarrow>
    (\<exists>root \<in> set (scope_roots dir). \<exists>name. root \<in> set (dk_dirs k) \<and> slashless name \<and> disk_file k (path_join root name) \<noteq> None \<and>
       pm_path x = path_join root name \<and> ticket_id_from_base name = Some (pm_id x) \<and> scope_of_full_id (pm_id x) \<noteq> scope)"
proof -
  obtain xs where xs: "mismatch_scan k scope 0 (scope_roots dir) = Some xs" "files = sort_key pm_path xs"
    using assms(2) by (auto simp: prefix_mismatches_def scope_roots_def)
  have "(\<exists>names. read_dir k root = Some names \<and> x \<in> set (mismatches_in scope root names)) \<longleftrightarrow>
      (\<exists>name. root \<in> set (dk_dirs k) \<and> slashless name \<and> disk_file k (path_join root name) \<noteq> None \<and>
       pm_path x = path_join root name \<and> ticket_id_from_base name = Some (pm_id x) \<and> scope_of_full_id (pm_id x) \<noteq> scope)" for root
  proof (cases "read_dir k root")
    case None
    then have "root \<notin> set (dk_dirs k)" by (auto simp: read_dir_def split: if_splits)
    with None show ?thesis by simp
  next
    case (Some names)
    then have "root \<in> set (dk_dirs k)" by (auto simp: read_dir_def split: if_splits)
    then show ?thesis using Some read_dir_mem(2) [OF assms(1) Some] by (auto simp: mem_mismatches_in)
  qed
  with mismatch_scan_mem [OF xs(1), of x] xs(2) show ?thesis by simp
qed

text \<open>A file of a root that does not bear an id of the scope is one of the mismatches.\<close>

lemma foreign_listed:
  assumes k: "disk_ok k" "roots_listed dir k" and files: "prefix_mismatches k dir scope = Some files"
    and p: "disk_file k p \<noteq> None" "path_dir p \<in> set (scope_roots dir)" "\<not> named_in scope p"
  shows "p \<in> pm_path ` set files"
proof -
  obtain full where full: "ticket_id_from_base (path_base p) = Some full" "scope_of_full_id full \<noteq> scope"
    using p(3) by (auto simp: named_in_def)
  have mem: "p \<in> fst ` set (dk_files k)" using p(1) by (force simp: disk_file_def dest: map_of_SomeD)
  then have "path_join (path_dir p) (path_base p) = p" using k(1) by (intro path_join_dir_base) (auto simp: disk_ok_def)
  moreover have "path_dir p \<in> set (dk_dirs k)" using k(2) mem p(2) unfolding roots_listed_def by blast
  ultimately have "\<lparr>pm_path = p, pm_id = full\<rparr> \<in> set files"
    unfolding mem_prefix_mismatches [OF k(1) files]
    using full p by (intro bexI [of _ "path_dir p"] exI [of _ "path_base p"]) auto
  then show ?thesis by force
qed

lemma load_adoptees_Inr: "load_adoptees Y rd dir fs = Inr as \<Longrightarrow> list_all2 (\<lambda>f a. read_adoptee Y rd dir f = Inr a) fs as"
  by (induction fs arbitrary: as) (auto simp: rbind_Inr_iff map_sum_Inr)

lemma map_all2_eq: "list_all2 P xs ys \<Longrightarrow> (\<And>x y. x \<in> set xs \<Longrightarrow> P x y \<Longrightarrow> f x = g y) \<Longrightarrow> map f xs = map g ys"
  by (induction rule: list_all2_induct) auto

lemma loaded_ok:
  assumes "disk_ok k" "prefix_mismatches k dir scope = Some files" "load_adoptees Y rd dir files = Inr ads"
  shows "\<forall>a \<in> set ads. adoptee_ok dir a" "map ad_path ads = map pm_path files"
proof -
  note all = load_adoptees_Inr [OF assms(3)]
  have one: "adoptee_ok dir a \<and> ad_path a = pm_path f" if "f \<in> set files" "read_adoptee Y rd dir f = Inr a" for f a
  proof (rule read_adoptee_ok [OF that(2)])
    have f: "ticket_id_from_base (path_base (pm_path f)) = Some (pm_id f)" "path_dir (pm_path f) \<in> set (scope_roots dir)"
      using that(1) unfolding mem_prefix_mismatches [OF assms(1,2)] by auto
    then show "is_full_ticket_id (pm_id f)" "path_dir (pm_path f) \<in> {dir, path_join dir archive_dir, path_join dir design_dir}"
      by (auto simp: ticket_id_from_base_iff scope_roots_def)
  qed
  show "\<forall>a \<in> set ads. adoptee_ok dir a" using all one by (fastforce simp: list_all2_conv_all_nth in_set_conv_nth)
  have "map pm_path files = map ad_path ads" by (rule map_all2_eq [OF all]) (simp add: one)
  then show "map ad_path ads = map pm_path files" ..
qed

lemma mset_in_groups: "set (in_groups X ads) = set ads"
  by (auto simp: in_groups_def)

text \<open>Whatever is assigned keeps its place and gets a path that bears an id of the scope.\<close>

lemma assign_each_Inr:
  assumes "assign_each scope pins taken as = Inr out" "is_scope_name scope" "\<forall>a \<in> set as. adoptee_ok dir a"
    and "\<forall>(p, h) \<in> set pins. named_in scope (rh_path h)"
  shows "list_all2 (\<lambda>a b. ad_path b = ad_path a \<and> named_in scope (ad_new_path b)) as out"
  using assms(1,3)
proof (induction as arbitrary: taken out)
  case (Cons a as)
  show ?case
  proof (cases "map_of pins (ad_path a)")
    case (Some hit)
    then have "named_in scope (rh_path hit)" using assms(4) by (auto dest: map_of_SomeD)
    then show ?thesis using Cons Some by (auto simp: map_sum_Inr)
  next
    case None
    obtain got taken' where t: "take_short (ad_short a) taken = Inr (got, taken')"
      using Cons.prems(1) None by (cases "take_short (ad_short a) taken") auto
    have s: "is_short_id got"
      using t Cons.prems(2) extend_Inr(2) by (auto simp: take_short_def adoptee_ok_def map_sum_Inr split: if_splits)
    have "named_in scope (path_join (path_dir (ad_path a)) (new_basename (ad_base a) (full_id scope got)))"
      by (rule adopted_path_named [OF assms(2) s]) (use Cons.prems(2) in \<open>simp add: adoptee_ok_def\<close>)
    then show ?thesis using Cons None t by (auto simp: map_sum_Inr Let_def)
  qed
qed simp

lemma assign_pinned_Inr:
  assumes "assign_pinned X scope ads occ pins ex = Inr out" "is_scope_name scope" "\<forall>a \<in> set ads. adoptee_ok dir a"
    and "\<forall>(p, h) \<in> set pins. named_in scope (rh_path h)"
  shows "ad_path ` set out = ad_path ` set ads" "\<forall>b \<in> set out. named_in scope (ad_new_path b)"
proof -
  have all: "list_all2 (\<lambda>a b. ad_path b = ad_path a \<and> named_in scope (ad_new_path b)) (in_groups X ads) out"
    by (rule assign_each_Inr [OF assms(1) [unfolded assign_pinned_def] assms(2) _ assms(4)]) (use assms(3) in \<open>simp add: mset_in_groups\<close>)
  then have "map ad_path (in_groups X ads) = map ad_path out" by (rule map_all2_eq) simp
  from arg_cong [OF this, of set] show "ad_path ` set out = ad_path ` set ads" by (simp add: mset_in_groups)
  show "\<forall>b \<in> set out. named_in scope (ad_new_path b)" using all by (auto simp: list_all2_conv_all_nth in_set_conv_nth)
qed

definition pins_named :: "string \<Rightarrow> pins \<Rightarrow> bool" where
  "pins_named scope pins \<longleftrightarrow> (\<forall>(p, h) \<in> set pins. named_in scope (rh_path h))"

lemma pins_named_update: "pins_named scope pins \<Longrightarrow> named_in scope (rh_path h) \<Longrightarrow> pins_named scope (AList.update p h pins)"
  by (induction pins) (auto simp: pins_named_def)

lemma candidate_hits_named:
  "candidate_hits Y rd scope a names = Inr hits \<Longrightarrow> \<forall>name \<in> set names. slashless name \<Longrightarrow> \<forall>h \<in> set hits. named_in scope (rh_path h)"
proof (induction names arbitrary: hits)
  case (Cons name names)
  show ?case
  proof (cases "candidate_name scope a name")
    case None
    then show ?thesis using Cons by (simp add: Let_def)
  next
    case (Some short)
    then have "named_in scope (path_join (path_dir (ad_path a)) name)"
      using Cons.prems(2) by (auto simp: named_in_def candidate_name_def Let_def split: option.splits if_splits)
    with Cons Some show ?thesis by (auto simp: Let_def rbind_Inr_iff map_sum_Inr split: if_splits)
  qed
qed simp

lemma gathered_named:
  "gather_candidates Y k rd scope as = Inr cands \<Longrightarrow> disk_ok k \<Longrightarrow>
     map fst cands = map ad_path as \<and> (\<forall>(p, hits) \<in> set cands. \<forall>h \<in> set hits. named_in scope (rh_path h))"
proof (induction as arbitrary: cands)
  case (Cons a as)
  obtain hits cs where h: "adopt_candidates Y k rd scope a = Inr hits" "gather_candidates Y k rd scope as = Inr cs" "cands = (ad_path a, hits) # cs"
    using Cons.prems(1) by (auto simp: rbind_Inr_iff map_sum_Inr)
  obtain names hs where n: "read_dir k (path_dir (ad_path a)) = Some names" "candidate_hits Y rd scope a names = Inr hs" "set hits = set hs"
    using h(1) by (auto simp: adopt_candidates_def map_sum_Inr split: option.splits)
  have "\<forall>name \<in> set names. slashless name" using read_dir_mem(2) [OF Cons.prems(2) n(1)] by blast
  from candidate_hits_named [OF n(2) this] n(3) Cons.IH [OF h(2) Cons.prems(2)] h(3) show ?case by auto
qed simp

lemma try_hits_mem: "try_hits Y X P path rejected accepted hits = Inr (Some h) \<Longrightarrow> h \<in> set hits"
  by (induction hits) (auto simp: rbind_Inr_iff split: if_splits)

definition plan_named :: "adopt_plan \<Rightarrow> bool" where
  "plan_named P \<longleftrightarrow>
     map fst (ap_cands P) = map ad_path (ap_ads P) \<and> (\<forall>(p, hits) \<in> set (ap_cands P). \<forall>h \<in> set hits. named_in (ap_scope P) (rh_path h))"

lemma accept_round_named:
  "accept_round Y X P rejected accepted as = Inr (acc, b) \<Longrightarrow> plan_named P \<Longrightarrow> pins_named (ap_scope P) accepted \<Longrightarrow>
     set as \<subseteq> set (ap_ads P) \<Longrightarrow> pins_named (ap_scope P) acc"
proof (induction as arbitrary: accepted b)
  case (Cons a as)
  show ?case
  proof (cases "map_of accepted (ad_path a)")
    case (Some h)
    then show ?thesis using Cons by simp
  next
    case None
    obtain hits where hits: "map_of (ap_cands P) (ad_path a) = Some hits"
    proof (cases "map_of (ap_cands P) (ad_path a)")
      case None
      then have "ad_path a \<notin> set (map fst (ap_cands P))" by (simp add: map_of_eq_None_iff)
      moreover have "set (map fst (ap_cands P)) = set (map ad_path (ap_ads P))" using Cons.prems(2) by (simp only: plan_named_def)
      ultimately show ?thesis using Cons.prems(4) by simp
    next
      case (Some hits)
      then show ?thesis by (rule that)
    qed
    obtain r where r: "try_hits Y X P (ad_path a) rejected accepted hits = Inr r"
      and rest: "(case r of None \<Rightarrow> accept_round Y X P rejected accepted as
        | Some hit \<Rightarrow> map_sum id (\<lambda>(acc, p). (acc, True)) (accept_round Y X P rejected (AList.update (ad_path a) hit accepted) as)) = Inr (acc, b)"
      using Cons.prems(1) None hits by (auto simp: rbind_Inr_iff)
    show ?thesis
    proof (cases r)
      case None
      then show ?thesis using rest Cons.IH [of accepted b] Cons.prems(2-4) by simp
    next
      case (Some hit)
      then obtain p where run: "accept_round Y X P rejected (AList.update (ad_path a) hit accepted) as = Inr (acc, p)"
        using rest by (auto simp: map_sum_Inr)
      have "hit \<in> set hits" by (rule try_hits_mem) (use r Some in simp)
      moreover have "(ad_path a, hits) \<in> set (ap_cands P)" using hits by (rule map_of_SomeD)
      ultimately have "named_in (ap_scope P) (rh_path hit)" using Cons.prems(2) unfolding plan_named_def by blast
      from Cons.IH [OF run Cons.prems(2) pins_named_update [OF Cons.prems(3) this]] Cons.prems(4) show ?thesis by simp
    qed
  qed
qed simp

lemma adopt_rounds_named:
  "adopt_rounds n Y X P rejected accepted = Inr acc \<Longrightarrow> plan_named P \<Longrightarrow> pins_named (ap_scope P) accepted \<Longrightarrow> pins_named (ap_scope P) acc"
proof (induction n arbitrary: rejected accepted)
  case (Suc n)
  obtain acc1 b ordered bad where r: "accept_round Y X P rejected accepted (ap_ads P) = Inr (acc1, b)"
    and rest: "(if length bad > 0 \<or> b then adopt_rounds n Y X P (rejected \<union> set bad) (filter (\<lambda>(p, h). p \<notin> fst ` set bad) acc1) else Inr acc1) = Inr acc"
    using Suc.prems(1) by (auto simp: rbind_Inr_iff)
  have n1: "pins_named (ap_scope P) acc1" by (rule accept_round_named [OF r Suc.prems(2,3)]) simp
  then have "pins_named (ap_scope P) (filter (\<lambda>(p, h). p \<notin> fst ` set bad) acc1)" by (auto simp: pins_named_def)
  with Suc.IH Suc.prems(2) n1 rest show ?case by (metis Inr_inject)
qed simp

lemma plan_prefix_ids_Inr:
  assumes "plan_prefix_ids Y X k rd scope dir ads owned = Inr (ordered, mapped, claimed)" "disk_ok k" "is_scope_name scope"
    and "\<forall>a \<in> set ads. adoptee_ok dir a"
  shows "ad_path ` set ordered = ad_path ` set ads \<and> (\<forall>b \<in> set ordered. named_in scope (ad_new_path b))"
proof -
  obtain occ cands acc where c: "gather_candidates Y k rd scope ads = Inr cands"
    and r: "adopt_rounds (length ads * 2 + 1) Y X \<lparr>ap_scope = scope, ap_ads = ads, ap_occ = occ, ap_owned = owned, ap_cands = cands\<rparr> {} [] = Inr acc"
    and a: "assign_pinned X scope ads occ acc [] = Inr ordered"
    using assms(1) by (auto simp: plan_prefix_ids_def rbind_Inr_iff Let_def simp del: adopt_rounds.simps split: option.splits prod.splits)
  have "pins_named scope acc"
    using adopt_rounds_named [OF r] gathered_named [OF c assms(2)] by (simp add: plan_named_def pins_named_def)
  with assign_pinned_Inr [OF a assms(3,4)] show ?thesis by (simp add: pins_named_def)
qed

lemma plant_ops_Inr:
  "plant_ops Y mapped as = Inr pairs \<Longrightarrow>
     list_all2 (\<lambda>a (x, y). op_old x = [] \<and> op_new x = ad_new_path a \<and> op_old y = ad_path a \<and> op_new y = ad_new_path a) as pairs"
  by (induction as arbitrary: pairs) (auto simp: rbind_Inr_iff map_sum_Inr)

lemma referrer_op:
  assumes "rewrite_referrer Y rd olds mapped skip borne d p = Inr (Some x)"
  shows "op_old x = p \<and> op_new x = p \<and> p \<notin> skip"
proof -
  obtain raw where raw: "read_file rd p = Inr raw" using assms by (auto simp: rewrite_referrer_def rbind_Inr_iff)
  obtain interior body present where s: "split_fence raw = (interior, body, present)" by (cases "split_fence raw")
  note run = assms [unfolded rewrite_referrer_def raw rbind.simps s prod.case]
  show ?thesis
  proof (cases "if present then parse_fm Y interior else Inl (NotAList [])")
    case (Inl e)
    then show ?thesis using run by (simp add: Let_def split: if_splits)
  next
    case (Inr m)
    obtain m' c where l: "apply_links m mapped = (m', c)" by (cases "apply_links m mapped")
    show ?thesis using run [unfolded Inr sum.case l prod.case] by (auto simp: map_sum_Inr split: if_splits)
  qed
qed

lemma collect_tickets_mem:
  assumes "disk_ok k" "collect_tickets k dir root = Some out" "p \<in> set out"
  shows "disk_file k p \<noteq> None \<and> path_dir p = root"
proof -
  obtain names where n: "read_dir k root = Some names" "p \<in> path_join root ` set names"
    using assms(2,3) by (auto simp: collect_tickets_def split: option.splits)
  with read_dir_mem(2) [OF assms(1) n(1)] show ?thesis by auto
qed

lemma list_tickets_mem:
  assumes "disk_ok k" "list_tickets k dir = Some ps" "p \<in> set ps"
  shows "disk_file k p \<noteq> None \<and> path_dir p \<in> set (scope_roots dir)"
proof -
  obtain out where "collect_tickets k dir dir = Some out" using assms(2) by (auto simp: list_tickets_def split: option.splits)
  then consider "p \<in> set out" | out2 where "collect_tickets k dir (path_join dir archive_dir) = Some out2" "p \<in> set out2"
    using assms(2,3) by (auto simp: list_tickets_def Let_def split: option.splits if_splits)
  then show ?thesis using collect_tickets_mem [OF assms(1)] \<open>collect_tickets k dir dir = Some out\<close> by cases (auto simp: scope_roots_def)
qed

lemma design_paths_mem:
  assumes "disk_ok k" "design_paths k dir = Inr ps" "p \<in> set ps"
  shows "disk_file k p \<noteq> None \<and> path_dir p \<in> set (scope_roots dir)"
proof -
  obtain names where n: "read_dir k (path_join dir design_dir) = Some names" "p \<in> path_join (path_join dir design_dir) ` set names"
    using assms(2,3) by (auto simp: design_paths_def Let_def split: option.splits if_splits)
  with read_dir_mem(2) [OF assms(1) n(1)] show ?thesis by (auto simp: scope_roots_def)
qed

lemma referrers_mem:
  assumes "disk_ok k" "plan_prefix_referrers Y k rd dir mapped skip borne = Inr ops" "x \<in> set ops"
  shows "op_old x = op_new x \<and> op_new x \<notin> skip \<and> disk_file k (op_new x) \<noteq> None \<and> path_dir (op_new x) \<in> set (scope_roots dir)"
proof -
  obtain tickets paths ops1 ops2 where t: "list_tickets k dir = Some tickets" and d: "design_paths k dir = Inr paths"
    and o: "gather_ops (rewrite_referrer Y rd (sort (map fst mapped)) mapped skip borne False) tickets = Inr ops1"
      "gather_ops (rewrite_referrer Y rd (sort (map fst mapped)) mapped skip borne True) paths = Inr ops2" "x \<in> set ops1 \<union> set ops2"
    using assms(2,3) by (auto simp: plan_prefix_referrers_def Let_def rbind_Inr_iff map_sum_Inr split: if_splits option.splits)
  from o(3) show ?thesis
  proof
    assume "x \<in> set ops1"
    with gather_ops_mem [OF o(1)] referrer_op list_tickets_mem [OF assms(1) t] show ?thesis by metis
  next
    assume "x \<in> set ops2"
    with gather_ops_mem [OF o(2)] referrer_op design_paths_mem [OF assms(1) d] show ?thesis by metis
  qed
qed

lemma adopt_prefix_Inr:
  assumes "adopt_prefix Y X k rd scope dir owned = Inr (ops, renames)" "prefix_mismatches k dir scope = Some files" "files \<noteq> []"
  shows "\<exists>ads ordered mapped claimed pairs referrers borne. load_adoptees Y rd dir files = Inr ads \<and>
    plan_prefix_ids Y X k rd scope dir ads owned = Inr (ordered, mapped, claimed) \<and>
    plant_ops Y mapped (sort_key ad_path ordered) = Inr pairs \<and>
    plan_prefix_referrers Y k rd dir mapped (ad_path ` set ordered) borne = Inr referrers \<and>
    ops = map fst pairs @ referrers @ map snd pairs \<and>
    map pr_old_path renames = map ad_path (sort_key ad_path ordered) \<and> map pr_new_path renames = map ad_new_path (sort_key ad_path ordered)"
  using assms by (auto simp: adopt_prefix_def rbind_Inr_iff Let_def map_sum_Inr comp_def split: prod.splits)

lemma planted_pairs:
  assumes "plant_ops Y mapped as = Inr pairs"
  shows "a \<in> set as \<Longrightarrow> \<exists>y \<in> set (map snd pairs). op_old y = ad_path a \<and> op_new y = ad_new_path a"
    and "x \<in> set (map fst pairs) \<Longrightarrow> op_old x = [] \<and> op_new x \<in> ad_new_path ` set as"
    and "y \<in> set (map snd pairs) \<Longrightarrow> \<exists>a \<in> set as. op_old y = ad_path a \<and> op_new y = ad_new_path a"
proof -
  note all = plant_ops_Inr [OF assms]
  show "\<exists>y \<in> set (map snd pairs). op_old y = ad_path a \<and> op_new y = ad_new_path a" if "a \<in> set as"
    using all that by (induction rule: list_all2_induct) auto
  show "op_old x = [] \<and> op_new x \<in> ad_new_path ` set as" if "x \<in> set (map fst pairs)"
    using all that by (induction rule: list_all2_induct) auto
  show "\<exists>a \<in> set as. op_old y = ad_path a \<and> op_new y = ad_new_path a" if "y \<in> set (map snd pairs)"
    using all that by (induction rule: list_all2_induct) auto
qed

text \<open>Operations that plant files under new names, unlink the old ones, and otherwise only write where a file already stands:\<close>

lemma applied_adoption:
  assumes applied: "apply_ops ops fs = (None, touched, fs')"
    and kinds: "\<forall>x \<in> set ops. op_new x \<in> new ` B \<or> op_new x \<notin> old ` B \<and> fs_read fs (op_new x) \<noteq> None"
    and moves: "\<forall>x \<in> set ops. moved x \<longrightarrow> op_old x \<in> old ` B"
    and unlink: "\<forall>b \<in> B. \<exists>x \<in> set ops. moved x \<and> op_old x = old b \<and> op_new x = new b"
    and disjoint: "\<forall>a \<in> B. \<forall>b \<in> B. old a \<noteq> new b"
  shows "\<forall>b \<in> B. fs_read fs' (old b) = None \<and> fs_read fs' (new b) \<noteq> None"
    and "fs_read fs p \<noteq> None \<Longrightarrow> p \<notin> old ` B \<Longrightarrow> fs_read fs' p \<noteq> None"
    and "fs_read fs' p \<noteq> None \<Longrightarrow> p \<notin> old ` B \<and> (fs_read fs p \<noteq> None \<or> p \<in> new ` B)"
proof -
  note final = apply_final [OF applied]
  have clear: "old b \<notin> op_new ` set ops" if b: "b \<in> B" for b
  proof
    assume "old b \<in> op_new ` set ops"
    then obtain x where x: "x \<in> set ops" "op_new x = old b" by auto
    with kinds b disjoint show False by (metis imageE imageI)
  qed
  have old: "fs_read fs' (old b) = None" if b: "b \<in> B" for b
  proof -
    obtain x where x: "x \<in> set ops" "moved x" "op_old x = old b" using unlink b by blast
    with final [of "[]"] clear [OF b] show ?thesis by metis
  qed
  have new: "fs_read fs' (new b) \<noteq> None" if b: "b \<in> B" for b
  proof -
    obtain x where x: "x \<in> set ops" "op_new x = new b" using unlink b by blast
    have "op_new x \<notin> op_old ` set (filter moved ops)"
    proof
      assume "op_new x \<in> op_old ` set (filter moved ops)"
      then obtain y where y: "y \<in> set ops" "moved y" "op_old y = new b" using x by auto
      with moves obtain a where "a \<in> B" "old a = new b" by (metis imageE)
      with disjoint b show False by blast
    qed
    with final [of "[]"] x show ?thesis by metis
  qed
  show "\<forall>b \<in> B. fs_read fs' (old b) = None \<and> fs_read fs' (new b) \<noteq> None" using old new by simp
  show "fs_read fs' p \<noteq> None" if p: "fs_read fs p \<noteq> None" "p \<notin> old ` B"
  proof -
    have "p \<notin> op_old ` set (filter moved ops)" using moves p(2) by auto
    with final [of "[]"] p(1) show ?thesis by metis
  qed
  show "p \<notin> old ` B \<and> (fs_read fs p \<noteq> None \<or> p \<in> new ` B)" if p: "fs_read fs' p \<noteq> None"
  proof
    show "p \<notin> old ` B" using old p by auto
    have "p \<in> op_new ` set ops \<Longrightarrow> fs_read fs p \<noteq> None \<or> p \<in> new ` B" using kinds by auto
    with final [of p] p show "fs_read fs p \<noteq> None \<or> p \<in> new ` B" by blast
  qed
qed


definition stray_table :: "(fm_model \<times> string) list" where
  "stray_table = [(doc_ticket ''app-abcd'' ''todo'' [] ''a0'', line_of ''A''), (doc_ticket ''web-efgh'' ''todo'' [] ''a1'', line_of ''B''),
     (doc_ticket ''app-efgh'' ''todo'' [] ''a1'', line_of ''C'')]"

definition stray_disk :: disk where
  "stray_disk = mc_disk (machine_of [(''/s/app-abcd-x.md'', compose (line_of ''A'') ''# T''),
     (''/s/web-efgh-y.md'', compose (line_of ''B'') ''# U'')])"

definition stray_ops :: "rw_op list" where
  "stray_ops = [\<lparr>op_old = [], op_new = ''/s/app-efgh-y.md'', op_content = compose (line_of ''C'') ''# U''\<rparr>,
     \<lparr>op_old = ''/s/web-efgh-y.md'', op_new = ''/s/app-efgh-y.md'', op_content = compose (line_of ''C'') ''# U''\<rparr>]"

definition stray_renames :: "prefix_rename list" where
  "stray_renames = [\<lparr>pr_old_id = ''web-efgh'', pr_new_id = ''app-efgh'', pr_old_path = ''/s/web-efgh-y.md'',
     pr_new_path = ''/s/app-efgh-y.md'', pr_claimed = [''web-efgh'']\<rparr>]"

definition stray_after :: "string list \<times> fs" where
  "stray_after = snd (apply_ops stray_ops (fs_of stray_disk))"

lemma stray_run:
  "adopt_prefix (table_codec stray_table) sample_externals stray_disk (reads_of stray_disk) ''app'' ''/s'' {} = Inr (stray_ops, stray_renames)"
  by code_simp

lemma stray_applied: "apply_ops stray_ops (fs_of stray_disk) = (None, fst stray_after, snd stray_after)"
  by code_simp


end
