(* ===== verification/Applies.thy ===== *)
theory Applies
  imports Outcomes Rewrites
begin

text \<open>
  \<open>rewrite.Apply\<close> on the machine of a session: the calls of the operating system can fail, and what was written
  before stays. Every state it ends in is a state of the step relation of \<open>Rewrites\<close>.
\<close>

section \<open>Apply\<close>

datatype apply_error = ApplyRefused rewrite_error | ApplyRead string | ApplyWrite string | ApplyRemove string

definition unlink_file :: "wenv \<Rightarrow> string \<Rightarrow> machine \<Rightarrow> bool \<times> machine" where
  "unlink_file E path m =
     (case disk_file (mc_disk m) path of
        None \<Rightarrow> (True, m)
      | Some f \<Rightarrow> if we_fault E (IoRemove path) then (False, m) else (True, drop_file path m))"

definition done_now :: "rw_op \<Rightarrow> machine \<Rightarrow> bool" where
  "done_now x m \<longleftrightarrow> disk_file (mc_disk m) (op_old x) = None \<and> disk_file (mc_disk m) (op_new x) \<noteq> None"

definition free_now :: "wenv \<Rightarrow> rw_op \<Rightarrow> machine \<Rightarrow> apply_error option" where
  "free_now E x m =
     (case disk_file (mc_disk m) (op_new x) of
        None \<Rightarrow> None
      | Some f \<Rightarrow>
          if we_fault E (IoRead (op_new x)) then Some (ApplyRead (op_new x))
          else if f_data f = op_content x then None
          else if op_old x = [] then Some (ApplyRefused (RefuseWrite (op_new x)))
          else Some (ApplyRefused (RefuseMove (op_old x) (op_new x))))"

definition also_touched :: "string list \<Rightarrow> (apply_error option \<times> string list) \<times> machine \<Rightarrow> (apply_error option \<times> string list) \<times> machine" where
  "also_touched ps r = (case r of ((e, touched), m) \<Rightarrow> ((e, ps @ touched), m))"

fun apply_now :: "wenv \<Rightarrow> rw_op list \<Rightarrow> machine \<Rightarrow> (apply_error option \<times> string list) \<times> machine" where
  "apply_now E [] m = ((None, []), m)"
| "apply_now E (x # xs) m =
     (if moved x \<and> done_now x m then also_touched [op_new x, op_old x] (apply_now E xs m)
      else
        case (if op_old x \<noteq> op_new x then free_now E x m else None) of
          Some e \<Rightarrow> ((Some e, []), m)
        | None \<Rightarrow>
            (case atomic_write E (op_new x) (op_content x) m of
               (Inl e, m1) \<Rightarrow> ((Some (ApplyWrite (op_new x)), []), m1)
             | (Inr u, m1) \<Rightarrow>
                 if moved x then
                   (case unlink_file E (op_old x) m1 of
                      (False, m2) \<Rightarrow> ((Some (ApplyRemove (op_old x)), [op_new x]), m2)
                    | (True, m2) \<Rightarrow> also_touched [op_new x, op_old x] (apply_now E xs m2))
                 else also_touched [op_new x] (apply_now E xs m1)))"

declare apply_now.simps(2) [simp del]

section \<open>The step relation\<close>

lemma contents_put: "contents (put_file p f m) = (contents m)(p \<mapsto> f_data f)"
  by (simp add: contents_def disk_file_put fun_eq_iff)

lemma contents_drop: "contents (drop_file p m) = (contents m)(p := None)"
  by (simp add: contents_def disk_file_drop fun_eq_iff)

lemma contents_mkdir [simp]: "contents (make_dir d m) = contents m"
  by (simp add: contents_def fun_eq_iff)

lemma atomic_write_contents:
  "atomic_write E path data m = (r, m') \<Longrightarrow>
     (r = Inr () \<and> contents m' = (contents m)(path \<mapsto> data)) \<or> (r = Inl (WriteFailed path) \<and> m' = m)"
  by (auto simp: atomic_write_def contents_put split: if_splits)

lemma unlink_contents:
  "unlink_file E path m = (b, m') \<Longrightarrow> (b \<and> contents m' = (contents m)(path := None)) \<or> (\<not> b \<and> m' = m)"
  by (auto simp: unlink_file_def contents_def disk_file_drop fun_eq_iff split: option.splits if_splits)

definition shows_files :: "fs \<Rightarrow> machine \<Rightarrow> bool" where
  "shows_files fs m \<longleftrightarrow> fs_read fs = contents m"

lemma done_now_agrees: "shows_files fs m \<Longrightarrow> done_now x m = already_done x fs"
  by (auto simp: shows_files_def done_now_def already_done_def contents_def)

lemma free_now_agrees:
  "shows_files fs m \<Longrightarrow> free_now E x m = None \<Longrightarrow> check_free_destination x fs = None"
  "shows_files fs m \<Longrightarrow> free_now E x m = Some (ApplyRefused e) \<Longrightarrow> check_free_destination x fs = Some e"
  by (auto simp: shows_files_def free_now_def check_free_destination_def contents_def split: option.splits if_splits)

lemma shows_write: "shows_files fs m \<Longrightarrow> contents m' = (contents m)(p \<mapsto> c) \<Longrightarrow> shows_files (fs_write p c fs) m'"
  by (auto simp: shows_files_def fun_eq_iff)

lemma shows_remove: "shows_files fs m \<Longrightarrow> contents m' = (contents m)(p := None) \<Longrightarrow> shows_files (fs_remove p fs) m'"
  by (auto simp: shows_files_def fun_eq_iff)

lemma also_touched_eq: "also_touched ps r = ((e, t), m) \<longleftrightarrow> (\<exists>t'. r = ((e, t'), m) \<and> t = ps @ t')"
  by (auto simp: also_touched_def split: prod.splits)

text \<open>The five ways a run goes on.\<close>

lemma apply_now_cases:
  assumes "apply_now E (x # xs) m = ((e, t), m')"
  obtains (skip) t' where "moved x" "done_now x m" "apply_now E xs m = ((e, t'), m')" "t = [op_new x, op_old x] @ t'"
  | (refuse) err where "\<not> (moved x \<and> done_now x m)" "op_old x \<noteq> op_new x" "free_now E x m = Some err" "e = Some err" "t = []" "m' = m"
  | (unwritten) "\<not> (moved x \<and> done_now x m)" "op_old x = op_new x \<or> free_now E x m = None" "e = Some (ApplyWrite (op_new x))" "t = []" "m' = m"
  | (stuck) "moved x" "\<not> done_now x m" "free_now E x m = None" "e = Some (ApplyRemove (op_old x))" "t = [op_new x]"
      "contents m' = (contents m)(op_new x \<mapsto> op_content x)"
  | (move) m1 m2 t' where "moved x" "\<not> done_now x m" "free_now E x m = None" "contents m1 = (contents m)(op_new x \<mapsto> op_content x)"
      "contents m2 = (contents m1)(op_old x := None)" "apply_now E xs m2 = ((e, t'), m')" "t = [op_new x, op_old x] @ t'"
  | (put) m1 t' where "\<not> moved x" "op_old x = op_new x \<or> free_now E x m = None" "contents m1 = (contents m)(op_new x \<mapsto> op_content x)"
      "apply_now E xs m1 = ((e, t'), m')" "t = op_new x # t'"
proof -
  note run = assms [unfolded apply_now.simps(2)]
  show thesis
  proof (cases "moved x \<and> done_now x m")
    case True
    then have "also_touched [op_new x, op_old x] (apply_now E xs m) = ((e, t), m')" using run by simp
    then obtain t' where "apply_now E xs m = ((e, t'), m')" "t = [op_new x, op_old x] @ t'" unfolding also_touched_eq by blast
    with True show thesis by (intro skip) simp_all
  next
    case pending: False
    note run1 = run [unfolded if_not_P [OF pending]]
    show thesis
    proof (cases "if op_old x \<noteq> op_new x then free_now E x m else None")
      case (Some err)
      have "e = Some err" "t = []" "m' = m" using run1 unfolding Some by simp_all
      moreover have "op_old x \<noteq> op_new x" "free_now E x m = Some err" using Some by (simp_all split: if_splits)
      ultimately show thesis using pending by (intro refuse)
    next
      case None
      then have free: "op_old x = op_new x \<or> free_now E x m = None" by (simp split: if_splits)
      obtain w m1 where w: "atomic_write E (op_new x) (op_content x) m = (w, m1)" by fastforce
      note run2 = run1 [unfolded None w option.case prod.case]
      from atomic_write_contents [OF w] show thesis
      proof (elim disjE conjE)
        assume "w = Inl (WriteFailed (op_new x))" "m1 = m"
        with run2 show thesis by (intro unwritten [OF pending free]) simp_all
      next
        assume ok: "w = Inr ()" "contents m1 = (contents m)(op_new x \<mapsto> op_content x)"
        show thesis
        proof (cases "moved x")
          case False
          with run2 ok(1) have "also_touched [op_new x] (apply_now E xs m1) = ((e, t), m')" by simp
          then show thesis unfolding also_touched_eq using put [OF False free ok(2)] by auto
        next
          case True
          then have idle: "\<not> done_now x m" "free_now E x m = None" using pending free by (auto simp: moved_def)
          obtain b m2 where u: "unlink_file E (op_old x) m1 = (b, m2)" by fastforce
          note run3 = run2 [unfolded ok(1) sum.case if_P [OF True] u prod.case]
          from unlink_contents [OF u] show thesis
          proof (elim disjE conjE)
            assume b: "b" "contents m2 = (contents m1)(op_old x := None)"
            with run3 have "also_touched [op_new x, op_old x] (apply_now E xs m2) = ((e, t), m')" by simp
            then show thesis unfolding also_touched_eq using move [OF True idle ok(2) b(2)] by auto
          next
            assume "\<not> b" "m2 = m1"
            with run3 ok(2) show thesis by (intro stuck [OF True idle]) simp_all
          qed
        qed
      qed
    qed
  qed
qed

text \<open>Without a fault of the system, the machine does what the store does.\<close>

definition no_fault :: "apply_error option \<Rightarrow> bool" where
  "no_fault e \<longleftrightarrow> (case e of None \<Rightarrow> True | Some (ApplyRefused r) \<Rightarrow> True | _ \<Rightarrow> False)"

definition refusal :: "apply_error option \<Rightarrow> rewrite_error option" where
  "refusal e = (case e of Some (ApplyRefused r) \<Rightarrow> Some r | _ \<Rightarrow> None)"

lemma apply_now_refines:
  "apply_now E xs m = ((e, t), m') \<Longrightarrow> no_fault e \<Longrightarrow> shows_files fs m \<Longrightarrow>
     \<exists>fs'. apply_ops xs fs = (refusal e, t, fs') \<and> shows_files fs' m'"
proof (induction xs arbitrary: m fs t)
  case Nil
  then show ?case by (auto simp: refusal_def)
next
  case (Cons x xs)
  note agree = done_now_agrees [OF Cons.prems(3)]
  from Cons.prems(1) show ?case
  proof (cases rule: apply_now_cases)
    case (skip t')
    with Cons.IH [OF skip(3) Cons.prems(2,3)] agree show ?thesis by (auto simp: apply_ops.simps(2))
  next
    case (refuse err)
    then obtain r where "err = ApplyRefused r" using Cons.prems(2) by (auto simp: no_fault_def split: apply_error.splits)
    with refuse free_now_agrees(2) [OF Cons.prems(3)] agree Cons.prems(3) show ?thesis
      by (auto simp: apply_ops.simps(2) refusal_def)
  next
    case (move m1 m2 t')
    from shows_remove [OF shows_write [OF Cons.prems(3) move(4)] move(5)] Cons.IH [OF move(6) Cons.prems(2)]
    obtain fs' where "apply_ops xs (fs_remove (op_old x) (fs_write (op_new x) (op_content x) fs)) = (refusal e, t', fs')" "shows_files fs' m'"
      by blast
    moreover have "check_free_destination x fs = None" using free_now_agrees(1) [OF Cons.prems(3) move(3)] .
    ultimately show ?thesis using move agree by (auto simp: apply_ops.simps(2) Let_def)
  next
    case (put m1 t')
    from shows_write [OF Cons.prems(3) put(3)] Cons.IH [OF put(4) Cons.prems(2)]
    obtain fs' where "apply_ops xs (fs_write (op_new x) (op_content x) fs) = (refusal e, t', fs')" "shows_files fs' m'"
      by blast
    moreover have "op_old x \<noteq> op_new x \<Longrightarrow> check_free_destination x fs = None" using free_now_agrees(1) [OF Cons.prems(3)] put(2) by blast
    ultimately show ?thesis using put by (auto simp: apply_ops.simps(2) Let_def)
  qed (use Cons.prems(2) in \<open>simp_all add: no_fault_def\<close>)
qed

text \<open>Whatever fails, the machine is left in a state that the steps of \<open>Apply\<close> reach.\<close>

lemma apply_now_reaches:
  "apply_now E xs m = ((e, t), m') \<Longrightarrow> shows_files fs m \<Longrightarrow>
     \<exists>ph fs'. apply_step\<^sup>*\<^sup>* (Run xs, fs) (ph, fs') \<and> shows_files fs' m'"
proof (induction xs arbitrary: m fs t)
  case Nil
  then show ?case by auto
next
  case (Cons x xs)
  note agree = done_now_agrees [OF Cons.prems(2)]
  from Cons.prems(1) show ?case
  proof (cases rule: apply_now_cases)
    case (skip t')
    then have "apply_step (Run (x # xs), fs) (Run xs, fs)" using agree by (simp add: apply_step.skip)
    with Cons.IH [OF skip(3) Cons.prems(2)] show ?thesis by (meson converse_rtranclp_into_rtranclp)
  next
    case (stuck)
    then have "apply_step (Run (x # xs), fs) (Unlink x xs, fs_write (op_new x) (op_content x) fs)"
      using apply_step.put [of x fs xs] agree free_now_agrees(1) [OF Cons.prems(2)] by simp
    with shows_write [OF Cons.prems(2) stuck(6)] show ?thesis by blast
  next
    case (move m1 m2 t')
    let ?fs1 = "fs_write (op_new x) (op_content x) fs"
    have "apply_step (Run (x # xs), fs) (Unlink x xs, ?fs1)" "apply_step (Unlink x xs, ?fs1) (Run xs, fs_remove (op_old x) ?fs1)"
      using move apply_step.put [of x fs xs] agree free_now_agrees(1) [OF Cons.prems(2)] apply_step.unlink by simp_all
    with Cons.IH [OF move(6) shows_remove [OF shows_write [OF Cons.prems(2) move(4)] move(5)]] show ?thesis
      by (meson converse_rtranclp_into_rtranclp)
  next
    case (put m1 t')
    have "apply_step (Run (x # xs), fs) (Run xs, fs_write (op_new x) (op_content x) fs)"
      using put apply_step.put [of x fs xs] free_now_agrees(1) [OF Cons.prems(2)] by auto
    with Cons.IH [OF put(4) shows_write [OF Cons.prems(2) put(3)]] show ?thesis by (meson converse_rtranclp_into_rtranclp)
  qed (use Cons.prems(2) in blast)+
qed

end
