(* ===== verification/DesignOps.thy ===== *)
theory DesignOps
  imports Applies Designs Creates Splices
begin

text \<open>
  The operations on designs, \<open>internal/design/ops.go\<close> and \<open>splice.go\<close>, on the machine of a session. A design has no
  order key and stays in its directory; a write takes the lock of the scope and, on a scope with auto-commit,
  commits itself, and a commit that fails puts the file back.
\<close>

section \<open>Answers\<close>

datatype design_usage =
    DesignTitle | DesignTarget | ProducesNotList | NotFullId string | DesignForm usage | BadDestination string | SameDestination string

datatype design_error =
    DesignUsage design_usage
  | UnknownDesignStatus string
  | UnknownDesign string
  | SharedDesign string "string list"
  | DesignUnparsed string design_fault
  | DesignNoFence string
  | ProducesUnresolved string
  | DesignChanged string
  | DesignsUnlisted design_files_error
  | DesignSerializeFailed string
  | DesignEngine write_error
  | RestoreFailed design_error string
  | UnknownDestination string
  | AutoCommitDiffers string
  | DesignExtend string extend_error
  | DesignApply apply_error
  | UndoUncommitted design_error write_error
  | UndoUnsynced design_error write_error

record design_result =
  dr_id :: string
  dr_path :: string
  dr_body :: string
  dr_rows :: "(string \<times> string \<times> string) list"
  dr_disabled :: "(string \<times> string) option"
  dr_needed :: string
  dr_disabled_all :: "(string \<times> string) list"
  dr_needed_all :: "string list"
  dr_parse :: "(string \<times> string) option"
  dr_unparseable :: nat
  dr_unchanged :: bool

definition no_result :: design_result where
  "no_result = \<lparr>dr_id = [], dr_path = [], dr_body = [], dr_rows = [], dr_disabled = None, dr_needed = [], dr_disabled_all = [],
     dr_needed_all = [], dr_parse = None, dr_unparseable = 0, dr_unchanged = False\<rparr>"

definition disabled_lines :: "design_result \<Rightarrow> (string \<times> string) list" where
  "disabled_lines r =
     (if length (dr_disabled_all r) > 0 then dr_disabled_all r
      else case dr_disabled r of None \<Rightarrow> [] | Some x \<Rightarrow> [x])"

definition needed_lines :: "design_result \<Rightarrow> string list" where
  "needed_lines r =
     (if length (dr_needed_all r) > 0 then dr_needed_all r else if dr_needed r \<noteq> [] then [dr_needed r] else [])"

section \<open>Guards\<close>

definition scope_require :: "disk \<Rightarrow> string \<Rightarrow> string \<Rightarrow> write_error option" where
  "scope_require k scope dir =
     (if dir \<in> set (dk_dirs k) \<or> dir \<in> set (dk_locked k) then None else Some (ScopeUnreachable scope dir))"

definition refuse_unwritable :: "wenv \<Rightarrow> string \<Rightarrow> string \<Rightarrow> machine \<Rightarrow> write_error option" where
  "refuse_unwritable E scope dir m =
     (case scope_require (mc_disk m) scope dir of
        Some e \<Rightarrow> Some e
      | None \<Rightarrow>
          (case schema_or_error (we_rec E) dir of
             (schema, Some reason) \<Rightarrow> Some (ConfigUnusable scope reason)
           | (schema, None) \<Rightarrow> map_option Held (refuse_hard scope schema)))"

definition refuse_mid_rebase :: "wenv \<Rightarrow> string \<Rightarrow> string \<Rightarrow> machine \<Rightarrow> write_error option" where
  "refuse_mid_rebase E scope dir m =
     (case schema_or_error (we_rec E) dir of
        (schema, Some reason) \<Rightarrow> None
      | (schema, None) \<Rightarrow> check_mid_rebase (we_git E) scope (schema_auto_commit schema) (we_root E dir) m)"

definition design_sync_needed :: "wenv \<Rightarrow> string \<Rightarrow> machine \<Rightarrow> string" where
  "design_sync_needed E dir m =
     (case we_root E dir of
        None \<Rightarrow> []
      | Some root \<Rightarrow>
          (case schema_or_error (we_rec E) dir of
             (schema, cfgErr) \<Rightarrow>
               if cfgErr \<noteq> None \<or> \<not> schema_auto_commit schema then []
               else sync_needed_reason (we_git E) dir root m))"

text \<open>A check that may refuse, and one that may refuse or answer.\<close>

definition refuse_engine :: "(machine \<Rightarrow> write_error option) \<Rightarrow> (design_error, unit) run" where
  "refuse_engine c = act_read (\<lambda>m. case c m of None \<Rightarrow> Inr () | Some e \<Rightarrow> Inl (DesignEngine e))"

definition begin_design :: "wenv \<Rightarrow> string \<Rightarrow> string \<Rightarrow> (design_error, unit) run" where
  "begin_design E scope dir =
     act_bind (refuse_engine (refuse_unwritable E scope dir)) (\<lambda>_. refuse_engine (refuse_mid_rebase E scope dir))"

section \<open>One design of a scope\<close>

definition pick_design :: "string \<Rightarrow> string \<Rightarrow> bool \<Rightarrow> design_file list \<Rightarrow> design_error + design_file" where
  "pick_design scope arg full files =
     (let hits = filter (\<lambda>f. if full then df_id f = arg else trim_prefix (scope @ ''-'') (df_id f) = arg) files in
      if length hits = 0 then Inl (UnknownDesign arg)
      else if length hits > 1 then Inl (SharedDesign (df_id (hits ! 0)) (sort (map df_path hits)))
      else Inr (hits ! 0))"

definition resolve_one :: "wenv \<Rightarrow> string \<Rightarrow> string \<Rightarrow> string \<Rightarrow> bool \<Rightarrow> machine \<Rightarrow> design_error + design_file" where
  "resolve_one E scope dir arg full m =
     (case scope_require (mc_disk m) scope dir of
        Some e \<Rightarrow> Inl (DesignEngine e)
      | None \<Rightarrow>
          (case design_files (re_yaml (we_rec E)) (mc_disk m) dir scope of
             Inl e \<Rightarrow> Inl (DesignsUnlisted e)
           | Inr files \<Rightarrow> pick_design scope arg full files))"

definition resolve_parsed :: "wenv \<Rightarrow> string \<Rightarrow> string \<Rightarrow> string \<Rightarrow> bool \<Rightarrow> machine \<Rightarrow> design_error + (design_file \<times> fm_model)" where
  "resolve_parsed E scope dir arg full m =
     rbind (resolve_one E scope dir arg full m) (\<lambda>f.
       case df_fault f of
         Some fault \<Rightarrow> Inl (DesignUnparsed (df_id f) fault)
       | None \<Rightarrow> Inr (f, the (df_model f)))"

definition write_model :: "wenv \<Rightarrow> string \<Rightarrow> fm_model \<Rightarrow> string \<Rightarrow> (design_error, unit) run" where
  "write_model E path fm body =
     (case design_serialize (re_yaml (we_rec E)) fm of
        Inl e \<Rightarrow> act_fail (DesignSerializeFailed e)
      | Inr interior \<Rightarrow> act_lift DesignEngine (atomic_write E path (compose interior body)))"

section \<open>Commits\<close>

definition design_commit ::
    "wenv \<Rightarrow> string \<Rightarrow> string \<Rightarrow> string \<Rightarrow> string list \<Rightarrow> (write_error, (string \<times> string) option \<times> string) run" where
  "design_commit E scope dir message paths =
     (case schema_or_error (we_rec E) dir of
        (schema, Some reason) \<Rightarrow> act_fail (ConfigUnusable scope reason)
      | (schema, None) \<Rightarrow> complete_paths E scope dir (schema_auto_commit schema) message paths (we_root E dir))"

definition commit_written ::
    "wenv \<Rightarrow> string \<Rightarrow> string \<Rightarrow> string \<Rightarrow> string \<Rightarrow> string \<Rightarrow> (design_error, (string \<times> string) option \<times> string) run" where
  "commit_written E scope dir message path before m =
     (case design_commit E scope dir message [path] m of
        (Inr x, m1) \<Rightarrow> (Inr x, m1)
      | (Inl e, m1) \<Rightarrow>
          (case atomic_write E path before m1 of
             (Inl w, m2) \<Rightarrow> (Inl (RestoreFailed (DesignEngine e) path), m2)
           | (Inr u, m2) \<Rightarrow> (Inl (DesignEngine e), m2)))"

section \<open>Create\<close>

definition draft_model :: "string \<Rightarrow> string \<Rightarrow> fm_model" where
  "draft_model full stamp = empty_model\<lparr>fm_id := full, fm_status := design_draft, fm_changed := stamp, fm_created := stamp\<rparr>"

definition design_create ::
    "wenv \<Rightarrow> (string \<Rightarrow> string) \<Rightarrow> string \<Rightarrow> string \<Rightarrow> string \<Rightarrow> reader \<Rightarrow> (design_error, design_result) run" where
  "design_create E nfkc scope dir inTitle src =
     (let title = trim_space inTitle in
      act_bind (act_refuse (if title = [] \<or> newline \<in> set title then Some (DesignUsage DesignTitle) else None)) (\<lambda>_.
      act_bind (begin_design E scope dir) (\<lambda>_.
      act_bind (act_read (\<lambda>m. case occupied_short_ids (re_yaml (we_rec E)) (mc_disk m) dir scope of
                                None \<Rightarrow> Inl (DesignEngine OccupiedUnreadable) | Some taken \<Rightarrow> Inr taken)) (\<lambda>taken.
      act_bind (act_read (\<lambda>m. map_sum DesignEngine id (mint_unused_id taken src))) (\<lambda>short.
      let full = full_id scope short;
          target = path_join (path_join dir design_dir) (full @ ''-'' @ slugify nfkc title @ ''.md'') in
      act_bind (write_model E target (draft_model full (we_stamp E)) (''# '' @ title @ [newline])) (\<lambda>_.
      act_bind (act_read (\<lambda>m. Inr (design_sync_needed E dir m))) (\<lambda>needed.
        act_return (no_result\<lparr>dr_id := full, dr_path := target, dr_needed := needed\<rparr>))))))))"

section \<open>List and get\<close>

definition design_rows :: "wenv \<Rightarrow> string \<Rightarrow> string \<Rightarrow> (design_error, design list) run" where
  "design_rows E scope dir =
     act_bind (act_lift DesignEngine (reconcile_now E [(scope, dir)])) (\<lambda>res.
     act_bind (act_refuse (if scope \<in> rr_unreachable res then Some (DesignEngine (ScopeUnreachable scope dir)) else None)) (\<lambda>_.
       act_read (\<lambda>m. Inr (scope_designs scope (mc_db m)))))"

definition design_list :: "wenv \<Rightarrow> externals \<Rightarrow> string \<Rightarrow> string \<Rightarrow> string list \<Rightarrow> (design_error, design_result) run" where
  "design_list E X scope dir statuses =
     act_bind (act_refuse (map_option UnknownDesignStatus (find (\<lambda>s. \<not> known_design_status s) statuses))) (\<lambda>_.
     act_bind (refuse_engine (\<lambda>m. scope_require (mc_disk m) scope dir)) (\<lambda>_.
     act_bind (design_rows E scope dir) (\<lambda>indexed.
       case design_listing X statuses indexed of
         (rows, n) \<Rightarrow> act_return (no_result\<lparr>dr_rows := rows, dr_unparseable := n\<rparr>))))"

definition design_matches :: "string \<Rightarrow> bool \<Rightarrow> design \<Rightarrow> bool" where
  "design_matches arg full p \<longleftrightarrow> (if full then ds_id p = arg else ds_short_id p = arg)"

definition design_get ::
    "wenv \<Rightarrow> string \<Rightarrow> string \<Rightarrow> string \<Rightarrow> bool \<Rightarrow> bool \<Rightarrow> (design_error, design_result) run" where
  "design_get E scope dir arg full content =
     act_bind (refuse_engine (\<lambda>m. scope_require (mc_disk m) scope dir)) (\<lambda>_.
     act_bind (design_rows E scope dir) (\<lambda>indexed.
     let n = length (filter ds_parse_error indexed); hits = filter (design_matches arg full) indexed in
     act_bind (act_refuse (if length hits = 0 then Some (UnknownDesign arg)
                           else if length hits > 1 then Some (SharedDesign (ds_id (hits ! 0)) (sort (map ds_path hits)))
                           else None)) (\<lambda>_.
     let p = hits ! 0 in
     act_bind (act_read (\<lambda>m. if \<not> content then Inr []
                             else case disk_file (mc_disk m) (ds_path p) of
                                    None \<Rightarrow> Inl (DesignEngine (ReadFailed (ds_path p)))
                                  | Some f \<Rightarrow> if we_fault E (IoRead (ds_path p)) then Inl (DesignEngine (ReadFailed (ds_path p)))
                                              else Inr (f_data f))) (\<lambda>data.
       act_return (no_result\<lparr>dr_id := ds_id p, dr_path := ds_path p, dr_body := data, dr_unparseable := n,
         dr_parse := (if ds_parse_error p then Some (ds_id p, ds_parse_msg p) else None)\<rparr>)))))"

section \<open>Mark\<close>

text \<open>The end of both verbs that change a front matter: write, commit or put the file back, answer.\<close>

definition rewrite_design ::
    "wenv \<Rightarrow> string \<Rightarrow> string \<Rightarrow> string \<Rightarrow> design_file \<Rightarrow> fm_model \<Rightarrow> (design_error, design_result) run" where
  "rewrite_design E scope dir message f fm =
     act_bind (write_model E (df_path f) fm (df_body f)) (\<lambda>_.
     act_bind (commit_written E scope dir message (df_path f) (df_raw f)) (\<lambda>(disabled, needed).
       act_return (no_result\<lparr>dr_id := df_id f, dr_path := df_path f, dr_disabled := disabled, dr_needed := needed\<rparr>)))"

definition design_mark ::
    "wenv \<Rightarrow> string \<Rightarrow> string \<Rightarrow> string \<Rightarrow> bool \<Rightarrow> string \<Rightarrow> (design_error, design_result) run" where
  "design_mark E scope dir arg full newStatus =
     act_bind (act_refuse (if \<not> known_design_status newStatus then Some (UnknownDesignStatus newStatus) else None)) (\<lambda>_.
     act_bind (begin_design E scope dir) (\<lambda>_.
     act_bind (act_read (resolve_parsed E scope dir arg full)) (\<lambda>(f, fm).
       if fm_status fm = newStatus then act_return (no_result\<lparr>dr_id := df_id f, dr_path := df_path f, dr_unchanged := True\<rparr>)
       else
         rewrite_design E scope dir (''tk: '' @ df_id f @ '' -> '' @ newStatus) f
           (fm\<lparr>fm_changed := we_stamp E, fm_status := newStatus\<rparr>))))"

section \<open>What a design produces\<close>

definition ticket_resolves :: "wenv \<Rightarrow> string \<Rightarrow> (design_error, bool) run" where
  "ticket_resolves E full =
     (if \<not> is_full_ticket_id full then act_fail (DesignUsage (NotFullId full))
      else case map_of (we_reg E) (scope_of_full_id full) of
             None \<Rightarrow> act_return False
           | Some dir \<Rightarrow>
               act_bind (act_lift DesignEngine (reconcile_now E [(scope_of_full_id full, dir)])) (\<lambda>res.
                 act_read (\<lambda>m. Inr (length (tickets_by_id (scope_of_full_id full) full (mc_db m)) > 0))))"

definition produces_edit :: "bool \<Rightarrow> string \<Rightarrow> string list \<Rightarrow> string list" where
  "produces_edit add target ids = (if add then ids @ [target] else drop_id ids target)"

definition design_meta ::
    "wenv \<Rightarrow> string \<Rightarrow> string \<Rightarrow> string \<Rightarrow> bool \<Rightarrow> bool \<Rightarrow> string \<Rightarrow> (design_error, design_result) run" where
  "design_meta E scope dir arg full add target =
     act_bind (act_refuse (if trim_space target = [] then Some (DesignUsage DesignTarget) else None)) (\<lambda>_.
     act_bind (begin_design E scope dir) (\<lambda>_.
     act_bind (act_read (resolve_parsed E scope dir arg full)) (\<lambda>(f, fm).
     act_bind (act_read (\<lambda>m. case produces fm of Inl e \<Rightarrow> Inl (DesignUsage ProducesNotList) | Inr ids \<Rightarrow> Inr ids)) (\<lambda>ids.
     act_bind (act_refuse (if add \<and> \<not> is_full_ticket_id target then Some (DesignUsage (NotFullId target)) else None)) (\<lambda>_.
       if add = contains_id ids target
       then act_return (no_result\<lparr>dr_id := df_id f, dr_path := df_path f, dr_unchanged := True\<rparr>)
       else
         act_bind (if add then ticket_resolves E target else act_return True) (\<lambda>ok.
         act_bind (act_refuse (if \<not> ok then Some (ProducesUnresolved target) else None)) (\<lambda>_.
           rewrite_design E scope dir
             (''tk: '' @ df_id f @ '' meta '' @ (if add then ''add'' else ''remove'') @ '' '' @ key_produces) f
             (set_produces fm (produces_edit add target ids)))))))))"

section \<open>Splice\<close>

definition sync_one :: "wenv \<Rightarrow> string \<Rightarrow> string list \<Rightarrow> unit act" where
  "sync_one E scope paths = (if length paths = 0 then act_return () else sync_now E scope paths)"

definition design_splice ::
    "wenv \<Rightarrow> (string \<Rightarrow> string) \<Rightarrow> string \<Rightarrow> string \<Rightarrow> string \<Rightarrow> bool \<Rightarrow> string \<Rightarrow> string \<Rightarrow> string \<Rightarrow> string \<Rightarrow>
     (design_error, design_result) run" where
  "design_splice E digest scope dir arg full inTitle lead inBody base =
     act_bind (act_read (\<lambda>m. case normalize_title inTitle of Inl e \<Rightarrow> Inl (DesignUsage (DesignForm e)) | Inr t \<Rightarrow> Inr t)) (\<lambda>title.
     act_bind (act_refuse (if trim_space base = [] then Some (DesignUsage (DesignForm NoClobberKey)) else None)) (\<lambda>_.
     act_bind (begin_design E scope dir) (\<lambda>_.
     act_bind (act_read (resolve_parsed E scope dir arg full)) (\<lambda>(f, fm).
     act_bind (act_read (\<lambda>m. map_sum DesignEngine id (snapshot E digest (df_path f) m))) (\<lambda>(data, key).
     act_bind (act_refuse (if key \<noteq> base then Some (DesignChanged (df_id f)) else None)) (\<lambda>_.
     act_bind (act_read (\<lambda>m. case split_fence data of
                               (interior, body, present) \<Rightarrow>
                                 if \<not> present then Inl (DesignNoFence (df_id f)) else Inr body)) (\<lambda>body.
     act_bind (act_lift DesignEngine (atomic_write E (df_path f)
                (replace_body (take (length data - length body) data) title lead inBody))) (\<lambda>_.
     act_bind (act_lift DesignEngine (sync_one E scope [df_path f])) (\<lambda>_.
     act_bind (act_read (\<lambda>m. Inr (design_sync_needed E dir m))) (\<lambda>needed.
       act_return (no_result\<lparr>dr_id := df_id f, dr_path := df_path f, dr_needed := needed\<rparr>)))))))))))"

end
