(* ===== verification/DesignFacts.thy ===== *)
theory DesignFacts
  imports DesignOps
begin

text \<open>
  What the writes of \<open>internal/design\<close> leave: a refused or failed write leaves the files as they were, and a
  write that succeeds changes one key of one front matter.
\<close>

section \<open>A design that was written is read back\<close>

text \<open>What is left of the custom fields when a design is written: an empty \<open>produces\<close> list is dropped.\<close>

definition design_custom :: "field list \<Rightarrow> field list" where
  "design_custom cs = concat (map (\<lambda>f. map (\<lambda>(k, v). (k, decoded v)) (produces_item f)) cs)"

definition custom_keys :: "fm_model \<Rightarrow> bool" where
  "custom_keys fm \<longleftrightarrow> list_all (\<lambda>(k, v). \<not> is_builtin_key k) (fm_custom fm)"

definition design_codec :: "yaml \<Rightarrow> bool" where
  "design_codec Y \<longleftrightarrow>
     (\<forall>fm text. custom_keys fm \<longrightarrow> design_serialize Y fm = Inr text \<longrightarrow>
        y_unmarshal Y text = Inr (decode_items (design_items fm)) \<and> fence_free text)"

lemma parse_produces_item:
  "\<not> is_builtin_key (fst f) \<Longrightarrow>
     parse_items m (decode_items (produces_item f @ items)) =
     parse_items (m\<lparr>fm_custom := fm_custom m @ map (\<lambda>(k, v). (k, decoded v)) (produces_item f)\<rparr>) (decode_items items)"
  by (auto simp: produces_item_def split: sum.splits)

lemma parse_design_custom:
  "list_all (\<lambda>(k, v). \<not> is_builtin_key k) cs \<Longrightarrow>
     parse_items m (decode_items (concat (map produces_item cs))) = Inr (m\<lparr>fm_custom := fm_custom m @ design_custom cs\<rparr>)"
proof (induction cs arbitrary: m)
  case (Cons f cs)
  obtain k v where f: "f = (k, v)" by (cases f)
  have "\<not> is_builtin_key (fst f)" using Cons.prems f by simp
  note head = parse_produces_item [OF this]
  have "list_all (\<lambda>(k, v). \<not> is_builtin_key k) cs" using Cons.prems by simp
  from Cons.IH [OF this] show ?case
    unfolding list.map concat.simps head by (simp add: design_custom_def del: map_append)
qed (simp add: design_custom_def)

lemma parse_order_item:
  assumes "fm_order m = []"
  shows "parse_items m (decode_items ((if s \<noteq> [] then [(key_order, YQuoted s)] else []) @ ys)) = parse_items (m\<lparr>fm_order := s\<rparr>) (decode_items ys)"
proof (cases "s = []")
  case True
  then have "m\<lparr>fm_order := s\<rparr> = m" using assms by (cases m) simp
  with True show ?thesis by simp
next
  case False
  then show ?thesis using parse_head [OF parse_scalar_items(3), of m s ys] by simp
qed

lemma parse_design_items:
  assumes "custom_keys m"
  shows "parse_items empty_model (decode_items (design_items m)) = Inr (m\<lparr>fm_custom := design_custom (fm_custom m)\<rparr>)"
proof -
  have items: "design_items m =
     [(key_id, YPlain (VStr (fm_id m)))] @ [(key_status, YPlain (VStr (fm_status m)))] @
     string_item key_changed (fm_changed m) @ (if fm_order m \<noteq> [] then [(key_order, YQuoted (fm_order m))] else []) @
     list_item key_depends (fm_depends m) @ list_item key_related (fm_related m) @
     list_item key_tags (fm_tags m) @ [(key_created, YPlain (VStr (fm_created m)))] @
     list_item key_links (fm_links m) @ string_item key_summary (fm_summary m) @
     list_item key_status_conflict (fm_status_conflict m) @ concat (map produces_item (fm_custom m))"
    by (simp add: design_items_def)
  show ?thesis
    unfolding items empty_model_def
    by (simp only: parse_heads parse_order_item parse_design_custom [OF assms [unfolded custom_keys_def]] fm_model.simps) simp
qed

lemma design_reads_back:
  assumes "design_codec Y" "custom_keys fm" "design_serialize Y fm = Inr text" "contents m p = Some (compose text body)"
  shows "ticket_at Y m p = Some (fm\<lparr>fm_custom := design_custom (fm_custom fm)\<rparr>, body)"
proof -
  have "y_unmarshal Y text = Inr (decode_items (design_items fm))" "fence_free text"
    using assms(1-3) by (auto simp: design_codec_def)
  then show ?thesis
    using assms(4) split_compose [of "text" body] parse_design_items [OF assms(2)] by (simp add: ticket_at_def parse_fm_def)
qed

lemma parse_items_keys:
  "parse_items m items = Inr m' \<Longrightarrow> custom_keys m \<Longrightarrow> custom_keys m'"
proof (induction items arbitrary: m)
  case (Cons it items)
  obtain k v where it: "it = (k, v)" by (cases it)
  show ?case
  proof (cases "is_builtin_key (sprint k)")
    case False
    then show ?thesis using Cons it by (simp add: Let_def custom_keys_def)
  next
    case True
    then obtain m1 where m1: "assign_builtin m (sprint k) v = Inr m1" "parse_items m1 items = Inr m'"
      using Cons.prems(1) it by (auto simp: Let_def rbind_Inr_iff)
    have "fm_custom m1 = fm_custom m"
      using m1(1) by (auto simp: assign_builtin_def assign_list_def split: if_splits sum.splits)
    then show ?thesis using Cons.IH [OF m1(2)] Cons.prems(2) by (simp add: custom_keys_def)
  qed
qed simp

lemma parsed_keys: "parse_fm Y doc = Inr fm \<Longrightarrow> custom_keys fm"
  using parse_items_keys [of empty_model _ fm]
  by (auto simp: parse_fm_def custom_keys_def empty_model_def split: sum.splits)

section \<open>The file that was resolved\<close>

lemma read_design_raw [simp]: "df_raw (read_design Y scope p i data) = data" "df_path (read_design Y scope p i data) = p"
  by (auto simp: read_design_def Let_def split: prod.splits sum.splits)

lemma read_designs_mem:
  "read_designs Y k scope root names = Inr files \<Longrightarrow> f \<in> set files \<Longrightarrow>
     \<exists>x i. disk_file k (df_path f) = Some x \<and> f = read_design Y scope (df_path f) i (f_data x)"
proof (induction names arbitrary: files)
  case (Cons name names)
  show ?case
  proof (cases "\<not> looks_like_ticket name \<or> short_id_of_basename name scope = None")
    case True
    then show ?thesis using Cons by simp
  next
    case False
    then obtain g gs where g: "read_design_at Y k scope root name = Inr g" "read_designs Y k scope root names = Inr gs" "files = g # gs"
      using Cons.prems(1) by (auto simp: rbind_Inr_iff map_sum_Inr)
    from g(1) have "\<exists>x i. disk_file k (df_path g) = Some x \<and> g = read_design Y scope (df_path g) i (f_data x)"
      by (auto simp: read_design_at_def split: option.splits)
    with Cons g show ?thesis by auto
  qed
qed simp

lemma read_design_parsed:
  assumes "df_fault (read_design Y scope p i data) = None"
  shows "\<exists>interior body fm. split_fence data = (interior, body, True) \<and> parse_fm Y interior = Inr fm \<and>
     df_model (read_design Y scope p i data) = Some fm \<and> df_body (read_design Y scope p i data) = body"
  using assms by (auto simp: read_design_def Let_def split: prod.splits sum.splits if_splits)

lemma resolve_one_Inr:
  assumes "resolve_one E scope dir arg full m = Inr f"
  shows "\<exists>x i. disk_file (mc_disk m) (df_path f) = Some x \<and> f = read_design (re_yaml (we_rec E)) scope (df_path f) i (f_data x)"
proof -
  obtain files where files: "design_files (re_yaml (we_rec E)) (mc_disk m) dir scope = Inr files" "f \<in> set files"
  proof -
    from assms obtain files where files: "design_files (re_yaml (we_rec E)) (mc_disk m) dir scope = Inr files"
      "pick_design scope arg full files = Inr f" by (auto simp: resolve_one_def split: option.splits sum.splits)
    define hits where "hits = filter (\<lambda>f. if full then df_id f = arg else trim_prefix (scope @ ''-'') (df_id f) = arg) files"
    have "hits \<noteq> []" "f = hits ! 0"
      using files(2) unfolding pick_design_def Let_def hits_def [symmetric] by (simp_all split: if_splits)
    then have "f \<in> set hits" by (metis length_greater_0_conv nth_mem)
    then have "f \<in> set files" by (simp add: hits_def)
    with files(1) show thesis by (intro that [of files]) auto
  qed
  then show ?thesis using read_designs_mem [OF _ files(2)]
    by (auto simp: design_files_def Let_def split: option.splits if_splits)
qed

lemma resolve_parsed_Inr:
  assumes "resolve_parsed E scope dir arg full m = Inr (f, fm)"
  shows "contents m (df_path f) = Some (df_raw f)"
    and "ticket_at (re_yaml (we_rec E)) m (df_path f) = Some (fm, df_body f)"
    and "custom_keys fm"
proof -
  from assms have f: "resolve_one E scope dir arg full m = Inr f" "df_fault f = None" "fm = the (df_model f)"
    by (auto simp: resolve_parsed_def rbind_Inr_iff split: option.splits)
  from resolve_one_Inr [OF f(1)] obtain x i where x: "disk_file (mc_disk m) (df_path f) = Some x"
    "f = read_design (re_yaml (we_rec E)) scope (df_path f) i (f_data x)" by blast
  have raw: "df_raw f = f_data x" by (subst x(2)) simp
  show c: "contents m (df_path f) = Some (df_raw f)" using x(1) raw by (simp add: contents_def)
  from read_design_parsed [of "re_yaml (we_rec E)" scope "df_path f" i "f_data x"] f(2) x(2)
  obtain interior body fm' where "split_fence (f_data x) = (interior, body, True)" "parse_fm (re_yaml (we_rec E)) interior = Inr fm'"
    "df_model f = Some fm'" "df_body f = body" by metis
  then show "ticket_at (re_yaml (we_rec E)) m (df_path f) = Some (fm, df_body f)" "custom_keys fm"
    using c raw f(3) parsed_keys by (auto simp: ticket_at_def)
qed

section \<open>The end of a write\<close>

lemma kept_refuse_engine [intro]: "files_kept (refuse_engine c)"
  unfolding refuse_engine_def by (rule kept_basic)

lemma kept_begin_design [intro]: "files_kept (begin_design E scope dir)"
  unfolding begin_design_def by (intro kept_bind_intro kept_refuse_engine)

lemma kept_ticket_resolves [intro]: "files_kept (ticket_resolves E target)"
  unfolding ticket_resolves_def by (intro kept_if kept_option kept_bind_intro kept_lift kept_basic)

lemma kept_design_commit: "files_kept (design_commit E scope dir message paths)"
  unfolding files_kept_def design_commit_def
  by (auto simp: act_fail_def dest: complete_paths_files split: prod.splits option.splits)

lemma write_model_run:
  assumes "write_model E path fm body m = (r, m')"
  shows "(\<exists>e. r = Inl e \<and> m' = m \<and> (\<forall>d p. e \<noteq> RestoreFailed d p)) \<or>
    (\<exists>text. r = Inr () \<and> design_serialize (re_yaml (we_rec E)) fm = Inr text \<and> contents m' = (contents m)(path \<mapsto> compose text body))"
proof (cases "design_serialize (re_yaml (we_rec E)) fm")
  case (Inl e)
  then show ?thesis using assms by (auto simp: write_model_def act_fail_def)
next
  case (Inr t)
  obtain r1 m1 where w: "atomic_write E path (compose t body) m = (r1, m1)" by fastforce
  from atomic_write_contents [OF w] assms Inr w show ?thesis by (auto simp: write_model_def act_lift_def)
qed

lemma commit_written_run:
  assumes "commit_written E scope dir message path before m = (r, m')"
  shows "(\<exists>x. r = Inr x \<and> contents m' = contents m) \<or>
    (\<exists>e. r = Inl e \<and> ((\<exists>d. e = RestoreFailed d path) \<or> contents m' = (contents m)(path \<mapsto> before)))"
proof -
  obtain r1 m1 where c: "design_commit E scope dir message [path] m = (r1, m1)" by fastforce
  note kept = kept_contents [OF kept_design_commit c]
  show ?thesis
  proof (cases r1)
    case (Inl e)
    obtain r2 m2 where w: "atomic_write E path before m1 = (r2, m2)" by fastforce
    from atomic_write_contents [OF w] show ?thesis using assms c Inl w kept by (auto simp: commit_written_def)
  next
    case (Inr x)
    then show ?thesis using assms c kept by (auto simp: commit_written_def)
  qed
qed

lemma ends_after:
  assumes "files_kept f" "\<And>e m1. contents m1 = contents m \<Longrightarrow> P (Inl e) m1"
    and "\<And>x m1. mc_disk m1 = mc_disk m \<Longrightarrow> ends (g x) m1 P"
  shows "ends (act_bind f g) m P"
  by (rule ends_bind) (use assms files_keptD [OF assms(1)] kept_contents [OF assms(1)] in blast)+

lemma same_files: "mc_disk m1 = mc_disk m \<Longrightarrow> contents m1 = contents m"
  by (simp add: contents_def fun_eq_iff)

lemma resolve_same: "mc_disk m1 = mc_disk m \<Longrightarrow> resolve_parsed E scope dir arg full m1 = resolve_parsed E scope dir arg full m"
  by (cases "scope_require (mc_disk m) scope dir") (simp_all add: resolve_parsed_def resolve_one_def)

text \<open>
  How a verb that changes a design ends: with an error and the files as they were (unless the restoration itself
  failed), with nothing to do, or with one file rewritten from its model and body.
\<close>

definition rewrote :: "wenv \<Rightarrow> machine \<Rightarrow> design_result \<Rightarrow> machine \<Rightarrow> fm_model \<Rightarrow> string \<Rightarrow> fm_model \<Rightarrow> bool" where
  "rewrote E m r m' fm body fm' \<longleftrightarrow>
     ticket_at (re_yaml (we_rec E)) m (dr_path r) = Some (fm, body) \<and> custom_keys fm \<and>
     (\<exists>t. design_serialize (re_yaml (we_rec E)) fm' = Inr t \<and> contents m' = (contents m)(dr_path r \<mapsto> compose t body))"

definition kept_or :: "machine \<Rightarrow> (design_result \<Rightarrow> machine \<Rightarrow> bool) \<Rightarrow> design_error + design_result \<Rightarrow> machine \<Rightarrow> bool" where
  "kept_or m Q r m' \<longleftrightarrow>
     (case r of
        Inl e \<Rightarrow> (\<exists>d p. e = RestoreFailed d p) \<or> contents m' = contents m
      | Inr out \<Rightarrow> dr_unchanged out \<and> contents m' = contents m \<or> Q out m')"

lemma kept_or_Inl: "contents m' = contents m \<Longrightarrow> kept_or m Q (Inl e) m'"
  by (simp add: kept_or_def)

lemma ends_rewrite_design:
  assumes res: "resolve_parsed E scope dir arg full m = Inr (f, fm)" and files: "mc_disk m1 = mc_disk m"
    and Q: "\<And>r m'. rewrote E m r m' fm (df_body f) fm' \<Longrightarrow> Q r m'"
  shows "ends (rewrite_design E scope dir message f fm') m1 (kept_or m Q)"
proof -
  note before = resolve_parsed_Inr [OF res] and same = same_files [OF files]
  show ?thesis unfolding rewrite_design_def
  proof (rule ends_bind, goal_cases)
    case (1 e m2)
    from write_model_run [OF 1] same show ?case by (auto intro: kept_or_Inl)
  next
    case (2 u m2)
    from write_model_run [OF 2] obtain t where w: "design_serialize (re_yaml (we_rec E)) fm' = Inr t"
      "contents m2 = (contents m)(df_path f \<mapsto> compose t (df_body f))" using same by auto
    show ?case
    proof (rule ends_bind, goal_cases)
      case (1 e m3)
      from commit_written_run [OF 1] consider d where "e = RestoreFailed d (df_path f)" | "contents m3 = (contents m2)(df_path f \<mapsto> df_raw f)" by auto
      then show ?case
      proof cases
        case 2
        then have "contents m3 = contents m" using w(2) before(1) by (auto simp: fun_eq_iff)
        then show ?thesis by (rule kept_or_Inl)
      qed (auto simp: kept_or_def)
    next
      case (2 x m3)
      let ?r = "no_result\<lparr>dr_id := df_id f, dr_path := df_path f, dr_disabled := fst x, dr_needed := snd x\<rparr>"
      have "rewrote E m ?r m3 fm (df_body f) fm'"
        using commit_written_run [OF 2] w before by (auto simp: rewrote_def)
      then have "Q ?r m3" by (rule Q)
      then show ?case by (cases x) (auto simp: ends_def act_return_def kept_or_def)
    qed
  qed
qed

lemma mark_ends:
  assumes Q: "\<And>fm body r m'. rewrote E m r m' fm body (fm\<lparr>fm_changed := we_stamp E, fm_status := newStatus\<rparr>) \<Longrightarrow>
      known_design_status newStatus \<Longrightarrow> Q r m'"
  shows "ends (design_mark E scope dir arg full newStatus) m (kept_or m Q)"
  unfolding design_mark_def
proof (rule ends_refuse, goal_cases)
  case (2)
  then have known: "known_design_status newStatus" by (simp split: if_splits)
  show ?case
  proof (rule ends_after [OF kept_begin_design], goal_cases)
    case (2 u m1)
    show ?case
    proof (rule ends_read, goal_cases)
      case (2 x)
      obtain f fm where x: "x = (f, fm)" by (cases x)
      have res: "resolve_parsed E scope dir arg full m = Inr (f, fm)" using 2 x resolve_same [OF \<open>mc_disk m1 = mc_disk m\<close>] by simp
      show ?case unfolding x prod.case if_distrib [of "\<lambda>g. ends g m1 (kept_or m Q)"]
        using ends_rewrite_design [OF res \<open>mc_disk m1 = mc_disk m\<close>] Q known same_files [OF \<open>mc_disk m1 = mc_disk m\<close>]
        by (auto intro!: ends_return simp: kept_or_def)
    qed (auto intro: kept_or_Inl same_files 2)
  qed (rule kept_or_Inl)
qed (simp add: kept_or_def)

lemma meta_ends:
  assumes Q: "\<And>fm body ids r m'. rewrote E m r m' fm body (set_produces fm (produces_edit add target ids)) \<Longrightarrow> produces fm = Inr ids \<Longrightarrow>
      contains_id ids target = (\<not> add) \<Longrightarrow> (add \<longrightarrow> is_full_ticket_id target) \<Longrightarrow> Q r m'"
  shows "ends (design_meta E scope dir arg full add target) m (kept_or m Q)"
  unfolding design_meta_def
proof (rule ends_refuse, goal_cases)
  case (2)
  show ?case
  proof (rule ends_after [OF kept_begin_design], goal_cases)
    case (2 u m1)
    note kept = kept_or_Inl [OF same_files [OF 2]]
    show ?case
    proof (rule ends_read, goal_cases)
      case (2 x)
      obtain f fm where x: "x = (f, fm)" by (cases x)
      have res: "resolve_parsed E scope dir arg full m = Inr (f, fm)" using 2 x resolve_same [OF \<open>mc_disk m1 = mc_disk m\<close>] by simp
      show ?case unfolding x prod.case
      proof (rule ends_read, goal_cases)
        case (2 ids)
        then have ids: "produces fm = Inr ids" by (simp split: sum.splits)
        show ?case
        proof (rule ends_refuse, goal_cases)
          case (2)
          then have full_id: "add \<longrightarrow> is_full_ticket_id target" by (simp split: if_splits)
          show ?case
          proof (cases "add = contains_id ids target")
            case True
            then show ?thesis using same_files [OF \<open>mc_disk m1 = mc_disk m\<close>] by (simp add: ends_def act_return_def kept_or_def)
          next
            case False
            have "files_kept (if add then ticket_resolves E target else act_return True)" by (intro kept_if kept_ticket_resolves kept_basic)
            then show ?thesis unfolding if_not_P [OF False]
            proof (rule ends_after, goal_cases)
              case (1 e m2)
              then show ?case using same_files [OF \<open>mc_disk m1 = mc_disk m\<close>] by (intro kept_or_Inl) simp
            next
              case (2 ok m2)
              then have m2: "mc_disk m2 = mc_disk m" using \<open>mc_disk m1 = mc_disk m\<close> by simp
              have "ends (rewrite_design E scope dir message f (set_produces fm (produces_edit add target ids))) m2 (kept_or m Q)" for message
                by (rule ends_rewrite_design [OF res m2]) (use Q ids full_id False in blast)
              then show ?case by (intro ends_refuse) (auto intro: kept_or_Inl same_files m2)
            qed
          qed
        qed (rule kept)
      qed (rule kept)
    qed (rule kept)
  qed (rule kept_or_Inl)
qed (simp add: kept_or_def)

section \<open>Properties\<close>

text \<open>C24. A design command that fails did not happen: when tk design mark or tk design meta answers an error (a refusal, an
  unreadable or shared design, a write or a git commit that failed), every file holds the bytes it had. A write whose
  commit fails is put back; only when this restoration fails too is a file left changed, and the error says so.\<close>

theorem design_failure_restores:
  assumes "design_mark E scope dir arg full newStatus m = (Inl e, m') \<or> design_meta E scope dir arg full add target m = (Inl e, m')"
    and "\<forall>d p. e \<noteq> RestoreFailed d p"
  shows "contents m' = contents m"
proof -
  have "ends (design_mark E scope dir arg full newStatus) m (kept_or m (\<lambda>r m'. True))" by (rule mark_ends) simp
  moreover have "ends (design_meta E scope dir arg full add target) m (kept_or m (\<lambda>r m'. True))" by (rule meta_ends) simp
  ultimately have "kept_or m (\<lambda>r m'. True) (Inl e) m'" using assms(1) by (blast dest: endsD)
  then show ?thesis using assms(2) by (simp add: kept_or_def)
qed

definition other_field :: "field \<Rightarrow> bool" where
  "other_field f \<longleftrightarrow> fst f \<noteq> key_produces"

lemma design_custom_append [simp]: "design_custom [] = []" "design_custom (xs @ ys) = design_custom xs @ design_custom ys"
  by (simp_all add: design_custom_def)

lemma design_custom_others [simp]: "design_custom (filter other_field cs) = filter other_field cs"
  by (induction cs) (auto simp: design_custom_def produces_item_def other_field_def)

lemma filter_design_custom [simp]: "filter other_field (design_custom cs) = filter other_field cs"
  by (induction cs) (auto simp: design_custom_def produces_item_def other_field_def split: sum.splits)

lemma other_fields: "other_field = (\<lambda>f. fst f \<noteq> key_produces)"
  by (simp add: other_field_def fun_eq_iff)

lemma set_produces_custom:
  "fm_custom (set_produces fm ids) = filter other_field (fm_custom fm) @ (if ids = [] then [] else [(key_produces, VStrs ids)])"
proof -
  have "filter other_field (fm_custom fm) = fm_custom fm" if "\<not> (\<exists>f \<in> set (fm_custom fm). fst f = key_produces)"
    using that by (auto simp: other_field_def filter_id_conv)
  then show ?thesis by (auto simp: set_produces_def remove_custom_def Let_def other_fields)
qed

lemma set_produces_rest [simp]: "(set_produces fm ids)\<lparr>fm_custom := cs\<rparr> = fm\<lparr>fm_custom := cs\<rparr>"
  by (auto simp: set_produces_def remove_custom_def Let_def)

lemma produces_written:
  "produces ((set_produces fm ids)\<lparr>fm_custom := design_custom (fm_custom (set_produces fm ids))\<rparr>) = Inr ids"
proof -
  have "find (\<lambda>f. fst f = key_produces) (filter other_field cs @ xs) = find (\<lambda>f. fst f = key_produces) xs" for cs xs
    by (induction cs) (simp_all add: other_field_def)
  then show ?thesis
    by (simp add: produces_def set_produces_custom design_custom_def [of "[x]" for x] produces_item_def string_list_def [of "VStrs ids"])
qed

lemma set_produces_keys: "custom_keys fm \<Longrightarrow> custom_keys (set_produces fm ids)"
  by (auto simp: custom_keys_def set_produces_custom list_all_iff key_produces_def is_builtin_key_def builtin_keys_def key_names)

text \<open>tk design meta edits one list of one file: after an add the produces list of the design ends in the new ticket id, which
  was not in it before; after a remove every occurrence is gone. The text of the design, every other field of its front matter
  and every other file are as they were.\<close>

theorem design_meta_exact:
  assumes codec: "design_codec (re_yaml (we_rec E))"
    and run: "design_meta E scope dir arg full add target m = (Inr r, m')" and "\<not> dr_unchanged r"
  shows "\<exists>fm body ids fm'. ticket_at (re_yaml (we_rec E)) m (dr_path r) = Some (fm, body) \<and> produces fm = Inr ids \<and>
    contains_id ids target = (\<not> add) \<and> ticket_at (re_yaml (we_rec E)) m' (dr_path r) = Some (fm', body) \<and>
    produces fm' = Inr (produces_edit add target ids) \<and> fm'\<lparr>fm_custom := []\<rparr> = fm\<lparr>fm_custom := []\<rparr> \<and>
    filter other_field (fm_custom fm') = filter other_field (fm_custom fm) \<and>
    (\<forall>p. p \<noteq> dr_path r \<longrightarrow> contents m' p = contents m p)"
proof -
  define Q where "Q r m' \<longleftrightarrow> (\<exists>fm body ids. rewrote E m r m' fm body (set_produces fm (produces_edit add target ids)) \<and> produces fm = Inr ids \<and>
      contains_id ids target = (\<not> add))" for r m'
  have "ends (design_meta E scope dir arg full add target) m (kept_or m Q)" by (rule meta_ends) (auto simp: Q_def)
  from endsD [OF this run] assms(3) obtain fm body ids t where
    at: "ticket_at (re_yaml (we_rec E)) m (dr_path r) = Some (fm, body)" "custom_keys fm" and ids: "produces fm = Inr ids" "contains_id ids target = (\<not> add)"
    and new: "design_serialize (re_yaml (we_rec E)) (set_produces fm (produces_edit add target ids)) = Inr t"
      "contents m' = (contents m)(dr_path r \<mapsto> compose t body)"
    by (auto simp: kept_or_def Q_def rewrote_def)
  let ?fm = "set_produces fm (produces_edit add target ids)"
  have "ticket_at (re_yaml (we_rec E)) m' (dr_path r) = Some (?fm\<lparr>fm_custom := design_custom (fm_custom ?fm)\<rparr>, body)"
    by (rule design_reads_back [OF codec set_produces_keys [OF at(2)] new(1)]) (simp add: new(2))
  moreover have "filter other_field (design_custom (fm_custom ?fm)) = filter other_field (fm_custom fm)"
    unfolding filter_design_custom set_produces_custom by (simp add: other_fields)
  moreover have "\<forall>p. p \<noteq> dr_path r \<longrightarrow> contents m' p = contents m p" by (simp add: new(2))
  ultimately show ?thesis using at(1) ids produces_written [of fm "produces_edit add target ids"]
    by (intro exI [of _ fm] exI [of _ body] exI [of _ ids] exI [of _ "?fm\<lparr>fm_custom := design_custom (fm_custom ?fm)\<rparr>"]) simp
qed

section \<open>A small scope with one design\<close>

definition design_table :: "(fm_model \<times> string) list \<Rightarrow> yaml" where
  "design_table tbl =
     \<lparr>y_unmarshal = (\<lambda>doc. case find (\<lambda>(fm, t). t = doc) tbl of
          Some (fm, t) \<Rightarrow> Inr (decode_items (design_items fm)) | None \<Rightarrow> Inl ''unknown''),
      y_marshal = (\<lambda>items. case find (\<lambda>(fm, t). design_items fm = items) tbl of Some (fm, t) \<Rightarrow> Inr t | None \<Rightarrow> Inl ''unknown'')\<rparr>"

lemma design_table_ok:
  assumes "distinct (map snd tbl)" "list_all (\<lambda>(fm, t). fence_free t) tbl"
  shows "design_codec (design_table tbl)"
  unfolding design_codec_def
proof (intro allI impI)
  fix fm t
  assume "design_serialize (design_table tbl) fm = Inr t"
  then obtain fm' where found: "find (\<lambda>(fm', t). design_items fm' = design_items fm) tbl = Some (fm', t)"
    by (auto simp: design_serialize_def design_table_def split: option.splits)
  then have mem: "(fm', t) \<in> set tbl" "design_items fm' = design_items fm" by (auto simp: find_Some_iff in_set_conv_nth)
  obtain fm2 t2 where f2: "find (\<lambda>(fm, u). u = t) tbl = Some (fm2, t2)"
    using mem(1) by (cases "find (\<lambda>(fm, u). u = t) tbl") (auto simp: find_None_iff)
  then have "(fm2, t2) \<in> set tbl" "t2 = t" by (auto simp: find_Some_iff in_set_conv_nth)
  then have "fm2 = fm'" using distinct_map_eqD [OF assms(1), of "(fm2, t2)" "(fm', t)"] mem(1) by simp
  then show "y_unmarshal (design_table tbl) t = Inr (decode_items (design_items fm)) \<and> fence_free t"
    using f2 mem assms(2) by (auto simp: design_table_def list_all_iff)
qed

definition plan_model :: "string \<Rightarrow> string list \<Rightarrow> fm_model" where
  "plan_model st ids = empty_model\<lparr>fm_id := ''app-dddd'', fm_status := st, fm_changed := ''now'',
     fm_custom := (if ids = [] then [] else [(key_produces, VStrs ids)])\<rparr>"

definition plan_env :: "(git_view \<Rightarrow> git_view) \<Rightarrow> wenv" where
  "plan_env g = (table_env [] (plain_schema\<lparr>sc_auto_commit := True\<rparr>))
     \<lparr>we_git := g sample_git, we_root := (\<lambda>d. Some ''/s''),
      we_rec := \<lparr>re_yaml = design_table [(plan_model ''draft'' [], line_of ''A''), (plan_model ''accepted'' [], line_of ''B''),
         (plan_model ''draft'' [''app-abcd''], line_of ''C'')], re_msg = (\<lambda>e. ''bad''),
         re_config = (\<lambda>d. Inr (plain_schema\<lparr>sc_auto_commit := True\<rparr>))\<rparr>\<rparr>"

definition plan_machine :: "string \<Rightarrow> machine" where
  "plan_machine doc =
     (let m = machine_of [(''/s/design/app-dddd-x.md'', compose (line_of doc) ''# T'')] in
      m\<lparr>mc_disk := (mc_disk m)\<lparr>dk_dirs := ''/s/design'' # dk_dirs (mc_disk m)\<rparr>\<rparr>)"

abbreviation refused_commit :: "git_view \<Rightarrow> git_view" where
  "refused_commit \<equiv> gv_commit_update (\<lambda>c m r s ps. Some ''hook'')"

lemma refused_mark:
  "fst (design_mark (plan_env refused_commit) ''app'' ''/s'' ''dddd'' False ''accepted'' (plan_machine ''A'')) =
     Inl (DesignEngine (CommitFailed ''app'' (CommitFault ''tk: app-dddd -> accepted'' ''hook'')))"
  "length (mc_calls (snd (design_mark (plan_env refused_commit) ''app'' ''/s'' ''dddd'' False ''accepted'' (plan_machine ''A'')))) = 3"
  by code_simp+

theorem design_failure_restores_witness:
  "contents (snd (design_mark (plan_env refused_commit) ''app'' ''/s'' ''dddd'' False ''accepted'' (plan_machine ''A''))) = contents (plan_machine ''A'')"
proof -
  let ?r = "design_mark (plan_env refused_commit) ''app'' ''/s'' ''dddd'' False ''accepted'' (plan_machine ''A'')"
  have "?r = (Inl (DesignEngine (CommitFailed ''app'' (CommitFault ''tk: app-dddd -> accepted'' ''hook''))), snd ?r)"
    using refused_mark(1) by (metis prod.collapse)
  from design_failure_restores [OF disjI1 [OF this]] show ?thesis by simp
qed

definition added :: "(design_error + design_result) \<times> machine" where
  "added = design_meta (plan_env (\<lambda>g. g)) ''app'' ''/s'' ''dddd'' False False ''app-abcd'' (plan_machine ''C'')"

lemma added_result: "case fst added of Inl e \<Rightarrow> False | Inr r \<Rightarrow> \<not> dr_unchanged r \<and> dr_path r = ''/s/design/app-dddd-x.md''"
  by code_simp

theorem design_meta_exact_witness:
  "\<exists>fm' body. ticket_at (re_yaml (we_rec (plan_env (\<lambda>g. g)))) (snd added) ''/s/design/app-dddd-x.md'' = Some (fm', body) \<and>
     (\<exists>ids. produces fm' = Inr (produces_edit False ''app-abcd'' ids))"
proof -
  obtain r where r: "fst added = Inr r" using added_result by (cases "fst added") simp_all
  then have run: "design_meta (plan_env (\<lambda>g. g)) ''app'' ''/s'' ''dddd'' False False ''app-abcd'' (plan_machine ''C'') = (Inr r, snd added)"
    by (metis added_def prod.collapse)
  have res: "\<not> dr_unchanged r" "dr_path r = ''/s/design/app-dddd-x.md''" using added_result r by simp_all
  have "re_yaml (we_rec (plan_env (\<lambda>g. g))) = design_table [(plan_model ''draft'' [], line_of ''A''), (plan_model ''accepted'' [], line_of ''B''),
      (plan_model ''draft'' [''app-abcd''], line_of ''C'')]" by (simp add: plan_env_def)
  moreover have "design_codec \<dots>" by (rule design_table_ok) code_simp+
  ultimately have "design_codec (re_yaml (we_rec (plan_env (\<lambda>g. g))))" by simp
  from design_meta_exact [OF this run res(1)] res(2) show ?thesis by metis
qed

end
