(* ===== verification/DesignMoves.thy ===== *)
theory DesignMoves
  imports DesignFacts
begin

text \<open>
  The move of a design to another scope, \<open>internal/design/rehome.go\<close>: the id is rewritten or extended, an earlier
  move that was interrupted is finished, both git roots are committed, and a failure after the files moved is undone.
\<close>

section \<open>The two scopes\<close>

record rehome_side =
  sd_name :: string
  sd_dir :: string
  sd_auto :: bool
  sd_root :: "string option"

definition validate_rehome :: "string \<Rightarrow> string \<Rightarrow> design_error option" where
  "validate_rehome scope destScope =
     (if \<not> is_scope_name destScope then Some (DesignUsage (BadDestination destScope))
      else if destScope = scope then Some (DesignUsage (SameDestination destScope))
      else None)"

definition dest_rehome_dir :: "wenv \<Rightarrow> string \<Rightarrow> string \<Rightarrow> design_error + string" where
  "dest_rehome_dir E destScope destDir =
     (case map_of (we_reg E) destScope of
        None \<Rightarrow> Inl (UnknownDestination destScope)
      | Some dir \<Rightarrow> Inr (if destDir = [] then dir else destDir))"

definition design_side :: "wenv \<Rightarrow> string \<Rightarrow> string \<Rightarrow> machine \<Rightarrow> design_error + rehome_side" where
  "design_side E scope dir m =
     (case refuse_unwritable E scope dir m of
        Some e \<Rightarrow> Inl (DesignEngine e)
      | None \<Rightarrow>
          (case schema_or_error (we_rec E) dir of
             (schema, Some reason) \<Rightarrow> Inl (DesignEngine (ConfigUnusable scope reason))
           | (schema, None) \<Rightarrow>
               (case check_mid_rebase (we_git E) scope (schema_auto_commit schema) (we_root E dir) m of
                  Some e \<Rightarrow> Inl (DesignEngine e)
                | None \<Rightarrow> Inr \<lparr>sd_name = scope, sd_dir = dir, sd_auto = schema_auto_commit schema, sd_root = we_root E dir\<rparr>)))"

definition refuse_auto_mismatch :: "rehome_side \<Rightarrow> rehome_side \<Rightarrow> design_error option" where
  "refuse_auto_mismatch src dest =
     (case sd_root src of
        None \<Rightarrow> None
      | Some root \<Rightarrow>
          if sd_root dest \<noteq> Some root \<or> sd_auto src = sd_auto dest then None else Some (AutoCommitDiffers root))"

section \<open>The new name\<close>

definition design_slug :: "string \<Rightarrow> string" where
  "design_slug base =
     (let parts = split_n CHR ''-'' 3 (trim_suffix md_ext base) in if length parts < 3 then [] else parts ! 2)"

definition design_basename :: "string \<Rightarrow> string \<Rightarrow> string" where
  "design_basename slug newID = (if slug = [] then newID @ md_ext else newID @ ''-'' @ slug @ md_ext)"

definition short_part :: "string \<Rightarrow> string" where
  "short_part full = trim_prefix (scope_of_full_id full @ ''-'') full"

text \<open>A design of the destination that an interrupted move left: same creation time and slug, an id of the same family.\<close>

definition leftover_fits :: "string \<Rightarrow> string \<Rightarrow> string \<Rightarrow> design_file \<Rightarrow> bool" where
  "leftover_fits sourceShort slug created f \<longleftrightarrow>
     (case df_model f of
        None \<Rightarrow> False
      | Some fm \<Rightarrow>
          df_fault f = None \<and> fm_created fm = created \<and> design_slug (path_base (df_path f)) = slug \<and>
          short_in_family (short_part (df_id f)) sourceShort)"

definition better_leftover :: "design_file \<Rightarrow> design_file option \<Rightarrow> design_file option" where
  "better_leftover f best =
     (case best of
        None \<Rightarrow> Some f
      | Some b \<Rightarrow>
          let s = length (short_part (df_id f)); t = length (short_part (df_id b)) in
          if s < t \<or> (s = t \<and> df_path f < df_path b) then Some f else Some b)"

definition find_leftover :: "design_file list \<Rightarrow> string \<Rightarrow> string \<Rightarrow> string \<Rightarrow> design_file option" where
  "find_leftover files sourceShort slug created =
     (if created = [] then None else fold better_leftover (filter (leftover_fits sourceShort slug created) files) None)"

definition moved_content :: "yaml \<Rightarrow> fm_model \<Rightarrow> string \<Rightarrow> string \<Rightarrow> design_error + string" where
  "moved_content Y fm body destID =
     (case design_serialize Y (fm\<lparr>fm_id := destID, fm_order := []\<rparr>) of
        Inl e \<Rightarrow> Inl (DesignSerializeFailed e)
      | Inr interior \<Rightarrow> Inr (compose interior body))"

text \<open>Where the design goes: the leftover, or the id with the new prefix, extended if its short id is taken.\<close>

definition rehome_target ::
    "yaml \<Rightarrow> disk \<Rightarrow> string \<Rightarrow> string \<Rightarrow> string \<Rightarrow> design_file \<Rightarrow> fm_model \<Rightarrow> design_error + (string \<times> string \<times> bool)" where
  "rehome_target Y k scope destScope destDir f fm =
     (let sourceShort = trim_prefix (scope @ ''-'') (df_id f); slug = design_slug (path_base (df_path f)) in
      case design_files Y k destDir destScope of
        Inl e \<Rightarrow> Inl (DesignsUnlisted e)
      | Inr files \<Rightarrow>
          (case find_leftover files sourceShort slug (fm_created fm) of
             Some left \<Rightarrow> Inr (df_id left, df_path left, True)
           | None \<Rightarrow>
               (case occupied_short_ids Y k destDir destScope of
                  None \<Rightarrow> Inl (DesignEngine OccupiedUnreadable)
                | Some taken \<Rightarrow>
                    (case (if sourceShort \<in> taken then Ids.extend sourceShort taken else Inr sourceShort) of
                       Inl e \<Rightarrow> Inl (DesignExtend (df_id f) e)
                     | Inr short \<Rightarrow>
                         Inr (full_id destScope short,
                              path_join (path_join destDir design_dir) (design_basename slug (full_id destScope short)), False)))))"

definition rehome_ops :: "string \<Rightarrow> string \<Rightarrow> string \<Rightarrow> bool \<Rightarrow> rw_op list" where
  "rehome_ops srcPath destPath content leftover =
     (let move = \<lparr>op_old = srcPath, op_new = destPath, op_content = content\<rparr> in
      if leftover \<and> destPath \<noteq> srcPath then [\<lparr>op_old = destPath, op_new = destPath, op_content = content\<rparr>, move] else [move])"

section \<open>Paths of two scopes\<close>

definition under_or_equal :: "string \<Rightarrow> string \<Rightarrow> bool" where
  "under_or_equal child ancestor \<longleftrightarrow>
     child = ancestor \<or> prefix (if suffix [slash] ancestor then ancestor else ancestor @ [slash]) child"

definition partition_rehome :: "string \<Rightarrow> string \<Rightarrow> string list \<Rightarrow> string list \<times> string list" where
  "partition_rehome srcDir destDir paths =
     (let ps = first_seen {} (filter (\<lambda>p. p \<noteq> []) paths);
          inner = (\<lambda>p. under_or_equal p srcDir \<and> under_or_equal p destDir \<and> length destDir > length srcDir) in
      (filter (\<lambda>p. under_or_equal p srcDir \<and> \<not> inner p) ps,
       filter (\<lambda>p. under_or_equal p destDir \<and> (inner p \<or> \<not> under_or_equal p srcDir)) ps))"

section \<open>Commits of both roots\<close>

record rehome_batch =
  rb_scope :: string
  rb_dir :: string
  rb_root :: string
  rb_paths :: "string list"

definition join_batch :: "rehome_batch \<Rightarrow> rehome_batch list \<Rightarrow> rehome_batch list" where
  "join_batch b bs =
     (if list_ex (\<lambda>x. rb_root x = rb_root b) bs
      then map (\<lambda>x. if rb_root x = rb_root b then x\<lparr>rb_paths := rb_paths x @ rb_paths b\<rparr> else x) bs
      else bs @ [b])"

definition add_side ::
    "rehome_side \<Rightarrow> string list \<Rightarrow> (string \<times> string) list \<times> rehome_batch list \<Rightarrow> (string \<times> string) list \<times> rehome_batch list" where
  "add_side side paths acc =
     (case acc of
        (disabled, bs) \<Rightarrow>
          if \<not> sd_auto side \<or> length paths = 0 then acc
          else case sd_root side of
                 None \<Rightarrow> (disabled @ [(sd_name side, sd_dir side)], bs)
               | Some root \<Rightarrow>
                   (disabled, join_batch \<lparr>rb_scope = sd_name side, rb_dir = sd_dir side, rb_root = root, rb_paths = paths\<rparr> bs))"

definition rehome_batches ::
    "rehome_side \<Rightarrow> rehome_side \<Rightarrow> string list \<Rightarrow> string list \<Rightarrow> (string \<times> string) list \<times> rehome_batch list" where
  "rehome_batches src dest srcPaths destPaths =
     (if sd_name src < sd_name dest then add_side dest destPaths (add_side src srcPaths ([], []))
      else add_side src srcPaths (add_side dest destPaths ([], [])))"

text \<open>The batches that were committed are answered with the error, for the undo.\<close>

fun commit_batches ::
    "wenv \<Rightarrow> string \<Rightarrow> rehome_batch list \<Rightarrow> machine \<Rightarrow> (write_error option \<times> rehome_batch list \<times> string list) \<times> machine" where
  "commit_batches E message [] m = ((None, [], []), m)"
| "commit_batches E message (b # bs) m =
     (case commit_paths_core (we_git E) (rb_root b) message (rb_paths b) m of
        (Some e, m1) \<Rightarrow> ((Some (CommitFailed (rb_scope b) e), [], []), m1)
      | (None, m1) \<Rightarrow>
          let reason = sync_needed_reason (we_git E) (rb_dir b) (rb_root b) m1 in
          (case commit_batches E message bs m1 of
             ((err, committed, needed), m2) \<Rightarrow>
               ((err, b # committed, (if reason \<noteq> [] then [reason] else []) @ needed), m2)))"

section \<open>Undo\<close>

record rehome_prior =
  pp_src :: string
  pp_src_bytes :: string
  pp_dest :: string
  pp_dest_bytes :: "string option"

definition capture_rehome :: "wenv \<Rightarrow> string \<Rightarrow> string \<Rightarrow> machine \<Rightarrow> design_error + rehome_prior" where
  "capture_rehome E srcPath destPath m =
     (case disk_file (mc_disk m) srcPath of
        None \<Rightarrow> Inl (DesignEngine (ReadFailed srcPath))
      | Some f \<Rightarrow>
          if we_fault E (IoRead srcPath) then Inl (DesignEngine (ReadFailed srcPath))
          else case disk_file (mc_disk m) destPath of
                 None \<Rightarrow> Inr \<lparr>pp_src = srcPath, pp_src_bytes = f_data f, pp_dest = destPath, pp_dest_bytes = None\<rparr>
               | Some g \<Rightarrow>
                   if we_fault E (IoRead destPath) then Inl (DesignEngine (ReadFailed destPath))
                   else Inr \<lparr>pp_src = srcPath, pp_src_bytes = f_data f, pp_dest = destPath, pp_dest_bytes = Some (f_data g)\<rparr>)"

definition restore_prior :: "wenv \<Rightarrow> rehome_prior \<Rightarrow> machine \<Rightarrow> string option \<times> machine" where
  "restore_prior E p m =
     (case atomic_write E (pp_src p) (pp_src_bytes p) m of
        (Inl e, m1) \<Rightarrow> (Some (pp_src p), m1)
      | (Inr u, m1) \<Rightarrow>
          if pp_dest p = [] \<or> pp_dest p = pp_src p then (None, m1)
          else case pp_dest_bytes p of
                 None \<Rightarrow> (case unlink_file E (pp_dest p) m1 of (ok, m2) \<Rightarrow> (if ok then None else Some (pp_dest p), m2))
               | Some data \<Rightarrow>
                   (case atomic_write E (pp_dest p) data m1 of
                      (Inl e, m2) \<Rightarrow> (Some (pp_dest p), m2)
                    | (Inr u, m2) \<Rightarrow> (None, m2)))"

definition sync_rehome :: "wenv \<Rightarrow> string \<Rightarrow> string list \<Rightarrow> string \<Rightarrow> string list \<Rightarrow> unit act" where
  "sync_rehome E srcScope srcPaths destScope destPaths =
     act_bind (sync_one E srcScope srcPaths) (\<lambda>_. sync_one E destScope destPaths)"

definition undo_message :: "string \<Rightarrow> string \<Rightarrow> string" where
  "undo_message oldID destID = ''tk: undo design rehome '' @ oldID @ '' -> '' @ destID"

definition undo_rehome ::
    "wenv \<Rightarrow> string \<Rightarrow> string \<Rightarrow> rehome_prior \<Rightarrow> string list \<Rightarrow> string list \<Rightarrow> rehome_batch list \<Rightarrow> string \<Rightarrow> string \<Rightarrow>
     design_error \<Rightarrow> (design_error, 'a) run" where
  "undo_rehome E srcScope destScope prior srcPaths destPaths committed oldID destID err m =
     (case restore_prior E prior m of
        (Some p, m1) \<Rightarrow> (Inl (RestoreFailed err p), m1)
      | (None, m1) \<Rightarrow>
          (case commit_batches E (undo_message oldID destID) committed m1 of
             ((cerr, _, _), m2) \<Rightarrow>
               (case sync_rehome E srcScope srcPaths destScope destPaths m2 of
                  (r, m3) \<Rightarrow>
                    (Inl (case (cerr, r) of
                            (None, Inr _) \<Rightarrow> err
                          | (None, Inl s) \<Rightarrow> UndoUnsynced err s
                          | (Some c, Inr _) \<Rightarrow> UndoUncommitted err c
                          | (Some c, Inl s) \<Rightarrow> UndoUnsynced (UndoUncommitted err c) s), m3))))"

section \<open>Rehome\<close>

text \<open>The part after the plan: move the files, write the rows through, commit both roots, or undo.\<close>

definition carry_out ::
    "wenv \<Rightarrow> rehome_side \<Rightarrow> rehome_side \<Rightarrow> string \<Rightarrow> string \<Rightarrow> rw_op list \<Rightarrow> rehome_prior \<Rightarrow> (design_error, design_result) run" where
  "carry_out E src dest oldID destID ops prior m =
     (case apply_now E ops m of
        ((Some e, touched), m1) \<Rightarrow> (Inl (DesignApply e), m1)
      | ((None, touched), m1) \<Rightarrow>
          (case partition_rehome (sd_dir src) (sd_dir dest) touched of
             (srcPaths, destPaths) \<Rightarrow>
               let undo = undo_rehome E (sd_name src) (sd_name dest) prior srcPaths destPaths in
               (case sync_rehome E (sd_name src) srcPaths (sd_name dest) destPaths m1 of
                  (Inl e, m2) \<Rightarrow> undo [] oldID destID (DesignEngine e) m2
                | (Inr u, m2) \<Rightarrow>
                    (case rehome_batches src dest srcPaths destPaths of
                       (disabled, bs) \<Rightarrow>
                         (case commit_batches E (''tk: design rehome '' @ oldID @ '' -> '' @ destID) bs m2 of
                            ((Some e, committed, needed), m3) \<Rightarrow> undo committed oldID destID (DesignEngine e) m3
                          | ((None, committed, needed), m3) \<Rightarrow>
                              (Inr (no_result\<lparr>dr_id := destID, dr_path := pp_dest prior, dr_disabled_all := disabled,
                                      dr_needed_all := needed\<rparr>), m3))))))"

definition design_rehome ::
    "wenv \<Rightarrow> string \<Rightarrow> string \<Rightarrow> string \<Rightarrow> bool \<Rightarrow> string \<Rightarrow> string \<Rightarrow> (design_error, design_result) run" where
  "design_rehome E scope dir arg full destScope givenDir =
     act_bind (act_refuse (validate_rehome scope destScope)) (\<lambda>_.
     act_bind (act_read (\<lambda>m. dest_rehome_dir E destScope givenDir)) (\<lambda>destDir.
     act_bind (act_read (design_side E scope dir)) (\<lambda>src.
     act_bind (act_read (design_side E destScope destDir)) (\<lambda>dest.
     act_bind (act_refuse (refuse_auto_mismatch src dest)) (\<lambda>_.
     act_bind (act_read (resolve_parsed E scope dir arg full)) (\<lambda>(f, fm).
     act_bind (act_read (\<lambda>m. rehome_target (re_yaml (we_rec E)) (mc_disk m) scope destScope destDir f fm)) (\<lambda>(destID, destPath, leftover).
     act_bind (act_read (\<lambda>m. moved_content (re_yaml (we_rec E)) fm (df_body f) destID)) (\<lambda>content.
     act_bind (act_read (capture_rehome E (df_path f) destPath)) (\<lambda>prior.
       carry_out E src dest (df_id f) destID (rehome_ops (df_path f) destPath content leftover) prior)))))))))"

section \<open>What a move leaves\<close>

lemma design_files_path:
  assumes "design_files Y k dir scope = Inr files" "f \<in> set files"
  shows "df_path f \<noteq> []"
proof -
  have path: "read_designs Y k scope root names = Inr files \<Longrightarrow> f \<in> set files \<Longrightarrow> df_path f \<noteq> []" for root names files
  proof (induction names arbitrary: files)
    case (Cons name names)
    show ?case
    proof (cases "\<not> looks_like_ticket name \<or> short_id_of_basename name scope = None")
      case True
      then show ?thesis using Cons by simp
    next
      case False
      then obtain g gs where g: "read_design_at Y k scope root name = Inr g" "read_designs Y k scope root names = Inr gs" "files = g # gs"
        using Cons.prems(1) by (auto simp: rbind_Inr_iff map_sum_Inr)
      from g(1) have "df_path g = path_join root name" by (auto simp: read_design_at_def split: option.splits)
      then show ?thesis using Cons.IH [OF g(2)] Cons.prems(2) g(3) by (auto simp: path_join_def)
    qed
  qed simp
  with assms show ?thesis by (auto simp: design_files_def Let_def split: option.splits if_splits)
qed

lemma resolved_path: "resolve_parsed E scope dir arg full m = Inr (f, fm) \<Longrightarrow> df_path f \<noteq> []"
proof -
  assume "resolve_parsed E scope dir arg full m = Inr (f, fm)"
  then obtain files where files: "design_files (re_yaml (we_rec E)) (mc_disk m) dir scope = Inr files" "pick_design scope arg full files = Inr f"
    by (auto simp: resolve_parsed_def resolve_one_def rbind_Inr_iff split: option.splits sum.splits)
  define hits where "hits = filter (\<lambda>f. if full then df_id f = arg else trim_prefix (scope @ ''-'') (df_id f) = arg) files"
  have "hits \<noteq> []" "f = hits ! 0"
    using files(2) unfolding pick_design_def Let_def hits_def [symmetric] by (simp_all split: if_splits)
  then have "f \<in> set hits" by (metis length_greater_0_conv nth_mem)
  then have "f \<in> set files" by (simp add: hits_def)
  with design_files_path [OF files(1)] show ?thesis by simp
qed

text \<open>The one move, once its destination was dealt with.\<close>

lemma move_applied:
  assumes "apply_now E [\<lparr>op_old = s, op_new = d, op_content = c\<rparr>] m = ((e, t), m1)" "s \<noteq> []" "contents m s \<noteq> None"
  shows "e = None \<Longrightarrow> contents m1 = (if s = d then (contents m)(d \<mapsto> c) else (contents m)(d \<mapsto> c, s := None))"
    and "e \<noteq> None \<Longrightarrow> contents m1 = contents m \<or> (s \<noteq> d \<and> contents m1 = (contents m)(d \<mapsto> c))"
proof -
  have present: "\<not> done_now \<lparr>op_old = s, op_new = d, op_content = c\<rparr> m" using assms(3) by (auto simp: done_now_def contents_def)
  from assms(1) show "e = None \<Longrightarrow> contents m1 = (if s = d then (contents m)(d \<mapsto> c) else (contents m)(d \<mapsto> c, s := None))"
    by (cases rule: apply_now_cases) (use present assms(2) in \<open>auto simp: moved_def fun_eq_iff\<close>)
  from assms(1) show "e \<noteq> None \<Longrightarrow> contents m1 = contents m \<or> (s \<noteq> d \<and> contents m1 = (contents m)(d \<mapsto> c))"
    by (cases rule: apply_now_cases) (use present assms(2) in \<open>auto simp: moved_def\<close>)
qed

lemma rehome_applied:
  assumes run: "apply_now E (rehome_ops s d c left) m = ((e, t), m1)" and s: "s \<noteq> []" "contents m s \<noteq> None"
  shows "e = None \<Longrightarrow> contents m1 = (if s = d then (contents m)(d \<mapsto> c) else (contents m)(d \<mapsto> c, s := None))"
    and "e \<noteq> None \<Longrightarrow> contents m1 = contents m \<or> (s \<noteq> d \<and> contents m1 = (contents m)(d \<mapsto> c))"
proof -
  let ?put = "\<lparr>op_old = d, op_new = d, op_content = c\<rparr>" and ?move = "\<lparr>op_old = s, op_new = d, op_content = c\<rparr>"
  have "(e = None \<longrightarrow> contents m1 = (if s = d then (contents m)(d \<mapsto> c) else (contents m)(d \<mapsto> c, s := None))) \<and>
    (e \<noteq> None \<longrightarrow> contents m1 = contents m \<or> (s \<noteq> d \<and> contents m1 = (contents m)(d \<mapsto> c)))"
  proof (cases "left \<and> d \<noteq> s")
    case False
    then have "rehome_ops s d c left = [?move]" by (auto simp: rehome_ops_def Let_def)
    with run have "apply_now E [?move] m = ((e, t), m1)" by simp
    from move_applied [OF this s] show ?thesis by blast
  next
    case True
    then have "rehome_ops s d c left = [?put, ?move]" by (simp add: rehome_ops_def Let_def)
    with run have "apply_now E [?put, ?move] m = ((e, t), m1)" by simp
    then show ?thesis
    proof (cases rule: apply_now_cases)
      case (put m2 t')
      have c: "contents m2 = (contents m)(d \<mapsto> c)" using put(3) by simp
      have "contents m2 s \<noteq> None" using True s(2) c by simp
      note two = move_applied [OF put(4) s(1) this]
      have "(contents m)(d \<mapsto> c, d \<mapsto> c) = (contents m)(d \<mapsto> c)" by simp
      with two True c show ?thesis by auto
    qed (use True in \<open>auto simp: moved_def\<close>)
  qed
  then show "e = None \<Longrightarrow> contents m1 = (if s = d then (contents m)(d \<mapsto> c) else (contents m)(d \<mapsto> c, s := None))"
    "e \<noteq> None \<Longrightarrow> contents m1 = contents m \<or> (s \<noteq> d \<and> contents m1 = (contents m)(d \<mapsto> c))" by blast+
qed

lemma capture_Inr:
  assumes "capture_rehome E s d m = Inr p"
  shows "contents m s = Some (pp_src_bytes p)" "contents m d = pp_dest_bytes p" "pp_src p = s" "pp_dest p = d"
  using assms by (auto simp: capture_rehome_def contents_def split: option.splits if_splits)

lemma restore_contents:
  assumes "restore_prior E p m = (None, m')" "pp_dest p \<noteq> []"
  shows "contents m' = (if pp_dest p = pp_src p then (contents m)(pp_src p \<mapsto> pp_src_bytes p)
    else (contents m)(pp_src p \<mapsto> pp_src_bytes p, pp_dest p := pp_dest_bytes p))"
proof -
  obtain r1 m1 where w: "atomic_write E (pp_src p) (pp_src_bytes p) m = (r1, m1)" by fastforce
  have r1: "r1 = Inr ()" and c1: "contents m1 = (contents m)(pp_src p \<mapsto> pp_src_bytes p)"
    using atomic_write_contents [OF w] assms(1) w by (auto simp: restore_prior_def)
  show ?thesis
  proof (cases "pp_dest p = pp_src p")
    case True
    then show ?thesis using assms(1) w r1 c1 by (simp add: restore_prior_def)
  next
    case False
    show ?thesis
    proof (cases "pp_dest_bytes p")
      case None
      obtain ok m2 where u: "unlink_file E (pp_dest p) m1 = (ok, m2)" by fastforce
      show ?thesis using assms w r1 c1 None False u unlink_contents [OF u] by (auto simp: restore_prior_def split: if_splits)
    next
      case (Some data)
      obtain r2 m2 where u: "atomic_write E (pp_dest p) data m1 = (r2, m2)" by fastforce
      show ?thesis using assms w r1 c1 Some False u atomic_write_contents [OF u] by (auto simp: restore_prior_def)
    qed
  qed
qed

lemma kept_sync_one [intro]: "files_kept (sync_one E scope paths)"
  unfolding sync_one_def by (intro kept_if kept_basic) (use sync_now_run in \<open>auto simp: files_kept_def\<close>)

lemma kept_sync_rehome [intro]: "files_kept (sync_rehome E a ps b qs)"
  unfolding sync_rehome_def by (intro kept_bind_intro kept_sync_one)

lemma commit_batches_files: "commit_batches E message bs m = (r, m') \<Longrightarrow> contents m' = contents m"
proof (induction bs arbitrary: m r m')
  case (Cons b bs)
  obtain r1 m1 where c: "commit_paths_core (we_git E) (rb_root b) message (rb_paths b) m = (r1, m1)" by fastforce
  obtain e committed needed m2 where rest: "commit_batches E message bs m1 = ((e, committed, needed), m2)" by (metis prod_cases3 surj_pair)
  have m1: "contents m1 = contents m" using commit_paths_files [OF c] by (intro same_files) simp
  show ?case
  proof (cases r1)
    case None
    then have "m' = m2" using Cons.prems c rest by (simp add: Let_def)
    with Cons.IH [OF rest] m1 show ?thesis by simp
  next
    case (Some e)
    then have "m' = m1" using Cons.prems c by simp
    with m1 show ?thesis by simp
  qed
qed simp

definition undone :: "machine \<Rightarrow> design_error \<Rightarrow> machine \<Rightarrow> bool" where
  "undone m e m' \<longleftrightarrow> (\<exists>d p. e = RestoreFailed d p) \<or> contents m' = contents m"

lemma undo_restores:
  assumes run: "undo_rehome E a b p ps qs committed i j err m1 = (r, m')" and p: "pp_dest p \<noteq> []"
    and src: "contents m (pp_src p) = Some (pp_src_bytes p)" "contents m (pp_dest p) = pp_dest_bytes p"
    and rest: "\<forall>q. q \<noteq> pp_src p \<longrightarrow> q \<noteq> pp_dest p \<longrightarrow> contents m1 q = contents m q"
  shows "\<exists>e. r = Inl e \<and> undone m e m'"
proof -
  obtain s m2 where rs: "restore_prior E p m1 = (s, m2)" by fastforce
  show ?thesis
  proof (cases s)
    case (Some q)
    then show ?thesis using run rs by (auto simp: undo_rehome_def undone_def)
  next
    case None
    obtain cerr committed' needed m3 where c: "commit_batches E (undo_message i j) committed m2 = ((cerr, committed', needed), m3)"
      by (metis prod_cases3 surj_pair)
    obtain r4 m4 where sy: "sync_rehome E a ps b qs m3 = (r4, m4)" by fastforce
    have m': "m' = m4" "\<exists>e. r = Inl e" using run rs None c sy by (auto simp: undo_rehome_def)
    have "contents m' = contents m2" using kept_contents [OF kept_sync_rehome sy] commit_batches_files [OF c] m'(1) by simp
    also have "\<dots> = contents m" using restore_contents [OF rs [unfolded None] p] src rest by (auto simp: fun_eq_iff split: if_splits)
    finally show ?thesis using m'(2) by (auto simp: undone_def)
  qed
qed

lemma carry_out_cases:
  assumes run: "carry_out E src dest i j (rehome_ops s d c left) p m = (r, m')"
    and p: "capture_rehome E s d m = Inr p" and ne: "s \<noteq> []" "d \<noteq> []"
  shows "case r of
      Inl e \<Rightarrow> undone m e m' \<or> (\<exists>a. e = DesignApply a) \<and> s \<noteq> d \<and> contents m' = (contents m)(d \<mapsto> c)
    | Inr out \<Rightarrow> dr_id out = j \<and> dr_path out = d \<and> contents m' = (if s = d then (contents m)(d \<mapsto> c) else (contents m)(d \<mapsto> c, s := None))"
proof -
  note prior = capture_Inr [OF p]
  obtain e t m1 where a: "apply_now E (rehome_ops s d c left) m = ((e, t), m1)" by (metis surj_pair)
  have "contents m s \<noteq> None" using prior(1) by simp
  note applied = rehome_applied [OF a ne(1) this]
  show ?thesis
  proof (cases e)
    case (Some err)
    then show ?thesis using run a applied(2) by (auto simp: carry_out_def undone_def)
  next
    case None
    note moved = applied(1) [OF None]
    obtain ps qs where pq: "partition_rehome (sd_dir src) (sd_dir dest) t = (ps, qs)" by fastforce
    obtain r2 m2 where sy: "sync_rehome E (sd_name src) ps (sd_name dest) qs m1 = (r2, m2)" by fastforce
    note m2 = kept_contents [OF kept_sync_rehome sy]
    have rest: "\<forall>q. q \<noteq> pp_src p \<longrightarrow> q \<noteq> pp_dest p \<longrightarrow> contents m1 q = contents m q" using moved prior by simp
    note undo = undo_restores [where p = p and m = m, unfolded prior(3,4), OF _ ne(2) prior(1,2)]
    show ?thesis
    proof (cases r2)
      case (Inl w)
      then have "undo_rehome E (sd_name src) (sd_name dest) p ps qs [] i j (DesignEngine w) m2 = (r, m')"
        using run a None pq sy by (simp add: carry_out_def Let_def)
      from undo [OF this] rest m2 prior show ?thesis by auto
    next
      case (Inr u)
      obtain dis bs where bs: "rehome_batches src dest ps qs = (dis, bs)" by fastforce
      obtain ce committed needed m3 where cm: "commit_batches E (''tk: design rehome '' @ i @ '' -> '' @ j) bs m2 = ((ce, committed, needed), m3)"
        by (metis prod_cases3 surj_pair)
      note m3 = commit_batches_files [OF cm]
      show ?thesis
      proof (cases ce)
        case (Some w)
        then have "undo_rehome E (sd_name src) (sd_name dest) p ps qs committed i j (DesignEngine w) m3 = (r, m')"
          using run a None pq sy Inr bs cm by (simp add: carry_out_def Let_def)
        from undo [OF this] rest m2 m3 prior show ?thesis by auto
      next
        case None
        then have "r = Inr (no_result\<lparr>dr_id := j, dr_path := pp_dest p, dr_disabled_all := dis, dr_needed_all := needed\<rparr>)" "m' = m3"
          using run a \<open>e = None\<close> pq sy Inr bs cm by (simp_all add: carry_out_def Let_def)
        then show ?thesis using moved m2 m3 prior by simp
      qed
    qed
  qed
qed

lemma rehome_target_path: "rehome_target Y k scope destScope destDir f fm = Inr (i, p, left) \<Longrightarrow> p \<noteq> []"
proof -
  have best: "fold better_leftover fs b = Some g \<Longrightarrow> b = Some g \<or> g \<in> set fs" for fs b g
  proof (induction fs arbitrary: b)
    case (Cons f fs)
    have "better_leftover f b = Some f \<or> better_leftover f b = b"
      by (simp add: better_leftover_def Let_def split: option.splits)
    with Cons.IH [of "better_leftover f b"] Cons.prems show ?case by auto
  qed simp
  assume run: "rehome_target Y k scope destScope destDir f fm = Inr (i, p, left)"
  then obtain files where files: "design_files Y k destDir destScope = Inr files" by (auto simp: rehome_target_def Let_def split: sum.splits)
  consider g where "find_leftover files (trim_prefix (scope @ ''-'') (df_id f)) (design_slug (path_base (df_path f))) (fm_created fm) = Some g" "p = df_path g"
    | d b where "p = path_join d b"
    using run files by (auto simp: rehome_target_def Let_def split: option.splits sum.splits)
  then show "p \<noteq> []"
  proof cases
    case (1 g)
    then have "g \<in> set files" by (auto simp: find_leftover_def dest!: best split: if_splits)
    with design_files_path [OF files] 1(2) show ?thesis by simp
  qed (simp add: path_join_def)
qed

text \<open>Everything before the plan only reads.\<close>

lemma rehome_cases:
  assumes "design_rehome E scope dir arg full destScope givenDir m = (r, m')"
  obtains (refused) e where "r = Inl e" "m' = m"
  | (planned) f fm i d left c src dest p where "resolve_parsed E scope dir arg full m = Inr (f, fm)"
      "rehome_target (re_yaml (we_rec E)) (mc_disk m) scope destScope (sd_dir dest) f fm = Inr (i, d, left)"
      "moved_content (re_yaml (we_rec E)) fm (df_body f) i = Inr c" "capture_rehome E (df_path f) d m = Inr p"
      "carry_out E src dest (df_id f) i (rehome_ops (df_path f) d c left) p m = (r, m')"
proof -
  have read: "act_bind (act_read g) k x = (case g x of Inl e \<Rightarrow> (Inl e, x) | Inr v \<Rightarrow> k v x)" for g k and x :: machine
    by (auto simp: act_bind_def act_read_def split: sum.splits)
  have refuse: "act_bind (act_refuse g) k x = (case g of Some e \<Rightarrow> (Inl e, x) | None \<Rightarrow> k () x)" for g k and x :: machine
    by (auto simp: act_bind_def act_refuse_def split: option.splits)
  have side: "design_side E name d x = Inr s \<Longrightarrow> sd_dir s = d" for name d x s
    by (auto simp: design_side_def split: option.splits prod.splits)
  show thesis
    using assms unfolding design_rehome_def read refuse
    by (auto split: option.splits sum.splits prod.splits dest!: side intro: refused planned)
qed


definition twin_env :: "(git_view \<Rightarrow> git_view) \<Rightarrow> wenv" where
  "twin_env g = (plan_env g)\<lparr>we_reg := [(''app'', ''/s''), (''web'', ''/t'')],
     we_rec := (we_rec (plan_env g))\<lparr>re_yaml := design_table [(plan_model ''draft'' [], line_of ''A''),
       ((plan_model ''draft'' [])\<lparr>fm_id := ''web-dddd''\<rparr>, line_of ''W'')]\<rparr>, we_root := (\<lambda>d. Some d)\<rparr>"

definition twin_machine :: machine where
  "twin_machine = (plan_machine ''A'')\<lparr>mc_disk := (mc_disk (plan_machine ''A''))
     \<lparr>dk_dirs := ''/t'' # ''/t/design'' # dk_dirs (mc_disk (plan_machine ''A''))\<rparr>\<rparr>"

definition twin_run :: "(git_view \<Rightarrow> git_view) \<Rightarrow> (design_error + design_result) \<times> machine" where
  "twin_run g = design_rehome (twin_env g) ''app'' ''/s'' ''dddd'' False ''web'' [] twin_machine"

text \<open>A second git root that refuses: the first commit is undone by a second one.\<close>

abbreviation second_refuses :: "git_view \<Rightarrow> git_view" where
  "second_refuses \<equiv> gv_tracked_update (\<lambda>t m r p. True) \<circ> gv_commit_update (\<lambda>c m r s ps. if r = ''/t'' then Some ''hook'' else None)"

lemma twin_results:
  "case fst (twin_run (\<lambda>g. g)) of Inl e \<Rightarrow> False | Inr r \<Rightarrow> dr_path r = ''/t/design/web-dddd-x.md'' \<and> dr_id r = ''web-dddd''"
  "case fst (twin_run second_refuses) of Inl (DesignEngine e) \<Rightarrow> True | _ \<Rightarrow> False"
  "length (filter (\<lambda>c. case c of GitCommit r s ps \<Rightarrow> r = ''/s'' | _ \<Rightarrow> False) (mc_calls (snd (twin_run second_refuses)))) = 2"
  apply code_simp
  apply code_simp
  apply code_simp
  done


end
