(* ===== verification/Rehomes.thy ===== *)
theory Rehomes
  imports DesignMoves Prefixes Metas
begin

text \<open>
  \<open>tk rehome\<close>, \<open>internal/writeengine/rehome.go\<close>: a ticket moves to another scope under a new id, and the references
  to it inside both scopes follow. The dedup rewrite of an edge list is the one of \<open>internal/repair/prefix.go\<close>.
\<close>

section \<open>Errors and sides\<close>

datatype rehome_error =
    RehomeEngine write_error
  | RehomeScopeName string
  | RehomeSameScope string
  | RehomeUnregistered string
  | RehomeForeignId string string string
  | RehomeAutoDiffers string
  | RehomeExtend string string extend_error
  | RehomeOrder string order_error
  | RehomeUnlisted string
  | RehomeRead string
  | RehomeUnparsed string string
  | RehomeSerialize string
  | RehomeApply apply_error

record ticket_side = rehome_side +
  sd_schema :: "schema option"

definition side_from :: "wenv \<Rightarrow> string \<Rightarrow> string \<Rightarrow> schema option \<Rightarrow> ticket_side" where
  "side_from E name dir schema =
     \<lparr>sd_name = name, sd_dir = dir, sd_auto = schema_auto_commit schema, sd_root = we_root E dir, sd_schema = schema\<rparr>"

definition validate_rehome_args :: "string \<Rightarrow> string \<Rightarrow> rehome_error option" where
  "validate_rehome_args scope destScope =
     (if \<not> is_scope_name destScope then Some (RehomeScopeName destScope)
      else if destScope = scope then Some (RehomeSameScope destScope)
      else None)"

definition resolve_rehome_dirs :: "wenv \<Rightarrow> string \<Rightarrow> string \<Rightarrow> string \<Rightarrow> string \<Rightarrow> rehome_error + (string \<times> string)" where
  "resolve_rehome_dirs E scope givenSrc destScope givenDest =
     rbind (if givenSrc \<noteq> [] then Inr givenSrc
            else case map_of (we_reg E) scope of None \<Rightarrow> Inl (RehomeUnregistered scope) | Some dir \<Rightarrow> Inr dir) (\<lambda>srcDir.
     case map_of (we_reg E) destScope of
       None \<Rightarrow> Inl (RehomeUnregistered destScope)
     | Some dir \<Rightarrow> Inr (srcDir, if givenDest = [] then dir else givenDest))"

definition refuse_shared_root :: "'a rehome_side_scheme \<Rightarrow> 'b rehome_side_scheme \<Rightarrow> rehome_error option" where
  "refuse_shared_root src dest =
     (case sd_root src of
        None \<Rightarrow> None
      | Some root \<Rightarrow> if sd_root dest \<noteq> Some root \<or> sd_auto src = sd_auto dest then None else Some (RehomeAutoDiffers root))"

section \<open>References\<close>

definition rewrite_edge_list :: "string list \<Rightarrow> string \<Rightarrow> string \<Rightarrow> string list \<times> bool" where
  "rewrite_edge_list xs oldID newID = apply_id_map xs [(oldID, newID)]"

definition compose_ticket :: "yaml \<Rightarrow> fm_model \<Rightarrow> string \<Rightarrow> rehome_error + string" where
  "compose_ticket Y fm body = (case serialize Y fm of Inl e \<Rightarrow> Inl (RehomeSerialize e) | Inr interior \<Rightarrow> Inr (compose interior body))"

definition rehomed_model :: "fm_model \<Rightarrow> string \<Rightarrow> string \<Rightarrow> string \<Rightarrow> string \<Rightarrow> fm_model" where
  "rehomed_model fm destID destOrder oldID newID =
     fm\<lparr>fm_id := destID, fm_order := destOrder,
        fm_depends := fst (rewrite_edge_list (fm_depends fm) oldID newID),
        fm_related := fst (rewrite_edge_list (fm_related fm) oldID newID)\<rparr>"

definition reconstruct :: "yaml \<Rightarrow> fm_model \<Rightarrow> string \<Rightarrow> string \<Rightarrow> string \<Rightarrow> string \<Rightarrow> string \<Rightarrow> rehome_error + string" where
  "reconstruct Y fm body destID destOrder oldID newID = compose_ticket Y (rehomed_model fm destID destOrder oldID newID) body"

definition read_now :: "wenv \<Rightarrow> string \<Rightarrow> machine \<Rightarrow> rehome_error + string" where
  "read_now E p m =
     (case disk_file (mc_disk m) p of
        None \<Rightarrow> Inl (RehomeRead p)
      | Some f \<Rightarrow> if we_fault E (IoRead p) then Inl (RehomeRead p) else Inr (f_data f))"

text \<open>A file that cannot be parsed must not mention the old id: nobody could follow that reference.\<close>

definition unparseable_inbound :: "string \<Rightarrow> string \<Rightarrow> string \<Rightarrow> rehome_error + rw_op option" where
  "unparseable_inbound hay path oldID =
     (if contains_exact_full_id hay oldID
      then Inl (RehomeUnparsed (case ticket_id_from_base (path_base path) of Some i \<Rightarrow> i | None \<Rightarrow> path_base path) oldID)
      else Inr None)"

definition edge_rewrite :: "wenv \<Rightarrow> machine \<Rightarrow> string \<Rightarrow> string \<Rightarrow> string \<Rightarrow> rehome_error + rw_op option" where
  "edge_rewrite E m oldID newID path =
     rbind (read_now E path m) (\<lambda>raw.
       case split_fence raw of
         (interior, body, present) \<Rightarrow>
           if \<not> present then unparseable_inbound raw path oldID
           else case parse_fm (re_yaml (we_rec E)) interior of
                  Inl e \<Rightarrow> unparseable_inbound interior path oldID
                | Inr fm \<Rightarrow>
                    (case (rewrite_edge_list (fm_depends fm) oldID newID, rewrite_edge_list (fm_related fm) oldID newID) of
                       ((dep, depCh), (rel, relCh)) \<Rightarrow>
                         if \<not> depCh \<and> \<not> relCh then Inr None
                         else map_sum id (\<lambda>content. Some \<lparr>op_old = path, op_new = path, op_content = content\<rparr>)
                                (compose_ticket (re_yaml (we_rec E)) (fm\<lparr>fm_depends := dep, fm_related := rel\<rparr>) body)))"

definition plan_edge_rewrites :: "wenv \<Rightarrow> string \<Rightarrow> string \<Rightarrow> string \<Rightarrow> string \<Rightarrow> string \<Rightarrow> machine \<Rightarrow> rehome_error + rw_op list" where
  "plan_edge_rewrites E srcDir destDir srcPath oldID newID m =
     (case list_tickets (mc_disk m) srcDir of
        None \<Rightarrow> Inl (RehomeUnlisted srcDir)
      | Some ps \<Rightarrow>
          (case list_tickets (mc_disk m) destDir of
             None \<Rightarrow> Inl (RehomeUnlisted destDir)
           | Some qs \<Rightarrow> gather_ops (edge_rewrite E m oldID newID) (filter (\<lambda>p. p \<noteq> srcPath) (sort (ps @ qs)))))"

section \<open>Where the ticket goes\<close>

definition dest_occupied :: "yaml \<Rightarrow> disk \<Rightarrow> string \<Rightarrow> string \<Rightarrow> ticket list \<Rightarrow> string set option" where
  "dest_occupied Y k dir scope rows =
     map_option (\<lambda>taken. taken \<union> set (filter (\<lambda>s. s \<noteq> []) (map tk_short_id rows))) (occupied_short_ids Y k dir scope)"

text \<open>The ticket an interrupted rehome left at the destination: an id of the same family and the same creation time.\<close>

fun find_leftover_dest ::
    "wenv \<Rightarrow> machine \<Rightarrow> fm_model \<Rightarrow> string \<Rightarrow> string \<Rightarrow> string \<Rightarrow> string \<Rightarrow> string list \<Rightarrow>
     rehome_error + (string \<times> string \<times> string) option" where
  "find_leftover_dest E m fm body oldID sourceShort destScope [] = Inr None"
| "find_leftover_dest E m fm body oldID sourceShort destScope (p # ps) =
     (let rest = find_leftover_dest E m fm body oldID sourceShort destScope ps in
      case ticket_id_from_base (path_base p) of
        None \<Rightarrow> rest
      | Some full \<Rightarrow>
          if scope_of_full_id full \<noteq> destScope \<or> \<not> short_in_family (trim_prefix (destScope @ ''-'') full) sourceShort then rest
          else
            rbind (read_now E p m) (\<lambda>raw.
              case split_fence raw of
                (interior, _, present) \<Rightarrow>
                  if \<not> present then rest
                  else case parse_fm (re_yaml (we_rec E)) interior of
                         Inl e \<Rightarrow> rest
                       | Inr destM \<Rightarrow>
                           if fm_created fm = [] \<or> fm_created destM = [] \<or> fm_created destM \<noteq> fm_created fm then rest
                           else map_sum id (\<lambda>content. Some (fm_id destM, p, content))
                                  (reconstruct (re_yaml (we_rec E)) fm body (fm_id destM) (fm_order destM) oldID (fm_id destM))))"

definition fresh_dest ::
    "wenv \<Rightarrow> string \<Rightarrow> string \<Rightarrow> string \<Rightarrow> string \<Rightarrow> fm_model \<Rightarrow> string \<Rightarrow> ticket list \<Rightarrow> schema option \<Rightarrow>
     (rehome_error, string \<times> string \<times> string) run" where
  "fresh_dest E destScope destDir srcPath sourceShort fm body destRows schema =
     act_bind (act_read (\<lambda>m. case dest_occupied (re_yaml (we_rec E)) (mc_disk m) destDir destScope destRows of
                               None \<Rightarrow> Inl (RehomeEngine OccupiedUnreadable) | Some taken \<Rightarrow> Inr taken)) (\<lambda>taken.
     act_bind (act_read (\<lambda>m. if sourceShort \<notin> taken then Inr sourceShort
                             else case Ids.extend sourceShort taken of
                                    Inl e \<Rightarrow> Inl (RehomeExtend (fm_id fm) destScope e) | Inr s \<Rightarrow> Inr s)) (\<lambda>short.
     let destID = full_id destScope short in
     act_bind (act_read (\<lambda>m. case key_between (max_valid_order destRows) [] of
                               Inl e \<Rightarrow> Inl (RehomeOrder destID e) | Inr k \<Rightarrow> Inr k)) (\<lambda>orderKey.
     act_bind (act_read (\<lambda>m. reconstruct (re_yaml (we_rec E)) fm body destID orderKey (fm_id fm) destID)) (\<lambda>content.
     act_bind (act_lift RehomeEngine (terminal_location E destDir (new_basename (path_base srcPath) destID)
                 (is_terminal (fm_status fm) (custom_statuses schema)))) (\<lambda>destPath.
       act_return (destID, destPath, content))))))"

section \<open>Rehome\<close>

definition ticket_ops :: "bool \<Rightarrow> string \<Rightarrow> string \<Rightarrow> string \<Rightarrow> rw_op list \<Rightarrow> rw_op list" where
  "ticket_ops leftover srcPath destPath content edgeOps =
     \<lparr>op_old = (if leftover then destPath else []), op_new = destPath, op_content = content\<rparr> #
     edgeOps @ [\<lparr>op_old = srcPath, op_new = destPath, op_content = content\<rparr>]"

definition partition_paths :: "string \<Rightarrow> string \<Rightarrow> string list \<Rightarrow> string list \<times> string list" where
  "partition_paths srcDir destDir paths =
     (let ps = first_seen {} (filter (\<lambda>p. p \<noteq> []) paths) in
      (filter (\<lambda>p. under_or_equal p srcDir) ps,
       filter (\<lambda>p. \<not> under_or_equal p srcDir \<and> under_or_equal p destDir) ps))"

definition em_dash :: string where
  "em_dash = [CHR 0xE2, CHR 0x80, CHR 0x94]"

definition edge_verify_others :: "edge list \<Rightarrow> string \<Rightarrow> string \<Rightarrow> string \<Rightarrow> string list" where
  "edge_verify_others inbound srcScope destScope newID =
     map (\<lambda>e. e_from_id e @ '' '' @ e_kind e @ '' '' @ e_to_id e @ '' '' @ em_dash @ '' target was rehomed to '' @ newID @ '', update this reference'')
       (filter (\<lambda>e. e_kind e \<noteq> edge_produces \<and> e_from_scope e \<noteq> srcScope \<and> e_from_scope e \<noteq> destScope) inbound)"

definition apply_planned :: "wenv \<Rightarrow> rw_op list \<Rightarrow> (rehome_error, string list) run" where
  "apply_planned E ops m =
     (case apply_now E ops m of
        ((Some e, touched), m1) \<Rightarrow> (Inl (RehomeApply e), m1)
      | ((None, touched), m1) \<Rightarrow> (Inr touched, m1))"

definition complete_rehome ::
    "wenv \<Rightarrow> rehome_side \<Rightarrow> rehome_side \<Rightarrow> string list \<Rightarrow> string list \<Rightarrow> string \<Rightarrow> string \<Rightarrow>
     (rehome_error, (string \<times> string) list \<times> string list) run" where
  "complete_rehome E src dest srcPaths destPaths oldID destID m =
     (case rehome_batches src dest srcPaths destPaths of
        (disabled, bs) \<Rightarrow>
          (case commit_batches E (''tk: rehome '' @ oldID @ '' -> '' @ destID) bs m of
             ((Some e, _, needed), m1) \<Rightarrow> (Inl (RehomeEngine e), m1)
           | ((None, _, needed), m1) \<Rightarrow> (Inr (disabled, needed), m1)))"

definition rehome_result ::
    "rec_result \<Rightarrow> string \<Rightarrow> string \<Rightarrow> string list \<Rightarrow> (string \<times> string) list \<Rightarrow> string list \<Rightarrow> wresult" where
  "rehome_result res destID destPath verify disabled needed =
     empty_result\<lparr>wr_warnings := rr_warnings res, wr_id := destID, wr_moved := True, wr_edge_verify := verify, wr_path := destPath,
       wr_sync_needed_all := needed, wr_sync_disabled := (if length disabled = 1 then Some (disabled ! 0) else None),
       wr_sync_needed := (if length needed = 1 then needed ! 0 else [])\<rparr>"

text \<open>Both scopes are looked at and may refuse.\<close>

definition begin_rehome ::
    "wenv \<Rightarrow> string \<Rightarrow> string \<Rightarrow> string \<Rightarrow> string \<Rightarrow> (rehome_error, rec_result \<times> ticket_side \<times> ticket_side) run" where
  "begin_rehome E scope srcDir destScope destDir =
     act_bind (act_lift RehomeEngine (reconcile_now E (we_reg E))) (\<lambda>res.
     act_bind (act_refuse (map_option RehomeEngine (refuse_unusable res scope srcDir))) (\<lambda>_.
     act_bind (act_refuse (map_option RehomeEngine (refuse_unusable res destScope destDir))) (\<lambda>_.
     let src = side_from E scope srcDir (result_schema res scope); dest = side_from E destScope destDir (result_schema res destScope) in
     act_bind (act_refuse (map_option (RehomeEngine \<circ> Held) (refuse_hard scope (sd_schema src)))) (\<lambda>_.
     act_bind (act_refuse (map_option (RehomeEngine \<circ> Held) (refuse_hard destScope (sd_schema dest)))) (\<lambda>_.
     act_bind (act_read (\<lambda>m. case check_mid_rebase (we_git E) scope (sd_auto src) (sd_root src) m of None \<Rightarrow> Inr () | Some e \<Rightarrow> Inl (RehomeEngine e))) (\<lambda>_.
     act_bind (act_read (\<lambda>m. case check_mid_rebase (we_git E) destScope (sd_auto dest) (sd_root dest) m of None \<Rightarrow> Inr () | Some e \<Rightarrow> Inl (RehomeEngine e))) (\<lambda>_.
     act_bind (act_refuse (refuse_shared_root src dest)) (\<lambda>_.
       act_return (res, src, dest)))))))))"

text \<open>The ticket that moves, with the checks of its model.\<close>

definition rehome_subject ::
    "wenv \<Rightarrow> string \<Rightarrow> string \<Rightarrow> ticket_side \<Rightarrow> lookup \<Rightarrow> (rehome_error, string \<times> fm_model \<times> string) run" where
  "rehome_subject E scope destScope dest l =
     act_bind (act_read (\<lambda>m. map_sum RehomeEngine id (resolve_write_row scope l (mc_db m)))) (\<lambda>row.
     act_bind (act_read (\<lambda>m. map_sum RehomeEngine id (read_ticket_file E (tk_path row) m))) (\<lambda>(fm, body).
     act_bind (act_refuse (if fm_status fm = st_in_progress
                           then map_option (RehomeEngine \<circ> Held) (refuse_start destScope (sd_schema dest)) else None)) (\<lambda>_.
     act_bind (act_refuse (if \<not> is_full_ticket_id (fm_id fm) \<or> scope_of_full_id (fm_id fm) \<noteq> scope
                           then Some (RehomeForeignId (tk_path row) (fm_id fm) scope) else None)) (\<lambda>_.
     act_bind (act_refuse (if \<not> is_known (fm_status fm) (custom_statuses (sd_schema dest))
                           then Some (RehomeEngine (UnknownStatus (fm_status fm) destScope)) else None)) (\<lambda>_.
       act_return (tk_path row, fm, body))))))"

definition find_dest ::
    "wenv \<Rightarrow> string \<Rightarrow> string \<Rightarrow> ticket_side \<Rightarrow> string \<Rightarrow> fm_model \<Rightarrow> string \<Rightarrow> (rehome_error, bool \<times> string \<times> string \<times> string) run" where
  "find_dest E scope destScope dest srcPath fm body =
     (let sourceShort = trim_prefix (scope @ ''-'') (fm_id fm) in
      act_bind (act_read (\<lambda>m. Inr (scope_tickets destScope (mc_db m)))) (\<lambda>destRows.
      act_bind (act_read (\<lambda>m. case list_tickets (mc_disk m) (sd_dir dest) of
                                None \<Rightarrow> Inl (RehomeUnlisted (sd_dir dest))
                              | Some ps \<Rightarrow> find_leftover_dest E m fm body (fm_id fm) sourceShort destScope ps)) (\<lambda>left.
        case left of
          Some (destID, destPath, content) \<Rightarrow> act_return (True, destID, destPath, content)
        | None \<Rightarrow>
            act_bind (fresh_dest E destScope (sd_dir dest) srcPath sourceShort fm body destRows (sd_schema dest)) (\<lambda>(destID, destPath, content).
              act_return (False, destID, destPath, content)))))"

text \<open>The part after the plan of the ticket: references, files, index, commits.\<close>

definition write_rehomed ::
    "wenv \<Rightarrow> string \<Rightarrow> string \<Rightarrow> string \<Rightarrow> string \<Rightarrow> string list \<Rightarrow> unit act" where
  "write_rehomed E scope srcDir destScope destDir touched =
     (case partition_paths srcDir destDir touched of
        (srcPaths, destPaths) \<Rightarrow> act_bind (sync_now E scope srcPaths) (\<lambda>_. sync_now E destScope destPaths))"

definition finish_rehome ::
    "wenv \<Rightarrow> rec_result \<Rightarrow> ticket_side \<Rightarrow> ticket_side \<Rightarrow> string \<Rightarrow> string \<Rightarrow> bool \<Rightarrow> string \<Rightarrow> string \<Rightarrow> string \<Rightarrow>
     (rehome_error, wresult \<times> (string \<times> string) list) run" where
  "finish_rehome E res src dest srcPath oldID leftover destID destPath content =
     act_bind (act_read (\<lambda>m. Inr (edges_by_target oldID (mc_db m)))) (\<lambda>inbound.
     act_bind (act_read (plan_edge_rewrites E (sd_dir src) (sd_dir dest) srcPath oldID destID)) (\<lambda>edgeOps.
     act_bind (apply_planned E (ticket_ops leftover srcPath destPath content edgeOps)) (\<lambda>touched.
     act_bind (act_lift RehomeEngine (write_rehomed E (sd_name src) (sd_dir src) (sd_name dest) (sd_dir dest) touched)) (\<lambda>_.
     act_bind (case partition_paths (sd_dir src) (sd_dir dest) touched of
                 (srcPaths, destPaths) \<Rightarrow>
                   complete_rehome E (rehome_side.truncate src) (rehome_side.truncate dest) srcPaths destPaths oldID destID) (\<lambda>(disabled, needed).
       act_return (rehome_result res destID destPath
         (edge_verify_others inbound (sd_name src) (sd_name dest) destID) disabled needed, disabled))))))"

definition rehome_ticket ::
    "wenv \<Rightarrow> string \<Rightarrow> string \<Rightarrow> string \<Rightarrow> string \<Rightarrow> lookup \<Rightarrow> (rehome_error, wresult \<times> (string \<times> string) list) run" where
  "rehome_ticket E scope givenSrc destScope givenDest l =
     act_bind (act_refuse (validate_rehome_args scope destScope)) (\<lambda>_.
     act_bind (act_read (\<lambda>m. resolve_rehome_dirs E scope givenSrc destScope givenDest)) (\<lambda>(srcDir, destDir).
     act_bind (begin_rehome E scope srcDir destScope destDir) (\<lambda>(res, src, dest).
     act_bind (rehome_subject E scope destScope dest l) (\<lambda>(srcPath, fm, body).
     act_bind (find_dest E scope destScope dest srcPath fm body) (\<lambda>(leftover, destID, destPath, content).
       finish_rehome E res src dest srcPath (fm_id fm) leftover destID destPath content)))))"

section \<open>Edge lists\<close>

lemma map_ids_one:
  "old \<noteq> new \<Longrightarrow> map_ids [(old, new)] seen xs = (ys, ch) \<Longrightarrow> (ch \<longleftrightarrow> old \<in> set xs) \<and> old \<notin> set ys"
proof (induction xs arbitrary: seen ys ch)
  case (Cons x xs)
  obtain zs c where rest: "map_ids [(old, new)] (if (if x = old then new else x) \<in> seen then seen else insert (if x = old then new else x) seen) xs = (zs, c)"
    by fastforce
  from Cons.IH [OF Cons.prems(1) rest] Cons.prems rest show ?case by (auto simp: Let_def split: if_splits)
qed auto

lemma rewrite_edge_list_spec:
  assumes "old \<noteq> new" "rewrite_edge_list xs old new = (ys, ch)"
  shows "(ch \<longleftrightarrow> old \<in> set xs) \<and> old \<notin> set ys"
proof -
  obtain zs c where m: "map_ids [(old, new)] {} xs = (zs, c)" by fastforce
  from map_ids_one [OF assms(1) m] assms(2) m show ?thesis
    by (auto simp: rewrite_edge_list_def apply_id_map_def split: if_splits)
qed

definition refers_to :: "fm_model \<Rightarrow> string \<Rightarrow> bool" where
  "refers_to fm i \<longleftrightarrow> i \<in> set (fm_depends fm) \<or> i \<in> set (fm_related fm)"

lemma rehomed_refers: "old \<noteq> new \<Longrightarrow> \<not> refers_to (rehomed_model fm i k old new) old"
  using rewrite_edge_list_spec [of old new "fm_depends fm"] rewrite_edge_list_spec [of old new "fm_related fm"]
  by (simp add: refers_to_def rehomed_model_def) (metis prod.collapse)

section \<open>Writing in place\<close>

lemma apply_one:
  assumes "apply_now E (x # xs) m = ((None, t), m')" "\<not> moved x"
  shows "\<exists>m1 t'. contents m1 = (contents m)(op_new x \<mapsto> op_content x) \<and> apply_now E xs m1 = ((None, t'), m')"
  using assms(1) by (cases rule: apply_now_cases) (use assms(2) in auto)

lemma apply_in_place:
  "apply_now E (xs @ ys) m = ((None, t), m') \<Longrightarrow> \<forall>x \<in> set xs. op_old x = op_new x \<Longrightarrow>
     \<exists>m1 t1. (\<forall>p. p \<notin> op_new ` set xs \<longrightarrow> contents m1 p = contents m p) \<and>
       (\<forall>p. p \<in> op_new ` set xs \<longrightarrow> (\<exists>x \<in> set xs. op_new x = p \<and> contents m1 p = Some (op_content x))) \<and>
       apply_now E ys m1 = ((None, t1), m')"
proof (induction xs arbitrary: m t)
  case (Cons x xs)
  from Cons.prems have "apply_now E (x # (xs @ ys)) m = ((None, t), m')" "\<not> moved x" by (auto simp: moved_def)
  from apply_one [OF this] obtain m1 t' where one: "contents m1 = (contents m)(op_new x \<mapsto> op_content x)"
    "apply_now E (xs @ ys) m1 = ((None, t'), m')" by blast
  from Cons.IH [OF one(2)] Cons.prems(2) obtain m2 t2 where two: "\<forall>p. p \<notin> op_new ` set xs \<longrightarrow> contents m2 p = contents m1 p"
    "\<forall>p. p \<in> op_new ` set xs \<longrightarrow> (\<exists>x \<in> set xs. op_new x = p \<and> contents m2 p = Some (op_content x))" "apply_now E ys m2 = ((None, t2), m')"
    by auto
  have "\<forall>p. p \<notin> op_new ` set (x # xs) \<longrightarrow> contents m2 p = contents m p" using two(1) one(1) by simp
  moreover have "\<exists>y \<in> set (x # xs). op_new y = p \<and> contents m2 p = Some (op_content y)" if "p \<in> op_new ` set (x # xs)" for p
  proof (cases "p \<in> op_new ` set xs")
    case True
    with two(2) show ?thesis by auto
  next
    case False
    with that have "p = op_new x" by auto
    with two(1) one(1) False show ?thesis by auto
  qed
  ultimately show ?case using two(3) by blast
qed auto

text \<open>The three parts of a rehome: plant the ticket, rewrite the references, unlink the old file.\<close>

lemma ticket_ops_applied:
  assumes run: "apply_now E (ticket_ops leftover s d c edges) m = ((None, t), m')"
    and ne: "s \<noteq> []" "d \<noteq> []" "contents m s \<noteq> None" and place: "\<forall>x \<in> set edges. op_old x = op_new x \<and> op_new x \<noteq> s"
  shows "contents m' d = Some c" "s \<noteq> d \<Longrightarrow> contents m' s = None"
    and "p \<noteq> s \<Longrightarrow> p \<noteq> d \<Longrightarrow> p \<notin> op_new ` set edges \<Longrightarrow> contents m' p = contents m p"
    and "p \<noteq> s \<Longrightarrow> p \<noteq> d \<Longrightarrow> p \<in> op_new ` set edges \<Longrightarrow> \<exists>x \<in> set edges. op_new x = p \<and> contents m' p = Some (op_content x)"
proof -
  let ?put = "\<lparr>op_old = (if leftover then d else []), op_new = d, op_content = c\<rparr>"
  have "\<not> moved ?put" by (simp add: moved_def)
  from apply_one [OF run [unfolded ticket_ops_def] this] obtain m1 t1 where one: "contents m1 = (contents m)(d \<mapsto> c)"
    "apply_now E (edges @ [\<lparr>op_old = s, op_new = d, op_content = c\<rparr>]) m1 = ((None, t1), m')" by auto
  from apply_in_place [OF one(2)] place obtain m2 t2 where two: "\<forall>p. p \<notin> op_new ` set edges \<longrightarrow> contents m2 p = contents m1 p"
    "\<forall>p. p \<in> op_new ` set edges \<longrightarrow> (\<exists>x \<in> set edges. op_new x = p \<and> contents m2 p = Some (op_content x))"
    "apply_now E [\<lparr>op_old = s, op_new = d, op_content = c\<rparr>] m2 = ((None, t2), m')" by auto
  have "s \<notin> op_new ` set edges" using place by auto
  then have "contents m2 s \<noteq> None" using two(1) one(1) ne(3) by simp
  from move_applied(1) [OF two(3) ne(1) this] have m': "contents m' = (if s = d then (contents m2)(d \<mapsto> c) else (contents m2)(d \<mapsto> c, s := None))"
    by simp
  then show "contents m' d = Some c" "s \<noteq> d \<Longrightarrow> contents m' s = None" by (simp_all split: if_splits)
  show "p \<noteq> s \<Longrightarrow> p \<noteq> d \<Longrightarrow> p \<notin> op_new ` set edges \<Longrightarrow> contents m' p = contents m p" using m' two(1) one(1) by simp
  show "p \<noteq> s \<Longrightarrow> p \<noteq> d \<Longrightarrow> p \<in> op_new ` set edges \<Longrightarrow> \<exists>x \<in> set edges. op_new x = p \<and> contents m' p = Some (op_content x)"
    using m' two(2) by simp
qed

section \<open>The plan\<close>

lemma edge_rewrite_op:
  assumes "edge_rewrite E m old new p = Inr (Some x)"
  shows "op_old x = p \<and> op_new x = p"
    and "\<exists>fm body fm' t. ticket_at (re_yaml (we_rec E)) m p = Some (fm, body) \<and> serialize (re_yaml (we_rec E)) fm' = Inr t \<and>
      op_content x = compose t body \<and> fm_custom fm' = fm_custom fm \<and> (old \<noteq> new \<longrightarrow> \<not> refers_to fm' old)"
proof -
  from assms obtain raw interior body fm dep dc rel rc t where e: "contents m p = Some raw" "split_fence raw = (interior, body, True)"
    "parse_fm (re_yaml (we_rec E)) interior = Inr fm" "rewrite_edge_list (fm_depends fm) old new = (dep, dc)"
    "rewrite_edge_list (fm_related fm) old new = (rel, rc)"
    "serialize (re_yaml (we_rec E)) (fm\<lparr>fm_depends := dep, fm_related := rel\<rparr>) = Inr t"
    "x = \<lparr>op_old = p, op_new = p, op_content = compose t body\<rparr>"
    by (auto simp: edge_rewrite_def rbind_Inr_iff read_now_def contents_def unparseable_inbound_def map_sum_Inr compose_ticket_def
        split: option.splits if_splits prod.splits sum.splits)
  show "op_old x = p \<and> op_new x = p" by (simp add: e(7))
  have "old \<noteq> new \<longrightarrow> \<not> refers_to (fm\<lparr>fm_depends := dep, fm_related := rel\<rparr>) old"
    using rewrite_edge_list_spec [OF _ e(4)] rewrite_edge_list_spec [OF _ e(5)] by (simp add: refers_to_def)
  then show "\<exists>fm body fm' t. ticket_at (re_yaml (we_rec E)) m p = Some (fm, body) \<and> serialize (re_yaml (we_rec E)) fm' = Inr t \<and>
      op_content x = compose t body \<and> fm_custom fm' = fm_custom fm \<and> (old \<noteq> new \<longrightarrow> \<not> refers_to fm' old)"
    using e by (intro exI [of _ fm] exI [of _ body] exI [of _ "fm\<lparr>fm_depends := dep, fm_related := rel\<rparr>"] exI [of _ t])
      (simp add: ticket_at_def)
qed

lemma edge_rewrite_none:
  assumes "edge_rewrite E m old new p = Inr None" "ticket_at (re_yaml (we_rec E)) m p = Some (fm, body)" "old \<noteq> new"
  shows "\<not> refers_to fm old"
proof -
  obtain dep dc rel rc where r: "rewrite_edge_list (fm_depends fm) old new = (dep, dc)" "rewrite_edge_list (fm_related fm) old new = (rel, rc)"
    by fastforce
  have "\<not> dc \<and> \<not> rc"
    using assms(1,2) r
    by (auto simp: edge_rewrite_def rbind_Inr_iff read_now_def ticket_at_def contents_def map_sum_Inr
        split: option.splits if_splits prod.splits sum.splits)
  with rewrite_edge_list_spec [OF assms(3) r(1)] rewrite_edge_list_spec [OF assms(3) r(2)] show ?thesis by (simp add: refers_to_def)
qed

lemma gathered: "gather_ops f xs = Inr ops \<Longrightarrow> x \<in> set xs \<Longrightarrow> f x = Inr None \<or> (\<exists>y \<in> set ops. f x = Inr (Some y))"
proof (induction xs arbitrary: ops)
  case (Cons y ys)
  then obtain r o1 where "f y = Inr r" "gather_ops f ys = Inr o1" "ops = (case r of None \<Rightarrow> o1 | Some z \<Rightarrow> z # o1)"
    by (auto simp: rbind_Inr_iff map_sum_Inr)
  with Cons show ?case by (cases r) auto
qed simp

section \<open>The run of a rehome\<close>

lemma map_sum_id_Inr: "map_sum w id v = Inr y \<longleftrightarrow> v = Inr y"
  by (cases v) auto

lemmas run_Inr = bind_read_Inr bind_refuse_Inr act_bind_Inr act_lift_Inr act_return_iff act_read_iff map_sum_Inr

text \<open>Same files, and no directory less: what making the archive directory leaves.\<close>

definition grown :: "disk \<Rightarrow> disk \<Rightarrow> bool" where
  "grown k k' \<longleftrightarrow> dk_files k' = dk_files k \<and> set (dk_dirs k) \<subseteq> set (dk_dirs k') \<and> dk_locked k' = dk_locked k"

lemma grown_refl [simp]: "grown k k"
  by (simp add: grown_def)

lemma grown_files: "grown (mc_disk m) (mc_disk m') \<Longrightarrow> contents m' = contents m"
  by (simp add: grown_def contents_def disk_file_def fun_eq_iff)

lemma grown_collect: "grown k k' \<Longrightarrow> collect_tickets k dir root = Some ps \<Longrightarrow> collect_tickets k' dir root = Some ps"
  by (auto simp: grown_def collect_tickets_def read_dir_def split: if_splits option.splits)

lemma grown_listed:
  assumes "grown k k'" "list_tickets k dir = Some ps" "list_tickets k' dir = Some qs"
  shows "set ps \<subseteq> set qs"
proof -
  let ?arch = "path_join dir archive_dir"
  obtain out where out: "collect_tickets k dir dir = Some out" using assms(2) by (auto simp: list_tickets_def split: option.splits)
  show ?thesis
  proof (cases "collect_tickets k dir ?arch")
    case None
    then have "set ps = set out" using assms(2) out by (auto simp: list_tickets_def Let_def split: if_splits)
    moreover have "set out \<subseteq> set qs" using assms(3) grown_collect [OF assms(1) out] by (auto simp: list_tickets_def Let_def split: option.splits if_splits)
    ultimately show ?thesis by simp
  next
    case (Some a)
    then show ?thesis using assms(2,3) out grown_collect [OF assms(1) out] grown_collect [OF assms(1) Some]
      by (auto simp: list_tickets_def Let_def)
  qed
qed

lemma terminal_location_grown:
  assumes "terminal_location E dir base terminal m = (Inr p, m')"
  shows "grown (mc_disk m) (mc_disk m') \<and> p \<noteq> []"
proof -
  have "grown (mc_disk m) (mc_disk (make_dir d m))" for d by (auto simp: grown_def make_dir_def)
  then show ?thesis
    using assms by (auto simp: terminal_location_def act_bind_def act_return_def mkdir_all_def path_join_def split: if_splits)
qed

lemma kept_begin_rehome: "files_kept (begin_rehome E scope srcDir destScope destDir)"
  unfolding begin_rehome_def Let_def by (intro kept_bind_intro kept_lift kept_basic)

lemma rehome_subject_Inr:
  assumes "rehome_subject E scope destScope dest l m = (Inr (p, fm, body), m')"
  shows "m' = m" "ticket_at (re_yaml (we_rec E)) m p = Some (fm, body)" "is_full_ticket_id (fm_id fm)" "scope_of_full_id (fm_id fm) = scope"
proof -
  from assms obtain row :: ticket and f b where x: "read_ticket_file E (tk_path row) m = Inr (f, b)"
    and rest: "(if \<not> is_full_ticket_id (fm_id f) \<or> scope_of_full_id (fm_id f) \<noteq> scope
                then Some (RehomeForeignId (tk_path row) (fm_id f) scope) else None) = None" "(Inr (p, fm, body) :: rehome_error + string \<times> fm_model \<times> string) = Inr (tk_path row, f, b)" "m' = m"
    unfolding rehome_subject_def
    by (simp only: bind_read_Inr map_sum_id_Inr split_paired_Ex prod.case bind_refuse_Inr act_return_iff) blast
  have "p = tk_path row" "f = fm" "b = body" "is_full_ticket_id (fm_id fm)" "scope_of_full_id (fm_id fm) = scope"
    using rest by (simp_all split: if_splits)
  with read_ticket_at [OF x] rest(3) show "m' = m" "ticket_at (re_yaml (we_rec E)) m p = Some (fm, body)" "is_full_ticket_id (fm_id fm)"
    "scope_of_full_id (fm_id fm) = scope" by simp_all
qed

lemma leftover_Inr:
  "find_leftover_dest E m fm body old short destScope ps = Inr (Some (i, p, c)) \<Longrightarrow>
     contents m p \<noteq> None \<and> (\<exists>k t. serialize (re_yaml (we_rec E)) (rehomed_model fm i k old i) = Inr t \<and> c = compose t body)"
proof (induction ps)
  case (Cons q ps)
  then show ?case
    by (auto simp: Let_def rbind_Inr_iff map_sum_Inr read_now_def contents_def reconstruct_def compose_ticket_def
        split: option.splits if_splits prod.splits sum.splits)
qed simp

lemma find_dest_Inr:
  assumes "find_dest E scope destScope dest srcPath fm body m = (Inr (left, i, p, c), m')"
  shows "grown (mc_disk m) (mc_disk m')" "p \<noteq> [] \<or> contents m p \<noteq> None"
    "\<exists>k t. serialize (re_yaml (we_rec E)) (rehomed_model fm i k (fm_id fm) i) = Inr t \<and> c = compose t body"
proof -
  let ?short = "trim_prefix (scope @ ''-'') (fm_id fm)"
  from assms obtain rows r where l: "(case list_tickets (mc_disk m) (sd_dir dest) of None \<Rightarrow> Inl (RehomeUnlisted (sd_dir dest))
        | Some ps \<Rightarrow> find_leftover_dest E m fm body (fm_id fm) ?short destScope ps) = Inr r"
    and go: "(case r of None \<Rightarrow> act_bind (fresh_dest E destScope (sd_dir dest) srcPath ?short fm body rows (sd_schema dest)) (\<lambda>(i, p, c). act_return (False, i, p, c))
        | Some (i, p, c) \<Rightarrow> act_return (True, i, p, c)) m = (Inr (left, i, p, c), m')"
    unfolding find_dest_def Let_def bind_read_Inr by (elim exE conjE) simp
  obtain ps where f: "find_leftover_dest E m fm body (fm_id fm) ?short destScope ps = Inr r" using l by (cases "list_tickets (mc_disk m) (sd_dir dest)") simp_all
  have "grown (mc_disk m) (mc_disk m') \<and> (p \<noteq> [] \<or> contents m p \<noteq> None) \<and>
    (\<exists>k t. serialize (re_yaml (we_rec E)) (rehomed_model fm i k (fm_id fm) i) = Inr t \<and> c = compose t body)"
  proof (cases r)
    case None
    then obtain taken short key content m1 where d: "reconstruct (re_yaml (we_rec E)) fm body (full_id destScope short) key (fm_id fm) (full_id destScope short) = Inr content"
      "terminal_location E (sd_dir dest) (new_basename (path_base srcPath) (full_id destScope short)) (is_terminal (fm_status fm) (custom_statuses (sd_schema dest))) m = (Inr p, m')"
      "i = full_id destScope short" "c = content"
      using go unfolding None option.case act_bind_Inr by (elim exE conjE) (auto simp: fresh_dest_def run_Inr Let_def split: option.splits)
    from terminal_location_grown [OF d(2)] d(1,3,4) show ?thesis
      by (auto simp: reconstruct_def compose_ticket_def split: sum.splits)
  next
    case (Some x)
    then have "r = Some (i, p, c)" "m' = m" using go by (auto simp: act_return_iff split: prod.splits)
    with leftover_Inr [of E m fm body "fm_id fm" ?short destScope ps i p c] f show ?thesis by simp
  qed
  then show "grown (mc_disk m) (mc_disk m')" "p \<noteq> [] \<or> contents m p \<noteq> None"
    "\<exists>k t. serialize (re_yaml (we_rec E)) (rehomed_model fm i k (fm_id fm) i) = Inr t \<and> c = compose t body" by blast+
qed

lemma begin_rehome_dirs:
  "begin_rehome E scope srcDir destScope destDir m = (Inr (res, src, dest), m') \<Longrightarrow> sd_dir src = srcDir \<and> sd_dir dest = destDir"
  by (auto simp: begin_rehome_def run_Inr Let_def side_from_def)

lemma kept_write_rehomed: "files_kept (write_rehomed E a srcDir b destDir touched)"
proof -
  have "files_kept (sync_now E scope ps)" for scope ps using sync_now_run by (auto simp: files_kept_def)
  then show ?thesis unfolding write_rehomed_def by (intro kept_pair kept_bind_intro)
qed

lemma complete_rehome_files: "complete_rehome E src dest ps qs i j m = (r, m') \<Longrightarrow> contents m' = contents m"
  by (auto simp: complete_rehome_def dest: commit_batches_files split: prod.splits option.splits)

lemma finish_rehome_Inr:
  assumes "finish_rehome E res src dest p old left i d c m = (Inr (r, disabled), m')"
  shows "\<exists>edges t m1. plan_edge_rewrites E (sd_dir src) (sd_dir dest) p old i m = Inr edges \<and>
    apply_now E (ticket_ops left p d c edges) m = ((None, t), m1) \<and> contents m' = contents m1 \<and> wr_id r = i \<and> wr_path r = d"
proof -
  from assms obtain inbound edges touched m1 u m2 x m3 where
    plan: "plan_edge_rewrites E (sd_dir src) (sd_dir dest) p old i m = Inr edges"
    and app: "apply_planned E (ticket_ops left p d c edges) m = (Inr touched, m1)"
    and sync: "write_rehomed E (sd_name src) (sd_dir src) (sd_name dest) (sd_dir dest) touched m1 = (Inr u, m2)"
    and com: "(case partition_paths (sd_dir src) (sd_dir dest) touched of
        (ps, qs) \<Rightarrow> complete_rehome E (rehome_side.truncate src) (rehome_side.truncate dest) ps qs old i) m2 = (Inr x, m3)"
    and out: "(case x of (disabled, needed) \<Rightarrow> act_return (rehome_result res i d
         (edge_verify_others inbound (sd_name src) (sd_name dest) i) disabled needed, disabled)) m3 =
           (Inr (r, disabled) :: rehome_error + wresult \<times> (string \<times> string) list, m')"
    unfolding finish_rehome_def bind_read_Inr unfolding act_bind_Inr act_lift_Inr by blast
  have "contents m3 = contents m2" using com complete_rehome_files by (auto split: prod.splits)
  moreover have "contents m2 = contents m1" by (rule kept_contents [OF kept_write_rehomed sync])
  moreover have "m' = m3" "wr_id r = i" "wr_path r = d" using out by (auto simp: act_return_iff rehome_result_def split: prod.splits)
  moreover obtain t where "apply_now E (ticket_ops left p d c edges) m = ((None, t), m1)"
    using app by (auto simp: apply_planned_def split: prod.splits option.splits)
  ultimately show ?thesis using plan by auto
qed

lemma rehome_Inr:
  assumes "rehome_ticket E scope givenSrc destScope givenDest l m = (Inr (r, disabled), m')"
  obtains srcDir destDir src fm body left i d c m1 m2 edges t m3 where
    "resolve_rehome_dirs E scope givenSrc destScope givenDest = Inr (srcDir, destDir)"
    "mc_disk m1 = mc_disk m" "ticket_at (re_yaml (we_rec E)) m1 src = Some (fm, body)" "scope_of_full_id (fm_id fm) = scope"
    "grown (mc_disk m1) (mc_disk m2)" "d \<noteq> [] \<or> contents m1 d \<noteq> None"
    "\<exists>k t. serialize (re_yaml (we_rec E)) (rehomed_model fm i k (fm_id fm) i) = Inr t \<and> c = compose t body"
    "plan_edge_rewrites E srcDir destDir src (fm_id fm) i m2 = Inr edges"
    "apply_now E (ticket_ops left src d c edges) m2 = ((None, t), m3)" "contents m' = contents m3" "wr_id r = i" "wr_path r = d"
proof -
  from assms obtain srcDir destDir res src dest m1 p fm body m1' left i d c m2 where
    dirs: "resolve_rehome_dirs E scope givenSrc destScope givenDest = Inr (srcDir, destDir)"
    and b: "begin_rehome E scope srcDir destScope destDir m = (Inr (res, src, dest), m1)"
    and s: "rehome_subject E scope destScope dest l m1 = (Inr (p, fm, body), m1')"
    and f: "find_dest E scope destScope dest p fm body m1' = (Inr (left, i, d, c), m2)"
    and run: "finish_rehome E res src dest p (fm_id fm) left i d c m2 = (Inr (r, disabled), m')"
    unfolding rehome_ticket_def bind_refuse_Inr bind_read_Inr split_paired_Ex prod.case
    by (simp only: act_bind_Inr split_paired_Ex prod.case) blast
  note subject = rehome_subject_Inr [OF s]
  have m1: "mc_disk m1 = mc_disk m" using files_keptD [OF kept_begin_rehome b] by simp
  from finish_rehome_Inr [OF run] obtain edges t m3 where
    "plan_edge_rewrites E srcDir destDir p (fm_id fm) i m2 = Inr edges" "apply_now E (ticket_ops left p d c edges) m2 = ((None, t), m3)"
    "contents m' = contents m3" "wr_id r = i" "wr_path r = d"
    using begin_rehome_dirs [OF b] by auto
  from that [OF dirs m1 subject(2,4) find_dest_Inr [OF f [unfolded subject(1)]] this] show thesis .
qed


section \<open>A ticket with one referrer\<close>

definition linked_table :: "(fm_model \<times> string) list" where
  "linked_table =
     [(doc_ticket ''app-abcd'' ''todo'' [] ''a0'', line_of ''A''),
      ((doc_ticket ''app-efgh'' ''todo'' [] ''a1'')\<lparr>fm_depends := [''app-abcd'']\<rparr>, line_of ''B''),
      (doc_ticket ''web-abcd'' ''todo'' [] ''a0'', line_of ''C''),
      ((doc_ticket ''app-efgh'' ''todo'' [] ''a1'')\<lparr>fm_depends := [''web-abcd'']\<rparr>, line_of ''D''),
      ((doc_ticket ''app-abcd'' ''todo'' [] ''a0'')\<lparr>fm_created := ''t''\<rparr>, line_of ''E'')]"

definition linked_env :: wenv where
  "linked_env = (table_env linked_table plain_schema)\<lparr>we_reg := [(''app'', ''/s''), (''web'', ''/t'')]\<rparr>"

definition linked_machine :: "(string \<times> string) list \<Rightarrow> machine" where
  "linked_machine files = (machine_of files)\<lparr>mc_disk := (mc_disk (machine_of files))\<lparr>dk_dirs := [''/s'', ''/t'']\<rparr>\<rparr>"

definition linked_start :: machine where
  "linked_start = linked_machine [(''/s/app-abcd-x.md'', compose (line_of ''A'') ''# T''), (''/s/app-efgh-y.md'', compose (line_of ''B'') ''# U'')]"

definition linked_run :: "(rehome_error + wresult \<times> (string \<times> string) list) \<times> machine" where
  "linked_run = rehome_ticket linked_env ''app'' [] ''web'' [] (short_lookup ''abcd'') linked_start"

lemma linked_result:
  "case fst linked_run of Inl e \<Rightarrow> False | Inr (r, disabled) \<Rightarrow> wr_id r = ''web-abcd'' \<and> wr_path r = ''/t/web-abcd-x.md''"
  by code_simp

lemma linked_reads:
  "resolve_rehome_dirs linked_env ''app'' [] ''web'' [] = Inr (''/s'', ''/t'')"
  "list_tickets (mc_disk linked_start) ''/s'' = Some [''/s/app-abcd-x.md'', ''/s/app-efgh-y.md'']"
  "case ticket_at (re_yaml (we_rec linked_env)) (snd linked_run) ''/s/app-efgh-y.md'' of Some (g, b) \<Rightarrow> fm_depends g = [''web-abcd''] | None \<Rightarrow> False"
  by code_simp+


text \<open>The move is not finished but undone by halves where the file found at the destination still carries the old id: a hand
  copy with the file name of the destination is taken for an interrupted move, its id is kept, and the source is removed.\<close>

lemma leftover_keeps_foreign_id:
  "case rehome_ticket linked_env ''app'' [] ''web'' [] (short_lookup ''abcd'')
        (linked_machine [(''/s/app-abcd-x.md'', compose (line_of ''E'') ''# T''), (''/t/web-abcd-x.md'', compose (line_of ''E'') ''# T'')]) of
     (Inl e, m') \<Rightarrow> False
   | (Inr (r, disabled), m') \<Rightarrow> wr_id r = ''app-abcd'' \<and> contents m' ''/s/app-abcd-x.md'' = None \<and>
       contents m' ''/t/web-abcd-x.md'' = Some (compose (line_of ''E'') ''# T'')"
  by code_simp

end
