(* ===== verification/Gits.thy ===== *)
theory Gits
  imports Sessions Numbers
begin

text \<open>
  The git calls of \<open>internal/git\<close>, with the state of a git-root in \<open>internal/gitstate\<close> and \<open>internal/gitroot\<close>.
  The git program is a parameter: what it answers to a command line, and the disk it leaves, are functions of the
  machine, whose calls so far are the history that git has seen. A command that only reads is not a step of the
  machine. Modelled here are the command lines, the exit codes that are answers and not faults, and the readers of
  what git prints.
\<close>

section \<open>Text\<close>

text \<open>\<open>strings.Split\<close> with a one-byte separator, and \<open>strings.Fields\<close>.\<close>

fun split_byte :: "char \<Rightarrow> string \<Rightarrow> string list" where
  "split_byte c [] = [[]]"
| "split_byte c (x # s) =
     (if x = c then [] # split_byte c s
      else case split_byte c s of [] \<Rightarrow> [[x]] | w # ws \<Rightarrow> (x # w) # ws)"

definition starts_space :: "string \<Rightarrow> bool" where
  "starts_space s \<longleftrightarrow> (\<exists>r \<in> set space_runes. prefix r s)"

fun take_word :: "string \<Rightarrow> string \<times> string" where
  "take_word [] = ([], [])"
| "take_word (x # s) = (if starts_space (x # s) then ([], x # s) else case take_word s of (w, r) \<Rightarrow> (x # w, r))"

lemma take_word_length: "length (snd (take_word s)) \<le> length s"
  by (induction s) (auto split: prod.splits)

lemma strip_spaces_length: "length (strip_any pats s) \<le> length s"
  by (induction pats s rule: strip_any.induct) (subst strip_any.simps, auto split: option.splits intro: order_trans)

lemma strip_spaces_done: "find (\<lambda>r. r \<noteq> [] \<and> prefix r (strip_any pats s)) pats = None"
proof (induction pats s rule: strip_any.induct)
  case (1 pats s)
  show ?case
  proof (cases "find (\<lambda>r. r \<noteq> [] \<and> prefix r s) pats")
    case None
    then show ?thesis by (simp add: strip_any.simps [of pats s])
  next
    case (Some r)
    with 1 show ?thesis by (simp add: strip_any.simps [of pats s])
  qed
qed

lemma no_empty_rune: "[] \<notin> set space_runes"
  by (simp add: space_runes_def)

lemma strip_not_space: "\<not> starts_space (strip_any space_runes s)"
  using strip_spaces_done [of space_runes s] no_empty_rune by (auto simp: starts_space_def find_None_iff)

lemma take_word_progress: "s \<noteq> [] \<Longrightarrow> \<not> starts_space s \<Longrightarrow> length (snd (take_word s)) < length s"
  by (cases s) (auto split: prod.splits simp: less_Suc_eq_le intro: order_trans [OF _ take_word_length])

function go_fields :: "string \<Rightarrow> string list" where
  "go_fields s =
     (let t = strip_any space_runes s in
      if t = [] then [] else case take_word t of (w, r) \<Rightarrow> w # go_fields r)"
  by pat_completeness auto
termination
proof (relation "measure length", goal_cases)
  case (2 s t w r)
  have "length (snd (take_word t)) < length t" using take_word_progress strip_not_space 2 by blast
  moreover have "snd (take_word t) = r" using 2 by (metis snd_conv)
  ultimately show ?case using 2(1) strip_spaces_length [of space_runes s] by simp
qed simp

declare go_fields.simps [simp del]

definition non_empty_lines :: "string \<Rightarrow> string list" where
  "non_empty_lines s = filter (\<lambda>l. l \<noteq> []) (map trim_space (split_byte newline s))"

section \<open>Running git\<close>

text \<open>An exit code that is not an exit, of a process that did not start or was killed, is negative; \<open>gx_text\<close> is the text of the error of \<open>cmd.Run\<close>.\<close>

record git_exit =
  gx_code :: int
  gx_out :: string
  gx_err :: string
  gx_text :: string

record git_sys =
  gs_answer :: "machine \<Rightarrow> string \<Rightarrow> string list \<Rightarrow> string list \<Rightarrow> git_exit"
  gs_after :: "machine \<Rightarrow> string \<Rightarrow> string list \<Rightarrow> disk"
  gs_merge_file :: "string \<Rightarrow> string \<Rightarrow> string \<Rightarrow> string + git_exit"
  gs_time :: "string \<Rightarrow> int option"
  gs_state :: "string \<Rightarrow> string"

type_synonym 'a git_run = "(string, 'a) run"

definition git_message :: "git_exit \<Rightarrow> string" where
  "git_message x = (let msg = trim_space (gx_err x) in if msg = [] then gx_text x else msg)"

definition git_fault :: "string list \<Rightarrow> git_exit \<Rightarrow> string" where
  "git_fault args x = ''git '' @ args ! 0 @ '': '' @ git_message x"

definition git_query :: "git_sys \<Rightarrow> string \<Rightarrow> string list \<Rightarrow> machine \<Rightarrow> string + string" where
  "git_query S root args m =
     (let x = gs_answer S m root [] args in if gx_code x = 0 then Inr (gx_out x) else Inl (git_fault args x))"

definition git_step :: "git_sys \<Rightarrow> string \<Rightarrow> string list \<Rightarrow> string list \<Rightarrow> unit git_run" where
  "git_step S root env args m =
     (let x = gs_answer S m root env args in
      ((if gx_code x = 0 then Inr () else Inl (git_fault args x)),
       (log_call (GitRun root args) m)\<lparr>mc_disk := gs_after S m root args\<rparr>))"

definition editor_env :: "string list" where
  "editor_env = [''GIT_EDITOR=true'', ''GIT_SEQUENCE_EDITOR=true'']"

section \<open>The index and commits\<close>

definition git_add_error :: "git_sys \<Rightarrow> machine \<Rightarrow> string \<Rightarrow> string list \<Rightarrow> string option" where
  "git_add_error S m root paths =
     (if length paths = 0 then None
      else case git_query S root ([''add'', ''--''] @ paths) m of Inl e \<Rightarrow> Some e | Inr out \<Rightarrow> None)"

definition git_unstage_error :: "git_sys \<Rightarrow> machine \<Rightarrow> string \<Rightarrow> string list \<Rightarrow> string option" where
  "git_unstage_error S m root paths =
     (if length paths = 0 then None
      else case git_query S root ([''reset'', ''-q'', ''HEAD'', ''--''] @ paths) m of Inl e \<Rightarrow> Some e | Inr out \<Rightarrow> None)"

definition git_commit_error :: "git_sys \<Rightarrow> machine \<Rightarrow> string \<Rightarrow> string \<Rightarrow> string list \<Rightarrow> string option" where
  "git_commit_error S m root message paths =
     (if length paths = 0 then None
      else case git_query S root ([''commit'', ''-m'', message, ''--''] @ paths) m of Inl e \<Rightarrow> Some e | Inr out \<Rightarrow> None)"

definition git_tracked :: "git_sys \<Rightarrow> machine \<Rightarrow> string \<Rightarrow> string \<Rightarrow> bool" where
  "git_tracked S m root path \<longleftrightarrow> gx_code (gs_answer S m root [] [''ls-files'', ''--error-unmatch'', ''--'', path]) = 0"

definition has_staged_changes :: "git_sys \<Rightarrow> machine \<Rightarrow> string \<Rightarrow> string list \<Rightarrow> string + bool" where
  "has_staged_changes S m root paths =
     (let args = [''diff'', ''--cached'', ''--quiet''] @ (if length paths > 0 then ''--'' # paths else []);
          x = gs_answer S m root [] args in
      if gx_code x = 0 then Inr False
      else if gx_code x = 1 then Inr True
      else Inl (''git diff --cached: '' @ gx_text x))"

definition git_add :: "git_sys \<Rightarrow> string \<Rightarrow> string list \<Rightarrow> unit git_run" where
  "git_add S root paths m =
     ((case git_add_error S m root paths of None \<Rightarrow> Inr () | Some e \<Rightarrow> Inl e), log_call (GitAdd root paths) m)"

section \<open>State of a repository\<close>

text \<open>The revision that git reads as the upstream of the branch.\<close>

abbreviation upstream_rev :: string where
  "upstream_rev \<equiv> CHR ''@'' # ''{u}''"

definition has_upstream :: "git_sys \<Rightarrow> machine \<Rightarrow> string \<Rightarrow> bool" where
  "has_upstream S m root \<longleftrightarrow> gx_code (gs_answer S m root [] [''rev-parse'', ''--abbrev-ref'', upstream_rev]) = 0"

definition path_exists :: "disk \<Rightarrow> string \<Rightarrow> bool" where
  "path_exists k p \<longleftrightarrow> disk_file k p \<noteq> None \<or> p \<in> set (dk_dirs k) \<or> p \<in> set (dk_locked k)"

definition is_abs :: "string \<Rightarrow> bool" where
  "is_abs p \<longleftrightarrow> prefix [slash] p"

definition abs_under :: "string \<Rightarrow> string \<Rightarrow> string" where
  "abs_under root p = (if is_abs p then p else path_join root p)"

definition git_path_exists :: "git_sys \<Rightarrow> machine \<Rightarrow> string \<Rightarrow> string \<Rightarrow> bool" where
  "git_path_exists S m root name =
     (case git_query S root [''rev-parse'', ''--git-path'', name] m of
        Inl e \<Rightarrow> False
      | Inr out \<Rightarrow>
          let p = trim_space out in
          if p = [] then False else path_exists (mc_disk m) (abs_under root p))"

definition mid_rebase :: "git_sys \<Rightarrow> machine \<Rightarrow> string \<Rightarrow> bool" where
  "mid_rebase S m root \<longleftrightarrow> list_ex (git_path_exists S m root) [''rebase-merge'', ''rebase-apply'']"

definition mid_merge :: "git_sys \<Rightarrow> machine \<Rightarrow> string \<Rightarrow> bool" where
  "mid_merge S m root \<longleftrightarrow> git_path_exists S m root ''MERGE_HEAD''"

definition unmerged_files :: "git_sys \<Rightarrow> machine \<Rightarrow> string \<Rightarrow> string list" where
  "unmerged_files S m root =
     (case git_query S root [''diff'', ''--name-only'', ''--diff-filter=U''] m of
        Inl e \<Rightarrow> [] | Inr out \<Rightarrow> non_empty_lines out)"

text \<open>\<open>DirtyEntries\<close>: a rename or copy has its source in the field after its own.\<close>

record dirty_entry =
  de_path :: string
  de_code :: string

definition nul :: char where "nul = CHR 0x00"

fun read_entries :: "string \<Rightarrow> string list \<Rightarrow> dirty_entry list" where
  "read_entries root [] = []"
| "read_entries root [f] =
     (if length f < 4 then [] else [\<lparr>de_path = abs_under root (drop 3 f), de_code = take 2 f\<rparr>])"
| "read_entries root (f # g # fs) =
     (if length f < 4 then read_entries root (g # fs)
      else \<lparr>de_path = abs_under root (drop 3 f), de_code = take 2 f\<rparr> #
           (if CHR ''R'' \<in> set (take 2 f) \<or> CHR ''C'' \<in> set (take 2 f) then read_entries root fs
            else read_entries root (g # fs)))"

definition dirty_entries :: "git_sys \<Rightarrow> string \<Rightarrow> string \<Rightarrow> machine \<Rightarrow> string + dirty_entry list" where
  "dirty_entries S root dir m =
     map_sum id (\<lambda>out. read_entries root (split_byte nul out))
       (git_query S root [''status'', ''--porcelain'', ''-z'', ''-uall'', ''--'', dir] m)"

definition dirty_paths :: "git_sys \<Rightarrow> string \<Rightarrow> string \<Rightarrow> machine \<Rightarrow> string + string list" where
  "dirty_paths S root dir m = map_sum id (map de_path) (dirty_entries S root dir m)"

definition count_allowlisted_dirty :: "git_sys \<Rightarrow> machine \<Rightarrow> string \<Rightarrow> string \<Rightarrow> nat" where
  "count_allowlisted_dirty S m dir root =
     (case dirty_paths S root dir m of Inl e \<Rightarrow> 0 | Inr ps \<Rightarrow> length (filter (\<lambda>p. is_allowlisted p dir) ps))"

definition unpushed_count :: "git_sys \<Rightarrow> string \<Rightarrow> machine \<Rightarrow> string + int" where
  "unpushed_count S root m =
     rbind (git_query S root [''rev-list'', ''--count'', (CHR ''@'' # ''{u}..HEAD'')] m) (\<lambda>out.
       case parse_int64 (trim_space out) of
         None \<Rightarrow> Inl (''parse unpushed count '' @ trim_space out)
       | Some n \<Rightarrow> Inr n)"

section \<open>Conflict stages and trees\<close>

record stages =
  sg_base :: bool
  sg_ours :: bool
  sg_theirs :: bool

definition stages_any :: "stages \<Rightarrow> bool" where
  "stages_any s \<longleftrightarrow> sg_base s \<or> sg_ours s \<or> sg_theirs s"

definition read_stage_line :: "string \<Rightarrow> stages \<Rightarrow> stages" where
  "read_stage_line line s =
     (let meta = (case index_byte (CHR 0x09) line of Some i \<Rightarrow> take i line | None \<Rightarrow> line);
          fields = go_fields meta in
      if length fields < 3 then s
      else let n = fields ! (length fields - 1) in
           if n = ''1'' then s\<lparr>sg_base := True\<rparr>
           else if n = ''2'' then s\<lparr>sg_ours := True\<rparr>
           else if n = ''3'' then s\<lparr>sg_theirs := True\<rparr>
           else s)"

definition conflict_stages :: "git_sys \<Rightarrow> string \<Rightarrow> string \<Rightarrow> machine \<Rightarrow> string + stages" where
  "conflict_stages S root path m =
     map_sum id (\<lambda>out. fold read_stage_line (non_empty_lines out) \<lparr>sg_base = False, sg_ours = False, sg_theirs = False\<rparr>)
       (git_query S root [''ls-files'', ''-u'', ''--'', path] m)"

definition show_stage :: "git_sys \<Rightarrow> string \<Rightarrow> nat \<Rightarrow> string \<Rightarrow> machine \<Rightarrow> string + string" where
  "show_stage S root stage path m =
     (if stage < 1 \<or> 3 < stage then Inl (''git show stage: stage '' @ show_nat stage @ '' out of range'')
      else git_query S root [''show'', '':'' @ show_nat stage @ '':'' @ path] m)"

definition merge_blobs :: "git_sys \<Rightarrow> string \<Rightarrow> string \<Rightarrow> string \<Rightarrow> string + (string \<times> bool)" where
  "merge_blobs S bs ours theirs =
     rbind (gs_merge_file S bs ours theirs) (\<lambda>x.
       if gx_code x = 0 then Inr (gx_out x, False)
       else if 0 < gx_code x \<and> length (gx_out x) > 0 then Inr (gx_out x, True)
       else Inl (''git merge-file: '' @ git_message x))"

definition list_files :: "git_sys \<Rightarrow> string \<Rightarrow> string \<Rightarrow> machine \<Rightarrow> string + string list" where
  "list_files S root dir m = map_sum id non_empty_lines (git_query S root [''ls-files'', ''--'', dir] m)"

definition list_tree :: "git_sys \<Rightarrow> string \<Rightarrow> string \<Rightarrow> string \<Rightarrow> machine \<Rightarrow> string + string list" where
  "list_tree S root rv rel m =
     map_sum id non_empty_lines
       (git_query S root ([''ls-tree'', ''-r'', ''--name-only'', rv] @ (if rel \<noteq> [] \<and> rel \<noteq> ''.'' then [''--'', rel] else [])) m)"

definition show_blob :: "git_sys \<Rightarrow> string \<Rightarrow> string \<Rightarrow> string \<Rightarrow> machine \<Rightarrow> string + string" where
  "show_blob S root rv path m = git_query S root [''show'', rv @ '':'' @ path] m"

definition tree_contains :: "git_sys \<Rightarrow> string \<Rightarrow> string \<Rightarrow> string \<Rightarrow> machine \<Rightarrow> string + bool" where
  "tree_contains S root rv path m =
     map_sum id (\<lambda>out. trim_space out \<noteq> []) (git_query S root [''ls-tree'', ''--name-only'', rv, ''--'', path] m)"

definition path_changed :: "git_sys \<Rightarrow> string \<Rightarrow> string \<Rightarrow> string \<Rightarrow> string \<Rightarrow> machine \<Rightarrow> string + bool" where
  "path_changed S root revA revB path m =
     (let x = gs_answer S m root [] [''diff'', ''--quiet'', revA, revB, ''--'', path] in
      if gx_code x = 0 then Inr False
      else if gx_code x = 1 then Inr True
      else let msg = trim_space (gx_out x @ gx_err x) in
           Inl (''git diff --quiet: '' @ (if msg = [] then gx_text x else msg)))"

definition first_parent :: "git_sys \<Rightarrow> string \<Rightarrow> string \<Rightarrow> machine \<Rightarrow> string + string option" where
  "first_parent S root rv m =
     map_sum id (\<lambda>out. let parents = go_fields (trim_space out) in if length parents = 0 then None else Some (parents ! 0))
       (git_query S root [''log'', ''-1'', ''--format=%P'', rv] m)"

text \<open>The zero \<open>time.Time\<close>, in nanoseconds since 1970 like every other time here.\<close>

definition zero_time :: int where
  "zero_time = - 62135596800 * 10 ^ 9"

definition author_date :: "git_sys \<Rightarrow> string \<Rightarrow> string \<Rightarrow> string \<Rightarrow> machine \<Rightarrow> string + int" where
  "author_date S root rv path m =
     rbind (git_query S root [''log'', ''-1'', ''--format=%aI'', rv, ''--'', path] m) (\<lambda>out.
       let s = trim_space out in
       if s = [] then Inr zero_time
       else case gs_time S s of None \<Rightarrow> Inl (''parse author date '' @ s) | Some t \<Rightarrow> Inr t)"

section \<open>Sides and upstream\<close>

definition rev_sides :: "git_sys \<Rightarrow> string \<Rightarrow> string \<Rightarrow> machine \<Rightarrow> string + (string \<times> string)" where
  "rev_sides S root other m =
     rbind (git_query S root [''rev-parse'', ''HEAD''] m) (\<lambda>h.
     rbind (git_query S root [''rev-parse'', other] m) (\<lambda>oh. Inr (trim_space h, trim_space oh)))"

definition merge_sides :: "git_sys \<Rightarrow> string \<Rightarrow> machine \<Rightarrow> string + (string \<times> string)" where
  "merge_sides S root = rev_sides S root ''MERGE_HEAD''"

definition rebase_sides :: "git_sys \<Rightarrow> string \<Rightarrow> machine \<Rightarrow> string + (string \<times> string)" where
  "rebase_sides S root = rev_sides S root ''REBASE_HEAD''"

definition merge_base :: "git_sys \<Rightarrow> string \<Rightarrow> string \<Rightarrow> string \<Rightarrow> machine \<Rightarrow> string + string" where
  "merge_base S root a b m =
     rbind (git_query S root [''merge-base'', a, b] m) (\<lambda>out.
       let s = trim_space out in if s = [] then Inl ''git merge-base: empty'' else Inr s)"

datatype upstream_relation = RelBased | RelBehind | RelDiverged

definition is_ancestor :: "git_sys \<Rightarrow> string \<Rightarrow> string \<Rightarrow> string \<Rightarrow> machine \<Rightarrow> string + bool" where
  "is_ancestor S root ancestor descendant m =
     (let x = gs_answer S m root [] [''merge-base'', ''--is-ancestor'', ancestor, descendant] in
      if gx_code x = 0 then Inr True
      else if gx_code x = 1 then Inr False
      else Inl (''git merge-base --is-ancestor: '' @ gx_text x))"

definition compare_upstream :: "git_sys \<Rightarrow> string \<Rightarrow> machine \<Rightarrow> string + upstream_relation" where
  "compare_upstream S root m =
     rbind (is_ancestor S root upstream_rev ''HEAD'' m) (\<lambda>based.
       if based then Inr RelBased
       else rbind (is_ancestor S root ''HEAD'' upstream_rev m) (\<lambda>behind.
         if behind then Inr RelBehind else Inr RelDiverged))"

section \<open>Commands that move the repository\<close>

definition merge_ff_only :: "git_sys \<Rightarrow> string \<Rightarrow> string \<Rightarrow> unit git_run" where
  "merge_ff_only S root upstream = git_step S root [] [''merge'', ''--ff-only'', upstream]"

text \<open>A failed command that left unmerged files is a pause, not a fault.\<close>

definition paused_step :: "git_sys \<Rightarrow> string \<Rightarrow> (machine \<Rightarrow> string \<Rightarrow> bool) \<Rightarrow> string list \<Rightarrow> bool git_run" where
  "paused_step S root mid args m =
     (case git_step S root editor_env args m of
        (Inr u, m') \<Rightarrow> (Inr False, m')
      | (Inl e, m') \<Rightarrow>
          if mid m' root \<and> length (unmerged_files S m' root) > 0 then (Inr True, m') else (Inl e, m'))"

definition git_merge :: "git_sys \<Rightarrow> string \<Rightarrow> string \<Rightarrow> bool git_run" where
  "git_merge S root upstream = paused_step S root (mid_merge S) [''merge'', ''--no-ff'', ''--no-edit'', upstream]"

definition merge_commit :: "git_sys \<Rightarrow> string \<Rightarrow> unit git_run" where
  "merge_commit S root = git_step S root editor_env [''commit'', ''--no-edit'']"

definition git_fetch :: "git_sys \<Rightarrow> string \<Rightarrow> unit git_run" where
  "git_fetch S root = git_step S root [] [''fetch'']"

definition git_rebase :: "git_sys \<Rightarrow> string \<Rightarrow> string \<Rightarrow> bool git_run" where
  "git_rebase S root upstream = paused_step S root (mid_rebase S) [''rebase'', upstream]"

definition rebase_continue :: "git_sys \<Rightarrow> string \<Rightarrow> bool git_run" where
  "rebase_continue S root = paused_step S root (mid_rebase S) [''rebase'', ''--continue'']"

definition rebase_abort :: "git_sys \<Rightarrow> string \<Rightarrow> unit git_run" where
  "rebase_abort S root = git_step S root editor_env [''rebase'', ''--abort'']"

definition git_push :: "git_sys \<Rightarrow> string \<Rightarrow> unit git_run" where
  "git_push S root = git_step S root [] [''push'']"

section \<open>The marker of a failed push\<close>

definition push_error_path :: "git_sys \<Rightarrow> string \<Rightarrow> string" where
  "push_error_path S root = path_join (gs_state S root) ''last-push-error''"

definition read_last_push_error :: "git_sys \<Rightarrow> wenv \<Rightarrow> machine \<Rightarrow> string \<Rightarrow> string option" where
  "read_last_push_error S E m root =
     (case disk_file (mc_disk m) (push_error_path S root) of
        None \<Rightarrow> None
      | Some f \<Rightarrow>
          if we_fault E (IoRead (push_error_path S root)) then None
          else let s = trim_space (f_data f) in if s = [] then None else Some s)"

definition write_last_push_error :: "git_sys \<Rightarrow> wenv \<Rightarrow> string \<Rightarrow> string \<Rightarrow> unit act" where
  "write_last_push_error S E root detail =
     act_bind (mkdir_all E (gs_state S root)) (\<lambda>_ m.
       let p = push_error_path S root in
       if we_fault E (IoWrite p) \<or> path_dir p \<notin> set (dk_dirs (mc_disk m)) then (Inl (WriteFailed p), m)
       else (Inr (), put_file p \<lparr>f_data = trim_space detail @ [newline], f_mtime = mc_clock m\<rparr> m))"

definition clear_last_push_error :: "git_sys \<Rightarrow> wenv \<Rightarrow> string \<Rightarrow> machine \<Rightarrow> bool \<times> machine" where
  "clear_last_push_error S E root m =
     (let p = push_error_path S root in
      case disk_file (mc_disk m) p of
        None \<Rightarrow> (True, m)
      | Some f \<Rightarrow> if we_fault E (IoRemove p) then (False, m) else (True, drop_file p m))"

section \<open>The view of a session\<close>

text \<open>What the sessions of \<open>Sessions\<close> ask of git, answered by these calls.\<close>

definition git_view_of :: "git_sys \<Rightarrow> wenv \<Rightarrow> git_view" where
  "git_view_of S E =
     \<lparr>gv_merging = mid_merge S, gv_rebasing = mid_rebase S, gv_unmerged = unmerged_files S, gv_upstream = has_upstream S,
      gv_push_error = (\<lambda>m root. read_last_push_error S E m root \<noteq> None),
      gv_dirty = count_allowlisted_dirty S,
      gv_unpushed = (\<lambda>m root. case unpushed_count S root m of Inr n \<Rightarrow> if 0 < n then Some (nat n) else Some 0 | Inl e \<Rightarrow> None),
      gv_tracked = git_tracked S, gv_add = git_add_error S, gv_staged = has_staged_changes S,
      gv_commit = git_commit_error S, gv_unstage = git_unstage_error S\<rparr>"

text \<open>\<open>gitroot.RepoRoot\<close>; its paths are canonical as all paths here are.\<close>

definition repo_root :: "git_sys \<Rightarrow> string \<Rightarrow> machine \<Rightarrow> string option" where
  "repo_root S dir m =
     (let x = gs_answer S m dir [] [''rev-parse'', ''--show-toplevel'']; root = trim_space (gx_out x) in
      if gx_code x \<noteq> 0 \<or> root = [] then None else Some root)"

end
