(* ===== verification/Reports.thy ===== *)
theory Reports
  imports Gits Applies FmMerge
begin

text \<open>
  The state of a run that reports as it goes: the machine and the lines given to the \<open>Reporter\<close> of
  \<open>internal/integrity\<close> and \<open>internal/syncengine\<close>, in order. A line is what it is about, without its wording. The
  state can be extended; the combinators of \<open>Sessions\<close> serve it as they serve a machine.
\<close>

section \<open>Lines\<close>

datatype report_line =
    SkipUnreachable string
  | SkipNameDrift string string
  | SkipConfig string
  | SkipMid string string bool
  | SkipUnfinished string
  | CollisionQuarantined string
  | ArchiveDeferred string
  | ArchiveMoved string string
  | RespacedEqual nat string
  | RespacedLong nat string
  | RepairedDuplicate string string string
  | RepairedDesign string string string
  | RepairedPrefix string string string
  | RepairedAddAdd string string string
  | RepairUncommitted string
  | EdgeVerify string string string
  | EdgeVerifyPrefix string string string string
  | NameDrift string string
  | ConfigUnparseable string string
  | AutoCommitMismatch string
  | NotAllowlisted nat string "string list"
  | HumanConflict string "nat option"
  | Unresolvable string
  | SchemaFirst string
  | MergeWarned merge_warning
  | BodyConflict string
  | StatusConflict string
  | DeleteEditConflict string side string
  | FailedClosed string merge_error
  | AmbiguousBase string string
  | MergeLeft
  | PushRejected string
  | MarkerNotCleared string
  | PushNotLanded string

record reported =
  rs_machine :: machine
  rs_lines :: "report_line list"

definition report :: "report_line \<Rightarrow> 'z reported_scheme \<Rightarrow> ('e + unit) \<times> 'z reported_scheme" where
  "report l s = (Inr (), s\<lparr>rs_lines := rs_lines s @ [l]\<rparr>)"

section \<open>Steps of the machine\<close>

definition map_err :: "('e \<Rightarrow> 'f) \<Rightarrow> 'e + 'a \<Rightarrow> 'f + 'a" where
  "map_err w r = (case r of Inl e \<Rightarrow> Inl (w e) | Inr x \<Rightarrow> Inr x)"

lemma map_err_Inr [early_return]: "map_err w r = Inr x \<longleftrightarrow> r = Inr x"
  by (cases r) (auto simp: map_err_def)

lemma map_err_Inl [early_return]: "map_err w r = Inl e \<longleftrightarrow> (\<exists>d. r = Inl d \<and> e = w d)"
  by (cases r) (auto simp: map_err_def)

lemma map_err_simps [simp]: "map_err w (Inl e) = Inl (w e)" "map_err w (Inr x) = Inr x"
  by (simp_all add: map_err_def)

definition on_machine :: "('e \<Rightarrow> 'f) \<Rightarrow> ('e, 'a) run \<Rightarrow> 'z reported_scheme \<Rightarrow> ('f + 'a) \<times> 'z reported_scheme" where
  "on_machine w f s = (case f (rs_machine s) of (r, m') \<Rightarrow> (map_err w r, s\<lparr>rs_machine := m'\<rparr>))"

text \<open>A question to the machine, which is left as it is.\<close>

definition look_at :: "('e \<Rightarrow> 'f) \<Rightarrow> (machine \<Rightarrow> 'e + 'a) \<Rightarrow> 'z reported_scheme \<Rightarrow> ('f + 'a) \<times> 'z reported_scheme" where
  "look_at w f = act_read (\<lambda>s. map_err w (f (rs_machine s)))"

definition peek :: "(machine \<Rightarrow> 'a) \<Rightarrow> 'z reported_scheme \<Rightarrow> ('f + 'a) \<times> 'z reported_scheme" where
  "peek f = act_read (\<lambda>s. Inr (f (rs_machine s)))"

section \<open>Loops\<close>

fun each :: "('x \<Rightarrow> 's \<Rightarrow> ('e + unit) \<times> 's) \<Rightarrow> 'x list \<Rightarrow> 's \<Rightarrow> ('e + unit) \<times> 's" where
  "each f [] = act_return ()"
| "each f (x # xs) = act_bind (f x) (\<lambda>_. each f xs)"

fun each_acc :: "('x \<Rightarrow> 'b \<Rightarrow> 's \<Rightarrow> ('e + 'b) \<times> 's) \<Rightarrow> 'x list \<Rightarrow> 'b \<Rightarrow> 's \<Rightarrow> ('e + 'b) \<times> 's" where
  "each_acc f [] b = act_return b"
| "each_acc f (x # xs) b = act_bind (f x b) (each_acc f xs)"

section \<open>Multi-file rewrites\<close>

definition run_apply :: "wenv \<Rightarrow> rw_op list \<Rightarrow> (apply_error, string list) run" where
  "run_apply E ops m =
     (case apply_now E ops m of ((None, touched), m') \<Rightarrow> (Inr touched, m') | ((Some e, touched), m') \<Rightarrow> (Inl e, m'))"

lemma run_apply_Inr: "run_apply E ops m = (Inr t, m') \<longleftrightarrow> apply_now E ops m = ((None, t), m')"
  by (auto simp: run_apply_def split: prod.splits option.splits)

lemma run_apply_Inl: "run_apply E ops m = (Inl e, m') \<longleftrightarrow> (\<exists>t. apply_now E ops m = ((Some e, t), m'))"
  by (auto simp: run_apply_def split: prod.splits option.splits)

lemma on_machine_Inr: "on_machine w f s = (Inr x, s') \<longleftrightarrow> (\<exists>m'. f (rs_machine s) = (Inr x, m') \<and> s' = s\<lparr>rs_machine := m'\<rparr>)"
  by (auto simp: on_machine_def map_err_Inr split: prod.splits)

lemma look_at_Inr: "look_at w f s = (Inr x, s') \<longleftrightarrow> f (rs_machine s) = Inr x \<and> s' = s"
  by (auto simp: look_at_def act_read_def map_err_Inr)

lemma peek_iff: "peek f s = (r, s') \<longleftrightarrow> r = Inr (f (rs_machine s)) \<and> s' = s"
  by (auto simp: peek_def act_read_def)

lemma report_iff: "report l s = (r, s') \<longleftrightarrow> r = Inr () \<and> s' = s\<lparr>rs_lines := rs_lines s @ [l]\<rparr>"
  by (auto simp: report_def)

lemma bind_report: "act_bind (report l) g s = g () (s\<lparr>rs_lines := rs_lines s @ [l]\<rparr>)"
  by (simp add: act_bind_def report_def)

lemmas rep_runs = act_bind_Inr on_machine_Inr look_at_Inr peek_iff report_iff act_return_iff

section \<open>What a run keeps\<close>

text \<open>
  A relation between the machine before and after that holds for doing nothing and for one thing after the other:
  a run that keeps it, keeps it however it ends.
\<close>

locale machine_relation =
  fixes rel :: "machine \<Rightarrow> machine \<Rightarrow> bool"
  assumes rel_refl: "rel m m"
    and rel_trans: "rel m1 m2 \<Longrightarrow> rel m2 m3 \<Longrightarrow> rel m1 m3"
begin

definition keeps :: "('z reported_scheme \<Rightarrow> ('e + 'a) \<times> 'z reported_scheme) \<Rightarrow> bool" where
  "keeps f \<longleftrightarrow> (\<forall>s r s'. f s = (r, s') \<longrightarrow> rel (rs_machine s) (rs_machine s'))"

lemma keepsI: "(\<And>s r s'. f s = (r, s') \<Longrightarrow> rel (rs_machine s) (rs_machine s')) \<Longrightarrow> keeps f"
  by (simp add: keeps_def)

lemma keepsD: "keeps f \<Longrightarrow> f s = (r, s') \<Longrightarrow> rel (rs_machine s) (rs_machine s')"
  by (simp add: keeps_def)

lemma keeps_basic:
  "keeps (act_return x)" "keeps (act_fail e)" "keeps (act_read g)" "keeps (act_refuse c)" "keeps (report l)" "keeps (look_at w g')"
  "keeps (peek h)"
  by (auto simp: keeps_def act_return_def act_fail_def act_read_def act_refuse_def report_def look_at_def peek_def rel_refl)

lemma keeps_bind: "keeps f \<Longrightarrow> (\<And>x. keeps (g x)) \<Longrightarrow> keeps (act_bind f g)"
  unfolding keeps_def act_bind_def by (auto split: prod.splits sum.splits intro: rel_refl) (blast intro: rel_trans)+

lemma keeps_lift: "keeps f \<Longrightarrow> keeps (act_lift w f)"
  unfolding keeps_def act_lift_def by (auto split: prod.splits sum.splits)

lemma keeps_machine: "(\<And>m r m'. f m = (r, m') \<Longrightarrow> rel m m') \<Longrightarrow> keeps (on_machine w f)"
  unfolding keeps_def on_machine_def by (auto split: prod.splits)

lemma keeps_each: "(\<And>x. keeps (f x)) \<Longrightarrow> keeps (each f xs)"
  by (induction xs) (auto intro: keeps_basic keeps_bind)

lemma keeps_each_acc: "(\<And>x b. keeps (f x b)) \<Longrightarrow> keeps (each_acc f xs b)"
  by (induction xs arbitrary: b) (auto intro: keeps_basic keeps_bind)

lemma keeps_if: "(b \<Longrightarrow> keeps f) \<Longrightarrow> (\<not> b \<Longrightarrow> keeps g) \<Longrightarrow> keeps (if b then f else g)"
  by simp

lemmas keeps_rules = keeps_basic keeps_bind keeps_lift keeps_each keeps_each_acc keeps_if

end

end
