(* ===== verification/Integrity.thy ===== *)
theory Integrity
  imports Reports Prefixes Creates
begin

text \<open>
  The repair of a scope, \<open>internal/integrity/repair.go\<close>: the batches that plan with \<open>internal/repair\<close>, write with
  \<open>rewrite.Apply\<close>, index what was written and commit it. The caller holds the locks of the scope and of its git
  root. The map of occupied short ids, which the planners change, is passed along.
\<close>

section \<open>Targets and errors\<close>

record sync_env =
  sv_env :: wenv
  sv_ext :: externals
  sv_sys :: git_sys
  sv_name :: "machine \<Rightarrow> string \<Rightarrow> string option"

record repair_target =
  rt_scope :: string
  rt_dir :: string
  rt_schema :: "schema option"
  rt_auto :: bool
  rt_root :: "string option"

record repair_flags =
  rf_repair :: bool
  rf_respace :: bool
  rf_all :: bool

datatype integrity_error =
    IntegrityPlan repair_error
  | IntegrityApply apply_error
  | IntegrityEngine write_error
  | IntegrityCommit commit_error
  | IntegrityUnlisted string
  | IntegrityUnread string
  | IntegrityDesigns design_files_error
  | IntegrityMidRebase string string string bool

definition reads_now :: "wenv \<Rightarrow> machine \<Rightarrow> reads" where
  "reads_now E m p =
     (case disk_file (mc_disk m) p of
        None \<Rightarrow> ReadMissing
      | Some f \<Rightarrow> if we_fault E (IoRead p) then ReadFault else ReadOk (f_data f))"

text \<open>The write environment whose git answers are those of \<open>Gits\<close>.\<close>

definition git_wenv :: "sync_env \<Rightarrow> wenv" where
  "git_wenv V = (sv_env V)\<lparr>we_git := git_view_of (sv_sys V) (sv_env V)\<rparr>"

abbreviation yaml_of :: "sync_env \<Rightarrow> yaml" where
  "yaml_of V \<equiv> re_yaml (we_rec (sv_env V))"

section \<open>Batches\<close>

definition repair_index_paths :: "string \<Rightarrow> string list \<Rightarrow> string list" where
  "repair_index_paths dir paths =
     filter (\<lambda>p. path_dir p = dir \<or> path_dir p = path_join dir archive_dir \<or> path_dir p = path_join dir design_dir)
       (first_seen {} (filter (\<lambda>p. p \<noteq> []) paths))"

definition commit_batch :: "wenv \<Rightarrow> string \<Rightarrow> string \<Rightarrow> string list \<Rightarrow> (commit_error, unit) run" where
  "commit_batch E root message paths m =
     (case commit_paths_core (we_git E) root message paths m of
        (None, m') \<Rightarrow> (Inr (), m') | (Some e, m') \<Rightarrow> (Inl e, m'))"

definition finish_repair_batch ::
    "sync_env \<Rightarrow> repair_target \<Rightarrow> string list \<Rightarrow> string \<Rightarrow> 'z reported_scheme \<Rightarrow> (integrity_error + unit) \<times> 'z reported_scheme" where
  "finish_repair_batch V t touched message =
     act_bind (on_machine IntegrityEngine (sync_now (sv_env V) (rt_scope t) (repair_index_paths (rt_dir t) touched))) (\<lambda>_.
       if \<not> rt_auto t then act_return ()
       else case rt_root t of
              None \<Rightarrow> report (RepairUncommitted (rt_scope t))
            | Some root \<Rightarrow> on_machine IntegrityCommit (commit_batch (git_wenv V) root message touched))"

definition apply_repair_batch ::
    "sync_env \<Rightarrow> repair_target \<Rightarrow> rw_op list \<Rightarrow> string \<Rightarrow> 'z reported_scheme \<Rightarrow> (integrity_error + unit) \<times> 'z reported_scheme" where
  "apply_repair_batch V t ops message =
     (if length ops = 0 then act_return ()
      else act_bind (on_machine IntegrityApply (run_apply (sv_env V) ops)) (\<lambda>touched.
             finish_repair_batch V t touched message))"

section \<open>Rows\<close>

definition to_repair_row :: "ticket \<Rightarrow> repair_row" where
  "to_repair_row p = \<lparr>rp_path = tk_path p, rp_full = tk_id p, rp_short = tk_short_id p, rp_order = tk_order_key p, rp_fault = tk_parse_error p\<rparr>"

definition short_id_paths :: "ticket list \<Rightarrow> occupied" where
  "short_id_paths rows = fold (\<lambda>p out. if tk_short_id p = [] then out else hold_short (tk_short_id p) (tk_path p) out) rows []"

definition by_path :: "ticket list \<Rightarrow> string \<Rightarrow> ticket option" where
  "by_path rows = map_of (rev (map (\<lambda>p. (tk_path p, p)) rows))"

definition rows_for_paths :: "(string \<Rightarrow> ticket option) \<Rightarrow> string list \<Rightarrow> ticket list" where
  "rows_for_paths byPath paths = List.map_filter byPath paths"

definition any_parse_error :: "ticket list \<Rightarrow> bool" where
  "any_parse_error rows \<longleftrightarrow> list_ex tk_parse_error rows"

definition merge_occupied :: "occupied \<Rightarrow> occupied \<Rightarrow> occupied" where
  "merge_occupied occ onDisk = occ @ filter (\<lambda>(short, path). short \<notin> fst ` set occ) onDisk"

section \<open>Shared ids\<close>

record shared_group =
  gr_short :: string
  gr_full :: string
  gr_rows :: "shared_row list"

definition shared_ticket :: "ticket \<Rightarrow> shared_row" where
  "shared_ticket p = \<lparr>rp_path = tk_path p, rp_full = tk_id p, rp_short = tk_short_id p, rp_order = tk_order_key p,
     rp_fault = tk_parse_error p, sr_design = False\<rparr>"

definition shared_design :: "design \<Rightarrow> shared_row" where
  "shared_design p = \<lparr>rp_path = ds_path p, rp_full = ds_id p, rp_short = ds_short_id p, rp_order = [],
     rp_fault = ds_parse_error p, sr_design = True\<rparr>"

definition shared_groups :: "string \<Rightarrow> ticket list \<Rightarrow> design list \<Rightarrow> shared_group list" where
  "shared_groups scope tickets designs =
     (let rows = filter (\<lambda>r. is_short_id (rp_short r)) (map shared_ticket tickets @ map shared_design designs);
          ofShort = (\<lambda>short. filter (\<lambda>r. rp_short r = short) rows);
          shorts = filter (\<lambda>short. 2 \<le> length (ofShort short) \<and> list_ex sr_design (ofShort short)) (remdups (map rp_short rows)) in
      map (\<lambda>short. \<lparr>gr_short = short, gr_full = scope @ ''-'' @ short, gr_rows = sort_key rp_path (ofShort short)\<rparr>) (sort shorts))"

definition to_row :: "shared_row \<Rightarrow> repair_row" where
  "to_row r = \<lparr>rp_path = rp_path r, rp_full = rp_full r, rp_short = rp_short r, rp_order = rp_order r, rp_fault = rp_fault r\<rparr>"

definition rename_message :: "string \<Rightarrow> rename list \<Rightarrow> string" where
  "rename_message what renames =
     ''tk: repair '' @ what @ '' '' @ rn_old_id (hd renames) @ '' -> '' @ go_join '', '' (map rn_new_id renames)"

text \<open>A repaired group is its id, and the ticket id that links moved to, or none.\<close>

definition repair_shared_group ::
    "sync_env \<Rightarrow> repair_target \<Rightarrow> shared_group \<Rightarrow> occupied \<times> (string \<times> string) list \<Rightarrow> 'z reported_scheme \<Rightarrow>
     (integrity_error + occupied \<times> (string \<times> string) list) \<times> 'z reported_scheme" where
  "repair_shared_group V t g acc =
     (case acc of (occ, shared) \<Rightarrow>
      if list_ex rp_fault (gr_rows g) then act_bind (report (CollisionQuarantined (gr_full g))) (\<lambda>_. act_return (occ, shared))
      else
        act_bind (look_at IntegrityPlan (\<lambda>m. interrupted_move (reads_now (sv_env V) m) (rt_dir t)
                    (map to_row (filter (\<lambda>r. \<not> sr_design r) (gr_rows g))))) (\<lambda>mid.
        if mid then act_bind (report (SkipUnfinished (gr_full g))) (\<lambda>_. act_return (occ, shared))
        else
          act_bind (look_at IntegrityPlan (\<lambda>m. shared_id (yaml_of V) (sv_ext V) (mc_disk m) (reads_now (sv_env V) m)
                      (rt_scope t) (rt_dir t) (gr_rows g) occ)) (\<lambda>(ops, renames, retarget, occ').
          act_bind (apply_repair_batch V t ops (rename_message ''design id'' renames)) (\<lambda>_.
          act_bind (each (\<lambda>r. report (RepairedDesign (rn_old_id r) (rn_new_id r) (rn_new_path r))) renames) (\<lambda>_.
            act_return (occ', shared @ [(gr_full g, retarget)]))))))"

section \<open>Edges to verify\<close>

definition edge_lines :: "(edge \<Rightarrow> bool) \<Rightarrow> string \<Rightarrow> 'z reported_scheme \<Rightarrow> (integrity_error + unit) \<times> 'z reported_scheme" where
  "edge_lines shown target =
     act_bind (peek (\<lambda>m. edges_by_target target (mc_db m))) (\<lambda>inbound.
       each (\<lambda>e. report (EdgeVerify (e_from_id e) (e_kind e) target)) (filter shown inbound))"

definition report_edge_verify :: "string list \<Rightarrow> 'z reported_scheme \<Rightarrow> (integrity_error + unit) \<times> 'z reported_scheme" where
  "report_edge_verify ids = each (edge_lines (\<lambda>e. e_kind e \<noteq> edge_produces)) ids"

definition reconcile_all ::
    "sync_env \<Rightarrow> (string \<times> string) list \<Rightarrow> 'z reported_scheme \<Rightarrow> (integrity_error + unit) \<times> 'z reported_scheme" where
  "reconcile_all V targets = act_bind (on_machine IntegrityEngine (reconcile_now (sv_env V) targets)) (\<lambda>_. act_return ())"

definition reconcile_other_scopes ::
    "sync_env \<Rightarrow> string \<Rightarrow> 'z reported_scheme \<Rightarrow> (integrity_error + unit) \<times> 'z reported_scheme" where
  "reconcile_other_scopes V scope =
     (let targets = filter (\<lambda>(name, dir). name \<noteq> scope) (we_reg (sv_env V)) in
      if length targets = 0 then act_return () else reconcile_all V targets)"

definition report_shared_edges ::
    "sync_env \<Rightarrow> string \<Rightarrow> (string \<times> string) list \<Rightarrow> 'z reported_scheme \<Rightarrow> (integrity_error + unit) \<times> 'z reported_scheme" where
  "report_shared_edges V scope shared =
     (if length shared = 0 then act_return ()
      else act_bind (reconcile_other_scopes V scope) (\<lambda>_.
        each (\<lambda>(oldID, retarget). edge_lines (\<lambda>e. \<not> (e_from_scope e = scope \<and> retarget \<noteq> [])) oldID) shared))"

section \<open>Collisions\<close>

definition short_of :: "string \<Rightarrow> string" where
  "short_of full = trim_prefix (scope_of_full_id full @ ''-'') full"

definition repair_duplicate ::
    "sync_env \<Rightarrow> repair_target \<Rightarrow> (string \<Rightarrow> ticket option) \<Rightarrow> string set \<Rightarrow> collision_group \<Rightarrow> occupied \<times> string list \<Rightarrow>
     'z reported_scheme \<Rightarrow> (integrity_error + occupied \<times> string list) \<times> 'z reported_scheme" where
  "repair_duplicate V t byPath heldShorts col acc =
     (case acc of (occ, repaired) \<Rightarrow>
      if short_of (cg_key col) \<in> heldShorts then act_return (occ, repaired)
      else
        let members = rows_for_paths byPath (cg_members col); rows = map to_repair_row members in
        act_bind (look_at IntegrityPlan (\<lambda>m. interrupted_move (reads_now (sv_env V) m) (rt_dir t) rows)) (\<lambda>mid.
        if mid then act_bind (report (SkipUnfinished (cg_key col))) (\<lambda>_. act_return (occ, repaired))
        else if any_parse_error members then act_bind (report (CollisionQuarantined (cg_key col))) (\<lambda>_. act_return (occ, repaired))
        else
          act_bind (look_at IntegrityPlan (\<lambda>m. duplicate_id (yaml_of V) (sv_ext V) (reads_now (sv_env V) m) (rt_scope t) rows occ))
            (\<lambda>(planned, occ').
          act_bind (apply_repair_batch V t (map fst planned) (rename_message ''duplicate id'' (map snd planned))) (\<lambda>_.
          act_bind (each (\<lambda>r. report (RepairedDuplicate (rn_old_id r) (rn_new_id r) (rn_new_path r))) (map snd planned)) (\<lambda>_.
            act_return (occ', repaired @ [cg_key col]))))))"

definition repair_collisions ::
    "sync_env \<Rightarrow> repair_target \<Rightarrow> 'z reported_scheme \<Rightarrow> (integrity_error + unit) \<times> 'z reported_scheme" where
  "repair_collisions V t =
     act_bind (peek (\<lambda>m. (scope_tickets (rt_scope t) (mc_db m), scope_designs (rt_scope t) (mc_db m)))) (\<lambda>(rows, designs).
     act_bind (act_read (\<lambda>s. case occupied_short_paths (yaml_of V) (mc_disk (rs_machine s)) (rt_dir t) (rt_scope t) of
                               None \<Rightarrow> Inl (IntegrityUnlisted (rt_dir t)) | Some occ \<Rightarrow> Inr occ)) (\<lambda>onDisk.
     let groups = shared_groups (rt_scope t) rows designs in
     act_bind (each_acc (repair_shared_group V t) groups (merge_occupied (short_id_paths rows) onDisk, [])) (\<lambda>(occ, shared).
     act_bind (peek (\<lambda>m. (duplicate_ids [rt_scope t] (mc_db m), scope_tickets (rt_scope t) (mc_db m)))) (\<lambda>(dups, rows').
     act_bind (each_acc (repair_duplicate V t (by_path rows') (set (map gr_short groups))) dups (occ, [])) (\<lambda>(occ', repaired).
     act_bind (report_edge_verify repaired) (\<lambda>_. report_shared_edges V (rt_scope t) shared))))))"

section \<open>Order keys\<close>

definition repair_orders ::
    "sync_env \<Rightarrow> repair_target \<Rightarrow> (reads \<Rightarrow> repair_row list \<Rightarrow> repair_error + rw_op list) \<Rightarrow> string \<Rightarrow>
     (nat \<Rightarrow> string \<Rightarrow> report_line) \<Rightarrow> 'z reported_scheme \<Rightarrow> (integrity_error + unit) \<times> 'z reported_scheme" where
  "repair_orders V t plan message line =
     act_bind (look_at IntegrityPlan (\<lambda>m. plan (reads_now (sv_env V) m) (map to_repair_row (scope_tickets (rt_scope t) (mc_db m))))) (\<lambda>ops.
       if length ops = 0 then act_return ()
       else act_bind (apply_repair_batch V t ops message) (\<lambda>_. report (line (length ops) (rt_scope t))))"

definition repair_equal_order :: "sync_env \<Rightarrow> repair_target \<Rightarrow> 'z reported_scheme \<Rightarrow> (integrity_error + unit) \<times> 'z reported_scheme" where
  "repair_equal_order V t = repair_orders V t (equal_order (yaml_of V)) ''tk: repair equal order'' RespacedEqual"

definition repair_long_order :: "sync_env \<Rightarrow> repair_target \<Rightarrow> 'z reported_scheme \<Rightarrow> (integrity_error + unit) \<times> 'z reported_scheme" where
  "repair_long_order V t = repair_orders V t (long_order (yaml_of V)) ''tk: re-space order'' RespacedLong"

section \<open>The archive layout\<close>

fun genuine_keys :: "(string list \<Rightarrow> repair_error + bool) \<Rightarrow> collision_group list \<Rightarrow> repair_error + string list" where
  "genuine_keys mid [] = Inr []"
| "genuine_keys mid (col # cols) =
     rbind (mid (cg_members col)) (\<lambda>b. map_sum id (\<lambda>keys. if b then keys else cg_key col # keys) (genuine_keys mid cols))"

definition genuine_collision_ids :: "wenv \<Rightarrow> string \<Rightarrow> string \<Rightarrow> machine \<Rightarrow> repair_error + string list" where
  "genuine_collision_ids E scope dir m =
     (let dups = duplicate_ids [scope] (mc_db m); byPath = by_path (scope_tickets scope (mc_db m)) in
      genuine_keys (\<lambda>paths. interrupted_move (reads_now E m) dir (map to_repair_row (rows_for_paths byPath paths))) dups)"

definition archive_row ::
    "sync_env \<Rightarrow> repair_target \<Rightarrow> string list \<Rightarrow> bool \<Rightarrow> ticket \<Rightarrow> string set \<Rightarrow> 'z reported_scheme \<Rightarrow>
     (integrity_error + string set) \<times> 'z reported_scheme" where
  "archive_row V t collided reportDeferred p deferred =
     (let terminal = is_terminal (tk_status p) (custom_statuses (rt_schema t)) in
      if tk_parse_error p then act_return deferred
      else if tk_id p \<in> set collided then
        (if reportDeferred \<and> tk_id p \<notin> deferred
         then act_bind (report (ArchiveDeferred (tk_id p))) (\<lambda>_. act_return (insert (tk_id p) deferred))
         else act_return deferred)
      else if tk_archived p = terminal then act_return deferred
      else
        act_bind (look_at IntegrityPlan (\<lambda>m. archive_move (reads_now (sv_env V) m) (rt_dir t) (to_repair_row p) terminal)) (\<lambda>x.
        act_bind (apply_repair_batch V t [x] (''tk: repair archive layout '' @ tk_id p)) (\<lambda>_.
        act_bind (report (ArchiveMoved (tk_id p) (op_new x))) (\<lambda>_. act_return deferred))))"

definition repair_archive ::
    "sync_env \<Rightarrow> repair_target \<Rightarrow> bool \<Rightarrow> 'z reported_scheme \<Rightarrow> (integrity_error + unit) \<times> 'z reported_scheme" where
  "repair_archive V t reportDeferred =
     act_bind (peek (\<lambda>m. scope_tickets (rt_scope t) (mc_db m))) (\<lambda>rows.
     act_bind (look_at IntegrityPlan (genuine_collision_ids (sv_env V) (rt_scope t) (rt_dir t))) (\<lambda>collided.
     act_bind (each_acc (archive_row V t collided reportDeferred) rows {}) (\<lambda>_. act_return ())))"

section \<open>Foreign id prefixes\<close>

definition split_prefix_ops :: "rw_op list \<Rightarrow> rw_op list \<times> rw_op list" where
  "split_prefix_ops ops = (filter (\<lambda>x. \<not> moved x) ops, filter moved ops)"

definition claimed_ids :: "prefix_rename list \<Rightarrow> string \<Rightarrow> string option" where
  "claimed_ids renames = map_of (rev (concat (map (\<lambda>r. map (\<lambda>old. (old, pr_new_id r)) (pr_claimed r)) renames)))"

definition hold_ticket :: "yaml \<Rightarrow> reads \<Rightarrow> string \<Rightarrow> string \<Rightarrow> integrity_error + string list" where
  "hold_ticket Y rd scope p =
     (let named = (case ticket_id_from_base (path_base p) of
                     Some full \<Rightarrow> if scope_of_full_id full = scope \<and> full \<noteq> [] then [full] else []
                   | None \<Rightarrow> []) in
      case rd p of
        ReadOk data \<Rightarrow>
          (case split_fence data of
             (interior, body, present) \<Rightarrow>
               if \<not> present then Inr named
               else case parse_fm Y interior of
                      Inl e \<Rightarrow> Inr named
                    | Inr m \<Rightarrow>
                        Inr (named @ (if is_full_ticket_id (fm_id m) \<and> scope_of_full_id (fm_id m) = scope then [fm_id m] else [])))
      | _ \<Rightarrow> Inl (IntegrityUnread p))"

fun gather_all :: "('x \<Rightarrow> 'e + 'b list) \<Rightarrow> 'x list \<Rightarrow> 'e + 'b list" where
  "gather_all f [] = Inr []"
| "gather_all f (x # xs) = rbind (f x) (\<lambda>ys. map_sum id ((@) ys) (gather_all f xs))"

definition hold_design :: "design_file \<Rightarrow> string list" where
  "hold_design f =
     filter (\<lambda>i. i \<noteq> []) (df_id f # (case ticket_id_from_base (path_base (df_path f)) of Some full \<Rightarrow> [full] | None \<Rightarrow> []))"

definition held_in :: "sync_env \<Rightarrow> machine \<Rightarrow> string \<times> string \<Rightarrow> integrity_error + string list" where
  "held_in V m entry =
     (case entry of (name, dir) \<Rightarrow>
      case list_tickets (mc_disk m) dir of
        None \<Rightarrow> Inl (IntegrityUnlisted dir)
      | Some paths \<Rightarrow>
          rbind (gather_all (hold_ticket (yaml_of V) (reads_now (sv_env V) m) name) paths) (\<lambda>ids.
          rbind (map_err IntegrityDesigns (design_files (yaml_of V) (mc_disk m) dir name)) (\<lambda>files.
            Inr (ids @ concat (map hold_design files)))))"

definition held_elsewhere :: "sync_env \<Rightarrow> string \<Rightarrow> machine \<Rightarrow> integrity_error + string set" where
  "held_elsewhere V scope m =
     map_sum id set (gather_all (held_in V m) (sort_key fst (filter (\<lambda>(name, dir). name \<noteq> scope) (we_reg (sv_env V)))))"

definition produces_lines :: "(string \<Rightarrow> string option) \<Rightarrow> design_file \<Rightarrow> report_line list" where
  "produces_lines mapped f =
     (case df_model f of
        None \<Rightarrow> []
      | Some fm \<Rightarrow>
          (case produces fm of
             Inl e \<Rightarrow> []
           | Inr ids \<Rightarrow>
               List.map_filter (\<lambda>entry. map_option (EdgeVerifyPrefix (df_id f) edge_produces entry) (mapped entry)) ids))"

definition prefix_produces_lines ::
    "sync_env \<Rightarrow> string \<Rightarrow> (string \<Rightarrow> string option) \<Rightarrow> machine \<Rightarrow> integrity_error + report_line list" where
  "prefix_produces_lines V scope mapped m =
     gather_all (\<lambda>(name, dir).
         map_sum IntegrityDesigns (\<lambda>files. concat (map (produces_lines mapped) (sort_key df_path files)))
           (design_files (yaml_of V) (mc_disk m) dir name))
       (sort_key fst (filter (\<lambda>(name, dir). name \<noteq> scope) (we_reg (sv_env V))))"

text \<open>The lines come in the order of their text.\<close>

definition line_key :: "report_line \<Rightarrow> string" where
  "line_key l =
     (case l of
        EdgeVerifyPrefix fromID kind old newID \<Rightarrow>
          fromID @ '' '' @ kind @ '' '' @ old @ '' '' @ [CHR 0xE2, CHR 0x80, CHR 0x94] @ '' id prefix repaired to '' @ newID @
          '', verify this reference''
      | _ \<Rightarrow> [])"

definition report_prefix_edges ::
    "sync_env \<Rightarrow> prefix_rename list \<Rightarrow> report_line list \<Rightarrow> 'z reported_scheme \<Rightarrow> (integrity_error + unit) \<times> 'z reported_scheme" where
  "report_prefix_edges V renames produced =
     act_bind (reconcile_all V (we_reg (sv_env V))) (\<lambda>_.
     let olds = sort (remdups (concat (map pr_claimed renames))) in
     act_bind (peek (\<lambda>m. concat (map (\<lambda>old.
         List.map_filter (\<lambda>e. if e_kind e = edge_produces then None
             else Some (EdgeVerifyPrefix (e_from_id e) (e_kind e) old (the (claimed_ids renames old)))) (edges_by_target old (mc_db m))) olds))) (\<lambda>lines.
       each report (sort_key line_key (lines @ produced))))"

definition prefix_message :: "prefix_rename list \<Rightarrow> string" where
  "prefix_message renames = ''tk: repair id prefix '' @ go_join '', '' (map (\<lambda>r. pr_old_id r @ '' -> '' @ pr_new_id r) renames)"

definition repair_prefixes :: "sync_env \<Rightarrow> repair_target \<Rightarrow> 'z reported_scheme \<Rightarrow> (integrity_error + unit) \<times> 'z reported_scheme" where
  "repair_prefixes V t =
     act_bind (act_read (\<lambda>s. case prefix_mismatches (mc_disk (rs_machine s)) (rt_dir t) (rt_scope t) of
                               None \<Rightarrow> Inl (IntegrityUnlisted (rt_dir t)) | Some files \<Rightarrow> Inr files)) (\<lambda>mismatched.
     if length mismatched = 0 then act_return ()
     else
       act_bind (look_at id (held_elsewhere V (rt_scope t))) (\<lambda>held.
       act_bind (look_at IntegrityPlan (\<lambda>m. adopt_prefix (yaml_of V) (sv_ext V) (mc_disk m) (reads_now (sv_env V) m)
                   (rt_scope t) (rt_dir t) held)) (\<lambda>(ops, renames).
       if length ops = 0 then act_return ()
       else
         act_bind (look_at id (prefix_produces_lines V (rt_scope t) (claimed_ids renames))) (\<lambda>produced.
         act_bind (on_machine IntegrityApply (run_apply (sv_env V) (fst (split_prefix_ops ops)))) (\<lambda>planted.
         act_bind (each (\<lambda>r. report (RepairedPrefix (pr_old_id r) (pr_new_id r) (pr_new_path r))) renames) (\<lambda>_.
         act_bind (report_prefix_edges V renames produced) (\<lambda>_.
         act_bind (on_machine IntegrityApply (run_apply (sv_env V) (snd (split_prefix_ops ops)))) (\<lambda>unlinked.
           finish_repair_batch V t (planted @ unlinked) (prefix_message renames)))))))))"

section \<open>A run of the repair\<close>

definition run_batches ::
    "sync_env \<Rightarrow> repair_target \<Rightarrow> repair_flags \<Rightarrow> 'z reported_scheme \<Rightarrow> (integrity_error + unit) \<times> 'z reported_scheme" where
  "run_batches V t f =
     act_bind (if rf_repair f then
                 act_bind (repair_prefixes V t) (\<lambda>_.
                 act_bind (repair_archive V t False) (\<lambda>_.
                 act_bind (repair_collisions V t) (\<lambda>_.
                 act_bind (repair_archive V t True) (\<lambda>_. repair_equal_order V t))))
               else act_return ()) (\<lambda>_.
       if rf_respace f then repair_long_order V t else act_return ())"

definition mid_rebase_refusal :: "git_sys \<Rightarrow> string \<Rightarrow> string \<Rightarrow> machine \<Rightarrow> integrity_error" where
  "mid_rebase_refusal S scope root m =
     (let files = unmerged_files S m root;
          place = (if length files > 0 then go_join '', '' files else ''the conflicted file'') in
      IntegrityMidRebase scope root place (mid_merge S m root \<and> \<not> mid_rebase S m root))"

definition repair_preflight ::
    "sync_env \<Rightarrow> string \<Rightarrow> string \<Rightarrow> rec_result \<Rightarrow> repair_flags \<Rightarrow> 'z reported_scheme \<Rightarrow>
     (integrity_error + repair_target option) \<times> 'z reported_scheme" where
  "repair_preflight V scope dir res f =
     (let skip = (\<lambda>l. act_bind (report l) (\<lambda>_. act_return None)); schema = result_schema res scope; S = sv_sys V in
      if scope \<in> rr_unreachable res then skip (SkipUnreachable scope)
      else act_bind (peek (\<lambda>m. (sv_name V m dir, repo_root S dir m))) (\<lambda>(cueName, root).
        if cueName \<noteq> None \<and> cueName \<noteq> Some scope then skip (SkipNameDrift scope (the cueName))
        else if rr_config_errs res scope \<noteq> None then skip (SkipConfig scope)
        else
          let t = \<lparr>rt_scope = scope, rt_dir = dir, rt_schema = schema, rt_auto = schema_auto_commit schema, rt_root = root\<rparr> in
          act_bind (peek (\<lambda>m. case root of None \<Rightarrow> None
                             | Some r \<Rightarrow> if rt_auto t \<and> (mid_rebase S m r \<or> mid_merge S m r) then Some r else None)) (\<lambda>busy.
            case busy of
              None \<Rightarrow> act_return (Some t)
            | Some r \<Rightarrow>
                if \<not> rf_all f then act_read (\<lambda>s. Inl (mid_rebase_refusal S scope r (rs_machine s)))
                else act_bind (peek (\<lambda>m. mid_merge S m r \<and> \<not> mid_rebase S m r)) (\<lambda>merging. skip (SkipMid scope r merging)))))"

definition repair_scope ::
    "sync_env \<Rightarrow> repair_flags \<Rightarrow> string \<times> string \<Rightarrow> 'z reported_scheme \<Rightarrow> (integrity_error + unit) \<times> 'z reported_scheme" where
  "repair_scope V f entry =
     (case entry of (scope, dir) \<Rightarrow>
      act_bind (peek (\<lambda>m. path_exists (mc_disk m) dir)) (\<lambda>there.
        if \<not> there then report (SkipUnreachable scope)
        else
          act_bind (on_machine IntegrityEngine (reconcile_now (sv_env V) [(scope, dir)])) (\<lambda>res.
          act_bind (repair_preflight V scope dir res f) (\<lambda>found.
            case found of None \<Rightarrow> act_return () | Some t \<Rightarrow> run_batches V t f))))"

definition repair_scopes ::
    "sync_env \<Rightarrow> string list \<Rightarrow> repair_flags \<Rightarrow> 'z reported_scheme \<Rightarrow> (integrity_error + unit) \<times> 'z reported_scheme" where
  "repair_scopes V scopes f =
     each (\<lambda>scope. case map_of (we_reg (sv_env V)) scope of
                     None \<Rightarrow> act_return () | Some dir \<Rightarrow> repair_scope V f (scope, dir)) scopes"

end
