(* ===== verification/Conflicts.thy ===== *)
theory Conflicts
  imports Reports IdRepairs Creates
begin

text \<open>
  The merge of one conflicted ticket file, \<open>internal/rebasedriver\<close>: the blobs of its stages are merged as front
  matter and as body, and the file is either staged or left for a human. It runs under the locks of its caller, so
  nothing else moves the machine. The driver keeps the short ids it gave during one rebase.
\<close>

section \<open>Conflicts and outcomes\<close>

record conflict =
  cf_path :: string
  cf_dir :: string
  cf_ours :: string
  cf_theirs :: string
  cf_pre :: string

datatype resolution =
    ClassClean "merge_warning list"
  | ClassBodyConflict "merge_warning list"
  | ClassStatusDispute "string list" "merge_warning list"
  | ClassDeleteEdit side string
  | ClassRename string string string string
  | ClassFailClosed merge_error
  | ClassAmbiguousBase string

fun staged :: "resolution \<Rightarrow> bool" where
  "staged (ClassClean ws) = True"
| "staged (ClassRename old new keep path) = True"
| "staged _ = False"

datatype conflict_error =
    StagesFailed string string
  | NoStages string
  | StageUnread nat string string
  | PreImageParent string string
  | PreImageTree string string
  | PreImagePath string string
  | PreImageBlob string string
  | SchemaFailed string string
  | AuthorFailed side string string
  | TrackedUnlisted string string
  | IdsUnscanned string
  | BodyUnmerged string string
  | MergedUnserialized string string
  | MergedUnwritten string
  | MergedUnstaged string string
  | LoserNoFence string
  | LoserUnparsed string parse_error
  | LoserUnserialized string string
  | AddAddUnwritten string apply_error
  | AddAddUnstaged string string

section \<open>Paths\<close>

text \<open>\<open>filepath.Rel\<close> of absolute clean paths.\<close>

definition path_parts :: "string \<Rightarrow> string list" where
  "path_parts p = filter (\<lambda>w. w \<noteq> []) (split_byte slash p)"

fun drop_common :: "string list \<Rightarrow> string list \<Rightarrow> string list \<times> string list" where
  "drop_common (x # xs) (y # ys) = (if x = y then drop_common xs ys else (x # xs, y # ys))"
| "drop_common xs ys = (xs, ys)"

definition go_rel :: "string \<Rightarrow> string \<Rightarrow> string" where
  "go_rel root p =
     (case drop_common (path_parts root) (path_parts p) of
        (up, down) \<Rightarrow>
          if up = [] \<and> down = [] then ''.'' else go_join [slash] (replicate (length up) ''..'' @ down))"

definition ticket_path_in_scope :: "string \<Rightarrow> string \<Rightarrow> bool" where
  "ticket_path_in_scope scopeRel p \<longleftrightarrow>
     path_dir p = scopeRel \<or> path_dir p = (if scopeRel = ''.'' then archive_dir else path_join scopeRel archive_dir)"

section \<open>The base of a rename\<close>

definition fence_id :: "yaml \<Rightarrow> string \<Rightarrow> string option" where
  "fence_id Y data =
     (case split_fence data of
        (interior, body, present) \<Rightarrow>
          if \<not> present then None
          else case parse_fm Y interior of
                 Inl e \<Rightarrow> None
               | Inr m \<Rightarrow> if is_full_ticket_id (fm_id m) then Some (fm_id m) else None)"

fun lack :: "(string \<Rightarrow> machine \<Rightarrow> 'e + bool) \<Rightarrow> string list \<Rightarrow> machine \<Rightarrow> 'e + bool" where
  "lack has [] m = Inr True"
| "lack has (rv # revs) m = rbind (has rv m) (\<lambda>h. if h then Inr False else lack has revs m)"

definition both_sides_lack :: "git_sys \<Rightarrow> string \<Rightarrow> conflict \<Rightarrow> string \<Rightarrow> machine \<Rightarrow> string + bool" where
  "both_sides_lack S root c path = lack (\<lambda>rv. tree_contains S root rv path) [cf_ours c, cf_theirs c]"

text \<open>The deleted path of the id: \<open>Inr None\<close> is none, \<open>Inr (Some None)\<close> more than one.\<close>

fun scan_bases ::
    "(string \<Rightarrow> conflict_error + bool) \<Rightarrow> string \<Rightarrow> string \<Rightarrow> string option \<Rightarrow> string list \<Rightarrow> conflict_error + string option option" where
  "scan_bases gone scopeRel full mt [] = Inr (map_option Some mt)"
| "scan_bases gone scopeRel full mt (p # ps) =
     (if \<not> ticket_path_in_scope scopeRel p \<or> ticket_id_from_base (path_base p) \<noteq> Some full
      then scan_bases gone scopeRel full mt ps
      else rbind (gone p) (\<lambda>g.
        if \<not> g then scan_bases gone scopeRel full mt ps
        else if mt \<noteq> None then Inr (Some None)
        else scan_bases gone scopeRel full (Some p) ps))"

datatype rename_base = NoBase | Recovered string | Ambiguous string

definition search_base :: "git_sys \<Rightarrow> string \<Rightarrow> conflict \<Rightarrow> string \<Rightarrow> string \<Rightarrow> machine \<Rightarrow> conflict_error + rename_base" where
  "search_base S root c full rv m =
     (let scopeRel = go_rel root (cf_dir c) in
      rbind (map_err (PreImageTree (cf_path c)) (list_tree S root rv scopeRel m)) (\<lambda>paths.
      rbind (scan_bases (\<lambda>p. map_err (PreImagePath p) (both_sides_lack S root c p m)) scopeRel full None paths) (\<lambda>mt.
        case mt of
          None \<Rightarrow> Inr NoBase
        | Some None \<Rightarrow> Inr (Ambiguous full)
        | Some (Some p) \<Rightarrow> map_sum (PreImageBlob (cf_path c)) Recovered (show_blob S root rv p m))))"

definition recover_rename_base ::
    "git_sys \<Rightarrow> yaml \<Rightarrow> string \<Rightarrow> conflict \<Rightarrow> string \<Rightarrow> string \<Rightarrow> machine \<Rightarrow> conflict_error + rename_base" where
  "recover_rename_base S Y root c ours theirs m =
     (if cf_theirs c = [] \<or> cf_ours c = [] then Inr NoBase
      else case fence_id Y ours of
             None \<Rightarrow> Inr NoBase
           | Some full \<Rightarrow>
               if fence_id Y theirs \<noteq> Some full then Inr NoBase
               else if cf_pre c \<noteq> [] then search_base S root c full (cf_pre c) m
               else rbind (map_err (PreImageParent (cf_path c)) (first_parent S root (cf_theirs c) m)) (\<lambda>parent.
                 case parent of None \<Rightarrow> Inr NoBase | Some rv \<Rightarrow> search_base S root c full rv m))"

section \<open>What a conflict loads\<close>

definition read_stage :: "git_sys \<Rightarrow> string \<Rightarrow> bool \<Rightarrow> nat \<Rightarrow> string \<Rightarrow> machine \<Rightarrow> conflict_error + stage" where
  "read_stage S root present n path m =
     (if \<not> present then Inr None else map_sum (StageUnread n path) Some (show_stage S root n path m))"

definition add_short_id :: "string \<Rightarrow> string \<Rightarrow> string option" where
  "add_short_id scope basename =
     (case cut_suffix md_ext basename of
        None \<Rightarrow> None
      | Some stem \<Rightarrow>
          let parts = split_n CHR ''-'' 3 stem in
          if length parts < 2 \<or> parts ! 0 \<noteq> scope \<or> \<not> is_short_id (parts ! 1) then None else Some (parts ! 1))"

definition driver_occupied ::
    "wenv \<Rightarrow> git_sys \<Rightarrow> string \<Rightarrow> string \<Rightarrow> string \<Rightarrow> string set \<Rightarrow> machine \<Rightarrow> conflict_error + string set" where
  "driver_occupied E S root dir scope minted m =
     rbind (map_err (TrackedUnlisted dir) (list_files S root dir m)) (\<lambda>tracked.
       case occupied_short_ids (re_yaml (we_rec E)) (mc_disk m) dir scope of
         None \<Rightarrow> Inl (IdsUnscanned dir)
       | Some onDisk \<Rightarrow> Inr (set (List.map_filter (\<lambda>f. add_short_id scope (path_base f)) tracked) \<union> onDisk \<union> minted))"

definition side_date :: "git_sys \<Rightarrow> string \<Rightarrow> side \<Rightarrow> bool \<Rightarrow> string \<Rightarrow> string \<Rightarrow> machine \<Rightarrow> conflict_error + int" where
  "side_date S root sd present rv path m =
     (if \<not> present then Inr zero_time else map_sum (AuthorFailed sd path) id (author_date S root rv path m))"

section \<open>Writing the result\<close>

definition stage_data :: "stage \<Rightarrow> string" where
  "stage_data s = (case s of None \<Rightarrow> [] | Some d \<Rightarrow> d)"

definition stage_body :: "stage \<Rightarrow> string" where
  "stage_body s = (case split_fence (stage_data s) of (interior, body, present) \<Rightarrow> body)"

definition compose_merged ::
    "wenv \<Rightarrow> git_sys \<Rightarrow> string \<Rightarrow> conflict \<Rightarrow> stage \<Rightarrow> stage \<Rightarrow> stage \<Rightarrow> fm_model \<Rightarrow> merge_warning list \<Rightarrow>
     string list option \<Rightarrow> (conflict_error, resolution) run" where
  "compose_merged E S root c bs ours theirs fm warnings dispute =
     act_bind (act_read (\<lambda>m. map_err (BodyUnmerged (cf_path c))
                               (merge_blobs S (stage_body bs) (stage_body ours) (stage_body theirs)))) (\<lambda>(mergedBody, bodyConflicted).
     act_bind (act_read (\<lambda>m. map_err (MergedUnserialized (cf_path c)) (serialize (re_yaml (we_rec E)) fm))) (\<lambda>interior.
     act_bind (act_lift (\<lambda>e. MergedUnwritten (cf_path c))
                 (atomic_write E (path_join root (cf_path c)) (compose interior mergedBody))) (\<lambda>_.
       case dispute of
         Some pair \<Rightarrow> act_return (ClassStatusDispute pair warnings)
       | None \<Rightarrow>
           if bodyConflicted then act_return (ClassBodyConflict warnings)
           else act_bind (act_lift (MergedUnstaged (cf_path c)) (git_add S root [cf_path c])) (\<lambda>_.
                  act_return (ClassClean warnings)))))"

definition rewrite_id :: "yaml \<Rightarrow> string \<Rightarrow> string \<Rightarrow> string \<Rightarrow> conflict_error + string" where
  "rewrite_id Y path blob newID =
     (case split_fence blob of
        (interior, body, present) \<Rightarrow>
          if \<not> present then Inl (LoserNoFence path)
          else rbind (map_err (LoserUnparsed path) (parse_fm Y interior)) (\<lambda>m.
               rbind (map_err (LoserUnserialized path) (serialize Y (m\<lparr>fm_id := newID\<rparr>))) (\<lambda>ni.
                 Inr (compose ni body))))"

definition apply_rename ::
    "wenv \<Rightarrow> git_sys \<Rightarrow> string \<Rightarrow> conflict \<Rightarrow> stage \<Rightarrow> stage \<Rightarrow> string \<Rightarrow> rename_directive \<Rightarrow> (conflict_error, resolution) run" where
  "apply_rename E S root c ours theirs scope rn =
     (let keepBlob = (if rd_loser rn = SideOurs then stage_data theirs else stage_data ours);
          loserBlob = (if rd_loser rn = SideOurs then stage_data ours else stage_data theirs);
          newID = scope @ ''-'' @ rd_new_short rn;
          absPath = path_join root (cf_path c);
          newPath = path_join (path_dir absPath) (new_basename (path_base absPath) newID);
          newRel = go_rel root newPath in
      act_bind (act_read (\<lambda>m. rewrite_id (re_yaml (we_rec E)) (cf_path c) loserBlob newID)) (\<lambda>loserContent.
      act_bind (act_lift (AddAddUnwritten (cf_path c)) (run_apply E
                  [\<lparr>op_old = absPath, op_new = absPath, op_content = keepBlob\<rparr>,
                   \<lparr>op_old = [], op_new = newPath, op_content = loserContent\<rparr>])) (\<lambda>_.
      act_bind (act_lift (AddAddUnstaged (cf_path c)) (git_add S root [cf_path c, newRel])) (\<lambda>_.
        act_return (ClassRename (rd_collided rn) newID (cf_path c) newRel)))))"

section \<open>Resolve\<close>

definition load_stages :: "git_sys \<Rightarrow> string \<Rightarrow> conflict \<Rightarrow> machine \<Rightarrow> conflict_error + stages \<times> stage \<times> stage \<times> stage" where
  "load_stages S root c m =
     rbind (map_err (StagesFailed (cf_path c)) (conflict_stages S root (cf_path c) m)) (\<lambda>sg.
       if \<not> stages_any sg then Inl (NoStages (cf_path c))
       else rbind (read_stage S root (sg_base sg) 1 (cf_path c) m) (\<lambda>bs.
            rbind (read_stage S root (sg_ours sg) 2 (cf_path c) m) (\<lambda>ours.
            rbind (read_stage S root (sg_theirs sg) 3 (cf_path c) m) (\<lambda>theirs. Inr (sg, bs, ours, theirs)))))"

definition find_base ::
    "git_sys \<Rightarrow> yaml \<Rightarrow> string \<Rightarrow> conflict \<Rightarrow> stage \<Rightarrow> stage \<Rightarrow> stage \<Rightarrow> machine \<Rightarrow> conflict_error + rename_base" where
  "find_base S Y root c bs ours theirs m =
     (if bs = None \<and> ours \<noteq> None \<and> theirs \<noteq> None then recover_rename_base S Y root c (the ours) (the theirs) m else Inr NoBase)"

definition load_meta ::
    "wenv \<Rightarrow> git_sys \<Rightarrow> string \<Rightarrow> conflict \<Rightarrow> stages \<Rightarrow> string set \<Rightarrow> machine \<Rightarrow> conflict_error + schema \<times> merge_meta" where
  "load_meta E S root c sg minted m =
     rbind (case schema_or_error (we_rec E) (cf_dir c) of
              (schema, Some reason) \<Rightarrow> Inl (SchemaFailed (cf_path c) reason) | (schema, None) \<Rightarrow> Inr (the schema)) (\<lambda>sc.
     rbind (side_date S root SideOurs (sg_ours sg) (cf_ours c) (cf_path c) m) (\<lambda>oursDate.
     rbind (side_date S root SideTheirs (sg_theirs sg) (cf_theirs c) (cf_path c) m) (\<lambda>theirsDate.
     rbind (driver_occupied E S root (cf_dir c) (sc_name sc) minted m) (\<lambda>occ.
       Inr (sc, \<lparr>mm_ours_date = oursDate, mm_theirs_date = theirsDate, mm_scope = sc_name sc, mm_occupied = occ\<rparr>)))))"

definition settle ::
    "wenv \<Rightarrow> git_sys \<Rightarrow> string \<Rightarrow> conflict \<Rightarrow> stage \<Rightarrow> stage \<Rightarrow> stage \<Rightarrow> string \<Rightarrow> merge_error + outcome \<Rightarrow> string set \<Rightarrow>
     (conflict_error, resolution \<times> string set) run" where
  "settle E S root c bs ours theirs scope res minted =
     (case res of
        Inl e \<Rightarrow> act_return (ClassFailClosed e, minted)
      | Inr (OutcomeMerged fm ws) \<Rightarrow>
          act_bind (compose_merged E S root c bs ours theirs fm ws None) (\<lambda>r. act_return (r, minted))
      | Inr (OutcomeStatusConflict fm pair ws) \<Rightarrow>
          act_bind (compose_merged E S root c bs ours theirs fm ws (Some pair)) (\<lambda>r. act_return (r, minted))
      | Inr (OutcomeDeleteEdit sd status) \<Rightarrow> act_return (ClassDeleteEdit sd status, minted)
      | Inr (OutcomeRename rn) \<Rightarrow>
          act_bind (apply_rename E S root c ours theirs scope rn) (\<lambda>r. act_return (r, insert (rd_new_short rn) minted)))"

definition resolve ::
    "wenv \<Rightarrow> externals \<Rightarrow> git_sys \<Rightarrow> string \<Rightarrow> conflict \<Rightarrow> string set \<Rightarrow> (conflict_error, resolution \<times> string set) run" where
  "resolve E X S root c minted =
     act_bind (act_read (load_stages S root c)) (\<lambda>(sg, bs0, ours, theirs).
     act_bind (act_read (find_base S (re_yaml (we_rec E)) root c bs0 ours theirs)) (\<lambda>found.
       case found of
         Ambiguous full \<Rightarrow> act_return (ClassAmbiguousBase full, minted)
       | _ \<Rightarrow>
           (let bs = (case found of Recovered data \<Rightarrow> Some data | _ \<Rightarrow> bs0) in
            act_bind (act_read (load_meta E S root c sg minted)) (\<lambda>(sc, mm).
              settle E S root c bs ours theirs (sc_name sc) (merge_frontmatter X bs ours theirs (Some sc) mm) minted))))"


section \<open>Runs\<close>

definition conflict_file :: "string \<Rightarrow> conflict \<Rightarrow> string" where
  "conflict_file root c = path_join root (cf_path c)"

lemma git_add_run:
  "git_add S root ps m = (r, m') \<Longrightarrow> mc_disk m' = mc_disk m \<and> mc_calls m' = mc_calls m @ [GitAdd root ps] \<and> contents m' = contents m"
  by (auto simp: git_add_def log_call_def contents_def fun_eq_iff)

lemma atomic_write_calls: "atomic_write E p d m = (r, m') \<Longrightarrow> mc_calls m' = mc_calls m"
  by (auto simp: atomic_write_def put_file_def make_dir_def split: if_splits)

lemma apply_now_calls: "apply_now E xs m = (r, m') \<Longrightarrow> mc_calls m' = mc_calls m"
proof (induction xs arbitrary: m r)
  case (Cons x xs)
  show ?case
    using Cons.prems
    by (auto simp: apply_now.simps(2) also_touched_def unlink_file_def drop_file_def atomic_write_calls
        split: if_splits option.splits sum.splits prod.splits dest!: Cons.IH atomic_write_calls)
qed simp

definition merged_file ::
    "wenv \<Rightarrow> git_sys \<Rightarrow> stage \<Rightarrow> stage \<Rightarrow> stage \<Rightarrow> fm_model \<Rightarrow> bool \<Rightarrow> string \<Rightarrow> bool" where
  "merged_file E S bs ours theirs fm conflicted data \<longleftrightarrow>
     (\<exists>body interior. merge_blobs S (stage_body bs) (stage_body ours) (stage_body theirs) = Inr (body, conflicted) \<and>
        serialize (re_yaml (we_rec E)) fm = Inr interior \<and> data = compose interior body)"

lemma compose_merged_run:
  assumes "compose_merged E S root c bs ours theirs fm ws dispute m = (Inr r, m')"
  obtains conflicted data where "merged_file E S bs ours theirs fm conflicted data"
    "contents m' = (contents m)(conflict_file root c \<mapsto> data)"
    "r = (case dispute of Some pair \<Rightarrow> ClassStatusDispute pair ws
          | None \<Rightarrow> if conflicted then ClassBodyConflict ws else ClassClean ws)"
    "mc_calls m' = mc_calls m @ (if staged r then [GitAdd root [cf_path c]] else [])"
proof -
  obtain body conflicted interior m1 where b: "merge_blobs S (stage_body bs) (stage_body ours) (stage_body theirs) = Inr (body, conflicted)"
      "serialize (re_yaml (we_rec E)) fm = Inr interior"
      "atomic_write E (conflict_file root c) (compose interior body) m = (Inr (), m1)"
    and rest: "(case dispute of Some pair \<Rightarrow> act_return (ClassStatusDispute pair ws)
       | None \<Rightarrow> if conflicted then act_return (ClassBodyConflict ws)
           else act_bind (act_lift (MergedUnstaged (cf_path c)) (git_add S root [cf_path c])) (\<lambda>_. act_return (ClassClean ws))) m1 = (Inr r, m')"
    using assms
    by (auto simp: compose_merged_def act_read_iff map_err_Inr act_bind_Inr act_lift_Inr conflict_file_def split: prod.splits)
  have m1: "contents m1 = (contents m)(conflict_file root c \<mapsto> compose interior body)" "mc_calls m1 = mc_calls m"
    using atomic_write_contents [OF b(3)] atomic_write_calls [OF b(3)] by auto
  have "merged_file E S bs ours theirs fm conflicted (compose interior body)"
    using b by (auto simp: merged_file_def)
  moreover have "r = (case dispute of Some pair \<Rightarrow> ClassStatusDispute pair ws | None \<Rightarrow> if conflicted then ClassBodyConflict ws else ClassClean ws) \<and>
      contents m' = contents m1 \<and> mc_calls m' = mc_calls m1 @ (if staged r then [GitAdd root [cf_path c]] else [])"
    using rest by (cases dispute) (auto simp: act_return_iff act_bind_Inr act_lift_Inr split: if_splits dest!: git_add_run)
  ultimately show thesis using m1 by (intro that) simp_all
qed

text \<open>The two files of an add on both sides.\<close>

definition rename_files ::
    "wenv \<Rightarrow> string \<Rightarrow> conflict \<Rightarrow> stage \<Rightarrow> stage \<Rightarrow> string \<Rightarrow> rename_directive \<Rightarrow> string \<Rightarrow> string \<Rightarrow> string \<Rightarrow> bool" where
  "rename_files E root c ours theirs scope rn kept newPath loser' \<longleftrightarrow>
     (\<exists>lost. (kept, lost) = (if rd_loser rn = SideOurs then (stage_data theirs, stage_data ours) else (stage_data ours, stage_data theirs)) \<and>
        newPath = path_join (path_dir (conflict_file root c))
                    (new_basename (path_base (conflict_file root c)) (scope @ ''-'' @ rd_new_short rn)) \<and>
        rewrite_id (re_yaml (we_rec E)) (cf_path c) lost (scope @ ''-'' @ rd_new_short rn) = Inr loser')"

lemma apply_rename_run:
  assumes "apply_rename E S root c ours theirs scope rn m = (Inr r, m')"
  obtains kept newPath loser' where "rename_files E root c ours theirs scope rn kept newPath loser'"
    "contents m' = (contents m)(conflict_file root c \<mapsto> kept, newPath \<mapsto> loser')"
    "((contents m)(conflict_file root c \<mapsto> kept)) newPath \<in> {None, Some loser'}"
    "r = ClassRename (rd_collided rn) (scope @ ''-'' @ rd_new_short rn) (cf_path c) (go_rel root newPath)"
    "mc_calls m' = mc_calls m @ [GitAdd root [cf_path c, go_rel root newPath]]"
proof -
  define kept where "kept = (if rd_loser rn = SideOurs then stage_data theirs else stage_data ours)"
  define lost where "lost = (if rd_loser rn = SideOurs then stage_data ours else stage_data theirs)"
  define newID where "newID = scope @ ''-'' @ rd_new_short rn"
  define newPath where "newPath = path_join (path_dir (conflict_file root c)) (new_basename (path_base (conflict_file root c)) newID)"
  obtain loser' t m1 where l: "rewrite_id (re_yaml (we_rec E)) (cf_path c) lost newID = Inr loser'"
    and a: "apply_now E [\<lparr>op_old = conflict_file root c, op_new = conflict_file root c, op_content = kept\<rparr>,
                         \<lparr>op_old = [], op_new = newPath, op_content = loser'\<rparr>] m = ((None, t), m1)"
    and g: "git_add S root [cf_path c, go_rel root newPath] m1 = (Inr (), m')"
    and r: "r = ClassRename (rd_collided rn) newID (cf_path c) (go_rel root newPath)"
    using assms unfolding apply_rename_def Let_def bind_read_Inr
    unfolding kept_def [symmetric] lost_def [symmetric] newID_def [symmetric] conflict_file_def [symmetric] newPath_def [symmetric]
    by (auto simp: act_bind_Inr act_lift_Inr run_apply_Inr act_return_iff)
  from a obtain m2 t2 where m2: "contents m2 = (contents m)(conflict_file root c \<mapsto> kept)"
    and a2: "apply_now E [\<lparr>op_old = [], op_new = newPath, op_content = loser'\<rparr>] m2 = ((None, t2), m1)"
    by (rule apply_now_cases) (auto simp: moved_def)
  from a2 have "contents m1 = (contents m2)(newPath \<mapsto> loser')" "free_now E \<lparr>op_old = [], op_new = newPath, op_content = loser'\<rparr> m2 = None"
    by (atomize (full), cases rule: apply_now_cases) (auto simp: moved_def newPath_def path_join_def)
  moreover from this(2) have "contents m2 newPath \<in> {None, Some loser'}"
    by (auto simp: free_now_def contents_def split: option.splits if_splits)
  ultimately show thesis
    using l r git_add_run [OF g] apply_now_calls [OF a] m2
    by (intro that [of kept newPath loser']) (auto simp: rename_files_def kept_def lost_def newID_def newPath_def)
qed

section \<open>What a resolve does\<close>

lemma resolve_cases:
  assumes "resolve E X S root c minted m = (Inr (r, minted'), m')"
  obtains (ambiguous) full where "r = ClassAmbiguousBase full" "minted' = minted" "m' = m"
  | (merged) sg bs0 bs ours theirs sc mm where "load_stages S root c m = Inr (sg, bs0, ours, theirs)"
      "bs = bs0 \<or> bs0 = None \<and> ours \<noteq> None \<and> theirs \<noteq> None"
      "load_meta E S root c sg minted m = Inr (sc, mm)"
      "settle E S root c bs ours theirs (sc_name sc) (merge_frontmatter X bs ours theirs (Some sc) mm) minted m = (Inr (r, minted'), m')"
proof -
  obtain sg bs0 ours theirs found where l: "load_stages S root c m = Inr (sg, bs0, ours, theirs)"
    and f: "find_base S (re_yaml (we_rec E)) root c bs0 ours theirs m = Inr found"
    and rest: "(case found of Ambiguous full \<Rightarrow> act_return (ClassAmbiguousBase full, minted)
       | _ \<Rightarrow> (let bs = (case found of Recovered data \<Rightarrow> Some data | _ \<Rightarrow> bs0) in
            act_bind (act_read (load_meta E S root c sg minted)) (\<lambda>(sc, mm).
              settle E S root c bs ours theirs (sc_name sc) (merge_frontmatter X bs ours theirs (Some sc) mm) minted))) m = (Inr (r, minted'), m')"
    using assms unfolding resolve_def bind_read_Inr split_paired_Ex prod.case by blast
  have absent: "bs0 = None \<and> ours \<noteq> None \<and> theirs \<noteq> None" if "found \<noteq> NoBase"
    using f that by (auto simp: find_base_def split: if_splits)
  show thesis
  proof (cases found)
    case (Ambiguous full)
    with rest show thesis by (intro ambiguous) (simp_all add: act_return_iff)
  next
    case NoBase
    with rest obtain sc mm where s: "load_meta E S root c sg minted m = Inr (sc, mm)"
        "settle E S root c bs0 ours theirs (sc_name sc) (merge_frontmatter X bs0 ours theirs (Some sc) mm) minted m = (Inr (r, minted'), m')"
      unfolding rename_base.case Let_def bind_read_Inr split_paired_Ex prod.case by (simp add: bind_read_Inr) blast
    show thesis by (rule merged [OF l disjI1 [OF refl] s])
  next
    case (Recovered data)
    with rest obtain sc mm where s: "load_meta E S root c sg minted m = Inr (sc, mm)"
        "settle E S root c (Some data) ours theirs (sc_name sc) (merge_frontmatter X (Some data) ours theirs (Some sc) mm) minted m = (Inr (r, minted'), m')"
      unfolding rename_base.case Let_def bind_read_Inr split_paired_Ex prod.case by (simp add: bind_read_Inr) blast
    have "bs0 = None \<and> ours \<noteq> None \<and> theirs \<noteq> None" using absent Recovered by simp
    from merged [OF l disjI2 [OF this] s] show thesis .
  qed
qed

text \<open>How the run of one class looks.\<close>

definition settled ::
    "wenv \<Rightarrow> git_sys \<Rightarrow> string \<Rightarrow> conflict \<Rightarrow> stage \<Rightarrow> stage \<Rightarrow> stage \<Rightarrow> string \<Rightarrow> merge_error + outcome \<Rightarrow>
     resolution \<Rightarrow> machine \<Rightarrow> machine \<Rightarrow> bool" where
  "settled E S root c bs ours theirs scope res r m m' \<longleftrightarrow>
     (case r of
        ClassClean ws \<Rightarrow> \<exists>fm data. res = Inr (OutcomeMerged fm ws) \<and> merged_file E S bs ours theirs fm False data \<and>
          contents m' = (contents m)(conflict_file root c \<mapsto> data)
      | ClassBodyConflict ws \<Rightarrow> \<exists>fm data. res = Inr (OutcomeMerged fm ws) \<and> merged_file E S bs ours theirs fm True data \<and>
          contents m' = (contents m)(conflict_file root c \<mapsto> data)
      | ClassStatusDispute pair ws \<Rightarrow> \<exists>fm conflicted data. res = Inr (OutcomeStatusConflict fm pair ws) \<and>
          merged_file E S bs ours theirs fm conflicted data \<and> contents m' = (contents m)(conflict_file root c \<mapsto> data)
      | ClassRename old newID keep path \<Rightarrow> \<exists>rn kept newPath loser'. res = Inr (OutcomeRename rn) \<and>
          rename_files E root c ours theirs scope rn kept newPath loser' \<and>
          contents m' = (contents m)(conflict_file root c \<mapsto> kept, newPath \<mapsto> loser') \<and>
          ((contents m)(conflict_file root c \<mapsto> kept)) newPath \<in> {None, Some loser'} \<and>
          old = rd_collided rn \<and> newID = scope @ ''-'' @ rd_new_short rn \<and> keep = cf_path c \<and> path = go_rel root newPath
      | ClassDeleteEdit sd status \<Rightarrow> res = Inr (OutcomeDeleteEdit sd status) \<and> m' = m
      | ClassFailClosed e \<Rightarrow> res = Inl e \<and> m' = m
      | ClassAmbiguousBase full \<Rightarrow> False)"

definition added_paths :: "conflict \<Rightarrow> resolution \<Rightarrow> string list" where
  "added_paths c r = cf_path c # (case r of ClassRename old newID keep path \<Rightarrow> [path] | _ \<Rightarrow> [])"

lemma settle_run:
  assumes "settle E S root c bs ours theirs scope res minted m = (Inr (r, minted'), m')"
  shows "settled E S root c bs ours theirs scope res r m m'"
    and "mc_calls m' = mc_calls m @ (if staged r then [GitAdd root (added_paths c r)] else [])"
    and "minted' = (case res of Inr (OutcomeRename rn) \<Rightarrow> insert (rd_new_short rn) minted | _ \<Rightarrow> minted)"
proof -
  have all: "settled E S root c bs ours theirs scope res r m m' \<and>
      mc_calls m' = mc_calls m @ (if staged r then [GitAdd root (added_paths c r)] else []) \<and>
      minted' = (case res of Inr (OutcomeRename rn) \<Rightarrow> insert (rd_new_short rn) minted | _ \<Rightarrow> minted)"
  proof (cases res)
    case (Inl e)
    with assms show ?thesis by (auto simp: settle_def act_return_iff settled_def)
  next
    case (Inr out)
    show ?thesis
    proof (cases out)
      case (OutcomeMerged fm ws)
      with Inr assms have run: "compose_merged E S root c bs ours theirs fm ws None m = (Inr r, m')" and "minted' = minted"
        by (auto simp: settle_def act_bind_Inr act_return_iff)
      then show ?thesis
        by (rule_tac compose_merged_run [OF run]) (auto simp: Inr OutcomeMerged settled_def added_paths_def split: if_splits)
    next
      case (OutcomeStatusConflict fm pair ws)
      with Inr assms have run: "compose_merged E S root c bs ours theirs fm ws (Some pair) m = (Inr r, m')" and "minted' = minted"
        by (auto simp: settle_def act_bind_Inr act_return_iff)
      then show ?thesis
        by (rule_tac compose_merged_run [OF run]) (auto simp: Inr OutcomeStatusConflict settled_def)
    next
      case (OutcomeRename rn)
      with Inr assms have run: "apply_rename E S root c ours theirs scope rn m = (Inr r, m')" and minted: "minted' = insert (rd_new_short rn) minted"
        by (auto simp: settle_def act_bind_Inr act_return_iff)
      from run show ?thesis
      proof (rule apply_rename_run)
        fix kept newPath loser'
        assume "rename_files E root c ours theirs scope rn kept newPath loser'"
          "contents m' = (contents m)(conflict_file root c \<mapsto> kept, newPath \<mapsto> loser')"
          "((contents m)(conflict_file root c \<mapsto> kept)) newPath \<in> {None, Some loser'}"
          "r = ClassRename (rd_collided rn) (scope @ ''-'' @ rd_new_short rn) (cf_path c) (go_rel root newPath)"
          "mc_calls m' = mc_calls m @ [GitAdd root [cf_path c, go_rel root newPath]]"
        with Inr OutcomeRename minted show ?thesis
          unfolding settled_def added_paths_def resolution.case by (simp del: fun_upd_apply) blast
      qed
    next
      case (OutcomeDeleteEdit sd status)
      with Inr assms show ?thesis by (auto simp: settle_def act_return_iff settled_def)
    qed
  qed
  from all show "settled E S root c bs ours theirs scope res r m m'"
    and "mc_calls m' = mc_calls m @ (if staged r then [GitAdd root (added_paths c r)] else [])"
    and "minted' = (case res of Inr (OutcomeRename rn) \<Rightarrow> insert (rd_new_short rn) minted | _ \<Rightarrow> minted)" by blast+
qed


lemma resolve_staging:
  assumes "resolve E X S root c minted m = (Inr (r, minted'), m')"
  shows "mc_calls m' = mc_calls m @ (if staged r then [GitAdd root (added_paths c r)] else [])"
  using assms by (cases rule: resolve_cases) (auto dest: settle_run(2))

section \<open>What is left for a human\<close>


section \<open>An id added on both sides\<close>

lemma add_add_Rename:
  assumes "merge_frontmatter X bs ours theirs (Some sc) mm = Inr (OutcomeRename rn)"
  obtains om tm where "load_stage X ours = Inr (Some om)" "load_stage X theirs = Inr (Some tm)"
    "fm_id om = rd_collided rn" "fm_id tm = rd_collided rn" "is_full_ticket_id (rd_collided rn)"
    "Ids.extend (short_of_full (rd_collided rn)) (mm_occupied mm) = Inr (rd_new_short rn)"
  using assms
  by (auto simp: merge_frontmatter_def rbind_Inr_iff add_add_def three_way_def Let_def
      split: option.splits if_splits sum.splits prod.splits)

lemma load_stage_parts:
  assumes "load_stage X s = Inr (Some fm)"
  obtains data interior body where "s = Some data" "split_fence data = (interior, body, True)" "parse_fm (x_yaml X) interior = Inr fm"
  using assms by (auto simp: load_stage_def split: option.splits if_splits prod.splits sum.splits)

lemma rewrite_id_parts:
  assumes "rewrite_id Y path blob newID = Inr out" "split_fence blob = (interior, body, True)" "parse_fm Y interior = Inr fm"
  obtains ni where "serialize Y (fm\<lparr>fm_id := newID\<rparr>) = Inr ni" "out = compose ni body"
  using assms by (auto simp: rewrite_id_def rbind_Inr_iff map_err_Inr)

lemma load_meta_parts:
  assumes "load_meta E S root c sg minted m = Inr (sc, mm)"
  obtains onDisk where "re_config (we_rec E) (cf_dir c) = Inr sc"
    "occupied_short_ids (re_yaml (we_rec E)) (mc_disk m) (cf_dir c) (sc_name sc) = Some onDisk"
    "onDisk \<union> minted \<subseteq> mm_occupied mm"
proof -
  have "\<exists>onDisk. re_config (we_rec E) (cf_dir c) = Inr sc \<and>
      occupied_short_ids (re_yaml (we_rec E)) (mc_disk m) (cf_dir c) (sc_name sc) = Some onDisk \<and> onDisk \<union> minted \<subseteq> mm_occupied mm"
    using assms
    by (auto simp: load_meta_def driver_occupied_def schema_or_error_def rbind_Inr_iff map_err_Inr split: sum.splits option.splits prod.splits)
  then show thesis using that by blast
qed

text \<open>C7. An id added on both sides: nothing is lost. One side keeps the id and its bytes at the conflicted path; the
  other moves, with its body and every field but the id, to a path that was free, under a new id that no file of the
  scope and no earlier conflict of this rebase has. No other file changes, and both files are staged.
\<close>
theorem add_add_keeps_both:
  assumes run: "resolve E X S root c minted m = (Inr (ClassRename old newID keep path, minted'), m')"
    and yaml: "re_yaml (we_rec E) = x_yaml X"
    and scope: "re_config (we_rec E) (cf_dir c) = Inr sc" "is_scope_name (sc_name sc)"
    and disk: "disk_ok (mc_disk m)" "archive_listed (cf_dir c) (mc_disk m)" "cf_dir c \<in> set (dk_dirs (mc_disk m))"
    and place: "path_dir (conflict_file root c) = cf_dir c \<or> path_dir (conflict_file root c) = path_join (cf_dir c) archive_dir"
    and there: "disk_file (mc_disk m) (conflict_file root c) \<noteq> None"
  shows "\<exists>ours theirs kept lost interior body fm ni short newPath.
      (\<exists>sg bs. load_stages S root c m = Inr (sg, bs, Some ours, Some theirs)) \<and>
      ((kept, lost) = (ours, theirs) \<or> (kept, lost) = (theirs, ours)) \<and>
      split_fence lost = (interior, body, True) \<and> parse_fm (x_yaml X) interior = Inr fm \<and> fm_id fm = old \<and>
      serialize (x_yaml X) (fm\<lparr>fm_id := newID\<rparr>) = Inr ni \<and>
      newID = full_id (sc_name sc) short \<and> is_short_id short \<and> short \<notin> minted \<and> minted' = insert short minted \<and>
      holders (x_yaml X) (mc_disk m) (cf_dir c) (sc_name sc) short = {} \<and>
      path = go_rel root newPath \<and> contents m newPath = None \<and> newPath \<noteq> conflict_file root c \<and>
      contents m' = (contents m)(conflict_file root c \<mapsto> kept, newPath \<mapsto> compose ni body) \<and>
      mc_calls m' = mc_calls m @ [GitAdd root [cf_path c, path]]"
  using run
proof (cases rule: resolve_cases)
  case (merged sg bs0 bs ours theirs sc1 mm)
  note st = settle_run [OF merged(4)]
  obtain rn kept newPath loser' where res: "merge_frontmatter X bs ours theirs (Some sc1) mm = Inr (OutcomeRename rn)"
    and files: "rename_files E root c ours theirs (sc_name sc1) rn kept newPath loser'"
    and c': "contents m' = (contents m)(conflict_file root c \<mapsto> kept, newPath \<mapsto> loser')"
    and ids: "old = rd_collided rn" "newID = sc_name sc1 @ ''-'' @ rd_new_short rn" "path = go_rel root newPath"
    using st(1) unfolding settled_def resolution.case by blast
  obtain onDisk where meta: "re_config (we_rec E) (cf_dir c) = Inr sc1"
      "occupied_short_ids (x_yaml X) (mc_disk m) (cf_dir c) (sc_name sc1) = Some onDisk" "onDisk \<union> minted \<subseteq> mm_occupied mm"
    using load_meta_parts [OF merged(3)] yaml by metis
  have sc1: "sc1 = sc" using meta(1) scope(1) by simp
  from res obtain om tm where am: "load_stage X ours = Inr (Some om)" "load_stage X theirs = Inr (Some tm)"
      "fm_id om = old" "fm_id tm = old" "Ids.extend (short_of_full old) (mm_occupied mm) = Inr (rd_new_short rn)"
    unfolding ids by (rule add_add_Rename)
  obtain oD oi ob where o: "ours = Some oD" "split_fence oD = (oi, ob, True)" "parse_fm (x_yaml X) oi = Inr om"
    using am(1) by (rule load_stage_parts)
  obtain tD ti tb where t: "theirs = Some tD" "split_fence tD = (ti, tb, True)" "parse_fm (x_yaml X) ti = Inr tm"
    using am(2) by (rule load_stage_parts)
  have short: "is_short_id (rd_new_short rn)" "rd_new_short rn \<notin> onDisk" "rd_new_short rn \<notin> minted"
    using extend_Inr [OF am(5)] meta(3) by auto
  have newID: "newID = full_id (sc_name sc) (rd_new_short rn)" by (simp add: ids sc1 full_id_def)
  have free: "holders (x_yaml X) (mc_disk m) (cf_dir c) (sc_name sc) (rd_new_short rn) = {}"
    using occupied_free [OF meta(2) short(2)] sc1 by simp
  obtain lost where l: "(kept, lost) = (if rd_loser rn = SideOurs then (tD, oD) else (oD, tD))"
      "newPath = path_join (path_dir (conflict_file root c)) (new_basename (path_base (conflict_file root c)) newID)"
      "rewrite_id (x_yaml X) (cf_path c) lost newID = Inr loser'"
    using files unfolding rename_files_def o(1) t(1) stage_data_def option.case yaml ids(2) by metis
  obtain li lb fm where lost: "split_fence lost = (li, lb, True)" "parse_fm (x_yaml X) li = Inr fm" "fm_id fm = old"
    using l(1) o t am(3,4) by (cases "rd_loser rn = SideOurs") auto
  obtain ni where ni: "serialize (x_yaml X) (fm\<lparr>fm_id := newID\<rparr>) = Inr ni" "loser' = compose ni lb"
    using rewrite_id_parts [OF l(3) lost(1,2)] .
  have "slashless (new_basename (path_base (conflict_file root c)) newID)"
    unfolding newID by (rule new_basename_slashless [OF slashless_base scope(2) short(1)])
  from unheld_name [OF free disk minted_short [OF scope(2) short(1)] this [unfolded newID] place]
  have gone: "disk_file (mc_disk m) newPath = None" by (simp add: l(2) newID)
  with there have ne: "newPath \<noteq> conflict_file root c" by auto
  have calls: "mc_calls m' = mc_calls m @ [GitAdd root [cf_path c, path]]" using st(2) by (simp add: added_paths_def)
  have minted: "minted' = insert (rd_new_short rn) minted" using st(3) res by simp
  have stages: "\<exists>sg bs. load_stages S root c m = Inr (sg, bs, Some oD, Some tD)" using merged(1) o(1) t(1) by blast
  have sides: "(kept, lost) = (oD, tD) \<or> (kept, lost) = (tD, oD)" using l(1) by (auto split: if_splits)
  have none: "contents m newPath = None" using gone by (simp add: contents_def)
  have files: "contents m' = (contents m)(conflict_file root c \<mapsto> kept, newPath \<mapsto> compose ni lb)" using c' ni(2) by simp
  show ?thesis
    by (rule exI [of _ oD], rule exI [of _ tD], rule exI [of _ kept], rule exI [of _ lost], rule exI [of _ li], rule exI [of _ lb],
        rule exI [of _ fm], rule exI [of _ ni], rule exI [of _ "rd_new_short rn"], rule exI [of _ newPath])
      (intro conjI; fact stages sides lost ni(1) newID short(1,3) minted free ids(3) none ne files calls)
qed simp

section \<open>A conflict\<close>

definition answered :: "string \<Rightarrow> git_exit" where
  "answered out = \<lparr>gx_code = 0, gx_out = out, gx_err = [], gx_text = []\<rparr>"

definition scripted :: "(string list \<times> string) list \<Rightarrow> git_sys" where
  "scripted script =
     \<lparr>gs_answer = (\<lambda>m root env args. case map_of script args of
          Some out \<Rightarrow> answered out | None \<Rightarrow> \<lparr>gx_code = 128, gx_out = [], gx_err = ''fatal'', gx_text = ''exit status 128''\<rparr>),
      gs_after = (\<lambda>m root args. mc_disk m), gs_merge_file = (\<lambda>b x y. Inr (answered x)), gs_time = (\<lambda>t. None),
      gs_state = (\<lambda>root. ''/state'')\<rparr>"

definition both_table :: "(fm_model \<times> string) list" where
  "both_table =
     [(doc_ticket ''app-ab23'' ''todo'' ''t0'' ''a0'', line_of ''A''), (doc_ticket ''app-ab23'' ''review'' ''t1'' ''a0'', line_of ''B''),
      (doc_ticket ''app-ab23a'' ''todo'' ''t0'' ''a0'', line_of ''C''), (doc_ticket ''app-ab23a'' ''review'' ''t1'' ''a0'', line_of ''D'')]"

definition both_git :: git_sys where
  "both_git = scripted
     [([''ls-files'', ''-u'', ''--'', ''app-ab23-x.md''],
         ''100644 h 2'' @ CHR 0x09 # ''app-ab23-x.md'' @ newline # ''100644 h 3'' @ CHR 0x09 # ''app-ab23-x.md'' @ [newline]),
      ([''show'', '':2:app-ab23-x.md''], compose (line_of ''A'') ''x''), ([''show'', '':3:app-ab23-x.md''], compose (line_of ''B'') ''y''),
      ([''log'', ''-1'', ''--format=%aI'', [], ''--'', ''app-ab23-x.md''], []),
      ([''ls-files'', ''--'', ''/s''], line_of ''app-ab23-x.md''), ([''add'', ''--'', ''app-ab23-x.md'', ''app-ab23a-x.md''], [])]"

definition both_conflict :: conflict where
  "both_conflict = \<lparr>cf_path = ''app-ab23-x.md'', cf_dir = ''/s'', cf_ours = [], cf_theirs = [], cf_pre = []\<rparr>"

definition both_ext :: externals where
  "both_ext = \<lparr>x_yaml = table_codec both_table, x_sha = (\<lambda>s. s), x_rfc3339 = (\<lambda>s. None)\<rparr>"

abbreviation both_machine :: machine where
  "both_machine \<equiv> machine_of [(''/s/app-ab23-x.md'', ''<<<<<<<'')]"

abbreviation both_run :: "(conflict_error + resolution \<times> string set) \<times> machine" where
  "both_run \<equiv> resolve (table_env both_table plain_schema) both_ext both_git ''/s'' both_conflict {} both_machine"

lemma both_resolved: "fst both_run = Inr (ClassRename ''app-ab23'' ''app-ab23a'' ''app-ab23-x.md'' ''app-ab23a-x.md'', {''ab23a''})"
  by code_simp

lemma both_runs:
  "both_run = (Inr (ClassRename ''app-ab23'' ''app-ab23a'' ''app-ab23-x.md'' ''app-ab23a-x.md'', {''ab23a''}), snd both_run)"
  using both_resolved by (metis prod.collapse)


theorem add_add_keeps_both_witness:
  "contents (snd both_run) ''/s/app-ab23-x.md'' \<noteq> None \<and> (\<exists>p. p \<noteq> ''/s/app-ab23-x.md'' \<and> contents (snd both_run) p \<noteq> None)"
proof -
  have "re_yaml (we_rec (table_env both_table plain_schema)) = x_yaml both_ext"
    "re_config (we_rec (table_env both_table plain_schema)) (cf_dir both_conflict) = Inr plain_schema"
    by (simp_all add: table_env_def both_ext_def)
  moreover have "is_scope_name (sc_name plain_schema)" "disk_ok (mc_disk both_machine)" "archive_listed (cf_dir both_conflict) (mc_disk both_machine)"
    "cf_dir both_conflict \<in> set (dk_dirs (mc_disk both_machine))" "path_dir (conflict_file ''/s'' both_conflict) = cf_dir both_conflict"
    "disk_file (mc_disk both_machine) (conflict_file ''/s'' both_conflict) \<noteq> None" "conflict_file ''/s'' both_conflict = ''/s/app-ab23-x.md''"
    by code_simp+
  ultimately obtain kept newPath out where "newPath \<noteq> ''/s/app-ab23-x.md''"
      "contents (snd both_run) = (contents both_machine)(''/s/app-ab23-x.md'' \<mapsto> kept, newPath \<mapsto> out)"
    using add_add_keeps_both [OF both_runs] by metis
  then show ?thesis by auto
qed

end
