(* ===== verification/Merges.thy ===== *)
theory Merges
  imports Integrity Conflicts
begin

text \<open>
  The integration of a git root with its upstream, \<open>internal/syncengine/integrate.go\<close> and \<open>snapshot.go\<close>: fetch,
  classify, take a snapshot at the right moment, fast-forward or merge, and drive the conflicts of a stop. An
  \<open>integrateError\<close> is a fault of the run; the answer of an integration that did not fail is whether it paused.
\<close>

section \<open>State and faults\<close>

datatype pause_mode = PauseRebase | PauseMerge

record sync_state = reported +
  ss_minted :: "string set"
  ss_snapshot :: nat
  ss_residue :: nat
  ss_collided :: "string list"
  ss_pushed :: bool
  ss_unpushed :: int
  ss_pause :: pause_mode

datatype sync_fault =
    FetchFailed string
  | UpstreamUnclassified string
  | NotParticipant string
  | DirtyUnlisted string
  | SnapshotUncommitted commit_error
  | FastForwardFailed string
  | FastForwardRefused "string list"
  | MergeFailed string
  | MergeRefused "string list"
  | MergeInterrupted string
  | MergeUncommitted string
  | StagesUnlisted string string
  | SidesUnresolved string
  | ResolveFailed conflict_error
  | SurvivorUnread string string
  | WorktreeUnread string
  | StageFailed string string
  | ContinueFailed string
  | SyncReconcileFailed write_error
  | IntegrityFailed integrity_error
  | CountFailed string
  | PushFailed string
  | SelectReconcileFailed write_error
  | SyncUnreachable string string
  | SyncConfig string string
  | NotAutoCommit string bool
  | MidRebaseRefused
  | MidMergeRefused
  | NoUpstream string
  | Preflight

type_synonym 'a sync = "sync_state \<Rightarrow> (sync_fault + 'a) \<times> sync_state"

record target =
  tg_root :: string
  tg_parts :: "(string \<times> string) list"
  tg_snap :: string

section \<open>Snapshots\<close>

text \<open>A dirty path with its porcelain code and the scope that owns it.\<close>

type_synonym dirty_path = "string \<times> string \<times> string \<times> string"

definition snapshot_parts :: "target \<Rightarrow> sync_fault + (string \<times> string) list" where
  "snapshot_parts t =
     (if tg_snap t = [] then Inr []
      else case find (\<lambda>(name, dir). name = tg_snap t) (tg_parts t) of
             None \<Rightarrow> Inl (NotParticipant (tg_snap t))
           | Some p \<Rightarrow> Inr [p])"

definition lock_name :: string where "lock_name = ''.tk.lock''"

definition skip_snapshot_path :: "string \<Rightarrow> bool" where
  "skip_snapshot_path p \<longleftrightarrow> path_base p = lock_name"

definition parse_ticket_basename :: "string \<Rightarrow> string \<times> string" where
  "parse_ticket_basename base =
     (let stem = trim_suffix md_ext base; parts = split_n CHR ''-'' 3 stem in
      if length parts < 2 then (stem, [])
      else (parts ! 0 @ ''-'' @ parts ! 1, if length parts = 3 then parts ! 2 else []))"

definition snapshot_message :: "dirty_path list \<Rightarrow> string" where
  "snapshot_message dirty =
     (case dirty of
        [(path, code, scope, dir)] \<Rightarrow>
          (let base = path_base path in
           if base = ''tk.cue'' then ''tk: config '' @ scope
           else if base = ''.gitignore'' then ''tk: gitignore '' @ scope
           else case note_slug path dir of
                  Some slug \<Rightarrow> ''tk: note '' @ scope @ '' '' @ slug
                | None \<Rightarrow>
                    (case design_full_id path dir of
                       Some full \<Rightarrow> ''tk: design '' @ scope @ '' '' @ full
                     | None \<Rightarrow>
                         (case parse_ticket_basename base of
                            (full, slug) \<Rightarrow>
                              if CHR ''D'' \<in> set code then ''tk: remove '' @ full
                              else if code = ''??'' then
                                (if slug \<noteq> [] then ''tk: add '' @ full @ '' '' @ slug else ''tk: add '' @ full)
                              else ''tk: edit '' @ full)))
      | _ \<Rightarrow> ''tk: sync '' @ show_nat (length dirty) @ '' path(s)'')"

definition snapshot_part :: "sync_env \<Rightarrow> target \<Rightarrow> string \<times> string \<Rightarrow> dirty_path list \<Rightarrow> dirty_path list sync" where
  "snapshot_part V t part acc =
     (case part of (name, dir) \<Rightarrow>
      act_bind (look_at DirtyUnlisted (dirty_entries (sv_sys V) (tg_root t) dir)) (\<lambda>entries.
      let seen = filter (\<lambda>e. \<not> skip_snapshot_path (de_path e)) entries;
          taken = filter (\<lambda>e. is_allowlisted (de_path e) dir) seen;
          residue = filter (\<lambda>e. \<not> is_allowlisted (de_path e) dir) seen in
      act_bind (if length residue > 0
                then act_bind (\<lambda>s. (Inr (), s\<lparr>ss_residue := ss_residue s + length residue\<rparr>)) (\<lambda>_.
                       report (NotAllowlisted (length residue) dir (map de_path residue)))
                else act_return ()) (\<lambda>_.
        act_return (acc @ map (\<lambda>e. (de_path e, de_code e, name, dir)) taken))))"

definition snapshot :: "sync_env \<Rightarrow> target \<Rightarrow> unit sync" where
  "snapshot V t =
     act_bind (act_read (\<lambda>s. snapshot_parts t)) (\<lambda>parts.
     if length parts = 0 then act_return ()
     else
       act_bind (each_acc (snapshot_part V t) parts []) (\<lambda>dirty.
       if length dirty = 0 then act_return ()
       else
         act_bind (\<lambda>s. (Inr (), s\<lparr>ss_snapshot := length dirty\<rparr>)) (\<lambda>_.
           on_machine SnapshotUncommitted (commit_batch (git_wenv V) (tg_root t) (snapshot_message dirty) (map fst dirty)))))"

definition snapshot_then :: "sync_env \<Rightarrow> target \<Rightarrow> bool \<Rightarrow> unit sync" where
  "snapshot_then V t snap = (if \<not> snap then act_return () else snapshot V t)"

section \<open>Deletions and refusals\<close>

definition worktree_gone :: "string \<Rightarrow> bool" where
  "worktree_gone code \<longleftrightarrow> \<not> length code < 2 \<and> (code ! 1 = CHR ''D'' \<or> code ! 0 = CHR ''D'' \<and> code ! 1 = CHR '' '')"

fun keep_those :: "('x \<Rightarrow> 'e + bool) \<Rightarrow> 'x list \<Rightarrow> 'e + 'x list" where
  "keep_those f [] = Inr []"
| "keep_those f (x # xs) = rbind (f x) (\<lambda>b. map_sum id (\<lambda>ys. if b then x # ys else ys) (keep_those f xs))"

definition would_restore :: "git_sys \<Rightarrow> string \<Rightarrow> string \<Rightarrow> machine \<Rightarrow> string \<Rightarrow> string + bool" where
  "would_restore S root bs m rel =
     rbind (path_changed S root bs upstream_rev rel m) (\<lambda>upstreamChanged.
       if \<not> upstreamChanged then Inr False else path_changed S root ''HEAD'' upstream_rev rel m)"

definition deletions_upstream_would_restore :: "git_sys \<Rightarrow> string \<Rightarrow> machine \<Rightarrow> string + string list" where
  "deletions_upstream_would_restore S root m =
     rbind (dirty_entries S root ''.'' m) (\<lambda>entries.
     rbind (keep_those (\<lambda>rel. tree_contains S root upstream_rev rel m)
              (map (\<lambda>e. go_rel root (de_path e)) (filter (\<lambda>e. worktree_gone (de_code e)) entries))) (\<lambda>candidates.
     if length candidates = 0 then Inr []
     else
       rbind (merge_base S root ''HEAD'' upstream_rev m) (\<lambda>bs.
         map_sum id sort (keep_those (would_restore S root bs m) candidates))))"

definition overwrite_trailer :: "string \<Rightarrow> bool" where
  "overwrite_trailer line \<longleftrightarrow>
     list_ex (\<lambda>p. prefix p line) [''Please '', ''Aborting'', ''Updating'', ''error:'', ''Merge with strategy'']"

fun scan_overwritten :: "bool \<Rightarrow> string list \<Rightarrow> string list" where
  "scan_overwritten capture [] = []"
| "scan_overwritten capture (line # ls) =
     (let w = trim_space line in
      if index_sub ''would be overwritten'' w \<noteq> None then scan_overwritten True ls
      else if \<not> capture then scan_overwritten capture ls
      else if w = [] \<or> overwrite_trailer w then scan_overwritten False ls
      else w # scan_overwritten capture ls)"

definition overwritten_paths :: "string \<Rightarrow> string list" where
  "overwritten_paths msg = scan_overwritten False (split_byte newline msg)"

section \<open>Conflicted files\<close>

datatype conflict_kind = KindOther | KindSchema | KindIgnore | KindTicket | KindNote | KindDesign

fun is_config :: "conflict_kind \<Rightarrow> bool" where
  "is_config KindSchema = True" | "is_config KindIgnore = True" | "is_config k = False"

definition skip_drive_md :: "conflict_kind \<Rightarrow> bool" where
  "skip_drive_md k \<longleftrightarrow> is_config k \<or> k = KindNote \<or> k = KindDesign"

record conflict_item =
  ci_path :: string
  ci_abs :: string
  ci_name :: string
  ci_dir :: string
  ci_kind :: conflict_kind

definition classify_conflict :: "string \<Rightarrow> string \<Rightarrow> conflict_kind" where
  "classify_conflict absPath dir =
     (if \<not> is_allowlisted absPath dir then KindOther
      else if path_base absPath = ''tk.cue'' then KindSchema
      else if path_base absPath = ''.gitignore'' then KindIgnore
      else if note_slug absPath dir \<noteq> None then KindNote
      else if design_full_id absPath dir \<noteq> None then KindDesign
      else KindTicket)"

definition owning_participant :: "string \<Rightarrow> target \<Rightarrow> (string \<times> string) option" where
  "owning_participant path t =
     find (\<lambda>(name, dir). let rel = go_rel (tg_root t) dir in rel = ''.'' \<or> path = rel \<or> prefix (rel @ [slash]) path) (tg_parts t)"

definition classify_path :: "target \<Rightarrow> string \<Rightarrow> conflict_item" where
  "classify_path t path =
     (let absPath = path_join (tg_root t) path in
      case owning_participant path t of
        None \<Rightarrow> \<lparr>ci_path = path, ci_abs = absPath, ci_name = [], ci_dir = [], ci_kind = KindOther\<rparr>
      | Some (name, dir) \<Rightarrow>
          \<lparr>ci_path = path, ci_abs = absPath, ci_name = name, ci_dir = dir, ci_kind = classify_conflict absPath dir\<rparr>)"

definition classify_stop :: "git_sys \<Rightarrow> target \<Rightarrow> machine \<Rightarrow> conflict_item list" where
  "classify_stop S t m = map (classify_path t) (unmerged_files S m (tg_root t))"

definition is_delete_edit_stages :: "stages \<Rightarrow> bool" where
  "is_delete_edit_stages s \<longleftrightarrow> sg_base s \<and> sg_ours s \<noteq> sg_theirs s"

definition surviving_stage_number :: "stages \<Rightarrow> nat" where
  "surviving_stage_number s = (if sg_ours s then 2 else 3)"

text \<open>The stage that deleted the file, whose label is left out.\<close>

definition config_delete_edit_side :: "stages \<Rightarrow> nat option" where
  "config_delete_edit_side s =
     (if \<not> is_delete_edit_stages s then None else if sg_ours s then Some 3 else Some 2)"

definition has_conflict_marker :: "string \<Rightarrow> bool" where
  "has_conflict_marker data \<longleftrightarrow> list_ex (prefix ''<<<<<<<'') (split_byte newline data)"

definition file_text :: "wenv \<Rightarrow> machine \<Rightarrow> string \<Rightarrow> string option" where
  "file_text E m p = (if we_fault E (IoRead p) then None else map_option f_data (disk_file (mc_disk m) p))"

definition file_has_conflict_markers :: "wenv \<Rightarrow> machine \<Rightarrow> string \<Rightarrow> bool" where
  "file_has_conflict_markers E m p = (case file_text E m p of None \<Rightarrow> False | Some data \<Rightarrow> has_conflict_marker data)"

definition frontmatter_has_markers :: "wenv \<Rightarrow> machine \<Rightarrow> string \<Rightarrow> bool" where
  "frontmatter_has_markers E m p =
     (case file_text E m p of
        None \<Rightarrow> False
      | Some data \<Rightarrow>
          (case split_fence data of (interior, body, present) \<Rightarrow> if \<not> present then True else has_conflict_marker interior))"

definition frontmatter_has_status_conflict :: "wenv \<Rightarrow> machine \<Rightarrow> string \<Rightarrow> bool" where
  "frontmatter_has_status_conflict E m p =
     (case file_text E m p of
        None \<Rightarrow> False
      | Some data \<Rightarrow>
          (case split_fence data of
             (interior, body, present) \<Rightarrow>
               if \<not> present then False
               else case parse_fm (re_yaml (we_rec E)) interior of
                      Inl e \<Rightarrow> False | Inr fm \<Rightarrow> length (fm_status_conflict fm) > 0))"

section \<open>Driving one stop\<close>

definition stage_item :: "sync_env \<Rightarrow> target \<Rightarrow> string \<Rightarrow> unit sync" where
  "stage_item V t path = on_machine (StageFailed path) (git_add (sv_sys V) (tg_root t) [path])"

definition stages_of :: "sync_env \<Rightarrow> target \<Rightarrow> string \<Rightarrow> stages sync" where
  "stages_of V t path = look_at (StagesUnlisted path) (conflict_stages (sv_sys V) (tg_root t) path)"

text \<open>The sides of the stop: stage 2, stage 3, and the tree to search for a rename base.\<close>

definition conflict_sides :: "git_sys \<Rightarrow> string \<Rightarrow> pause_mode \<Rightarrow> machine \<Rightarrow> string + string \<times> string \<times> string" where
  "conflict_sides S root mode m =
     (case mode of
        PauseMerge \<Rightarrow>
          rbind (merge_sides S root m) (\<lambda>(h, theirs).
          rbind (merge_base S root h theirs m) (\<lambda>pre. Inr (h, theirs, pre)))
      | PauseRebase \<Rightarrow> rbind (rebase_sides S root m) (\<lambda>(h, theirs). Inr (h, theirs, [])))"

definition apply_driver_outcome :: "string \<Rightarrow> resolution \<Rightarrow> bool sync" where
  "apply_driver_outcome path r =
     (let left = (\<lambda>l. act_bind (report l) (\<lambda>_. act_return False)) in
      case r of
        ClassClean ws \<Rightarrow> act_bind (each (\<lambda>w. report (MergeWarned w)) ws) (\<lambda>_. act_return True)
      | ClassRename old newID keep newPath \<Rightarrow>
          act_bind (\<lambda>s. (Inr (), s\<lparr>ss_collided := ss_collided s @ [old]\<rparr>)) (\<lambda>_.
          act_bind (report (RepairedAddAdd old newID newPath)) (\<lambda>_. act_return True))
      | ClassBodyConflict ws \<Rightarrow> act_bind (each (\<lambda>w. report (MergeWarned w)) ws) (\<lambda>_. left (BodyConflict path))
      | ClassStatusDispute pair ws \<Rightarrow> act_bind (each (\<lambda>w. report (MergeWarned w)) ws) (\<lambda>_. left (StatusConflict path))
      | ClassDeleteEdit sd status \<Rightarrow> left (DeleteEditConflict path sd status)
      | ClassFailClosed e \<Rightarrow> left (FailedClosed path e)
      | ClassAmbiguousBase full \<Rightarrow> left (AmbiguousBase full path))"

definition run_driver :: "sync_env \<Rightarrow> target \<Rightarrow> conflict \<Rightarrow> resolution sync" where
  "run_driver V t c s =
     (case resolve (sv_env V) (sv_ext V) (sv_sys V) (tg_root t) c (ss_minted s) (rs_machine s) of
        (Inl e, m') \<Rightarrow> (Inl (ResolveFailed e), s\<lparr>rs_machine := m'\<rparr>)
      | (Inr (r, minted), m') \<Rightarrow> (Inr r, s\<lparr>rs_machine := m', ss_minted := minted\<rparr>))"

definition drive_md :: "sync_env \<Rightarrow> target \<Rightarrow> string \<times> string \<times> string \<Rightarrow> conflict_item \<Rightarrow> bool sync" where
  "drive_md V t sides it =
     (case sides of (h, theirs, pre) \<Rightarrow>
      act_bind (run_driver V t \<lparr>cf_path = ci_path it, cf_dir = ci_dir it, cf_ours = h, cf_theirs = theirs, cf_pre = pre\<rparr>)
        (apply_driver_outcome (ci_path it)))"

text \<open>What the second loop does not drive: \<open>Some b\<close> with whether the stop stays resolvable without the item.\<close>

definition md_item_blocked :: "string set \<Rightarrow> conflict_item \<Rightarrow> bool option sync" where
  "md_item_blocked schemaConflicted it =
     (if ci_kind it = KindOther then act_bind (report (Unresolvable (ci_path it))) (\<lambda>_. act_return (Some False))
      else if ci_kind it \<noteq> KindTicket then act_return (Some True)
      else if ci_dir it \<in> schemaConflicted then act_bind (report (SchemaFirst (ci_path it))) (\<lambda>_. act_return (Some False))
      else act_return None)"

definition human_item ::
    "sync_env \<Rightarrow> target \<Rightarrow> conflict_item \<Rightarrow> string set \<times> bool \<Rightarrow> (string set \<times> bool) sync" where
  "human_item V t it acc =
     (case acc of (schemaConflicted, allStaged) \<Rightarrow>
      if \<not> skip_drive_md (ci_kind it) then act_return (schemaConflicted, allStaged)
      else
        act_bind (stages_of V t (ci_path it)) (\<lambda>st.
        act_bind (report (HumanConflict (ci_path it) (config_delete_edit_side st))) (\<lambda>_.
          act_return (if ci_kind it = KindSchema then insert (ci_dir it) schemaConflicted else schemaConflicted, False))))"

definition drive_item ::
    "sync_env \<Rightarrow> target \<Rightarrow> string \<times> string \<times> string \<Rightarrow> string set \<Rightarrow> conflict_item \<Rightarrow> bool \<Rightarrow> bool sync" where
  "drive_item V t sides schemaConflicted it allStaged =
     act_bind (md_item_blocked schemaConflicted it) (\<lambda>blocked.
       case blocked of
         Some ok \<Rightarrow> act_return (allStaged \<and> ok)
       | None \<Rightarrow> act_bind (drive_md V t sides it) (\<lambda>ok. act_return (allStaged \<and> ok)))"

definition drive_stop :: "sync_env \<Rightarrow> target \<Rightarrow> pause_mode \<Rightarrow> bool sync" where
  "drive_stop V t mode =
     act_bind (peek (classify_stop (sv_sys V) t)) (\<lambda>items.
     act_bind (each_acc (human_item V t) items ({}, True)) (\<lambda>(schemaConflicted, allStaged).
     act_bind (look_at SidesUnresolved (conflict_sides (sv_sys V) (tg_root t) mode)) (\<lambda>sides.
       each_acc (drive_item V t sides schemaConflicted) items allStaged)))"

section \<open>Resuming a stop\<close>

text \<open>A surviving blob that the human left as it was is not an answer.\<close>

definition stage_delete_edit_if_acted :: "sync_env \<Rightarrow> target \<Rightarrow> conflict_item \<Rightarrow> stages \<Rightarrow> bool sync" where
  "stage_delete_edit_if_acted V t it st =
     act_bind (look_at (SurvivorUnread (ci_path it))
                 (show_stage (sv_sys V) (tg_root t) (surviving_stage_number st) (ci_path it))) (\<lambda>blob.
     act_bind (peek (\<lambda>m. reads_now (sv_env V) m (ci_abs it))) (\<lambda>rd.
       case rd of
         ReadMissing \<Rightarrow> act_bind (stage_item V t (ci_path it)) (\<lambda>_. act_return True)
       | ReadFault \<Rightarrow> act_fail (WorktreeUnread (ci_path it))
       | ReadOk data \<Rightarrow>
           if data = blob then act_return False
           else act_bind (stage_item V t (ci_path it)) (\<lambda>_. act_return True)))"

definition resume_human_item ::
    "sync_env \<Rightarrow> target \<Rightarrow> conflict_item \<Rightarrow> string set \<times> bool \<Rightarrow> (string set \<times> bool) sync" where
  "resume_human_item V t it acc =
     (case acc of (schemaConflicted, allStaged) \<Rightarrow>
      let blocked = (if ci_kind it = KindSchema then insert (ci_dir it) schemaConflicted else schemaConflicted) in
      if \<not> skip_drive_md (ci_kind it) then act_return (schemaConflicted, allStaged)
      else
        act_bind (stages_of V t (ci_path it)) (\<lambda>st.
        if is_delete_edit_stages st then
          act_bind (stage_delete_edit_if_acted V t it st) (\<lambda>acted.
            if acted then act_return (schemaConflicted, allStaged)
            else act_bind (report (HumanConflict (ci_path it) (config_delete_edit_side st))) (\<lambda>_. act_return (blocked, False)))
        else
          act_bind (peek (\<lambda>m. file_has_conflict_markers (sv_env V) m (ci_abs it))) (\<lambda>marked.
            if marked then act_bind (report (HumanConflict (ci_path it) None)) (\<lambda>_. act_return (blocked, False))
            else act_bind (stage_item V t (ci_path it)) (\<lambda>_. act_return (schemaConflicted, allStaged)))))"

definition resume_ticket :: "sync_env \<Rightarrow> target \<Rightarrow> string \<times> string \<times> string \<Rightarrow> conflict_item \<Rightarrow> bool sync" where
  "resume_ticket V t sides it =
     act_bind (stages_of V t (ci_path it)) (\<lambda>st.
     if is_delete_edit_stages st then
       act_bind (stage_delete_edit_if_acted V t it st) (\<lambda>acted.
         if acted then act_return True else drive_md V t sides it)
     else
       act_bind (peek (\<lambda>m. (frontmatter_has_markers (sv_env V) m (ci_abs it),
                            frontmatter_has_status_conflict (sv_env V) m (ci_abs it),
                            file_has_conflict_markers (sv_env V) m (ci_abs it)))) (\<lambda>(marked, disputed, bodyMarked).
         if marked then drive_md V t sides it
         else if disputed then act_bind (report (StatusConflict (ci_path it))) (\<lambda>_. act_return False)
         else if bodyMarked then act_bind (report (BodyConflict (ci_path it))) (\<lambda>_. act_return False)
         else act_bind (stage_item V t (ci_path it)) (\<lambda>_. act_return True)))"

definition resume_item ::
    "sync_env \<Rightarrow> target \<Rightarrow> string \<times> string \<times> string \<Rightarrow> string set \<Rightarrow> conflict_item \<Rightarrow> bool \<Rightarrow> bool sync" where
  "resume_item V t sides schemaConflicted it allStaged =
     act_bind (md_item_blocked schemaConflicted it) (\<lambda>blocked.
       case blocked of
         Some ok \<Rightarrow> act_return (allStaged \<and> ok)
       | None \<Rightarrow> act_bind (resume_ticket V t sides it) (\<lambda>ok. act_return (allStaged \<and> ok)))"

definition resolve_resume_stop :: "sync_env \<Rightarrow> target \<Rightarrow> pause_mode \<Rightarrow> bool sync" where
  "resolve_resume_stop V t mode =
     act_bind (peek (classify_stop (sv_sys V) t)) (\<lambda>items.
     act_bind (each_acc (resume_human_item V t) items ({}, True)) (\<lambda>(schemaConflicted, allStaged).
     act_bind (look_at SidesUnresolved (conflict_sides (sv_sys V) (tg_root t) mode)) (\<lambda>sides.
       each_acc (resume_item V t sides schemaConflicted) items allStaged)))"

section \<open>Merges\<close>

definition new_driver :: "unit sync" where
  "new_driver s = (Inr (), s\<lparr>ss_minted := {}\<rparr>)"

definition set_pause :: "pause_mode \<Rightarrow> unit sync" where
  "set_pause mode s = (Inr (), s\<lparr>ss_pause := mode\<rparr>)"

definition fail_merge :: "sync_env \<Rightarrow> target \<Rightarrow> 'a sync \<Rightarrow> 'a sync" where
  "fail_merge V t f s =
     (case f s of
        (Inr x, s') \<Rightarrow> (Inr x, s')
      | (Inl e, s') \<Rightarrow>
          (Inl e, if mid_merge (sv_sys V) (rs_machine s') (tg_root t) then s'\<lparr>rs_lines := rs_lines s' @ [MergeLeft]\<rparr> else s'))"

definition finish_merge_drive :: "sync_env \<Rightarrow> target \<Rightarrow> bool \<Rightarrow> bool sync" where
  "finish_merge_drive V t resume =
     act_bind new_driver (\<lambda>_.
     act_bind (fail_merge V t (if resume then resolve_resume_stop V t PauseMerge else drive_stop V t PauseMerge)) (\<lambda>allStaged.
     if \<not> allStaged then act_bind (set_pause PauseMerge) (\<lambda>_. act_return True)
     else act_bind (fail_merge V t (on_machine MergeUncommitted (merge_commit (sv_sys V) (tg_root t)))) (\<lambda>_. act_return False)))"

definition start_merge :: "sync_env \<Rightarrow> target \<Rightarrow> bool sync" where
  "start_merge V t s =
     (case git_merge (sv_sys V) (tg_root t) upstream_rev (rs_machine s) of
        (Inr paused, m') \<Rightarrow> (Inr paused, s\<lparr>rs_machine := m'\<rparr>)
      | (Inl e, m') \<Rightarrow>
          if mid_merge (sv_sys V) m' (tg_root t)
          then (Inl (MergeInterrupted e), s\<lparr>rs_machine := m', rs_lines := rs_lines s @ [MergeLeft]\<rparr>)
          else if length (overwritten_paths e) > 0 then (Inl (MergeRefused (overwritten_paths e)), s\<lparr>rs_machine := m'\<rparr>)
          else (Inl (MergeFailed e), s\<lparr>rs_machine := m'\<rparr>))"

definition merge_onto_upstream :: "sync_env \<Rightarrow> target \<Rightarrow> bool sync" where
  "merge_onto_upstream V t =
     act_bind (look_at MergeFailed (deletions_upstream_would_restore (sv_sys V) (tg_root t))) (\<lambda>blocked.
     if length blocked > 0 then act_fail (MergeRefused blocked)
     else
       act_bind (start_merge V t) (\<lambda>paused.
       if \<not> paused then act_return False
       else act_bind (set_pause PauseMerge) (\<lambda>_. finish_merge_drive V t False)))"

definition fast_forward :: "sync_env \<Rightarrow> target \<Rightarrow> unit sync" where
  "fast_forward V t =
     act_bind (look_at FastForwardFailed (deletions_upstream_would_restore (sv_sys V) (tg_root t))) (\<lambda>blocked.
     if length blocked > 0 then act_fail (FastForwardRefused blocked)
     else on_machine (\<lambda>e. if length (overwritten_paths e) > 0 then FastForwardRefused (overwritten_paths e) else FastForwardFailed e)
            (merge_ff_only (sv_sys V) (tg_root t) upstream_rev))"

definition fetch_and_integrate :: "sync_env \<Rightarrow> target \<Rightarrow> bool \<Rightarrow> bool sync" where
  "fetch_and_integrate V t snap =
     act_bind (on_machine FetchFailed (git_fetch (sv_sys V) (tg_root t))) (\<lambda>_.
     act_bind (look_at UpstreamUnclassified (compare_upstream (sv_sys V) (tg_root t))) (\<lambda>rel.
       case rel of
         RelBased \<Rightarrow> act_bind (snapshot_then V t snap) (\<lambda>_. act_return False)
       | RelBehind \<Rightarrow>
           act_bind (fast_forward V t) (\<lambda>_.
           act_bind (snapshot_then V t snap) (\<lambda>_. act_return False))
       | RelDiverged \<Rightarrow> act_bind (snapshot_then V t snap) (\<lambda>_. merge_onto_upstream V t)))"

definition resume_merge :: "sync_env \<Rightarrow> target \<Rightarrow> bool sync" where
  "resume_merge V t = act_bind (set_pause PauseMerge) (\<lambda>_. finish_merge_drive V t True)"

section \<open>Rebases\<close>

text \<open>
  The loop over the stops of a rebase ends when git says so: \<open>None\<close> is a loop that does not end.
\<close>

partial_function (option) run_stops ::
    "sync_env \<Rightarrow> target \<Rightarrow> bool \<Rightarrow> sync_state \<Rightarrow> ((sync_fault + bool) \<times> sync_state) option" where
  "run_stops V t allStaged s =
     (if \<not> allStaged then Some (Inr True, s)
      else
        case on_machine ContinueFailed (rebase_continue (sv_sys V) (tg_root t)) s of
          (Inl e, s') \<Rightarrow> Some (Inl e, s')
        | (Inr paused, s') \<Rightarrow>
            if \<not> paused then Some (Inr False, s')
            else
              case drive_stop V t PauseRebase s' of
                (Inl e, s'') \<Rightarrow> Some (Inl e, s'')
              | (Inr staged', s'') \<Rightarrow> run_stops V t staged' s'')"

definition resume_rebase :: "sync_env \<Rightarrow> target \<Rightarrow> sync_state \<Rightarrow> ((sync_fault + bool) \<times> sync_state) option" where
  "resume_rebase V t s =
     (case act_bind new_driver (\<lambda>_. resolve_resume_stop V t PauseRebase) s of
        (Inl e, s') \<Rightarrow> Some (Inl e, s')
      | (Inr allStaged, s') \<Rightarrow> run_stops V t allStaged s')"

end
