(* ===== verification/Syncs.thy ===== *)
theory Syncs
  imports Merges
begin

text \<open>
  The sync of git roots, \<open>internal/syncengine\<close>: \<open>engine.go\<close>, \<open>select.go\<close>, \<open>root.go\<close>, \<open>integrity.go\<close> and
  \<open>refresh.go\<close>. A root is checked, resumed or integrated, repaired, and pushed when it is ahead. Locks are taken by
  the callers of the model: taking them does not fail here.
\<close>

section \<open>Selection\<close>

definition sorted_registry :: "sync_env \<Rightarrow> (string \<times> string) list" where
  "sorted_registry V = sort_key fst (we_reg (sv_env V))"

definition participates :: "sync_env \<Rightarrow> string \<Rightarrow> bool" where
  "participates V dir \<longleftrightarrow>
     (case schema_or_error (we_rec (sv_env V)) dir of (schema, cfgErr) \<Rightarrow> cfgErr = None \<and> schema_auto_commit schema)"

definition auto_commit_participants :: "sync_env \<Rightarrow> string \<Rightarrow> machine \<Rightarrow> (string \<times> string) list" where
  "auto_commit_participants V root m =
     filter (\<lambda>(name, dir). repo_root (sv_sys V) dir m = Some root \<and> participates V dir) (sorted_registry V)"

record selection =
  sl_targets :: "target list"
  sl_disabled :: "string list"
  sl_config :: "(string \<times> string) list"
  sl_unreachable :: "string list"
  sl_candidates :: nat

definition no_selection :: selection where
  "no_selection = \<lparr>sl_targets = [], sl_disabled = [], sl_config = [], sl_unreachable = [], sl_candidates = 0\<rparr>"

definition ambient_selection :: "sync_env \<Rightarrow> string \<Rightarrow> string \<Rightarrow> selection sync" where
  "ambient_selection V scope dir =
     act_bind (peek (repo_root (sv_sys V) dir)) (\<lambda>root.
     act_bind (on_machine SelectReconcileFailed (reconcile_now (sv_env V) [(scope, dir)])) (\<lambda>res.
     if scope \<in> rr_unreachable res then act_fail (SyncUnreachable scope dir)
     else
       let bad = rr_config_errs res scope in
       if bad \<noteq> None \<and> root = None then act_fail (SyncConfig scope (the bad))
       else if bad = None \<and> \<not> schema_auto_commit (result_schema res scope) then act_fail (NotAutoCommit scope (root \<noteq> None))
       else case root of
              None \<Rightarrow> act_return (no_selection\<lparr>sl_candidates := 1, sl_disabled := [scope]\<rparr>)
            | Some r \<Rightarrow>
                act_bind (peek (auto_commit_participants V r)) (\<lambda>parts.
                  act_return (no_selection\<lparr>sl_candidates := 1, sl_targets := [\<lparr>tg_root = r, tg_parts = parts, tg_snap = scope\<rparr>]\<rparr>))))"

definition reachable_scopes :: "sync_env \<Rightarrow> machine \<Rightarrow> (string \<times> string) list" where
  "reachable_scopes V m = filter (\<lambda>(name, dir). path_exists (mc_disk m) dir) (sorted_registry V)"

definition all_selection :: "sync_env \<Rightarrow> machine \<Rightarrow> selection" where
  "all_selection V m =
     (let conf = (\<lambda>dir. schema_or_error (we_rec (sv_env V)) dir);
          reach = reachable_scopes V m;
          auto = filter (\<lambda>(name, dir). participates V dir) reach;
          rootOf = (\<lambda>dir. repo_root (sv_sys V) dir m);
          rooted = filter (\<lambda>(name, dir). rootOf dir \<noteq> None) auto;
          roots = sort (remdups (map (\<lambda>(name, dir). the (rootOf dir)) rooted));
          bad = filter (\<lambda>(name, dir). snd (conf dir) \<noteq> None \<and> (case rootOf dir of None \<Rightarrow> True | Some r \<Rightarrow> r \<notin> set roots)) reach in
      \<lparr>sl_targets = map (\<lambda>r. \<lparr>tg_root = r, tg_parts = filter (\<lambda>(name, dir). rootOf dir = Some r) rooted, tg_snap = []\<rparr>) roots,
       sl_disabled = map fst (filter (\<lambda>(name, dir). rootOf dir = None) auto),
       sl_config = map (\<lambda>(name, dir). (name, the (snd (conf dir)))) bad,
       sl_unreachable = map fst (filter (\<lambda>(name, dir). \<not> path_exists (mc_disk m) dir) (sorted_registry V)),
       sl_candidates = length auto + length bad\<rparr>)"

section \<open>Checks before a root\<close>

definition git_root_scopes :: "sync_env \<Rightarrow> string \<Rightarrow> machine \<Rightarrow> (string \<times> string) list" where
  "git_root_scopes V root m = filter (\<lambda>(name, dir). repo_root (sv_sys V) dir m = Some root) (sorted_registry V)"

text \<open>The three answers of the check of one sibling: a refusal, or its auto-commit setting.\<close>

datatype sibling = SiblingRefused report_line | SiblingAuto bool

definition check_sibling :: "sync_env \<Rightarrow> machine \<Rightarrow> string \<times> string \<Rightarrow> sibling" where
  "check_sibling V m entry =
     (case entry of (name, dir) \<Rightarrow>
      case sv_name V m dir of
        Some cueName \<Rightarrow>
          if cueName \<noteq> name then SiblingRefused (NameDrift name cueName)
          else (case schema_or_error (we_rec (sv_env V)) dir of
                  (schema, Some reason) \<Rightarrow> SiblingRefused (ConfigUnparseable name reason)
                | (schema, None) \<Rightarrow> SiblingAuto (schema_auto_commit schema))
      | None \<Rightarrow>
          (case schema_or_error (we_rec (sv_env V)) dir of
             (schema, Some reason) \<Rightarrow> SiblingRefused (ConfigUnparseable name reason)
           | (schema, None) \<Rightarrow> SiblingAuto (schema_auto_commit schema)))"

definition preflight_lines :: "sync_env \<Rightarrow> string \<Rightarrow> machine \<Rightarrow> report_line list" where
  "preflight_lines V root m =
     (let checks = map (check_sibling V m) (git_root_scopes V root m) in
      List.map_filter (\<lambda>c. case c of SiblingRefused l \<Rightarrow> Some l | SiblingAuto b \<Rightarrow> None) checks @
      (if SiblingAuto True \<in> set checks \<and> SiblingAuto False \<in> set checks then [AutoCommitMismatch root] else []))"

definition sync_preflight :: "sync_env \<Rightarrow> string \<Rightarrow> bool sync" where
  "sync_preflight V root =
     act_bind (peek (preflight_lines V root)) (\<lambda>ls.
     act_bind (each report ls) (\<lambda>_. act_return (length ls = 0)))"

section \<open>Integrity and push\<close>

definition sync_integrity :: "sync_env \<Rightarrow> target \<Rightarrow> unit sync" where
  "sync_integrity V t =
     act_bind (on_machine SyncReconcileFailed (reconcile_now (sv_env V) (tg_parts t))) (\<lambda>res.
       each (\<lambda>(name, dir).
         case result_schema res name of
           None \<Rightarrow> act_return ()
         | Some schema \<Rightarrow>
             act_lift IntegrityFailed
               (run_batches V \<lparr>rt_scope = name, rt_dir = dir, rt_schema = Some schema, rt_auto = schema_auto_commit (Some schema),
                               rt_root = Some (tg_root t)\<rparr> \<lparr>rf_repair = True, rf_respace = False, rf_all = False\<rparr>)) (tg_parts t))"

definition drain_edge_verify :: "unit sync" where
  "drain_edge_verify s =
     act_lift IntegrityFailed (report_edge_verify (ss_collided s)) (s\<lparr>ss_collided := []\<rparr>)"

text \<open>The marker is written as well as can be.\<close>

definition record_push_failure :: "sync_env \<Rightarrow> target \<Rightarrow> string \<Rightarrow> unit sync" where
  "record_push_failure V t cause s =
     (case write_last_push_error (sv_sys V) (sv_env V) (tg_root t) cause (rs_machine s) of
        (r, m') \<Rightarrow> (Inr (), s\<lparr>rs_machine := m', rs_lines := rs_lines s @ [PushNotLanded cause]\<rparr>))"

definition try_push :: "sync_env \<Rightarrow> target \<Rightarrow> string option sync" where
  "try_push V t s =
     (case git_push (sv_sys V) (tg_root t) (rs_machine s) of
        (Inr u, m') \<Rightarrow> (Inr None, s\<lparr>rs_machine := m'\<rparr>)
      | (Inl e, m') \<Rightarrow> (Inr (Some e), s\<lparr>rs_machine := m'\<rparr>))"

definition after_push :: "sync_env \<Rightarrow> target \<Rightarrow> bool sync" where
  "after_push V t s =
     (case clear_last_push_error (sv_sys V) (sv_env V) (tg_root t) (rs_machine s) of
        (ok, m') \<Rightarrow>
          (Inr False,
           s\<lparr>rs_machine := m', rs_lines := rs_lines s @ (if ok then [] else [MarkerNotCleared (tg_root t)]), ss_pushed := True,
             ss_unpushed := (case unpushed_count (sv_sys V) (tg_root t) m' of Inr n \<Rightarrow> n | Inl e \<Rightarrow> ss_unpushed s)\<rparr>))"

text \<open>A rejected push integrates once more, without a snapshot, and pushes again. The answer is whether that paused.\<close>

definition push_again :: "sync_env \<Rightarrow> target \<Rightarrow> string \<Rightarrow> bool sync" where
  "push_again V t e s =
     (case fetch_and_integrate V t False (s\<lparr>rs_lines := rs_lines s @ [PushRejected e]\<rparr>) of
        (Inl f, s') \<Rightarrow> act_bind (record_push_failure V t e) (\<lambda>_. act_fail f) s'
      | (Inr True, s') \<Rightarrow> act_bind (record_push_failure V t e) (\<lambda>_. act_return True) s'
      | (Inr False, s') \<Rightarrow>
          act_bind (try_push V t) (\<lambda>err2.
            case err2 of
              Some e2 \<Rightarrow> act_bind (record_push_failure V t e2) (\<lambda>_. act_fail (PushFailed e2))
            | None \<Rightarrow> after_push V t) s')"

definition push_if_ahead :: "sync_env \<Rightarrow> target \<Rightarrow> bool sync" where
  "push_if_ahead V t =
     act_bind (look_at CountFailed (unpushed_count (sv_sys V) (tg_root t))) (\<lambda>ahead.
     if ahead = 0 then act_bind (\<lambda>s. (Inr (), s\<lparr>ss_unpushed := 0\<rparr>)) (\<lambda>_. act_return False)
     else
       act_bind (try_push V t) (\<lambda>err.
         case err of None \<Rightarrow> after_push V t | Some e \<Rightarrow> push_again V t e))"

section \<open>One root\<close>

text \<open>A step answers whether it paused; the rest of a root runs after one that did not.\<close>

definition finish_synced :: "sync_env \<Rightarrow> target \<Rightarrow> bool sync" where
  "finish_synced V t =
     act_bind (sync_integrity V t) (\<lambda>_.
     act_bind drain_edge_verify (\<lambda>_. push_if_ahead V t))"

definition after_resume :: "sync_env \<Rightarrow> target \<Rightarrow> bool \<Rightarrow> bool sync" where
  "after_resume V t paused =
     (if paused then act_return True else act_bind (snapshot V t) (\<lambda>_. finish_synced V t))"

definition integrate_root :: "sync_env \<Rightarrow> target \<Rightarrow> sync_state \<Rightarrow> ((sync_fault + bool) \<times> sync_state) option" where
  "integrate_root V t s =
     (let m = rs_machine s; root = tg_root t in
      if mid_rebase (sv_sys V) m root then
        (case resume_rebase V t s of
           None \<Rightarrow> None
         | Some (Inl e, s') \<Rightarrow> Some (Inl e, s')
         | Some (Inr paused, s') \<Rightarrow> Some (after_resume V t paused s'))
      else if mid_merge (sv_sys V) m root then
        Some (act_bind (resume_merge V t) (after_resume V t) s)
      else if \<not> has_upstream (sv_sys V) m root then Some (Inl (NoUpstream root), s)
      else
        Some (act_bind (fetch_and_integrate V t True) (\<lambda>paused.
                if paused then act_return True else finish_synced V t) s))"

definition fresh_report :: "sync_state \<Rightarrow> sync_state" where
  "fresh_report s = s\<lparr>ss_minted := {}, ss_snapshot := 0, ss_residue := 0, ss_collided := [], ss_pushed := False, ss_unpushed := 0,
     ss_pause := PauseRebase\<rparr>"

text \<open>The verification lines that an early end left over are drained last, and cannot change the outcome.\<close>

definition sync_root :: "sync_env \<Rightarrow> target \<Rightarrow> sync_state \<Rightarrow> ((sync_fault + bool) \<times> sync_state) option" where
  "sync_root V t s0 =
     (case sync_preflight V (tg_root t) (fresh_report s0) of
        (Inr True, s) \<Rightarrow>
          (case integrate_root V t s of
             None \<Rightarrow> None
           | Some (r, s1) \<Rightarrow> Some (r, snd (drain_edge_verify s1)))
      | (Inr False, s) \<Rightarrow> Some (Inl Preflight, s)
      | (Inl e, s) \<Rightarrow> Some (Inl e, s))"

definition needs_attention :: "sync_fault + bool \<Rightarrow> bool" where
  "needs_attention r \<longleftrightarrow> r \<noteq> Inr False"

section \<open>A run over all roots\<close>

fun sync_roots :: "sync_env \<Rightarrow> target list \<Rightarrow> bool \<Rightarrow> sync_state \<Rightarrow> (bool \<times> sync_state) option" where
  "sync_roots V [] attention s = Some (attention, s)"
| "sync_roots V (t # ts) attention s =
     (case sync_root V t s of
        None \<Rightarrow> None
      | Some (r, s') \<Rightarrow> sync_roots V ts (attention \<or> needs_attention r) s')"

definition run_selected :: "sync_env \<Rightarrow> selection \<Rightarrow> sync_state \<Rightarrow> (bool \<times> sync_state) option" where
  "run_selected V sel s =
     (if sl_candidates sel = 0 then Some (False, s)
      else sync_roots V (sl_targets sel) (length (sl_disabled sel) > 0 \<or> length (sl_config sel) > 0) s)"

definition run_sync :: "sync_env \<Rightarrow> (string \<times> string) option \<Rightarrow> sync_state \<Rightarrow> ((sync_fault + bool) \<times> sync_state) option" where
  "run_sync V ambient s =
     (case (case ambient of
              None \<Rightarrow> (Inr (all_selection V (rs_machine s)), s)
            | Some (scope, dir) \<Rightarrow> ambient_selection V scope dir s) of
        (Inl e, s') \<Rightarrow> Some (Inl e, s')
      | (Inr sel, s') \<Rightarrow> map_option (\<lambda>(attention, s''). (Inr attention, s'')) (run_selected V sel s'))"

section \<open>What a claim uses\<close>

definition root_target :: "sync_env \<Rightarrow> string \<Rightarrow> machine \<Rightarrow> target" where
  "root_target V root m = \<lparr>tg_root = root, tg_parts = auto_commit_participants V root m, tg_snap = []\<rparr>"

definition refresh_integrate :: "sync_env \<Rightarrow> target \<Rightarrow> bool sync" where
  "refresh_integrate V t s =
     (let m = rs_machine s; root = tg_root t in
      if mid_rebase (sv_sys V) m root then (Inl MidRebaseRefused, s)
      else if mid_merge (sv_sys V) m root then (Inl MidMergeRefused, s)
      else if \<not> has_upstream (sv_sys V) m root then (Inl (NoUpstream root), s)
      else
        act_bind (fetch_and_integrate V t False) (\<lambda>paused.
          if paused then act_return True
          else act_bind (sync_integrity V t) (\<lambda>_. act_bind drain_edge_verify (\<lambda>_. act_return False))) s)"

definition refresh_root :: "sync_env \<Rightarrow> target \<Rightarrow> bool sync" where
  "refresh_root V t s0 =
     (case sync_preflight V (tg_root t) s0 of
        (Inr True, s) \<Rightarrow> (case refresh_integrate V t (fresh_report s) of (r, s1) \<Rightarrow> (r, snd (drain_edge_verify s1)))
      | (Inr False, s) \<Rightarrow> (Inl Preflight, s)
      | (Inl e, s) \<Rightarrow> (Inl e, s))"

definition push_root_if_ahead :: "sync_env \<Rightarrow> target \<Rightarrow> bool sync" where
  "push_root_if_ahead V t s = push_if_ahead V t (fresh_report s)"

end
