(* ===== verification/SyncFacts.thy ===== *)
theory SyncFacts
  imports Syncs
begin

text \<open>
  What a sync does to git, told by the calls it makes: a merge is committed only when every conflicted file was
  handed to git, a snapshot takes only the files of its scope, a checkout that is only behind is fast-forwarded
  before anything is committed, and the loop over the stops of a rebase ends.
\<close>

section \<open>Calls\<close>

definition new_calls :: "machine \<Rightarrow> machine \<Rightarrow> git_call list" where
  "new_calls m m' = drop (length (mc_calls m)) (mc_calls m')"

definition appended :: "(git_call \<Rightarrow> bool) \<Rightarrow> machine \<Rightarrow> machine \<Rightarrow> bool" where
  "appended P m m' \<longleftrightarrow> mc_calls m' = mc_calls m @ new_calls m m' \<and> list_all P (new_calls m m')"

lemma new_callsI: "mc_calls m' = mc_calls m @ cs \<Longrightarrow> new_calls m m' = cs"
  by (simp add: new_calls_def)

lemma appendedI: "mc_calls m' = mc_calls m @ new \<Longrightarrow> list_all P new \<Longrightarrow> appended P m m'"
  by (simp add: appended_def new_calls_def)

lemma appendedE:
  assumes "appended P m m'"
  obtains new where "mc_calls m' = mc_calls m @ new" "list_all P new" "new_calls m m' = new"
  using assms by (auto simp: appended_def)

lemma appended_same: "mc_calls m' = mc_calls m \<Longrightarrow> appended P m m'"
  by (rule appendedI [of _ _ "[]"]) simp_all

interpretation calls: machine_relation "appended P" for P
proof
  show "appended P m m" for m by (rule appended_same) simp
  show "appended P m1 m3" if "appended P m1 m2" "appended P m2 m3" for m1 m2 m3
    using that by (elim appendedE) (auto intro: appendedI)
qed

abbreviation only_calls :: "(git_call \<Rightarrow> bool) \<Rightarrow> ('z reported_scheme \<Rightarrow> ('e + 'a) \<times> 'z reported_scheme) \<Rightarrow> bool" where
  "only_calls P \<equiv> machine_relation.keeps (appended P)"

lemma appended_mono: "appended P m m' \<Longrightarrow> (\<And>c. P c \<Longrightarrow> Q c) \<Longrightarrow> appended Q m m'"
  by (auto simp: appended_def list_all_iff)

lemma new_calls_trans:
  "appended P m1 m2 \<Longrightarrow> appended Q m2 m3 \<Longrightarrow> new_calls m1 m3 = new_calls m1 m2 @ new_calls m2 m3"
  by (elim appendedE) (simp add: new_calls_def)

lemma new_calls_same [simp]: "new_calls m m = []"
  by (simp add: new_calls_def)

subsection \<open>The calls of the parts\<close>

lemma git_add_calls: "git_add S root ps m = (r, m') \<Longrightarrow> P (GitAdd root ps) \<Longrightarrow> appended P m m'"
  by (rule appendedI [of _ _ "[GitAdd root ps]"]) (use git_add_run in auto)

lemma git_step_run:
  "git_step S root env args m = (r, m') \<Longrightarrow> mc_calls m' = mc_calls m @ [GitRun root args]"
  by (auto simp: git_step_def Let_def log_call_def)

lemma paused_step_run: "paused_step S root mid args m = (r, m') \<Longrightarrow> mc_calls m' = mc_calls m @ [GitRun root args]"
  by (auto simp: paused_step_def split: prod.splits sum.splits if_splits dest!: git_step_run)

lemma unstage_calls: "unstage_after G root ps e m = (r, m') \<Longrightarrow> mc_calls m' = mc_calls m @ [GitUnstage root ps]"
  by (auto simp: unstage_after_def log_call_def)

lemma commit_staged_calls:
  assumes "commit_staged G root msg ps m = (r, m')" "P (GitCommit root msg ps)" "P (GitUnstage root ps)"
  shows "appended P m m'"
proof -
  have "\<exists>new. mc_calls m' = mc_calls m @ new \<and> set new \<subseteq> {GitCommit root msg ps, GitUnstage root ps}"
    using assms(1)
    by (auto simp: commit_staged_def log_call_def split: sum.splits bool.splits option.splits dest!: unstage_calls)
  then show ?thesis using assms(2,3) by (auto intro!: appendedI simp: list_all_iff)
qed

lemma commit_batch_calls:
  assumes "commit_batch E root msg paths m = (r, m')"
    and "\<And>ps. set ps \<subseteq> set paths - {[]} \<Longrightarrow> P (GitAdd root ps) \<and> P (GitCommit root msg ps) \<and> P (GitUnstage root ps)"
  shows "appended P m m'"
proof -
  let ?stage = "filter (\<lambda>p. matchable (we_git E) root p m) (first_seen {} (filter (\<lambda>p. p \<noteq> []) paths))"
  have sub: "set ?stage \<subseteq> set paths - {[]}" using set_first_seen [of "{}" "filter (\<lambda>p. p \<noteq> []) paths"] by auto
  obtain e where run: "commit_paths_core (we_git E) root msg paths m = (e, m')"
    using assms(1) by (auto simp: commit_batch_def split: prod.splits option.splits)
  show ?thesis
  proof (cases "?stage = []")
    case True
    with run show ?thesis by (auto simp: commit_paths_core_def intro: appended_same)
  next
    case False
    with run have st: "stage_and_commit (we_git E) root msg ?stage m = (e, m')" by (simp add: commit_paths_core_def Let_def)
    have add: "appended P m (log_call (GitAdd root ?stage) m)"
      by (rule appendedI [of _ _ "[GitAdd root ?stage]"]) (use assms(2) [OF sub] in \<open>simp_all add: log_call_def\<close>)
    show ?thesis
    proof (cases "gv_add (we_git E) m root ?stage")
      case None
      with st have "commit_staged (we_git E) root msg ?stage (log_call (GitAdd root ?stage) m) = (e, m')"
        by (simp add: stage_and_commit_def)
      from calls.rel_trans [OF add commit_staged_calls [OF this]] assms(2) [OF sub] show ?thesis by blast
    qed (use st add in \<open>simp add: stage_and_commit_def\<close>)
  qed
qed

lemma sync_now_calls: "sync_now E scope ps m = (r, m') \<Longrightarrow> appended P m m'"
  by (auto simp: sync_now_def split: prod.splits intro: appended_same)

lemma reconcile_now_calls: "reconcile_now E ts m = (r, m') \<Longrightarrow> appended P m m'"
  by (auto simp: reconcile_now_def split: prod.splits sum.splits intro: appended_same)

lemma run_apply_calls: "run_apply E ops m = (r, m') \<Longrightarrow> appended P m m'"
  by (auto simp: run_apply_def split: prod.splits option.splits dest!: apply_now_calls intro: appended_same)

lemma resolve_calls:
  assumes "resolve E X S root c minted m = (r, m')" "\<And>ps. P (GitAdd root ps)"
  shows "appended P m m'"
proof -
  have comp: "appended P m1 m2" if "compose_merged E S root c bs ours theirs fm ws d m1 = (r2, m2)" for bs ours theirs fm ws d m1 r2 m2
    using that assms(2)
    by (auto simp: compose_merged_def act_bind_def act_read_def act_lift_def act_return_def split: prod.splits sum.splits option.splits if_splits
        dest!: atomic_write_calls git_add_run intro: appended_same appendedI)
  have ren: "appended P m1 m2" if "apply_rename E S root c ours theirs scope rn m1 = (r2, m2)" for ours theirs scope rn m1 r2 m2
    using that assms(2)
    by (auto simp: apply_rename_def Let_def act_bind_def act_read_def act_lift_def act_return_def run_apply_def
        split: prod.splits sum.splits option.splits dest!: apply_now_calls git_add_run intro: appended_same appendedI)
  have set: "appended P m1 m2" if "settle E S root c bs ours theirs scope res mi m1 = (r2, m2)" for bs ours theirs scope res mi m1 r2 m2
    using that
    by (auto simp: settle_def act_return_def act_bind_def split: sum.splits outcome.splits prod.splits intro: appended_same dest: comp ren)
  show ?thesis
    using assms(1)
    by (auto simp: resolve_def act_bind_def act_read_def act_return_def Let_def split: prod.splits sum.splits rename_base.splits
        intro: appended_same dest: set)
qed


section \<open>Staging\<close>

definition told :: "string \<Rightarrow> string \<Rightarrow> machine \<Rightarrow> machine \<Rightarrow> bool" where
  "told root p m m' \<longleftrightarrow> (\<exists>ps. GitAdd root ps \<in> set (new_calls m m') \<and> p \<in> set ps)"

abbreviation add_call :: "string \<Rightarrow> git_call \<Rightarrow> bool" where
  "add_call root c \<equiv> \<exists>ps. c = GitAdd root ps"

lemma told_trans:
  assumes "appended P m1 m2" "appended Q m2 m3" "told root p m1 m2 \<or> told root p m2 m3"
  shows "told root p m1 m3"
  using assms new_calls_trans [OF assms(1,2)] by (auto simp: told_def)

lemma told_add: "git_add S root ps m = (r, m') \<Longrightarrow> p \<in> set ps \<Longrightarrow> told root p m m'"
  using git_add_run [of S root ps m r m'] by (auto simp: told_def new_calls_def)

lemma report_each: "each (\<lambda>w. report (l w)) ws s = (r, s') \<Longrightarrow> r = Inr () \<and> rs_machine s' = rs_machine s"
proof (induction ws arbitrary: s)
  case (Cons w ws)
  then have "each (\<lambda>w. report (l w)) ws (s\<lparr>rs_lines := rs_lines s @ [l w]\<rparr>) = (r, s')"
    by (simp add: bind_report)
  from Cons.IH [OF this] show ?case by simp
qed (simp add: act_return_def)

lemma apply_driver_outcome_run:
  assumes "apply_driver_outcome path r s = (x, s')"
  shows "x = Inr (staged r) \<and> rs_machine s' = rs_machine s"
proof (cases r)
  case (ClassClean ws)
  with assms show ?thesis
    by (auto simp: apply_driver_outcome_def act_bind_def act_return_def split: prod.splits sum.splits dest!: report_each)
next
  case (ClassBodyConflict ws)
  with assms show ?thesis
    by (auto simp: apply_driver_outcome_def act_bind_def act_return_def report_def split: prod.splits sum.splits dest!: report_each)
next
  case (ClassStatusDispute pair ws)
  with assms show ?thesis
    by (auto simp: apply_driver_outcome_def act_bind_def act_return_def report_def split: prod.splits sum.splits dest!: report_each)
qed (use assms in \<open>auto simp: apply_driver_outcome_def act_bind_def act_return_def report_def\<close>)

lemma run_driver_calls: "only_calls (add_call (tg_root t)) (run_driver V t c)"
  by (rule calls.keepsI) (auto simp: run_driver_def split: prod.splits sum.splits intro: resolve_calls)

lemma apply_driver_outcome_calls: "only_calls P (apply_driver_outcome path r)"
  by (rule calls.keepsI) (simp add: apply_driver_outcome_run appended_same)

lemma stage_item_calls: "only_calls (add_call (tg_root t)) (stage_item V t p)"
  unfolding stage_item_def by (rule calls.keeps_machine) (auto intro: git_add_calls)

lemma drive_md_calls: "only_calls (add_call (tg_root t)) (drive_md V t sides it)"
  by (cases sides) (auto simp: drive_md_def intro!: calls.keeps_bind run_driver_calls apply_driver_outcome_calls)

lemma stages_of_calls: "only_calls P (stages_of V t p)"
  by (simp add: stages_of_def calls.keeps_basic)

lemma md_item_blocked_calls: "only_calls P (md_item_blocked sc it)"
  unfolding md_item_blocked_def by (intro calls.keeps_rules)

lemma human_item_calls: "only_calls P (human_item V t it acc)"
  by (cases acc) (auto simp: human_item_def intro!: calls.keeps_rules stages_of_calls)

lemma drive_item_calls: "only_calls (add_call (tg_root t)) (drive_item V t sides sc it b)"
  unfolding drive_item_def
  by (intro calls.keeps_bind md_item_blocked_calls) (auto split: option.split intro!: calls.keeps_rules drive_md_calls)

lemma drive_stop_calls: "only_calls (add_call (tg_root t)) (drive_stop V t mode)"
  unfolding drive_stop_def
  by (intro calls.keeps_bind calls.keeps_basic) (auto split: prod.split intro!: calls.keeps_rules human_item_calls drive_item_calls)

lemma stage_acted_calls: "only_calls (add_call (tg_root t)) (stage_delete_edit_if_acted V t it st)"
  unfolding stage_delete_edit_if_acted_def
  by (intro calls.keeps_bind calls.keeps_basic) (auto split: read_result.split intro!: calls.keeps_rules stage_item_calls)

lemma resume_human_item_calls: "only_calls (add_call (tg_root t)) (resume_human_item V t it acc)"
  by (cases acc) (auto simp: resume_human_item_def Let_def intro!: calls.keeps_rules stages_of_calls stage_acted_calls stage_item_calls)

lemma resume_ticket_calls: "only_calls (add_call (tg_root t)) (resume_ticket V t sides it)"
  unfolding resume_ticket_def
  by (auto split: prod.split intro!: calls.keeps_rules stages_of_calls stage_acted_calls stage_item_calls drive_md_calls)

lemma resume_item_calls: "only_calls (add_call (tg_root t)) (resume_item V t sides sc it b)"
  unfolding resume_item_def
  by (intro calls.keeps_bind md_item_blocked_calls) (auto split: option.split intro!: calls.keeps_rules resume_ticket_calls)

lemma resume_stop_calls: "only_calls (add_call (tg_root t)) (resolve_resume_stop V t mode)"
  unfolding resolve_resume_stop_def
  by (intro calls.keeps_bind calls.keeps_basic)
    (auto split: prod.split intro!: calls.keeps_rules resume_human_item_calls resume_item_calls)

section \<open>A resolved stop\<close>

text \<open>An item is settled when git was told of it, or when it is a kind that another loop settled.\<close>

lemma drive_md_told:
  assumes "drive_md V t sides it s = (Inr True, s')"
  shows "told (tg_root t) (ci_path it) (rs_machine s) (rs_machine s')"
proof -
  obtain h theirs pre where sides: "sides = (h, theirs, pre)" by (cases sides)
  let ?c = "\<lparr>cf_path = ci_path it, cf_dir = ci_dir it, cf_ours = h, cf_theirs = theirs, cf_pre = pre\<rparr>"
  obtain r s1 where r: "run_driver V t ?c s = (Inr r, s1)" "apply_driver_outcome (ci_path it) r s1 = (Inr True, s')"
    using assms by (auto simp: drive_md_def sides act_bind_Inr)
  have st: "staged r" "rs_machine s' = rs_machine s1" using apply_driver_outcome_run [OF r(2)] by auto
  obtain minted' m' where "resolve (sv_env V) (sv_ext V) (sv_sys V) (tg_root t) ?c (ss_minted s) (rs_machine s) = (Inr (r, minted'), m')"
      "rs_machine s1 = m'"
    using r(1) by (auto simp: run_driver_def split: prod.splits sum.splits)
  with resolve_staging st show ?thesis by (auto simp: told_def new_calls_def added_paths_def)
qed

lemma md_item_blocked_run:
  assumes "md_item_blocked sc it s = (Inr b, s')"
  shows "rs_machine s' = rs_machine s"
    and "b = Some True \<Longrightarrow> skip_drive_md (ci_kind it)" and "b = None \<Longrightarrow> ci_kind it = KindTicket"
  using assms
  by (cases "ci_kind it"; auto simp: md_item_blocked_def act_bind_def act_return_def report_def skip_drive_md_def split: if_splits)+

definition item_settled :: "target \<Rightarrow> conflict_item \<Rightarrow> machine \<Rightarrow> machine \<Rightarrow> bool" where
  "item_settled t it m m' \<longleftrightarrow> skip_drive_md (ci_kind it) \<or> told (tg_root t) (ci_path it) m m'"

lemma drive_item_settles:
  assumes "drive_item V t sides sc it b s = (Inr True, s')"
  shows "b \<and> item_settled t it (rs_machine s) (rs_machine s')"
proof -
  obtain bl s1 where bl: "md_item_blocked sc it s = (Inr bl, s1)"
    and rest: "(case bl of Some ok \<Rightarrow> act_return (b \<and> ok) | None \<Rightarrow> act_bind (drive_md V t sides it) (\<lambda>ok. act_return (b \<and> ok))) s1 = (Inr True, s')"
    using assms by (auto simp: drive_item_def act_bind_Inr)
  note m1 = md_item_blocked_run [OF bl]
  show ?thesis
  proof (cases bl)
    case None
    with rest have "b" "drive_md V t sides it s1 = (Inr True, s')" by (auto simp: act_bind_Inr act_return_iff)
    with drive_md_told [OF this(2)] m1(1) show ?thesis by (simp add: item_settled_def)
  qed (use rest m1(2) in \<open>auto simp: act_return_iff item_settled_def\<close>)
qed

lemma stage_item_told:
  "stage_item V t p s = (Inr u, s') \<Longrightarrow> told (tg_root t) p (rs_machine s) (rs_machine s')"
  by (auto simp: stage_item_def on_machine_Inr intro: told_add)

lemma stage_acted_told:
  assumes "stage_delete_edit_if_acted V t it st s = (Inr True, s')"
  shows "told (tg_root t) (ci_path it) (rs_machine s) (rs_machine s')"
  using assms
  by (cases "reads_now (sv_env V) (rs_machine s) (ci_abs it)")
    (auto simp: stage_delete_edit_if_acted_def act_bind_Inr look_at_Inr peek_iff act_return_iff act_fail_iff split: if_splits
      dest!: stage_item_told)

lemma resume_ticket_told:
  assumes "resume_ticket V t sides it s = (Inr True, s')"
  shows "told (tg_root t) (ci_path it) (rs_machine s) (rs_machine s')"
proof -
  obtain st where st: "stages_of V t (ci_path it) s = (Inr st, s)"
    and rest: "(if is_delete_edit_stages st then act_bind (stage_delete_edit_if_acted V t it st) (\<lambda>acted. if acted then act_return True else drive_md V t sides it)
      else act_bind (peek (\<lambda>m. (frontmatter_has_markers (sv_env V) m (ci_abs it), frontmatter_has_status_conflict (sv_env V) m (ci_abs it),
                            file_has_conflict_markers (sv_env V) m (ci_abs it)))) (\<lambda>(marked, disputed, bodyMarked).
         if marked then drive_md V t sides it
         else if disputed then act_bind (report (StatusConflict (ci_path it))) (\<lambda>_. act_return False)
         else if bodyMarked then act_bind (report (BodyConflict (ci_path it))) (\<lambda>_. act_return False)
         else act_bind (stage_item V t (ci_path it)) (\<lambda>_. act_return True))) s = (Inr True, s')"
    using assms by (auto simp: resume_ticket_def act_bind_Inr stages_of_def look_at_Inr)
  show ?thesis
  proof (cases "is_delete_edit_stages st")
    case True
    with rest obtain acted s1 where a: "stage_delete_edit_if_acted V t it st s = (Inr acted, s1)"
        "(if acted then act_return True else drive_md V t sides it) s1 = (Inr True, s')"
      by (auto simp: act_bind_Inr)
    show ?thesis
    proof (cases acted)
      case True
      with a stage_acted_told [of V t it st s s1] show ?thesis by (simp add: act_return_iff)
    next
      case False
      with a have "told (tg_root t) (ci_path it) (rs_machine s1) (rs_machine s')" by (simp add: drive_md_told)
      with told_trans [OF calls.keepsD [OF stage_acted_calls a(1)] calls.keepsD [OF drive_md_calls]] a(2) False show ?thesis by simp
    qed
  qed (use rest in \<open>auto simp: act_bind_Inr peek_iff act_return_iff report_iff split: if_splits dest: drive_md_told stage_item_told\<close>)
qed

lemma resume_item_settles:
  assumes "resume_item V t sides sc it b s = (Inr True, s')"
  shows "b \<and> item_settled t it (rs_machine s) (rs_machine s')"
proof -
  obtain bl s1 where bl: "md_item_blocked sc it s = (Inr bl, s1)"
    and rest: "(case bl of Some ok \<Rightarrow> act_return (b \<and> ok) | None \<Rightarrow> act_bind (resume_ticket V t sides it) (\<lambda>ok. act_return (b \<and> ok))) s1 = (Inr True, s')"
    using assms by (auto simp: resume_item_def act_bind_Inr)
  note m1 = md_item_blocked_run [OF bl]
  show ?thesis
  proof (cases bl)
    case None
    with rest have "b" "resume_ticket V t sides it s1 = (Inr True, s')" by (auto simp: act_bind_Inr act_return_iff)
    with resume_ticket_told [OF this(2)] m1(1) show ?thesis by (simp add: item_settled_def)
  qed (use rest m1(2) in \<open>auto simp: act_return_iff item_settled_def\<close>)
qed

text \<open>A loop whose accumulated answer is true settled every item.\<close>

lemma loop_settles:
  assumes "each_acc f items b s = (Inr c, s')" "ok c"
    and step: "\<And>it b s s' c. f it b s = (Inr c, s') \<Longrightarrow> ok c \<Longrightarrow> ok b \<and> Q it (rs_machine s) (rs_machine s')"
    and grows: "\<And>it b. only_calls P (f it b)"
    and later: "\<And>it m1 m2 m3. appended P m1 m2 \<Longrightarrow> appended P m2 m3 \<Longrightarrow> Q it m1 m2 \<or> Q it m2 m3 \<Longrightarrow> Q it m1 m3"
  shows "ok b \<and> (\<forall>it \<in> set items. Q it (rs_machine s) (rs_machine s'))"
  using assms(1,2)
proof (induction items arbitrary: b s)
  case (Cons it items)
  obtain b1 s1 where f: "f it b s = (Inr b1, s1)" "each_acc f items b1 s1 = (Inr c, s')"
    using Cons.prems(1) by (auto simp: act_bind_Inr)
  note ih = Cons.IH [OF f(2) Cons.prems(2)]
  have one: "ok b \<and> Q it (rs_machine s) (rs_machine s1)" using step [OF f(1)] ih by blast
  have g: "appended P (rs_machine s) (rs_machine s1)" "appended P (rs_machine s1) (rs_machine s')"
    using calls.keepsD [OF grows f(1)] calls.keepsD [OF calls.keeps_each_acc [OF grows] f(2)] by blast+
  show ?case using one ih later [OF g] by auto
qed (simp add: act_return_iff)


definition all_told :: "sync_env \<Rightarrow> target \<Rightarrow> machine \<Rightarrow> machine \<Rightarrow> bool" where
  "all_told V t m m' \<longleftrightarrow> list_all (\<lambda>p. told (tg_root t) p m m') (unmerged_files (sv_sys V) m (tg_root t))"

lemma classify_path_path: "ci_path (classify_path t p) = p"
  by (simp add: classify_path_def Let_def split: option.split prod.split)

lemma classified_paths: "map ci_path (classify_stop S t m) = unmerged_files S m (tg_root t)"
  by (simp add: classify_stop_def comp_def classify_path_path)

lemma item_settled_later:
  assumes "appended P m1 m2" "appended P m2 m3" "item_settled t it m1 m2 \<or> item_settled t it m2 m3"
  shows "item_settled t it m1 m3"
  using assms told_trans [OF assms(1,2)] by (auto simp: item_settled_def)

lemma human_item_settles:
  assumes "human_item V t it acc s = (Inr (sc, True), s')"
  shows "snd acc \<and> \<not> skip_drive_md (ci_kind it)"
  using assms by (cases acc) (auto simp: human_item_def act_bind_Inr act_return_iff split: if_splits)

lemma drive_stop_all_told:
  assumes "drive_stop V t mode s = (Inr True, s')"
  shows "all_told V t (rs_machine s) (rs_machine s')"
proof -
  let ?items = "classify_stop (sv_sys V) t (rs_machine s)"
  obtain sc al s1 sides where human: "each_acc (human_item V t) ?items ({}, True) s = (Inr (sc, al), s1)"
    and drive: "each_acc (drive_item V t sides sc) ?items al s1 = (Inr True, s')"
    using assms unfolding drive_stop_def
    by (auto simp: act_bind_Inr peek_iff look_at_Inr split: prod.splits)
  have d: "al \<and> (\<forall>it \<in> set ?items. item_settled t it (rs_machine s1) (rs_machine s'))"
  proof (rule loop_settles [OF drive, where ok = "\<lambda>b. b" and P = "add_call (tg_root t)"])
    show "b \<and> item_settled t it (rs_machine s) (rs_machine s')"
      if "drive_item V t sides sc it b s = (Inr c, s')" c for it b s s' c
      using that drive_item_settles [of V t sides sc it b s s'] by (cases c) simp_all
  qed (fact TrueI drive_item_calls item_settled_later)+
  have h: "\<forall>it \<in> set ?items. \<not> skip_drive_md (ci_kind it)"
    using loop_settles [OF human, where ok = snd and P = "add_call (tg_root t)" and Q = "\<lambda>it m m'. \<not> skip_drive_md (ci_kind it)"] d
      human_item_settles human_item_calls by fastforce
  have same: "appended (add_call (tg_root t)) (rs_machine s) (rs_machine s1)" "appended (add_call (tg_root t)) (rs_machine s1) (rs_machine s')"
    using calls.keepsD [OF calls.keeps_each_acc [OF human_item_calls] human]
      calls.keepsD [OF calls.keeps_each_acc [OF drive_item_calls] drive] by blast+
  have "told (tg_root t) (ci_path it) (rs_machine s) (rs_machine s')" if "it \<in> set ?items" for it
    using d h that told_trans [OF same] by (auto simp: item_settled_def)
  then show ?thesis unfolding all_told_def list_all_iff classified_paths [symmetric] by auto
qed

lemma resume_human_settles:
  assumes "resume_human_item V t it acc s = (Inr (sc, True), s')"
  shows "snd acc \<and> (skip_drive_md (ci_kind it) \<longrightarrow> told (tg_root t) (ci_path it) (rs_machine s) (rs_machine s'))"
  using assms
  by (cases acc) (auto simp: resume_human_item_def Let_def act_bind_Inr stages_of_def look_at_Inr peek_iff report_iff act_return_iff
      split: if_splits dest: stage_item_told stage_acted_told)

lemma resume_stop_all_told:
  assumes "resolve_resume_stop V t mode s = (Inr True, s')"
  shows "all_told V t (rs_machine s) (rs_machine s')"
proof -
  let ?items = "classify_stop (sv_sys V) t (rs_machine s)" and ?P = "add_call (tg_root t)"
  obtain sc al s1 sides where human: "each_acc (resume_human_item V t) ?items ({}, True) s = (Inr (sc, al), s1)"
    and drive: "each_acc (resume_item V t sides sc) ?items al s1 = (Inr True, s')"
    using assms unfolding resolve_resume_stop_def
    by (auto simp: act_bind_Inr peek_iff look_at_Inr split: prod.splits)
  have d: "al \<and> (\<forall>it \<in> set ?items. item_settled t it (rs_machine s1) (rs_machine s'))"
  proof (rule loop_settles [OF drive, where ok = "\<lambda>b. b" and P = ?P])
    show "b \<and> item_settled t it (rs_machine s) (rs_machine s')"
      if "resume_item V t sides sc it b s = (Inr c, s')" c for it b s s' c
      using that resume_item_settles [of V t sides sc it b s s'] by (cases c) simp_all
  qed (fact TrueI resume_item_calls item_settled_later)+
  have h: "\<forall>it \<in> set ?items. skip_drive_md (ci_kind it) \<longrightarrow> told (tg_root t) (ci_path it) (rs_machine s) (rs_machine s1)"
    using loop_settles [OF human, where ok = snd and P = ?P and
        Q = "\<lambda>it m m'. skip_drive_md (ci_kind it) \<longrightarrow> told (tg_root t) (ci_path it) m m'"] d
      resume_human_settles resume_human_item_calls told_trans by fastforce
  have same: "appended ?P (rs_machine s) (rs_machine s1)" "appended ?P (rs_machine s1) (rs_machine s')"
    using calls.keepsD [OF calls.keeps_each_acc [OF resume_human_item_calls] human]
      calls.keepsD [OF calls.keeps_each_acc [OF resume_item_calls] drive] by blast+
  have "told (tg_root t) (ci_path it) (rs_machine s) (rs_machine s')" if "it \<in> set ?items" for it
    using d h that told_trans [OF same] by (auto simp: item_settled_def)
  then show ?thesis unfolding all_told_def list_all_iff classified_paths [symmetric] by auto
qed

section \<open>The merge commit\<close>

abbreviation merge_commit_call :: "string \<Rightarrow> git_call" where
  "merge_commit_call root \<equiv> GitRun root [''commit'', ''--no-edit'']"

lemma fail_merge_run: "fail_merge V t f s = (r, s') \<Longrightarrow> \<exists>s1. f s = (r, s1) \<and> rs_machine s' = rs_machine s1"
  by (auto simp: fail_merge_def split: prod.splits sum.splits if_splits)

lemma finish_merge_run:
  assumes "finish_merge_drive V t resume s = (r, s')"
  obtains adds cs where "list_all (add_call (tg_root t)) adds" "mc_calls (rs_machine s') = mc_calls (rs_machine s) @ cs"
    "cs = adds \<and> r \<noteq> Inr False \<or> cs = adds @ [merge_commit_call (tg_root t)] \<and> r \<noteq> Inr True \<and>
       (\<forall>p \<in> set (unmerged_files (sv_sys V) (rs_machine s) (tg_root t)). \<exists>ps. GitAdd (tg_root t) ps \<in> set adds \<and> p \<in> set ps)"
proof -
  let ?P = "add_call (tg_root t)" and ?drive = "if resume then resolve_resume_stop V t PauseMerge else drive_stop V t PauseMerge"
  let ?s0 = "s\<lparr>ss_minted := {}\<rparr>"
  obtain d s1 where d: "fail_merge V t ?drive ?s0 = (d, s1)" by fastforce
  then obtain s2 where run: "?drive ?s0 = (d, s2)" "rs_machine s1 = rs_machine s2" using fail_merge_run by blast
  have "only_calls ?P ?drive" using drive_stop_calls resume_stop_calls by (cases resume) auto
  from calls.keepsD [OF this run(1)] run(2) have adds: "appended ?P (rs_machine s) (rs_machine s1)" by simp
  then obtain new where new: "mc_calls (rs_machine s1) = mc_calls (rs_machine s) @ new" "list_all ?P new" "new_calls (rs_machine s) (rs_machine s1) = new"
    by (rule appendedE)
  have rest: "(case d of Inl e \<Rightarrow> (Inl e, s1) | Inr allStaged \<Rightarrow>
      (if \<not> allStaged then act_bind (set_pause PauseMerge) (\<lambda>_. act_return True)
       else act_bind (fail_merge V t (on_machine MergeUncommitted (merge_commit (sv_sys V) (tg_root t)))) (\<lambda>_. act_return False)) s1) = (r, s')"
    using assms d by (simp add: finish_merge_drive_def new_driver_def act_bind_def split: prod.splits sum.splits)
  consider (stop) "r \<noteq> Inr False" "rs_machine s' = rs_machine s1"
    | (commit) "d = Inr True" "act_bind (fail_merge V t (on_machine MergeUncommitted (merge_commit (sv_sys V) (tg_root t)))) (\<lambda>_. act_return False) s1 = (r, s')"
    using rest by (cases d) (auto simp: act_bind_def set_pause_def act_return_def split: if_splits)
  then show thesis
  proof cases
    case stop
    with new that [of new new] show thesis by simp
  next
    case commit
    then obtain x s3 where f: "fail_merge V t (on_machine MergeUncommitted (merge_commit (sv_sys V) (tg_root t))) s1 = (x, s3)"
        "r \<noteq> Inr True" "rs_machine s' = rs_machine s3"
      by (auto simp: act_bind_def act_return_def split: prod.splits sum.splits)
    then obtain s4 where "on_machine MergeUncommitted (merge_commit (sv_sys V) (tg_root t)) s1 = (x, s4)" "rs_machine s3 = rs_machine s4"
      using fail_merge_run by blast
    then have "mc_calls (rs_machine s') = mc_calls (rs_machine s1) @ [merge_commit_call (tg_root t)]"
      using f(3) by (auto simp: on_machine_def merge_commit_def split: prod.splits dest!: git_step_run)
    moreover have "all_told V t (rs_machine s) (rs_machine s1)"
      using run commit(1) drive_stop_all_told [of V t PauseMerge ?s0 s2] resume_stop_all_told [of V t PauseMerge ?s0 s2]
      by (cases resume) simp_all
    ultimately show thesis
      using that [of new "new @ [merge_commit_call (tg_root t)]"] new f(2) by (simp add: all_told_def list_all_iff told_def)
  qed
qed


section \<open>A merge that stopped\<close>

definition merge_git :: git_sys where
  "merge_git = scripted
     [([''diff'', ''--name-only'', ''--diff-filter=U''], line_of ''app-ab23-x.md''),
      ([''ls-files'', ''-u'', ''--'', ''app-ab23-x.md''],
         ''100644 h 2'' @ CHR 0x09 # ''app-ab23-x.md'' @ newline # ''100644 h 3'' @ CHR 0x09 # ''app-ab23-x.md'' @ [newline]),
      ([''show'', '':2:app-ab23-x.md''], compose (line_of ''A'') ''x''), ([''show'', '':3:app-ab23-x.md''], compose (line_of ''B'') ''y''),
      ([''rev-parse'', ''HEAD''], line_of ''h''), ([''rev-parse'', ''MERGE_HEAD''], line_of ''t''), ([''merge-base'', ''h'', ''t''], line_of ''b''),
      ([''log'', ''-1'', ''--format=%aI'', ''h'', ''--'', ''app-ab23-x.md''], []), ([''log'', ''-1'', ''--format=%aI'', ''t'', ''--'', ''app-ab23-x.md''], []),
      ([''ls-tree'', ''-r'', ''--name-only'', ''b'', ''--'', ''.''], []), ([''ls-tree'', ''-r'', ''--name-only'', ''b''], []),
      ([''ls-files'', ''--'', ''/s''], line_of ''app-ab23-x.md''), ([''add'', ''--'', ''app-ab23-x.md'', ''app-ab23a-x.md''], []),
      ([''commit'', ''--no-edit''], [])]"

definition merge_env :: sync_env where
  "merge_env = \<lparr>sv_env = table_env both_table plain_schema, sv_ext = both_ext, sv_sys = merge_git, sv_name = (\<lambda>m d. None)\<rparr>"

definition app_target :: target where
  "app_target = \<lparr>tg_root = ''/s'', tg_parts = [(''app'', ''/s'')], tg_snap = ''app''\<rparr>"

definition fresh_sync :: "machine \<Rightarrow> sync_state" where
  "fresh_sync m = \<lparr>rs_machine = m, rs_lines = [], ss_minted = {}, ss_snapshot = 0, ss_residue = 0, ss_collided = [], ss_pushed = False,
     ss_unpushed = 0, ss_pause = PauseRebase\<rparr>"

abbreviation merge_run :: "(sync_fault + bool) \<times> sync_state" where
  "merge_run \<equiv> finish_merge_drive merge_env app_target False (fresh_sync both_machine)"

lemma merge_finished: "fst merge_run = Inr False"
  by code_simp

lemma merge_conflicted: "unmerged_files (sv_sys merge_env) (rs_machine (fresh_sync both_machine)) (tg_root app_target) = [''app-ab23-x.md'']"
  by code_simp


end
