(* ===== verification/SyncEnds.thy ===== *)
theory SyncEnds
  imports SyncFacts
begin

text \<open>
  The order of the steps of a sync, and its ends: what a fetch that found the checkout based on, behind or diverged
  from its upstream does next; the loop over the stops of a rebase, which ends when git's list of commits does; and
  the push, which is tried at most twice.
\<close>

section \<open>Snapshots\<close>

text \<open>A call of a snapshot takes only files that the scope of the snapshot allows.\<close>

definition snap_call :: "target \<Rightarrow> git_call \<Rightarrow> bool" where
  "snap_call t c \<longleftrightarrow>
     (\<exists>dir ps. (tg_snap t, dir) \<in> set (tg_parts t) \<and> (\<forall>p \<in> set ps. is_allowlisted p dir \<and> \<not> skip_snapshot_path p) \<and>
        (c = GitAdd (tg_root t) ps \<or> c = GitUnstage (tg_root t) ps \<or> (\<exists>msg. c = GitCommit (tg_root t) msg ps)))"

lemma snapshot_part_run:
  assumes "snapshot_part V t (name, dir) acc s = (r, s')"
  shows "rs_machine s' = rs_machine s"
    and "r = Inr acc' \<Longrightarrow> \<forall>p \<in> set (map fst acc') - set (map fst acc). is_allowlisted p dir \<and> \<not> skip_snapshot_path p"
  using assms
  by (auto simp: snapshot_part_def Let_def act_bind_def act_return_def look_at_def act_read_def report_def
      split: prod.splits sum.splits if_splits)

lemma snapshot_parts_one:
  assumes "snapshot_parts t = Inr parts" "parts \<noteq> []"
  obtains dir where "parts = [(tg_snap t, dir)]" "(tg_snap t, dir) \<in> set (tg_parts t)"
  using assms by (auto simp: snapshot_parts_def find_Some_iff split: if_splits option.splits) (metis nth_mem)

lemma snapshot_calls: "only_calls (snap_call t) (snapshot V t)"
proof (rule calls.keepsI)
  fix s r s' assume run: "snapshot V t s = (r, s')"
  show "appended (snap_call t) (rs_machine s) (rs_machine s')"
  proof (cases "\<exists>parts. snapshot_parts t = Inr parts \<and> parts \<noteq> []")
    case False
    with run show ?thesis
      by (auto simp: snapshot_def act_bind_def act_read_def act_return_def split: prod.splits sum.splits intro!: appended_same)
  next
    case True
    then obtain dir where p: "snapshot_parts t = Inr [(tg_snap t, dir)]" "(tg_snap t, dir) \<in> set (tg_parts t)"
      using snapshot_parts_one by metis
    obtain d s1 where part: "snapshot_part V t (tg_snap t, dir) [] s = (d, s1)" by fastforce
    note part_run = snapshot_part_run [OF part]
    show ?thesis
    proof (cases d)
      case (Inl e)
      with run p part part_run(1) show ?thesis by (auto simp: snapshot_def act_bind_def act_read_def intro: appended_same)
    next
      case (Inr dirty)
      have ok: "snap_call t (GitAdd (tg_root t) ps) \<and> snap_call t (GitCommit (tg_root t) msg ps) \<and> snap_call t (GitUnstage (tg_root t) ps)"
        if "set ps \<subseteq> set (map fst dirty) - {[]}" for ps msg
      proof -
        have "\<forall>p \<in> set ps. is_allowlisted p dir \<and> \<not> skip_snapshot_path p" using part_run(2) [OF Inr] that by auto
        with p(2) show ?thesis unfolding snap_call_def by blast
      qed
      show ?thesis
      proof (cases "dirty = []")
        case True
        with run p part part_run(1) Inr show ?thesis by (auto simp: snapshot_def act_bind_def act_read_def act_return_def intro: appended_same)
      next
        case False
        let ?c = "commit_batch (git_wenv V) (tg_root t) (snapshot_message dirty) (map fst dirty)"
        obtain x m2 where c: "?c (rs_machine s1) = (x, m2)" by fastforce
        have "rs_machine s' = m2"
          using run p part Inr False c by (auto simp: snapshot_def act_bind_def act_read_def act_return_def on_machine_def split: sum.splits)
        with commit_batch_calls [OF c ok] part_run(1) show ?thesis by simp
      qed
    qed
  qed
qed

lemma snapshot_then_calls: "only_calls (\<lambda>c. snap \<and> snap_call t c) (snapshot_then V t snap)"
  using snapshot_calls by (cases snap) (simp_all add: snapshot_then_def calls.keeps_basic)

lemma no_calls: "appended (\<lambda>c. False \<and> P c) m m' \<Longrightarrow> new_calls m m' = []"
  by (auto simp: appended_def list_all_iff)

section \<open>Integration\<close>

abbreviation fetch_call :: "string \<Rightarrow> git_call" where
  "fetch_call root \<equiv> GitRun root [''fetch'']"

abbreviation ff_call :: "string \<Rightarrow> git_call" where
  "ff_call root \<equiv> GitRun root [''merge'', ''--ff-only'', upstream_rev]"

abbreviation merge_call :: "string \<Rightarrow> git_call" where
  "merge_call root \<equiv> GitRun root [''merge'', ''--no-ff'', ''--no-edit'', upstream_rev]"

lemma fast_forward_run:
  assumes "fast_forward V t s = (r, s')"
  shows "mc_calls (rs_machine s') = mc_calls (rs_machine s) \<and> (\<exists>e. r = Inl e) \<or>
    mc_calls (rs_machine s') = mc_calls (rs_machine s) @ [ff_call (tg_root t)] \<and>
    ((\<exists>e. r = Inl e) \<or> fst (merge_ff_only (sv_sys V) (tg_root t) upstream_rev (rs_machine s)) = Inr ())"
  using assms
  by (auto simp: fast_forward_def act_bind_def look_at_def act_read_def act_fail_def on_machine_def merge_ff_only_def map_err_def
      split: prod.splits sum.splits if_splits dest: git_step_run)

lemma start_merge_run: "start_merge V t s = (r, s') \<Longrightarrow> mc_calls (rs_machine s') = mc_calls (rs_machine s) @ [merge_call (tg_root t)]"
  by (auto simp: start_merge_def git_merge_def split: prod.splits sum.splits if_splits dest!: paused_step_run)

definition merged_calls :: "string \<Rightarrow> (sync_fault + bool) \<Rightarrow> git_call list \<Rightarrow> bool" where
  "merged_calls root r cs \<longleftrightarrow>
     cs = [] \<and> (\<exists>e. r = Inl e) \<or>
     (\<exists>adds. list_all (add_call root) adds \<and>
        (cs = merge_call root # adds \<or> cs = merge_call root # adds @ [merge_commit_call root] \<and> r \<noteq> Inr True))"

lemma merge_onto_run:
  assumes "merge_onto_upstream V t s = (r, s')"
  obtains cs where "mc_calls (rs_machine s') = mc_calls (rs_machine s) @ cs" "merged_calls (tg_root t) r cs"
proof -
  let ?d = "deletions_upstream_would_restore (sv_sys V) (tg_root t) (rs_machine s)"
  consider (refused) "rs_machine s' = rs_machine s" "\<exists>e. r = Inl e"
    | (started) x s1 where "start_merge V t s = (x, s1)"
        "act_bind (\<lambda>s. (x, s)) (\<lambda>paused. if \<not> paused then act_return False
            else act_bind (set_pause PauseMerge) (\<lambda>_. finish_merge_drive V t False)) s1 = (r, s')"
    using assms
    by (cases ?d) (auto simp: merge_onto_upstream_def act_bind_def look_at_def act_read_def act_fail_def split: prod.splits if_splits)
  then show thesis
  proof cases
    case refused
    then show thesis using that [of "[]"] by (simp add: merged_calls_def)
  next
    case started
    note sm = start_merge_run [OF started(1)]
    consider (plain) "rs_machine s' = rs_machine s1" "r \<noteq> Inr True"
      | (drive) "finish_merge_drive V t False (s1\<lparr>ss_pause := PauseMerge\<rparr>) = (r, s')"
      using started(2) by (cases x) (auto simp: act_bind_def act_return_def set_pause_def split: if_splits)
    then show thesis
    proof cases
      case plain
      then show thesis using that [of "[merge_call (tg_root t)]"] sm by (auto simp: merged_calls_def intro: exI [of _ "[]"])
    next
      case drive
      then show thesis
      proof (rule finish_merge_run)
        fix adds cs
        assume "list_all (add_call (tg_root t)) adds" "mc_calls (rs_machine s') = mc_calls (rs_machine (s1\<lparr>ss_pause := PauseMerge\<rparr>)) @ cs"
          "cs = adds \<and> r \<noteq> Inr False \<or> cs = adds @ [merge_commit_call (tg_root t)] \<and> r \<noteq> Inr True \<and>
            (\<forall>p \<in> set (unmerged_files (sv_sys V) (rs_machine (s1\<lparr>ss_pause := PauseMerge\<rparr>)) (tg_root t)).
               \<exists>ps. GitAdd (tg_root t) ps \<in> set adds \<and> p \<in> set ps)"
        then show thesis using that [of "merge_call (tg_root t) # cs"] sm by (auto simp: merged_calls_def)
      qed
    qed
  qed
qed


section \<open>Rebases\<close>

abbreviation continue_call :: "string \<Rightarrow> git_call" where
  "continue_call root \<equiv> GitRun root [''rebase'', ''--continue'']"

text \<open>The history that decides what git does next to the repository: its commands, but not what it was told of files.\<close>

definition git_runs :: "machine \<Rightarrow> git_call list" where
  "git_runs m = filter (\<lambda>c. case c of GitRun root args \<Rightarrow> True | _ \<Rightarrow> False) (mc_calls m)"

lemma git_runs_adds: "appended (add_call root) m m' \<Longrightarrow> git_runs m' = git_runs m"
  by (auto simp: git_runs_def appended_def list_all_iff filter_empty_conv)

definition continues :: "string \<Rightarrow> machine \<Rightarrow> machine \<Rightarrow> nat" where
  "continues root m m' = length (filter (\<lambda>c. c = continue_call root) (new_calls m m'))"

lemma continues_adds: "appended (add_call root) m m' \<Longrightarrow> continues root' m m' = 0"
  by (auto simp: continues_def appended_def list_all_iff filter_empty_conv)

lemma continues_trans: "appended P m1 m2 \<Longrightarrow> appended Q m2 m3 \<Longrightarrow> continues root m1 m3 = continues root m1 m2 + continues root m2 m3"
  by (simp add: continues_def new_calls_trans)

definition pause_call :: "string \<Rightarrow> git_call \<Rightarrow> bool" where
  "pause_call root c \<longleftrightarrow> add_call root c \<or> c = continue_call root"

lemma continue_run:
  assumes "on_machine ContinueFailed (rebase_continue S root) s = (x, s1)"
  shows "mc_calls (rs_machine s1) = mc_calls (rs_machine s) @ [continue_call root]" "appended (pause_call root) (rs_machine s) (rs_machine s1)"
    "continues root (rs_machine s) (rs_machine s1) = 1" "x = Inr p \<Longrightarrow> rebase_continue S root (rs_machine s) = (Inr p, rs_machine s1)"
proof -
  show c: "mc_calls (rs_machine s1) = mc_calls (rs_machine s) @ [continue_call root]"
    using assms by (auto simp: on_machine_def rebase_continue_def split: prod.splits dest!: paused_step_run)
  show "appended (pause_call root) (rs_machine s) (rs_machine s1)" by (rule appendedI [OF c]) (simp add: pause_call_def)
  show "continues root (rs_machine s) (rs_machine s1) = 1" by (simp add: continues_def new_callsI [OF c])
  show "x = Inr p \<Longrightarrow> rebase_continue S root (rs_machine s) = (Inr p, rs_machine s1)"
    using assms by (auto simp: on_machine_Inr)
qed

lemma run_stops_ends:
  assumes "\<And>m m'. rebase_continue (sv_sys V) (tg_root t) m = (Inr True, m') \<Longrightarrow> todo (git_runs m') < todo (git_runs m)"
  shows "\<exists>r s'. run_stops V t b s = Some (r, s') \<and> appended (pause_call (tg_root t)) (rs_machine s) (rs_machine s') \<and>
    continues (tg_root t) (rs_machine s) (rs_machine s') \<le> Suc (todo (git_runs (rs_machine s)))"
proof (induction "todo (git_runs (rs_machine s))" arbitrary: b s rule: less_induct)
  case less
  let ?root = "tg_root t"
  show ?case
  proof (cases b)
    case False
    then show ?thesis by (simp add: run_stops.simps [of V t False s] continues_def calls.rel_refl)
  next
    case True
    obtain x s1 where c: "on_machine ContinueFailed (rebase_continue (sv_sys V) ?root) s = (x, s1)" by fastforce
    note cont = continue_run [OF c]
    note unfold = True run_stops.simps [of V t True s] c
    show ?thesis
    proof (cases "x = Inr True")
      case False
      then have "\<exists>r. run_stops V t b s = Some (r, s1)" by (cases x) (auto simp: unfold)
      with cont(2,3) show ?thesis by auto
    next
      case paused: True
      have dec: "todo (git_runs (rs_machine s1)) < todo (git_runs (rs_machine s))" using assms cont(4) [OF paused] by blast
      obtain d s2 where d: "drive_stop V t PauseRebase s1 = (d, s2)" by fastforce
      have adds: "appended (add_call ?root) (rs_machine s1) (rs_machine s2)" using calls.keepsD [OF drive_stop_calls d] .
      then have adds': "appended (pause_call ?root) (rs_machine s1) (rs_machine s2)" by (rule appended_mono) (auto simp: pause_call_def)
      note upto = calls.rel_trans [OF cont(2) adds']
      have one: "continues ?root (rs_machine s) (rs_machine s2) = 1"
        using continues_trans [OF cont(2) adds] continues_adds [OF adds] cont(3) by simp
      show ?thesis
      proof (cases d)
        case (Inl e)
        then have "run_stops V t b s = Some (Inl e, s2)" by (simp add: unfold paused d)
        with upto one show ?thesis by auto
      next
        case (Inr b2)
        have same: "git_runs (rs_machine s2) = git_runs (rs_machine s1)" using git_runs_adds [OF adds] .
        have "todo (git_runs (rs_machine s2)) < todo (git_runs (rs_machine s))" using dec same by simp
        from less.hyps [OF this, of b2] obtain r s' where
            ih: "run_stops V t b2 s2 = Some (r, s')" "appended (pause_call ?root) (rs_machine s2) (rs_machine s')"
              "continues ?root (rs_machine s2) (rs_machine s') \<le> Suc (todo (git_runs (rs_machine s2)))"
          by blast
        have "run_stops V t b s = Some (r, s')" using ih(1) by (simp add: unfold paused d Inr)
        moreover have "continues ?root (rs_machine s) (rs_machine s') \<le> Suc (todo (git_runs (rs_machine s)))"
          using continues_trans [OF upto ih(2)] ih(3) one dec same by simp
        ultimately show ?thesis using calls.rel_trans [OF upto ih(2)] by blast
      qed
    qed
  qed
qed


section \<open>Push\<close>

abbreviation push_call :: "string \<Rightarrow> git_call" where
  "push_call root \<equiv> GitRun root [''push'']"

abbreviation commits_files :: "git_call \<Rightarrow> bool" where
  "commits_files c \<equiv> \<exists>root msg ps. c = GitCommit root msg ps"

lemma write_marker_calls: "write_last_push_error S E root d m = (r, m') \<Longrightarrow> mc_calls m' = mc_calls m"
  by (auto simp: write_last_push_error_def act_bind_def mkdir_all_def act_return_def act_fail_def Let_def put_file_def
      split: if_splits prod.splits sum.splits)

lemma clear_marker_calls: "clear_last_push_error S E root m = (r, m') \<Longrightarrow> mc_calls m' = mc_calls m"
  by (auto simp: clear_last_push_error_def Let_def drop_file_def split: option.splits if_splits)

definition integration_call :: "string \<Rightarrow> git_call \<Rightarrow> bool" where
  "integration_call root c \<longleftrightarrow> add_call root c \<or> c \<in> {fetch_call root, ff_call root, merge_call root, merge_commit_call root}"

lemma fast_forward_calls: "only_calls (integration_call (tg_root t)) (fast_forward V t)"
  by (rule calls.keepsI) (auto dest!: fast_forward_run intro: appended_same appendedI simp: integration_call_def)

lemma merge_onto_calls: "only_calls (integration_call (tg_root t)) (merge_onto_upstream V t)"
proof (rule calls.keepsI)
  fix s r s' assume "merge_onto_upstream V t s = (r, s')"
  then obtain cs where "mc_calls (rs_machine s') = mc_calls (rs_machine s) @ cs" "merged_calls (tg_root t) r cs" by (rule merge_onto_run)
  moreover then have "list_all (integration_call (tg_root t)) cs"
    by (auto simp: merged_calls_def integration_call_def list_all_iff)
  ultimately show "appended (integration_call (tg_root t)) (rs_machine s) (rs_machine s')" by (rule_tac appendedI)
qed

text \<open>An integration without a snapshot: the fetch, and then nothing that commits files or pushes.\<close>

lemma plain_integration:
  assumes "fetch_and_integrate V t False s = (r, s')"
  obtains cs where "mc_calls (rs_machine s') = mc_calls (rs_machine s) @ fetch_call (tg_root t) # cs" "list_all (integration_call (tg_root t)) cs"
proof -
  define G where "G = (\<lambda>_::unit. act_bind (look_at UpstreamUnclassified (compare_upstream (sv_sys V) (tg_root t))) (\<lambda>rel.
       case rel of
         RelBased \<Rightarrow> act_bind (snapshot_then V t False) (\<lambda>_. act_return False)
       | RelBehind \<Rightarrow> act_bind (fast_forward V t) (\<lambda>_. act_bind (snapshot_then V t False) (\<lambda>_. act_return False))
       | RelDiverged \<Rightarrow> act_bind (snapshot_then V t False) (\<lambda>_. merge_onto_upstream V t)))"
  have none: "only_calls P (snapshot_then V t False)" for P by (simp add: snapshot_then_def calls.keeps_basic)
  have G: "only_calls (integration_call (tg_root t)) (G u)" for u
    unfolding G_def
    by (rule calls.keeps_bind [OF calls.keeps_basic(6)])
      (auto split: upstream_relation.split intro!: calls.keeps_bind calls.keeps_basic none fast_forward_calls merge_onto_calls)
  obtain f m1 where f: "git_fetch (sv_sys V) (tg_root t) (rs_machine s) = (f, m1)" by fastforce
  then have c: "mc_calls m1 = mc_calls (rs_machine s) @ [fetch_call (tg_root t)]" by (auto simp: git_fetch_def dest: git_step_run)
  from assms have run: "act_bind (on_machine FetchFailed (git_fetch (sv_sys V) (tg_root t))) G s = (r, s')"
    by (simp add: fetch_and_integrate_def G_def)
  show thesis
  proof (cases f)
    case (Inl e)
    with run f c show thesis using that [of "[]"] by (auto simp: act_bind_def on_machine_def)
  next
    case (Inr u)
    with run f have "G u (s\<lparr>rs_machine := m1\<rparr>) = (r, s')" by (simp add: act_bind_def on_machine_def)
    from calls.keepsD [OF G this] c show thesis using that by (auto elim!: appendedE)
  qed
qed

lemma try_push_run:
  assumes "try_push V t s = (r, s')"
  shows "mc_calls (rs_machine s') = mc_calls (rs_machine s) @ [push_call (tg_root t)]" "\<exists>x. r = Inr x"
  using assms by (auto simp: try_push_def git_push_def split: prod.splits sum.splits dest: git_step_run)

text \<open>The last push landed, and its marker is gone unless it could not be removed.\<close>

definition landed :: "sync_env \<Rightarrow> target \<Rightarrow> sync_fault + bool \<Rightarrow> sync_state \<Rightarrow> bool" where
  "landed V t r s \<longleftrightarrow> r = Inr False \<and> ss_pushed s \<and>
     (disk_file (mc_disk (rs_machine s)) (push_error_path (sv_sys V) (tg_root t)) = None \<or>
      we_fault (sv_env V) (IoRemove (push_error_path (sv_sys V) (tg_root t))))"

lemma after_push_run:
  assumes "after_push V t s = (r, s')"
  shows "mc_calls (rs_machine s') = mc_calls (rs_machine s)" "landed V t r s'"
  using assms
  by (auto simp: landed_def after_push_def clear_last_push_error_def Let_def disk_file_drop
      split: prod.splits option.splits if_splits)

lemma record_push_failure_run:
  "record_push_failure V t e s = (r, s') \<Longrightarrow> r = Inr () \<and> mc_calls (rs_machine s') = mc_calls (rs_machine s)"
  by (auto simp: record_push_failure_def split: prod.splits dest: write_marker_calls)

lemma push_again_run:
  assumes "push_again V t e s = (r, s')"
  obtains cs where "list_all (integration_call (tg_root t)) cs"
    "mc_calls (rs_machine s') = mc_calls (rs_machine s) @ fetch_call (tg_root t) # cs \<and> r \<noteq> Inr False \<or>
     mc_calls (rs_machine s') = mc_calls (rs_machine s) @ fetch_call (tg_root t) # cs @ [push_call (tg_root t)] \<and>
       (landed V t r s' \<or> (\<exists>e2. r = Inl (PushFailed e2)))"
proof -
  obtain x s1 where f: "fetch_and_integrate V t False (s\<lparr>rs_lines := rs_lines s @ [PushRejected e]\<rparr>) = (x, s1)" by fastforce
  then obtain cs where cs: "mc_calls (rs_machine s1) = mc_calls (rs_machine s) @ fetch_call (tg_root t) # cs"
      "list_all (integration_call (tg_root t)) cs" by (rule plain_integration) simp
  show thesis
  proof (cases "x = Inr False")
    case False
    with assms f have "mc_calls (rs_machine s') = mc_calls (rs_machine s1) \<and> r \<noteq> Inr False"
      by (cases x) (auto simp: push_again_def act_bind_def act_fail_def act_return_def split: bool.splits prod.splits sum.splits
          dest!: record_push_failure_run)
    with cs that show thesis by simp
  next
    case True
    obtain y s2 where p: "try_push V t s1 = (Inr y, s2)" using try_push_run(2) by (metis surj_pair)
    note c2 = try_push_run(1) [OF p]
    have rest: "(case y of Some e2 \<Rightarrow> act_bind (record_push_failure V t e2) (\<lambda>_. act_fail (PushFailed e2)) | None \<Rightarrow> after_push V t) s2 = (r, s')"
      using assms f True p by (simp add: push_again_def act_bind_def)
    show thesis
    proof (cases y)
      case None
      with rest have a: "after_push V t s2 = (r, s')" by simp
      show thesis using that [OF cs(2)] after_push_run [OF a] c2 cs(1) by simp
    next
      case (Some e2)
      with rest have "mc_calls (rs_machine s') = mc_calls (rs_machine s2)" "r = Inl (PushFailed e2)"
        by (auto simp: act_bind_def act_fail_def split: prod.splits sum.splits dest!: record_push_failure_run)
      then show thesis using that [OF cs(2)] c2 cs(1) by simp
    qed
  qed
qed

definition pushed_calls :: "sync_env \<Rightarrow> target \<Rightarrow> sync_fault + bool \<Rightarrow> sync_state \<Rightarrow> git_call list \<Rightarrow> bool" where
  "pushed_calls V t r s calls \<longleftrightarrow>
     calls = [push_call (tg_root t)] \<and> landed V t r s \<or>
     (\<exists>cs. list_all (integration_call (tg_root t)) cs \<and>
       (calls = push_call (tg_root t) # fetch_call (tg_root t) # cs \<and> r \<noteq> Inr False \<or>
        calls = push_call (tg_root t) # fetch_call (tg_root t) # cs @ [push_call (tg_root t)] \<and>
        (landed V t r s \<or> (\<exists>e. r = Inl (PushFailed e)))))"

lemma push_run:
  assumes "try_push V t s = (Inr y, s1)"
    and "(case y of None \<Rightarrow> after_push V t | Some e \<Rightarrow> push_again V t e) s1 = (r, s')"
  shows "pushed_calls V t r s' (new_calls (rs_machine s) (rs_machine s'))"
proof (cases y)
  case None
  with assms(2) have a: "after_push V t s1 = (r, s')" by simp
  from after_push_run [OF a] try_push_run(1) [OF assms(1)] show ?thesis by (simp add: pushed_calls_def new_callsI)
next
  case (Some e)
  with assms(2) have "push_again V t e s1 = (r, s')" by simp
  then show ?thesis
  proof (rule push_again_run)
    fix cs assume cs: "list_all (integration_call (tg_root t)) cs"
      "mc_calls (rs_machine s') = mc_calls (rs_machine s1) @ fetch_call (tg_root t) # cs \<and> r \<noteq> Inr False \<or>
       mc_calls (rs_machine s') = mc_calls (rs_machine s1) @ fetch_call (tg_root t) # cs @ [push_call (tg_root t)] \<and>
         (landed V t r s' \<or> (\<exists>e2. r = Inl (PushFailed e2)))"
    show ?thesis
      unfolding pushed_calls_def
      by (rule disjI2, rule exI [of _ cs]) (use cs try_push_run(1) [OF assms(1)] in \<open>auto simp: new_callsI\<close>)
  qed
qed


section \<open>Syncs\<close>

text \<open>A git whose branch is behind, and that lists one dirty ticket. Not an ancestor is exit code 1, and so are staged changes.\<close>

definition behind_script :: "(string list \<times> string) list" where
  "behind_script =
     [([''fetch''], []), ([''merge-base'', ''--is-ancestor'', ''HEAD'', upstream_rev], []), ([''merge'', ''--ff-only'', upstream_rev], []),
      ([''status'', ''--porcelain'', ''-z'', ''-uall'', ''--'', ''.''], []),
      ([''status'', ''--porcelain'', ''-z'', ''-uall'', ''--'', ''/s''], '' M app-ab23-x.md'' @ [nul]),
      ([''add'', ''--'', ''/s/app-ab23-x.md''], []), ([''commit'', ''-m'', ''tk: edit app-ab23'', ''--'', ''/s/app-ab23-x.md''], []),
      ([''rev-list'', ''--count'', (CHR ''@'' # ''{u}..HEAD'')], line_of ''1''), ([''push''], [])]"

definition behind_git :: git_sys where
  "behind_git = (scripted behind_script)\<lparr>gs_answer := \<lambda>m root env args.
     if args \<in> {[''merge-base'', ''--is-ancestor'', upstream_rev, ''HEAD''], [''diff'', ''--cached'', ''--quiet'', ''--'', ''/s/app-ab23-x.md'']}
     then (answered [])\<lparr>gx_code := 1\<rparr> else gs_answer (scripted behind_script) m root env args\<rparr>"

definition behind_env :: sync_env where
  "behind_env = merge_env\<lparr>sv_sys := behind_git\<rparr>"

abbreviation behind_run :: "(sync_fault + bool) \<times> sync_state" where
  "behind_run \<equiv> fetch_and_integrate behind_env app_target True (fresh_sync both_machine)"

lemma behind_finished: "fst behind_run = Inr False"
  by code_simp

lemma behind_compared:
  "compare_upstream (sv_sys behind_env) (tg_root app_target) (snd (git_fetch (sv_sys behind_env) (tg_root app_target) both_machine)) = Inr RelBehind"
  by code_simp

lemma from_start: "new_calls both_machine m = mc_calls m"
  by (simp add: new_calls_def machine_of_def)


abbreviation push_sample :: "(sync_fault + bool) \<times> sync_state" where
  "push_sample \<equiv> push_if_ahead behind_env app_target (fresh_sync both_machine)"

lemma push_sample_done: "fst push_sample = Inr False" "unpushed_count (sv_sys behind_env) (tg_root app_target) both_machine = Inr 1"
  by code_simp+


text \<open>A rebase that is clean, and then stops at a file that nothing here resolves.\<close>

definition continued :: "machine \<Rightarrow> bool" where
  "continued m \<longleftrightarrow> continue_call ''/s'' \<in> set (mc_calls m)"

definition stop_git :: git_sys where
  "stop_git = (scripted [])\<lparr>gs_answer := \<lambda>m root env args.
     if args = [''rev-parse'', ''--git-path'', ''rebase-merge''] then answered ''/s''
     else if args = [''diff'', ''--name-only'', ''--diff-filter=U''] then answered (if continued m then ''x.txt'' else [])
     else if args = [''rev-parse'', ''HEAD''] \<or> args = [''rev-parse'', ''REBASE_HEAD''] then answered ''h''
     else if args = [''rebase'', ''--continue''] \<and> continued m then answered []
     else \<lparr>gx_code = 1, gx_out = [], gx_err = ''stopped'', gx_text = []\<rparr>\<rparr>"

definition stop_env :: sync_env where
  "stop_env = merge_env\<lparr>sv_sys := stop_git\<rparr>"

definition left_to_do :: "git_call list \<Rightarrow> nat" where
  "left_to_do cs = (if continue_call ''/s'' \<in> set cs then 0 else 1)"

lemma stop_decreases:
  assumes "rebase_continue (sv_sys stop_env) (tg_root app_target) m = (Inr True, m')"
  shows "left_to_do (git_runs m') < left_to_do (git_runs m)"
proof -
  have "mc_calls m' = mc_calls m @ [continue_call ''/s'']"
    using assms by (auto simp: rebase_continue_def app_target_def dest: paused_step_run)
  moreover have "\<not> continued m"
    using assms
    by (auto simp: rebase_continue_def paused_step_def git_step_def Let_def stop_env_def stop_git_def app_target_def answered_def
        split: prod.splits sum.splits if_splits)
  ultimately show ?thesis by (auto simp: left_to_do_def git_runs_def continued_def)
qed


end
