(* ===== verification/Diagnoses.thy ===== *)
theory Diagnoses
  imports SyncFacts OrderKeys
begin

text \<open>
  The report of \<open>tk doctor\<close>, \<open>internal/integrity/diagnose.go\<close>. A line is data, with what its text shows. The state of the
  diagnoser is the machine with the rows it has read; durations are nanoseconds.
\<close>

section \<open>Findings\<close>

datatype mismatch = IdNotPrefix | IdNotShaped | NameNotShaped

datatype type_fault =
    NotListOfStrings
  | NonStringEntry goval
  | OutsideValues string
  | NotString
  | StringOutsideValues string
  | NotInteger
  | NotBool

datatype finding =
    FoundUnreachable string string
  | FoundDrift string string string
  | FoundConfig string string
  | FoundDuplicate string "string list"
  | FoundEqualOrder string string "string list"
  | FoundParseError string string string
  | FoundOrderMissing string string
  | FoundOrderInvalid string string string
  | FoundOrderLong string nat string
  | FoundArchiveNonTerminal string string string
  | FoundTerminalAtRoot string string string
  | FoundDisputed string "string list" string "bool option"
  | FoundStale string string int string
  | FoundIllegalEntry string string
  | FoundMismatch mismatch string string
  | FoundCreated string string string
  | FoundChanged string string string
  | FoundSelfDepends string string
  | FoundSelfRelated string string
  | FoundRepeated string string string string
  | FoundLinkShaped string string string
  | FoundUnknownStatus string string string
  | FoundUndeclared string string string
  | FoundFieldType string string type_fault string
  | FoundCycle string
  | FoundRelatedMissing string string
  | FoundDangling string string
  | FoundUnresolvable string string
  | FoundAbandoned string string
  | FoundSyncDisabled string
  | FoundPushError string string
  | FoundUncommitted string nat string
  | FoundMismatchedAuto string
  | FoundPrefix string string string
  | FoundResidue string string
  | FoundDesignId string string "string list"
  | FoundProducesBroken string string
  | FoundProducesMissing string string string

datatype diagnose_error =
    DiagnoseReconcile write_error
  | DiagnoseUnread string
  | DiagnoseUnlisted string

record diagnosis = reported +
  dg_rows :: "(string \<times> ticket) list"
  dg_edges :: "edge list"
  dg_roots :: "string set"
  dg_config :: "string set"
  dg_refreshed :: "string set"
  dg_lines :: "finding list"

type_synonym 'a diag = "diagnosis \<Rightarrow> (diagnose_error + 'a) \<times> diagnosis"

text \<open>\<open>hasRow\<close> and \<open>rowByID\<close> have the same keys: of several rows with one id, the first read counts.\<close>

definition has_row :: "diagnosis \<Rightarrow> string \<Rightarrow> bool" where
  "has_row d i \<longleftrightarrow> map_of (dg_rows d) i \<noteq> None"

definition index_rows :: "ticket list \<Rightarrow> (string \<times> ticket) list" where
  "index_rows ts = fold (\<lambda>p out. if map_of out (tk_id p) = None then AList.update (tk_id p) p out else out) ts []"

definition new_diagnoser :: "machine \<Rightarrow> diagnosis" where
  "new_diagnoser m =
     \<lparr>rs_machine = m, rs_lines = [], dg_rows = index_rows (all_tickets (mc_db m)), dg_edges = all_edges (mc_db m),
      dg_roots = {}, dg_config = {}, dg_refreshed = {}, dg_lines = []\<rparr>"

definition found :: "finding list \<Rightarrow> unit diag" where
  "found ls d = (Inr (), d\<lparr>dg_lines := dg_lines d @ ls\<rparr>)"

section \<open>One row\<close>

definition hour :: int where "hour = 3600 * 10 ^ 9"
definition stale_for :: int where "stale_for = 72 * hour"

text \<open>\<open>Round(time.Hour)\<close> of a duration that is not negative.\<close>

definition round_hour :: "int \<Rightarrow> int" where
  "round_hour d = (d + hour div 2) div hour"

definition order_findings :: "ticket \<Rightarrow> finding list" where
  "order_findings p =
     (if tk_order_key p = [] then [FoundOrderMissing (tk_id p) (tk_path p)]
      else if \<not> valid (tk_order_key p) then [FoundOrderInvalid (tk_id p) (tk_order_key p) (tk_path p)]
      else if order_long_threshold < length (tk_order_key p) then [FoundOrderLong (tk_id p) (length (tk_order_key p)) (tk_path p)]
      else [])"

definition layout_findings :: "category gomap \<Rightarrow> ticket \<Rightarrow> finding list" where
  "layout_findings custom p =
     (let terminal = is_terminal (tk_status p) custom in
      if tk_archived p \<and> \<not> terminal then [FoundArchiveNonTerminal (tk_id p) (tk_status p) (tk_path p)]
      else if \<not> tk_archived p \<and> terminal then [FoundTerminalAtRoot (tk_id p) (tk_status p) (tk_path p)]
      else [])"

definition stale_findings :: "externals \<Rightarrow> int \<Rightarrow> ticket \<Rightarrow> finding list" where
  "stale_findings X now p =
     (if tk_status p = st_in_progress \<and> 0 < tk_mtime p \<and> stale_for < now - tk_mtime p
      then [FoundStale st_in_progress (tk_id p) (round_hour (now - tk_mtime p)) (tk_path p)] else []) @
     (if tk_status p = st_review \<or> tk_status p = st_blocked then
        case x_rfc3339 X (tk_changed p) of
          None \<Rightarrow> []
        | Some changed \<Rightarrow>
            if now - changed \<le> stale_for then []
            else [FoundStale (tk_status p) (tk_id p) (round_hour (now - changed)) (tk_path p)]
      else [])"

text \<open>The tail of the line: unknown, a root that is stopped, or stale residue.\<close>

definition disputed_finding :: "sync_env \<Rightarrow> machine \<Rightarrow> string \<Rightarrow> bool option \<Rightarrow> ticket \<Rightarrow> finding" where
  "disputed_finding V m dir auto p =
     FoundDisputed (tk_id p) (tk_status_conflict p) (tk_path p)
       (case auto of
          None \<Rightarrow> None
        | Some autoCommit \<Rightarrow>
            Some (autoCommit \<and>
                  (case repo_root (sv_sys V) dir m of
                     None \<Rightarrow> False | Some root \<Rightarrow> mid_rebase (sv_sys V) m root \<or> mid_merge (sv_sys V) m root)))"

definition valid_rfc3339 :: "externals \<Rightarrow> string \<Rightarrow> bool" where
  "valid_rfc3339 X s \<longleftrightarrow> s \<noteq> [] \<and> x_rfc3339 X s \<noteq> None"

fun first_duplicate :: "string set \<Rightarrow> string list \<Rightarrow> string" where
  "first_duplicate seen [] = []"
| "first_duplicate seen (e # es) = (if e \<in> seen then e else first_duplicate (insert e seen) es)"

definition string_elems :: "goval \<Rightarrow> string list" where
  "string_elems v = (case v of VList vs \<Rightarrow> List.map_filter (\<lambda>e. case e of VStr s \<Rightarrow> Some s | _ \<Rightarrow> None) vs | _ \<Rightarrow> [])"

definition enum_values :: "field_decl \<Rightarrow> string list" where
  "enum_values f = (case fd_values f of None \<Rightarrow> [] | Some vs \<Rightarrow> vs)"

text \<open>A list decoded from YAML is a \<open>[]any\<close>: \<open>VList\<close>.\<close>

definition field_type_error :: "field_decl \<Rightarrow> goval \<Rightarrow> type_fault option" where
  "field_type_error f v =
     (if fd_type f = field_strings then
        (case v of
           VList es \<Rightarrow>
             (case find (\<lambda>e. case e of VStr s \<Rightarrow> False | _ \<Rightarrow> True) es of
                Some e \<Rightarrow> Some (NonStringEntry e)
              | None \<Rightarrow>
                  if length (enum_values f) > 0
                  then map_option OutsideValues (find (\<lambda>s. s \<notin> set (enum_values f)) (string_elems v))
                  else None)
         | _ \<Rightarrow> Some NotListOfStrings)
      else if fd_type f = field_string then
        (case v of
           VStr s \<Rightarrow> if length (enum_values f) > 0 \<and> s \<notin> set (enum_values f) then Some (StringOutsideValues s) else None
         | _ \<Rightarrow> Some NotString)
      else if fd_type f = field_int then (case v of VInt i \<Rightarrow> None | _ \<Rightarrow> Some NotInteger)
      else if fd_type f = field_bool then (case v of VBool b \<Rightarrow> None | _ \<Rightarrow> Some NotBool)
      else None)"

definition repeated :: "ticket \<Rightarrow> string \<Rightarrow> string list \<Rightarrow> finding list" where
  "repeated p what es = (let dup = first_duplicate {} es in if dup \<noteq> [] then [FoundRepeated (tk_id p) what dup (tk_path p)] else [])"

definition custom_findings :: "schema \<Rightarrow> ticket \<Rightarrow> field \<Rightarrow> finding list" where
  "custom_findings sc p f =
     (case map_of (sc_fields sc) (fst f) of
        None \<Rightarrow> [FoundUndeclared (tk_id p) (fst f) (tk_path p)]
      | Some decl \<Rightarrow>
          (case field_type_error decl (snd f) of
             Some reason \<Rightarrow> [FoundFieldType (tk_id p) (fst f) reason (tk_path p)]
           | None \<Rightarrow> if fd_type decl = field_strings then repeated p (fst f) (string_elems (snd f)) else []))"

definition name_findings :: "string \<Rightarrow> string \<Rightarrow> finding list" where
  "name_findings base i =
     (if i = [] \<or> \<not> prefix (i @ ''-'') base \<and> trim_suffix md_ext base \<noteq> i then [FoundMismatch IdNotPrefix base i]
      else if \<not> is_full_ticket_id i then [FoundMismatch IdNotShaped base i]
      else if \<not> looks_like_ticket base then [FoundMismatch NameNotShaped base i]
      else [])"

definition model_findings :: "externals \<Rightarrow> schema option \<Rightarrow> ticket \<Rightarrow> fm_model \<Rightarrow> finding list" where
  "model_findings X sc p fm =
     name_findings (path_base (tk_path p)) (fm_id fm) @
     (if \<not> valid_rfc3339 X (fm_created fm) then [FoundCreated (tk_id p) (fm_created fm) (tk_path p)] else []) @
     (if fm_changed fm \<noteq> [] \<and> \<not> valid_rfc3339 X (fm_changed fm) then [FoundChanged (tk_id p) (fm_changed fm) (tk_path p)] else []) @
     (if fm_id fm \<in> set (fm_depends fm) then [FoundSelfDepends (tk_id p) (tk_path p)] else []) @
     (if fm_id fm \<in> set (fm_related fm) then [FoundSelfRelated (tk_id p) (tk_path p)] else []) @
     repeated p ''depends'' (fm_depends fm) @ repeated p ''related'' (fm_related fm) @
     repeated p ''tags'' (fm_tags fm) @ repeated p ''links'' (fm_links fm) @
     map (\<lambda>link. FoundLinkShaped (tk_id p) link (tk_path p)) (filter is_full_ticket_id (fm_links fm)) @
     (case sc of
        None \<Rightarrow> []
      | Some s \<Rightarrow>
          (if fm_status fm \<noteq> [] \<and> \<not> status_known sc (fm_status fm) then [FoundUnknownStatus (tk_id p) (fm_status fm) (tk_path p)] else []) @
          concat (map (custom_findings s p) (fm_custom fm)))"

text \<open>A file that cannot be read or parsed is left to the parse error of its row.\<close>

definition frontmatter_findings :: "sync_env \<Rightarrow> machine \<Rightarrow> schema option \<Rightarrow> ticket \<Rightarrow> finding list" where
  "frontmatter_findings V m sc p =
     (case reads_now (sv_env V) m (tk_path p) of
        ReadOk data \<Rightarrow>
          (case split_fence data of
             (interior, body, present) \<Rightarrow>
               if \<not> present then []
               else case parse_fm (yaml_of V) interior of Inl e \<Rightarrow> [] | Inr fm \<Rightarrow> model_findings (sv_ext V) sc p fm)
      | _ \<Rightarrow> [])"

definition row_findings :: "sync_env \<Rightarrow> machine \<Rightarrow> string \<Rightarrow> int \<Rightarrow> schema option \<Rightarrow> bool option \<Rightarrow> ticket \<Rightarrow> finding list" where
  "row_findings V m dir now sc auto p =
     (if tk_parse_error p then [FoundParseError (tk_id p) (tk_parse_msg p) (tk_path p)]
      else
        order_findings p @ layout_findings (custom_statuses sc) p @
        (if length (tk_status_conflict p) > 0 then [disputed_finding V m dir auto p] else []) @
        stale_findings (sv_ext V) now p @
        (if tk_schema_error p then [FoundIllegalEntry (tk_id p) (tk_path p)] else []) @
        frontmatter_findings V m sc p)"

definition per_row :: "sync_env \<Rightarrow> machine \<Rightarrow> string \<Rightarrow> int \<Rightarrow> ticket list \<Rightarrow> schema option \<Rightarrow> bool option \<Rightarrow> finding list" where
  "per_row V m dir now rows sc auto = concat (map (row_findings V m dir now sc auto) rows)"

section \<open>Ids of a scope\<close>

definition design_held_shorts :: "string \<Rightarrow> machine \<Rightarrow> string set" where
  "design_held_shorts scope m = set (filter is_short_id (map ds_short_id (scope_designs scope (mc_db m))))"

definition collision_findings :: "string \<Rightarrow> machine \<Rightarrow> finding list" where
  "collision_findings scope m =
     map (\<lambda>c. FoundDuplicate (cg_key c) (cg_members c))
       (filter (\<lambda>c. Integrity.short_of (cg_key c) \<notin> design_held_shorts scope m) (duplicate_ids [scope] (mc_db m))) @
     map (\<lambda>c. FoundEqualOrder scope (cg_key c) (cg_members c)) (equal_orders [scope] (mc_db m))"

section \<open>Edges\<close>

text \<open>
  \<open>reaches\<close> walks the graph depth first. The list is what is left of the loops of its calls, the innermost first; an
  answer of true ends them all.
\<close>

definition succs :: "(string \<times> string) list \<Rightarrow> string \<Rightarrow> string list" where
  "succs adj n = map snd (filter (\<lambda>e. fst e = n) adj)"

function reaches_from :: "(string \<times> string) list \<Rightarrow> string \<Rightarrow> string set \<Rightarrow> string list \<Rightarrow> bool" where
  "reaches_from adj goal visited [] = False"
| "reaches_from adj goal visited (n # left) =
     (if n = goal then True
      else if n \<in> visited then reaches_from adj goal visited left
      else reaches_from adj goal (insert n visited) (succs adj n @ left))"
  by pat_completeness auto
termination
proof (relation "measures [\<lambda>(adj, goal, visited, ws). card (fst ` set adj - visited), \<lambda>(adj, goal, visited, ws). length ws]", goal_cases)
  case (3 adj goal visited n left)
  show ?case
  proof (cases "n \<in> fst ` set adj")
    case True
    with 3 have "fst ` set adj - insert n visited \<subset> fst ` set adj - visited" by blast
    then have "card (fst ` set adj - insert n visited) < card (fst ` set adj - visited)" by (intro psubset_card_mono) auto
    then show ?thesis by simp
  next
    case False
    then have "succs adj n = []" by (force simp: succs_def filter_empty_conv)
    with False show ?thesis by (simp add: Diff_insert0)
  qed
qed auto

definition depends_graph :: "edge list \<Rightarrow> (string \<times> string) list" where
  "depends_graph es = map (\<lambda>e. (e_from_id e, e_to_id e)) (filter (\<lambda>e. e_kind e = edge_depends \<and> e_from_id e \<noteq> e_to_id e) es)"

definition scope_ids :: "diagnosis \<Rightarrow> string \<Rightarrow> string list" where
  "scope_ids d scope = map fst (filter (\<lambda>(i, p). tk_scope p = scope) (dg_rows d))"

definition cycle_nodes :: "diagnosis \<Rightarrow> string \<Rightarrow> string list" where
  "cycle_nodes d scope =
     (let adj = depends_graph (dg_edges d) in
      sort (filter (\<lambda>p. reaches_from adj p {} (succs adj p)) (scope_ids d scope)))"

text \<open>\<open>SchemaOrNil\<close> of the target's scope, which is none of an unregistered scope.\<close>

definition target_schema :: "wenv \<Rightarrow> string \<Rightarrow> schema option" where
  "target_schema E scope = (case map_of (we_reg E) scope of None \<Rightarrow> None | Some dir \<Rightarrow> fst (schema_or_error (we_rec E) dir))"

definition depends_on_abandoned :: "wenv \<Rightarrow> diagnosis \<Rightarrow> string \<Rightarrow> string \<Rightarrow> bool" where
  "depends_on_abandoned E d toID toScope =
     (case map_of (dg_rows d) toID of
        None \<Rightarrow> False
      | Some row \<Rightarrow>
          if tk_status row = st_cancelled then True
          else if is_builtin (tk_status row) then False
          else case target_schema E toScope of None \<Rightarrow> False | Some sc \<Rightarrow> status_terminal (Some sc) (tk_status row))"

definition edge_findings :: "wenv \<Rightarrow> diagnosis \<Rightarrow> string \<Rightarrow> edge \<Rightarrow> finding list" where
  "edge_findings E d scope e =
     (if e_from_scope e \<noteq> scope \<or> e_from_id e = e_to_id e then []
      else if e_kind e = edge_produces then []
      else if e_kind e = edge_related then
        (if \<not> has_row d (e_to_id e) then [FoundRelatedMissing (e_from_id e) (e_to_id e)] else [])
      else
        (if e_to_scope e = scope then (if \<not> has_row d (e_to_id e) then [FoundDangling (e_from_id e) (e_to_id e)] else [])
         else if e_to_scope e \<notin> registered_set E \<or> \<not> has_row d (e_to_id e) then [FoundUnresolvable (e_from_id e) (e_to_id e)]
         else []) @
        (if depends_on_abandoned E d (e_to_id e) (e_to_scope e) then [FoundAbandoned (e_from_id e) (e_to_id e)] else []))"

definition edge_classes :: "wenv \<Rightarrow> string \<Rightarrow> unit diag" where
  "edge_classes E scope d =
     found (map FoundCycle (cycle_nodes d scope) @ concat (map (edge_findings E d scope) (dg_edges d))) d"

section \<open>Repositories\<close>

text \<open>At most one line for a broken configuration.\<close>

definition config_unparseable :: "string \<Rightarrow> string \<Rightarrow> unit diag" where
  "config_unparseable scope reason d =
     (if scope \<in> dg_config d then (Inr (), d)
      else found [FoundConfig scope reason] (d\<lparr>dg_config := insert scope (dg_config d)\<rparr>))"

definition auto_commit_for :: "rec_result \<Rightarrow> string \<Rightarrow> schema option \<Rightarrow> bool option" where
  "auto_commit_for res scope sc = (if rr_config_errs res scope \<noteq> None then None else Some (schema_auto_commit sc))"

definition sibling_preflight :: "wenv \<Rightarrow> string \<times> string \<Rightarrow> bool \<times> bool \<Rightarrow> (bool \<times> bool) diag" where
  "sibling_preflight E entry seen =
     (case entry of (name, dir) \<Rightarrow>
      case schema_or_error (we_rec E) dir of
        (sc, Some reason) \<Rightarrow> act_bind (config_unparseable name reason) (\<lambda>_. act_return seen)
      | (None, None) \<Rightarrow> act_return seen
      | (Some s, None) \<Rightarrow> act_return (if sc_auto_commit s then (True, snd seen) else (fst seen, True)))"

definition root_preflight :: "sync_env \<Rightarrow> string \<Rightarrow> unit diag" where
  "root_preflight V root d =
     act_bind (peek (git_root_scopes V root)) (\<lambda>siblings.
     act_bind (each_acc (sibling_preflight (sv_env V)) siblings (False, False)) (\<lambda>seen.
       if fst seen \<and> snd seen then found [FoundMismatchedAuto root] else act_return ())) d"

definition root_once :: "sync_env \<Rightarrow> string option \<Rightarrow> unit diag" where
  "root_once V root d =
     (case root of
        None \<Rightarrow> (Inr (), d)
      | Some r \<Rightarrow> if r \<in> dg_roots d then (Inr (), d) else root_preflight V r (d\<lparr>dg_roots := insert r (dg_roots d)\<rparr>))"

definition health_findings :: "sync_env \<Rightarrow> machine \<Rightarrow> string \<Rightarrow> string \<Rightarrow> bool \<Rightarrow> string option \<Rightarrow> finding list" where
  "health_findings V m scope dir autoCommit root =
     (if autoCommit then
        (if root = None \<or> \<not> has_upstream (sv_sys V) m (the root) then [FoundSyncDisabled scope] else []) @
        (case root of
           None \<Rightarrow> []
         | Some r \<Rightarrow> (case read_last_push_error (sv_sys V) (sv_env V) m r of None \<Rightarrow> [] | Some detail \<Rightarrow> [FoundPushError scope detail]))
      else case root of
             None \<Rightarrow> []
           | Some r \<Rightarrow>
               let n = count_allowlisted_dirty (sv_sys V) m dir r in
               if n > 0 then [FoundUncommitted scope n dir] else [])"

definition repo_health :: "sync_env \<Rightarrow> rec_result \<Rightarrow> string \<Rightarrow> string \<Rightarrow> schema option \<Rightarrow> unit diag" where
  "repo_health V res scope dir sc d =
     act_bind (peek (repo_root (sv_sys V) dir)) (\<lambda>root.
     act_bind (root_once V root) (\<lambda>_.
       case auto_commit_for res scope sc of
         None \<Rightarrow> act_return ()
       | Some autoCommit \<Rightarrow>
           act_bind (peek (\<lambda>m. health_findings V m scope dir autoCommit root)) found)) d"

section \<open>Files\<close>

definition dirs_between :: "string \<Rightarrow> string \<Rightarrow> string list" where
  "dirs_between dir p =
     (let parts = split_byte slash (drop (Suc (length dir)) p) in
      map (\<lambda>n. dir @ concat (map (\<lambda>x. slash # x) (take n parts))) [0..<length parts])"

text \<open>\<open>WalkDir\<close>: in the order of the path elements, without what is under a \<open>.git\<close> or a directory that cannot be listed.\<close>

definition walk_files :: "disk \<Rightarrow> string \<Rightarrow> string list" where
  "walk_files k dir =
     sort_key (split_byte slash)
       (filter (\<lambda>p. prefix (dir @ [slash]) p \<and> list_all (\<lambda>a. a \<notin> set (dk_locked k) \<and> path_base a \<noteq> ''.git'') (dirs_between dir p))
         (map fst (dk_files k)))"

definition residue_findings :: "disk \<Rightarrow> string \<Rightarrow> string \<Rightarrow> finding list" where
  "residue_findings k scope dir =
     map (FoundResidue scope) (filter (\<lambda>p. path_base p \<noteq> lock_name \<and> \<not> is_allowlisted p dir) (walk_files k dir))"

definition prefix_findings :: "string \<Rightarrow> string \<Rightarrow> unit diag" where
  "prefix_findings scope dir d =
     act_bind (act_read (\<lambda>d. case prefix_mismatches (mc_disk (rs_machine d)) dir scope of
                               None \<Rightarrow> Inl (DiagnoseUnlisted dir) | Some files \<Rightarrow> Inr files)) (\<lambda>files.
       found (map (\<lambda>f. FoundPrefix (pm_id f) scope (pm_path f)) files)) d"

section \<open>Designs\<close>

fun open_design_rows :: "yaml \<Rightarrow> reads \<Rightarrow> design list \<Rightarrow> diagnose_error + (design \<times> fm_model) list" where
  "open_design_rows Y rd [] = Inr []"
| "open_design_rows Y rd (p # ps) =
     (case rd (ds_path p) of
        ReadOk data \<Rightarrow>
          map_sum id (\<lambda>out.
              if ds_parse_error p then out
              else case split_fence data of
                     (interior, body, present) \<Rightarrow>
                       if \<not> present then out
                       else case parse_fm Y interior of Inl e \<Rightarrow> out | Inr fm \<Rightarrow> (p, fm) # out)
            (open_design_rows Y rd ps)
      | _ \<Rightarrow> Inl (DiagnoseUnread (ds_path p)))"

definition design_row_findings :: "design list \<Rightarrow> finding list" where
  "design_row_findings designs =
     map (\<lambda>p. FoundParseError (ds_id p) (ds_parse_msg p) (ds_path p)) (sort_key ds_path (filter ds_parse_error designs)) @
     map (\<lambda>p. FoundUnknownStatus (ds_id p) (ds_status p) (ds_path p))
       (sort_key ds_path (filter (\<lambda>p. \<not> ds_parse_error p \<and> \<not> known_design_status (ds_status p)) designs))"

definition design_name_findings :: "(design \<times> fm_model) list \<Rightarrow> finding list" where
  "design_name_findings opened =
     map (\<lambda>(p, fm). FoundMismatch IdNotPrefix (path_base (ds_path p)) (fm_id fm))
       (sort_key (\<lambda>(p, fm). ds_path p)
         (filter (\<lambda>(p, fm). let base = path_base (ds_path p) in
             fm_id fm = [] \<or> \<not> prefix (fm_id fm @ ''-'') base \<and> trim_suffix md_ext base \<noteq> fm_id fm) opened))"

definition paths_include_design :: "string \<Rightarrow> string list \<Rightarrow> bool" where
  "paths_include_design dir paths \<longleftrightarrow> list_ex (\<lambda>p. path_dir p = path_join dir design_dir) paths"

definition design_id_findings :: "string \<Rightarrow> string \<Rightarrow> ticket list \<Rightarrow> design list \<Rightarrow> finding list" where
  "design_id_findings scope dir rows designs =
     (let held = map (\<lambda>p. (tk_short_id p, tk_path p)) (filter (\<lambda>p. tk_short_id p \<noteq> []) rows) @
                 map (\<lambda>p. (ds_short_id p, ds_path p)) (filter (\<lambda>p. is_short_id (ds_short_id p)) designs);
          pathsOf = (\<lambda>short. map snd (filter (\<lambda>h. fst h = short) held)) in
      map (\<lambda>short. FoundDesignId scope short (sort (pathsOf short)))
        (sort (filter (\<lambda>short. \<not> length (pathsOf short) < 2 \<and> paths_include_design dir (pathsOf short)) (remdups (map fst held)))))"

definition produces_list :: "fm_model \<Rightarrow> (unit + string list) option" where
  "produces_list fm = map_option (\<lambda>f. string_list (snd f)) (find (\<lambda>f. fst f = ''produces'') (fm_custom fm))"

text \<open>The rows of a scope read again after a pass: of several with one id, the last counts.\<close>

definition refresh_scope_rows :: "sync_env \<Rightarrow> string \<Rightarrow> unit diag" where
  "refresh_scope_rows V scope =
     (case map_of (we_reg (sv_env V)) scope of
        None \<Rightarrow> act_return ()
      | Some dir \<Rightarrow>
          act_bind (on_machine DiagnoseReconcile (reconcile_now (sv_env V) [(scope, dir)])) (\<lambda>_ d.
            (Inr (), d\<lparr>dg_rows := fold (\<lambda>p. AList.update (tk_id p) p) (scope_tickets scope (mc_db (rs_machine d)))
                         (filter (\<lambda>(i, p). tk_scope p \<noteq> scope) (dg_rows d))\<rparr>)))"

definition produces_resolves :: "sync_env \<Rightarrow> string \<Rightarrow> bool diag" where
  "produces_resolves V target d =
     (let scope = scope_of_full_id target in
      if \<not> is_full_ticket_id target then (Inr False, d)
      else if scope \<notin> registered_set (sv_env V) then (Inr False, d)
      else
        act_bind (if scope \<in> dg_refreshed d then act_return ()
                  else act_bind (refresh_scope_rows V scope) (\<lambda>_ d. (Inr (), d\<lparr>dg_refreshed := insert scope (dg_refreshed d)\<rparr>)))
          (\<lambda>_ d. (Inr (has_row d target), d)) d)"

definition produces_file :: "sync_env \<Rightarrow> design \<times> fm_model \<Rightarrow> unit diag" where
  "produces_file V f =
     (case produces_list (snd f) of
        None \<Rightarrow> act_return ()
      | Some (Inl e) \<Rightarrow> found [FoundProducesBroken (ds_id (fst f)) (ds_path (fst f))]
      | Some (Inr ids) \<Rightarrow>
          each (\<lambda>target. act_bind (produces_resolves V target) (\<lambda>resolves.
            if \<not> resolves then found [FoundProducesMissing (ds_id (fst f)) target (ds_path (fst f))] else act_return ())) ids)"

text \<open>What was refreshed is remembered for one scope's designs.\<close>

definition produces_findings :: "sync_env \<Rightarrow> (design \<times> fm_model) list \<Rightarrow> unit diag" where
  "produces_findings V opened d =
     each (produces_file V) (sort_key (\<lambda>f. ds_path (fst f)) opened) (d\<lparr>dg_refreshed := {}\<rparr>)"

definition design_findings :: "sync_env \<Rightarrow> string \<Rightarrow> string \<Rightarrow> unit diag" where
  "design_findings V scope dir d =
     act_bind (peek (\<lambda>m. (scope_tickets scope (mc_db m), scope_designs scope (mc_db m)))) (\<lambda>(rows, designs).
     act_bind (found (design_row_findings designs)) (\<lambda>_.
     act_bind (look_at id (\<lambda>m. open_design_rows (yaml_of V) (reads_now (sv_env V) m) designs)) (\<lambda>opened.
     act_bind (found (design_name_findings opened @ design_id_findings scope dir rows designs)) (\<lambda>_.
       produces_findings V opened)))) d"

section \<open>A run\<close>

definition row_step :: "sync_env \<Rightarrow> int \<Rightarrow> rec_result \<Rightarrow> string \<Rightarrow> string \<Rightarrow> schema option \<Rightarrow> unit diag" where
  "row_step V now res scope dir sc d =
     act_bind (peek (\<lambda>m. (sort_key tk_id (scope_tickets scope (mc_db m)), collision_findings scope m))) (\<lambda>(rows, collided).
     act_bind (found collided) (\<lambda>_.
     act_bind (peek (\<lambda>m. per_row V m dir now rows sc (auto_commit_for res scope sc))) (\<lambda>ls.
     act_bind (found ls) (\<lambda>_. edge_classes (sv_env V) scope)))) d"

definition file_step :: "sync_env \<Rightarrow> rec_result \<Rightarrow> string \<Rightarrow> string \<Rightarrow> schema option \<Rightarrow> unit diag" where
  "file_step V res scope dir sc d =
     act_bind (repo_health V res scope dir sc) (\<lambda>_.
     act_bind (peek (\<lambda>m. residue_findings (mc_disk m) scope dir)) (\<lambda>rest.
     act_bind (found rest) (\<lambda>_.
     act_bind (prefix_findings scope dir) (\<lambda>_.
       design_findings V scope dir)))) d"

definition diagnose_scope :: "sync_env \<Rightarrow> int \<Rightarrow> rec_result \<Rightarrow> string \<Rightarrow> unit diag" where
  "diagnose_scope V now res scope =
     (case map_of (we_reg (sv_env V)) scope of
        None \<Rightarrow> act_return ()
      | Some dir \<Rightarrow>
          if scope \<in> rr_unreachable res then found [FoundUnreachable scope dir]
          else act_bind (peek (\<lambda>m. sv_name V m dir)) (\<lambda>cueName.
            if cueName \<noteq> None \<and> cueName \<noteq> Some scope then found [FoundDrift scope (the cueName) dir]
            else
              let sc = result_schema res scope in
              act_bind (case rr_config_errs res scope of None \<Rightarrow> act_return () | Some reason \<Rightarrow> config_unparseable scope reason) (\<lambda>_.
              act_bind (row_step V now res scope dir sc) (\<lambda>_.
                file_step V res scope dir sc))))"

definition diagnose :: "sync_env \<Rightarrow> int \<Rightarrow> rec_result \<Rightarrow> string list \<Rightarrow> machine \<Rightarrow> (diagnose_error + finding list) \<times> machine" where
  "diagnose V now res scopes m =
     (case each (diagnose_scope V now res) scopes (new_diagnoser m) of
        (Inl e, d) \<Rightarrow> (Inl e, rs_machine d)
      | (Inr u, d) \<Rightarrow> (Inr (dg_lines d), rs_machine d))"

section \<open>Cycles\<close>

lemma set_succs: "set (succs adj n) = set adj `` {n}"
  by (force simp: succs_def)

text \<open>A way out of the visited nodes goes through the list.\<close>

lemma leaves_visited:
  assumes "(v, goal) \<in> (set adj)\<^sup>*" "v \<in> visited" "goal \<notin> visited" "set adj `` visited \<subseteq> visited \<union> set ws"
  shows "\<exists>w \<in> set ws. (w, goal) \<in> (set adj)\<^sup>*"
  using assms by (induction rule: converse_rtrancl_induct) blast+

lemma reaches_from_iff:
  assumes "goal \<notin> visited" "set adj `` visited \<subseteq> visited \<union> set ws"
  shows "reaches_from adj goal visited ws \<longleftrightarrow> (\<exists>w \<in> set ws. (w, goal) \<in> (set adj)\<^sup>*)"
  using assms
proof (induction adj goal visited ws rule: reaches_from.induct)
  case (2 adj goal visited n ws)
  consider "n = goal" | (seen) "n \<noteq> goal" "n \<in> visited" | (fresh) "n \<noteq> goal" "n \<notin> visited" by blast
  then show ?case
  proof cases
    case seen
    have "reaches_from adj goal visited ws \<longleftrightarrow> (\<exists>w \<in> set ws. (w, goal) \<in> (set adj)\<^sup>*)"
      using "2.IH"(1) [OF seen] "2.prems" seen(2) by auto
    moreover have "\<exists>w \<in> set ws. (w, goal) \<in> (set adj)\<^sup>*" if "(n, goal) \<in> (set adj)\<^sup>*"
      by (rule leaves_visited [OF that seen(2) "2.prems"(1)]) (use "2.prems"(2) seen(2) in auto)
    ultimately show ?thesis using seen by auto
  next
    case fresh
    have "reaches_from adj goal (insert n visited) (succs adj n @ ws) \<longleftrightarrow>
        (\<exists>w \<in> set (succs adj n @ ws). (w, goal) \<in> (set adj)\<^sup>*)"
      by (rule "2.IH"(2) [OF fresh]) (use "2.prems" fresh(1) in \<open>auto simp: set_succs\<close>)
    moreover have "(n, goal) \<in> (set adj)\<^sup>* \<longleftrightarrow> (\<exists>w \<in> set (succs adj n). (w, goal) \<in> (set adj)\<^sup>*)"
      using fresh(1) by (auto simp: set_succs elim: converse_rtranclE intro: converse_rtrancl_into_rtrancl)
    ultimately show ?thesis using fresh by auto
  qed auto
qed simp

lemma on_cycle: "reaches_from adj p {} (succs adj p) \<longleftrightarrow> (p, p) \<in> (set adj)\<^sup>+"
  by (subst reaches_from_iff) (auto simp: set_succs intro: rtrancl_into_trancl2 dest: tranclD)

text \<open>C22. The tickets of a scope that a depends cycle is reported for are, in order, exactly those that have a row
  and that a chain of depends edges between different tickets leads back to, through whatever scopes. The search
  always ends.
\<close>
theorem cycle_nodes_exact:
  "sorted (cycle_nodes d scope) \<and> set (cycle_nodes d scope) =
     {p. (\<exists>row. (p, row) \<in> set (dg_rows d) \<and> tk_scope row = scope) \<and>
         (p, p) \<in> {(e_from_id e, e_to_id e) | e. e \<in> set (dg_edges d) \<and> e_kind e = edge_depends \<and> e_from_id e \<noteq> e_to_id e}\<^sup>+}"
proof -
  have "set (depends_graph (dg_edges d)) =
      {(e_from_id e, e_to_id e) | e. e \<in> set (dg_edges d) \<and> e_kind e = edge_depends \<and> e_from_id e \<noteq> e_to_id e}"
    by (auto simp: depends_graph_def)
  then show ?thesis by (auto simp: cycle_nodes_def Let_def on_cycle scope_ids_def image_iff)
qed

section \<open>A report changes nothing\<close>

definition same_files :: "machine \<Rightarrow> machine \<Rightarrow> bool" where
  "same_files m m' \<longleftrightarrow> mc_disk m' = mc_disk m \<and> mc_calls m' = mc_calls m \<and> mc_clock m' = mc_clock m"

interpretation files: machine_relation same_files
  by unfold_locales (auto simp: same_files_def)

lemma reconcile_now_files: "reconcile_now E ts m = (r, m') \<Longrightarrow> same_files m m'"
  by (auto simp: reconcile_now_def same_files_def split: prod.splits sum.splits)

lemma keeps_state: "(\<And>d. rs_machine (g d) = rs_machine d) \<Longrightarrow> files.keeps (\<lambda>d. (r d, g d))"
  by (rule files.keepsI) (auto simp: same_files_def)

lemma keeps_found [intro]: "files.keeps (found ls)"
  unfolding found_def by (rule keeps_state) simp

lemma keeps_edge_classes: "files.keeps (edge_classes E scope)"
  unfolding edge_classes_def found_def by (rule keeps_state) simp

lemma keeps_config: "files.keeps (config_unparseable scope reason)"
  by (rule files.keepsI) (auto simp: config_unparseable_def found_def same_files_def split: if_splits)

lemma keeps_sibling: "files.keeps (sibling_preflight E entry seen)"
  by (cases entry) (auto simp: sibling_preflight_def split: prod.split option.split intro!: files.keeps_rules keeps_config)

lemma keeps_root_preflight: "files.keeps (root_preflight V root)"
  unfolding root_preflight_def [abs_def] by (auto intro!: files.keeps_rules keeps_sibling)

lemma keeps_root_once: "files.keeps (root_once V root)"
proof (rule files.keepsI)
  fix d r d' assume "root_once V root d = (r, d')"
  then show "same_files (rs_machine d) (rs_machine d')"
    using files.keepsD [OF keeps_root_preflight [of V "the root"], of "d\<lparr>dg_roots := insert (the root) (dg_roots d)\<rparr>" r d']
    by (auto simp: root_once_def files.rel_refl split: option.splits if_splits)
qed

lemma keeps_repo_health: "files.keeps (repo_health V res scope dir sc)"
  unfolding repo_health_def [abs_def] by (auto split: option.split intro!: files.keeps_rules keeps_root_once)

lemma keeps_prefix_findings: "files.keeps (prefix_findings scope dir)"
  unfolding prefix_findings_def [abs_def] by (auto intro!: files.keeps_rules)

lemma keeps_refresh: "files.keeps (refresh_scope_rows V scope)"
  unfolding refresh_scope_rows_def
  by (auto split: option.split intro!: files.keeps_rules files.keeps_machine reconcile_now_files keeps_state)

lemma keeps_resolves: "files.keeps (produces_resolves V target)"
proof (rule files.keepsI)
  fix d r d' assume run: "produces_resolves V target d = (r, d')"
  let ?scope = "scope_of_full_id target"
  let ?f = "act_bind (if ?scope \<in> dg_refreshed d then act_return ()
      else act_bind (refresh_scope_rows V ?scope) (\<lambda>_ d. (Inr (), d\<lparr>dg_refreshed := insert ?scope (dg_refreshed d)\<rparr>)))
      (\<lambda>_ d. (Inr (has_row d target), d))"
  have "files.keeps ?f" by (auto intro!: files.keeps_rules keeps_refresh keeps_state)
  with run show "same_files (rs_machine d) (rs_machine d')"
    by (auto simp: produces_resolves_def Let_def files.rel_refl split: if_splits dest: files.keepsD)
qed

lemma keeps_produces_file: "files.keeps (produces_file V f)"
  unfolding produces_file_def by (auto split: option.split sum.split intro!: files.keeps_rules keeps_resolves)

lemma keeps_produces: "files.keeps (produces_findings V opened)"
proof (rule files.keepsI)
  fix d r d' assume "produces_findings V opened d = (r, d')"
  from files.keepsD [OF files.keeps_each [OF keeps_produces_file] this [unfolded produces_findings_def]]
  show "same_files (rs_machine d) (rs_machine d')" by simp
qed

lemma keeps_design_findings: "files.keeps (design_findings V scope dir)"
  unfolding design_findings_def [abs_def] by (auto split: prod.split intro!: files.keeps_rules keeps_produces)

lemma keeps_steps: "files.keeps (row_step V now res scope dir sc)" "files.keeps (file_step V res scope dir sc)"
  unfolding row_step_def [abs_def] file_step_def [abs_def]
  by (auto split: prod.split
      intro!: files.keeps_rules keeps_edge_classes keeps_repo_health keeps_prefix_findings keeps_design_findings)

lemma keeps_diagnose_scope: "files.keeps (diagnose_scope V now res scope)"
  unfolding diagnose_scope_def Let_def
  by (auto split: option.split intro!: files.keeps_rules keeps_config keeps_steps)

text \<open>C39. A diagnosis, whatever it finds and however it ends, changes no file, and gives git nothing to do.
\<close>
theorem diagnose_reads_only:
  assumes "diagnose V now res scopes m = (r, m')"
  shows "mc_disk m' = mc_disk m \<and> mc_calls m' = mc_calls m"
proof -
  obtain x d where run: "each (diagnose_scope V now res) scopes (new_diagnoser m) = (x, d)" by fastforce
  with assms have "m' = rs_machine d" by (cases x) (auto simp: diagnose_def)
  with files.keepsD [OF files.keeps_each [OF keeps_diagnose_scope] run] show ?thesis
    by (simp_all add: same_files_def new_diagnoser_def)
qed

section \<open>A scope with a stray file\<close>

abbreviation stray_machine :: machine where
  "stray_machine \<equiv> machine_of [(''/s/x.txt'', []), (''/s/tk.cue'', [])]"

abbreviation stray_run :: "(diagnose_error + finding list) \<times> machine" where
  "stray_run \<equiv> diagnose merge_env 0 new_result [''app''] stray_machine"

abbreviation stray_start :: diagnosis where
  "stray_start \<equiv> new_diagnoser stray_machine"

abbreviation stray_end :: diagnosis where
  "stray_end \<equiv> stray_start\<lparr>dg_lines := [FoundResidue ''app'' ''/s/x.txt'']\<rparr>"

lemma stray_steps:
  "row_step merge_env 0 new_result ''app'' ''/s'' None stray_start = (Inr (), stray_start)"
  "repo_health merge_env new_result ''app'' ''/s'' None stray_start = (Inr (), stray_start)"
  "residue_findings (mc_disk stray_machine) ''app'' ''/s'' = [FoundResidue ''app'' ''/s/x.txt'']"
  "prefix_findings ''app'' ''/s'' stray_end = (Inr (), stray_end)"
  "design_findings merge_env ''app'' ''/s'' stray_end = (Inr (), stray_end)"
  by code_simp+

lemma stray_files: "file_step merge_env new_result ''app'' ''/s'' None stray_start = (Inr (), stray_end)"
  using stray_steps by (simp add: file_step_def act_bind_def peek_def act_read_def found_def new_diagnoser_def)

lemma stray_found: "fst stray_run = Inr [FoundResidue ''app'' ''/s/x.txt'']"
proof -
  have "map_of (we_reg (sv_env merge_env)) ''app'' = Some ''/s''" "sv_name merge_env m d = None" for m d
    by (simp_all add: merge_env_def table_env_def)
  with stray_steps(1) stray_files show ?thesis
    by (simp add: diagnose_def diagnose_scope_def new_result_def result_schema_def act_bind_def act_return_def peek_def act_read_def)
qed

theorem diagnose_reads_only_witness:
  "fst stray_run = Inr [FoundResidue ''app'' ''/s/x.txt''] \<and> mc_disk (snd stray_run) = mc_disk stray_machine"
proof -
  have "stray_run = (Inr [FoundResidue ''app'' ''/s/x.txt''], snd stray_run)" using stray_found by (metis prod.collapse)
  from diagnose_reads_only [OF this] stray_found show ?thesis by simp
qed

end
