(* ===== verification/Notes.thy ===== *)
theory Notes
  imports Gits DesignOps Splices
begin

text \<open>
  The notes of a scope, \<open>internal/notes\<close>: Markdown files under \<open>notes/\<close>, and the default note of a machine, which is kept
  in \<open>note.cue\<close>. A note is not indexed and never committed by tk. The disk has regular files and directories; what is
  neither does not occur, and a note is locked out only by a directory at its path.
\<close>

section \<open>Names\<close>

datatype note_error =
    NoteBothNames
  | NoteReserved string
  | NoteInvalid string
  | NoteStoredInvalid string string
  | NoteNoText
  | NoteUnreachable write_error
  | NoteEngine write_error
  | NoteMissing string
  | NoteNotRegular string
  | NoteUnread string
  | NoteUnlisted string
  | NoteStale string
  | NoteUnwritten string
  | NoteUnremoved string
  | NoteNoDir string
  | NoteRegistry string

definition parse_slug :: "string \<Rightarrow> note_error + string" where
  "parse_slug name =
     (if is_reserved_note_name name then Inl (NoteReserved name)
      else if \<not> slug_valid name then Inl (NoteInvalid name)
      else Inr name)"

definition select_name :: "string \<Rightarrow> string \<Rightarrow> bool \<Rightarrow> string \<Rightarrow> note_error + string" where
  "select_name positional nameFlag nameSet fallback =
     (if positional \<noteq> [] \<and> nameSet then Inl NoteBothNames
      else parse_slug (if positional \<noteq> [] then positional else if nameSet then nameFlag else fallback))"

definition effective_slug :: "(string \<Rightarrow> string option) \<Rightarrow> string \<Rightarrow> note_error + string" where
  "effective_slug note scope =
     (case note scope of
        None \<Rightarrow> Inr note_default_slug
      | Some stored \<Rightarrow>
          if stored = note_default_slug then Inr note_default_slug
          else if \<not> is_addressable_note_slug stored then Inl (NoteStoredInvalid stored scope)
          else Inr stored)"

record selector =
  sr_positional :: string
  sr_name :: string
  sr_name_set :: bool

definition resolve_name :: "(string \<Rightarrow> string option) \<Rightarrow> string \<Rightarrow> selector \<Rightarrow> note_error + string" where
  "resolve_name note scope sel =
     rbind (if sr_positional sel = [] \<and> \<not> sr_name_set sel then effective_slug note scope else Inr note_default_slug) (\<lambda>fallback.
       select_name (sr_positional sel) (sr_name sel) (sr_name_set sel) fallback)"

section \<open>Files\<close>

record note_input =
  ni_scope :: string
  ni_dir :: string
  ni_slug :: string
  ni_base :: string

record note_result =
  nr_path :: string
  nr_slug :: string
  nr_body :: string
  nr_sync :: string

type_synonym 'a note_run = "(note_error, 'a) run"

definition input_file :: "note_input \<Rightarrow> string" where
  "input_file i = note_file (ni_dir i) (ni_slug i)"

definition require_dir :: "note_input \<Rightarrow> unit note_run" where
  "require_dir i =
     act_read (\<lambda>m. case scope_require (mc_disk m) (ni_scope i) (ni_dir i) of None \<Rightarrow> Inr () | Some e \<Rightarrow> Inl (NoteUnreachable e))"

text \<open>A directory at the path of a note is the one thing there that is not a regular file.\<close>

definition is_directory :: "disk \<Rightarrow> string \<Rightarrow> bool" where
  "is_directory k p \<longleftrightarrow> p \<in> set (dk_dirs k) \<or> p \<in> set (dk_locked k)"

definition refuse_non_regular :: "string \<Rightarrow> unit note_run" where
  "refuse_non_regular path = act_read (\<lambda>m. if is_directory (mc_disk m) path then Inl (NoteNotRegular path) else Inr ())"

definition refuse_stopped :: "wenv \<Rightarrow> note_input \<Rightarrow> unit note_run" where
  "refuse_stopped E i =
     act_read (\<lambda>m. case refuse_mid_rebase E (ni_scope i) (ni_dir i) m of None \<Rightarrow> Inr () | Some e \<Rightarrow> Inl (NoteEngine e))"

definition under_dir :: "disk \<Rightarrow> string \<Rightarrow> string list" where
  "under_dir k d = filter (\<lambda>p. path_dir p = d) (map fst (dk_files k) @ dk_dirs k @ dk_locked k)"

text \<open>\<open>os.Remove\<close> of a directory that is not empty fails, and that is no error here.\<close>

definition rmdir_notes :: "wenv \<Rightarrow> string \<Rightarrow> machine \<Rightarrow> machine" where
  "rmdir_notes E dir m =
     (let p = path_join dir note_dir; k = mc_disk m in
      if p \<notin> set (dk_dirs k) \<or> length (under_dir k p) > 0 \<or> we_fault E (IoRemove p) then m
      else m\<lparr>mc_disk := k\<lparr>dk_dirs := filter (\<lambda>d. d \<noteq> p) (dk_dirs k)\<rparr>\<rparr>)"

text \<open>A note that is read: absent, or its bytes with their clobber key.\<close>

definition missing_clobber_key :: string where "missing_clobber_key = ''0:missing''"

definition file_snapshot :: "wenv \<Rightarrow> (string \<Rightarrow> string) \<Rightarrow> string \<Rightarrow> machine \<Rightarrow> note_error + (string \<times> string)" where
  "file_snapshot E digest path m =
     (if is_directory (mc_disk m) path then Inl (NoteNotRegular path)
      else case disk_file (mc_disk m) path of
             None \<Rightarrow> Inr ([], missing_clobber_key)
           | Some f \<Rightarrow>
               if we_fault E (IoRead path) then Inl (NoteUnread path)
               else Inr (f_data f, clobber_key digest (f_mtime f) (f_data f)))"

definition file_clobber_key :: "wenv \<Rightarrow> (string \<Rightarrow> string) \<Rightarrow> string \<Rightarrow> machine \<Rightarrow> note_error + string" where
  "file_clobber_key E digest path m = map_sum id snd (file_snapshot E digest path m)"

definition list_notes :: "wenv \<Rightarrow> string \<Rightarrow> string \<Rightarrow> string list note_run" where
  "list_notes E scope dir =
     act_bind (require_dir \<lparr>ni_scope = scope, ni_dir = dir, ni_slug = [], ni_base = []\<rparr>) (\<lambda>_.
     act_read (\<lambda>m.
       let d = path_join dir note_dir; k = mc_disk m in
       if d \<in> set (dk_locked k) \<or> disk_file k d \<noteq> None then Inl (NoteUnlisted d)
       else
         Inr (sort (List.map_filter (\<lambda>p. case cut_suffix md_ext (path_base p) of
                                           None \<Rightarrow> None
                                         | Some stem \<Rightarrow> if is_addressable_note_slug stem then Some stem else None)
                      (filter (\<lambda>p. path_dir p = d) (map fst (dk_files k)))))))"

definition read_note :: "wenv \<Rightarrow> note_input \<Rightarrow> note_result note_run" where
  "read_note E i =
     act_bind (require_dir i) (\<lambda>_.
     act_read (\<lambda>m.
       let path = input_file i; k = mc_disk m; out = \<lparr>nr_path = path, nr_slug = ni_slug i, nr_body = [], nr_sync = []\<rparr> in
       if is_directory k path then Inl (NoteNotRegular path)
       else case disk_file k path of
              None \<Rightarrow> Inl (NoteMissing path)
            | Some f \<Rightarrow>
                if f_data f = [] then Inr out
                else if we_fault E (IoRead path) then Inl (NoteUnread path)
                else Inr (out\<lparr>nr_body := f_data f\<rparr>)))"

section \<open>Writes\<close>

definition note_write :: "wenv \<Rightarrow> string \<Rightarrow> string \<Rightarrow> unit note_run" where
  "note_write E path data = act_lift (\<lambda>e. NoteUnwritten path) (atomic_write E path data)"

text \<open>The guards of a write and its result; the write itself is an argument.\<close>

definition mutate_note :: "wenv \<Rightarrow> note_input \<Rightarrow> (string \<Rightarrow> unit note_run) \<Rightarrow> note_result note_run" where
  "mutate_note E i f =
     act_bind (require_dir i) (\<lambda>_.
     act_bind (refuse_stopped E i) (\<lambda>_.
     act_bind (f (input_file i)) (\<lambda>_.
     act_read (\<lambda>m. Inr \<lparr>nr_path = input_file i, nr_slug = ni_slug i, nr_body = [], nr_sync = design_sync_needed E (ni_dir i) m\<rparr>))))"

definition append_line :: "string \<Rightarrow> string \<Rightarrow> string" where
  "append_line existing t =
     (if length existing > 0 then if existing ! (length existing - 1) \<noteq> newline then existing @ [newline] else existing else []) @
     t @ [newline]"

definition add_note :: "wenv \<Rightarrow> note_input \<Rightarrow> string \<Rightarrow> note_result note_run" where
  "add_note E i t =
     (if t = [] then act_fail NoteNoText
      else mutate_note E i (\<lambda>path.
        act_bind (refuse_non_regular path) (\<lambda>_.
        act_bind (act_read (\<lambda>m. case disk_file (mc_disk m) path of
                    None \<Rightarrow> Inr []
                  | Some f \<Rightarrow> if we_fault E (IoRead path) then Inl (NoteUnread path) else Inr (f_data f))) (\<lambda>existing.
          note_write E path (append_line existing t)))))"

text \<open>\<open>posixLF\<close>: first every CR LF, then every CR that is left, is a LF.\<close>

fun posix_lf :: "string \<Rightarrow> string" where
  "posix_lf [] = []"
| "posix_lf [c] = [if c = carriage then newline else c]"
| "posix_lf (c # d # s) =
     (if c = carriage \<and> d = newline then newline # posix_lf s
      else (if c = carriage then newline else c) # posix_lf (d # s))"

definition normalize_contents :: "string \<Rightarrow> note_error + string" where
  "normalize_contents data =
     (if length data = 0 then Inl NoteNoText
      else let text' = posix_lf data in
           Inr (if text' ! (length text' - 1) \<noteq> newline then text' @ [newline] else text'))"

definition set_note :: "wenv \<Rightarrow> (string \<Rightarrow> string) \<Rightarrow> note_input \<Rightarrow> string \<Rightarrow> note_result note_run" where
  "set_note E digest i payload =
     act_bind (act_read (\<lambda>m. normalize_contents payload)) (\<lambda>data.
     mutate_note E i (\<lambda>path.
       act_bind (refuse_non_regular path) (\<lambda>_.
       act_bind (if ni_base i \<noteq> [] then
                   act_bind (act_read (file_clobber_key E digest path)) (\<lambda>got.
                     if got \<noteq> ni_base i then act_fail (NoteStale (ni_slug i)) else act_return ())
                 else act_return ()) (\<lambda>_.
         note_write E path data))))"

definition delete_note :: "wenv \<Rightarrow> note_input \<Rightarrow> note_result note_run" where
  "delete_note E i =
     act_bind (require_dir i) (\<lambda>_.
     act_bind (refuse_stopped E i) (\<lambda>_ m.
       let path = input_file i; out = \<lparr>nr_path = [], nr_slug = ni_slug i, nr_body = [], nr_sync = []\<rparr> in
       if is_directory (mc_disk m) path then (Inl (NoteNotRegular path), m)
       else case disk_file (mc_disk m) path of
              None \<Rightarrow> (Inr out, rmdir_notes E (ni_dir i) m)
            | Some f \<Rightarrow>
                if we_fault E (IoRemove path) then (Inl (NoteUnremoved path), m)
                else let m1 = rmdir_notes E (ni_dir i) (drop_file path m) in
                     (Inr (out\<lparr>nr_sync := design_sync_needed E (ni_dir i) m1\<rparr>), m1)))"

definition prepare_edit :: "wenv \<Rightarrow> note_input \<Rightarrow> note_result note_run" where
  "prepare_edit E i =
     act_bind (require_dir i) (\<lambda>_.
     act_bind (act_lift (\<lambda>e. NoteNoDir (ni_dir i)) (mkdir_all E (path_join (ni_dir i) note_dir))) (\<lambda>_.
     act_bind (refuse_non_regular (input_file i)) (\<lambda>_.
       act_return \<lparr>nr_path = input_file i, nr_slug = ni_slug i, nr_body = [], nr_sync = []\<rparr>)))"

text \<open>\<open>cleanupEmpty\<close>.\<close>

definition finish_edit :: "wenv \<Rightarrow> string \<Rightarrow> string \<Rightarrow> unit note_run" where
  "finish_edit E dir path m =
     (case disk_file (mc_disk m) path of
        None \<Rightarrow> (Inr (), rmdir_notes E dir m)
      | Some f \<Rightarrow>
          if f_data f = [] then
            if we_fault E (IoRemove path) then (Inl (NoteUnremoved path), m) else (Inr (), rmdir_notes E dir (drop_file path m))
          else (Inr (), rmdir_notes E dir m))"

section \<open>The default note of a machine\<close>

text \<open>The pointers of \<open>note.cue\<close> are loaded and stored under the lock of the configuration; loading or storing them can fail.\<close>

record pointers =
  pt_note :: "string \<Rightarrow> string option"
  pt_load_fault :: "string option"
  pt_store_fault :: "string option"

definition write_pointer :: "string \<Rightarrow> string \<Rightarrow> pointers \<Rightarrow> (note_error + unit) \<times> pointers" where
  "write_pointer scope name ps =
     (case pt_load_fault ps of
        Some e \<Rightarrow> (Inl (NoteRegistry e), ps)
      | None \<Rightarrow>
          case pt_store_fault ps of
            Some e \<Rightarrow> (Inl (NoteRegistry e), ps)
          | None \<Rightarrow>
              (Inr (), ps\<lparr>pt_note := (pt_note ps)(scope := if name = [] \<or> name = note_default_slug then None else Some name)\<rparr>))"

record use_input =
  us_scope :: string
  us_slug :: string
  us_clear :: bool

definition use_note :: "use_input \<Rightarrow> pointers \<Rightarrow> (note_error + string) \<times> pointers" where
  "use_note i ps =
     (if us_clear i then map_prod (map_sum id (\<lambda>_. [])) id (write_pointer (us_scope i) [] ps)
      else if us_slug i = [] then (effective_slug (pt_note ps) (us_scope i), ps)
      else case select_name (us_slug i) [] False note_default_slug of
             Inl e \<Rightarrow> (Inl e, ps)
           | Inr name \<Rightarrow> map_prod (map_sum id (\<lambda>_. name)) id (write_pointer (us_scope i) name ps))"

section \<open>Notes are kept\<close>

lemma posix_lf_clean: "carriage \<notin> set (posix_lf s)"
  by (induction s rule: posix_lf.induct) auto

lemma posix_lf_rest:
  "filter (\<lambda>c. c \<noteq> carriage \<and> c \<noteq> newline) (posix_lf s) = filter (\<lambda>c. c \<noteq> carriage \<and> c \<noteq> newline) s"
  by (induction s rule: posix_lf.induct) auto

lemma posix_lf_empty: "posix_lf s = [] \<longleftrightarrow> s = []"
  by (induction s rule: posix_lf.induct) auto

lemma posix_lf_id: "carriage \<notin> set s \<Longrightarrow> posix_lf s = s"
  by (induction s rule: posix_lf.induct) auto

lemma normalized:
  assumes "normalize_contents payload = Inr data"
  shows "carriage \<notin> set data" "data \<noteq> []" "last data = newline"
    and "filter (\<lambda>c. c \<noteq> carriage \<and> c \<noteq> newline) data = filter (\<lambda>c. c \<noteq> carriage \<and> c \<noteq> newline) payload"
    and "carriage \<notin> set payload \<Longrightarrow> data = payload \<or> data = payload @ [newline]"
proof -
  have "payload \<noteq> []" "data = posix_lf payload \<and> posix_lf payload ! (length (posix_lf payload) - 1) = newline \<or> data = posix_lf payload @ [newline]"
    using assms by (auto simp: normalize_contents_def Let_def split: if_splits)
  moreover have "carriage \<noteq> newline" by simp
  ultimately show "carriage \<notin> set data" "data \<noteq> []" "last data = newline"
    and "filter (\<lambda>c. c \<noteq> carriage \<and> c \<noteq> newline) data = filter (\<lambda>c. c \<noteq> carriage \<and> c \<noteq> newline) payload"
    and "carriage \<notin> set payload \<Longrightarrow> data = payload \<or> data = payload @ [newline]"
    using posix_lf_clean [of payload] posix_lf_rest [of payload] posix_lf_empty [of payload] posix_lf_id [of payload]
    by (auto simp: last_conv_nth)
qed

lemma path_dir_shorter: "path_dir (path_join d x) \<noteq> path_join d x"
proof -
  have "last_index_byte slash (path_join d x) \<noteq> None" by (simp add: path_join_def last_index_byte_None)
  then obtain i where "last_index_byte slash (path_join d x) = Some i" "i < length (path_join d x)"
    using last_index_byte_Some by blast
  then show ?thesis by (metis length_take min.absorb2 nat_less_le option.simps(5) path_dir_def)
qed

text \<open>A write with its guards passed.\<close>

lemma mutate_note_run:
  assumes "mutate_note E i f m = (Inr r, m')"
  shows "scope_require (mc_disk m) (ni_scope i) (ni_dir i) = None" "f (input_file i) m = (Inr (), m')"
    "refuse_mid_rebase E (ni_scope i) (ni_dir i) m = None"
  using assms
  by (auto simp: mutate_note_def require_dir_def refuse_stopped_def act_bind_Inr act_read_iff split: option.splits)

lemma note_write_run:
  assumes "note_write E (input_file i) data m = (Inr (), m')" "\<not> is_directory (mc_disk m) (input_file i)"
  shows "disk_file (mc_disk m') = (disk_file (mc_disk m))(input_file i \<mapsto> \<lparr>f_data = data, f_mtime = mc_clock m\<rparr>)"
    "mc_db m' = mc_db m" "mc_calls m' = mc_calls m" "\<not> is_directory (mc_disk m') (input_file i)"
    "set (dk_dirs (mc_disk m)) \<subseteq> set (dk_dirs (mc_disk m'))" "dk_locked (mc_disk m') = dk_locked (mc_disk m)"
proof -
  have w: "atomic_write E (input_file i) data m = (Inr (), m')"
    using assms(1) by (auto simp: note_write_def act_lift_Inr)
  from atomic_write_run [OF this]
  show "disk_file (mc_disk m') = (disk_file (mc_disk m))(input_file i \<mapsto> \<lparr>f_data = data, f_mtime = mc_clock m\<rparr>)"
    "mc_db m' = mc_db m" "mc_calls m' = mc_calls m" by auto
  have "path_dir (input_file i) \<noteq> input_file i" unfolding input_file_def note_file_def by (rule path_dir_shorter)
  with w assms(2) show "\<not> is_directory (mc_disk m') (input_file i)" "set (dk_dirs (mc_disk m)) \<subseteq> set (dk_dirs (mc_disk m'))"
    "dk_locked (mc_disk m') = dk_locked (mc_disk m)"
    by (auto simp: is_directory_def atomic_write_def put_file_def make_dir_def split: if_splits)
qed


section \<open>Appending\<close>

lemma append_line_keeps:
  "prefix existing (append_line existing t)" "suffix (t @ [newline]) (append_line existing t)"
  "existing = [] \<or> last (butlast (append_line existing [])) = newline"
  by (auto simp: append_line_def suffix_def last_conv_nth split: if_splits)

lemma note_add_keeps:
  assumes "add_note E i t m = (Inr r, m')"
  shows "\<exists>old. (case contents m (input_file i) of None \<Rightarrow> old = [] | Some d \<Rightarrow> old = d) \<and>
    contents m' = (contents m)(input_file i \<mapsto> append_line old t) \<and> prefix old (append_line old t) \<and> mc_db m' = mc_db m \<and> mc_calls m' = mc_calls m"
proof -
  note guards = mutate_note_run [of E i "\<lambda>path. act_bind (refuse_non_regular path) (\<lambda>_.
        act_bind (act_read (\<lambda>m. case disk_file (mc_disk m) path of
                    None \<Rightarrow> Inr []
                  | Some f \<Rightarrow> if we_fault E (IoRead path) then Inl (NoteUnread path) else Inr (f_data f))) (\<lambda>existing.
          note_write E path (append_line existing t)))" m r m']
  obtain old where old: "case contents m (input_file i) of None \<Rightarrow> old = [] | Some d \<Rightarrow> old = d"
    and dir: "\<not> is_directory (mc_disk m) (input_file i)" and wrote: "note_write E (input_file i) (append_line old t) m = (Inr (), m')"
    using guards assms
    by (auto simp: add_note_def refuse_non_regular_def contents_def act_bind_Inr act_read_iff act_fail_iff
        split: if_splits option.splits)
  from note_write_run [OF wrote dir] have "contents m' = (contents m)(input_file i \<mapsto> append_line old t)" "mc_db m' = mc_db m" "mc_calls m' = mc_calls m"
    by (simp_all add: contents_def fun_eq_iff)
  with old append_line_keeps(1) show ?thesis by blast
qed

section \<open>A note\<close>

definition note_sample :: note_input where
  "note_sample = \<lparr>ni_scope = ''app'', ni_dir = ''/s'', ni_slug = ''todo'', ni_base = missing_clobber_key\<rparr>"

abbreviation note_run :: "(note_error + note_result) \<times> machine" where
  "note_run \<equiv> set_note (table_env [] plain_schema) (\<lambda>s. s) note_sample (''a'' @ [carriage, newline] @ ''b'') (machine_of [])"

lemma note_run_done: "fst note_run = Inr \<lparr>nr_path = ''/s/notes/todo.md'', nr_slug = ''todo'', nr_body = [], nr_sync = []\<rparr>"
  by code_simp


end
